(* ===== verification/Fe_Prelude.thy ===== *)
theory Fe_Prelude
  imports Complex_Main "HOL-Library.Word"
begin

text \<open>
  Shared vocabulary of the development: the names of the C types, the state and error monad
  the stateful code is written in, the rules that carry relations between the state before and
  the state after through a computation, and a few generic lemmas on lists and words.
\<close>

unbundle bit_operations_syntax

type_synonym u32 = "32 word"
type_synonym size_t = "64 word"
type_synonym u64 = "64 word"

named_theorems run_simps \<open>one-step execution of monadic code\<close>
named_theorems frame_rules \<open>what a computation leaves alone\<close>

section \<open>Computations with state and errors\<close>

text \<open>
  \<^verbatim>\<open>fe_error\<close> leaves a computation by \<^verbatim>\<open>longjmp\<close>; the context stays as it was at that
  moment. A computation therefore returns the final state in both cases.
\<close>

type_synonym ('s, 'e, 'a) comp = "'s \<Rightarrow> ('e + 'a) \<times> 's"

definition ret :: "'a \<Rightarrow> ('s, 'e, 'a) comp" where
  "ret x s = (Inr x, s)"

definition throw :: "'e \<Rightarrow> ('s, 'e, 'a) comp" where
  "throw e s = (Inl e, s)"

definition bnd :: "('s, 'e, 'a) comp \<Rightarrow> ('a \<Rightarrow> ('s, 'e, 'b) comp) \<Rightarrow> ('s, 'e, 'b) comp" where
  "bnd m f s = (case m s of (Inl e, s') \<Rightarrow> (Inl e, s') | (Inr x, s') \<Rightarrow> f x s')"

definition sq :: "('s, 'e, 'a) comp \<Rightarrow> ('s, 'e, 'b) comp \<Rightarrow> ('s, 'e, 'b) comp" where
  "sq m n = bnd m (\<lambda>_. n)"

definition gets :: "('s \<Rightarrow> 'a) \<Rightarrow> ('s, 'e, 'a) comp" where
  "gets f s = (Inr (f s), s)"

definition modify :: "('s \<Rightarrow> 's) \<Rightarrow> ('s, 'e, unit) comp" where
  "modify f s = (Inr (), f s)"

text \<open>A total state transformer with a result, as a computation that never fails.\<close>

definition lift_st :: "('s \<Rightarrow> 'a \<times> 's) \<Rightarrow> ('s, 'e, 'a) comp" where
  "lift_st f s = (let (x, s') = f s in (Inr x, s'))"

lemmas comp_defs = ret_def throw_def bnd_def sq_def gets_def modify_def lift_st_def

lemma bnd_Inr [run_simps]: "m s = (Inr x, s') \<Longrightarrow> bnd m f s = f x s'"
  by (simp add: bnd_def)

lemma bnd_Inl [run_simps]: "m s = (Inl e, s') \<Longrightarrow> bnd m f s = (Inl e, s')"
  by (simp add: bnd_def)

lemma bnd_ret [run_simps, simp]: "bnd (ret x) f = f x"
  by (simp add: fun_eq_iff bnd_def ret_def)

lemma bnd_gets [run_simps]: "bnd (gets g) f s = f (g s) s"
  by (simp add: bnd_def gets_def)

lemma bnd_modify [run_simps]: "bnd (modify g) f s = f () (g s)"
  by (simp add: bnd_def modify_def)

lemma sq_modify [run_simps]: "sq (modify g) m s = m (g s)"
  by (simp add: sq_def bnd_def modify_def)

lemma bnd_lift_st [run_simps]: "bnd (lift_st g) f s = (case g s of (x, s') \<Rightarrow> f x s')"
  by (simp add: bnd_def lift_st_def split: prod.splits)

lemma bnd_throw [run_simps]: "bnd (throw e) f s = (Inl e, s)"
  by (simp add: bnd_def throw_def)

lemma bnd_assoc: "bnd (bnd m f) g = bnd m (\<lambda>x. bnd (f x) g)"
  by (auto simp: fun_eq_iff bnd_def split: sum.splits prod.splits)

lemma bnd_InrE:
  assumes "bnd m f s = (Inr y, s'')"
  obtains x s' where "m s = (Inr x, s')" and "f x s' = (Inr y, s'')"
  using assms by (auto simp: bnd_def split: sum.splits prod.splits)

lemma sq_InrE:
  assumes "sq m n s = (Inr y, s'')"
  obtains x s' where "m s = (Inr x, s')" and "n s' = (Inr y, s'')"
  using assms unfolding sq_def by (rule bnd_InrE)

section \<open>Relations between the state before and after\<close>

text \<open>
  \<open>steps R m\<close>: whatever \<open>m\<close> returns or raises, the state it leaves is related by \<open>R\<close> to
  the state it started in. For a reflexive and transitive \<open>R\<close> (an invariant that is kept, a
  field that is framed, a counter that only grows) the relation passes through the whole
  monadic program.
\<close>

definition steps :: "('s \<Rightarrow> 's \<Rightarrow> bool) \<Rightarrow> ('s, 'e, 'a) comp \<Rightarrow> bool" where
  "steps R m \<longleftrightarrow> (\<forall>s. R s (snd (m s)))"

lemma stepsI: "(\<And>s r s'. m s = (r, s') \<Longrightarrow> R s s') \<Longrightarrow> steps R m"
  by (simp add: steps_def) (metis surjective_pairing)

lemma stepsD: "steps R m \<Longrightarrow> m s = (r, s') \<Longrightarrow> R s s'"
  by (metis steps_def snd_conv)

locale state_order =
  fixes R :: "'s \<Rightarrow> 's \<Rightarrow> bool"
  assumes R_refl: "R s s"
    and R_trans: "R s t \<Longrightarrow> R t u \<Longrightarrow> R s u"
begin

lemma steps_ret: "steps R (ret x)"
  by (simp add: steps_def ret_def R_refl)

lemma steps_throw: "steps R (throw e)"
  by (simp add: steps_def throw_def R_refl)

lemma steps_gets: "steps R (gets f)"
  by (simp add: steps_def gets_def R_refl)

lemma steps_bnd:
  assumes "steps R m" and "\<And>x. steps R (f x)"
  shows "steps R (bnd m f)"
proof (rule stepsI)
  fix s r s'
  assume eq: "bnd m f s = (r, s')"
  obtain q t where m: "m s = (q, t)" by (cases "m s")
  then have 1: "R s t" by (rule stepsD [OF assms(1)])
  show "R s s'"
  proof (cases q)
    case (Inl e)
    with eq m 1 show ?thesis by (simp add: bnd_def)
  next
    case (Inr x)
    with eq m have "f x t = (r, s')" by (simp add: bnd_def)
    then have "R t s'" by (rule stepsD [OF assms(2)])
    with 1 show ?thesis by (rule R_trans)
  qed
qed

lemma steps_sq: "steps R m \<Longrightarrow> steps R n \<Longrightarrow> steps R (sq m n)"
  unfolding sq_def by (rule steps_bnd)

lemma steps_if: "(b \<Longrightarrow> steps R m) \<Longrightarrow> (\<not> b \<Longrightarrow> steps R n) \<Longrightarrow> steps R (if b then m else n)"
  by simp

lemma steps_modify: "(\<And>s. R s (f s)) \<Longrightarrow> steps R (modify f)"
  by (simp add: steps_def modify_def)

lemma steps_lift_st: "(\<And>s. R s (snd (f s))) \<Longrightarrow> steps R (lift_st f)"
  by (simp add: steps_def lift_st_def case_prod_beta Let_def)

lemma steps_option:
  "steps R n \<Longrightarrow> (\<And>x. o' = Some x \<Longrightarrow> steps R (f x)) \<Longrightarrow>
   steps R (case o' of None \<Rightarrow> n | Some x \<Rightarrow> f x)"
  by (cases o') simp_all

lemma steps_prod: "(\<And>x y. p = (x, y) \<Longrightarrow> steps R (f x y)) \<Longrightarrow> steps R (case p of (x, y) \<Rightarrow> f x y)"
  by (cases p) simp

lemmas steps_intros =
  steps_ret steps_throw steps_gets steps_bnd steps_sq steps_if steps_option steps_prod

end

text \<open>Keeping an invariant and keeping a field are both such relations.\<close>

definition keeps :: "('s \<Rightarrow> bool) \<Rightarrow> 's \<Rightarrow> 's \<Rightarrow> bool" where
  "keeps I s s' \<longleftrightarrow> (I s \<longrightarrow> I s')"

definition fixes_field :: "('s \<Rightarrow> 'b) \<Rightarrow> 's \<Rightarrow> 's \<Rightarrow> bool" where
  "fixes_field f s s' \<longleftrightarrow> f s' = f s"

interpretation inv_order: state_order "keeps I" for I
  by unfold_locales (simp_all add: keeps_def)

interpretation field_order: state_order "fixes_field f" for f
  by unfold_locales (simp_all add: fixes_field_def)

section \<open>Weakest preconditions\<close>

text \<open>
  \<open>wp m P E s\<close>: run from \<open>s\<close>, the computation ends in a result and state that satisfy \<open>P\<close> or
  in an error and state that satisfy \<open>E\<close>. The rules compute it backwards through the code.
\<close>

named_theorems wp_simps \<open>backward rules\<close>

definition wp :: "('s, 'e, 'a) comp \<Rightarrow> ('a \<Rightarrow> 's \<Rightarrow> bool) \<Rightarrow> ('e \<Rightarrow> 's \<Rightarrow> bool) \<Rightarrow> 's \<Rightarrow> bool" where
  "wp m P E s = (case m s of (Inr x, s') \<Rightarrow> P x s' | (Inl e, s') \<Rightarrow> E e s')"

lemma wp_ret [wp_simps]: "wp (ret x) P E s = P x s"
  by (simp add: wp_def ret_def)

lemma wp_throw [wp_simps]: "wp (throw e) P E s = E e s"
  by (simp add: wp_def throw_def)

lemma wp_bnd [wp_simps]: "wp (bnd m f) P E s = wp m (\<lambda>x. wp (f x) P E) E s"
  by (simp add: wp_def bnd_def split: prod.splits sum.splits)

lemma wp_sq [wp_simps]: "wp (sq m n) P E s = wp m (\<lambda>_. wp n P E) E s"
  by (simp add: sq_def wp_bnd)

lemma wp_gets [wp_simps]: "wp (gets f) P E s = P (f s) s"
  by (simp add: wp_def gets_def)

lemma wp_modify [wp_simps]: "wp (modify f) P E s = P () (f s)"
  by (simp add: wp_def modify_def)

lemma wp_lift_st [wp_simps]: "wp (lift_st f) P E s = P (fst (f s)) (snd (f s))"
  by (simp add: wp_def lift_st_def split: prod.splits)

lemma wp_if [wp_simps]: "wp (if b then m else n) P E s = (if b then wp m P E s else wp n P E s)"
  by simp

lemma wp_case_option [wp_simps]:
  "wp (case o' of None \<Rightarrow> m | Some x \<Rightarrow> f x) P E s =
     (case o' of None \<Rightarrow> wp m P E s | Some x \<Rightarrow> wp (f x) P E s)"
  by (simp split: option.split)

lemma wp_case_prod [wp_simps]:
  "wp (case p of (x, y) \<Rightarrow> f x y) P E s = (case p of (x, y) \<Rightarrow> wp (f x y) P E s)"
  by (simp split: prod.split)

lemma wp_mono:
  "wp m P E s \<Longrightarrow> (\<And>x t. P x t \<Longrightarrow> Q x t) \<Longrightarrow> (\<And>e t. E e t \<Longrightarrow> F e t) \<Longrightarrow> wp m Q F s"
  by (auto simp: wp_def split: prod.splits sum.splits)

lemma wp_Inr: "m s = (Inr x, s') \<Longrightarrow> wp m P E s = P x s'"
  by (simp add: wp_def)

lemma wpD: "wp m P E s \<Longrightarrow> m s = (Inr x, s') \<Longrightarrow> P x s'"
  by (simp add: wp_def)

lemma wp_errD: "wp m P E s \<Longrightarrow> m s = (Inl e, s') \<Longrightarrow> E e s'"
  by (simp add: wp_def)

lemma wp_returns:
  "wp m P (\<lambda>_ _. False) s \<longleftrightarrow> (\<exists>x s'. m s = (Inr x, s') \<and> P x s')"
  by (auto simp: wp_def split: prod.splits sum.splits)

lemma wpI:
  "(\<And>x s'. m s = (Inr x, s') \<Longrightarrow> P x s') \<Longrightarrow> (\<And>e s'. m s = (Inl e, s') \<Longrightarrow> E e s') \<Longrightarrow> wp m P E s"
  by (auto simp: wp_def split: prod.splits sum.splits)

text \<open>A relation every step respects is a precondition for what it implies.\<close>

lemma wp_steps:
  "steps R m \<Longrightarrow> (\<And>x t. R s t \<Longrightarrow> P x t) \<Longrightarrow> (\<And>e t. R s t \<Longrightarrow> E e t) \<Longrightarrow> wp m P E s"
  by (rule wpI) (blast dest: stepsD)+

section \<open>Lists\<close>

lemma distinct_length_le: "distinct xs \<Longrightarrow> set xs \<subseteq> {..<n} \<Longrightarrow> length xs \<le> n"
  by (metis card_lessThan card_mono distinct_card finite_lessThan)

lemma nth_update_notin: "i \<notin> set ks \<Longrightarrow> j \<in> set ks \<Longrightarrow> xs[i := x] ! j = xs ! j"
  by (metis nth_list_update_neq)

end
