(* ===== verification/Fe_Number.thy ===== *)
theory Fe_Number
  imports Fe_Prelude
begin

text \<open>
  \<^verbatim>\<open>fe_Number\<close> is the C type \<^verbatim>\<open>double\<close>: IEEE binary64 with rounding to nearest, ties to
  even. A finite value is kept as the rational number it denotes; the negative zero is a value
  of its own. \<open>round_num\<close> is the rounding of an exact result, so the operators below are the
  C operators on doubles.
\<close>

section \<open>Binary64\<close>

datatype fe_Number = NaN | PInf | NInf | NegZero | Fin rat

definition pow2 :: "int \<Rightarrow> rat" where
  "pow2 k = (if 0 \<le> k then 2 ^ nat k else 1 / 2 ^ nat (- k))"

fun bitlen :: "nat \<Rightarrow> nat" where
  "bitlen n = (if n = 0 then 0 else Suc (bitlen (n div 2)))"

declare bitlen.simps [simp del]

text \<open>The exponent of a nonzero rational: the integer part of its binary logarithm.\<close>

definition rat_exp :: "rat \<Rightarrow> int" where
  "rat_exp r =
     (let (a, b) = quotient_of \<bar>r\<bar>;
          k = int (bitlen (nat a)) - int (bitlen (nat b))
      in if \<bar>r\<bar> < pow2 k then k - 1 else k)"

definition round_even :: "rat \<Rightarrow> int" where
  "round_even r =
     (let f = \<lfloor>r\<rfloor>; d = r - of_int f
      in if d < 1 / 2 then f else if 1 / 2 < d then f + 1 else if even f then f else f + 1)"

definition num_limit :: rat where
  "num_limit = 2 ^ 1024"

definition round_num :: "rat \<Rightarrow> fe_Number" where
  "round_num r =
     (if r = 0 then Fin 0
      else let q = pow2 (max (rat_exp r) (-1022) - 52);
               v = of_int (round_even (r / q)) * q
           in if num_limit \<le> v then PInf
              else if v \<le> - num_limit then NInf
              else if v = 0 then (if r < 0 then NegZero else Fin 0)
              else Fin v)"

definition num_of_int :: "int \<Rightarrow> fe_Number" where
  "num_of_int i = round_num (of_int i)"

text \<open>The values a double can hold.\<close>

definition is_double :: "fe_Number \<Rightarrow> bool" where
  "is_double x = (case x of Fin r \<Rightarrow> round_num r = Fin r | _ \<Rightarrow> True)"

section \<open>Operators\<close>

fun num_rat :: "fe_Number \<Rightarrow> rat" where
  "num_rat (Fin r) = r"
| "num_rat _ = 0"

fun num_negative :: "fe_Number \<Rightarrow> bool" where
  "num_negative (Fin r) = (r < 0)"
| "num_negative NegZero = True"
| "num_negative NInf = True"
| "num_negative _ = False"

fun num_neg :: "fe_Number \<Rightarrow> fe_Number" where
  "num_neg NaN = NaN"
| "num_neg PInf = NInf"
| "num_neg NInf = PInf"
| "num_neg NegZero = Fin 0"
| "num_neg (Fin r) = (if r = 0 then NegZero else Fin (- r))"

fun num_add :: "fe_Number \<Rightarrow> fe_Number \<Rightarrow> fe_Number" where
  "num_add NaN y = NaN"
| "num_add x NaN = NaN"
| "num_add PInf y = (if y = NInf then NaN else PInf)"
| "num_add NInf y = (if y = PInf then NaN else NInf)"
| "num_add x PInf = PInf"
| "num_add x NInf = NInf"
| "num_add NegZero NegZero = NegZero"
| "num_add x y = round_num (num_rat x + num_rat y)"

definition num_sub :: "fe_Number \<Rightarrow> fe_Number \<Rightarrow> fe_Number" where
  "num_sub x y = num_add x (num_neg y)"

definition signed_zero :: "bool \<Rightarrow> fe_Number" where
  "signed_zero neg = (if neg then NegZero else Fin 0)"

definition signed_inf :: "bool \<Rightarrow> fe_Number" where
  "signed_inf neg = (if neg then NInf else PInf)"

definition num_is_inf :: "fe_Number \<Rightarrow> bool" where
  "num_is_inf x \<longleftrightarrow> x = PInf \<or> x = NInf"

definition num_is_zero :: "fe_Number \<Rightarrow> bool" where
  "num_is_zero x \<longleftrightarrow> x = NegZero \<or> x = Fin 0"

definition num_mul :: "fe_Number \<Rightarrow> fe_Number \<Rightarrow> fe_Number" where
  "num_mul x y =
     (let neg = (num_negative x \<noteq> num_negative y)
      in if x = NaN \<or> y = NaN then NaN
         else if num_is_inf x \<or> num_is_inf y
           then (if num_is_zero x \<or> num_is_zero y then NaN else signed_inf neg)
         else if num_is_zero x \<or> num_is_zero y then signed_zero neg
         else round_num (num_rat x * num_rat y))"

definition num_div :: "fe_Number \<Rightarrow> fe_Number \<Rightarrow> fe_Number" where
  "num_div x y =
     (let neg = (num_negative x \<noteq> num_negative y)
      in if x = NaN \<or> y = NaN then NaN
         else if num_is_inf x then (if num_is_inf y then NaN else signed_inf neg)
         else if num_is_inf y then signed_zero neg
         else if num_is_zero y then (if num_is_zero x then NaN else signed_inf neg)
         else if num_is_zero x then signed_zero neg
         else round_num (num_rat x / num_rat y))"

fun num_lt :: "fe_Number \<Rightarrow> fe_Number \<Rightarrow> bool" where
  "num_lt NaN y = False"
| "num_lt x NaN = False"
| "num_lt PInf y = False"
| "num_lt x NInf = False"
| "num_lt NInf y = True"
| "num_lt x PInf = True"
| "num_lt x y = (num_rat x < num_rat y)"

fun num_eq :: "fe_Number \<Rightarrow> fe_Number \<Rightarrow> bool" where
  "num_eq NaN y = False"
| "num_eq x NaN = False"
| "num_eq PInf y = (y = PInf)"
| "num_eq NInf y = (y = NInf)"
| "num_eq x PInf = False"
| "num_eq x NInf = False"
| "num_eq x y = (num_rat x = num_rat y)"

definition num_le :: "fe_Number \<Rightarrow> fe_Number \<Rightarrow> bool" where
  "num_le x y \<longleftrightarrow> num_lt x y \<or> num_eq x y"

text \<open>
  The conversion \<^verbatim>\<open>(intptr_t)v\<close> truncates towards zero. Outside the range of \<^verbatim>\<open>intptr_t\<close>, and
  for infinities and NaN, C leaves it undefined: \<open>None\<close>.
\<close>

definition trunc_rat :: "rat \<Rightarrow> int" where
  "trunc_rat r = (if r < 0 then - \<lfloor>- r\<rfloor> else \<lfloor>r\<rfloor>)"

fun num_to_intptr :: "fe_Number \<Rightarrow> int option" where
  "num_to_intptr (Fin r) =
     (let t = trunc_rat r in if - (2 ^ 63) \<le> t \<and> t < 2 ^ 63 then Some t else None)"
| "num_to_intptr NegZero = Some 0"
| "num_to_intptr _ = None"

section \<open>Rounding is exact on what a double can hold\<close>

lemma pow2_pos [simp]: "0 < pow2 k"
  by (simp add: pow2_def)

lemma pow2_nonzero [simp]: "pow2 k \<noteq> 0"
  using pow2_pos [of k] by linarith

lemma pow2_powi: "pow2 k = 2 powi k"
  by (auto simp: pow2_def power_int_def field_simps power_one_over)

lemma pow2_add: "pow2 (a + b) = pow2 a * pow2 b"
  by (simp add: pow2_powi power_int_add)

lemma pow2_0 [simp]: "pow2 0 = 1"
  by (simp add: pow2_def)

lemma pow2_mono_less: "a < b \<longleftrightarrow> pow2 a < pow2 b"
proof -
  have *: "a < b \<Longrightarrow> pow2 a < pow2 b" for a b
    by (simp add: pow2_powi power_int_strict_increasing)
  show ?thesis using * [of a b] * [of b a] by (metis linorder_neqE order_less_asym)
qed

lemma pow2_mono: "a \<le> b \<longleftrightarrow> pow2 a \<le> pow2 b"
  using pow2_mono_less [of b a] by linarith

lemma pow2_of_int: "0 \<le> k \<Longrightarrow> pow2 k = of_int (2 ^ nat k)"
  by (simp add: pow2_def)

lemma round_even_int [simp]: "round_even (of_int n) = n"
  by (simp add: round_even_def)

lemma bitlen_bounds: "0 < n \<Longrightarrow> 2 ^ (bitlen n - 1) \<le> n \<and> n < 2 ^ bitlen n"
proof (induction n rule: bitlen.induct)
  case (1 n)
  show ?case
  proof (cases "n div 2 = 0")
    case True
    with "1.prems" have "n = 1" by linarith
    then show ?thesis by (simp add: bitlen.simps)
  next
    case False
    with "1" have IH: "2 ^ (bitlen (n div 2) - 1) \<le> n div 2 \<and> n div 2 < 2 ^ bitlen (n div 2)"
      by simp
    from False have "0 < bitlen (n div 2)" by (simp add: bitlen.simps)
    then obtain k where k: "bitlen (n div 2) = Suc k" by (cases "bitlen (n div 2)") auto
    have "bitlen n = Suc (Suc k)" using "1.prems" k by (subst bitlen.simps) simp
    moreover have "2 ^ k \<le> n div 2" "n div 2 < 2 * 2 ^ k" using IH k by simp_all
    ultimately show ?thesis by auto
  qed
qed

lemma bitlen_pow2:
  assumes "0 < n"
  shows "pow2 (int (bitlen n) - 1) \<le> of_nat n \<and> of_nat n < pow2 (int (bitlen n))"
proof -
  have "0 < bitlen n" using assms by (simp add: bitlen.simps)
  then have "pow2 (int (bitlen n) - 1) = of_nat (2 ^ (bitlen n - 1))"
    by (auto simp: pow2_def nat_diff_distrib')
  moreover have "pow2 (int (bitlen n)) = of_nat (2 ^ bitlen n)"
    by (simp add: pow2_def)
  ultimately show ?thesis
    using bitlen_bounds [OF assms] by (metis of_nat_le_iff of_nat_less_iff)
qed

lemma rat_exp_bounds:
  assumes "r \<noteq> 0"
  shows "pow2 (rat_exp r) \<le> \<bar>r\<bar> \<and> \<bar>r\<bar> < pow2 (rat_exp r + 1)"
proof -
  obtain a b where ab: "quotient_of \<bar>r\<bar> = (a, b)" by (cases "quotient_of \<bar>r\<bar>")
  have b: "0 < b" using ab by (rule quotient_of_denom_pos)
  have r: "\<bar>r\<bar> = of_int a / of_int b" using ab by (rule quotient_of_div)
  with assms b have a: "0 < a" by (metis of_int_0_less_iff zero_less_abs_iff zero_less_divide_iff order_less_asym)
  define la lb where "la = bitlen (nat a)" and "lb = bitlen (nat b)"
  have A': "pow2 (int la - 1) \<le> of_int a" "of_int a < pow2 (int la)"
    using bitlen_pow2 [of "nat a"] a by (simp_all add: la_def)
  have B': "pow2 (int lb - 1) \<le> of_int b" "of_int b < pow2 (int lb)"
    using bitlen_pow2 [of "nat b"] b by (simp_all add: lb_def)
  define k where "k = int la - int lb"
  have up: "\<bar>r\<bar> < pow2 (k + 1)"
  proof -
    have "of_int a < pow2 (int la)" by (rule A'(2))
    also have "\<dots> = pow2 (k + 1) * pow2 (int lb - 1)" by (simp add: k_def flip: pow2_add)
    also have "\<dots> \<le> pow2 (k + 1) * of_int b" using B'(1) by simp
    finally show ?thesis using b by (simp add: r field_simps)
  qed
  have lo: "pow2 (k - 1) < \<bar>r\<bar>"
  proof -
    have "pow2 (k - 1) * of_int b < pow2 (k - 1) * pow2 (int lb)" using B'(2) by simp
    also have "\<dots> = pow2 (int la - 1)" by (simp add: k_def flip: pow2_add)
    also have "\<dots> \<le> of_int a" by (rule A'(1))
    finally show ?thesis using b by (simp add: r field_simps)
  qed
  have "rat_exp r = (if \<bar>r\<bar> < pow2 k then k - 1 else k)"
    by (simp add: rat_exp_def ab k_def la_def lb_def)
  with up lo show ?thesis by auto
qed

lemma rat_exp_unique:
  assumes "pow2 e \<le> \<bar>r\<bar>" and "\<bar>r\<bar> < pow2 (e + 1)"
  shows "rat_exp r = e"
proof -
  have "r \<noteq> 0" using assms(1) pow2_pos [of e] by (metis abs_zero not_le)
  note E = rat_exp_bounds [OF this]
  have "pow2 e < pow2 (rat_exp r + 1)" "pow2 (rat_exp r) < pow2 (e + 1)"
    using assms E by linarith+
  then show ?thesis by (simp flip: pow2_mono_less)
qed

lemma round_even_abs_le:
  assumes "\<bar>x\<bar> < of_int n"
  shows "\<bar>round_even x\<bar> \<le> n"
proof -
  have "- n \<le> \<lfloor>x\<rfloor>" "\<lfloor>x\<rfloor> < n"
    using assms by (simp_all add: le_floor_iff floor_less_iff abs_less_iff)
  moreover have "\<lfloor>x\<rfloor> \<le> round_even x" "round_even x \<le> \<lfloor>x\<rfloor> + 1"
    by (simp_all add: round_even_def Let_def)
  ultimately show ?thesis by linarith
qed

text \<open>A number of the form \<open>n * 2 ^ k\<close> with a 53-bit significand survives rounding unchanged.\<close>

lemma round_num_exact:
  assumes r: "r = of_int n * pow2 k" and n: "\<bar>n\<bar> \<le> 2 ^ 53" and k: "-1074 \<le> k"
    and fin: "\<bar>r\<bar> < num_limit"
  shows "round_num r = Fin r"
proof (cases "r = 0")
  case True
  then show ?thesis by (simp add: round_num_def)
next
  case False
  define s where "s = max (rat_exp r) (-1022) - 52"
  note E = rat_exp_bounds [OF False]
  have "\<exists>m. r / pow2 s = of_int m"
  proof (cases "s \<le> k")
    case True
    have "r / pow2 s = of_int n * pow2 (k - s)"
      using r pow2_add [of "k - s" s] by simp
    also have "\<dots> = of_int (n * 2 ^ nat (k - s))" using True by (simp add: pow2_of_int)
    finally show ?thesis by blast
  next
    case False
    with k have s: "s = rat_exp r - 52" by (simp add: s_def)
    have an: "\<bar>r\<bar> = of_int \<bar>n\<bar> * pow2 k" by (simp add: r abs_mult less_imp_le)
    have "pow2 (53 + k) \<le> pow2 (rat_exp r)" using False s by (simp flip: pow2_mono)
    also have "\<dots> \<le> of_int \<bar>n\<bar> * pow2 k" using E an by simp
    finally have "pow2 53 \<le> of_int \<bar>n\<bar>" by (simp add: pow2_add)
    then have "2 ^ 53 \<le> \<bar>n\<bar>" by (simp add: pow2_def)
    with n have n': "\<bar>n\<bar> = 2 ^ 53" by simp
    have "rat_exp r = 53 + k"
      by (rule rat_exp_unique) (simp_all add: an n' pow2_add, simp_all add: pow2_def)
    with s have sk: "s = k + 1" by simp
    from n' have "even n" by (metis dvd_abs_iff even_power even_numeral zero_less_numeral)
    then obtain m where "n = 2 * m" by (rule evenE)
    then have "r / pow2 s = of_int m" by (simp add: r sk pow2_add, simp add: pow2_def)
    then show ?thesis by blast
  qed
  then obtain m where m: "r / pow2 s = of_int m" by blast
  then have "of_int (round_even (r / pow2 s)) * pow2 s = r" by (simp add: field_simps)
  with False fin show ?thesis
    by (auto simp: round_num_def s_def Let_def abs_less_iff)
qed

lemma round_num_is_double: "is_double (round_num r)"
proof (cases "round_num r")
  case (Fin v)
  show ?thesis
  proof (cases "r = 0")
    case True
    then show ?thesis by (simp add: round_num_def is_double_def)
  next
    case False
    define s where "s = max (rat_exp r) (-1022) - 52"
    define m where "m = round_even (r / pow2 s)"
    have v: "v = of_int m * pow2 s" and fin: "\<bar>v\<bar> < num_limit"
      using Fin False by (auto simp: round_num_def s_def m_def Let_def abs_less_iff split: if_splits)
    have "\<bar>r\<bar> < pow2 (s + 53)"
      using rat_exp_bounds [OF False] pow2_mono [of "rat_exp r + 1" "s + 53"]
      by (simp add: s_def)
    then have "\<bar>r / pow2 s\<bar> < of_int (2 ^ 53)"
      by (simp add: pow2_add abs_divide less_imp_le field_simps) (simp add: pow2_def)
    then have "\<bar>m\<bar> \<le> 2 ^ 53" unfolding m_def by (rule round_even_abs_le)
    then have "round_num v = Fin v"
      by (rule round_num_exact [OF v]) (simp_all add: s_def fin)
    then show ?thesis by (simp add: Fin is_double_def)
  qed
qed (simp_all add: is_double_def)

lemma num_of_int_small: "\<bar>i\<bar> \<le> 2 ^ 53 \<Longrightarrow> num_of_int i = Fin (of_int i)"
proof -
  assume i: "\<bar>i\<bar> \<le> 2 ^ 53"
  have "\<bar>of_int i :: rat\<bar> \<le> of_int (2 ^ 53)" using i by (metis of_int_abs of_int_le_iff)
  also have "\<dots> < num_limit" by (simp add: num_limit_def)
  finally show ?thesis
    unfolding num_of_int_def using i by (intro round_num_exact [where n = i and k = 0]) simp_all
qed

text \<open>Rounding does not pass a power of two.\<close>

lemma round_num_bound:
  assumes r: "\<bar>r\<bar> < pow2 e" and e: "-1021 \<le> e" "e \<le> 1000"
  shows "(\<exists>v. round_num r = Fin v \<and> \<bar>v\<bar> \<le> pow2 e) \<or> round_num r = NegZero"
proof (cases "r = 0")
  case True
  then show ?thesis by (simp add: round_num_def less_imp_le)
next
  case False
  define s where "s = max (rat_exp r) (-1022) - 52"
  define m where "m = round_even (r / pow2 s)"
  have "pow2 (rat_exp r) < pow2 e" using rat_exp_bounds [OF False] r by linarith
  then have "rat_exp r < e" by (simp flip: pow2_mono_less)
  then have se: "s \<le> e" using e by (simp add: s_def)
  have *: "pow2 e = of_int (2 ^ nat (e - s)) * pow2 s"
    using se pow2_of_int [of "e - s"] pow2_add [of "e - s" s] by simp
  have "\<bar>r / pow2 s\<bar> < of_int (2 ^ nat (e - s))"
    using r unfolding * by (simp add: abs_divide less_imp_le field_simps)
  then have "\<bar>m\<bar> \<le> 2 ^ nat (e - s)" unfolding m_def by (rule round_even_abs_le)
  then have "\<bar>of_int m * pow2 s\<bar> \<le> pow2 e"
    unfolding * by (simp add: abs_mult less_imp_le) (metis of_int_abs of_int_le_iff of_int_numeral of_int_power)
  moreover have "pow2 e < num_limit"
    using pow2_mono_less [of e 1024] e by (simp add: num_limit_def pow2_def)
  ultimately show ?thesis
    using False by (auto simp: round_num_def Let_def abs_le_iff simp flip: s_def m_def)
qed

end
