(* ===== verification/Fe_Tag.thy ===== *)
theory Fe_Tag
  imports Fe_Number
begin

text \<open>
  Tagged object pointers (\<^verbatim>\<open>fe.h\<close>, \<^verbatim>\<open>fe_fixnum.h\<close> and the macros at the top of \<^verbatim>\<open>fe.c\<close>).
  A \<^verbatim>\<open>fe_Object*\<close> is a 64-bit word: the lowest bit marks a fixnum, the low bits \<open>10\<close> a
  boolean, and every other word is the address of the static nil object or of a cell of the
  object arena. The rest of the development works on the datatype \<open>ptr\<close>; this theory gives
  the word each pointer is represented by and shows that the macros classify and decode the
  words as the datatype says.
\<close>

section \<open>Types and pointers\<close>

datatype fe_tag =
  FE_TPAIR | FE_TFREE | FE_TNIL | FE_TNUMBER | FE_TSYMBOL | FE_TSTRING | FE_TBYTES |
  FE_TFUNC | FE_TMACRO | FE_TPRIM | FE_TCFUNC | FE_TPTR | FE_TMAP | FE_TBOOLEAN

fun tag_code :: "fe_tag \<Rightarrow> nat" where
  "tag_code FE_TPAIR = 0" | "tag_code FE_TFREE = 1" | "tag_code FE_TNIL = 2"
| "tag_code FE_TNUMBER = 3" | "tag_code FE_TSYMBOL = 4" | "tag_code FE_TSTRING = 5"
| "tag_code FE_TBYTES = 6" | "tag_code FE_TFUNC = 7" | "tag_code FE_TMACRO = 8"
| "tag_code FE_TPRIM = 9" | "tag_code FE_TCFUNC = 10" | "tag_code FE_TPTR = 11"
| "tag_code FE_TMAP = 12" | "tag_code FE_TBOOLEAN = 13"

definition typenames :: "fe_tag \<Rightarrow> string" where
  "typenames t =
     [''pair'', ''free'', ''nil'', ''number'', ''symbol'', ''string'', ''bytes'',
      ''func'', ''macro'', ''prim'', ''cfunc'', ''ptr'', ''map'', ''boolean''] ! tag_code t"

datatype ptr = Nil | Fixnum int | Boolean bool | Ref nat

section \<open>The macros on words\<close>

definition FE_IS_FIXNUM :: "64 word \<Rightarrow> bool" where
  "FE_IS_FIXNUM x \<longleftrightarrow> x AND 1 \<noteq> 0"

definition FE_FIXNUM :: "int \<Rightarrow> 64 word" where
  "FE_FIXNUM n = push_bit 1 (word_of_int n) OR 1"

definition FE_UNBOX_FIXNUM :: "64 word \<Rightarrow> int" where
  "FE_UNBOX_FIXNUM x = sint (signed_drop_bit 1 x)"

definition FE_FALSE :: "64 word" where "FE_FALSE = 0x02"
definition FE_TRUE :: "64 word" where "FE_TRUE = 0x06"

definition FE_IS_BOOLEAN :: "64 word \<Rightarrow> bool" where
  "FE_IS_BOOLEAN x \<longleftrightarrow> x AND 0x03 = 0x02"

definition GCMARKBIT :: "8 word" where "GCMARKBIT = 0x2"

definition settype_flags :: "fe_tag \<Rightarrow> 8 word" where
  "settype_flags t = push_bit 2 (of_nat (tag_code t)) OR 1"

text \<open>The \<^verbatim>\<open>type(x)\<close> macro; \<open>tag\<close> is the flags byte found at an address.\<close>

definition type_word :: "(64 word \<Rightarrow> 8 word) \<Rightarrow> 64 word \<Rightarrow> nat" where
  "type_word tag x =
     (if FE_IS_FIXNUM x then tag_code FE_TNUMBER
      else if FE_IS_BOOLEAN x then tag_code FE_TBOOLEAN
      else if tag x AND 1 \<noteq> 0 then unat (drop_bit 2 (tag x)) else tag_code FE_TPAIR)"

text \<open>The flags byte of a cell: a pair has flags \<open>0\<close>, every other type \<open>type << 2 | 1\<close>;
  the mark bit sits between the two.\<close>

definition cell_flags :: "fe_tag \<Rightarrow> bool \<Rightarrow> 8 word" where
  "cell_flags t m = (if t = FE_TPAIR then 0 else settype_flags t) OR (if m then GCMARKBIT else 0)"

section \<open>The representation of pointers\<close>

definition fixnum_range :: "int \<Rightarrow> bool" where
  "fixnum_range i \<longleftrightarrow> - (2 ^ 62) \<le> i \<and> i < 2 ^ 62"

definition sizeof_fe_Object :: nat where "sizeof_fe_Object = 24"

definition enc_ptr :: "64 word \<Rightarrow> 64 word \<Rightarrow> ptr \<Rightarrow> 64 word" where
  "enc_ptr objects nil_addr p =
     (case p of
        Nil \<Rightarrow> nil_addr
      | Fixnum i \<Rightarrow> FE_FIXNUM i
      | Boolean b \<Rightarrow> (if b then FE_TRUE else FE_FALSE)
      | Ref n \<Rightarrow> objects + of_nat (sizeof_fe_Object * n))"

text \<open>What the layout of memory gives: the arena and nil are 8-aligned, the arena does not run
  past the end of the address space, and nil is not in it.\<close>

definition arena_layout :: "64 word \<Rightarrow> 64 word \<Rightarrow> nat \<Rightarrow> bool" where
  "arena_layout objects nil_addr count \<longleftrightarrow>
     8 dvd unat objects \<and> 8 dvd unat nil_addr \<and>
     unat objects + sizeof_fe_Object * count < 2 ^ 64 \<and>
     (unat nil_addr < unat objects \<or> unat objects + sizeof_fe_Object * count \<le> unat nil_addr)"

fun valid_ptr :: "nat \<Rightarrow> ptr \<Rightarrow> bool" where
  "valid_ptr count (Fixnum i) = fixnum_range i"
| "valid_ptr count (Ref n) = (n < count)"
| "valid_ptr count _ = True"

section \<open>Lemmas\<close>

lemma FE_IS_FIXNUM_iff: "FE_IS_FIXNUM x \<longleftrightarrow> uint x mod 2 = 1"
proof -
  have "x AND 1 = word_of_int (uint x mod 2)"
    using and_mask_mod_2p [of x 1] by (simp add: mask_eq_exp_minus_1)
  moreover have "uint x mod 2 = 0 \<or> uint x mod 2 = 1" by presburger
  ultimately show ?thesis by (auto simp: FE_IS_FIXNUM_def)
qed

lemma FE_IS_BOOLEAN_iff: "FE_IS_BOOLEAN x \<longleftrightarrow> uint x mod 4 = 2"
proof -
  have "x AND 3 = word_of_int (uint x mod 4)"
    using and_mask_mod_2p [of x 2] by (simp add: mask_eq_exp_minus_1)
  moreover have "uint x mod 4 \<in> {0, 1, 2, 3}"
    using pos_mod_bound [of 4 "uint x"] pos_mod_sign [of 4 "uint x"] by auto
  ultimately show ?thesis by (auto simp: FE_IS_BOOLEAN_def)
qed

lemma FE_FIXNUM_eq: "FE_FIXNUM n = word_of_int (2 * n + 1)"
proof -
  have "push_bit 1 (word_of_int n :: 64 word) = word_of_int (2 * n)"
    by (simp add: push_bit_eq_mult)
  then show ?thesis
    by (simp add: FE_FIXNUM_def or_one_eq)
qed

lemma uint_FE_FIXNUM: "uint (FE_FIXNUM n) = (2 * n + 1) mod 2 ^ 64"
  unfolding FE_FIXNUM_eq uint_word_of_int by simp

lemma FE_IS_FIXNUM_FIXNUM: "FE_IS_FIXNUM (FE_FIXNUM n)"
proof -
  have "(2 * n + 1) mod 2 ^ 64 mod 2 = (2 * n + 1) mod (2 :: int)"
    by (rule mod_mod_cancel) simp
  then show ?thesis unfolding FE_IS_FIXNUM_iff uint_FE_FIXNUM by simp
qed

lemma FE_UNBOX_FIXNUM_FIXNUM:
  assumes "fixnum_range n"
  shows "FE_UNBOX_FIXNUM (FE_FIXNUM n) = n"
proof -
  have "0 \<le> (2 * n + 1) + 2 ^ 63" "(2 * n + 1) + 2 ^ 63 < (2 ^ 64 :: int)"
    using assms by (simp_all add: fixnum_range_def)
  then have "sint (word_of_int (2 * n + 1) :: 64 word) = 2 * n + 1"
    unfolding int_word_sint by (simp add: mod_pos_pos_trivial)
  then show ?thesis
    by (simp only: FE_UNBOX_FIXNUM_def FE_FIXNUM_eq sint_signed_drop_bit_eq drop_bit_eq_div) simp
qed

text \<open>An aligned address has none of the tag bits.\<close>

lemma aligned_not_tagged:
  assumes "8 dvd unat x"
  shows "\<not> FE_IS_FIXNUM x \<and> \<not> FE_IS_BOOLEAN x"
proof -
  have "8 dvd uint x" using assms by (metis int_dvd_int_iff of_nat_numeral uint_nat)
  then have "2 dvd uint x" "4 dvd uint x" by (auto elim: dvd_trans [rotated])
  then show ?thesis by (simp add: FE_IS_FIXNUM_iff FE_IS_BOOLEAN_iff)
qed

lemma unat_enc_Ref:
  assumes "arena_layout objects nil_addr count" and "n < count"
  shows "unat (enc_ptr objects nil_addr (Ref n)) = unat objects + sizeof_fe_Object * n"
proof -
  have "sizeof_fe_Object * n \<le> sizeof_fe_Object * count"
    using assms(2) by simp
  moreover have "unat objects + sizeof_fe_Object * count < 2 ^ 64"
    using assms(1) unfolding arena_layout_def by blast
  ultimately have lt: "unat objects + sizeof_fe_Object * n < 2 ^ 64"
    by linarith
  then have "unat (of_nat (sizeof_fe_Object * n) :: 64 word) = sizeof_fe_Object * n"
    by (subst unat_of_nat) simp
  with lt show ?thesis
    by (simp add: enc_ptr_def unat_word_ariths)
qed

lemma enc_Nil_aligned:
  "arena_layout objects nil_addr count \<Longrightarrow> 8 dvd unat (enc_ptr objects nil_addr Nil)"
  by (simp add: enc_ptr_def arena_layout_def)

lemma enc_Ref_aligned:
  assumes "arena_layout objects nil_addr count" and "n < count"
  shows "8 dvd unat (enc_ptr objects nil_addr (Ref n))"
proof -
  have "8 dvd sizeof_fe_Object * n" by (simp add: sizeof_fe_Object_def dvd_mult2)
  moreover have "8 dvd unat objects" using assms(1) by (simp add: arena_layout_def)
  ultimately show ?thesis unfolding unat_enc_Ref [OF assms] by (rule dvd_add [rotated])
qed

lemmas enc_untagged =
  aligned_not_tagged [OF enc_Nil_aligned] aligned_not_tagged [OF enc_Ref_aligned]

lemma enc_Boolean: "FE_IS_BOOLEAN (enc_ptr objects nil_addr (Boolean b)) \<and>
    \<not> FE_IS_FIXNUM (enc_ptr objects nil_addr (Boolean b))"
  by (simp add: enc_ptr_def FE_TRUE_def FE_FALSE_def FE_IS_BOOLEAN_def FE_IS_FIXNUM_def)

lemma fixnum_not_boolean: "FE_IS_FIXNUM x \<Longrightarrow> \<not> FE_IS_BOOLEAN x"
  unfolding FE_IS_FIXNUM_iff FE_IS_BOOLEAN_iff by presburger

text \<open>The flags byte: reading back the type and the mark bit.\<close>

lemma cell_flags_type:
  "cell_flags t m AND 1 \<noteq> 0 \<longleftrightarrow> t \<noteq> FE_TPAIR"
  "t \<noteq> FE_TPAIR \<Longrightarrow> unat (drop_bit 2 (cell_flags t m)) = tag_code t"
  "cell_flags t m AND GCMARKBIT \<noteq> 0 \<longleftrightarrow> m"
  by (cases t; cases m; simp add: cell_flags_def settype_flags_def GCMARKBIT_def)+

lemma cell_flags_update:
  "cell_flags t m OR GCMARKBIT = cell_flags t True"
  "cell_flags t m AND NOT GCMARKBIT = cell_flags t False"
  by (cases t; cases m; simp add: cell_flags_def settype_flags_def GCMARKBIT_def)+

lemma tag_code_inj: "tag_code t = tag_code u \<longleftrightarrow> t = u"
  by (cases t; cases u; simp)

lemma enc_is_fixnum:
  assumes "arena_layout objects nil_addr count" and "valid_ptr count p"
  shows "FE_IS_FIXNUM (enc_ptr objects nil_addr p) = (\<exists>i. p = Fixnum i)"
proof (cases p)
  case (Fixnum i)
  then show ?thesis by (simp add: enc_ptr_def FE_IS_FIXNUM_FIXNUM)
qed (use assms enc_untagged [OF assms(1)] enc_Boolean in simp_all)

lemma enc_is_boolean:
  assumes "arena_layout objects nil_addr count" and "valid_ptr count p"
  shows "FE_IS_BOOLEAN (enc_ptr objects nil_addr p) = (\<exists>b. p = Boolean b)"
proof (cases p)
  case (Fixnum i)
  then show ?thesis by (simp add: enc_ptr_def fixnum_not_boolean FE_IS_FIXNUM_FIXNUM)
qed (use assms enc_untagged [OF assms(1)] enc_Boolean in simp_all)

lemma enc_Fixnum_inj:
  assumes "enc_ptr objects nil_addr (Fixnum i) = enc_ptr objects nil_addr (Fixnum j)"
    and "fixnum_range i" and "fixnum_range j"
  shows "i = j"
proof -
  have "FE_FIXNUM i = FE_FIXNUM j" using assms(1) by (simp add: enc_ptr_def)
  then have "FE_UNBOX_FIXNUM (FE_FIXNUM i) = FE_UNBOX_FIXNUM (FE_FIXNUM j)" by (rule arg_cong)
  then show ?thesis
    unfolding FE_UNBOX_FIXNUM_FIXNUM [OF assms(2)] FE_UNBOX_FIXNUM_FIXNUM [OF assms(3)] .
qed

lemma enc_Boolean_inj:
  "enc_ptr objects nil_addr (Boolean b) = enc_ptr objects nil_addr (Boolean c) \<Longrightarrow> b = c"
  by (simp add: enc_ptr_def FE_TRUE_def FE_FALSE_def split: if_splits)

lemma enc_address_inj:
  assumes L: "arena_layout objects nil_addr count"
    and p: "p = Nil \<or> (\<exists>m < count. p = Ref m)" and q: "q = Nil \<or> (\<exists>m < count. q = Ref m)"
    and eq: "enc_ptr objects nil_addr p = enc_ptr objects nil_addr q"
  shows "p = q"
proof -
  have A: "m = n" if "m < count" "n < count"
      "enc_ptr objects nil_addr (Ref m) = enc_ptr objects nil_addr (Ref n)" for m n
  proof -
    have "unat objects + sizeof_fe_Object * m = unat objects + sizeof_fe_Object * n"
      using that(3) unat_enc_Ref [OF L that(1)] unat_enc_Ref [OF L that(2)] by metis
    then show ?thesis by (simp add: sizeof_fe_Object_def)
  qed
  have N: "enc_ptr objects nil_addr Nil \<noteq> enc_ptr objects nil_addr (Ref m)" if "m < count" for m
  proof
    assume "enc_ptr objects nil_addr Nil = enc_ptr objects nil_addr (Ref m)"
    then have "unat nil_addr = unat objects + sizeof_fe_Object * m"
      using unat_enc_Ref [OF L that] by (simp add: enc_ptr_def)
    moreover have "sizeof_fe_Object * m < sizeof_fe_Object * count"
      using that by (simp add: sizeof_fe_Object_def)
    moreover have "unat nil_addr < unat objects \<or>
        unat objects + sizeof_fe_Object * count \<le> unat nil_addr"
      using L unfolding arena_layout_def by blast
    ultimately show False by linarith
  qed
  from p q eq show ?thesis using A N by (metis (no_types))
qed

section \<open>Main results\<close>

text \<open>
  C29. The tag bits classify pointers: for an arena laid out as \<^verbatim>\<open>fe_open\<close> lays it out, the macro
  \<^verbatim>\<open>FE_IS_FIXNUM\<close> holds exactly for the words of fixnums, \<^verbatim>\<open>FE_IS_BOOLEAN\<close> exactly for the
  words of booleans, and two different pointers never have the same word.
\<close>

theorem tagged_words_faithful:
  assumes L: "arena_layout objects nil_addr count"
    and p: "valid_ptr count p" and q: "valid_ptr count q"
  shows "FE_IS_FIXNUM (enc_ptr objects nil_addr p) = (\<exists>i. p = Fixnum i) \<and>
         FE_IS_BOOLEAN (enc_ptr objects nil_addr p) = (\<exists>b. p = Boolean b) \<and>
         (enc_ptr objects nil_addr p = enc_ptr objects nil_addr q \<longleftrightarrow> p = q)"
proof -
  note F = enc_is_fixnum [OF L] and B = enc_is_boolean [OF L]
  have "p = q" if eq: "enc_ptr objects nil_addr p = enc_ptr objects nil_addr q"
  proof (cases "(\<exists>i. p = Fixnum i) \<or> (\<exists>b. p = Boolean b)")
    case True
    have "(\<exists>i. p = Fixnum i) = (\<exists>i. q = Fixnum i)" "(\<exists>b. p = Boolean b) = (\<exists>b. q = Boolean b)"
      using F [OF p] F [OF q] B [OF p] B [OF q] eq by simp_all
    with True eq p q show ?thesis by (auto dest: enc_Fixnum_inj enc_Boolean_inj)
  next
    case False
    have "\<not> (\<exists>i. q = Fixnum i)" "\<not> (\<exists>b. q = Boolean b)"
      using False F [OF p] F [OF q] B [OF p] B [OF q] eq by simp_all
    with False p q show ?thesis
      using enc_address_inj [OF L _ _ eq] by (cases p; cases q) auto
  qed
  with F [OF p] B [OF p] show ?thesis by auto
qed

theorem tagged_words_faithful_witness:
  "arena_layout 0x1000 0x40 10 \<and>
   enc_ptr 0x1000 0x40 (Ref 3) \<noteq> enc_ptr 0x1000 0x40 (Fixnum (-5)) \<and>
   FE_IS_FIXNUM (enc_ptr 0x1000 0x40 (Fixnum (-5)))"
proof -
  have L: "arena_layout 0x1000 0x40 10" by (simp add: arena_layout_def sizeof_fe_Object_def)
  have F: "valid_ptr 10 (Fixnum (-5))" and R: "valid_ptr 10 (Ref 3)" by (simp_all add: fixnum_range_def)
  show ?thesis
    using L tagged_words_faithful [OF L F R] tagged_words_faithful [OF L R F] by simp
qed

text \<open>
  Fixnums survive tagging on their range and nowhere else: boxing an integer and unboxing
  the word gives the integer back if and only if it lies in \<open>[-2^62, 2^62)\<close>, the range
  \<^verbatim>\<open>fe_make_number\<close> checks for.
\<close>

lemma fixnum_roundtrip: "FE_UNBOX_FIXNUM (FE_FIXNUM n) = n \<longleftrightarrow> fixnum_range n"
proof
  assume "FE_UNBOX_FIXNUM (FE_FIXNUM n) = n"
  then have n: "n = sint (FE_FIXNUM n) div 2"
    by (simp add: FE_UNBOX_FIXNUM_def sint_signed_drop_bit_eq drop_bit_eq_div)
  have "- (2 ^ 63) \<le> sint (FE_FIXNUM n)" "sint (FE_FIXNUM n) < 2 ^ 63"
    using sint_range_size [of "FE_FIXNUM n"] by (simp_all add: word_size)
  then have "- (2 ^ 62) \<le> sint (FE_FIXNUM n) div 2" "sint (FE_FIXNUM n) div 2 < 2 ^ 62"
    by (simp_all add: int_div_less_self)
  with n show "fixnum_range n" by (simp add: fixnum_range_def)
qed (rule FE_UNBOX_FIXNUM_FIXNUM)

end
