(* ===== verification/Fe_Mem.thy ===== *)
theory Fe_Mem
  imports Fe_Tag
begin

text \<open>
  Tracked memory (\<^verbatim>\<open>fe.c\<close>, \<^verbatim>\<open>memory_would_exceed_limit\<close> to \<^verbatim>\<open>tracked_free\<close>): every block the
  runtime takes from \<^verbatim>\<open>malloc\<close> carries its size in a header and is counted against the memory
  limit of the context. Sizes are \<^verbatim>\<open>size_t\<close> words and wrap at 64 bits.

  A tracked pointer is modelled by the size in its header, \<open>None\<close> is the null pointer; what the
  block holds is part of the structure that owns it. The answers of \<^verbatim>\<open>malloc\<close> and \<^verbatim>\<open>realloc\<close>
  are an oracle of the environment, indexed by the number of the call.
\<close>

section \<open>State\<close>

record mem_ctx =
  base_memory_bytes :: size_t
  memory_limit :: size_t
  memory_used :: size_t
  peak_memory_used :: size_t
  alloc_failure_active :: bool
  alloc_failure_is_limit :: bool
  env_malloc :: "nat \<Rightarrow> size_t \<Rightarrow> bool"
  n_malloc :: nat

type_synonym block = "size_t option"

definition SIZE_MAX :: size_t where "SIZE_MAX = 0xFFFFFFFFFFFFFFFF"

definition sizeof_fe_AllocHeader :: size_t where "sizeof_fe_AllocHeader = 16"

section \<open>Operations\<close>

definition memory_would_exceed_limit :: "size_t \<Rightarrow> 'x mem_ctx_scheme \<Rightarrow> bool" where
  "memory_would_exceed_limit extra c =
     (if memory_limit c = 0 then False
      else if memory_used c > memory_limit c then True
      else extra > memory_limit c - memory_used c)"

definition memory_note_alloc :: "size_t \<Rightarrow> 'x mem_ctx_scheme \<Rightarrow> 'x mem_ctx_scheme" where
  "memory_note_alloc sz c =
     (let c = c\<lparr>memory_used := memory_used c + sz\<rparr>;
          c = (if memory_used c > peak_memory_used c
               then c\<lparr>peak_memory_used := memory_used c\<rparr> else c)
      in c\<lparr>alloc_failure_active := False, alloc_failure_is_limit := False\<rparr>)"

definition memory_note_free :: "size_t \<Rightarrow> 'x mem_ctx_scheme \<Rightarrow> 'x mem_ctx_scheme" where
  "memory_note_free sz c =
     (let base = base_memory_bytes c
      in if memory_used c \<ge> base + sz
         then c\<lparr>memory_used := memory_used c - sz\<rparr>
         else c\<lparr>memory_used := base\<rparr>)"

definition sys_malloc :: "size_t \<Rightarrow> 'x mem_ctx_scheme \<Rightarrow> bool \<times> 'x mem_ctx_scheme" where
  "sys_malloc n c = (env_malloc c (n_malloc c) n, c\<lparr>n_malloc := Suc (n_malloc c)\<rparr>)"

definition alloc_failure :: "bool \<Rightarrow> 'x mem_ctx_scheme \<Rightarrow> 'x mem_ctx_scheme" where
  "alloc_failure is_limit c = c\<lparr>alloc_failure_active := True, alloc_failure_is_limit := is_limit\<rparr>"

definition tracked_alloc :: "size_t \<Rightarrow> 'x mem_ctx_scheme \<Rightarrow> block \<times> 'x mem_ctx_scheme" where
  "tracked_alloc sz c =
     (let payload = (if sz > 0 then sz else 1)
      in if sz > SIZE_MAX - sizeof_fe_AllocHeader then (None, alloc_failure False c)
         else if memory_would_exceed_limit sz c then (None, alloc_failure True c)
         else let (ok, c) = sys_malloc (sizeof_fe_AllocHeader + payload) c
              in if \<not> ok then (None, alloc_failure False c)
                 else (Some sz, memory_note_alloc sz c))"

definition tracked_free :: "block \<Rightarrow> 'x mem_ctx_scheme \<Rightarrow> 'x mem_ctx_scheme" where
  "tracked_free p c = (case p of None \<Rightarrow> c | Some sz \<Rightarrow> memory_note_free sz c)"

definition tracked_realloc :: "block \<Rightarrow> size_t \<Rightarrow> 'x mem_ctx_scheme \<Rightarrow> block \<times> 'x mem_ctx_scheme" where
  "tracked_realloc p new_size c =
     (case p of
        None \<Rightarrow> tracked_alloc new_size c
      | Some old_size \<Rightarrow>
          (if new_size = 0 then (None, tracked_free p c)
           else if new_size > SIZE_MAX - sizeof_fe_AllocHeader then (None, alloc_failure False c)
           else if new_size > old_size \<and> memory_would_exceed_limit (new_size - old_size) c
             then (None, alloc_failure True c)
           else let (ok, c) = sys_malloc (sizeof_fe_AllocHeader + new_size) c
                in if \<not> ok then (None, alloc_failure False c)
                   else (Some new_size,
                         if new_size > old_size then memory_note_alloc (new_size - old_size) c
                         else if old_size > new_size then memory_note_free (old_size - new_size) c
                         else c\<lparr>alloc_failure_active := False, alloc_failure_is_limit := False\<rparr>)))"

text \<open>The limits the host sets and the readings it takes.\<close>

definition fe_set_memory_limit :: "size_t \<Rightarrow> 'x mem_ctx_scheme \<Rightarrow> 'x mem_ctx_scheme" where
  "fe_set_memory_limit max_bytes c = c\<lparr>memory_limit := max_bytes\<rparr>"

definition fe_get_memory_limit :: "'x mem_ctx_scheme \<Rightarrow> size_t" where
  "fe_get_memory_limit c = memory_limit c"

definition fe_get_memory_used :: "'x mem_ctx_scheme \<Rightarrow> size_t" where
  "fe_get_memory_used c = memory_used c"

definition fe_get_peak_memory_used :: "'x mem_ctx_scheme \<Rightarrow> size_t" where
  "fe_get_peak_memory_used c = peak_memory_used c"

section \<open>Frame\<close>

text \<open>The accounting writes only the fields of \<open>mem_ctx\<close>, and never the limit or the base.\<close>

lemmas mem_op_defs =
  memory_note_alloc_def memory_note_free_def sys_malloc_def alloc_failure_def tracked_free_def

lemma memory_note_alloc_sel [simp]:
  "memory_used (memory_note_alloc n c) = memory_used c + n"
  "peak_memory_used (memory_note_alloc n c) = max (memory_used c + n) (peak_memory_used c)"
  "memory_limit (memory_note_alloc n c) = memory_limit c"
  "base_memory_bytes (memory_note_alloc n c) = base_memory_bytes c"
  "mem_ctx.more (memory_note_alloc n c) = mem_ctx.more c"
  by (auto simp: memory_note_alloc_def Let_def max_def not_less)

lemma memory_note_free_sel [simp]:
  "memory_used (memory_note_free n c) =
     (if memory_used c \<ge> base_memory_bytes c + n then memory_used c - n else base_memory_bytes c)"
  "peak_memory_used (memory_note_free n c) = peak_memory_used c"
  "memory_limit (memory_note_free n c) = memory_limit c"
  "base_memory_bytes (memory_note_free n c) = base_memory_bytes c"
  "mem_ctx.more (memory_note_free n c) = mem_ctx.more c"
  by (simp_all add: memory_note_free_def Let_def)

lemma alloc_failure_sel [simp]:
  "memory_used (alloc_failure b c) = memory_used c"
  "peak_memory_used (alloc_failure b c) = peak_memory_used c"
  "memory_limit (alloc_failure b c) = memory_limit c"
  "base_memory_bytes (alloc_failure b c) = base_memory_bytes c"
  "mem_ctx.more (alloc_failure b c) = mem_ctx.more c"
  by (simp_all add: alloc_failure_def)

lemma sys_malloc_sel [simp]:
  "memory_used (snd (sys_malloc n c)) = memory_used c"
  "peak_memory_used (snd (sys_malloc n c)) = peak_memory_used c"
  "memory_limit (snd (sys_malloc n c)) = memory_limit c"
  "base_memory_bytes (snd (sys_malloc n c)) = base_memory_bytes c"
  "mem_ctx.more (snd (sys_malloc n c)) = mem_ctx.more c"
  by (simp_all add: sys_malloc_def)

lemma tracked_free_more [simp]: "mem_ctx.more (tracked_free p c) = mem_ctx.more c"
  by (simp add: tracked_free_def split: option.splits)

lemma tracked_alloc_more [simp]: "mem_ctx.more (snd (tracked_alloc n c)) = mem_ctx.more c"
  by (simp add: tracked_alloc_def Let_def case_prod_beta)

lemma tracked_realloc_more [simp]: "mem_ctx.more (snd (tracked_realloc p n c)) = mem_ctx.more c"
  by (simp add: tracked_realloc_def Let_def case_prod_beta split: option.splits)

section \<open>Correctness of the accounting\<close>

lemma word_add_fits:
  fixes a b c :: "'a::len word"
  assumes "b \<le> c - a" and "a \<le> c"
  shows "unat (a + b) = unat a + unat b \<and> a + b \<le> c"
  using assms by unat_arith

lemma within_limit:
  assumes "\<not> memory_would_exceed_limit n c" and "memory_limit c \<noteq> 0"
  shows "unat (memory_used c + n) = unat (memory_used c) + unat n \<and> memory_used c + n \<le> memory_limit c"
  using assms by (intro word_add_fits) (auto simp: memory_would_exceed_limit_def not_less split: if_splits)

lemma tracked_alloc_SomeD:
  assumes "tracked_alloc n c = (Some b, c')"
  shows "b = n" and "c' = memory_note_alloc n (snd (sys_malloc (sizeof_fe_AllocHeader + (if n > 0 then n else 1)) c))"
    and "\<not> memory_would_exceed_limit n c"
  using assms by (auto simp: tracked_alloc_def Let_def case_prod_beta split: if_splits)

lemma tracked_realloc_SomeD:
  assumes "tracked_realloc (Some old) n c = (Some b, c')"
  shows "b = n" and "n \<noteq> 0" and "n > old \<Longrightarrow> \<not> memory_would_exceed_limit (n - old) c"
    and "memory_used c' = (if n > old then memory_used c + (n - old)
                           else if old > n then memory_used (memory_note_free (old - n) c)
                           else memory_used c)"
    and "base_memory_bytes c' = base_memory_bytes c"
    and "memory_limit c' = memory_limit c"
    and "peak_memory_used c' = (if n > old then max (memory_used c + (n - old)) (peak_memory_used c)
                                else peak_memory_used c)"
  using assms by (auto simp: tracked_realloc_def Let_def case_prod_beta split: if_splits)

lemma tracked_alloc_NoneD:
  assumes "tracked_alloc n c = (None, c')"
  shows "memory_used c' = memory_used c" "peak_memory_used c' = peak_memory_used c"
    "base_memory_bytes c' = base_memory_bytes c" "memory_limit c' = memory_limit c"
    "alloc_failure_active c'"
  using assms by (auto simp: tracked_alloc_def Let_def case_prod_beta alloc_failure_def split: if_splits)

lemma tracked_realloc_NoneD:
  assumes "tracked_realloc (Some old) n c = (None, c')" and "n \<noteq> 0"
  shows "memory_used c' = memory_used c" "peak_memory_used c' = peak_memory_used c"
    "base_memory_bytes c' = base_memory_bytes c" "memory_limit c' = memory_limit c"
    "alloc_failure_active c'"
  using assms by (auto simp: tracked_realloc_def Let_def case_prod_beta alloc_failure_def split: if_splits)

text \<open>
  The use of the allocator by the rest of the runtime, as a transition system over the context
  and the list of live tracked blocks. A successful allocation stays inside the 64-bit address
  space: the blocks, and the base region the host handed over, do not overlap.
\<close>

definition live_bytes :: "size_t list \<Rightarrow> nat" where
  "live_bytes bs = sum_list (map unat bs)"

inductive mem_step ::
  "'x mem_ctx_scheme \<times> size_t list \<Rightarrow> 'x mem_ctx_scheme \<times> size_t list \<Rightarrow> bool" where
  alloc: "tracked_alloc n c = (Some b, c') \<Longrightarrow>
     unat (base_memory_bytes c) + live_bytes (b # bs) < 2 ^ 64 \<Longrightarrow> mem_step (c, bs) (c', b # bs)"
| alloc_fails: "tracked_alloc n c = (None, c') \<Longrightarrow> mem_step (c, bs) (c', bs)"
| free: "b \<in> set bs \<Longrightarrow> mem_step (c, bs) (tracked_free (Some b) c, remove1 b bs)"
| realloc: "b \<in> set bs \<Longrightarrow> tracked_realloc (Some b) n c = (Some b', c') \<Longrightarrow>
     unat (base_memory_bytes c) + live_bytes (b' # remove1 b bs) < 2 ^ 64 \<Longrightarrow>
     mem_step (c, bs) (c', b' # remove1 b bs)"
| realloc_fails: "b \<in> set bs \<Longrightarrow> n \<noteq> 0 \<Longrightarrow> tracked_realloc (Some b) n c = (None, c') \<Longrightarrow>
     mem_step (c, bs) (c', bs)"
| set_limit: "mem_step (c, bs) (fe_set_memory_limit n c, bs)"

definition accounted :: "'x mem_ctx_scheme \<times> size_t list \<Rightarrow> bool" where
  "accounted s \<longleftrightarrow>
     unat (memory_used (fst s)) = unat (base_memory_bytes (fst s)) + live_bytes (snd s) \<and>
     memory_used (fst s) \<le> peak_memory_used (fst s)"

lemma live_bytes_remove1:
  "b \<in> set bs \<Longrightarrow> live_bytes bs = unat b + live_bytes (remove1 b bs)"
  by (induction bs) (auto simp: live_bytes_def)

lemma live_bytes_Cons [simp]: "live_bytes (b # bs) = unat b + live_bytes bs"
  by (simp add: live_bytes_def)

lemma unat_add_fits: "unat a + unat b < 2 ^ LENGTH('a) \<Longrightarrow> unat (a + b :: 'a::len word) = unat a + unat b"
  by (simp add: unat_word_ariths)

lemma unat_lt_64: "unat (w :: 64 word) < 2 ^ 64"
  by (rule order_less_le_trans [OF unsigned_less]) simp

lemma note_free_exact:
  assumes "unat (memory_used c) = unat (base_memory_bytes c) + k" and "unat n \<le> k"
  shows "unat (memory_used (memory_note_free n c)) = unat (base_memory_bytes c) + (k - unat n)"
    and "memory_used (memory_note_free n c) \<le> memory_used c"
proof -
  have lt: "unat (base_memory_bytes c) + unat n < 2 ^ 64"
    using assms unat_lt_64 [of "memory_used c"] by linarith
  then have "unat (base_memory_bytes c + n) \<le> unat (memory_used c)"
    using assms by (simp add: unat_add_fits)
  then have le: "base_memory_bytes c + n \<le> memory_used c" by (simp add: word_le_nat_alt)
  moreover have "unat (memory_used c - n) = unat (memory_used c) - unat n"
    by (rule unat_sub) (use assms in \<open>simp add: word_le_nat_alt\<close>)
  ultimately show "unat (memory_used (memory_note_free n c)) = unat (base_memory_bytes c) + (k - unat n)"
    and "memory_used (memory_note_free n c) \<le> memory_used c"
    using assms by (auto simp: word_le_nat_alt)
qed

lemma mem_step_accounted: "mem_step s s' \<Longrightarrow> accounted s \<Longrightarrow> accounted s'"
proof (induction rule: mem_step.induct)
  case (alloc n c b c' bs)
  note A = tracked_alloc_SomeD [OF alloc(1)]
  have "unat (memory_used c + n) = unat (memory_used c) + unat n"
    using alloc A(1) by (intro unat_add_fits) (simp add: accounted_def)
  with alloc A show ?case by (simp add: accounted_def)
next
  case (alloc_fails n c c' bs)
  then show ?case using tracked_alloc_NoneD [OF alloc_fails(1)] by (simp add: accounted_def)
next
  case (free b bs c)
  then show ?case
    using note_free_exact [of c "live_bytes bs" b] live_bytes_remove1 [of b bs]
    by (auto simp: accounted_def tracked_free_def simp del: memory_note_free_sel(1))
next
  case (realloc b bs n c b' c')
  note R = tracked_realloc_SomeD [OF realloc(2)] and L = live_bytes_remove1 [OF realloc(1)]
  have acc: "unat (memory_used c) = unat (base_memory_bytes c) + live_bytes bs"
    and pk: "memory_used c \<le> peak_memory_used c"
    using realloc by (simp_all add: accounted_def)
  consider "n > b" | "b > n" | "n = b" by force
  then show ?case
  proof cases
    case 1
    have d: "unat (n - b) = unat n - unat b" by (rule unat_sub) (use 1 in simp)
    moreover have "unat b < unat n" using 1 by (simp add: word_less_nat_alt)
    ultimately have "unat (memory_used c + (n - b)) = unat (memory_used c) + (unat n - unat b)"
      using realloc(3) R(1) acc L by (subst unat_add_fits) simp_all
    with 1 R acc L \<open>unat b < unat n\<close> show ?thesis by (simp add: accounted_def)
  next
    case 2
    have d: "unat (b - n) = unat b - unat n" by (rule unat_sub) (use 2 in simp)
    have nb: "unat n < unat b" using 2 by (simp add: word_less_nat_alt)
    then have "unat (b - n) \<le> live_bytes bs" using d L by simp
    note F = note_free_exact [OF acc this]
    have "memory_used c' = memory_used (memory_note_free (b - n) c)"
      using 2 R(4) by (simp add: order_less_not_sym [OF 2])
    with F pk R d nb L 2 show ?thesis
      by (simp add: accounted_def order_trans [OF F(2) pk] order_less_not_sym [OF 2]
          del: memory_note_free_sel(1))
  next
    case 3
    with R acc pk L show ?thesis by (simp add: accounted_def)
  qed
next
  case (realloc_fails b bs n c c')
  then show ?case using tracked_realloc_NoneD [OF realloc_fails(3,2)] by (simp add: accounted_def)
next
  case (set_limit c bs n)
  then show ?case by (simp add: accounted_def fe_set_memory_limit_def)
qed

text \<open>
  C24. The memory accounting is exact: after any sequence of tracked allocations, reallocations,
  frees and changes of the limit, \<^verbatim>\<open>memory_used\<close> is the base region plus the sizes of the live
  blocks, no subtraction was clamped at the floor, and the peak is at least what is in use.
\<close>

theorem memory_accounting_exact:
  assumes "mem_step\<^sup>*\<^sup>* (c, []) (c', bs)" and "memory_used c = base_memory_bytes c"
    and "memory_used c \<le> peak_memory_used c"
  shows "unat (memory_used c') = unat (base_memory_bytes c') + live_bytes bs \<and>
         memory_used c' \<le> peak_memory_used c'"
proof -
  have "accounted (c, [])" using assms(2,3) by (simp add: accounted_def live_bytes_def)
  with assms(1) have "accounted (c', bs)"
    by (induction rule: rtranclp_induct) (auto intro: mem_step_accounted)
  then show ?thesis by (simp add: accounted_def)
qed

definition mem_example :: mem_ctx where
  "mem_example = \<lparr>base_memory_bytes = 4096, memory_limit = 5000, memory_used = 4096,
     peak_memory_used = 4096, alloc_failure_active = False, alloc_failure_is_limit = False,
     env_malloc = (\<lambda>_ _. True), n_malloc = 0\<rparr>"

theorem memory_accounting_exact_witness:
  "unat (memory_used (snd (tracked_alloc 100 mem_example))) = 4096 + 100"
proof -
  have "tracked_alloc 100 mem_example = (Some 100, snd (tracked_alloc 100 mem_example))"
    by (simp add: tracked_alloc_def mem_example_def SIZE_MAX_def sizeof_fe_AllocHeader_def
        memory_would_exceed_limit_def sys_malloc_def)
  then have "mem_step\<^sup>*\<^sup>* (mem_example, []) (snd (tracked_alloc 100 mem_example), [100])"
    by (intro r_into_rtranclp mem_step.alloc) (simp_all add: mem_example_def live_bytes_def)
  from memory_accounting_exact [OF this] show ?thesis
    by (simp add: mem_example_def tracked_alloc_def SIZE_MAX_def sizeof_fe_AllocHeader_def
        memory_would_exceed_limit_def sys_malloc_def live_bytes_def memory_note_alloc_def)
qed

lemma mem_step_within:
  assumes "mem_step s s'" and "accounted s"
    and "memory_limit (fst s) \<noteq> 0" and "memory_used (fst s) \<le> memory_limit (fst s)"
    and "memory_limit (fst s') = memory_limit (fst s)"
  shows "memory_used (fst s') \<le> memory_limit (fst s)"
  using assms
proof (induction rule: mem_step.induct)
  case (alloc n c b c' bs)
  then show ?case
    using tracked_alloc_SomeD [OF alloc(1)] within_limit [of n c] by simp
next
  case (alloc_fails n c c' bs)
  then show ?case using tracked_alloc_NoneD [OF alloc_fails(1)] by simp
next
  case (free b bs c)
  then show ?case
    using order_trans [OF note_free_exact(2) [of c "live_bytes bs" b]] live_bytes_remove1 [of b bs]
    by (simp add: accounted_def tracked_free_def del: memory_note_free_sel(1))
next
  case (realloc b bs n c b' c')
  note R = tracked_realloc_SomeD [OF realloc(2)]
  show ?case
  proof (cases "b > n")
    case True
    then have "unat (b - n) \<le> live_bytes bs"
      using live_bytes_remove1 [OF realloc(1)] by (simp add: unat_sub order_less_imp_le)
    then have "memory_used (memory_note_free (b - n) c) \<le> memory_used c"
      using realloc(4) by (intro note_free_exact(2)) (simp_all add: accounted_def)
    moreover have "memory_used c' = memory_used (memory_note_free (b - n) c)"
      using True R(4) by (simp add: order_less_not_sym [OF True])
    ultimately show ?thesis using realloc(6) by (simp del: memory_note_free_sel(1))
  next
    case False
    with R realloc within_limit [of "n - b" c] show ?thesis by (auto split: if_splits)
  qed
next
  case (realloc_fails b bs n c c')
  then show ?case using tracked_realloc_NoneD [OF realloc_fails(3,2)] by simp
next
  case (set_limit c bs n)
  then show ?case by (simp add: fe_set_memory_limit_def)
qed

inductive mem_run ::
  "size_t \<Rightarrow> 'x mem_ctx_scheme \<times> size_t list \<Rightarrow> 'x mem_ctx_scheme \<times> size_t list \<Rightarrow> bool"
  for lmt :: size_t where
  start: "mem_run lmt s s"
| step: "mem_run lmt s t \<Longrightarrow> mem_step t u \<Longrightarrow> memory_limit (fst u) = lmt \<Longrightarrow> mem_run lmt s u"

text \<open>
  C25. The memory limit is a hard ceiling: once a limit is set at or above the memory in use, no
  sequence of allocations, reallocations and frees takes the memory in use over it.
\<close>

theorem memory_limit_enforced:
  assumes "mem_run lmt (c, bs) (c', bs')" and "accounted (c, bs)"
    and "memory_limit c = lmt" and "lmt \<noteq> 0" and "memory_used c \<le> lmt"
  shows "memory_used c' \<le> lmt"
proof -
  have "accounted s' \<and> memory_limit (fst s') = lmt \<and> memory_used (fst s') \<le> lmt"
    if "mem_run lmt s s'" "accounted s" "memory_limit (fst s) = lmt" "memory_used (fst s) \<le> lmt"
    for s s' :: "'a mem_ctx_scheme \<times> size_t list"
    using that
  proof (induction rule: mem_run.induct)
    case (step s t u)
    then show ?case
      using mem_step_accounted [of t u] mem_step_within [of t u] assms(4) by metis
  qed simp
  from this [OF assms(1,2)] assms(3,5) show ?thesis by simp
qed

theorem memory_limit_enforced_witness:
  "memory_used (snd (tracked_alloc 100 mem_example)) \<le> 5000"
proof -
  have "tracked_alloc 100 mem_example = (Some 100, snd (tracked_alloc 100 mem_example))"
    by (simp add: tracked_alloc_def mem_example_def SIZE_MAX_def sizeof_fe_AllocHeader_def
        memory_would_exceed_limit_def sys_malloc_def)
  then have "mem_step (mem_example, []) (snd (tracked_alloc 100 mem_example), [100])"
    by (intro mem_step.alloc) (simp_all add: mem_example_def live_bytes_def)
  then have "mem_run 5000 (mem_example, []) (snd (tracked_alloc 100 mem_example), [100])"
    by (rule mem_run.step [OF mem_run.start])
      (simp add: tracked_alloc_def mem_example_def SIZE_MAX_def sizeof_fe_AllocHeader_def
        memory_would_exceed_limit_def sys_malloc_def)
  then show ?thesis
    by (rule memory_limit_enforced) (simp_all add: mem_example_def accounted_def live_bytes_def)
qed

end
