(* ===== verification/Fex_Error.thy ===== *)
theory Fex_Error
  imports Fe_Prelude
begin

text \<open>
  The error record of the public interface (\<^verbatim>\<open>fex.h\<close>): a status, texts of bounded length, a place and
  a trace of at most eight frames.
\<close>

definition copy_string :: "nat \<Rightarrow> string \<Rightarrow> string" where
  "copy_string dst_size src = take (dst_size - 1) src"

datatype FexStatus = FEX_STATUS_OK | FEX_STATUS_COMPILE_ERROR | FEX_STATUS_RUNTIME_ERROR | FEX_STATUS_IO_ERROR

definition FEX_ERROR_MESSAGE_MAX :: nat where "FEX_ERROR_MESSAGE_MAX = 256"
definition FEX_ERROR_SOURCE_NAME_MAX :: nat where "FEX_ERROR_SOURCE_NAME_MAX = 260"
definition FEX_ERROR_EXPRESSION_MAX :: nat where "FEX_ERROR_EXPRESSION_MAX = 128"
definition FEX_ERROR_TRACE_MAX :: nat where "FEX_ERROR_TRACE_MAX = 8"

record FexErrorFrame =
  frame_source_name :: string
  frame_line :: int
  frame_column :: int
  frame_expression :: string

text \<open>The column is \<open>None\<close> when it was copied from the uninitialised field of an error token.\<close>

record FexError =
  err_status :: FexStatus
  err_message :: string
  err_source_name :: string
  err_line :: int
  err_column :: "int option"
  err_frames :: "FexErrorFrame list"

definition fex_error_clear :: FexError where
  "fex_error_clear = \<lparr>err_status = FEX_STATUS_OK, err_message = [], err_source_name = [], err_line = 0,
     err_column = Some 0, err_frames = []\<rparr>"

definition fill_basic_error :: "FexStatus \<Rightarrow> string \<Rightarrow> int \<Rightarrow> int option \<Rightarrow> string \<Rightarrow> FexError" where
  "fill_basic_error status source_name line col message =
     fex_error_clear\<lparr>err_status := status, err_line := line, err_column := col,
       err_source_name := copy_string FEX_ERROR_SOURCE_NAME_MAX source_name,
       err_message := copy_string FEX_ERROR_MESSAGE_MAX message\<rparr>"

end
