(* ===== verification/Fe_Limits.thy ===== *)
theory Fe_Limits
  imports Fe_Mem Fex_Error
begin

text \<open>
  Resource limits and the error exit (\<^verbatim>\<open>fe.c\<close>): step budget, wall-clock timeout, host
  interrupts, recursion depths, and \<^verbatim>\<open>fe_error\<close>, which resets the transient state of the context
  and leaves by \<^verbatim>\<open>longjmp\<close>. The clock and the answers of the host's interrupt handler are oracles
  of the environment, indexed by the number of the query; the handler is taken not to change
  the context.
\<close>

section \<open>State\<close>

record limit_ctx = mem_ctx +
  calllist :: "ptr list"
  step_limit :: size_t
  steps_executed :: size_t
  timeout_ms :: u64
  timeout_deadline_ms :: u64
  timeout_countdown :: nat
  interrupt_interval :: nat
  interrupt_countdown :: nat
  interrupt_handler :: bool
  eval_depth :: int
  current_eval_depth :: int
  max_eval_depth :: int
  current_read_depth :: int
  max_read_depth :: int
  temp_allocs :: "size_t list"
  compile_scopes :: nat
  env_clock :: "nat \<Rightarrow> u64"
  n_clock :: nat
  env_irq :: "nat \<Rightarrow> bool"
  n_irq :: nat

text \<open>
  \<open>FeError msg cl\<close>: \<^verbatim>\<open>fe_error\<close> was called with this message, \<open>cl\<close> is the call list handed to
  the error handler. \<open>Raised e\<close>: \<^verbatim>\<open>fex_try_raise_error\<close> hands a filled error record to the innermost try
  scope. \<open>Crash\<close>: the C code has undefined behaviour here. \<open>OutOfFuel\<close>: the bound
  of a model of a loop was reached; the theorems show where that cannot happen.
\<close>

datatype fe_err = FeError string "ptr list" | Raised FexError | Crash | OutOfFuel

type_synonym ('x, 'a) lcomp = "('x limit_ctx_scheme, fe_err, 'a) comp"

definition TIMEOUT_CHECK_INTERVAL :: nat where "TIMEOUT_CHECK_INTERVAL = 64"
definition FE_IO_ABORT_CHECK_INTERVAL :: nat where "FE_IO_ABORT_CHECK_INTERVAL = 64"
definition FE_DEFAULT_MAX_EVAL_DEPTH :: int where "FE_DEFAULT_MAX_EVAL_DEPTH = 512"
definition FE_DEFAULT_MAX_READ_DEPTH :: int where "FE_DEFAULT_MAX_READ_DEPTH = 512"
definition sizeof_FexCompileState :: size_t where "sizeof_FexCompileState = 152"

section \<open>Setting and reading limits\<close>

definition current_time_ms :: "'x limit_ctx_scheme \<Rightarrow> u64 \<times> 'x limit_ctx_scheme" where
  "current_time_ms c = (env_clock c (n_clock c), c\<lparr>n_clock := Suc (n_clock c)\<rparr>)"

definition fe_set_step_limit :: "size_t \<Rightarrow> 'x limit_ctx_scheme \<Rightarrow> 'x limit_ctx_scheme" where
  "fe_set_step_limit max_steps c = c\<lparr>step_limit := max_steps\<rparr>"

definition fe_get_step_limit :: "'x limit_ctx_scheme \<Rightarrow> size_t" where
  "fe_get_step_limit c = step_limit c"

definition fe_get_steps_executed :: "'x limit_ctx_scheme \<Rightarrow> size_t" where
  "fe_get_steps_executed c = steps_executed c"

definition fe_set_timeout_ms :: "u64 \<Rightarrow> 'x limit_ctx_scheme \<Rightarrow> 'x limit_ctx_scheme" where
  "fe_set_timeout_ms ms c =
     (let c = c\<lparr>timeout_ms := ms\<rparr>
      in if ms > 0
         then (let (now, c) = current_time_ms c
               in c\<lparr>timeout_deadline_ms := now + ms,
                    timeout_countdown := TIMEOUT_CHECK_INTERVAL\<rparr>)
         else c\<lparr>timeout_deadline_ms := 0, timeout_countdown := 0\<rparr>)"

definition fe_get_timeout_ms :: "'x limit_ctx_scheme \<Rightarrow> u64" where
  "fe_get_timeout_ms c = timeout_ms c"

definition fe_set_interrupt_handler ::
  "bool \<Rightarrow> nat \<Rightarrow> 'x limit_ctx_scheme \<Rightarrow> 'x limit_ctx_scheme" where
  "fe_set_interrupt_handler fn check_interval_steps c =
     (let c = c\<lparr>interrupt_handler := fn,
                interrupt_interval :=
                  (if fn then (if check_interval_steps > 0 then check_interval_steps else 1024)
                   else 0)\<rparr>
      in c\<lparr>interrupt_countdown := interrupt_interval c\<rparr>)"

definition fe_set_eval_depth_limit :: "int \<Rightarrow> 'x limit_ctx_scheme \<Rightarrow> 'x limit_ctx_scheme" where
  "fe_set_eval_depth_limit max_depth c = c\<lparr>max_eval_depth := max_depth\<rparr>"

definition fe_get_eval_depth_limit :: "'x limit_ctx_scheme \<Rightarrow> int" where
  "fe_get_eval_depth_limit c = max_eval_depth c"

definition fe_set_read_depth_limit :: "int \<Rightarrow> 'x limit_ctx_scheme \<Rightarrow> 'x limit_ctx_scheme" where
  "fe_set_read_depth_limit max_depth c = c\<lparr>max_read_depth := max_depth\<rparr>"

definition fe_get_read_depth_limit :: "'x limit_ctx_scheme \<Rightarrow> int" where
  "fe_get_read_depth_limit c = max_read_depth c"

section \<open>The error exit\<close>

definition fex_compile_cleanup_ctx :: "'x limit_ctx_scheme \<Rightarrow> 'x limit_ctx_scheme" where
  "fex_compile_cleanup_ctx c =
     ((tracked_free (Some sizeof_FexCompileState)) ^^ compile_scopes c) c\<lparr>compile_scopes := 0\<rparr>"

definition fex_temp_cleanup_all :: "'x limit_ctx_scheme \<Rightarrow> 'x limit_ctx_scheme" where
  "fex_temp_cleanup_all c =
     (fold (\<lambda>sz. tracked_free (Some sz)) (temp_allocs c) c)\<lparr>temp_allocs := []\<rparr>"

definition fe_error_reset :: "'x limit_ctx_scheme \<Rightarrow> 'x limit_ctx_scheme" where
  "fe_error_reset c =
     (let c = c\<lparr>calllist := [], eval_depth := 0, current_eval_depth := 0, current_read_depth := 0\<rparr>;
          c = (if timeout_ms c > 0 then c\<lparr>timeout_countdown := TIMEOUT_CHECK_INTERVAL\<rparr> else c);
          c = c\<lparr>interrupt_countdown := interrupt_interval c\<rparr>
      in fex_temp_cleanup_all (fex_compile_cleanup_ctx c))"

definition fe_error :: "string \<Rightarrow> ('x, 'a) lcomp" where
  "fe_error msg c = (Inl (FeError msg (calllist c)), fe_error_reset c)"

definition memory_error :: "string \<Rightarrow> ('x, 'a) lcomp" where
  "memory_error fallback_msg c =
     (if alloc_failure_is_limit c then fe_error ''memory limit exceeded'' c
      else fe_error fallback_msg c)"

section \<open>Polling\<close>

definition poll_timeout :: "bool \<Rightarrow> 'x limit_ctx_scheme \<Rightarrow> string option \<times> 'x limit_ctx_scheme" where
  "poll_timeout immediate c =
     (if timeout_ms c > 0 then
        (if immediate \<or> timeout_countdown c \<le> 1 then
           (let c = c\<lparr>timeout_countdown := TIMEOUT_CHECK_INTERVAL\<rparr>;
                (now, c) = current_time_ms c
            in (if now \<ge> timeout_deadline_ms c then Some ''execution timeout exceeded'' else None, c))
         else (None, c\<lparr>timeout_countdown := timeout_countdown c - 1\<rparr>))
      else (None, c))"

definition poll_interrupt :: "bool \<Rightarrow> 'x limit_ctx_scheme \<Rightarrow> string option \<times> 'x limit_ctx_scheme" where
  "poll_interrupt immediate c =
     (if interrupt_handler c then
        (if immediate \<or> interrupt_countdown c \<le> 1 then
           (let c = c\<lparr>interrupt_countdown := interrupt_interval c\<rparr>;
                stop = env_irq c (n_irq c);
                c = c\<lparr>n_irq := Suc (n_irq c)\<rparr>
            in (if stop then Some ''execution interrupted'' else None, c))
         else (None, c\<lparr>interrupt_countdown := interrupt_countdown c - 1\<rparr>))
      else (None, c))"

definition poll_eval_abort :: "bool \<Rightarrow> 'x limit_ctx_scheme \<Rightarrow> string option \<times> 'x limit_ctx_scheme" where
  "poll_eval_abort immediate c =
     (case poll_timeout immediate c of
        (Some msg, c) \<Rightarrow> (Some msg, c)
      | (None, c) \<Rightarrow> poll_interrupt immediate c)"

definition fe_poll_abort :: "'x limit_ctx_scheme \<Rightarrow> string option \<times> 'x limit_ctx_scheme" where
  "fe_poll_abort c = poll_eval_abort True c"

definition poll_io_abort ::
  "nat \<Rightarrow> 'x limit_ctx_scheme \<Rightarrow> (string option \<times> nat) \<times> 'x limit_ctx_scheme" where
  "poll_io_abort countdown c =
     (if countdown > 1 then ((None, countdown - 1), c)
      else let (msg, c) = fe_poll_abort c in ((msg, FE_IO_ABORT_CHECK_INTERVAL), c))"

text \<open>
  The idiom of every loop of the runtime:
  \<^verbatim>\<open>abort_msg = poll_io_abort(ctx, &countdown); if (abort_msg != NULL) fe_error(ctx, abort_msg);\<close>
\<close>

definition check_io_abort :: "nat \<Rightarrow> ('x, nat) lcomp" where
  "check_io_abort countdown =
     bnd (lift_st (poll_io_abort countdown)) (\<lambda>(msg, countdown).
       case msg of None \<Rightarrow> ret countdown | Some m \<Rightarrow> fe_error m)"

section \<open>Evaluation runs\<close>

definition begin_eval_run :: "'x limit_ctx_scheme \<Rightarrow> 'x limit_ctx_scheme" where
  "begin_eval_run c =
     (let c = (if eval_depth c = 0 then
                 (let c = c\<lparr>steps_executed := 0\<rparr>;
                      c = (if timeout_ms c > 0 then
                             (let (now, c) = current_time_ms c
                              in c\<lparr>timeout_deadline_ms := now + timeout_ms c,
                                   timeout_countdown := TIMEOUT_CHECK_INTERVAL\<rparr>)
                           else c)
                  in c\<lparr>interrupt_countdown := interrupt_interval c\<rparr>)
               else c)
      in c\<lparr>eval_depth := eval_depth c + 1\<rparr>)"

definition end_eval_run :: "'x limit_ctx_scheme \<Rightarrow> 'x limit_ctx_scheme" where
  "end_eval_run c =
     (let c = (if eval_depth c > 0 then c\<lparr>eval_depth := eval_depth c - 1\<rparr> else c)
      in if eval_depth c = 0 then
           (let c = (if timeout_ms c > 0 then c\<lparr>timeout_countdown := TIMEOUT_CHECK_INTERVAL\<rparr> else c)
            in c\<lparr>interrupt_countdown := interrupt_interval c\<rparr>)
         else c)"

definition check_eval_budget :: "('x, unit) lcomp" where
  "check_eval_budget =
     sq (modify (\<lambda>c. c\<lparr>steps_executed := steps_executed c + 1\<rparr>))
     (bnd (gets (\<lambda>c. step_limit c > 0 \<and> steps_executed c > step_limit c)) (\<lambda>over.
      if over then fe_error ''execution step limit exceeded''
      else bnd (lift_st (poll_eval_abort False)) (\<lambda>abort_msg.
        case abort_msg of Some m \<Rightarrow> fe_error m | None \<Rightarrow> ret ())))"

section \<open>What polling and errors leave alone\<close>

text \<open>Polling writes its own counters only.\<close>

definition poll_frame :: "'x limit_ctx_scheme \<Rightarrow> 'x limit_ctx_scheme \<Rightarrow> bool" where
  "poll_frame c c' \<longleftrightarrow>
     (\<exists>tc ic nc ni. c' = c\<lparr>timeout_countdown := tc, interrupt_countdown := ic, n_clock := nc, n_irq := ni\<rparr>)"

lemma poll_frame_refl: "poll_frame c c"
  unfolding poll_frame_def
  by (intro exI [of _ "timeout_countdown c"] exI [of _ "interrupt_countdown c"]
      exI [of _ "n_clock c"] exI [of _ "n_irq c"]) simp

interpretation poll_order: state_order poll_frame
proof
  show "poll_frame c c" for c :: "'a limit_ctx_scheme" by (rule poll_frame_refl)
next
  fix c d e :: "'a limit_ctx_scheme"
  assume "poll_frame c d" "poll_frame d e"
  then show "poll_frame c e" unfolding poll_frame_def by clarsimp blast
qed

lemma poll_frame_intro [frame_rules]:
  "poll_frame c (c\<lparr>timeout_countdown := tc\<rparr>)"
  "poll_frame c (c\<lparr>interrupt_countdown := ic\<rparr>)"
  "poll_frame c (c\<lparr>timeout_countdown := tc, n_clock := nc\<rparr>)"
  "poll_frame c (c\<lparr>interrupt_countdown := ic, n_irq := ni\<rparr>)"
  unfolding poll_frame_def
  by (rule exI [of _ tc] exI [of _ "timeout_countdown c"],
      rule exI [of _ ic] exI [of _ "interrupt_countdown c"],
      rule exI [of _ nc] exI [of _ "n_clock c"], rule exI [of _ ni] exI [of _ "n_irq c"], simp)+

lemma poll_timeout_frame: "poll_frame c (snd (poll_timeout b c))"
  by (simp add: poll_timeout_def current_time_ms_def Let_def poll_frame_intro poll_frame_refl)

lemma poll_interrupt_frame: "poll_frame c (snd (poll_interrupt b c))"
  by (simp add: poll_interrupt_def Let_def poll_frame_intro poll_frame_refl)

lemma poll_eval_abort_frame: "poll_frame c (snd (poll_eval_abort b c))"
  unfolding poll_eval_abort_def
  using poll_timeout_frame [of c b]
  by (auto split: prod.split option.split intro: poll_order.R_trans poll_interrupt_frame
      simp: case_prod_beta)

lemma poll_io_abort_frame: "poll_frame c (snd (poll_io_abort n c))"
  by (simp add: poll_io_abort_def fe_poll_abort_def case_prod_beta Let_def poll_frame_refl
      poll_eval_abort_frame)

lemma poll_frame_fields:
  assumes "poll_frame c c'"
  shows "limit_ctx.more c' = limit_ctx.more c" "memory_used c' = memory_used c"
    "memory_limit c' = memory_limit c" "calllist c' = calllist c" "step_limit c' = step_limit c"
    "steps_executed c' = steps_executed c" "timeout_ms c' = timeout_ms c"
    "timeout_deadline_ms c' = timeout_deadline_ms c" "interrupt_handler c' = interrupt_handler c"
    "eval_depth c' = eval_depth c" "current_eval_depth c' = current_eval_depth c"
    "max_eval_depth c' = max_eval_depth c" "env_clock c' = env_clock c"
  using assms by (auto simp: poll_frame_def)

text \<open>With no timeout and no interrupt handler, polling does nothing at all.\<close>

definition no_abort :: "'x limit_ctx_scheme \<Rightarrow> bool" where
  "no_abort c \<longleftrightarrow> timeout_ms c = 0 \<and> \<not> interrupt_handler c"

lemma poll_eval_abort_quiet [run_simps]: "no_abort c \<Longrightarrow> poll_eval_abort b c = (None, c)"
  by (simp add: no_abort_def poll_eval_abort_def poll_timeout_def poll_interrupt_def)

lemma check_io_abort_quiet [run_simps]: "no_abort c \<Longrightarrow> \<exists>k. check_io_abort n c = (Inr k, c)"
  by (simp add: check_io_abort_def bnd_lift_st poll_io_abort_def fe_poll_abort_def
      poll_eval_abort_quiet ret_def)

text \<open>A check that returns has only polled.\<close>

lemma check_io_abort_Inr: "check_io_abort n c = (Inr k, c') \<Longrightarrow> poll_frame c c'"
  using poll_io_abort_frame [of c n]
  by (auto simp: check_io_abort_def bnd_lift_st ret_def fe_error_def
      split: prod.splits option.splits)

text \<open>The error exit keeps everything outside the transient state, the heap included.\<close>

lemma more_memory_note_free: "limit_ctx.more (memory_note_free n c) = limit_ctx.more c"
  by (simp add: memory_note_free_def Let_def)

lemma more_tracked_free [frame_rules, simp]: "limit_ctx.more (tracked_free p c) = limit_ctx.more c"
  by (simp add: tracked_free_def more_memory_note_free split: option.splits)

lemma more_frees: "limit_ctx.more (fold (\<lambda>sz. tracked_free (Some sz)) xs c) = limit_ctx.more c"
  by (induction xs arbitrary: c) simp_all

lemma more_free_pow: "limit_ctx.more ((tracked_free p ^^ n) c) = limit_ctx.more c"
  by (induction n arbitrary: c) simp_all

lemma more_fe_error_reset [frame_rules, simp]: "limit_ctx.more (fe_error_reset c) = limit_ctx.more c"
  by (simp add: fe_error_reset_def fex_temp_cleanup_all_def fex_compile_cleanup_ctx_def Let_def
      more_frees more_free_pow)

lemma fe_error_more [frame_rules]: "steps (fixes_field limit_ctx.more) (fe_error msg)"
  by (simp add: steps_def fe_error_def fixes_field_def)

lemma memory_error_more [frame_rules]: "steps (fixes_field limit_ctx.more) (memory_error msg)"
  by (simp add: steps_def memory_error_def fe_error_def fixes_field_def)

lemma check_io_abort_more [frame_rules]: "steps (fixes_field limit_ctx.more) (check_io_abort n)"
  unfolding check_io_abort_def
  by (intro field_order.steps_bnd field_order.steps_lift_st field_order.steps_prod
      field_order.steps_option field_order.steps_ret fe_error_more)
    (simp add: fixes_field_def poll_frame_fields [OF poll_io_abort_frame])

section \<open>Properties\<close>

text \<open>\<open>n\<close> evaluation steps in a row, each charged to the budget.\<close>

primrec charge_steps :: "nat \<Rightarrow> ('x, unit) lcomp" where
  "charge_steps 0 = ret ()"
| "charge_steps (Suc n) = sq check_eval_budget (charge_steps n)"

lemma check_eval_budget_run:
  "check_eval_budget c =
     (let c = c\<lparr>steps_executed := steps_executed c + 1\<rparr>
      in if step_limit c > 0 \<and> steps_executed c > step_limit c
         then fe_error ''execution step limit exceeded'' c
         else case poll_eval_abort False c of
                (Some m, c') \<Rightarrow> fe_error m c' | (None, c') \<Rightarrow> (Inr (), c'))"
  by (simp add: check_eval_budget_def sq_modify bnd_gets bnd_lift_st Let_def ret_def
      split: prod.splits option.splits)

lemma charge_steps_Suc:
  "charge_steps (Suc n) c =
     (case check_eval_budget c of (Inl e, c') \<Rightarrow> (Inl e, c') | (Inr _, c') \<Rightarrow> charge_steps n c')"
  by (simp add: sq_def bnd_def)

declare charge_steps.simps(2) [simp del]

lemma charge_steps_quiet:
  assumes "no_abort c" and "step_limit c > 0" and "unat (steps_executed c) \<le> unat (step_limit c)"
    and "unat (step_limit c) < 2 ^ 64 - 1"
  shows "(\<exists>c'. charge_steps n c = (Inr (), c')) \<longleftrightarrow> unat (steps_executed c) + n \<le> unat (step_limit c)"
  using assms
proof (induction n arbitrary: c)
  case 0
  then show ?case by (simp add: ret_def)
next
  case (Suc n)
  let ?c = "c\<lparr>steps_executed := steps_executed c + 1\<rparr>"
  have u: "unat (steps_executed c + 1) = unat (steps_executed c) + 1"
    using Suc.prems unat_add_fits [of "steps_executed c" 1] by simp
  have q: "no_abort ?c" using Suc.prems(1) by (simp add: no_abort_def)
  show ?case
  proof (cases "steps_executed c + 1 > step_limit c")
    case True
    then show ?thesis
      using Suc.prems u by (simp add: charge_steps_Suc check_eval_budget_run fe_error_def word_less_nat_alt)
  next
    case False
    then have "charge_steps (Suc n) c = charge_steps n ?c"
      using q by (simp add: charge_steps_Suc check_eval_budget_run poll_eval_abort_quiet)
    with Suc.IH [OF q] Suc.prems False u show ?thesis
      by (simp add: word_less_nat_alt)
  qed
qed

definition limit_example :: limit_ctx where
  "limit_example = \<lparr>base_memory_bytes = 4096, memory_limit = 0, memory_used = 4096,
     peak_memory_used = 4096, alloc_failure_active = False, alloc_failure_is_limit = False,
     env_malloc = (\<lambda>_ _. True), n_malloc = 0, calllist = [], step_limit = 3, steps_executed = 0,
     timeout_ms = 0, timeout_deadline_ms = 0, timeout_countdown = 0, interrupt_interval = 0,
     interrupt_countdown = 0, interrupt_handler = False, eval_depth = 0, current_eval_depth = 0,
     max_eval_depth = FE_DEFAULT_MAX_EVAL_DEPTH, current_read_depth = 0,
     max_read_depth = FE_DEFAULT_MAX_READ_DEPTH, temp_allocs = [], compile_scopes = 0,
     env_clock = (\<lambda>_. 1000), n_clock = 0, env_irq = (\<lambda>_. False), n_irq = 0\<rparr>"

text \<open>
  C26. The step budget is exact: with a step limit \<open>L\<close> and neither a timeout nor an interrupt
  handler, an evaluation run of \<open>n\<close> steps succeeds if and only if \<open>n \<le> L\<close>.
\<close>

theorem step_budget_exact:
  assumes "no_abort c" and "eval_depth c = 0" and "step_limit c > 0" and "step_limit c < SIZE_MAX"
  shows "(\<exists>c'. charge_steps n (begin_eval_run c) = (Inr (), c')) \<longleftrightarrow> n \<le> unat (step_limit c)"
proof -
  have "begin_eval_run c =
      c\<lparr>steps_executed := 0, interrupt_countdown := interrupt_interval c, eval_depth := 1\<rparr>"
    using assms(1,2) by (simp add: begin_eval_run_def no_abort_def Let_def)
  moreover have "unat (step_limit c) < 2 ^ 64 - 1"
    using assms(4) by (simp add: SIZE_MAX_def word_less_nat_alt)
  ultimately show ?thesis
    using assms charge_steps_quiet [of "begin_eval_run c" n] by (simp add: no_abort_def)
qed

theorem step_budget_exact_witness:
  "(\<exists>c'. charge_steps 3 (begin_eval_run limit_example) = (Inr (), c')) \<and>
   \<not> (\<exists>c'. charge_steps 4 (begin_eval_run limit_example) = (Inr (), c'))"
proof -
  have "no_abort limit_example" "eval_depth limit_example = 0" "step_limit limit_example > 0"
    "step_limit limit_example < SIZE_MAX"
    by (simp_all add: limit_example_def no_abort_def SIZE_MAX_def)
  note B = step_budget_exact [OF this]
  show ?thesis using B [of 3] B [of 4] by (simp add: limit_example_def)
qed

lemma poll_late:
  assumes "timeout_ms c > 0" and "\<And>n. timeout_deadline_ms c \<le> env_clock c n"
  shows "(\<exists>m c'. poll_eval_abort False c = (Some m, c')) \<or>
         (1 < timeout_countdown c \<and> (\<exists>c'. poll_eval_abort False c = (None, c') \<and>
            poll_frame c c' \<and> timeout_countdown c' = timeout_countdown c - 1))"
proof (cases "timeout_countdown c \<le> 1")
  case True
  with assms show ?thesis
    by (simp add: poll_eval_abort_def poll_timeout_def current_time_ms_def Let_def)
next
  case False
  let ?c = "c\<lparr>timeout_countdown := timeout_countdown c - 1\<rparr>"
  have 1: "poll_timeout False c = (None, ?c)" using assms(1) False by (simp add: poll_timeout_def)
  have 2: "timeout_countdown (snd (poll_interrupt False ?c)) = timeout_countdown c - 1"
    by (simp add: poll_interrupt_def Let_def)
  have 3: "poll_frame c (snd (poll_eval_abort False c))" by (rule poll_eval_abort_frame)
  obtain r c' where P: "poll_interrupt False ?c = (r, c')" by (cases "poll_interrupt False ?c")
  then have "poll_eval_abort False c = (r, c')" by (simp add: poll_eval_abort_def 1)
  with 2 3 P False show ?thesis by (cases r) auto
qed

lemma charge_steps_late:
  assumes "timeout_ms c > 0" and "\<And>n. timeout_deadline_ms c \<le> env_clock c n"
    and "timeout_countdown c \<le> n" and "0 < n"
  shows "\<exists>e c'. charge_steps n c = (Inl e, c')"
  using assms
proof (induction n arbitrary: c)
  case 0
  then show ?case by simp
next
  case (Suc n)
  let ?c = "c\<lparr>steps_executed := steps_executed c + 1\<rparr>"
  have late: "timeout_ms ?c > 0" "\<And>n. timeout_deadline_ms ?c \<le> env_clock ?c n"
    using Suc.prems(1,2) by simp_all
  show ?case
  proof (cases "step_limit ?c > 0 \<and> steps_executed ?c > step_limit ?c")
    case True
    then show ?thesis by (simp add: charge_steps_Suc check_eval_budget_run fe_error_def)
  next
    case False
    then have B: "check_eval_budget c = (case poll_eval_abort False ?c of
        (Some m, c') \<Rightarrow> fe_error m c' | (None, c') \<Rightarrow> (Inr (), c'))"
      by (simp only: check_eval_budget_run Let_def if_False)
    from poll_late [OF late] show ?thesis
    proof (elim disjE exE conjE)
      fix m c' assume "poll_eval_abort False ?c = (Some m, c')"
      then show ?thesis by (simp add: charge_steps_Suc B fe_error_def)
    next
      fix c' assume P: "poll_eval_abort False ?c = (None, c')" and F: "poll_frame ?c c'"
        and T: "timeout_countdown c' = timeout_countdown ?c - 1" and gt: "1 < timeout_countdown ?c"
      have "\<exists>e c''. charge_steps n c' = (Inl e, c'')"
        by (rule Suc.IH) (use F T gt Suc.prems in \<open>simp_all add: poll_frame_fields\<close>)
      then show ?thesis by (simp add: charge_steps_Suc B P)
    qed
  qed
qed

text \<open>
  C27. The wall-clock timeout is prompt: once the clock has passed the deadline, at most
  \<^verbatim>\<open>TIMEOUT_CHECK_INTERVAL\<close> further evaluation steps are charged before the run is aborted.
\<close>

theorem timeout_is_prompt:
  assumes "timeout_ms c > 0" and "\<And>n. timeout_deadline_ms c \<le> env_clock c n"
    and "timeout_countdown c \<le> TIMEOUT_CHECK_INTERVAL"
  shows "\<exists>e c'. charge_steps TIMEOUT_CHECK_INTERVAL c = (Inl e, c')"
  using charge_steps_late [OF assms] by (simp add: TIMEOUT_CHECK_INTERVAL_def)

theorem timeout_is_prompt_witness:
  "\<exists>e c'. charge_steps TIMEOUT_CHECK_INTERVAL
     (limit_example\<lparr>timeout_ms := 5, timeout_deadline_ms := 900, timeout_countdown := 64\<rparr>) = (Inl e, c')"
  by (rule timeout_is_prompt) (simp_all add: limit_example_def TIMEOUT_CHECK_INTERVAL_def)

text \<open>
  C28. The deadline is computed in 64 bits and wraps: a timeout longer than what is left of the
  64-bit clock yields a deadline in the past, and the next poll aborts the run at once.
\<close>

theorem timeout_wraps_around:
  assumes "env_clock c (n_clock c) = now" and "ms > 0" and "unat now + unat ms \<ge> 2 ^ 64"
    and "env_clock c (Suc (n_clock c)) \<ge> now"
  shows "timeout_deadline_ms (fe_set_timeout_ms ms c) < now \<and>
         fst (fe_poll_abort (fe_set_timeout_ms ms c)) = Some ''execution timeout exceeded''"
proof -
  have d: "timeout_deadline_ms (fe_set_timeout_ms ms c) = now + ms"
    using assms(1,2) by (simp add: fe_set_timeout_ms_def current_time_ms_def Let_def)
  have "unat (now + ms) = unat now + unat ms - 2 ^ 64"
    using assms(3) unat_lt_64 [of now] unat_lt_64 [of ms]
    by (simp add: unat_word_ariths mod_if)
  then have lt: "now + ms < now"
    using unat_lt_64 [of ms] assms(3) by (simp add: word_less_nat_alt)
  have "fst (fe_poll_abort (fe_set_timeout_ms ms c)) = Some ''execution timeout exceeded''"
    using assms order_trans [OF order_less_imp_le [OF lt] assms(4)]
    by (simp add: fe_poll_abort_def poll_eval_abort_def poll_timeout_def fe_set_timeout_ms_def
        current_time_ms_def Let_def)
  with d lt show ?thesis by simp
qed

theorem timeout_wraps_around_witness:
  "fst (fe_poll_abort (fe_set_timeout_ms SIZE_MAX limit_example)) = Some ''execution timeout exceeded''"
  using timeout_wraps_around [of limit_example 1000 SIZE_MAX]
  by (simp add: limit_example_def SIZE_MAX_def)

end
