(* ===== verification/Fe_Heap.thy ===== *)
theory Fe_Heap
  imports Fe_Limits
begin

text \<open>
  The object heap of the runtime (\<^verbatim>\<open>fe.c\<close>): cells with two union fields, the string slabs, the
  hash maps owned by cells, the context, the stack of garbage collection roots, and the
  accessors every other part uses.

  A cell of the object arena is addressed by its index (\<open>Ref i\<close>). The fields of the C union are
  the constructors of \<open>val\<close>; reading a field under a constructor other than the one it was
  written with, dereferencing an immediate, or reading the NULL fields of the static nil object
  is a \<open>Crash\<close>. The backing arrays of a map are part of the cell that owns them.
\<close>

section \<open>Cells, maps, slabs, spans\<close>

datatype slot_state = MAP_EMPTY | MAP_USED | MAP_TOMBSTONE

record fe_Map =
  map_count :: int
  map_used :: int
  map_capacity :: nat
  map_keys :: "ptr option list"
  map_values :: "ptr option list"
  map_states :: "slot_state list"

text \<open>The union \<^verbatim>\<open>Value\<close>. A host pointer is a number, \<open>0\<close> for NULL; a C function is its index in
  the table of registered functions.\<close>

datatype val =
    VObj ptr
  | VNum fe_Number
  | VPrim nat
  | VFn nat
  | VU32 u32
  | VMap "fe_Map option"
  | VHost nat
  | VNone

record fe_Object =
  ocar :: val
  ocdr :: val
  ty :: fe_tag
  mark :: bool

definition FE_SLAB_SIZE :: nat where "FE_SLAB_SIZE = 64"
definition FE_SLAB_DATA_SIZE :: nat where "FE_SLAB_DATA_SIZE = 60"
definition FE_SLAB_NULL :: u32 where "FE_SLAB_NULL = 0xFFFFFFFF"
definition GCSTACKSIZE :: nat where "GCSTACKSIZE = 1024"
definition GC_GROWTH_FACTOR :: int where "GC_GROWTH_FACTOR = 2"
definition GC_INITIAL_DIVISOR :: nat where "GC_INITIAL_DIVISOR = 4"
definition GC_MIN_THRESHOLD :: int where "GC_MIN_THRESHOLD = 1024"

record fe_Slab =
  slab_next :: u32
  slab_data :: string

text \<open>
  A span ties a node to the place in the source it came from. \<open>span_source\<close> is the owned excerpt;
  \<^verbatim>\<open>start\<close> and \<^verbatim>\<open>end\<close> delimit all of it.
\<close>

record FexSpan =
  span_node :: ptr
  span_source :: "string option"
  span_source_name :: string
  start_line :: int
  start_col :: int
  end_line :: int
  end_col :: int

record FexSpanState =
  buckets :: "FexSpan list list"
  source_names :: "string list"
  span_enabled :: bool

text \<open>
  An owned C string is its text with the size of the block it lives in. A growable array of them
  (\<^verbatim>\<open>char **items; int count, capacity\<close>) has NULL items while its capacity is 0.
\<close>

type_synonym cstr = "string \<times> size_t"

record str_array =
  arr_items :: "cstr list"
  arr_capacity :: nat

section \<open>The context\<close>

record fe_Context = limit_ctx +
  gcstack :: "ptr list"
  objects :: "fe_Object list"
  objects_addr :: u64
  nil_addr :: u64
  freelist :: ptr
  modulestack :: ptr
  symlist :: ptr
  t_sym :: ptr
  nextchr :: char
  import_paths :: str_array
  source_dirs :: str_array
  source_buffers :: str_array
  loading_modules :: str_array
  loaded_modules :: str_array
  loaded_module_values :: "ptr list"
  loaded_module_value_capacity :: nat
  live_count :: int
  allocs_since_gc :: int
  gc_threshold :: int
  bytes_since_gc :: size_t
  byte_threshold :: size_t
  gc_runs :: size_t
  object_allocations_total :: size_t
  return_sym :: ptr
  frame_sym :: ptr
  do_sym :: ptr
  let_sym :: ptr
  quote_sym :: ptr
  fn_sym :: ptr
  mac_sym :: ptr
  span_state :: "FexSpanState option"
  slabs :: "fe_Slab list"
  str_freelist :: u32

type_synonym 'a fcomp = "(fe_Context, fe_err, 'a) comp"

section \<open>The initial state\<close>

text \<open>
  The part of \<^verbatim>\<open>fe_open\<close> before the first symbol is made: the context is zeroed, the region is split
  into an object arena and a slab arena, both are threaded into free lists, and the thresholds
  are set. The answers of the environment and the two addresses are parameters. What the arenas
  hold before the first write is never read; the model takes zeros.
\<close>

record fe_env =
  e_malloc :: "nat \<Rightarrow> size_t \<Rightarrow> bool"
  e_clock :: "nat \<Rightarrow> u64"
  e_irq :: "nat \<Rightarrow> bool"
  e_objects_addr :: u64
  e_nil_addr :: u64

definition empty_array :: str_array where
  "empty_array = \<lparr>arr_items = [], arr_capacity = 0\<rparr>"

definition zeroed_context :: "fe_env \<Rightarrow> size_t \<Rightarrow> fe_Context" where
  "zeroed_context env total_mem =
     \<lparr>base_memory_bytes = total_mem, memory_limit = 0, memory_used = total_mem,
      peak_memory_used = total_mem, alloc_failure_active = False, alloc_failure_is_limit = False,
      env_malloc = e_malloc env, n_malloc = 0,
      calllist = [], step_limit = 0, steps_executed = 0, timeout_ms = 0, timeout_deadline_ms = 0,
      timeout_countdown = 0, interrupt_interval = 0, interrupt_countdown = 0,
      interrupt_handler = False, eval_depth = 0,
      current_eval_depth = 0, max_eval_depth = FE_DEFAULT_MAX_EVAL_DEPTH,
      current_read_depth = 0, max_read_depth = FE_DEFAULT_MAX_READ_DEPTH,
      temp_allocs = [], compile_scopes = 0,
      env_clock = e_clock env, n_clock = 0, env_irq = e_irq env, n_irq = 0,
      gcstack = [], objects = [], objects_addr = e_objects_addr env, nil_addr = e_nil_addr env,
      freelist = Nil, modulestack = Nil, symlist = Nil, t_sym = Nil, nextchr = CHR 0x00,
      import_paths = empty_array, source_dirs = empty_array, source_buffers = empty_array,
      loading_modules = empty_array, loaded_modules = empty_array,
      loaded_module_values = [], loaded_module_value_capacity = 0,
      live_count = 0, allocs_since_gc = 0, gc_threshold = 0, bytes_since_gc = 0,
      byte_threshold = 0, gc_runs = 0, object_allocations_total = 0,
      return_sym = Nil, frame_sym = Nil, do_sym = Nil, let_sym = Nil, quote_sym = Nil,
      fn_sym = Nil, mac_sym = Nil, span_state = None, slabs = [], str_freelist = FE_SLAB_NULL\<rparr>"

definition free_slab_at :: "nat \<Rightarrow> fe_Context \<Rightarrow> fe_Context" where
  "free_slab_at i c =
     c\<lparr>slabs := (slabs c)[i := (slabs c ! i)\<lparr>slab_next := str_freelist c\<rparr>],
       str_freelist := of_nat (FE_SLAB_SIZE * i)\<rparr>"

definition free_cell_at :: "nat \<Rightarrow> fe_Context \<Rightarrow> fe_Context" where
  "free_cell_at i c =
     c\<lparr>objects := (objects c)[i := (objects c ! i)\<lparr>ty := FE_TFREE, mark := False, ocdr := VObj (freelist c)\<rparr>],
       freelist := Ref i\<rparr>"

definition init_arenas :: "nat \<Rightarrow> nat \<Rightarrow> fe_Context \<Rightarrow> fe_Context" where
  "init_arenas object_count slab_count c =
     (let c = c\<lparr>objects := replicate object_count \<lparr>ocar = VNone, ocdr = VNone, ty = FE_TPAIR, mark = False\<rparr>,
                slabs := replicate slab_count
                  \<lparr>slab_next = 0, slab_data = replicate FE_SLAB_DATA_SIZE (CHR 0x00)\<rparr>\<rparr>;
          c = fold free_slab_at [0..<slab_count] c;
          thr = int (object_count div GC_INITIAL_DIVISOR);
          c = c\<lparr>gc_threshold := (if thr < GC_MIN_THRESHOLD then GC_MIN_THRESHOLD else thr),
                byte_threshold := of_nat (object_count * sizeof_fe_Object div 3)\<rparr>
      in fold free_cell_at [0..<object_count] c)"

definition sizeof_fe_Context :: nat where "sizeof_fe_Context = 8656"
definition FE_STR_ARENA_RATIO :: fe_Number where "FE_STR_ARENA_RATIO = round_num (3 / 10)"

text \<open>The split of the region: \<^verbatim>\<open>(size_t)(arenas_sz * FE_STR_ARENA_RATIO)\<close> in double arithmetic,
  rounded down to a multiple of the pointer size.\<close>

definition arena_split :: "nat \<Rightarrow> nat \<times> nat" where
  "arena_split arenas_sz =
     (let s = nat (trunc_rat (num_rat (num_mul (num_of_int (int arenas_sz)) FE_STR_ARENA_RATIO)));
          str_arena_sz = s - s mod 8;
          obj_arena_sz = arenas_sz - str_arena_sz
      in (obj_arena_sz div sizeof_fe_Object, str_arena_sz div FE_SLAB_SIZE))"

definition fe_open_arenas :: "fe_env \<Rightarrow> nat \<Rightarrow> fe_Context option" where
  "fe_open_arenas env total_mem =
     (if total_mem < sizeof_fe_Context then None
      else let (object_capacity, slab_count) = arena_split (total_mem - sizeof_fe_Context)
           in if object_capacity > 2 ^ 31 - 1 then None
              else Some (init_arenas object_capacity slab_count
                     (zeroed_context env (of_nat total_mem))))"

section \<open>Types and fields of objects\<close>

text \<open>The macro \<^verbatim>\<open>type(x)\<close>. An index outside the arena stands for no object of the program.\<close>

fun obj_type :: "fe_Object list \<Rightarrow> ptr \<Rightarrow> fe_tag" where
  "obj_type os Nil = FE_TNIL"
| "obj_type os (Fixnum i) = FE_TNUMBER"
| "obj_type os (Boolean b) = FE_TBOOLEAN"
| "obj_type os (Ref i) = (if i < length os then ty (os ! i) else FE_TFREE)"

definition typeof :: "fe_Context \<Rightarrow> ptr \<Rightarrow> fe_tag" where
  "typeof c p = obj_type (objects c) p"

definition cell :: "ptr \<Rightarrow> fe_Object fcomp" where
  "cell p c = (case p of
      Ref i \<Rightarrow> if i < length (objects c) then (Inr (objects c ! i), c) else (Inl Crash, c)
    | _ \<Rightarrow> (Inl Crash, c))"

definition as_obj :: "val \<Rightarrow> ptr fcomp" where
  "as_obj v = (case v of VObj p \<Rightarrow> ret p | _ \<Rightarrow> throw Crash)"

definition car :: "ptr \<Rightarrow> ptr fcomp" where
  "car p = bnd (cell p) (\<lambda>o'. as_obj (ocar o'))"

definition cdr :: "ptr \<Rightarrow> ptr fcomp" where
  "cdr p = bnd (cell p) (\<lambda>o'. as_obj (ocdr o'))"

definition upd_cell :: "ptr \<Rightarrow> (fe_Object \<Rightarrow> fe_Object) \<Rightarrow> unit fcomp" where
  "upd_cell p f c = (case p of
      Ref i \<Rightarrow> if i < length (objects c)
               then (Inr (), c\<lparr>objects := (objects c)[i := f (objects c ! i)]\<rparr>)
               else (Inl Crash, c)
    | _ \<Rightarrow> (Inl Crash, c))"

definition set_car :: "ptr \<Rightarrow> ptr \<Rightarrow> unit fcomp" where
  "set_car p v = upd_cell p (\<lambda>o'. o'\<lparr>ocar := VObj v\<rparr>)"

definition set_cdr :: "ptr \<Rightarrow> ptr \<Rightarrow> unit fcomp" where
  "set_cdr p v = upd_cell p (\<lambda>o'. o'\<lparr>ocdr := VObj v\<rparr>)"

text \<open>\<^verbatim>\<open>settype\<close> writes the whole flags byte, so it clears the mark.\<close>

definition settype :: "ptr \<Rightarrow> fe_tag \<Rightarrow> unit fcomp" where
  "settype p t = upd_cell p (\<lambda>o'. o'\<lparr>ty := t, mark := False\<rparr>)"

definition isnil :: "ptr \<Rightarrow> bool" where
  "isnil p \<longleftrightarrow> p = Nil"

definition fe_truthy :: "ptr \<Rightarrow> bool" where
  "fe_truthy p \<longleftrightarrow> p \<noteq> Boolean False \<and> \<not> isnil p"

definition fe_bool :: "bool \<Rightarrow> ptr" where
  "fe_bool b = (if b then Boolean True else Boolean False)"

definition is_immediate :: "ptr \<Rightarrow> bool" where
  "is_immediate p \<longleftrightarrow> (case p of Ref _ \<Rightarrow> False | _ \<Rightarrow> True)"

section \<open>Arguments and type checks\<close>

definition fe_nextarg :: "ptr \<Rightarrow> (ptr \<times> ptr) fcomp" where
  "fe_nextarg a = bnd (gets (\<lambda>c. typeof c a)) (\<lambda>t.
     if t \<noteq> FE_TPAIR then
       (if isnil a then fe_error ''too few arguments''
        else fe_error ''dotted pair in argument list'')
     else bnd (cdr a) (\<lambda>rest. bnd (car a) (\<lambda>x. ret (x, rest))))"

definition is_fixnum :: "ptr \<Rightarrow> bool" where
  "is_fixnum p \<longleftrightarrow> (case p of Fixnum _ \<Rightarrow> True | _ \<Rightarrow> False)"

definition checktype :: "ptr \<Rightarrow> fe_tag \<Rightarrow> ptr fcomp" where
  "checktype obj expected = bnd (gets (\<lambda>c. typeof c obj)) (\<lambda>actual_type.
     if expected = FE_TNUMBER \<and> is_fixnum obj then ret obj
     else if actual_type \<noteq> expected then
       fe_error (''expected '' @ typenames expected @ '', got '' @
         (if is_fixnum obj then ''number'' else typenames actual_type))
     else ret obj)"

definition checknum :: "ptr \<Rightarrow> ptr fcomp" where
  "checknum obj = (if is_fixnum obj then ret obj else checktype obj FE_TNUMBER)"

definition fe_num_value :: "ptr \<Rightarrow> fe_Number fcomp" where
  "fe_num_value p = (case p of
      Fixnum i \<Rightarrow> ret (num_of_int i)
    | _ \<Rightarrow> bnd (cell p) (\<lambda>o'. case ocdr o' of VNum n \<Rightarrow> ret n | _ \<Rightarrow> throw Crash))"

definition fe_car :: "ptr \<Rightarrow> ptr fcomp" where
  "fe_car obj = (if isnil obj then ret obj else bnd (checktype obj FE_TPAIR) car)"

definition fe_cdr :: "ptr \<Rightarrow> ptr fcomp" where
  "fe_cdr obj = (if isnil obj then ret obj else bnd (checktype obj FE_TPAIR) cdr)"

definition is_return_obj :: "ptr \<Rightarrow> bool fcomp" where
  "is_return_obj obj = bnd (gets (\<lambda>c. typeof c obj)) (\<lambda>t.
     if t = FE_TPAIR then bnd (car obj) (\<lambda>x. gets (\<lambda>c. x = return_sym c)) else ret False)"

definition fe_ctx_object_is_live :: "fe_Context \<Rightarrow> ptr \<Rightarrow> bool" where
  "fe_ctx_object_is_live c p = (case p of
      Ref i \<Rightarrow> i < length (objects c) \<and> typeof c p \<noteq> FE_TFREE
    | _ \<Rightarrow> False)"

section \<open>The root stack\<close>

definition fe_pushgc :: "ptr \<Rightarrow> unit fcomp" where
  "fe_pushgc obj =
     (if is_immediate obj then ret ()
      else bnd (gets (\<lambda>c. length (gcstack c))) (\<lambda>idx.
        if idx = GCSTACKSIZE then fe_error ''gc stack overflow''
        else modify (\<lambda>c. c\<lparr>gcstack := gcstack c @ [obj]\<rparr>)))"

definition fe_savegc :: "nat fcomp" where
  "fe_savegc = gets (\<lambda>c. length (gcstack c))"

definition fe_restoregc :: "nat \<Rightarrow> unit fcomp" where
  "fe_restoregc idx = modify (\<lambda>c. c\<lparr>gcstack := take idx (gcstack c)\<rparr>)"

section \<open>Loops over lists in the heap\<close>

text \<open>
  The loops below follow \<^verbatim>\<open>cdr\<close> until nil. Their models carry a fuel; \<open>walk_fuel\<close> exceeds the
  number of cells, so that running out of it means that the list is cyclic and the C loop never
  ends.
\<close>

definition walk_fuel :: "fe_Context \<Rightarrow> nat" where
  "walk_fuel c = Suc (length (objects c))"

fun list_has_loop :: "nat \<Rightarrow> ptr \<Rightarrow> ptr \<Rightarrow> bool fcomp" where
  "list_has_loop 0 l item = throw OutOfFuel"
| "list_has_loop (Suc n) l item =
     (if isnil l then ret False
      else bnd (car l) (\<lambda>x. if x = item then ret True
        else bnd (cdr l) (\<lambda>l'. list_has_loop n l' item)))"

definition list_has :: "ptr \<Rightarrow> ptr \<Rightarrow> bool fcomp" where
  "list_has l item = bnd (gets walk_fuel) (\<lambda>n. list_has_loop n l item)"

text \<open>The entry of an association list whose key is \<open>sy\<close>: the loop \<^verbatim>\<open>getbound\<close> has three times.\<close>

fun find_binding :: "nat \<Rightarrow> ptr \<Rightarrow> ptr \<Rightarrow> ptr option fcomp" where
  "find_binding 0 p sy = throw OutOfFuel"
| "find_binding (Suc n) p sy =
     (if isnil p then ret None
      else bnd (car p) (\<lambda>x. bnd (car x) (\<lambda>k.
        if k = sy then ret (Some x) else bnd (cdr p) (\<lambda>p'. find_binding n p' sy))))"

definition is_frame :: "ptr \<Rightarrow> bool fcomp" where
  "is_frame env = bnd (gets (\<lambda>c. typeof c env)) (\<lambda>t.
     if t = FE_TPAIR then bnd (car env) (\<lambda>x. gets (\<lambda>c. x = frame_sym c)) else ret False)"

definition getbound :: "ptr \<Rightarrow> ptr \<Rightarrow> ptr fcomp" where
  "getbound sy env = bnd (gets walk_fuel) (\<lambda>n. bnd (is_frame env) (\<lambda>frame.
     if frame then
       bnd (cdr env) (\<lambda>d. bnd (car d) (\<lambda>locals. bnd (cdr d) (\<lambda>upvals.
         bnd (find_binding n locals sy) (\<lambda>b. case b of Some x \<Rightarrow> ret x | None \<Rightarrow>
           bnd (find_binding n upvals sy) (\<lambda>b. case b of Some x \<Rightarrow> ret x | None \<Rightarrow> cdr sy)))))
     else bnd (find_binding n env sy) (\<lambda>b. case b of Some x \<Rightarrow> ret x | None \<Rightarrow> cdr sy)))"

definition fe_set :: "ptr \<Rightarrow> ptr \<Rightarrow> unit fcomp" where
  "fe_set sy v = bnd (getbound sy Nil) (\<lambda>b. set_cdr b v)"

text \<open>\<^verbatim>\<open>find_assoc_binding\<close> rejects a list that is not an association list; its result pairs the
  return value with \<^verbatim>\<open>*binding\<close>.\<close>

fun find_assoc_loop :: "nat \<Rightarrow> ptr \<Rightarrow> ptr \<Rightarrow> (bool \<times> ptr option) fcomp" where
  "find_assoc_loop 0 sy p = throw OutOfFuel"
| "find_assoc_loop (Suc n) sy p =
     (if isnil p then ret (True, None)
      else bnd (gets (\<lambda>c. typeof c p)) (\<lambda>t. if t \<noteq> FE_TPAIR then ret (False, None)
        else bnd (car p) (\<lambda>entry. bnd (gets (\<lambda>c. typeof c entry)) (\<lambda>t.
          if t \<noteq> FE_TPAIR then ret (False, None)
          else bnd (car entry) (\<lambda>k. if k = sy then ret (True, Some entry)
            else bnd (cdr p) (find_assoc_loop n sy))))))"

definition find_assoc_binding :: "ptr \<Rightarrow> ptr \<Rightarrow> (bool \<times> ptr option) fcomp" where
  "find_assoc_binding sy env = bnd (gets walk_fuel) (\<lambda>n. bnd (gets (\<lambda>c. typeof c env)) (\<lambda>t.
     if t \<noteq> FE_TPAIR then ret (False, None) else find_assoc_loop n sy env))"

section \<open>Proper lists in the heap\<close>

text \<open>\<open>heap_list os p xs\<close>: from \<open>p\<close> the cdr chain is a proper list with the elements \<open>xs\<close>.\<close>

fun heap_list :: "fe_Object list \<Rightarrow> ptr \<Rightarrow> ptr list \<Rightarrow> bool" where
  "heap_list os p [] = (p = Nil)"
| "heap_list os p (x # xs) = (case p of
      Ref i \<Rightarrow> i < length os \<and> ocar (os ! i) = VObj x \<and>
        (case ocdr (os ! i) of VObj d \<Rightarrow> heap_list os d xs | _ \<Rightarrow> False)
    | _ \<Rightarrow> False)"

lemma heap_list_ConsE:
  assumes "heap_list os p (x # xs)"
  obtains i d where "p = Ref i" "i < length os" "ocar (os ! i) = VObj x" "ocdr (os ! i) = VObj d"
    "heap_list os d xs"
  using assms by (auto split: ptr.splits val.splits)

lemma heap_list_det: "heap_list os p xs \<Longrightarrow> heap_list os p ys \<Longrightarrow> xs = ys"
proof (induction xs arbitrary: p ys)
  case Nil
  then show ?case by (cases ys) simp_all
next
  case (Cons x xs)
  from Cons.prems(1) obtain i d where d: "p = Ref i" "ocar (os ! i) = VObj x"
    "ocdr (os ! i) = VObj d" "heap_list os d xs" by (rule heap_list_ConsE)
  with Cons.prems(2) obtain y ys' where "ys = y # ys'" by (cases ys) auto
  with Cons.prems(2) d(1-3) have "y = x" "heap_list os d ys'" by simp_all
  with Cons.IH [OF d(4)] \<open>ys = y # ys'\<close> show ?case by simp
qed

text \<open>The indices of the cells of a proper list.\<close>

fun spine :: "fe_Object list \<Rightarrow> ptr \<Rightarrow> ptr list \<Rightarrow> nat list" where
  "spine os p [] = []"
| "spine os p (x # xs) = (case p of
      Ref i \<Rightarrow> i # (case ocdr (os ! i) of VObj d \<Rightarrow> spine os d xs | _ \<Rightarrow> [])
    | _ \<Rightarrow> [])"

lemma spine_suffix:
  "heap_list os p xs \<Longrightarrow> i \<in> set (spine os p xs) \<Longrightarrow>
   i < length os \<and> (\<exists>k < length xs. heap_list os (Ref i) (drop k xs))"
proof (induction xs arbitrary: p)
  case (Cons x xs)
  from Cons.prems(1) obtain j d where d: "p = Ref j" "j < length os" "ocar (os ! j) = VObj x"
    "ocdr (os ! j) = VObj d" "heap_list os d xs" by (rule heap_list_ConsE)
  show ?case
  proof (cases "i = j")
    case True
    with Cons.prems(1) d show ?thesis by (auto intro!: exI [of _ 0])
  next
    case False
    with Cons.prems(2) d have "i \<in> set (spine os d xs)" by simp
    from Cons.IH [OF d(5) this] obtain k where "i < length os" "k < length xs"
      "heap_list os (Ref i) (drop k xs)" by blast
    then show ?thesis by (auto intro!: exI [of _ "Suc k"])
  qed
qed simp

lemma spine_distinct: "heap_list os p xs \<Longrightarrow> distinct (spine os p xs) \<and> length (spine os p xs) = length xs"
proof (induction xs arbitrary: p)
  case (Cons x xs)
  from Cons.prems obtain j d where d: "p = Ref j" "ocar (os ! j) = VObj x"
    "ocdr (os ! j) = VObj d" "heap_list os d xs" by (rule heap_list_ConsE)
  have "j \<notin> set (spine os d xs)"
  proof
    assume "j \<in> set (spine os d xs)"
    from spine_suffix [OF d(4) this] obtain k where "heap_list os (Ref j) (drop k xs)" by blast
    with Cons.prems d(1) have "x # xs = drop k xs" by (blast intro: heap_list_det)
    then have "length (x # xs) = length (drop k xs)" by (rule arg_cong)
    then show False by simp
  qed
  with d Cons.IH [OF d(4)] show ?case by simp
qed simp

text \<open>A proper list is never longer than the arena: \<open>walk_fuel\<close> suffices for every proper list.\<close>

lemma heap_list_length: "heap_list os p xs \<Longrightarrow> length xs \<le> length os"
  using spine_distinct [of os p xs] spine_suffix [of os p xs]
  by (metis distinct_length_le lessThan_iff subsetI)

lemma cell_Ref [run_simps]: "i < length (objects c) \<Longrightarrow> cell (Ref i) c = (Inr (objects c ! i), c)"
  by (simp add: cell_def)

lemma car_Ref [run_simps]:
  "i < length (objects c) \<Longrightarrow> ocar (objects c ! i) = VObj x \<Longrightarrow> car (Ref i) c = (Inr x, c)"
  by (simp add: car_def as_obj_def bnd_def cell_def ret_def)

lemma cdr_Ref [run_simps]:
  "i < length (objects c) \<Longrightarrow> ocdr (objects c ! i) = VObj x \<Longrightarrow> cdr (Ref i) c = (Inr x, c)"
  by (simp add: cdr_def as_obj_def bnd_def cell_def ret_def)

lemma list_has_loop_correct:
  "heap_list (objects c) l xs \<Longrightarrow> length xs < n \<Longrightarrow>
   list_has_loop n l item c = (Inr (item \<in> set xs), c)"
proof (induction xs arbitrary: l n)
  case Nil
  then show ?case by (cases n) (simp_all add: isnil_def ret_def)
next
  case (Cons x xs)
  then obtain m where n: "n = Suc m" "length xs < m" by (cases n) auto
  from Cons.prems(1) show ?case
    by (rule heap_list_ConsE)
      (use n Cons.IH in \<open>auto simp: isnil_def ret_def bnd_Inr [OF car_Ref] bnd_Inr [OF cdr_Ref]\<close>)
qed

lemma list_has_correct:
  "heap_list (objects c) l xs \<Longrightarrow> list_has l item c = (Inr (item \<in> set xs), c)"
  unfolding list_has_def bnd_gets
  by (rule list_has_loop_correct) (auto simp: walk_fuel_def less_Suc_eq_le dest: heap_list_length)

section \<open>Variable lookup\<close>

definition binding_key :: "fe_Object list \<Rightarrow> ptr \<Rightarrow> ptr option" where
  "binding_key os x = (case x of
      Ref i \<Rightarrow> if i < length os then (case ocar (os ! i) of VObj k \<Rightarrow> Some k | _ \<Rightarrow> None) else None
    | _ \<Rightarrow> None)"

lemma car_binding: "binding_key (objects c) x = Some k \<Longrightarrow> car x c = (Inr k, c)"
  by (auto simp: binding_key_def car_Ref split: ptr.splits if_splits val.splits)

lemma find_binding_correct:
  "heap_list (objects c) p xs \<Longrightarrow> length xs < n \<Longrightarrow>
   \<forall>x \<in> set xs. binding_key (objects c) x \<noteq> None \<Longrightarrow>
   find_binding n p sy c = (Inr (find (\<lambda>x. binding_key (objects c) x = Some sy) xs), c)"
proof (induction xs arbitrary: p n)
  case Nil
  then show ?case by (cases n) (simp_all add: isnil_def ret_def)
next
  case (Cons x xs)
  then obtain m where n: "n = Suc m" "length xs < m" by (cases n) auto
  from Cons.prems(3) obtain k where k: "binding_key (objects c) x = Some k" by auto
  from Cons.prems(1) show ?case
    by (rule heap_list_ConsE)
      (use n k Cons.IH Cons.prems(3) in
        \<open>auto simp: isnil_def ret_def bnd_Inr [OF car_Ref] bnd_Inr [OF cdr_Ref] bnd_Inr [OF car_binding]\<close>)
qed

text \<open>
  The bindings an environment shows, innermost first: the locals and then the captured variables
  of a closure frame, or the entries of an association list.
\<close>

definition env_entries :: "fe_Context \<Rightarrow> ptr \<Rightarrow> ptr list \<Rightarrow> bool" where
  "env_entries c env xs \<longleftrightarrow>
     (if typeof c env = FE_TPAIR \<and> binding_key (objects c) env = Some (frame_sym c) then
        (\<exists>e d locals upvals ls us.
           env = Ref e \<and> ocdr (objects c ! e) = VObj (Ref d) \<and> d < length (objects c) \<and>
           ocar (objects c ! d) = VObj locals \<and> ocdr (objects c ! d) = VObj upvals \<and>
           heap_list (objects c) locals ls \<and> heap_list (objects c) upvals us \<and> xs = ls @ us)
      else heap_list (objects c) env xs)"

lemma is_frame_run:
  assumes "typeof c env = FE_TPAIR \<Longrightarrow> binding_key (objects c) env \<noteq> None"
  shows "is_frame env c =
    (Inr (typeof c env = FE_TPAIR \<and> binding_key (objects c) env = Some (frame_sym c)), c)"
  using assms by (auto simp: is_frame_def bnd_gets bnd_Inr [OF car_binding] gets_def ret_def)

lemma find_append: "find P (xs @ ys) = (case find P xs of None \<Rightarrow> find P ys | Some x \<Rightarrow> Some x)"
  by (induction xs) simp_all

lemma find_binding_walk:
  "heap_list (objects c) p xs \<Longrightarrow> \<forall>x \<in> set xs. binding_key (objects c) x \<noteq> None \<Longrightarrow>
   find_binding (walk_fuel c) p sy c = (Inr (find (\<lambda>x. binding_key (objects c) x = Some sy) xs), c)"
  by (rule find_binding_correct) (auto simp: walk_fuel_def less_Suc_eq_le dest: heap_list_length)

text \<open>
  C5. Variable lookup is lexical: \<^verbatim>\<open>getbound\<close> returns the innermost binding of the symbol, locals
  before captured variables, and the global binding cell of the symbol when the environment has
  none; it changes nothing.
\<close>

theorem getbound_lexical:
  assumes "env_entries c env xs"
    and "\<forall>x \<in> set xs. binding_key (objects c) x \<noteq> None"
    and "cdr sy c = (Inr g, c)"
  shows "getbound sy env c =
    (Inr (case find (\<lambda>x. binding_key (objects c) x = Some sy) xs of Some x \<Rightarrow> x | None \<Rightarrow> g), c)"
proof (cases "typeof c env = FE_TPAIR \<and> binding_key (objects c) env = Some (frame_sym c)")
  case True
  with assms(1) obtain e d locals upvals ls us where
    e: "env = Ref e" "ocdr (objects c ! e) = VObj (Ref d)" "d < length (objects c)"
      "ocar (objects c ! d) = VObj locals" "ocdr (objects c ! d) = VObj upvals"
      "heap_list (objects c) locals ls" "heap_list (objects c) upvals us" "xs = ls @ us"
    unfolding env_entries_def by auto
  have "e < length (objects c)" using True e(1) by (simp add: typeof_def split: if_splits)
  moreover have "is_frame env c = (Inr True, c)" using True is_frame_run by simp
  moreover have "find_binding (walk_fuel c) locals sy c =
      (Inr (find (\<lambda>x. binding_key (objects c) x = Some sy) ls), c)"
    and "find_binding (walk_fuel c) upvals sy c =
      (Inr (find (\<lambda>x. binding_key (objects c) x = Some sy) us), c)"
    using e assms(2) by (auto intro!: find_binding_walk)
  ultimately show ?thesis
    using e assms(3)
    by (simp add: getbound_def bnd_def gets_def cdr_Ref car_Ref find_append ret_def
        split: option.splits)
next
  case False
  with assms(1) have l: "heap_list (objects c) env xs" by (auto simp: env_entries_def)
  have "binding_key (objects c) env \<noteq> None" if "typeof c env = FE_TPAIR"
    using l that by (cases xs) (auto simp: typeof_def binding_key_def split: ptr.splits)
  then have "is_frame env c = (Inr False, c)" using False is_frame_run by auto
  then show ?thesis
    using find_binding_walk [OF l assms(2)] assms(3)
    by (simp add: getbound_def bnd_def gets_def ret_def split: option.splits)
qed

text \<open>A host whose allocations succeed and that never interrupts.\<close>

definition quiet_env :: fe_env where
  "quiet_env = \<lparr>e_malloc = (\<lambda>_ _. True), e_clock = (\<lambda>_. 0), e_irq = (\<lambda>_. False),
     e_objects_addr = 0x10000, e_nil_addr = 0x1000\<rparr>"

definition pair_cell :: "ptr \<Rightarrow> ptr \<Rightarrow> fe_Object" where
  "pair_cell a d = \<lparr>ocar = VObj a, ocdr = VObj d, ty = FE_TPAIR, mark = False\<rparr>"

definition symbol_cell :: "ptr \<Rightarrow> fe_Object" where
  "symbol_cell d = \<lparr>ocar = VNone, ocdr = VObj d, ty = FE_TSYMBOL, mark = False\<rparr>"

text \<open>A frame (cell 0) that captures \<open>x\<close> (cell 5) as \<open>7\<close> and has the local \<open>y\<close> (cell 6) as \<open>8\<close>.\<close>

definition lookup_example :: fe_Context where
  "lookup_example = (zeroed_context quiet_env 4096)
     \<lparr>frame_sym := Ref 7,
      objects := [pair_cell (Ref 7) (Ref 1), pair_cell (Ref 2) (Ref 3),
                  pair_cell (Ref 4) Nil, pair_cell (Ref 8) Nil,
                  pair_cell (Ref 6) (Fixnum 8), symbol_cell (Ref 9), symbol_cell (Ref 9),
                  symbol_cell (Ref 9), pair_cell (Ref 5) (Fixnum 7), pair_cell Nil Nil]\<rparr>"

theorem getbound_lexical_witness:
  "getbound (Ref 5) (Ref 0) lookup_example = (Inr (Ref 8), lookup_example)"
proof -
  let ?os = "objects lookup_example"
  have os: "?os = [pair_cell (Ref 7) (Ref 1), pair_cell (Ref 2) (Ref 3),
      pair_cell (Ref 4) Nil, pair_cell (Ref 8) Nil,
      pair_cell (Ref 6) (Fixnum 8), symbol_cell (Ref 9), symbol_cell (Ref 9),
      symbol_cell (Ref 9), pair_cell (Ref 5) (Fixnum 7), pair_cell Nil Nil]"
    and f: "frame_sym lookup_example = Ref 7"
    by (simp_all add: lookup_example_def)
  have k: "binding_key ?os (Ref 4) = Some (Ref 6)" "binding_key ?os (Ref 8) = Some (Ref 5)"
    by (simp_all add: os binding_key_def pair_cell_def)
  have "env_entries lookup_example (Ref 0) ([Ref 4] @ [Ref 8])"
    unfolding env_entries_def
    by (simp add: os f typeof_def binding_key_def pair_cell_def)
      (rule exI [of _ "[Ref 4]"], simp)
  moreover have "cdr (Ref 5) lookup_example = (Inr (Ref 9), lookup_example)"
    by (rule cdr_Ref) (simp_all add: os symbol_cell_def)
  ultimately show ?thesis
    using getbound_lexical [of lookup_example "Ref 0" "[Ref 4, Ref 8]" "Ref 5" "Ref 9"] k
    by simp
qed

end
