(* ===== verification/Fe_Slab.thy ===== *)
theory Fe_Slab
  imports Fe_Heap
begin

text \<open>
  String and bytes data (\<^verbatim>\<open>fe.c\<close>, built with \<^verbatim>\<open>FE_OPT_NO_MALLOC_STRINGS\<close>): a chain of 64-byte
  slabs with 60 bytes of data each, linked by offsets into the slab arena. This theory has the
  routines that read chains (comparison, hashing, scanning, copying) and shows that each computes
  on the flat byte string the chain stands for.
\<close>

section \<open>Slabs and chains\<close>

definition slab_at :: "fe_Slab list \<Rightarrow> u32 \<Rightarrow> fe_Slab option" where
  "slab_at ss off =
     (if unat off mod FE_SLAB_SIZE = 0 \<and> unat off div FE_SLAB_SIZE < length ss
      then Some (ss ! (unat off div FE_SLAB_SIZE)) else None)"

text \<open>\<^verbatim>\<open>(remaining > FE_SLAB_DATA_SIZE) ? FE_SLAB_DATA_SIZE : remaining\<close>\<close>

definition chunk :: "nat \<Rightarrow> nat" where
  "chunk remaining = (if remaining > FE_SLAB_DATA_SIZE then FE_SLAB_DATA_SIZE else remaining)"

lemma chunk_pos [simp]: "0 < n \<Longrightarrow> 0 < chunk n"
  by (simp add: chunk_def FE_SLAB_DATA_SIZE_def)

lemma chunk_le [simp]: "chunk n \<le> n"
  by (simp add: chunk_def)

text \<open>Reads outside the slab arena are a crash (\<open>None\<close>).\<close>

function equal_slab_loop :: "fe_Slab list \<Rightarrow> u32 \<Rightarrow> u32 \<Rightarrow> nat \<Rightarrow> bool option" where
  "equal_slab_loop ss offset_a offset_b remaining =
     (if remaining = 0 then Some True
      else case slab_at ss offset_a of None \<Rightarrow> None | Some slab_a \<Rightarrow>
        case slab_at ss offset_b of None \<Rightarrow> None | Some slab_b \<Rightarrow>
          (let to_cmp = chunk remaining
           in if take to_cmp (slab_data slab_a) \<noteq> take to_cmp (slab_data slab_b) then Some False
              else if remaining - to_cmp > 0
                   then equal_slab_loop ss (slab_next slab_a) (slab_next slab_b) (remaining - to_cmp)
                   else Some True))"
  by pat_completeness auto
termination by (relation "measure (\<lambda>(ss, a, b, r). r)") auto

function streq_slab_loop :: "fe_Slab list \<Rightarrow> u32 \<Rightarrow> string \<Rightarrow> nat \<Rightarrow> bool option" where
  "streq_slab_loop ss offset str remaining =
     (if offset \<noteq> FE_SLAB_NULL \<and> remaining > 0 then
        case slab_at ss offset of None \<Rightarrow> None | Some slab \<Rightarrow>
          (let to_cmp = chunk remaining
           in if take to_cmp (slab_data slab) \<noteq> take to_cmp str then Some False
              else streq_slab_loop ss (slab_next slab) (drop to_cmp str) (remaining - to_cmp))
      else Some (remaining = 0))"
  by pat_completeness auto
termination by (relation "measure (\<lambda>(ss, a, b, r). r)") auto

function contains_nul_loop :: "fe_Slab list \<Rightarrow> u32 \<Rightarrow> nat \<Rightarrow> bool option" where
  "contains_nul_loop ss offset remaining =
     (if offset \<noteq> FE_SLAB_NULL \<and> remaining > 0 then
        case slab_at ss offset of None \<Rightarrow> None | Some slab \<Rightarrow>
          (if CHR 0x00 \<in> set (take (chunk remaining) (slab_data slab)) then Some True
           else contains_nul_loop ss (slab_next slab) (remaining - chunk remaining))
      else Some False)"
  by pat_completeness auto
termination by (relation "measure (\<lambda>(ss, a, r). r)") auto

text \<open>The copy loop of \<^verbatim>\<open>fe_bytescopy\<close>; the result is what was written to \<^verbatim>\<open>dst\<close>.\<close>

function bytescopy_loop :: "fe_Slab list \<Rightarrow> u32 \<Rightarrow> nat \<Rightarrow> nat \<Rightarrow> string option" where
  "bytescopy_loop ss slab_offset remaining_offset remaining =
     (if slab_offset \<noteq> FE_SLAB_NULL \<and> remaining > 0 then
        case slab_at ss slab_offset of None \<Rightarrow> None | Some slab \<Rightarrow>
          (if remaining_offset \<ge> FE_SLAB_DATA_SIZE
           then bytescopy_loop ss (slab_next slab) (remaining_offset - FE_SLAB_DATA_SIZE) remaining
           else let available = FE_SLAB_DATA_SIZE - remaining_offset;
                    to_copy = (if available > remaining then remaining else available)
                in map_option (\<lambda>rest. take to_copy (drop remaining_offset (slab_data slab)) @ rest)
                     (bytescopy_loop ss (slab_next slab) 0 (remaining - to_copy)))
      else Some [])"
  by pat_completeness auto
termination by (relation "measure (\<lambda>(ss, a, o', r). o' + r)") (auto simp: FE_SLAB_DATA_SIZE_def)

lemmas slab_loops [simp del] = equal_slab_loop.simps streq_slab_loop.simps contains_nul_loop.simps
  bytescopy_loop.simps

section \<open>The operations on objects\<close>

definition or_crash :: "'a option \<Rightarrow> 'a fcomp" where
  "or_crash x = (case x of Some y \<Rightarrow> ret y | None \<Rightarrow> throw Crash)"

definition FE_STR_LEN :: "ptr \<Rightarrow> nat fcomp" where
  "FE_STR_LEN p = bnd (car p) (\<lambda>n. case n of Fixnum i \<Rightarrow> ret (nat i) | _ \<Rightarrow> throw Crash)"

definition str_head :: "ptr \<Rightarrow> u32 fcomp" where
  "str_head p = bnd (cell p) (\<lambda>o'. case ocdr o' of VU32 u \<Rightarrow> ret u | _ \<Rightarrow> throw Crash)"

definition equal_slab :: "ptr \<Rightarrow> ptr \<Rightarrow> bool fcomp" where
  "equal_slab a b = bnd (FE_STR_LEN a) (\<lambda>len.
     if len = 0 then ret True
     else bnd (str_head a) (\<lambda>offset_a. bnd (str_head b) (\<lambda>offset_b. bnd (gets slabs) (\<lambda>ss.
       or_crash (equal_slab_loop ss offset_a offset_b len)))))"

definition equal :: "ptr \<Rightarrow> ptr \<Rightarrow> bool fcomp" where
  "equal a b =
     (if a = b then ret True
      else bnd (gets (\<lambda>c. (typeof c a, typeof c b))) (\<lambda>(ta, tb).
        if ta \<noteq> tb then ret False
        else if ta = FE_TNUMBER then
          bnd (fe_num_value a) (\<lambda>x. bnd (fe_num_value b) (\<lambda>y. ret (num_eq x y)))
        else if ta = FE_TSTRING \<or> ta = FE_TBYTES then
          bnd (FE_STR_LEN a) (\<lambda>la. bnd (FE_STR_LEN b) (\<lambda>lb.
            if la \<noteq> lb then ret False else equal_slab a b))
        else ret False))"

definition streq :: "ptr \<Rightarrow> string \<Rightarrow> bool fcomp" where
  "streq obj str = bnd (FE_STR_LEN obj) (\<lambda>len.
     if length str \<noteq> len then ret False
     else if len = 0 then ret True
     else bnd (str_head obj) (\<lambda>offset. bnd (gets slabs) (\<lambda>ss.
       or_crash (streq_slab_loop ss offset str len))))"

definition fe_symbol_name_eq :: "ptr \<Rightarrow> string \<Rightarrow> bool fcomp" where
  "fe_symbol_name_eq s str = bnd (gets (\<lambda>c. typeof c s)) (\<lambda>t.
     if t \<noteq> FE_TSYMBOL then ret False
     else bnd (cdr s) (\<lambda>d. bnd (car d) (\<lambda>n. streq n str)))"

definition FNV_PRIME :: u64 where "FNV_PRIME = 1099511628211"
definition FNV_OFFSET :: u64 where "FNV_OFFSET = 14695981039346656037"

definition hash_char :: "char \<Rightarrow> u64 \<Rightarrow> u64" where
  "hash_char ch h = (h XOR of_char ch) * FNV_PRIME"

primrec hash_bytes :: "string \<Rightarrow> u64 \<Rightarrow> nat \<Rightarrow> (u64 \<times> nat) fcomp" where
  "hash_bytes [] h countdown = ret (h, countdown)"
| "hash_bytes (ch # cs) h countdown =
     bnd (check_io_abort countdown) (\<lambda>countdown. hash_bytes cs (hash_char ch h) countdown)"

function hash_slabs :: "fe_Slab list \<Rightarrow> u32 \<Rightarrow> nat \<Rightarrow> u64 \<Rightarrow> nat \<Rightarrow> u64 fcomp" where
  "hash_slabs ss offset remaining h countdown =
     (if offset \<noteq> FE_SLAB_NULL \<and> remaining > 0 then
        case slab_at ss offset of None \<Rightarrow> throw Crash | Some slab \<Rightarrow>
          bnd (hash_bytes (take (chunk remaining) (slab_data slab)) h countdown) (\<lambda>(h, countdown).
            hash_slabs ss (slab_next slab) (remaining - chunk remaining) h countdown)
      else ret h)"
  by pat_completeness auto
termination by (relation "measure (\<lambda>(ss, a, r, h, k). r)") auto

declare hash_slabs.simps [simp del]

definition hash_string_obj :: "ptr \<Rightarrow> u64 fcomp" where
  "hash_string_obj obj = bnd (FE_STR_LEN obj) (\<lambda>remaining. bnd (str_head obj) (\<lambda>offset.
     bnd (gets slabs) (\<lambda>ss. hash_slabs ss offset remaining FNV_OFFSET FE_IO_ABORT_CHECK_INTERVAL)))"

definition fe_string_contains_nul :: "ptr \<Rightarrow> bool fcomp" where
  "fe_string_contains_nul obj = bnd (FE_STR_LEN obj) (\<lambda>remaining. bnd (str_head obj) (\<lambda>offset.
     bnd (gets slabs) (\<lambda>ss. or_crash (contains_nul_loop ss offset remaining))))"

definition fe_byteslen :: "ptr \<Rightarrow> nat fcomp" where
  "fe_byteslen obj = bnd (checktype obj FE_TBYTES) FE_STR_LEN"

definition fe_bytescopy :: "ptr \<Rightarrow> nat \<Rightarrow> nat \<Rightarrow> string fcomp" where
  "fe_bytescopy obj offset sz = bnd (checktype obj FE_TBYTES) (\<lambda>obj. bnd (FE_STR_LEN obj) (\<lambda>len.
     if offset \<ge> len \<or> sz = 0 then ret []
     else let sz = (if sz > len - offset then len - offset else sz)
          in bnd (str_head obj) (\<lambda>slab_offset. bnd (gets slabs) (\<lambda>ss.
               or_crash (bytescopy_loop ss slab_offset offset sz)))))"

section \<open>Flat byte strings\<close>

text \<open>The bytes a chain of the given length stands for.\<close>

function slab_bytes :: "fe_Slab list \<Rightarrow> u32 \<Rightarrow> nat \<Rightarrow> string option" where
  "slab_bytes ss off n =
     (if n = 0 then Some []
      else if off = FE_SLAB_NULL then None
      else case slab_at ss off of None \<Rightarrow> None | Some slab \<Rightarrow>
        map_option (\<lambda>rest. take (chunk n) (slab_data slab) @ rest)
          (slab_bytes ss (slab_next slab) (n - chunk n)))"
  by pat_completeness auto
termination by (relation "measure (\<lambda>(ss, a, r). r)") auto

declare slab_bytes.simps [simp del]

definition wf_slabs :: "fe_Slab list \<Rightarrow> bool" where
  "wf_slabs ss \<longleftrightarrow> (\<forall>s \<in> set ss. length (slab_data s) = FE_SLAB_DATA_SIZE)"

text \<open>The byte string of a string or bytes object, \<open>None\<close> for anything else.\<close>

definition obj_bytes :: "fe_Context \<Rightarrow> ptr \<Rightarrow> string option" where
  "obj_bytes c p = (case p of
      Ref i \<Rightarrow> if i < length (objects c) then
          (case (ocar (objects c ! i), ocdr (objects c ! i)) of
             (VObj (Fixnum n), VU32 off) \<Rightarrow> slab_bytes (slabs c) off (nat n)
           | _ \<Rightarrow> None)
        else None
    | _ \<Rightarrow> None)"

lemma slab_at_wf: "wf_slabs ss \<Longrightarrow> slab_at ss off = Some slab \<Longrightarrow> length (slab_data slab) = FE_SLAB_DATA_SIZE"
  by (auto simp: wf_slabs_def slab_at_def split: if_splits)

lemma slab_bytes_step:
  "slab_bytes ss off n = Some bs \<Longrightarrow> n > 0 \<Longrightarrow>
   \<exists>slab rest. off \<noteq> FE_SLAB_NULL \<and> slab_at ss off = Some slab \<and>
     slab_bytes ss (slab_next slab) (n - chunk n) = Some rest \<and>
     bs = take (chunk n) (slab_data slab) @ rest"
  by (subst (asm) slab_bytes.simps) (auto split: if_splits option.splits)

lemma slab_bytes_0 [simp]: "slab_bytes ss off 0 = Some []"
  by (simp add: slab_bytes.simps)

text \<open>Induction along a chain.\<close>

lemma slab_bytes_induct [consumes 1, case_names Done Slab]:
  assumes "slab_bytes ss off n = Some bs"
    and "\<And>off. P off 0 []"
    and "\<And>off n slab rest. 0 < n \<Longrightarrow> off \<noteq> FE_SLAB_NULL \<Longrightarrow> slab_at ss off = Some slab \<Longrightarrow>
      slab_bytes ss (slab_next slab) (n - chunk n) = Some rest \<Longrightarrow>
      P (slab_next slab) (n - chunk n) rest \<Longrightarrow> P off n (take (chunk n) (slab_data slab) @ rest)"
  shows "P off n bs"
  using assms(1)
proof (induction n arbitrary: off bs rule: less_induct)
  case (less n)
  show ?case
  proof (cases "n = 0")
    case True
    with less.prems assms(2) show ?thesis by simp
  next
    case False
    with slab_bytes_step [OF less.prems] obtain slab rest where s: "off \<noteq> FE_SLAB_NULL"
      "slab_at ss off = Some slab" "slab_bytes ss (slab_next slab) (n - chunk n) = Some rest"
      "bs = take (chunk n) (slab_data slab) @ rest" by blast
    moreover have "n - chunk n < n" using False by simp
    ultimately show ?thesis using less.IH assms(3) False by blast
  qed
qed

lemma chunk_le_data: "chunk n \<le> FE_SLAB_DATA_SIZE"
  by (simp add: chunk_def)

lemma slab_chunk_length:
  "wf_slabs ss \<Longrightarrow> slab_at ss off = Some slab \<Longrightarrow> length (take (chunk n) (slab_data slab)) = chunk n"
  using slab_at_wf [of ss off slab] chunk_le_data [of n] by simp

lemma slab_bytes_length:
  assumes "wf_slabs ss" and "slab_bytes ss off n = Some bs"
  shows "length bs = n"
  using assms(2)
proof (induction rule: slab_bytes_induct)
  case (Slab off n slab rest)
  then show ?case
    using slab_chunk_length [OF assms(1) Slab(3), of n] by (simp del: length_take)
qed simp

subsection \<open>Comparison\<close>

lemma equal_slab_loop_step:
  "0 < n \<Longrightarrow> slab_at ss a = Some sa \<Longrightarrow> slab_at ss b = Some sb \<Longrightarrow>
   equal_slab_loop ss a b n =
     (if take (chunk n) (slab_data sa) \<noteq> take (chunk n) (slab_data sb) then Some False
      else if n - chunk n > 0 then equal_slab_loop ss (slab_next sa) (slab_next sb) (n - chunk n)
      else Some True)"
  by (subst equal_slab_loop.simps) (simp add: Let_def)

lemma equal_slab_loop_correct:
  assumes wf: "wf_slabs ss" and "slab_bytes ss a n = Some xs" and "slab_bytes ss b n = Some ys"
  shows "equal_slab_loop ss a b n = Some (xs = ys)"
  using assms(2,3)
proof (induction arbitrary: b ys rule: slab_bytes_induct)
  case Done
  then show ?case by (subst equal_slab_loop.simps) simp
next
  case (Slab a n sa xs)
  obtain sb ys' where sb: "slab_at ss b = Some sb"
    "slab_bytes ss (slab_next sb) (n - chunk n) = Some ys'" "ys = take (chunk n) (slab_data sb) @ ys'"
    using slab_bytes_step [OF Slab(6) Slab(1)] by blast
  have "xs = []" "ys' = []" if "n - chunk n = 0"
    using that Slab(4) sb(2) by simp_all
  moreover have "(take (chunk n) (slab_data sa) @ xs = ys) \<longleftrightarrow>
      take (chunk n) (slab_data sa) = take (chunk n) (slab_data sb) \<and> xs = ys'"
    using slab_chunk_length [OF wf Slab(3), of n] slab_chunk_length [OF wf sb(1), of n] sb(3)
    by (simp del: length_take add: append_eq_append_conv)
  ultimately show ?case
    using Slab(5) [OF sb(2)] by (auto simp: equal_slab_loop_step [OF Slab(1,3) sb(1)])
qed

lemma streq_slab_loop_correct:
  assumes wf: "wf_slabs ss" and "slab_bytes ss a n = Some xs" and "length str = n"
  shows "streq_slab_loop ss a str n = Some (xs = str)"
  using assms(2,3)
proof (induction arbitrary: str rule: slab_bytes_induct)
  case Done
  then show ?case by (subst streq_slab_loop.simps) simp
next
  case (Slab a n sa xs)
  have "(take (chunk n) (slab_data sa) @ xs = take (chunk n) str @ drop (chunk n) str) \<longleftrightarrow>
      take (chunk n) (slab_data sa) = take (chunk n) str \<and> xs = drop (chunk n) str"
    using slab_chunk_length [OF wf Slab(3), of n] Slab(6)
    by (intro append_eq_append_conv disjI1) simp
  moreover have "streq_slab_loop ss (slab_next sa) (drop (chunk n) str) (n - chunk n) =
      Some (xs = drop (chunk n) str)" using Slab(5,6) by simp
  ultimately show ?case
    using Slab(1-3) by (subst streq_slab_loop.simps) (simp add: Let_def)
qed

subsection \<open>Scanning and copying\<close>

lemma contains_nul_loop_correct:
  assumes "slab_bytes ss a n = Some xs"
  shows "contains_nul_loop ss a n = Some (CHR 0x00 \<in> set xs)"
  using assms
proof (induction rule: slab_bytes_induct)
  case Done
  then show ?case by (subst contains_nul_loop.simps) simp
next
  case (Slab a n sa xs)
  then show ?case by (subst contains_nul_loop.simps) simp
qed

lemma bytescopy_loop_done: "bytescopy_loop ss off k 0 = Some []"
  by (subst bytescopy_loop.simps) simp

lemma bytescopy_loop_correct:
  assumes wf: "wf_slabs ss" and "slab_bytes ss off n = Some bs" and "k + m \<le> n"
  shows "bytescopy_loop ss off k m = Some (take m (drop k bs))"
  using assms(2,3)
proof (induction arbitrary: k m rule: slab_bytes_induct)
  case Done
  then show ?case by (simp add: bytescopy_loop_done)
next
  case (Slab off n slab rest)
  have len: "length (slab_data slab) = FE_SLAB_DATA_SIZE" by (rule slab_at_wf [OF wf Slab(3)])
  show ?case
  proof (cases "m = 0")
    case True
    then show ?thesis by (simp add: bytescopy_loop_done)
  next
    case m: False
    show ?thesis
    proof (cases "FE_SLAB_DATA_SIZE \<le> k")
      case True
      with Slab(6) m have "chunk n = FE_SLAB_DATA_SIZE" by (auto simp: chunk_def)
      with True Slab(2,3,6) m len Slab(5) [of "k - FE_SLAB_DATA_SIZE" m] show ?thesis
        by (subst bytescopy_loop.simps) simp
    next
      case False
      define j where "j = (if FE_SLAB_DATA_SIZE - k > m then m else FE_SLAB_DATA_SIZE - k)"
      have j: "j \<le> m" "k + j \<le> chunk n" "j < m \<Longrightarrow> k + j = chunk n \<and> chunk n = FE_SLAB_DATA_SIZE"
        using Slab(6) False m by (auto simp: j_def chunk_def)
      have "bytescopy_loop ss (slab_next slab) 0 (m - j) = Some (take (m - j) rest)"
      proof (cases "j < m")
        case True
        with j(3) Slab(6) have "m - j \<le> n - chunk n" by arith
        then show ?thesis using Slab(5) [of 0 "m - j"] by simp
      qed (simp add: bytescopy_loop_done)
      moreover have "take m (drop k (take (chunk n) (slab_data slab) @ rest)) =
          take j (drop k (slab_data slab)) @ take (m - j) rest"
      proof (cases "j < m")
        case True
        with j(3) have k: "chunk n = FE_SLAB_DATA_SIZE" "k + j = FE_SLAB_DATA_SIZE" by auto
        then have "take (chunk n) (slab_data slab) = slab_data slab" using len by simp
        moreover have "m + k - FE_SLAB_DATA_SIZE = m - j" using k by arith
        ultimately show ?thesis using k len True by simp
      next
        case F: False
        then have "m = j" using j(1) by simp
        moreover have "take j (drop k (take (chunk n) (slab_data slab))) = take j (drop k (slab_data slab))"
          using j(2) by (simp add: take_drop min_def)
        ultimately show ?thesis using j(2) len chunk_le_data [of n] by simp
      qed
      ultimately show ?thesis
        using False Slab(2,3) m
        by (subst bytescopy_loop.simps) (simp add: Let_def j_def)
    qed
  qed
qed

subsection \<open>Hashing\<close>

definition fnv1a :: "string \<Rightarrow> u64" where
  "fnv1a bs = fold hash_char bs FNV_OFFSET"

declare poll_frame_refl [simp]

lemma hash_bytes_Inr:
  "hash_bytes bs h k c = (Inr (h', k'), c') \<Longrightarrow> h' = fold hash_char bs h \<and> poll_frame c c'"
proof (induction bs arbitrary: h k c)
  case (Cons b bs)
  from Cons.prems obtain k1 c1 where "check_io_abort k c = (Inr k1, c1)"
    "hash_bytes bs (hash_char b h) k1 c1 = (Inr (h', k'), c')"
    by (auto elim: bnd_InrE)
  with Cons.IH [OF this(2)] check_io_abort_Inr [OF this(1)] show ?case
    by (auto intro: poll_order.R_trans)
qed (simp add: ret_def)

lemma hash_slabs_done: "hash_slabs ss off 0 h k = ret h"
  by (subst hash_slabs.simps) simp

lemma hash_slabs_step:
  "0 < n \<Longrightarrow> off \<noteq> FE_SLAB_NULL \<Longrightarrow> slab_at ss off = Some slab \<Longrightarrow>
   hash_slabs ss off n h k = bnd (hash_bytes (take (chunk n) (slab_data slab)) h k)
     (\<lambda>(h, k). hash_slabs ss (slab_next slab) (n - chunk n) h k)"
  by (subst hash_slabs.simps) simp

lemma hash_slabs_Inr:
  assumes "slab_bytes ss off n = Some bs" and "hash_slabs ss off n h k c = (Inr h', c')"
  shows "h' = fold hash_char bs h \<and> poll_frame c c'"
  using assms
proof (induction arbitrary: h k c rule: slab_bytes_induct)
  case Done
  then show ?case by (simp add: hash_slabs_done ret_def)
next
  case (Slab off n slab rest)
  from Slab.prems obtain h1 k1 c1 where 1: "hash_bytes (take (chunk n) (slab_data slab)) h k c = (Inr (h1, k1), c1)"
    and 2: "hash_slabs ss (slab_next slab) (n - chunk n) h1 k1 c1 = (Inr h', c')"
    unfolding hash_slabs_step [OF Slab(1-3)] by (auto elim!: bnd_InrE)
  from hash_bytes_Inr [OF 1] Slab.IH [OF 2] show ?case
    by (auto intro: poll_order.R_trans)
qed

lemma hash_bytes_quiet:
  "no_abort c \<Longrightarrow> \<exists>k'. hash_bytes bs h k c = (Inr (fold hash_char bs h, k'), c)"
proof (induction bs arbitrary: h k)
  case (Cons b bs)
  from check_io_abort_quiet [OF Cons.prems] obtain k1 where "check_io_abort k c = (Inr k1, c)" by blast
  with Cons.IH [OF Cons.prems, of "hash_char b h" k1] show ?case by (simp add: bnd_def)
qed (simp add: ret_def)

lemma hash_slabs_quiet:
  assumes "slab_bytes ss off n = Some bs" and "no_abort c"
  shows "hash_slabs ss off n h k c = (Inr (fold hash_char bs h), c)"
  using assms(1)
proof (induction arbitrary: h k rule: slab_bytes_induct)
  case Done
  then show ?case by (simp add: hash_slabs_done ret_def)
next
  case (Slab off n slab rest)
  from hash_bytes_quiet [OF assms(2), of "take (chunk n) (slab_data slab)" h k]
  show ?case unfolding hash_slabs_step [OF Slab(1-3)] by (auto simp: bnd_def Slab.IH)
qed

section \<open>Properties\<close>

lemma obj_bytesE:
  assumes "obj_bytes c p = Some bs"
  obtains i n off where "p = Ref i" "i < length (objects c)" "ocar (objects c ! i) = VObj (Fixnum n)"
    "ocdr (objects c ! i) = VU32 off" "slab_bytes (slabs c) off (nat n) = Some bs"
    "FE_STR_LEN p c = (Inr (nat n), c)" "str_head p c = (Inr off, c)"
proof -
  from assms obtain i n off where "p = Ref i" "i < length (objects c)"
    "ocar (objects c ! i) = VObj (Fixnum n)" "ocdr (objects c ! i) = VU32 off"
    "slab_bytes (slabs c) off (nat n) = Some bs"
    by (auto simp: obj_bytes_def split: ptr.splits if_splits val.splits)
  then show ?thesis
    by (intro that) (simp_all add: FE_STR_LEN_def str_head_def bnd_def car_Ref cell_Ref ret_def)
qed

lemma equal_bytes:
  assumes "wf_slabs (slabs c)" and a: "obj_bytes c a = Some xs" and b: "obj_bytes c b = Some ys"
    and "typeof c a = t" and "typeof c b = t" and "t = FE_TSTRING \<or> t = FE_TBYTES"
  shows "equal a b c = (Inr (xs = ys), c)"
proof (cases "a = b")
  case True
  with a b show ?thesis by (simp add: equal_def ret_def)
next
  case False
  from a obtain na offa where a': "FE_STR_LEN a c = (Inr na, c)" "str_head a c = (Inr offa, c)"
    "slab_bytes (slabs c) offa na = Some xs" by (rule obj_bytesE)
  from b obtain nb offb where b': "FE_STR_LEN b c = (Inr nb, c)" "str_head b c = (Inr offb, c)"
    "slab_bytes (slabs c) offb nb = Some ys" by (rule obj_bytesE)
  have "length xs = na" "length ys = nb"
    using slab_bytes_length [OF assms(1)] a'(3) b'(3) by blast+
  moreover have "equal_slab_loop (slabs c) offa offb na = Some (xs = ys)" if "na = nb"
    using equal_slab_loop_correct [OF assms(1)] a'(3) b'(3) that by blast
  ultimately show ?thesis
    using False a' b' assms(4-6)
    by (auto simp: equal_def equal_slab_def bnd_def gets_def or_crash_def ret_def)
qed

lemma streq_bytes:
  assumes "wf_slabs (slabs c)" and "obj_bytes c a = Some xs"
  shows "streq a str c = (Inr (xs = str), c)"
proof -
  from assms(2) obtain na offa where a: "FE_STR_LEN a c = (Inr na, c)" "str_head a c = (Inr offa, c)"
    "slab_bytes (slabs c) offa na = Some xs" by (rule obj_bytesE)
  have "length xs = na" using slab_bytes_length [OF assms(1) a(3)] .
  with a streq_slab_loop_correct [OF assms(1) a(3), of str] show ?thesis
    by (auto simp: streq_def bnd_def gets_def or_crash_def ret_def)
qed

text \<open>
  String comparison is comparison of contents: for two strings (or two byte objects) of any
  length, however their data is spread over slabs, \<^verbatim>\<open>equal\<close> answers whether the flat byte strings
  are the same, \<^verbatim>\<open>streq\<close> compares with a C string, and neither changes the context.
\<close>

lemma string_comparison_by_content:
  assumes "wf_slabs (slabs c)" and "obj_bytes c a = Some xs" and "obj_bytes c b = Some ys"
    and "typeof c a = t" and "typeof c b = t" and "t = FE_TSTRING \<or> t = FE_TBYTES"
  shows "equal a b c = (Inr (xs = ys), c) \<and> streq a str c = (Inr (xs = str), c)"
  using equal_bytes [OF assms] streq_bytes [OF assms(1,2)] by simp

lemma hash_string_obj_Inr:
  assumes "obj_bytes c p = Some bs" and "hash_string_obj p c = (Inr h, c')"
  shows "h = fnv1a bs \<and> poll_frame c c'"
proof -
  from assms(1) obtain n off where a: "FE_STR_LEN p c = (Inr n, c)" "str_head p c = (Inr off, c)"
    "slab_bytes (slabs c) off n = Some bs" by (rule obj_bytesE)
  with assms(2) have "hash_slabs (slabs c) off n FNV_OFFSET FE_IO_ABORT_CHECK_INTERVAL c = (Inr h, c')"
    by (simp add: hash_string_obj_def bnd_def gets_def)
  from hash_slabs_Inr [OF a(3) this] show ?thesis by (simp add: fnv1a_def)
qed

lemma hash_string_obj_quiet:
  assumes "obj_bytes c p = Some bs" and "no_abort c"
  shows "hash_string_obj p c = (Inr (fnv1a bs), c)"
proof -
  from assms(1) obtain n off where a: "FE_STR_LEN p c = (Inr n, c)" "str_head p c = (Inr off, c)"
    "slab_bytes (slabs c) off n = Some bs" by (rule obj_bytesE)
  with hash_slabs_quiet [OF a(3) assms(2)] show ?thesis
    by (simp add: hash_string_obj_def bnd_def gets_def fnv1a_def)
qed

text \<open>
  \<^verbatim>\<open>fe_bytescopy\<close> copies exactly the requested window: for a bytes object with contents \<open>bs\<close> the
  bytes written are \<open>take size (drop offset bs)\<close>, so nothing past the end of the object is read, the
  count returned is their number, and \<^verbatim>\<open>fe_byteslen\<close> is the length of the contents.
\<close>

lemma bytescopy_window:
  assumes "wf_slabs (slabs c)" and "obj_bytes c p = Some bs" and "typeof c p = FE_TBYTES"
  shows "fe_bytescopy p offset sz c = (Inr (take sz (drop offset bs)), c)
    \<and> fe_byteslen p c = (Inr (length bs), c)"
proof -
  from assms(2) obtain n off where a: "FE_STR_LEN p c = (Inr n, c)" "str_head p c = (Inr off, c)"
    "slab_bytes (slabs c) off n = Some bs" by (rule obj_bytesE)
  have len: "length bs = n" using slab_bytes_length [OF assms(1) a(3)] .
  have ct: "checktype p FE_TBYTES c = (Inr p, c)"
    using assms(3) by (simp add: checktype_def bnd_def gets_def ret_def)
  define m where "m = (if sz > n - offset then n - offset else sz)"
  have "bytescopy_loop (slabs c) off offset m = Some (take m (drop offset bs))" if "offset < n"
    by (rule bytescopy_loop_correct [OF assms(1) a(3)]) (use that in \<open>auto simp: m_def\<close>)
  moreover have "take m (drop offset bs) = take sz (drop offset bs)"
    using len by (simp add: m_def)
  ultimately show ?thesis
    using a ct len
    by (auto simp: fe_bytescopy_def fe_byteslen_def bnd_def gets_def or_crash_def ret_def Let_def m_def)
qed

text \<open>Two strings of 62 bytes that differ in the last one, each over two slabs.\<close>

definition slab_example :: fe_Context where
  "slab_example = (zeroed_context quiet_env 4096)
     \<lparr>objects := [\<lparr>ocar = VObj (Fixnum 62), ocdr = VU32 0, ty = FE_TBYTES, mark = False\<rparr>,
                  \<lparr>ocar = VObj (Fixnum 62), ocdr = VU32 128, ty = FE_TBYTES, mark = False\<rparr>],
      slabs := [\<lparr>slab_next = 64, slab_data = replicate 60 CHR ''a''\<rparr>,
                \<lparr>slab_next = FE_SLAB_NULL, slab_data = replicate 60 CHR ''b''\<rparr>,
                \<lparr>slab_next = 192, slab_data = replicate 60 CHR ''a''\<rparr>,
                \<lparr>slab_next = FE_SLAB_NULL, slab_data = CHR ''b'' # replicate 59 CHR ''c''\<rparr>]\<rparr>"

lemma slab_example_bytes:
  "obj_bytes slab_example (Ref 0) = Some (replicate 60 CHR ''a'' @ ''bb'')"
  "obj_bytes slab_example (Ref 1) = Some (replicate 60 CHR ''a'' @ ''bc'')"
  "wf_slabs (slabs slab_example)" "typeof slab_example (Ref 0) = FE_TBYTES"
  "typeof slab_example (Ref 1) = FE_TBYTES"
  by code_simp+

lemma string_comparison_by_content_witness:
  "equal (Ref 0) (Ref 1) slab_example = (Inr False, slab_example)"
  using string_comparison_by_content [OF slab_example_bytes(3,1,2,4,5), of "[]"] by simp

lemma bytescopy_window_witness:
  "fe_bytescopy (Ref 0) 59 10 slab_example = (Inr ''abb'', slab_example)"
  using bytescopy_window [OF slab_example_bytes(3,1,4), of 59 10]
  by (simp add: numeral_eq_Suc)

end
