(* ===== verification/Fe_Span.thy ===== *)
theory Fe_Span
  imports Fe_Slab
begin

text \<open>
  Source spans (\<^verbatim>\<open>fex_span.c\<close>): a hash table from node addresses to source positions, with interned
  source names, owned by the context and allocated through the tracked allocator.
\<close>

section \<open>Definitions\<close>

definition BUCKETS :: nat where "BUCKETS = 8192"
definition sizeof_FexSpanState :: size_t where "sizeof_FexSpanState = 65552"
definition sizeof_FexSpan :: size_t where "sizeof_FexSpan = 64"
definition sizeof_FexSourceName :: size_t where "sizeof_FexSourceName = 16"

definition hash_ptr :: "fe_Context \<Rightarrow> ptr \<Rightarrow> nat" where
  "hash_ptr c p = unat (drop_bit 3 (enc_ptr (objects_addr c) (nil_addr c) p) AND 8191)"

text \<open>A C string of \<open>n\<close> characters occupies \<open>n + 1\<close> bytes.\<close>

definition cstr_size :: "string \<Rightarrow> size_t" where
  "cstr_size s = of_nat (length s + 1)"

definition span_alloc :: "size_t \<Rightarrow> block fcomp" where
  "span_alloc sz = lift_st (tracked_alloc sz)"

definition span_free :: "block \<Rightarrow> unit fcomp" where
  "span_free b = modify (tracked_free b)"

definition set_state :: "FexSpanState \<Rightarrow> unit fcomp" where
  "set_state st = modify (\<lambda>c. c\<lparr>span_state := Some st\<rparr>)"

text \<open>The name is NULL or empty (\<open>[]\<close>), already interned, or copied into a new entry; \<open>None\<close> when
  an allocation fails.\<close>

definition intern_source_name :: "FexSpanState \<Rightarrow> string \<Rightarrow> (string option \<times> FexSpanState) fcomp" where
  "intern_source_name state source_name =
     (if source_name = [] then ret (Some ''<string>'', state)
      else if source_name \<in> set (source_names state) then ret (Some source_name, state)
      else bnd (span_alloc (cstr_size source_name)) (\<lambda>copy.
        if copy = None then ret (None, state)
        else bnd (span_alloc sizeof_FexSourceName) (\<lambda>entry.
          if entry = None then sq (span_free copy) (ret (None, state))
          else ret (Some source_name, state\<lparr>source_names := source_name # source_names state\<rparr>))))"

definition copy_span_excerpt :: "string option \<Rightarrow> string option fcomp" where
  "copy_span_excerpt src = (case src of
      None \<Rightarrow> ret None
    | Some s \<Rightarrow> bnd (span_alloc (cstr_size s)) (\<lambda>copy. ret (if copy = None then None else Some s)))"

definition fex_span_init :: "unit fcomp" where
  "fex_span_init = bnd (span_alloc sizeof_FexSpanState) (\<lambda>b.
     if b = None then ret ()
     else set_state \<lparr>buckets = replicate BUCKETS [], source_names = [], span_enabled = False\<rparr>)"

definition free_span :: "FexSpan \<Rightarrow> unit fcomp" where
  "free_span e = sq (case span_source e of Some s \<Rightarrow> span_free (Some (cstr_size s)) | None \<Rightarrow> ret ())
     (span_free (Some sizeof_FexSpan))"

primrec free_spans :: "FexSpan list \<Rightarrow> unit fcomp" where
  "free_spans [] = ret ()"
| "free_spans (e # es) = sq (free_span e) (free_spans es)"

primrec free_names :: "string list \<Rightarrow> unit fcomp" where
  "free_names [] = ret ()"
| "free_names (n # ns) = sq (span_free (Some (cstr_size n)))
     (sq (span_free (Some sizeof_FexSourceName)) (free_names ns))"

definition fex_span_cleanup :: "unit fcomp" where
  "fex_span_cleanup = bnd (gets span_state) (\<lambda>st. case st of None \<Rightarrow> ret () | Some state \<Rightarrow>
     sq (free_spans (concat (buckets state)))
     (sq (free_names (source_names state))
     (sq (span_free (Some sizeof_FexSpanState))
     (modify (\<lambda>c. c\<lparr>span_state := None\<rparr>)))))"

primrec prune_bucket :: "FexSpan list \<Rightarrow> FexSpan list fcomp" where
  "prune_bucket [] = ret []"
| "prune_bucket (e # es) = bnd (gets (\<lambda>c. fe_ctx_object_is_live c (span_node e))) (\<lambda>live.
     if \<not> live then sq (free_span e) (prune_bucket es)
     else bnd (prune_bucket es) (\<lambda>es'. ret (e # es')))"

primrec prune_buckets :: "FexSpan list list \<Rightarrow> FexSpan list list fcomp" where
  "prune_buckets [] = ret []"
| "prune_buckets (b # bs) = bnd (prune_bucket b) (\<lambda>b'. bnd (prune_buckets bs) (\<lambda>bs'. ret (b' # bs')))"

definition fex_span_prune :: "unit fcomp" where
  "fex_span_prune = bnd (gets span_state) (\<lambda>st. case st of None \<Rightarrow> ret () | Some state \<Rightarrow>
     bnd (prune_buckets (buckets state)) (\<lambda>bs. set_state (state\<lparr>buckets := bs\<rparr>)))"

definition fex_span_set_enabled :: "bool \<Rightarrow> unit fcomp" where
  "fex_span_set_enabled enabled =
     sq (bnd (gets span_state) (\<lambda>st. if enabled \<and> st = None then
           sq fex_span_init (bnd (gets span_state) (\<lambda>st.
             if st = None then memory_error ''out of memory (span state)'' else ret ()))
         else ret ()))
     (bnd (gets span_state) (\<lambda>st. case st of None \<Rightarrow> ret ()
        | Some state \<Rightarrow> set_state (state\<lparr>span_enabled := enabled\<rparr>)))"

definition fex_span_is_enabled :: "fe_Context \<Rightarrow> bool" where
  "fex_span_is_enabled c = (case span_state c of Some st \<Rightarrow> span_enabled st | None \<Rightarrow> False)"

text \<open>
  \<^verbatim>\<open>fex_record_span\<close> in three steps: the excerpt, the new entry and its interned source name, and the
  insertion at the head of the bucket. \<open>text\<close> is the source text between \<^verbatim>\<open>start\<close> and \<^verbatim>\<open>end\<close>,
  \<open>None\<close> when the caller has none.
\<close>

definition link_span ::
  "ptr \<Rightarrow> int \<Rightarrow> int \<Rightarrow> int \<Rightarrow> int \<Rightarrow> string option \<Rightarrow> nat \<Rightarrow> string option \<Rightarrow> FexSpanState \<Rightarrow> unit fcomp" where
  "link_span node sl sc el ec excerpt h name state = (case name of
      None \<Rightarrow> sq (span_free (map_option cstr_size excerpt)) (sq (span_free (Some sizeof_FexSpan))
        (memory_error ''out of memory (span source name)''))
    | Some stable_source_name \<Rightarrow>
        set_state (state\<lparr>buckets := (buckets state)[h :=
          \<lparr>span_node = node, span_source = excerpt, span_source_name = stable_source_name,
           start_line = sl, start_col = sc, end_line = el, end_col = ec\<rparr> # buckets state ! h]\<rparr>))"

definition new_span ::
  "ptr \<Rightarrow> string \<Rightarrow> int \<Rightarrow> int \<Rightarrow> int \<Rightarrow> int \<Rightarrow> string option \<Rightarrow> FexSpanState \<Rightarrow> unit fcomp" where
  "new_span node source_name sl sc el ec excerpt state =
     bnd (gets (\<lambda>c. hash_ptr c node)) (\<lambda>h. bnd (span_alloc sizeof_FexSpan) (\<lambda>entry.
       if entry = None then
         sq (span_free (map_option cstr_size excerpt)) (memory_error ''out of memory (span entry)'')
       else bnd (intern_source_name state source_name) (\<lambda>(name, state).
         link_span node sl sc el ec excerpt h name state)))"

definition fex_record_span ::
  "ptr \<Rightarrow> string \<Rightarrow> int \<Rightarrow> int \<Rightarrow> int \<Rightarrow> int \<Rightarrow> string option \<Rightarrow> unit fcomp" where
  "fex_record_span node source_name sl sc el ec text =
     bnd (gets span_state) (\<lambda>st. case st of None \<Rightarrow> ret () | Some state \<Rightarrow>
       if \<not> span_enabled state then ret ()
       else bnd (copy_span_excerpt text) (\<lambda>excerpt.
         if text \<noteq> None \<and> excerpt = None then memory_error ''out of memory (span excerpt)''
         else new_span node source_name sl sc el ec excerpt state))"

definition fex_lookup_span :: "ptr \<Rightarrow> fe_Context \<Rightarrow> FexSpan option" where
  "fex_lookup_span node c = (case span_state c of
      None \<Rightarrow> None
    | Some state \<Rightarrow> if \<not> span_enabled state then None
        else find (\<lambda>e. span_node e = node) (buckets state ! hash_ptr c node))"

section \<open>Lemmas\<close>

definition wf_spans :: "fe_Context \<Rightarrow> bool" where
  "wf_spans c \<longleftrightarrow> (\<forall>st. span_state c = Some st \<longrightarrow> length (buckets st) = BUCKETS)"

lemma hash_ptr_bound: "hash_ptr c p < BUCKETS"
proof -
  have "unat (x AND 8191) < 8192" for x :: "64 word"
    using and_mask_less' [of 13 x] by (simp add: mask_eq_exp_minus_1 word_less_nat_alt)
  then show ?thesis by (simp add: hash_ptr_def BUCKETS_def)
qed

text \<open>Allocation and release of blocks leave the heap part of the context alone.\<close>

lemma more_tracked_alloc: "limit_ctx.more (snd (tracked_alloc sz c)) = limit_ctx.more c"
  by (auto simp: tracked_alloc_def sys_malloc_def alloc_failure_def memory_note_alloc_def Let_def)

lemma span_alloc_more [frame_rules]: "steps (fixes_field limit_ctx.more) (span_alloc sz)"
  unfolding span_alloc_def
  by (rule field_order.steps_lift_st) (simp add: fixes_field_def more_tracked_alloc)

lemma span_free_more [frame_rules]: "steps (fixes_field limit_ctx.more) (span_free b)"
  unfolding span_free_def
  by (rule field_order.steps_modify) (simp add: fixes_field_def)

lemma free_span_more [frame_rules]: "steps (fixes_field limit_ctx.more) (free_span e)"
  unfolding free_span_def
  by (intro field_order.steps_intros span_free_more)

lemma copy_span_excerpt_more [frame_rules]: "steps (fixes_field limit_ctx.more) (copy_span_excerpt t)"
  unfolding copy_span_excerpt_def
  by (intro field_order.steps_intros span_alloc_more)

lemma intern_source_name_more [frame_rules]:
  "steps (fixes_field limit_ctx.more) (intern_source_name st n)"
  unfolding intern_source_name_def
  by (intro field_order.steps_intros span_alloc_more span_free_more)

lemma more_fields:
  assumes "limit_ctx.more c' = limit_ctx.more (c :: fe_Context)"
  shows "objects c' = objects c" "slabs c' = slabs c" "span_state c' = span_state c"
    "objects_addr c' = objects_addr c" "nil_addr c' = nil_addr c" "symlist c' = symlist c"
    "freelist c' = freelist c" "gcstack c' = gcstack c" "str_freelist c' = str_freelist c"
    "modulestack c' = modulestack c" "loaded_module_values c' = loaded_module_values c"
    "frame_sym c' = frame_sym c" "return_sym c' = return_sym c"
  using assms by (cases c, cases c', simp)+

lemma is_live_more:
  assumes "limit_ctx.more c' = limit_ctx.more c"
  shows "fe_ctx_object_is_live c' = fe_ctx_object_is_live c"
  by (auto simp: fun_eq_iff fe_ctx_object_is_live_def typeof_def more_fields [OF assms] split: ptr.split)

lemma prune_bucket_run:
  "\<exists>c'. prune_bucket es c = (Inr (filter (\<lambda>e. fe_ctx_object_is_live c (span_node e)) es), c') \<and>
     limit_ctx.more c' = limit_ctx.more c"
proof (induction es arbitrary: c)
  case (Cons e es)
  show ?case
  proof (cases "fe_ctx_object_is_live c (span_node e)")
    case True
    with Cons.IH [of c] show ?thesis by (auto simp: bnd_def gets_def ret_def)
  next
    case False
    obtain x c1 where f: "free_span e c = (Inr x, c1)"
      by (cases "span_source e") (auto simp: free_span_def span_free_def comp_defs)
    with free_span_more [of e] have m: "limit_ctx.more c1 = limit_ctx.more c"
      by (metis fixes_field_def stepsD)
    then have "fe_ctx_object_is_live c1 = fe_ctx_object_is_live c" by (rule is_live_more)
    with Cons.IH [of c1] False f m show ?thesis
      by (auto simp: bnd_def gets_def sq_def)
  qed
qed (simp add: ret_def)

lemma prune_buckets_run:
  "\<exists>c'. prune_buckets bs c = (Inr (map (filter (\<lambda>e. fe_ctx_object_is_live c (span_node e))) bs), c') \<and>
     limit_ctx.more c' = limit_ctx.more c"
proof (induction bs arbitrary: c)
  case (Cons b bs)
  from prune_bucket_run [of b c] obtain c1 where
    b: "prune_bucket b c = (Inr (filter (\<lambda>e. fe_ctx_object_is_live c (span_node e)) b), c1)"
    and m: "limit_ctx.more c1 = limit_ctx.more c" by blast
  from m have "fe_ctx_object_is_live c1 = fe_ctx_object_is_live c" by (rule is_live_more)
  with Cons.IH [of c1] b m show ?case by (auto simp: bnd_def ret_def)
qed (simp add: ret_def)

lemma find_filter_node:
  "find (\<lambda>e. span_node e = n) (filter (\<lambda>e. P (span_node e)) es) =
     (if P n then find (\<lambda>e. span_node e = n) es else None)"
  by (induction es) auto

lemma more_span_state_update:
  "limit_ctx.more (c\<lparr>span_state := x\<rparr>) =
   limit_ctx.more ((limit_ctx.extend b (limit_ctx.more c))\<lparr>span_state := x\<rparr>)"
  by (cases c) (simp add: limit_ctx.defs)

lemma more_span_state:
  "limit_ctx.more c' = limit_ctx.more (c :: fe_Context) \<Longrightarrow>
   limit_ctx.more (c'\<lparr>span_state := x\<rparr>) = limit_ctx.more (c\<lparr>span_state := x\<rparr>)"
  using more_span_state_update [where c = c and x = x]
    more_span_state_update [where c = c' and x = x] by simp

definition pruned :: "fe_Context \<Rightarrow> FexSpanState option" where
  "pruned c = map_option (\<lambda>st. st\<lparr>buckets :=
     map (filter (\<lambda>e. fe_ctx_object_is_live c (span_node e))) (buckets st)\<rparr>) (span_state c)"

lemma fex_span_prune_run:
  "\<exists>c'. fex_span_prune c = (Inr (), c') \<and>
     limit_ctx.more c' = limit_ctx.more (c\<lparr>span_state := pruned c\<rparr>)"
proof (cases "span_state c")
  case None
  then have "c\<lparr>span_state := pruned c\<rparr> = c" by (cases c) (simp add: pruned_def)
  with None show ?thesis by (simp add: fex_span_prune_def bnd_def gets_def ret_def)
next
  case (Some st)
  from prune_buckets_run [of "buckets st" c] obtain c1 where
    "prune_buckets (buckets st) c =
       (Inr (map (filter (\<lambda>e. fe_ctx_object_is_live c (span_node e))) (buckets st)), c1)"
    and m: "limit_ctx.more c1 = limit_ctx.more c" by blast
  with Some show ?thesis
    by (simp add: fex_span_prune_def bnd_def gets_def set_state_def modify_def pruned_def
        more_span_state [OF m])
qed

text \<open>
  Pruning spans after a collection drops exactly the spans of dead cells: the lookup of a node
  is unchanged when its cell is live, and finds nothing when it is not, so the span of a
  recycled cell can never be reported for the object that reuses it. Pruning always returns.
\<close>

lemma span_prune_exact:
  assumes "wf_spans c"
  shows "\<exists>c'. fex_span_prune c = (Inr (), c') \<and> wf_spans c' \<and>
    fex_lookup_span n c' = (if fe_ctx_object_is_live c n then fex_lookup_span n c else None)"
proof -
  from fex_span_prune_run [of c] obtain c' where r: "fex_span_prune c = (Inr (), c')"
    and m: "limit_ctx.more c' = limit_ctx.more (c\<lparr>span_state := pruned c\<rparr>)" by blast
  have s: "span_state c' = pruned c" "hash_ptr c' n = hash_ptr c n"
    using more_fields [OF m] by (simp_all add: hash_ptr_def)
  show ?thesis
  proof (cases "span_state c")
    case None
    with r s show ?thesis by (simp add: wf_spans_def fex_lookup_span_def pruned_def)
  next
    case (Some st)
    with assms have "hash_ptr c n < length (buckets st)"
      using hash_ptr_bound by (simp add: wf_spans_def)
    with r s Some assms show ?thesis
      by (simp add: wf_spans_def fex_lookup_span_def pruned_def find_filter_node)
  qed
qed

lemma wp_more:
  assumes "steps (fixes_field limit_ctx.more) m"
    and "\<And>x c'. limit_ctx.more c' = limit_ctx.more c \<Longrightarrow> P x c'"
  shows "wp m P (\<lambda>_ _. True) c"
  using assms(1) by (rule wp_steps) (simp_all add: fixes_field_def assms(2))

lemma wp_memory_error: "wp (memory_error msg) P (\<lambda>_ _. True) c"
  by (simp add: wp_def memory_error_def fe_error_def)

lemma wp_copy_span_excerpt:
  assumes "\<And>x c'. limit_ctx.more c' = limit_ctx.more c \<Longrightarrow> x \<in> {None, text} \<Longrightarrow> P x c'"
  shows "wp (copy_span_excerpt text) P (\<lambda>_ _. True) c"
  unfolding copy_span_excerpt_def
  by (auto simp: wp_simps assms split: option.split intro!: wp_more [OF span_alloc_more])

lemma wp_intern_source_name:
  assumes "\<And>nm ns c'. limit_ctx.more c' = limit_ctx.more c \<Longrightarrow> P (nm, st\<lparr>source_names := ns\<rparr>) c'"
  shows "wp (intern_source_name st name) P (\<lambda>_ _. True) c"
proof -
  have *: "P (nm, st) c'" if "limit_ctx.more c' = limit_ctx.more c" for nm c'
    using assms [OF that, of nm "source_names st"] by simp
  show ?thesis
    unfolding intern_source_name_def
    by (auto simp: wp_simps assms * intro!: wp_more [OF span_alloc_more] wp_more [OF span_free_more])
qed

text \<open>What a recorded span leaves: the new entry at the head of the bucket, perhaps one more name.\<close>

definition recorded ::
  "ptr \<Rightarrow> int \<Rightarrow> int \<Rightarrow> int \<Rightarrow> int \<Rightarrow> string option \<Rightarrow> FexSpanState \<Rightarrow> fe_Context \<Rightarrow> fe_Context \<Rightarrow> bool" where
  "recorded node sl sc el ec text st c c' \<longleftrightarrow>
    (\<exists>ns nm. limit_ctx.more c' = limit_ctx.more (c\<lparr>span_state := Some
      (st\<lparr>source_names := ns, buckets := (buckets st)[hash_ptr c node :=
         \<lparr>span_node = node, span_source = text, span_source_name = nm, start_line = sl,
          start_col = sc, end_line = el, end_col = ec\<rparr> # buckets st ! hash_ptr c node]\<rparr>)\<rparr>))"

lemma wp_link_span:
  assumes "limit_ctx.more c1 = limit_ctx.more c"
  shows "wp (link_span node sl sc el ec text (hash_ptr c node) name (st\<lparr>source_names := ns\<rparr>))
    (\<lambda>_. recorded node sl sc el ec text st c) (\<lambda>_ _. True) c1"
proof (cases name)
  case None
  then show ?thesis
    by (auto simp: link_span_def wp_simps wp_memory_error intro!: wp_more [OF span_free_more])
next
  case (Some nm)
  then show ?thesis
    using more_span_state [OF assms] by (auto simp: link_span_def wp_simps set_state_def recorded_def)
qed

lemma wp_new_span:
  assumes m: "limit_ctx.more c1 = limit_ctx.more c"
  shows "wp (new_span node name sl sc el ec text st)
    (\<lambda>_. recorded node sl sc el ec text st c) (\<lambda>_ _. True) c1"
proof -
  have h: "hash_ptr c1 node = hash_ptr c node"
    using more_fields [OF m] by (simp add: hash_ptr_def)
  then show ?thesis
    using m
    by (auto simp: new_span_def wp_simps wp_memory_error case_prod_beta
        intro!: wp_more [OF span_alloc_more] wp_more [OF span_free_more] wp_intern_source_name wp_link_span)
qed

lemma wp_fex_record_span:
  assumes "span_state c = Some st" and "span_enabled st"
  shows "wp (fex_record_span node name sl sc el ec text)
    (\<lambda>_. recorded node sl sc el ec text st c) (\<lambda>_ _. True) c"
  using assms unfolding fex_record_span_def
  by (auto simp: wp_simps wp_memory_error intro!: wp_copy_span_excerpt wp_new_span)

text \<open>
  Recording a span makes it the one found: with tracking enabled, when \<^verbatim>\<open>fex_record_span\<close> returns,
  the lookup of the node gives a span with the recorded position and excerpt, and the lookup of
  every other node is what it was.
\<close>

lemma span_record_lookup:
  assumes "wf_spans c" and "fex_span_is_enabled c"
    and "fex_record_span node name sl sc el ec text c = (Inr (), c')"
  shows "\<exists>nm. fex_lookup_span n c' =
    (if n = node then Some \<lparr>span_node = node, span_source = text, span_source_name = nm,
       start_line = sl, start_col = sc, end_line = el, end_col = ec\<rparr>
     else fex_lookup_span n c)"
proof -
  from assms(2) obtain st where st: "span_state c = Some st" "span_enabled st"
    by (auto simp: fex_span_is_enabled_def split: option.splits)
  from wpD [OF wp_fex_record_span [OF st] assms(3)] obtain ns nm where
    m: "limit_ctx.more c' = limit_ctx.more (c\<lparr>span_state := Some
    (st\<lparr>source_names := ns, buckets := (buckets st)[hash_ptr c node :=
       \<lparr>span_node = node, span_source = text, span_source_name = nm, start_line = sl,
        start_col = sc, end_line = el, end_col = ec\<rparr> # buckets st ! hash_ptr c node]\<rparr>)\<rparr>)"
    unfolding recorded_def by blast
  have "hash_ptr c node < length (buckets st)"
    using assms(1) st hash_ptr_bound by (simp add: wf_spans_def)
  moreover have "hash_ptr c' n = hash_ptr c n" using more_fields [OF m] by (simp add: hash_ptr_def)
  ultimately show ?thesis
    using st more_fields(3) [OF m] by (auto simp: fex_lookup_span_def nth_list_update)
qed

text \<open>A context with tracking on and one free cell.\<close>

definition span_example :: fe_Context where
  "span_example = (zeroed_context quiet_env 4096)
     \<lparr>objects := [\<lparr>ocar = VNone, ocdr = VObj Nil, ty = FE_TFREE, mark = False\<rparr>],
      span_state := Some \<lparr>buckets = replicate BUCKETS [], source_names = [], span_enabled = True\<rparr>\<rparr>"

lemma wf_span_example: "wf_spans span_example" "fex_span_is_enabled span_example"
  by (simp_all add: wf_spans_def span_example_def fex_span_is_enabled_def)

lemma span_prune_exact_witness:
  "\<exists>c'. fex_span_prune span_example = (Inr (), c') \<and> fex_lookup_span (Ref 0) c' = None"
proof -
  have "\<not> fe_ctx_object_is_live span_example (Ref 0)"
    by (simp add: span_example_def fe_ctx_object_is_live_def typeof_def)
  with span_prune_exact [OF wf_span_example(1), of "Ref 0"] show ?thesis by auto
qed

lemma span_example_records:
  "\<exists>c'. fex_record_span (Ref 0) ''f'' 1 2 3 4 (Some ''x'') span_example = (Inr (), c')"
  by (simp add: fex_record_span_def new_span_def link_span_def copy_span_excerpt_def
      intern_source_name_def span_alloc_def set_state_def comp_defs span_example_def
      zeroed_context_def quiet_env_def tracked_alloc_def sys_malloc_def memory_note_alloc_def
      memory_would_exceed_limit_def cstr_size_def SIZE_MAX_def sizeof_fe_AllocHeader_def
      sizeof_FexSpan_def sizeof_FexSourceName_def Let_def)

lemma span_record_lookup_witness:
  "\<exists>c' e. fex_record_span (Ref 0) ''f'' 1 2 3 4 (Some ''x'') span_example = (Inr (), c') \<and>
     fex_lookup_span (Ref 0) c' = Some e \<and> start_line e = 1 \<and> span_source e = Some ''x''"
proof -
  obtain c' where r: "fex_record_span (Ref 0) ''f'' 1 2 3 4 (Some ''x'') span_example = (Inr (), c')"
    using span_example_records by blast
  from span_record_lookup [OF wf_span_example r, of "Ref 0"] r show ?thesis by auto
qed

end
