(* ===== verification/Fe_Mark.thy ===== *)
theory Fe_Mark
  imports Fe_Span
begin

text \<open>
  The mark phase of the collector (\<^verbatim>\<open>fe_mark\<close>, \<^verbatim>\<open>fe.c\<close>): an iterative traversal with an explicit
  stack of 256 entries that falls back to recursion when the stack is full. The loop is a partial
  function, so that not terminating would be the value \<open>None\<close>; it is shown to terminate on every
  heap and to mark exactly the cells reachable from its argument.
\<close>

section \<open>The traversal\<close>

definition MARK_STACK_SIZE :: nat where "MARK_STACK_SIZE = 256"

text \<open>Where the traversal is: at the top of the \<^verbatim>\<open>for (;;)\<close> loop with an object, or in the scan of the
  slots of a map, perhaps with a value still to handle.\<close>

type_synonym slot = "slot_state \<times> ptr option \<times> ptr option"

datatype mark_pos = Enter ptr | Scan "slot list" | Scan_value ptr "slot list"

definition map_slots :: "fe_Map \<Rightarrow> slot list" where
  "map_slots m = zip (map_states m) (zip (map_keys m) (map_values m))"

text \<open>
  What happens next: the function returns, it goes on at a position with a stack, or it calls
  itself and then goes on. \<open>UB\<close> is undefined behaviour: a field of the wrong kind, a NULL key or
  value in a used slot, or a host pointer taken for a map (the case for \<^verbatim>\<open>FE_TPTR\<close> falls through
  to the one for \<^verbatim>\<open>FE_TMAP\<close>). The host's mark callback is taken not to be installed.
\<close>

datatype mark_act =
    Done "fe_Object list"
  | UB
  | Goto mark_pos "ptr list" "fe_Object list"
  | Recurse ptr mark_pos "ptr list" "fe_Object list"

definition mark_pop :: "ptr list \<Rightarrow> fe_Object list \<Rightarrow> mark_act" where
  "mark_pop stack os = (case stack of [] \<Rightarrow> Done os | x # st \<Rightarrow> Goto (Enter x) st os)"

definition mark_push :: "ptr \<Rightarrow> mark_pos \<Rightarrow> ptr list \<Rightarrow> fe_Object list \<Rightarrow> mark_act" where
  "mark_push x pos stack os =
     (if length stack < MARK_STACK_SIZE then Goto pos (x # stack) os else Recurse x pos stack os)"

text \<open>The \<^verbatim>\<open>switch (type(obj))\<close>, after the cell has been marked.\<close>

definition mark_switch :: "fe_Object \<Rightarrow> ptr list \<Rightarrow> fe_Object list \<Rightarrow> mark_act" where
  "mark_switch o' stack os = (case ty o' of
      FE_TPAIR \<Rightarrow> (case (ocar o', ocdr o') of
          (VObj a, VObj d) \<Rightarrow> mark_push a (Enter d) stack os | _ \<Rightarrow> UB)
    | FE_TFUNC \<Rightarrow> (case ocdr o' of VObj d \<Rightarrow> Goto (Enter d) stack os | _ \<Rightarrow> UB)
    | FE_TMACRO \<Rightarrow> (case ocdr o' of VObj d \<Rightarrow> Goto (Enter d) stack os | _ \<Rightarrow> UB)
    | FE_TSYMBOL \<Rightarrow> (case ocdr o' of VObj d \<Rightarrow> Goto (Enter d) stack os | _ \<Rightarrow> UB)
    | FE_TPTR \<Rightarrow> (case ocdr o' of VHost h \<Rightarrow> if h = 0 then mark_pop stack os else UB | _ \<Rightarrow> UB)
    | FE_TMAP \<Rightarrow> (case ocdr o' of
          VMap (Some m) \<Rightarrow> Goto (Scan (map_slots m)) stack os
        | VMap None \<Rightarrow> mark_pop stack os
        | _ \<Rightarrow> UB)
    | _ \<Rightarrow> mark_pop stack os)"

fun mark_step :: "mark_pos \<Rightarrow> ptr list \<Rightarrow> fe_Object list \<Rightarrow> mark_act" where
  "mark_step (Enter obj) stack os = (case obj of
      Ref i \<Rightarrow> if i < length os then
                 (if mark (os ! i) then mark_pop stack os
                  else mark_switch (os ! i) stack (os[i := (os ! i)\<lparr>mark := True\<rparr>]))
               else mark_pop stack os
    | _ \<Rightarrow> mark_pop stack os)"
| "mark_step (Scan []) stack os = mark_pop stack os"
| "mark_step (Scan ((s, k, v) # slots)) stack os =
     (if s = MAP_USED then
        (case (k, v) of (Some key, Some value) \<Rightarrow> mark_push key (Scan_value value slots) stack os | _ \<Rightarrow> UB)
      else Goto (Scan slots) stack os)"
| "mark_step (Scan_value value slots) stack os = mark_push value (Scan slots) stack os"

partial_function (option) mark_loop ::
  "mark_pos \<Rightarrow> ptr list \<Rightarrow> fe_Object list \<Rightarrow> (unit + fe_Object list) option" where
  "mark_loop pos stack os = (case mark_step pos stack os of
      Done os' \<Rightarrow> Some (Inr os')
    | UB \<Rightarrow> Some (Inl ())
    | Goto pos' stack' os' \<Rightarrow> mark_loop pos' stack' os'
    | Recurse x pos' stack' os' \<Rightarrow>
        Option.bind (mark_loop (Enter x) [] os') (\<lambda>r. case r of
          Inl u \<Rightarrow> Some (Inl u)
        | Inr os'' \<Rightarrow> mark_loop pos' stack' os''))"

declare mark_loop.simps [code]

definition fe_mark :: "ptr \<Rightarrow> fe_Object list \<Rightarrow> (unit + fe_Object list) option" where
  "fe_mark obj os = mark_loop (Enter obj) [] os"

section \<open>Reachability\<close>

text \<open>The pointers the traversal follows out of a cell, and the cells on which it is defined.\<close>

definition used_ptrs :: "slot list \<Rightarrow> ptr list" where
  "used_ptrs slots = concat (map (\<lambda>(s, k, v).
     if s = MAP_USED then (case k of Some p \<Rightarrow> [p] | None \<Rightarrow> []) @ (case v of Some p \<Rightarrow> [p] | None \<Rightarrow> [])
     else []) slots)"

definition slots_ok :: "slot list \<Rightarrow> bool" where
  "slots_ok slots \<longleftrightarrow> (\<forall>(s, k, v) \<in> set slots. s = MAP_USED \<longrightarrow> k \<noteq> None \<and> v \<noteq> None)"

definition kids :: "fe_Object \<Rightarrow> ptr list" where
  "kids o' = (case ty o' of
      FE_TPAIR \<Rightarrow> (case (ocar o', ocdr o') of (VObj a, VObj d) \<Rightarrow> [a, d] | _ \<Rightarrow> [])
    | FE_TFUNC \<Rightarrow> (case ocdr o' of VObj d \<Rightarrow> [d] | _ \<Rightarrow> [])
    | FE_TMACRO \<Rightarrow> (case ocdr o' of VObj d \<Rightarrow> [d] | _ \<Rightarrow> [])
    | FE_TSYMBOL \<Rightarrow> (case ocdr o' of VObj d \<Rightarrow> [d] | _ \<Rightarrow> [])
    | FE_TMAP \<Rightarrow> (case ocdr o' of VMap (Some m) \<Rightarrow> used_ptrs (map_slots m) | _ \<Rightarrow> [])
    | _ \<Rightarrow> [])"

definition gc_ok :: "fe_Object \<Rightarrow> bool" where
  "gc_ok o' = (case ty o' of
      FE_TPAIR \<Rightarrow> (case (ocar o', ocdr o') of (VObj a, VObj d) \<Rightarrow> True | _ \<Rightarrow> False)
    | FE_TFUNC \<Rightarrow> (case ocdr o' of VObj d \<Rightarrow> True | _ \<Rightarrow> False)
    | FE_TMACRO \<Rightarrow> (case ocdr o' of VObj d \<Rightarrow> True | _ \<Rightarrow> False)
    | FE_TSYMBOL \<Rightarrow> (case ocdr o' of VObj d \<Rightarrow> True | _ \<Rightarrow> False)
    | FE_TPTR \<Rightarrow> ocdr o' = VHost 0
    | FE_TMAP \<Rightarrow> (case ocdr o' of VMap (Some m) \<Rightarrow> slots_ok (map_slots m) | VMap None \<Rightarrow> True | _ \<Rightarrow> False)
    | _ \<Rightarrow> True)"

definition edge :: "fe_Object list \<Rightarrow> nat \<Rightarrow> nat \<Rightarrow> bool" where
  "edge os i j \<longleftrightarrow> i < length os \<and> j < length os \<and> Ref j \<in> set (kids (os ! i))"

text \<open>The cells reachable from a set of pointers.\<close>

definition reach :: "fe_Object list \<Rightarrow> ptr set \<Rightarrow> nat set" where
  "reach os W = {j. \<exists>i. Ref i \<in> W \<and> i < length os \<and> (edge os)\<^sup>*\<^sup>* i j}"

definition marked :: "fe_Object list \<Rightarrow> nat set" where
  "marked os = {i. i < length os \<and> mark (os ! i)}"

text \<open>The heap without its marks; the traversal changes nothing else.\<close>

definition unmarked_heap :: "fe_Object list \<Rightarrow> fe_Object list" where
  "unmarked_heap os = map (\<lambda>o'. o'\<lparr>mark := False\<rparr>) os"

fun pos_ptrs :: "mark_pos \<Rightarrow> ptr set" where
  "pos_ptrs (Enter p) = {p}"
| "pos_ptrs (Scan slots) = set (used_ptrs slots)"
| "pos_ptrs (Scan_value v slots) = insert v (set (used_ptrs slots))"

fun pos_ok :: "mark_pos \<Rightarrow> bool" where
  "pos_ok (Enter p) = True"
| "pos_ok (Scan slots) = slots_ok slots"
| "pos_ok (Scan_value v slots) = slots_ok slots"

section \<open>Marking a graph\<close>

text \<open>
  What a traversal with edges \<open>E\<close> from the work set \<open>W\<close> makes of the marked set \<open>M\<close>: the work is
  marked, what is newly marked is closed under the edges, and nothing else is marked.
\<close>

definition marks :: "(nat \<Rightarrow> nat \<Rightarrow> bool) \<Rightarrow> nat set \<Rightarrow> nat set \<Rightarrow> nat set \<Rightarrow> bool" where
  "marks E M W M' \<longleftrightarrow> M \<subseteq> M' \<and> W \<subseteq> M' \<and> (\<forall>i \<in> M' - M. \<forall>j. E i j \<longrightarrow> j \<in> M') \<and>
     M' \<subseteq> M \<union> {j. \<exists>i \<in> W. E\<^sup>*\<^sup>* i j}"

lemma marks_done: "W \<subseteq> M \<Longrightarrow> marks E M W M"
  by (auto simp: marks_def)

lemma marks_step:
  assumes "marks E (M \<union> N) W1 M'" and "N \<subseteq> W" and "W \<subseteq> M \<union> N \<union> W1"
    and "\<And>i j. i \<in> N \<Longrightarrow> E i j \<Longrightarrow> j \<in> W1"
    and "\<And>j. j \<in> W1 \<Longrightarrow> j \<in> W \<or> (\<exists>i \<in> N. E i j)"
  shows "marks E M W M'"
proof -
  have "\<exists>i \<in> W. E\<^sup>*\<^sup>* i j" if "k \<in> W1" "E\<^sup>*\<^sup>* k j" for k j
    using assms(2) assms(5) [OF that(1)] that(2)
    by (meson converse_rtranclp_into_rtranclp subsetD)
  then have "M' \<subseteq> M \<union> {j. \<exists>i \<in> W. E\<^sup>*\<^sup>* i j}"
    using assms(1,2) unfolding marks_def by blast
  with assms show ?thesis unfolding marks_def by blast
qed

lemma marks_seq: "marks E M W1 M1 \<Longrightarrow> marks E M1 W2 M2 \<Longrightarrow> marks E M (W1 \<union> W2) M2"
  unfolding marks_def by (auto, blast+)

section \<open>The traversal marks the reachable cells\<close>

definition cells :: "fe_Object list \<Rightarrow> ptr set \<Rightarrow> nat set" where
  "cells os W = {i. Ref i \<in> W \<and> i < length os}"

lemma reach_cells: "reach os W = {j. \<exists>i \<in> cells os W. (edge os)\<^sup>*\<^sup>* i j}"
  by (auto simp: reach_def cells_def)

lemma kids_unmark [simp]: "kids (o'\<lparr>mark := b\<rparr>) = kids o'"
  by (cases "ty o'") (simp_all add: kids_def)

lemma gc_ok_unmark [simp]: "gc_ok (o'\<lparr>mark := b\<rparr>) = gc_ok o'"
  by (cases "ty o'") (simp_all add: gc_ok_def)

lemma unmarked_heap_length: "unmarked_heap os' = unmarked_heap os \<Longrightarrow> length os' = length os"
  by (metis length_map unmarked_heap_def)

lemma unmarked_heap_nth:
  "unmarked_heap os' = unmarked_heap os \<Longrightarrow> i < length os \<Longrightarrow> (os' ! i)\<lparr>mark := False\<rparr> = (os ! i)\<lparr>mark := False\<rparr>"
  by (metis (no_types, lifting) length_map nth_map unmarked_heap_def)

lemma unmarked_heap_kids:
  assumes "unmarked_heap os' = unmarked_heap os" "i < length os"
  shows "kids (os' ! i) = kids (os ! i)"
  using arg_cong [OF unmarked_heap_nth [OF assms], of kids] by simp

lemma unmarked_heap_edge:
  assumes "unmarked_heap os' = unmarked_heap os"
  shows "edge os' = edge os"
  by (auto simp: fun_eq_iff edge_def unmarked_heap_length [OF assms] unmarked_heap_kids [OF assms])

lemma unmarked_heap_ok:
  assumes "unmarked_heap os' = unmarked_heap os" and "\<forall>o' \<in> set os. gc_ok o'"
  shows "\<forall>o' \<in> set os'. gc_ok o'"
proof -
  have "gc_ok (os' ! i) = gc_ok (os ! i)" if "i < length os" for i
    using arg_cong [OF unmarked_heap_nth [OF assms(1) that], of gc_ok] by simp
  then show ?thesis
    using assms(2) unmarked_heap_length [OF assms(1)] by (metis in_set_conv_nth)
qed

lemma unmarked_heap_mark [simp]:
  "unmarked_heap (os[i := (os ! i)\<lparr>mark := True\<rparr>]) = unmarked_heap os"
  by (simp add: unmarked_heap_def map_update) (metis list_update_id map_update)

lemma marked_mark: "i < length os \<Longrightarrow> marked (os[i := (os ! i)\<lparr>mark := True\<rparr>]) = insert i (marked os)"
  by (auto simp: marked_def nth_list_update)

definition unmarked_count :: "fe_Object list \<Rightarrow> nat" where
  "unmarked_count os = length os - card (marked os)"

lemma marked_finite [simp]: "finite (marked os)"
  by (simp add: marked_def)

lemma card_marked_le: "card (marked os) \<le> length os"
proof -
  have "marked os \<subseteq> {..<length os}" by (auto simp: marked_def)
  from card_mono [OF _ this] show ?thesis by simp
qed

fun pos_size :: "mark_pos \<Rightarrow> nat" where
  "pos_size (Enter p) = 0"
| "pos_size (Scan slots) = 1 + 4 * length slots"
| "pos_size (Scan_value v slots) = 3 + 4 * length slots"

text \<open>
  One step of the traversal, seen from outside: \<open>N\<close> is the newly marked cell if there is one,
  \<open>W'\<close> the work that is left. A step that marks nothing makes the work smaller.
\<close>

definition step_ok :: "fe_Object list \<Rightarrow> ptr set \<Rightarrow> nat \<Rightarrow> fe_Object list \<Rightarrow> ptr set \<Rightarrow> nat \<Rightarrow> bool" where
  "step_ok os W n os' W' n' \<longleftrightarrow> unmarked_heap os' = unmarked_heap os \<and>
     (os' = os \<and> n' < n \<and> cells os W \<subseteq> marked os \<union> cells os W' \<and> W' \<subseteq> W \<or>
      (\<exists>i. Ref i \<in> W \<and> i < length os \<and> i \<notin> marked os \<and> marked os' = insert i (marked os) \<and>
         W \<subseteq> insert (Ref i) W' \<and> set (kids (os ! i)) \<subseteq> W' \<and> W' \<subseteq> W \<union> set (kids (os ! i))))"

lemma used_ptrs_Nil [simp]: "used_ptrs [] = []"
  by (simp add: used_ptrs_def)

lemma used_ptrs_Cons [simp]: "used_ptrs ((s, k, v) # slots) =
    (if s = MAP_USED then (case k of Some p \<Rightarrow> [p] | None \<Rightarrow> []) @ (case v of Some p \<Rightarrow> [p] | None \<Rightarrow> []) else [])
      @ used_ptrs slots"
  by (simp add: used_ptrs_def)

lemma slots_ok_Cons [simp]:
  "slots_ok ((s, k, v) # slots) \<longleftrightarrow> (s = MAP_USED \<longrightarrow> k \<noteq> None \<and> v \<noteq> None) \<and> slots_ok slots"
  by (auto simp: slots_ok_def)

text \<open>What each possible next action has to satisfy.\<close>

definition act_ok :: "fe_Object list \<Rightarrow> ptr set \<Rightarrow> nat \<Rightarrow> mark_act \<Rightarrow> bool" where
  "act_ok os W n act = (case act of
      Done os' \<Rightarrow> step_ok os W n os' {} 0 \<or> os' = os \<and> cells os W \<subseteq> marked os
    | UB \<Rightarrow> False
    | Goto pos' st' os' \<Rightarrow> pos_ok pos' \<and>
        step_ok os W n os' (pos_ptrs pos' \<union> set st') (pos_size pos' + length st')
    | Recurse x pos' st' os' \<Rightarrow> pos_ok pos' \<and>
        step_ok os W n os' (insert x (pos_ptrs pos' \<union> set st')) (pos_size pos' + length st'))"

lemma mark_switch_ok:
  assumes "gc_ok (os ! i)" and "i < length os" and "\<not> mark (os ! i)"
  shows "act_ok os (insert (Ref i) (set st)) n
    (mark_switch (os ! i) st (os[i := (os ! i)\<lparr>mark := True\<rparr>]))"
proof -
  let ?os = "os[i := (os ! i)\<lparr>mark := True\<rparr>]"
  have step: "step_ok os (insert (Ref i) (set st)) n ?os W' n'"
    if "set st \<subseteq> W'" "set (kids (os ! i)) \<subseteq> W'" "W' \<subseteq> set st \<union> set (kids (os ! i))" for W' n'
    using that assms(2,3) marked_mark [OF assms(2)]
    by (auto simp: step_ok_def marked_def [of os] intro!: exI [of _ i])
  have pop: "act_ok os (insert (Ref i) (set st)) n (mark_pop st ?os)" if "kids (os ! i) = []"
    using step [of "set st"] that by (cases st) (simp_all add: mark_pop_def act_ok_def)
  have one: "act_ok os (insert (Ref i) (set st)) n (Goto (Enter d) st ?os)" if "kids (os ! i) = [d]" for d
    using that by (auto simp: act_ok_def intro!: step)
  show ?thesis
  proof (cases "ty (os ! i)")
    case FE_TPAIR
    then obtain a d where "ocar (os ! i) = VObj a" "ocdr (os ! i) = VObj d"
      using assms(1) by (auto simp: gc_ok_def split: val.splits)
    with FE_TPAIR show ?thesis
      by (auto simp: mark_switch_def mark_push_def act_ok_def kids_def intro!: step)
  next
    case FE_TMAP
    with assms(1) show ?thesis
      using pop by (auto simp: mark_switch_def gc_ok_def act_ok_def kids_def intro!: step
          split: val.splits option.splits)
  qed (use assms(1) pop one in \<open>auto simp: mark_switch_def gc_ok_def kids_def split: val.splits\<close>)
qed

lemma mark_step_ok:
  assumes "\<forall>o' \<in> set os. gc_ok o'" and "pos_ok pos"
  shows "act_ok os (pos_ptrs pos \<union> set st) (pos_size pos + length st) (mark_step pos st os)"
  using assms
proof (induction pos st os rule: mark_step.induct)
  case (1 obj stack os)
  have pop: "act_ok os (insert obj (set stack)) (length stack) (mark_pop stack os)"
    if "cells os {obj} \<subseteq> marked os"
    using that by (cases stack) (auto simp: act_ok_def mark_pop_def step_ok_def cells_def)
  show ?case
  proof (cases "\<exists>i. obj = Ref i \<and> i < length os \<and> \<not> mark (os ! i)")
    case True
    then obtain i where "obj = Ref i" "i < length os" "\<not> mark (os ! i)" by blast
    with 1 show ?thesis using mark_switch_ok [of os i stack] by simp
  next
    case False
    then have "cells os {obj} \<subseteq> marked os" by (auto simp: cells_def marked_def)
    with pop False show ?thesis by (auto split: ptr.split)
  qed
next
  case (2 stack os)
  then show ?case by (cases stack) (auto simp: act_ok_def mark_pop_def step_ok_def cells_def)
next
  case (3 s k v slots stack os)
  then show ?case
    by (auto simp: act_ok_def mark_push_def step_ok_def cells_def split: option.splits)
next
  case (4 v slots stack os)
  then show ?case by (auto simp: act_ok_def mark_push_def step_ok_def cells_def)
qed

text \<open>The specification of the traversal, and that every step leads to it.\<close>

definition traversed :: "fe_Object list \<Rightarrow> ptr set \<Rightarrow> fe_Object list \<Rightarrow> bool" where
  "traversed os W os' \<longleftrightarrow> unmarked_heap os' = unmarked_heap os \<and>
     marks (edge os) (marked os) (cells os W) (marked os')"

lemma edge_cells: "i < length os \<Longrightarrow> edge os i j \<longleftrightarrow> j \<in> cells os (set (kids (os ! i)))"
  by (auto simp: edge_def cells_def)

lemma traversed_step:
  assumes s: "step_ok os W n os1 W1 n1" and t: "traversed os1 W1 os'"
  shows "traversed os W os'"
proof -
  from s have u: "unmarked_heap os1 = unmarked_heap os" by (simp add: step_ok_def)
  have len: "length os1 = length os" using unmarked_heap_length [OF u] .
  from t have u': "unmarked_heap os' = unmarked_heap os"
    and m: "marks (edge os) (marked os1) (cells os W1) (marked os')"
    using u unmarked_heap_edge [OF u] len by (simp_all add: traversed_def cells_def)
  have "marks (edge os) (marked os) (cells os W) (marked os')"
  proof (cases "os1 = os \<and> cells os W \<subseteq> marked os \<union> cells os W1 \<and> W1 \<subseteq> W")
    case True
    with m have "marks (edge os) (marked os \<union> {}) (cells os W1) (marked os')" by simp
    then show ?thesis by (rule marks_step) (use True in \<open>auto simp: cells_def\<close>)
  next
    case False
    with s obtain i where i: "Ref i \<in> W" "i < length os" "marked os1 = insert i (marked os)"
      "W \<subseteq> insert (Ref i) W1" "set (kids (os ! i)) \<subseteq> W1" "W1 \<subseteq> W \<union> set (kids (os ! i))"
      unfolding step_ok_def by blast
    from m i(3) have "marks (edge os) (marked os \<union> {i}) (cells os W1) (marked os')" by simp
    then show ?thesis
    proof (rule marks_step)
      show "{i} \<subseteq> cells os W" using i(1,2) by (simp add: cells_def)
      show "cells os W \<subseteq> marked os \<union> {i} \<union> cells os W1" using i(4) by (auto simp: cells_def)
      show "k \<in> cells os W1" if "j \<in> {i}" "edge os j k" for j k
        using that i(5) by (auto simp: edge_def cells_def)
      show "k \<in> cells os W \<or> (\<exists>j \<in> {i}. edge os j k)" if "k \<in> cells os W1" for k
        using that i(2,6) by (auto simp: edge_def cells_def)
    qed
  qed
  with u' show ?thesis by (simp add: traversed_def)
qed

lemma traversed_seq:
  assumes 1: "traversed os {x} os1" and 2: "traversed os1 W os2"
  shows "traversed os (insert x W) os2"
proof -
  from 1 have u: "unmarked_heap os1 = unmarked_heap os" by (simp add: traversed_def)
  have "cells os (insert x W) = cells os {x} \<union> cells os W" by (auto simp: cells_def)
  with 1 2 u show ?thesis
    using unmarked_heap_edge [OF u] unmarked_heap_length [OF u]
    by (simp add: traversed_def cells_def marks_seq)
qed

lemma traversed_done: "cells os W \<subseteq> marked os \<Longrightarrow> traversed os W os"
  by (simp add: traversed_def marks_done)

lemma traversed_count:
  assumes "traversed os W os'"
  shows "unmarked_count os' \<le> unmarked_count os"
proof -
  from assms have "marked os \<subseteq> marked os'" and u: "unmarked_heap os' = unmarked_heap os"
    by (simp_all add: traversed_def marks_def)
  moreover note unmarked_heap_length [OF u]
  ultimately show ?thesis using card_mono [of "marked os'" "marked os"] by (simp add: unmarked_count_def)
qed

lemma step_ok_count:
  assumes "step_ok os W n os' W' n'"
  shows "unmarked_count os' < unmarked_count os \<or> unmarked_count os' = unmarked_count os \<and> n' < n"
proof (cases "os' = os \<and> n' < n")
  case False
  with assms obtain i where i: "i < length os" "i \<notin> marked os" "marked os' = insert i (marked os)"
    "unmarked_heap os' = unmarked_heap os" unfolding step_ok_def by blast
  then have "length os' = length os" "card (marked os') = Suc (card (marked os))"
    using unmarked_heap_length [OF i(4)] by simp_all
  then show ?thesis using card_marked_le [of os'] by (simp add: unmarked_count_def) arith
qed simp

text \<open>The traversal terminates and meets the specification.\<close>

lemma mark_loop_correct:
  assumes "\<forall>o' \<in> set os. gc_ok o'" and "pos_ok pos"
  shows "\<exists>os'. mark_loop pos st os = Some (Inr os') \<and> traversed os (pos_ptrs pos \<union> set st) os'"
  using assms
proof (induction "(unmarked_count os, pos_size pos + length st)" arbitrary: os pos st
    rule: wf_induct_rule [OF wf_lex_prod [OF wf_less_than wf_less_than]])
  case (1 os pos st)
  let ?W = "pos_ptrs pos \<union> set st" and ?n = "pos_size pos + length st"
  have ok: "act_ok os ?W ?n (mark_step pos st os)" by (rule mark_step_ok [OF 1(2,3)])
  have less: "((unmarked_count os2, m), (unmarked_count os, ?n)) \<in> less_than <*lex*> less_than"
    if "step_ok os ?W ?n os1 W1 n1" "unmarked_count os2 \<le> unmarked_count os1" "m \<le> n1" for os1 W1 n1 os2 m
    using step_ok_count [OF that(1)] that(2,3) by auto
  show ?case
  proof (cases "mark_step pos st os")
    case (Done os')
    with ok have "step_ok os ?W ?n os' {} 0 \<or> os' = os \<and> cells os ?W \<subseteq> marked os"
      by (simp add: act_ok_def)
    then have "traversed os ?W os'"
      using traversed_step [of os ?W ?n os' "{}" 0 os'] traversed_done [of os' "{}"] traversed_done [of os ?W]
      by (auto simp: cells_def)
    with Done show ?thesis by (subst mark_loop.simps) simp
  next
    case UB
    with ok show ?thesis by (simp add: act_ok_def)
  next
    case (Goto pos' st' os')
    with ok have s: "pos_ok pos'" "step_ok os ?W ?n os' (pos_ptrs pos' \<union> set st') (pos_size pos' + length st')"
      by (simp_all add: act_ok_def)
    have g: "\<forall>o' \<in> set os'. gc_ok o'"
      using s(2) by (intro unmarked_heap_ok [OF _ 1(2)]) (simp add: step_ok_def)
    obtain os2 where "mark_loop pos' st' os' = Some (Inr os2)"
      "traversed os' (pos_ptrs pos' \<union> set st') os2"
      using 1(1) [OF less [OF s(2) order_refl order_refl] g s(1)] by blast
    with Goto traversed_step [OF s(2)] show ?thesis by (subst mark_loop.simps) auto
  next
    case (Recurse x pos' st' os')
    let ?W1 = "pos_ptrs pos' \<union> set st'"
    from Recurse ok have s: "pos_ok pos'" "step_ok os ?W ?n os' (insert x ?W1) (pos_size pos' + length st')"
      by (simp_all add: act_ok_def)
    have g: "\<forall>o' \<in> set os'. gc_ok o'"
      using s(2) by (intro unmarked_heap_ok [OF _ 1(2)]) (simp add: step_ok_def)
    obtain os2 where r: "mark_loop (Enter x) [] os' = Some (Inr os2)" "traversed os' {x} os2"
      using 1(1) [OF less [OF s(2) order_refl, of "pos_size (Enter x) + length []"] g] by auto
    have g2: "\<forall>o' \<in> set os2. gc_ok o'"
      using r(2) by (intro unmarked_heap_ok [OF _ g]) (simp add: traversed_def)
    obtain os3 where "mark_loop pos' st' os2 = Some (Inr os3)" "traversed os2 ?W1 os3"
      using 1(1) [OF less [OF s(2) traversed_count [OF r(2)] order_refl] g2 s(1)] by blast
    with Recurse r traversed_step [OF s(2)] traversed_seq [OF r(2)] show ?thesis
      by (subst mark_loop.simps) auto
  qed
qed

lemma fe_mark_correct:
  assumes "\<forall>o' \<in> set os. gc_ok o'"
  shows "\<exists>os'. fe_mark p os = Some (Inr os') \<and> traversed os {p} os'"
  using mark_loop_correct [OF assms, of "Enter p" "[]"] by (simp add: fe_mark_def)

section \<open>Properties\<close>

lemma marks_exact:
  assumes "marks E M W M'" and "\<And>i j. i \<in> M \<Longrightarrow> E i j \<Longrightarrow> j \<in> M"
  shows "M' = M \<union> {j. \<exists>i \<in> W. E\<^sup>*\<^sup>* i j}"
proof -
  have "j \<in> M'" if "E\<^sup>*\<^sup>* i j" "i \<in> M'" for i j
    using that
  proof (induction rule: rtranclp_induct)
    case (step y z)
    with assms show ?case by (cases "y \<in> M") (auto simp: marks_def)
  qed
  with assms(1) show ?thesis by (auto simp: marks_def)
qed

text \<open>
  C2. The mark phase terminates and is exact: on any heap of well-formed cells without marks,
  however deep or cyclic, \<^verbatim>\<open>fe_mark\<close> returns, marks exactly the cells reachable from its
  argument, and changes nothing but marks.
\<close>

theorem mark_reaches_exactly:
  assumes "\<forall>o' \<in> set os. gc_ok o'" and "marked os = {}"
  shows "\<exists>os'. fe_mark p os = Some (Inr os') \<and> unmarked_heap os' = unmarked_heap os \<and>
    marked os' = reach os {p}"
proof -
  from fe_mark_correct [OF assms(1), of p] obtain os' where "fe_mark p os = Some (Inr os')"
    and t: "traversed os {p} os'" by blast
  moreover from t have "marked os' = reach os {p}"
    using marks_exact [of "edge os" "marked os" "cells os {p}" "marked os'"] assms(2)
    by (simp add: traversed_def reach_cells)
  ultimately show ?thesis using t by (auto simp: traversed_def)
qed

text \<open>Two cells that point to each other, and one that nothing points to.\<close>

definition mark_example :: "fe_Object list" where
  "mark_example = [pair_cell (Ref 1) Nil, pair_cell (Fixnum 3) (Ref 0), pair_cell (Ref 0) (Ref 1)]"

theorem mark_reaches_exactly_witness:
  "\<exists>os'. fe_mark (Ref 0) mark_example = Some (Inr os') \<and> 0 \<in> marked os' \<and> 1 \<in> marked os' \<and> 2 \<notin> marked os'"
proof -
  have ok: "\<forall>o' \<in> set mark_example. gc_ok o'" and m: "marked mark_example = {}"
    by (auto simp: mark_example_def gc_ok_def pair_cell_def marked_def nth_Cons' split: if_splits)
  have e: "edge mark_example 0 1"
    by (simp add: edge_def kids_def mark_example_def pair_cell_def)
  have "(edge mark_example)\<^sup>*\<^sup>* 0 j \<Longrightarrow> j < 2" for j
    by (induction rule: rtranclp_induct)
      (auto simp: edge_def kids_def mark_example_def pair_cell_def less_Suc_eq numeral_3_eq_3)
  then have "2 \<notin> reach mark_example {Ref 0}" by (auto simp: reach_def)
  moreover have "0 \<in> reach mark_example {Ref 0}" "1 \<in> reach mark_example {Ref 0}"
    using e by (auto simp: reach_def mark_example_def)
  ultimately show ?thesis
    using mark_reaches_exactly [OF ok m, of "Ref 0"] by auto
qed

end
