(* ===== verification/Fe_GC.thy ===== *)
theory Fe_GC
  imports Fe_Mark
begin

text \<open>
  The collector (\<^verbatim>\<open>collectgarbage\<close>, \<^verbatim>\<open>fe.c\<close>): mark from the roots, sweep the arena, release the slabs and
  map arrays of dead cells, prune spans, and set the next threshold. It is shown to return on
  every well-formed heap, to keep every reachable cell and the bytes of every reachable string,
  to free every other cell, and to keep the heap well formed.
\<close>

section \<open>Definitions\<close>

definition slab_lookup :: "u32 \<Rightarrow> fe_Slab fcomp" where
  "slab_lookup off = bnd (gets (\<lambda>c. slab_at (slabs c) off)) or_crash"

definition str_slab_free :: "u32 \<Rightarrow> unit fcomp" where
  "str_slab_free off = (if off = FE_SLAB_NULL then ret ()
     else bnd (slab_lookup off) (\<lambda>slab. modify (\<lambda>c. c\<lparr>
       slabs := (slabs c)[unat off div FE_SLAB_SIZE := slab\<lparr>slab_next := str_freelist c\<rparr>],
       str_freelist := off\<rparr>)))"

fun str_free_chain_loop :: "nat \<Rightarrow> u32 \<Rightarrow> unit fcomp" where
  "str_free_chain_loop 0 off = throw OutOfFuel"
| "str_free_chain_loop (Suc n) off =
     (if off = FE_SLAB_NULL then ret ()
      else bnd (slab_lookup off) (\<lambda>slab.
        sq (str_slab_free off) (str_free_chain_loop n (slab_next slab))))"

text \<open>A chain visits a slab once, so one more iteration than there are slabs is enough.\<close>

definition str_free_chain :: "u32 \<Rightarrow> unit fcomp" where
  "str_free_chain off = bnd (gets (\<lambda>c. Suc (length (slabs c)))) (\<lambda>n. str_free_chain_loop n off)"

definition sizeof_fe_Map :: size_t where "sizeof_fe_Map = 40"
definition sizeof_ptr :: nat where "sizeof_ptr = 8"

definition free_arrays :: "nat \<Rightarrow> unit fcomp" where
  "free_arrays capacity =
     sq (modify (tracked_free (Some (of_nat (sizeof_ptr * capacity)))))
     (sq (modify (tracked_free (Some (of_nat (sizeof_ptr * capacity)))))
     (modify (tracked_free (Some (of_nat capacity)))))"

definition free_map :: "fe_Map \<Rightarrow> unit fcomp" where
  "free_map m = sq (free_arrays (map_capacity m)) (modify (tracked_free (Some sizeof_fe_Map)))"

text \<open>What a dead cell owns outside the arena. The host's gc callback is taken not to be installed.\<close>

definition release :: "fe_Object \<Rightarrow> unit fcomp" where
  "release o' =
     (if ty o' = FE_TSTRING \<or> ty o' = FE_TBYTES then
        (case ocdr o' of VU32 off \<Rightarrow> str_free_chain off | _ \<Rightarrow> throw Crash)
      else if ty o' = FE_TMAP then
        (case ocdr o' of VMap (Some m) \<Rightarrow> free_map m | VMap None \<Rightarrow> ret () | _ \<Rightarrow> throw Crash)
      else ret ())"

definition sweep_cell :: "nat \<Rightarrow> int \<Rightarrow> int fcomp" where
  "sweep_cell i live = bnd (gets (\<lambda>c. objects c ! i)) (\<lambda>o'.
     if ty o' = FE_TFREE then ret live
     else if \<not> mark o' then sq (release o') (sq (modify (free_cell_at i)) (ret live))
     else sq (modify (\<lambda>c. c\<lparr>objects := (objects c)[i := o'\<lparr>mark := False\<rparr>]\<rparr>)) (ret (live + 1)))"

primrec sweep :: "nat list \<Rightarrow> int \<Rightarrow> int fcomp" where
  "sweep [] live = ret live"
| "sweep (i # is) live = bnd (sweep_cell i live) (sweep is)"

definition mark_root :: "ptr \<Rightarrow> unit fcomp" where
  "mark_root p c = (case fe_mark p (objects c) of
      None \<Rightarrow> (Inl OutOfFuel, c)
    | Some (Inl _) \<Rightarrow> (Inl Crash, c)
    | Some (Inr os) \<Rightarrow> (Inr (), c\<lparr>objects := os\<rparr>))"

primrec mark_roots :: "ptr list \<Rightarrow> unit fcomp" where
  "mark_roots [] = ret ()"
| "mark_roots (p # ps) = sq (mark_root p) (mark_roots ps)"

definition gc_roots :: "fe_Context \<Rightarrow> ptr list" where
  "gc_roots c = filter (\<lambda>p. \<not> is_fixnum p \<and> p \<noteq> Nil) (gcstack c) @ [modulestack c, symlist c]
     @ loaded_module_values c"

definition collectgarbage :: "unit fcomp" where
  "collectgarbage =
     bnd (gets gc_roots) (\<lambda>roots. sq (mark_roots roots)
     (bnd (gets (\<lambda>c. length (objects c))) (\<lambda>object_count.
      bnd (sweep [0..<object_count] 0) (\<lambda>live.
      sq fex_span_prune
      (modify (\<lambda>c. c\<lparr>live_count := live, allocs_since_gc := 0, bytes_since_gc := 0,
         gc_threshold := (let thr = live * GC_GROWTH_FACTOR
                          in if thr < GC_MIN_THRESHOLD then GC_MIN_THRESHOLD else thr),
         gc_runs := gc_runs c + 1\<rparr>))))))"

section \<open>Free lists and chains\<close>

text \<open>The cells of the free list, and the slabs of a chain, as lists of indices.\<close>

fun free_chain :: "fe_Object list \<Rightarrow> ptr \<Rightarrow> nat list \<Rightarrow> bool" where
  "free_chain os p [] = (p = Nil)"
| "free_chain os p (i # is) = (p = Ref i \<and> i < length os \<and> ty (os ! i) = FE_TFREE \<and>
     (case ocdr (os ! i) of VObj d \<Rightarrow> free_chain os d is | _ \<Rightarrow> False))"

fun slab_chain :: "fe_Slab list \<Rightarrow> u32 \<Rightarrow> nat list \<Rightarrow> bool" where
  "slab_chain ss off [] = (off = FE_SLAB_NULL)"
| "slab_chain ss off (i # is) = (unat off = FE_SLAB_SIZE * i \<and> i < length ss \<and>
     slab_chain ss (slab_next (ss ! i)) is)"

lemma slab_offset:
  assumes "unat (off :: u32) = FE_SLAB_SIZE * i"
  shows "off \<noteq> FE_SLAB_NULL" and "unat off div FE_SLAB_SIZE = i"
    and "i < length ss \<Longrightarrow> slab_at ss off = Some (ss ! i)"
proof -
  have "FE_SLAB_SIZE * i \<noteq> 4294967295" unfolding FE_SLAB_SIZE_def by presburger
  with assms show "off \<noteq> FE_SLAB_NULL" by (auto simp: FE_SLAB_NULL_def)
qed (use assms in \<open>simp_all add: slab_at_def FE_SLAB_SIZE_def\<close>)

lemma slab_chain_cong:
  "slab_chain ss off is \<Longrightarrow> length ss' = length ss \<Longrightarrow> (\<And>i. i \<in> set is \<Longrightarrow> ss' ! i = ss ! i) \<Longrightarrow>
   slab_chain ss' off is"
  by (induction "is" arbitrary: off) auto

lemma free_chain_cong:
  "free_chain os p is \<Longrightarrow> length os' = length os \<Longrightarrow>
   (\<And>i. i \<in> set is \<Longrightarrow> ty (os' ! i) = ty (os ! i) \<and> ocdr (os' ! i) = ocdr (os ! i)) \<Longrightarrow>
   free_chain os' p is"
  by (induction "is" arbitrary: p) (auto split: val.splits)

lemma free_chain_free: "free_chain os p is \<Longrightarrow> i \<in> set is \<Longrightarrow> i < length os \<and> ty (os ! i) = FE_TFREE"
  by (induction "is" arbitrary: p) (auto split: val.splits)

lemma slab_chain_bound: "slab_chain ss off is \<Longrightarrow> set is \<subseteq> {..<length ss}"
  by (induction "is" arbitrary: off) auto

lemma str_slab_free_run:
  assumes "unat off = FE_SLAB_SIZE * i" and "i < length (slabs c)"
  shows "str_slab_free off c = (Inr (), c\<lparr>slabs := (slabs c)[i := (slabs c ! i)\<lparr>slab_next := str_freelist c\<rparr>],
    str_freelist := off\<rparr>)"
  using slab_offset(1,2) [OF assms(1)] slab_offset(3) [OF assms]
  by (simp add: str_slab_free_def slab_lookup_def bnd_def gets_def or_crash_def ret_def modify_def)

text \<open>Releasing a chain puts its slabs, last one first, in front of the free list.\<close>

lemma str_free_chain_loop_run:
  assumes "slab_chain (slabs c) off is" and "slab_chain (slabs c) (str_freelist c) fl"
    and "distinct (is @ fl)" and "length is < n"
  shows "\<exists>ss' f'. str_free_chain_loop n off c = (Inr (), c\<lparr>slabs := ss', str_freelist := f'\<rparr>) \<and>
    slab_chain ss' f' (rev is @ fl) \<and> length ss' = length (slabs c) \<and>
    (\<forall>j. j \<notin> set is \<longrightarrow> ss' ! j = slabs c ! j) \<and> map slab_data ss' = map slab_data (slabs c)"
  using assms
proof (induction "is" arbitrary: off c fl n)
  case Nil
  then obtain m where "n = Suc m" by (cases n) auto
  with Nil show ?case
    by (intro exI [of _ "slabs c"] exI [of _ "str_freelist c"]) (simp add: ret_def)
next
  case (Cons i "is")
  then obtain m where n: "n = Suc m" "length is < m" by (cases n) auto
  from Cons.prems have i: "unat off = FE_SLAB_SIZE * i" "i < length (slabs c)" by simp_all
  let ?ss = "(slabs c)[i := (slabs c ! i)\<lparr>slab_next := str_freelist c\<rparr>]"
  let ?c = "c\<lparr>slabs := ?ss, str_freelist := off\<rparr>"
  have "slab_chain (slabs ?c) (slab_next (slabs c ! i)) is"
    by (rule slab_chain_cong [of "slabs c"]) (use Cons.prems in \<open>auto simp: nth_list_update\<close>)
  moreover have "slab_chain ?ss (str_freelist c) fl"
    by (rule slab_chain_cong [OF Cons.prems(2)]) (use Cons.prems(3) i in \<open>auto simp: nth_list_update\<close>)
  then have "slab_chain (slabs ?c) (str_freelist ?c) (i # fl)" using i by simp
  moreover have "distinct (is @ i # fl)" using Cons.prems(3) by auto
  ultimately obtain ss' f' where
    r: "str_free_chain_loop m (slab_next (slabs c ! i)) ?c = (Inr (), ?c\<lparr>slabs := ss', str_freelist := f'\<rparr>)"
      "slab_chain ss' f' (rev is @ i # fl)" "length ss' = length (slabs ?c)"
      "\<forall>j. j \<notin> set is \<longrightarrow> ss' ! j = slabs ?c ! j" "map slab_data ss' = map slab_data (slabs ?c)"
    using Cons.IH [of ?c "slab_next (slabs c ! i)" "i # fl" m] n(2) by blast
  have "str_free_chain_loop n off c = (Inr (), c\<lparr>slabs := ss', str_freelist := f'\<rparr>)"
    using r(1) str_slab_free_run [OF i] slab_offset(1) [OF i(1)] slab_offset(3) [OF i]
    by (simp add: n(1) slab_lookup_def bnd_def gets_def or_crash_def ret_def sq_def)
  moreover have "map slab_data ?ss = map slab_data (slabs c)"
    by (simp add: map_update) (metis list_update_id map_update)
  ultimately show ?case
    using r(2-5) by (intro exI [of _ ss'] exI [of _ f']) auto
qed

lemma str_free_chain_run:
  assumes "slab_chain (slabs c) off is" and "slab_chain (slabs c) (str_freelist c) fl"
    and "distinct (is @ fl)"
  shows "\<exists>ss' f'. str_free_chain off c = (Inr (), c\<lparr>slabs := ss', str_freelist := f'\<rparr>) \<and>
    slab_chain ss' f' (rev is @ fl) \<and> length ss' = length (slabs c) \<and>
    (\<forall>j. j \<notin> set is \<longrightarrow> ss' ! j = slabs c ! j) \<and> map slab_data ss' = map slab_data (slabs c)"
proof -
  have "length is \<le> length (slabs c)"
    using assms(3) slab_chain_bound [OF assms(1)] by (intro distinct_length_le) simp_all
  then show ?thesis
    using str_free_chain_loop_run [OF assms, of "Suc (length (slabs c))"]
    by (simp add: str_free_chain_def bnd_def gets_def)
qed

section \<open>The heap invariant\<close>

definition is_data :: "fe_Object \<Rightarrow> bool" where
  "is_data o' \<longleftrightarrow> ty o' = FE_TSTRING \<or> ty o' = FE_TBYTES"

text \<open>A string or bytes cell with its chain of slabs.\<close>

definition data_ok :: "fe_Slab list \<Rightarrow> fe_Object \<Rightarrow> nat list \<Rightarrow> bool" where
  "data_ok ss o' is \<longleftrightarrow> (\<exists>n off. ocar o' = VObj (Fixnum n) \<and> 0 \<le> n \<and> ocdr o' = VU32 off \<and>
     slab_chain ss off is \<and> nat n \<le> FE_SLAB_DATA_SIZE * length is)"

text \<open>
  No slab is in two chains: \<open>fl\<close> is the free list, \<open>chs\<close> the chain of every cell, \<open>P\<close> the slabs of a
  string under construction. The cells in \<open>X\<close> are strings whose chain is not linked yet.
\<close>

definition slab_inv :: "nat set \<Rightarrow> nat list \<Rightarrow> fe_Context \<Rightarrow> nat list \<Rightarrow> nat list list \<Rightarrow> bool" where
  "slab_inv X P c fl chs \<longleftrightarrow> length chs = length (objects c) \<and>
     slab_chain (slabs c) (str_freelist c) fl \<and>
     (\<forall>j < length (objects c). if is_data (objects c ! j) \<and> j \<notin> X
        then data_ok (slabs c) (objects c ! j) (chs ! j) else chs ! j = []) \<and>
     distinct (fl @ P @ concat chs)"

definition heap_inv :: "nat set \<Rightarrow> nat list \<Rightarrow> fe_Context \<Rightarrow> bool" where
  "heap_inv X P c \<longleftrightarrow> (\<forall>o' \<in> set (objects c). gc_ok o') \<and>
     (\<forall>o' \<in> set (objects c). ty o' \<noteq> FE_TFREE \<longrightarrow> \<not> mark o') \<and>
     (\<exists>fs. free_chain (objects c) (freelist c) fs) \<and> (\<exists>fl chs. slab_inv X P c fl chs) \<and>
     wf_slabs (slabs c) \<and> wf_spans c"

text \<open>Everything in the context besides the limits, the arenas and their free lists.\<close>

definition rest :: "fe_Context \<Rightarrow> _" where
  "rest c = (gcstack c, objects_addr c, nil_addr c, modulestack c, symlist c, t_sym c, nextchr c,
     import_paths c, source_dirs c, source_buffers c, loading_modules c, loaded_modules c,
     loaded_module_values c, loaded_module_value_capacity c,
     return_sym c, frame_sym c, do_sym c, let_sym c, quote_sym c, fn_sym c, mac_sym c)"

lemma rest_more: "limit_ctx.more c' = limit_ctx.more c \<Longrightarrow> rest c' = rest c"
  by (cases c, cases c') (simp add: rest_def)

lemma slab_chain_slab_bytes:
  "wf_slabs ss \<Longrightarrow> slab_chain ss off is \<Longrightarrow> n \<le> FE_SLAB_DATA_SIZE * length is \<Longrightarrow>
   slab_bytes ss off n = Some (take n (concat (map (\<lambda>i. slab_data (ss ! i)) is)))"
proof (induction "is" arbitrary: off n)
  case (Cons i "is")
  from Cons.prems have i: "unat off = FE_SLAB_SIZE * i" "i < length ss"
    "slab_chain ss (slab_next (ss ! i)) is" by simp_all
  have len: "length (slab_data (ss ! i)) = FE_SLAB_DATA_SIZE"
    using Cons.prems(1) i(2) by (simp add: wf_slabs_def)
  have "n - chunk n \<le> FE_SLAB_DATA_SIZE * length is" using Cons.prems(3) by (auto simp: chunk_def)
  from Cons.IH [OF Cons.prems(1) i(3) this] show ?case
    using slab_offset(1) [OF i(1)] slab_offset(3) [OF i(1,2)] len
    by (subst slab_bytes.simps) (auto simp: chunk_def)
qed simp

text \<open>The bytes of a data cell depend on the slabs of its chain only.\<close>

lemma obj_bytes_cong:
  assumes "data_ok (slabs c) (objects c ! i) is" and "i < length (objects c)"
    and "objects c' ! i = objects c ! i" and "length (objects c') = length (objects c)"
    and "wf_slabs (slabs c)" and "wf_slabs (slabs c')" and "length (slabs c') = length (slabs c)"
    and "\<And>j. j \<in> set is \<Longrightarrow> slabs c' ! j = slabs c ! j"
  shows "obj_bytes c' (Ref i) = obj_bytes c (Ref i)"
proof -
  from assms(1) obtain n off where d: "ocar (objects c ! i) = VObj (Fixnum n)"
    "ocdr (objects c ! i) = VU32 off" "slab_chain (slabs c) off is"
    "nat n \<le> FE_SLAB_DATA_SIZE * length is" by (auto simp: data_ok_def)
  have "slab_chain (slabs c') off is" using d(3) assms(7,8) by (rule slab_chain_cong)
  moreover have "concat (map (\<lambda>j. slab_data (slabs c' ! j)) is) = concat (map (\<lambda>j. slab_data (slabs c ! j)) is)"
    using assms(8) by (auto intro!: arg_cong [where f = concat])
  ultimately show ?thesis
    using d assms(2-6) by (simp add: obj_bytes_def slab_chain_slab_bytes)
qed

section \<open>Sweeping\<close>

definition dead :: "fe_Object \<Rightarrow> bool" where
  "dead o' \<longleftrightarrow> ty o' \<noteq> FE_TFREE \<and> \<not> mark o'"

lemma free_map_more: "\<exists>c'. free_map m c = (Inr (), c') \<and> limit_ctx.more c' = limit_ctx.more c"
  by (simp add: free_map_def free_arrays_def sq_def bnd_def modify_def)

text \<open>What releasing a cell leaves: its slabs in the free list, the rest of the heap as it was.\<close>

lemma release_run:
  assumes inv: "slab_inv X P c fl chs" and j: "j < length (objects c)" "dead (objects c ! j)" "j \<notin> X"
    and ok: "gc_ok (objects c ! j)"
  shows "\<exists>c'. release (objects c ! j) c = (Inr (), c') \<and> rest c' = rest c \<and>
    objects c' = objects c \<and> freelist c' = freelist c \<and> span_state c' = span_state c \<and>
    length (slabs c') = length (slabs c) \<and> map slab_data (slabs c') = map slab_data (slabs c) \<and>
    slab_chain (slabs c') (str_freelist c') (rev (chs ! j) @ fl) \<and>
    (\<forall>i. i \<notin> set (chs ! j) \<longrightarrow> slabs c' ! i = slabs c ! i)"
proof (cases "is_data (objects c ! j)")
  case True
  with inv j obtain off where off: "ocdr (objects c ! j) = VU32 off" "slab_chain (slabs c) off (chs ! j)"
    unfolding slab_inv_def data_ok_def by metis
  have "j < length chs" using inv j(1) by (simp add: slab_inv_def)
  then have "distinct (chs ! j @ fl)" and fl: "slab_chain (slabs c) (str_freelist c) fl"
    using inv by (auto simp: slab_inv_def distinct_concat_iff)
  from str_free_chain_run [OF off(2) fl this(1)] True off(1) show ?thesis
    by (auto simp: release_def is_data_def rest_def)
next
  case False
  with inv j have [simp]: "chs ! j = []" and fl: "slab_chain (slabs c) (str_freelist c) fl"
    by (auto simp: slab_inv_def)
  have nop: ?thesis if "release (objects c ! j) c = (Inr (), c')" "limit_ctx.more c' = limit_ctx.more c" for c'
    using that fl more_fields [OF that(2)] rest_more [OF that(2)] by auto
  show ?thesis
  proof (cases "ty (objects c ! j) = FE_TMAP \<and> (\<exists>m. ocdr (objects c ! j) = VMap (Some m))")
    case True
    then obtain m where "ty (objects c ! j) = FE_TMAP" "ocdr (objects c ! j) = VMap (Some m)" by blast
    moreover from free_map_more [of m c] obtain c' where
      "free_map m c = (Inr (), c')" "limit_ctx.more c' = limit_ctx.more c" by blast
    ultimately show ?thesis by (intro nop [of c']) (simp_all add: release_def)
  next
    case F: False
    with False ok have "release (objects c ! j) c = (Inr (), c)"
      by (auto simp: release_def is_data_def gc_ok_def ret_def split: val.splits option.splits)
    then show ?thesis by (rule nop) simp
  qed
qed

text \<open>How a sweep changes the cells: \<open>is\<close> are the indices swept.\<close>

definition swept :: "nat list \<Rightarrow> fe_Object list \<Rightarrow> fe_Object list \<Rightarrow> bool" where
  "swept is os os' \<longleftrightarrow> length os' = length os \<and> (\<forall>j < length os.
     if j \<in> set is \<and> ty (os ! j) \<noteq> FE_TFREE then
       (if mark (os ! j) then os' ! j = (os ! j)\<lparr>mark := False\<rparr>
        else ty (os' ! j) = FE_TFREE \<and> \<not> mark (os' ! j))
     else os' ! j = os ! j)"

lemma swept_refl [simp]: "swept [] os os"
  by (simp add: swept_def)

lemma swept_Cons:
  assumes "swept [i] os os1" and "swept is os1 os2" and "i \<notin> set is"
  shows "swept (i # is) os os2"
proof -
  have "length os1 = length os" "length os2 = length os" using assms(1,2) by (simp_all add: swept_def)
  moreover have "if j \<in> set (i # is) \<and> ty (os ! j) \<noteq> FE_TFREE then
       (if mark (os ! j) then os2 ! j = (os ! j)\<lparr>mark := False\<rparr>
        else ty (os2 ! j) = FE_TFREE \<and> \<not> mark (os2 ! j))
     else os2 ! j = os ! j" if "j < length os" for j
  proof (cases "j = i")
    case True
    then have "os2 ! j = os1 ! j"
      using assms(2,3) that \<open>length os1 = length os\<close> by (auto simp: swept_def)
    with True assms(1) that show ?thesis by (auto simp: swept_def)
  next
    case False
    then have "os1 ! j = os ! j" using assms(1) that by (auto simp: swept_def)
    with False assms(2) that \<open>length os1 = length os\<close> show ?thesis by (auto simp: swept_def)
  qed
  ultimately show ?thesis by (simp add: swept_def)
qed

definition swept_chains :: "nat list \<Rightarrow> fe_Object list \<Rightarrow> nat list list \<Rightarrow> nat list list" where
  "swept_chains is os chs = map (\<lambda>j. if j \<in> set is \<and> dead (os ! j) then [] else chs ! j) [0..<length chs]"

text \<open>The effect of a sweep on the whole context.\<close>

definition sweep_post ::
  "nat list \<Rightarrow> nat set \<Rightarrow> nat list \<Rightarrow> nat list list \<Rightarrow> fe_Context \<Rightarrow> fe_Context \<Rightarrow> bool" where
  "sweep_post is X P chs c c' \<longleftrightarrow> rest c' = rest c \<and> span_state c' = span_state c \<and>
     swept is (objects c) (objects c') \<and>
     (\<exists>fs. free_chain (objects c') (freelist c') fs) \<and>
     (\<exists>fl. slab_inv X P c' fl (swept_chains is (objects c) chs)) \<and>
     length (slabs c') = length (slabs c) \<and> map slab_data (slabs c') = map slab_data (slabs c) \<and>
     (\<forall>i \<in> set (P @ concat (swept_chains is (objects c) chs)). slabs c' ! i = slabs c ! i)"

lemma data_ok_unmark [simp]: "data_ok ss (o'\<lparr>mark := b\<rparr>) is = data_ok ss o' is"
  by (simp add: data_ok_def)

lemma is_data_unmark [simp]: "is_data (o'\<lparr>mark := b\<rparr>) = is_data o'"
  by (simp add: is_data_def)

lemma data_ok_cong:
  "data_ok ss o' is \<Longrightarrow> length ss' = length ss \<Longrightarrow> (\<And>i. i \<in> set is \<Longrightarrow> ss' ! i = ss ! i) \<Longrightarrow> data_ok ss' o' is"
  unfolding data_ok_def by (blast intro: slab_chain_cong)

lemma swept_chains_single:
  assumes "j < length chs"
  shows "swept_chains [j] os chs = (if dead (os ! j) then chs[j := []] else chs)"
  by (rule nth_equalityI) (use assms in \<open>auto simp: swept_chains_def nth_list_update\<close>)

lemma concat_update_split:
  assumes "j < length chs"
  shows "concat chs = concat (take j chs) @ chs ! j @ concat (drop (Suc j) chs)"
    and "concat (chs[j := []]) = concat (take j chs) @ concat (drop (Suc j) chs)"
proof -
  show "concat chs = concat (take j chs) @ chs ! j @ concat (drop (Suc j) chs)"
    by (subst id_take_nth_drop [OF assms]) simp
  show "concat (chs[j := []]) = concat (take j chs) @ concat (drop (Suc j) chs)"
    by (simp add: upd_conv_take_nth_drop [OF assms])
qed

text \<open>One dead cell.\<close>

lemma sweep_cell_dead:
  assumes inv: "slab_inv X P c fl chs" and fc: "free_chain (objects c) (freelist c) fs"
    and j: "j < length (objects c)" "dead (objects c ! j)" "j \<notin> X" and ok: "gc_ok (objects c ! j)"
  shows "\<exists>c'. sweep_cell j live c = (Inr live, c') \<and> sweep_post [j] X P chs c c'"
proof -
  from release_run [OF inv j ok] obtain c1 where r: "release (objects c ! j) c = (Inr (), c1)"
    and s: "rest c1 = rest c" "objects c1 = objects c" "freelist c1 = freelist c"
      "span_state c1 = span_state c" "length (slabs c1) = length (slabs c)"
      "map slab_data (slabs c1) = map slab_data (slabs c)"
      "slab_chain (slabs c1) (str_freelist c1) (rev (chs ! j) @ fl)"
      "\<forall>i. i \<notin> set (chs ! j) \<longrightarrow> slabs c1 ! i = slabs c ! i" by blast
  let ?c = "free_cell_at j c1"
  have run: "sweep_cell j live c = (Inr live, ?c)"
    using r j(2) by (simp add: sweep_cell_def dead_def bnd_def gets_def sq_def modify_def ret_def)
  have len: "j < length chs" using inv j(1) by (simp add: slab_inv_def)
  have chs: "swept_chains [j] (objects c) chs = chs[j := []]" using swept_chains_single [OF len] j(2) by simp
  have jfs: "j \<notin> set fs" using free_chain_free [OF fc] j(2) by (auto simp: dead_def)
  have fc': "free_chain (objects ?c) (freelist ?c) (j # fs)"
    using fc j(1) s(2,3) jfs
    by (auto simp: free_cell_at_def nth_list_update intro!: free_chain_cong [OF fc])
  have dis: "distinct (fl @ P @ concat chs)" using inv by (simp add: slab_inv_def)
  have same: "slabs c1 ! i = slabs c ! i" if "i \<in> set (P @ concat (chs[j := []]))" for i
    using that dis s(8) unfolding concat_update_split [OF len] by auto
  have "slab_inv X P ?c (rev (chs ! j) @ fl) (chs[j := []])"
    unfolding slab_inv_def
  proof (intro conjI allI impI)
    show "distinct ((rev (chs ! j) @ fl) @ P @ concat (chs[j := []]))"
      using dis unfolding concat_update_split [OF len] by auto
    fix k assume k: "k < length (objects ?c)"
    show "if is_data (objects ?c ! k) \<and> k \<notin> X then data_ok (slabs ?c) (objects ?c ! k) (chs[j := []] ! k)
      else chs[j := []] ! k = []"
    proof (cases "k = j")
      case True
      then show ?thesis using len j(1) s(2) by (simp add: free_cell_at_def is_data_def)
    next
      case False
      with k s(2) have k': "objects ?c ! k = objects c ! k" "k < length (objects c)"
        by (simp_all add: free_cell_at_def)
      have "chs ! k \<in> set (chs[j := []])"
        using nth_mem [of k "chs[j := []]"] False k' inv by (simp add: slab_inv_def)
      with same have "slabs c1 ! i = slabs c ! i" if "i \<in> set (chs ! k)" for i using that by auto
      then show ?thesis
        using inv k' False s(5) data_ok_cong [of "slabs c" _ "chs ! k" "slabs ?c"]
        by (auto simp: slab_inv_def free_cell_at_def split: if_splits)
    qed
  qed (use inv s in \<open>simp_all add: slab_inv_def free_cell_at_def\<close>)
  moreover have "swept [j] (objects c) (objects ?c)"
    using j s(2) by (auto simp: swept_def free_cell_at_def nth_list_update dead_def)
  moreover have "rest ?c = rest c" using s(1) by (simp add: rest_def free_cell_at_def)
  ultimately have "sweep_post [j] X P chs c ?c"
    using s(4-6) same exI [where P = "free_chain (objects ?c) (freelist ?c)", OF fc']
    by (auto simp: sweep_post_def chs free_cell_at_def)
  with run show ?thesis by blast
qed

text \<open>One cell that is free or marked.\<close>

lemma sweep_cell_keep:
  assumes inv: "slab_inv X P c fl chs" and fc: "free_chain (objects c) (freelist c) fs"
    and j: "j < length (objects c)" "\<not> dead (objects c ! j)"
  shows "\<exists>c'. sweep_cell j live c = (Inr (if ty (objects c ! j) = FE_TFREE then live else live + 1), c')
    \<and> sweep_post [j] X P chs c c'"
proof (cases "ty (objects c ! j) = FE_TFREE")
  case True
  have "swept_chains [j] (objects c) chs = chs"
    using swept_chains_single [of j chs] inv j by (simp add: slab_inv_def)
  then have "sweep_post [j] X P chs c c"
    using inv fc True by (auto simp: sweep_post_def swept_def)
  with True show ?thesis by (simp add: sweep_cell_def bnd_def gets_def ret_def)
next
  case False
  let ?c = "c\<lparr>objects := (objects c)[j := (objects c ! j)\<lparr>mark := False\<rparr>]\<rparr>"
  have chs: "swept_chains [j] (objects c) chs = chs"
    using swept_chains_single [of j chs] inv j by (simp add: slab_inv_def)
  have "objects ?c ! k = (objects c ! k)\<lparr>mark := (if k = j then False else mark (objects c ! k))\<rparr>"
    if "k < length (objects c)" for k using that j(1) by (simp add: nth_list_update)
  then have "slab_inv X P ?c fl chs"
    using inv unfolding slab_inv_def by simp
  moreover have "free_chain (objects ?c) (freelist ?c) fs"
    using j(1) by (auto simp: nth_list_update intro!: free_chain_cong [OF fc])
  moreover have "swept [j] (objects c) (objects ?c)"
    using j False by (auto simp: swept_def nth_list_update dead_def)
  ultimately have "sweep_post [j] X P chs c ?c"
    by (auto simp: sweep_post_def rest_def chs)
  with False j show ?thesis
    by (simp add: sweep_cell_def dead_def bnd_def gets_def sq_def modify_def ret_def)
qed

lemma swept_chains_Cons:
  assumes "swept [i] os os1" and "i \<notin> set is" and "length chs = length os"
  shows "swept_chains is os1 (swept_chains [i] os chs) = swept_chains (i # is) os chs"
proof -
  have "os1 ! j = os ! j" if "j \<in> set is" "j < length os" for j
  proof -
    from assms(2) that have "j \<noteq> i" by blast
    with assms(1) that(2) show ?thesis by (simp add: swept_def)
  qed
  then show ?thesis using assms(2,3) by (auto simp: swept_chains_def)
qed

lemma set_swept_chains: "set (concat (swept_chains is os chs)) \<subseteq> set (concat chs)"
  by (auto simp: swept_chains_def split: if_splits) (meson nth_mem)+

lemma sweep_post_Cons:
  assumes 1: "sweep_post [i] X P chs c c1" and 2: "sweep_post is X P (swept_chains [i] (objects c) chs) c1 c2"
    and "i \<notin> set is" and len: "length chs = length (objects c)"
  shows "sweep_post (i # is) X P chs c c2"
proof -
  have sw: "swept [i] (objects c) (objects c1)" using 1 by (simp add: sweep_post_def)
  note chs = swept_chains_Cons [OF sw assms(3) len]
  have "slabs c2 ! k = slabs c ! k" if "k \<in> set (P @ concat (swept_chains (i # is) (objects c) chs))" for k
  proof -
    from that have "k \<in> set (P @ concat (swept_chains [i] (objects c) chs))"
      using set_swept_chains [of "is" "objects c1" "swept_chains [i] (objects c) chs"]
      by (auto simp: chs)
    then have "slabs c1 ! k = slabs c ! k" using 1 by (simp add: sweep_post_def)
    moreover have "slabs c2 ! k = slabs c1 ! k" using 2 that by (simp add: sweep_post_def chs)
    ultimately show ?thesis by simp
  qed
  with 1 2 show ?thesis
    using swept_Cons [OF sw _ assms(3)] by (auto simp: sweep_post_def chs)
qed

definition live_cells :: "nat list \<Rightarrow> fe_Object list \<Rightarrow> nat list" where
  "live_cells is os = filter (\<lambda>j. ty (os ! j) \<noteq> FE_TFREE \<and> mark (os ! j)) is"

text \<open>The sweep returns and has the stated effect; the counter counts the cells that stay.\<close>

lemma sweep_run:
  assumes "slab_inv X P c fl chs" and "free_chain (objects c) (freelist c) fs"
    and "distinct is" and "set is \<subseteq> {..<length (objects c)}"
    and "\<forall>j \<in> set is. dead (objects c ! j) \<longrightarrow> j \<notin> X \<and> gc_ok (objects c ! j)"
  shows "\<exists>c'. sweep is live c = (Inr (live + int (length (live_cells is (objects c)))), c') \<and>
    sweep_post is X P chs c c'"
  using assms
proof (induction "is" arbitrary: c fl chs fs live)
  case Nil
  have "swept_chains [] (objects c) chs = chs" by (simp add: swept_chains_def map_nth)
  with Nil show ?case by (auto simp: sweep_post_def ret_def live_cells_def)
next
  case (Cons i "is")
  have i: "i < length (objects c)" "i \<notin> set is" using Cons.prems by auto
  define live1 where "live1 = (if dead (objects c ! i) \<or> ty (objects c ! i) = FE_TFREE then live else live + 1)"
  have "\<exists>c1. sweep_cell i live c = (Inr live1, c1) \<and> sweep_post [i] X P chs c c1"
  proof (cases "dead (objects c ! i)")
    case True
    with Cons.prems(5) show ?thesis
      using sweep_cell_dead [OF Cons.prems(1,2) i(1)] by (simp add: live1_def)
  next
    case False
    then show ?thesis using sweep_cell_keep [OF Cons.prems(1,2) i(1)] by (simp add: live1_def)
  qed
  then obtain c1 where r: "sweep_cell i live c = (Inr live1, c1)" and p: "sweep_post [i] X P chs c c1"
    by blast
  have sw: "swept [i] (objects c) (objects c1)" using p by (simp add: sweep_post_def)
  have same: "objects c1 ! j = objects c ! j" if "j \<in> set is" for j
  proof -
    from that i(2) have "j \<noteq> i" by blast
    with sw that Cons.prems(4) show ?thesis by (auto simp: swept_def)
  qed
  have len: "length (objects c1) = length (objects c)" using sw by (simp add: swept_def)
  from p obtain fl1 fs1 where p1: "slab_inv X P c1 fl1 (swept_chains [i] (objects c) chs)"
    "free_chain (objects c1) (freelist c1) fs1" by (auto simp: sweep_post_def)
  have "\<exists>c2. sweep is live1 c1 = (Inr (live1 + int (length (live_cells is (objects c1)))), c2) \<and>
      sweep_post is X P (swept_chains [i] (objects c) chs) c1 c2"
    by (rule Cons.IH [OF p1]) (use Cons.prems(3-5) same len in auto)
  then obtain c2 where r2: "sweep is live1 c1 = (Inr (live1 + int (length (live_cells is (objects c1)))), c2)"
    and p2: "sweep_post is X P (swept_chains [i] (objects c) chs) c1 c2" by blast
  have "live_cells is (objects c1) = live_cells is (objects c)"
    using same by (auto simp: live_cells_def intro: filter_cong)
  then have "live1 + int (length (live_cells is (objects c1))) =
      live + int (length (live_cells (i # is) (objects c)))"
    by (auto simp: live_cells_def live1_def dead_def)
  moreover have "sweep_post (i # is) X P chs c c2"
    using Cons.prems(1) by (intro sweep_post_Cons [OF p p2 i(2)]) (simp add: slab_inv_def)
  ultimately show ?case using r r2 by (simp add: bnd_def)
qed

section \<open>The collection as a whole\<close>

lemma mark_roots_run:
  "\<forall>o' \<in> set (objects c). gc_ok o' \<Longrightarrow>
   \<exists>os. mark_roots ps c = (Inr (), c\<lparr>objects := os\<rparr>) \<and> traversed (objects c) (set ps) os"
proof (induction ps arbitrary: c)
  case Nil
  then show ?case by (auto simp: ret_def cells_def intro!: exI [of _ "objects c"] traversed_done)
next
  case (Cons p ps)
  from fe_mark_correct [OF Cons.prems, of p] obtain os1 where
    m: "fe_mark p (objects c) = Some (Inr os1)" and t: "traversed (objects c) {p} os1" by blast
  have "\<forall>o' \<in> set os1. gc_ok o'"
    using t by (intro unmarked_heap_ok [OF _ Cons.prems]) (simp add: traversed_def)
  with Cons.IH [of "c\<lparr>objects := os1\<rparr>"] obtain os2 where
    "mark_roots ps (c\<lparr>objects := os1\<rparr>) = (Inr (), c\<lparr>objects := os2\<rparr>)" "traversed os1 (set ps) os2" by auto
  with m traversed_seq [OF t] show ?case
    by (auto simp: sq_def bnd_def mark_root_def)
qed

definition roots :: "fe_Context \<Rightarrow> ptr set" where
  "roots c = set (gc_roots c)"

text \<open>The state in which the sweep starts.\<close>

lemma marked_heap_inv:
  assumes inv: "heap_inv X P c" and t: "traversed (objects c) (roots c) os"
  shows "\<forall>j < length (objects c). ty (objects c ! j) \<noteq> FE_TFREE \<longrightarrow>
      (mark (os ! j) \<longleftrightarrow> j \<in> reach (objects c) (roots c))"
    and "\<exists>fl chs. slab_inv X P (c\<lparr>objects := os\<rparr>) fl chs"
    and "\<exists>fs. free_chain os (freelist c) fs"
    and "\<forall>o' \<in> set os. gc_ok o'"
proof -
  have u: "unmarked_heap os = unmarked_heap (objects c)" using t by (simp add: traversed_def)
  note len = unmarked_heap_length [OF u]
  have eq: "(os ! j)\<lparr>mark := False\<rparr> = (objects c ! j)\<lparr>mark := False\<rparr>" if "j < length (objects c)" for j
    using unmarked_heap_nth [OF u that] .
  have f: "ty (os ! j) = ty (objects c ! j)" "ocdr (os ! j) = ocdr (objects c ! j)"
    "ocar (os ! j) = ocar (objects c ! j)" if "j < length (objects c)" for j
    using arg_cong [OF eq [OF that], of ty] arg_cong [OF eq [OF that], of ocdr]
      arg_cong [OF eq [OF that], of ocar] by simp_all
  have free: "ty (objects c ! i) = FE_TFREE" if "i \<in> marked (objects c)" for i
    using inv that by (auto simp: heap_inv_def marked_def)
  have "edge (objects c) i j \<Longrightarrow> False" if "i \<in> marked (objects c)" for i j
    using free [OF that] by (simp add: edge_def kids_def)
  then have "marked os = marked (objects c) \<union> reach (objects c) (roots c)"
    using marks_exact [of "edge (objects c)" "marked (objects c)" "cells (objects c) (roots c)" "marked os"] t
    by (auto simp: traversed_def reach_cells)
  then show "\<forall>j < length (objects c). ty (objects c ! j) \<noteq> FE_TFREE \<longrightarrow>
      (mark (os ! j) \<longleftrightarrow> j \<in> reach (objects c) (roots c))"
    using free len by (auto simp: marked_def)
  from inv obtain fl chs where "slab_inv X P c fl chs" by (auto simp: heap_inv_def)
  then have "slab_inv X P (c\<lparr>objects := os\<rparr>) fl chs"
    using len f by (auto simp: slab_inv_def is_data_def data_ok_def)
  then show "\<exists>fl chs. slab_inv X P (c\<lparr>objects := os\<rparr>) fl chs" by blast
  from inv obtain fs where fs: "free_chain (objects c) (freelist c) fs" by (auto simp: heap_inv_def)
  then have "free_chain os (freelist c) fs"
    by (rule free_chain_cong) (use len f free_chain_free [OF fs] in simp_all)
  then show "\<exists>fs. free_chain os (freelist c) fs" by blast
  show "\<forall>o' \<in> set os. gc_ok o'"
    using inv by (intro unmarked_heap_ok [OF u]) (simp add: heap_inv_def)
qed

text \<open>
  What a collection guarantees. A cell that was in use keeps its contents, and a string its bytes,
  when it is reachable from the roots; otherwise it is free afterwards.
\<close>

definition kept :: "fe_Context \<Rightarrow> nat \<Rightarrow> bool" where
  "kept c i \<longleftrightarrow> i < length (objects c) \<and> ty (objects c ! i) \<noteq> FE_TFREE \<and> i \<in> reach (objects c) (roots c)"

definition gc_post :: "nat set \<Rightarrow> nat list \<Rightarrow> fe_Context \<Rightarrow> fe_Context \<Rightarrow> bool" where
  "gc_post X P c c' \<longleftrightarrow> heap_inv X P c' \<and> rest c' = rest c \<and>
     length (objects c') = length (objects c) \<and> length (slabs c') = length (slabs c) \<and>
     (\<forall>i. kept c i \<longrightarrow> objects c' ! i = objects c ! i \<and>
        (is_data (objects c ! i) \<and> i \<notin> X \<longrightarrow> obj_bytes c' (Ref i) = obj_bytes c (Ref i))) \<and>
     (\<forall>i < length (objects c). \<not> kept c i \<longrightarrow> ty (objects c' ! i) = FE_TFREE) \<and>
     (\<forall>i \<in> set P. slabs c' ! i = slabs c ! i) \<and>
     live_count c' = int (card {i. kept c i})"

lemma wf_slabs_data: "map slab_data ss' = map slab_data ss \<Longrightarrow> wf_slabs ss \<Longrightarrow> wf_slabs ss'"
proof -
  assume "map slab_data ss' = map slab_data ss" and wf: "wf_slabs ss"
  then have "slab_data ` set ss' = slab_data ` set ss" by (metis list.set_map)
  with wf show "wf_slabs ss'" unfolding wf_slabs_def by (metis image_iff)
qed

lemma slab_invD:
  assumes "slab_inv X P c fl chs" and "j < length (objects c)" and "is_data (objects c ! j)" and "j \<notin> X"
  shows "data_ok (slabs c) (objects c ! j) (chs ! j)"
  using assms unfolding slab_inv_def by (metis (no_types, lifting))

text \<open>The facts about the sweep after a complete mark phase.\<close>

lemma swept_marked:
  assumes inv: "heap_inv X P c" and t: "traversed (objects c) (roots c) os"
    and sw: "swept [0..<length os] os (objects c2)"
  shows "length (objects c2) = length (objects c)"
    and "\<And>i. kept c i \<Longrightarrow> objects c2 ! i = objects c ! i \<and> mark (os ! i)"
    and "\<And>i. i < length (objects c) \<Longrightarrow> \<not> kept c i \<Longrightarrow> ty (objects c2 ! i) = FE_TFREE \<and> gc_ok (objects c2 ! i)"
proof -
  have u: "unmarked_heap os = unmarked_heap (objects c)" using t by (simp add: traversed_def)
  note len = unmarked_heap_length [OF u] and m = marked_heap_inv(1) [OF inv t]
  have ty: "ty (os ! i) = ty (objects c ! i)" if "i < length (objects c)" for i
    using arg_cong [OF unmarked_heap_nth [OF u that], of ty] by simp
  show "length (objects c2) = length (objects c)" using sw len by (simp add: swept_def)
  show "objects c2 ! i = objects c ! i \<and> mark (os ! i)" if k: "kept c i" for i
  proof
    show mk: "mark (os ! i)" using m k by (simp add: kept_def)
    then have "objects c2 ! i = (os ! i)\<lparr>mark := False\<rparr>"
      using sw k ty len by (simp add: swept_def kept_def)
    also have "\<dots> = (objects c ! i)\<lparr>mark := False\<rparr>"
      using k by (intro unmarked_heap_nth [OF u]) (simp add: kept_def)
    also have "\<dots> = objects c ! i"
      using inv k by (cases "objects c ! i") (auto simp: heap_inv_def kept_def dest!: nth_mem)
    finally show "objects c2 ! i = objects c ! i" .
  qed
  show "ty (objects c2 ! i) = FE_TFREE \<and> gc_ok (objects c2 ! i)"
    if i: "i < length (objects c)" "\<not> kept c i" for i
  proof -
    have "ty (objects c2 ! i) = FE_TFREE"
      using sw m i ty [OF i(1)] len
      by (cases "ty (objects c ! i) = FE_TFREE") (auto simp: swept_def kept_def)
    then show ?thesis by (simp add: gc_ok_def)
  qed
qed

lemma swept_bytes:
  assumes inv: "heap_inv X P c" and t: "traversed (objects c) (roots c) os"
    and s: "slab_inv X P (c\<lparr>objects := os\<rparr>) fl chs"
    and p: "sweep_post [0..<length os] X P chs (c\<lparr>objects := os\<rparr>) c2"
    and i: "kept c i" "is_data (objects c ! i)" "i \<notin> X"
  shows "obj_bytes c2 (Ref i) = obj_bytes c (Ref i)"
proof (rule obj_bytes_cong [of c i "chs ! i" c2])
  have u: "unmarked_heap os = unmarked_heap (objects c)" using t by (simp add: traversed_def)
  note len = unmarked_heap_length [OF u]
  have sw: "swept [0..<length os] os (objects c2)" using p by (simp add: sweep_post_def)
  note k = swept_marked [OF inv t sw]
  show l: "i < length (objects c)" using i(1) by (simp add: kept_def)
  have e: "(os ! i)\<lparr>mark := False\<rparr> = (objects c ! i)\<lparr>mark := False\<rparr>" by (rule unmarked_heap_nth [OF u l])
  have "is_data (os ! i)" using i(2) arg_cong [OF e, of is_data] by simp
  then have "data_ok (slabs c) (os ! i) (chs ! i)" using slab_invD [OF s, of i] i l len by simp
  then show "data_ok (slabs c) (objects c ! i) (chs ! i)"
    using arg_cong [OF e, of "\<lambda>o'. data_ok (slabs c) o' (chs ! i)"] by simp
  have "\<not> dead (os ! i)" using k(2) [OF i(1)] by (simp add: dead_def)
  then have "chs ! i \<in> set (swept_chains [0..<length os] os chs)"
    using s l len by (auto simp: swept_chains_def slab_inv_def intro!: image_eqI [of _ _ i])
  then show "slabs c2 ! j = slabs c ! j" if "j \<in> set (chs ! i)" for j
    using p that by (auto simp: sweep_post_def)
  show "wf_slabs (slabs c)" using inv by (simp add: heap_inv_def)
  then show "wf_slabs (slabs c2)" using p by (auto simp: sweep_post_def intro: wf_slabs_data)
  show "length (slabs c2) = length (slabs c)" using p by (simp add: sweep_post_def)
  show "objects c2 ! i = objects c ! i" "length (objects c2) = length (objects c)"
    using k(1) k(2) [OF i(1)] by simp_all
qed

lemma heap_invI:
  assumes "\<forall>o' \<in> set (objects c). gc_ok o' \<and> (ty o' \<noteq> FE_TFREE \<longrightarrow> \<not> mark o')"
    and "free_chain (objects c) (freelist c) fs" and "slab_inv X P c fl chs"
    and "wf_slabs (slabs c)" and "wf_spans c"
  shows "heap_inv X P c"
  using assms unfolding heap_inv_def by blast

lemma heap_invE:
  assumes "heap_inv X P c"
  obtains fs fl chs where "\<forall>o' \<in> set (objects c). gc_ok o' \<and> (ty o' \<noteq> FE_TFREE \<longrightarrow> \<not> mark o')"
    "free_chain (objects c) (freelist c) fs" "slab_inv X P c fl chs"
    "wf_slabs (slabs c)" "wf_spans c"
  using assms unfolding heap_inv_def by blast

lemma slab_inv_fields:
  assumes "objects c' = objects c" and "slabs c' = slabs c" and "str_freelist c' = str_freelist c"
  shows "slab_inv X P c' fl chs = slab_inv X P c fl chs"
  unfolding slab_inv_def assms ..

lemma heap_inv_cong:
  assumes "heap_inv X P c" and "objects c' = objects c" and "freelist c' = freelist c"
    and "slabs c' = slabs c" and "str_freelist c' = str_freelist c" and "wf_spans c'"
  shows "heap_inv X P c'"
  using assms(1,6) unfolding heap_inv_def slab_inv_def assms(2-5) by blast

lemma obj_bytes_fields:
  assumes "objects c' = objects c" and "slabs c' = slabs c"
  shows "obj_bytes c' p = obj_bytes c p"
  unfolding obj_bytes_def assms ..

text \<open>The heap after the sweep, and after the spans are pruned and the counters set.\<close>

lemma swept_heap_inv:
  assumes inv: "heap_inv X P c" and t: "traversed (objects c) (roots c) os"
    and p: "sweep_post [0..<length os] X P chs (c\<lparr>objects := os\<rparr>) c2"
  shows "heap_inv X P c2"
proof -
  have sw: "swept [0..<length os] os (objects c2)" using p by (simp add: sweep_post_def)
  note k = swept_marked [OF inv t sw]
  have "gc_ok (objects c2 ! i) \<and> (ty (objects c2 ! i) \<noteq> FE_TFREE \<longrightarrow> \<not> mark (objects c2 ! i))"
    if "i < length (objects c)" for i
    using k(2,3) [of i] inv that by (cases "kept c i") (auto simp: heap_inv_def)
  then have "\<forall>o' \<in> set (objects c2). gc_ok o' \<and> (ty o' \<noteq> FE_TFREE \<longrightarrow> \<not> mark o')"
    using k(1) by (metis in_set_conv_nth)
  moreover have "wf_slabs (slabs c2)" using inv p by (auto simp: heap_inv_def sweep_post_def intro: wf_slabs_data)
  moreover have "wf_spans c2" using inv p by (simp add: heap_inv_def sweep_post_def wf_spans_def)
  ultimately show ?thesis using p unfolding heap_inv_def sweep_post_def by blast
qed

definition gc_finish :: "int \<Rightarrow> fe_Context \<Rightarrow> fe_Context" where
  "gc_finish live c = c\<lparr>live_count := live, allocs_since_gc := 0, bytes_since_gc := 0,
     gc_threshold := (let thr = live * GC_GROWTH_FACTOR
                      in if thr < GC_MIN_THRESHOLD then GC_MIN_THRESHOLD else thr),
     gc_runs := gc_runs c + 1\<rparr>"

lemma gc_finish_fields:
  assumes "fex_span_prune c2 = (Inr (), c3)" and "heap_inv X P c2"
  shows "heap_inv X P (gc_finish n c3)" "rest (gc_finish n c3) = rest c2"
    "objects (gc_finish n c3) = objects c2" "slabs (gc_finish n c3) = slabs c2"
    "live_count (gc_finish n c3) = n"
proof -
  from fex_span_prune_run [of c2] assms(1) have
    m: "limit_ctx.more c3 = limit_ctx.more (c2\<lparr>span_state := pruned c2\<rparr>)" by auto
  note f = more_fields [OF m, simplified]
  have "wf_spans c3" using assms(2) f(3) by (auto simp: heap_inv_def wf_spans_def pruned_def)
  then show "heap_inv X P (gc_finish n c3)"
    by (intro heap_inv_cong [OF assms(2)]) (simp_all add: gc_finish_def f wf_spans_def)
  show "rest (gc_finish n c3) = rest c2" using rest_more [OF m] by (simp add: gc_finish_def rest_def)
qed (use fex_span_prune_run [of c2] assms(1) in \<open>auto simp: gc_finish_def dest: more_fields\<close>)

lemma collectgarbage_run:
  assumes inv: "heap_inv X P c" and X: "X \<subseteq> reach (objects c) (roots c)"
  shows "\<exists>c'. collectgarbage c = (Inr (), c') \<and> gc_post X P c c'"
proof -
  have ok: "\<forall>o' \<in> set (objects c). gc_ok o'" using inv by (simp add: heap_inv_def)
  from mark_roots_run [OF ok, of "gc_roots c"] obtain os where
    mr: "mark_roots (gc_roots c) c = (Inr (), c\<lparr>objects := os\<rparr>)"
    and t: "traversed (objects c) (roots c) os" by (auto simp: roots_def)
  note m = marked_heap_inv [OF inv t]
  have u: "unmarked_heap os = unmarked_heap (objects c)" using t by (simp add: traversed_def)
  note len = unmarked_heap_length [OF u]
  have ty: "ty (os ! i) = ty (objects c ! i)" if "i < length (objects c)" for i
    using arg_cong [OF unmarked_heap_nth [OF u that], of ty] by simp
  from m(2) obtain fl chs where s: "slab_inv X P (c\<lparr>objects := os\<rparr>) fl chs" by blast
  from m(3) obtain fs where fc: "free_chain os (freelist c) fs" by blast
  have d: "\<forall>j \<in> set [0..<length os]. dead (os ! j) \<longrightarrow> j \<notin> X \<and> gc_ok (os ! j)"
    using m(1,4) X len ty by (auto simp: dead_def)
  let ?live = "int (length (live_cells [0..<length os] os))"
  have "set [0..<length os] \<subseteq> {..<length os}" by auto
  with sweep_run [OF s, of fs "[0..<length os]" 0] fc d obtain c2 where
    sr: "sweep [0..<length os] 0 (c\<lparr>objects := os\<rparr>) = (Inr ?live, c2)"
    and p: "sweep_post [0..<length os] X P chs (c\<lparr>objects := os\<rparr>) c2" by auto
  obtain c3 where pr: "fex_span_prune c2 = (Inr (), c3)" using fex_span_prune_run [of c2] by blast
  note fin = gc_finish_fields [OF pr swept_heap_inv [OF inv t p]]
  have sw: "swept [0..<length os] os (objects c2)" using p by (simp add: sweep_post_def)
  note k = swept_marked [OF inv t sw]
  have "set (live_cells [0..<length os] os) = {i. kept c i}"
    using m(1) len ty by (auto simp: live_cells_def kept_def)
  moreover have "distinct (live_cells [0..<length os] os)" by (simp add: live_cells_def)
  ultimately have cnt: "length (live_cells [0..<length os] os) = card {i. kept c i}"
    by (metis distinct_card)
  have "obj_bytes (gc_finish ?live c3) q = obj_bytes c2 q" for q
    by (rule obj_bytes_fields) (rule fin)+
  then have "gc_post X P c (gc_finish ?live c3)"
    using fin [of ?live] k swept_bytes [OF inv t s p] p cnt
    by (simp add: gc_post_def sweep_post_def rest_def)
  moreover have "collectgarbage c = (Inr (), gc_finish ?live c3)"
    using mr sr pr by (simp add: collectgarbage_def bnd_def gets_def sq_def modify_def gc_finish_def)
  ultimately show ?thesis by blast
qed

text \<open>
  C1. Garbage collection is safe, precise and total: from every well-formed heap \<^verbatim>\<open>collectgarbage\<close>
  returns; every cell in use that is reachable from the roots (GC stack, module stack, symbol
  list, loaded modules) keeps its contents, and every reachable string or bytes object its
  bytes; every other cell is free afterwards; \<^verbatim>\<open>live_count\<close> is the number of cells kept; and the
  heap is well formed again.
\<close>

theorem gc_safe_and_precise:
  assumes "heap_inv {} [] c"
  shows "\<exists>c'. collectgarbage c = (Inr (), c') \<and> heap_inv {} [] c' \<and>
    (\<forall>i. kept c i \<longrightarrow> objects c' ! i = objects c ! i \<and>
       (is_data (objects c ! i) \<longrightarrow> obj_bytes c' (Ref i) = obj_bytes c (Ref i))) \<and>
    (\<forall>i < length (objects c). \<not> kept c i \<longrightarrow> ty (objects c' ! i) = FE_TFREE) \<and>
    live_count c' = int (card {i. kept c i})"
proof -
  from collectgarbage_run [OF assms] obtain c' where "collectgarbage c = (Inr (), c')" "gc_post {} [] c c'"
    by blast
  then show ?thesis by (auto simp: gc_post_def)
qed

text \<open>A root pair (cell 0) with the string \<open>hi\<close> in its car, an unreachable pair and a free cell.\<close>

definition gc_example :: fe_Context where
  "gc_example = (zeroed_context quiet_env 4096)
     \<lparr>objects := [pair_cell (Ref 1) Nil,
                  \<lparr>ocar = VObj (Fixnum 2), ocdr = VU32 0, ty = FE_TSTRING, mark = False\<rparr>,
                  pair_cell (Fixnum 1) Nil,
                  \<lparr>ocar = VNone, ocdr = VObj Nil, ty = FE_TFREE, mark = False\<rparr>],
      freelist := Ref 3, gcstack := [Ref 0],
      slabs := [\<lparr>slab_next = FE_SLAB_NULL, slab_data = ''hi'' @ replicate 58 (CHR 0x00)\<rparr>,
                \<lparr>slab_next = FE_SLAB_NULL, slab_data = replicate 60 (CHR 0x00)\<rparr>],
      str_freelist := 64\<rparr>"

lemma gc_example_inv: "heap_inv {} [] gc_example"
proof -
  have os: "objects gc_example = [pair_cell (Ref 1) Nil,
      \<lparr>ocar = VObj (Fixnum 2), ocdr = VU32 0, ty = FE_TSTRING, mark = False\<rparr>,
      pair_cell (Fixnum 1) Nil, \<lparr>ocar = VNone, ocdr = VObj Nil, ty = FE_TFREE, mark = False\<rparr>]"
    by (simp add: gc_example_def)
  have ss: "slabs gc_example = [\<lparr>slab_next = FE_SLAB_NULL, slab_data = ''hi'' @ replicate 58 (CHR 0x00)\<rparr>,
      \<lparr>slab_next = FE_SLAB_NULL, slab_data = replicate 60 (CHR 0x00)\<rparr>]"
    by (simp add: gc_example_def)
  have "free_chain (objects gc_example) (freelist gc_example) [3]"
    by (simp add: os) (simp add: gc_example_def)
  moreover have "slab_inv {} [] gc_example [1] [[], [0], [], []]"
    by (auto simp: slab_inv_def os ss is_data_def data_ok_def pair_cell_def FE_SLAB_SIZE_def
        FE_SLAB_DATA_SIZE_def less_Suc_eq numeral_eq_Suc)
      (simp_all add: gc_example_def)
  moreover have "\<forall>o' \<in> set (objects gc_example). gc_ok o' \<and> \<not> mark o'"
    by (simp add: os gc_ok_def pair_cell_def)
  moreover have "wf_slabs (slabs gc_example)" by (simp add: ss wf_slabs_def FE_SLAB_DATA_SIZE_def)
  moreover have "wf_spans gc_example" by (simp add: gc_example_def wf_spans_def zeroed_context_def)
  ultimately show ?thesis unfolding heap_inv_def by blast
qed

lemma gc_example_reach: "kept gc_example 1" "\<not> kept gc_example 2"
proof -
  have os: "objects gc_example = [pair_cell (Ref 1) Nil,
      \<lparr>ocar = VObj (Fixnum 2), ocdr = VU32 0, ty = FE_TSTRING, mark = False\<rparr>,
      pair_cell (Fixnum 1) Nil, \<lparr>ocar = VNone, ocdr = VObj Nil, ty = FE_TFREE, mark = False\<rparr>]"
    by (simp add: gc_example_def)
  have r: "roots gc_example = {Ref 0, Nil}"
    by (simp add: roots_def gc_roots_def gc_example_def zeroed_context_def is_fixnum_def)
  have e: "edge (objects gc_example) 0 1" by (simp add: edge_def os kids_def pair_cell_def)
  then show "kept gc_example 1"
    unfolding kept_def reach_def r by (auto simp: os intro!: r_into_rtranclp)
  have "(edge (objects gc_example))\<^sup>*\<^sup>* 0 j \<Longrightarrow> j < 2" for j
    by (induction rule: rtranclp_induct)
      (auto simp: edge_def kids_def os pair_cell_def less_Suc_eq numeral_eq_Suc)
  then show "\<not> kept gc_example 2" unfolding kept_def reach_def r by auto
qed

theorem gc_safe_and_precise_witness:
  "\<exists>c'. collectgarbage gc_example = (Inr (), c') \<and>
     obj_bytes c' (Ref 1) = obj_bytes gc_example (Ref 1) \<and> ty (objects c' ! 2) = FE_TFREE"
proof -
  have "is_data (objects gc_example ! 1)" "2 < length (objects gc_example)"
    by (simp_all add: gc_example_def is_data_def)
  with gc_safe_and_precise [OF gc_example_inv] gc_example_reach show ?thesis by blast
qed

end
