(* ===== verification/Fe_Alloc.thy ===== *)
theory Fe_Alloc
  imports Fe_GC
begin

text \<open>
  Allocation (\<^verbatim>\<open>fe.c\<close>): taking cells from the free list with the collection trigger, taking slabs,
  building chains for string data, and the constructors. Every constructor keeps the heap well
  formed and every reachable object unchanged, whether or not a collection runs inside it.
\<close>

section \<open>Definitions\<close>

definition object :: "ptr fcomp" where
  "object =
     bnd (gets (\<lambda>c. allocs_since_gc c \<ge> gc_threshold c \<or> bytes_since_gc c \<ge> byte_threshold c \<or>
        isnil (freelist c))) (\<lambda>trigger.
     sq (if trigger then sq collectgarbage (bnd (gets freelist) (\<lambda>f.
           if isnil f then fe_error ''out of memory'' else ret ()))
         else ret ())
     (bnd (gets freelist) (\<lambda>obj. bnd (cdr obj) (\<lambda>next.
        sq (modify (\<lambda>c. c\<lparr>freelist := next, allocs_since_gc := allocs_since_gc c + 1,
          object_allocations_total := object_allocations_total c + 1\<rparr>))
        (sq (fe_pushgc obj) (ret obj))))))"

definition fe_cons :: "ptr \<Rightarrow> ptr \<Rightarrow> ptr fcomp" where
  "fe_cons a d = bnd object (\<lambda>obj.
     sq (upd_cell obj (\<lambda>o'. o'\<lparr>ty := FE_TPAIR, mark := False, ocar := VObj a, ocdr := VObj d\<rparr>)) (ret obj))"

definition fe_number :: "fe_Number \<Rightarrow> ptr fcomp" where
  "fe_number n = bnd object (\<lambda>obj.
     sq (upd_cell obj (\<lambda>o'. o'\<lparr>ty := FE_TNUMBER, mark := False, ocdr := VNum n\<rparr>)) (ret obj))"

definition fe_cfunc :: "nat \<Rightarrow> ptr fcomp" where
  "fe_cfunc f = bnd object (\<lambda>obj.
     sq (upd_cell obj (\<lambda>o'. o'\<lparr>ty := FE_TCFUNC, mark := False, ocdr := VFn f\<rparr>)) (ret obj))"

definition fe_ptr :: "nat \<Rightarrow> ptr fcomp" where
  "fe_ptr h = bnd object (\<lambda>obj.
     sq (upd_cell obj (\<lambda>o'. o'\<lparr>ty := FE_TPTR, mark := False, ocdr := VHost h\<rparr>)) (ret obj))"

text \<open>Lists are built from the back.\<close>

primrec fe_list_loop :: "ptr list \<Rightarrow> ptr \<Rightarrow> ptr fcomp" where
  "fe_list_loop [] res = ret res"
| "fe_list_loop (x # xs) res = bnd (fe_cons x res) (fe_list_loop xs)"

definition fe_list :: "ptr list \<Rightarrow> ptr fcomp" where
  "fe_list objs = fe_list_loop (rev objs) Nil"

text \<open>
  \<^verbatim>\<open>fe_make_number\<close>: an integral double in the fixnum range becomes an immediate. The cast to
  \<^verbatim>\<open>intptr_t\<close> is undefined outside its range; the model follows the hardware, where the result
  never equals the operand, and boxes the number.
\<close>

definition fe_make_number :: "fe_Number \<Rightarrow> ptr fcomp" where
  "fe_make_number v = (case num_to_intptr v of
      Some i \<Rightarrow> if num_eq v (num_of_int i) \<and> fixnum_range i then ret (Fixnum i) else fe_number v
    | None \<Rightarrow> fe_number v)"

definition upd_slab :: "u32 \<Rightarrow> (fe_Slab \<Rightarrow> fe_Slab) \<Rightarrow> unit fcomp" where
  "upd_slab off f = bnd (slab_lookup off) (\<lambda>slab.
     modify (\<lambda>c. c\<lparr>slabs := (slabs c)[unat off div FE_SLAB_SIZE := f slab]\<rparr>))"

definition str_slab_alloc :: "u32 fcomp" where
  "str_slab_alloc =
     bnd (gets str_freelist) (\<lambda>f.
     sq (if f = FE_SLAB_NULL then sq collectgarbage (bnd (gets str_freelist) (\<lambda>f.
           if f = FE_SLAB_NULL then fe_error ''out of memory (string slab)'' else ret ()))
         else ret ())
     (bnd (gets str_freelist) (\<lambda>offset. bnd (slab_lookup offset) (\<lambda>slab.
        sq (modify (\<lambda>c. c\<lparr>str_freelist := slab_next slab\<rparr>)) (ret offset)))))"

text \<open>The copy loop of \<^verbatim>\<open>str_alloc\<close>; \<open>src\<close> is \<open>None\<close> for a NULL source, which fills with one
  character. The result is the number of bytes allocated.\<close>

function str_fill :: "string option \<Rightarrow> char \<Rightarrow> nat \<Rightarrow> u32 \<Rightarrow> nat \<Rightarrow> nat fcomp" where
  "str_fill src fill_char remaining cur bytes =
     (if remaining = 0 then ret bytes
      else let to_copy = chunk remaining;
               new = (case src of Some s \<Rightarrow> take to_copy s | None \<Rightarrow> replicate to_copy fill_char)
           in sq (upd_slab cur (\<lambda>s. s\<lparr>slab_data := new @ drop to_copy (slab_data s)\<rparr>))
              (if remaining - to_copy > 0 then
                 bnd str_slab_alloc (\<lambda>next_offset.
                 sq (upd_slab cur (\<lambda>s. s\<lparr>slab_next := next_offset\<rparr>))
                 (str_fill (map_option (drop to_copy) src) fill_char (remaining - to_copy) next_offset
                    (bytes + FE_SLAB_SIZE)))
               else sq (upd_slab cur (\<lambda>s. s\<lparr>slab_next := FE_SLAB_NULL\<rparr>)) (ret bytes)))"
  by pat_completeness auto
termination by (relation "measure (\<lambda>(s, f, r, c, b). r)") auto

declare str_fill.simps [simp del]

definition str_alloc :: "string option \<Rightarrow> nat \<Rightarrow> char \<Rightarrow> u32 fcomp" where
  "str_alloc src len fill_char =
     (if len = 0 then ret FE_SLAB_NULL
      else bnd str_slab_alloc (\<lambda>head_offset.
        bnd (str_fill src fill_char len head_offset FE_SLAB_SIZE) (\<lambda>bytes.
        sq (modify (\<lambda>c. c\<lparr>bytes_since_gc := bytes_since_gc c + of_nat bytes\<rparr>)) (ret head_offset))))"

definition make_data_obj :: "fe_tag \<Rightarrow> string option \<Rightarrow> nat \<Rightarrow> char \<Rightarrow> ptr fcomp" where
  "make_data_obj type_tag src len fill_char = bnd object (\<lambda>o'.
     sq (settype o' type_tag) (sq (set_car o' (Fixnum (int len)))
     (bnd (str_alloc src len fill_char) (\<lambda>off.
     sq (upd_cell o' (\<lambda>x. x\<lparr>ocdr := VU32 off\<rparr>)) (ret o')))))"

definition fe_string :: "string \<Rightarrow> ptr fcomp" where
  "fe_string str = make_data_obj FE_TSTRING (Some str) (length str) (CHR 0x00)"

definition fe_string_raw :: "nat \<Rightarrow> char \<Rightarrow> ptr fcomp" where
  "fe_string_raw len fill_char = make_data_obj FE_TSTRING None len fill_char"

definition fe_bytes :: "string \<Rightarrow> ptr fcomp" where
  "fe_bytes data = make_data_obj FE_TBYTES (Some data) (length data) (CHR 0x00)"

definition fe_bytes_raw :: "nat \<Rightarrow> char \<Rightarrow> ptr fcomp" where
  "fe_bytes_raw len fill_byte = make_data_obj FE_TBYTES None len fill_byte"

section \<open>How the heap evolves\<close>

text \<open>
  From one state to a later one every kept cell stays, unchanged, and keeps its bytes. The relation
  is reflexive and transitive, so it passes through sequences of allocations.
\<close>

definition evo :: "nat set \<Rightarrow> nat list \<Rightarrow> fe_Context \<Rightarrow> fe_Context \<Rightarrow> bool" where
  "evo X P c c' \<longleftrightarrow> length (objects c') = length (objects c) \<and> length (slabs c') = length (slabs c) \<and>
     (\<forall>j. kept c j \<longrightarrow> kept c' j \<and> objects c' ! j = objects c ! j \<and>
        (is_data (objects c ! j) \<and> j \<notin> X \<longrightarrow> obj_bytes c' (Ref j) = obj_bytes c (Ref j))) \<and>
     (\<forall>i \<in> set P. slabs c' ! i = slabs c ! i)"

lemma evo_refl: "evo X P c c"
  by (simp add: evo_def)

lemma evo_trans: "evo X P c c1 \<Longrightarrow> evo X P c1 c2 \<Longrightarrow> evo X P c c2"
  unfolding evo_def by (metis (no_types, lifting))

interpretation evo_order: state_order "evo X P" for X P
  by unfold_locales (blast intro: evo_refl evo_trans)+

text \<open>A path from the roots survives when the cells on it do and the roots are still roots.\<close>

lemma kept_path:
  assumes "length (objects c') = length (objects c)" and "roots c \<subseteq> roots c'"
    and "\<And>j. kept c j \<Longrightarrow> objects c' ! j = objects c ! j"
  shows "kept c j \<Longrightarrow> kept c' j"
proof -
  have step: "edge (objects c') i j" if "edge (objects c) i j" "kept c i" for i j
    using that assms(1,3) by (simp add: edge_def kept_def)
  have src: "kept c i" if "i \<in> reach (objects c) (roots c)" "edge (objects c) i j" for i j
    using that by (auto simp: kept_def edge_def kids_def)
  have path: "(edge (objects c'))\<^sup>*\<^sup>* i j" if "(edge (objects c))\<^sup>*\<^sup>* i j" "Ref i \<in> roots c" "i < length (objects c)" for i j
    using that
  proof (induction rule: rtranclp_induct)
    case (step y z)
    then have "y \<in> reach (objects c) (roots c)" by (auto simp: reach_def)
    with step src have "edge (objects c') y z" using \<open>\<And>i j. edge (objects c) i j \<Longrightarrow> kept c i \<Longrightarrow> edge (objects c') i j\<close> by blast
    with step show ?case by auto
  qed simp
  assume k: "kept c j"
  then obtain i where "Ref i \<in> roots c" "i < length (objects c)" "(edge (objects c))\<^sup>*\<^sup>* i j"
    by (auto simp: kept_def reach_def)
  then have "j \<in> reach (objects c') (roots c')"
    using path assms(1,2) by (auto simp: reach_def)
  with k assms(1,3) show "kept c' j" by (simp add: kept_def)
qed

lemma gc_post_evo:
  assumes "gc_post X P c c'"
  shows "evo X P c c'"
proof -
  have "roots c' = roots c" using assms by (simp add: gc_post_def rest_def roots_def gc_roots_def)
  then have "kept c j \<Longrightarrow> kept c' j" for j
    using assms by (intro kept_path [of c' c]) (auto simp: gc_post_def)
  with assms show ?thesis by (simp add: gc_post_def evo_def)
qed

text \<open>An error of an allocation is \<^verbatim>\<open>fe_error\<close>, and the heap is well formed then, too.\<close>

definition alloc_err :: "nat set \<Rightarrow> nat list \<Rightarrow> fe_err \<Rightarrow> fe_Context \<Rightarrow> bool" where
  "alloc_err X P e c' \<longleftrightarrow> (\<exists>msg cl. e = FeError msg cl) \<and> heap_inv X P c'"

lemma heap_inv_more: 
  assumes "heap_inv X P c" and m: "limit_ctx.more c' = limit_ctx.more c"
  shows "heap_inv X P c'"
  using assms(1) more_fields [OF m] by (intro heap_inv_cong [OF assms(1)]) (simp_all add: heap_inv_def wf_spans_def)

lemma wp_fe_error:
  assumes "heap_inv X P c"
  shows "wp (fe_error msg) Q (alloc_err X P) c"
proof -
  have "heap_inv X P (fe_error_reset c)" by (rule heap_inv_more [OF assms]) simp
  then show ?thesis by (simp add: wp_def fe_error_def alloc_err_def)
qed

lemma wp_collectgarbage:
  assumes "heap_inv X P c" and "X \<subseteq> {i. kept c i}"
    and "\<And>c'. gc_post X P c c' \<Longrightarrow> Q () c'"
  shows "wp collectgarbage Q E c"
proof -
  from assms(2) have "X \<subseteq> reach (objects c) (roots c)" by (auto simp: kept_def)
  from collectgarbage_run [OF assms(1) this] obtain c' where
    "collectgarbage c = (Inr (), c')" "gc_post X P c c'" by blast
  with assms(3) show ?thesis by (simp add: wp_def)
qed

section \<open>Taking a cell\<close>

lemma free_chain_det: "free_chain os p is \<Longrightarrow> free_chain os p js \<Longrightarrow> is = js"
proof (induction "is" arbitrary: p js)
  case Nil
  then show ?case by (cases js) simp_all
next
  case (Cons i "is")
  then obtain j js' where "js = j # js'" by (cases js) auto
  with Cons show ?case by (auto split: val.splits)
qed

lemma free_chain_suffix:
  "free_chain os p is \<Longrightarrow> i \<in> set is \<Longrightarrow> \<exists>js. free_chain os (Ref i) js \<and> length js \<le> length is"
proof (induction "is" arbitrary: p)
  case (Cons k "is")
  show ?case
  proof (cases "i = k")
    case True
    with Cons.prems show ?thesis by (intro exI [of _ "k # is"]) auto
  next
    case False
    with Cons.prems obtain d where "free_chain os d is" "i \<in> set is" by (auto split: val.splits)
    from Cons.IH [OF this] show ?thesis by auto
  qed
qed simp

lemma free_chain_Cons_fresh:
  assumes "free_chain os p (i # is)"
  shows "i \<notin> set is"
proof
  assume "i \<in> set is"
  moreover from assms obtain d where "p = Ref i" "free_chain os d is" by (auto split: val.splits)
  ultimately obtain js where "free_chain os p js" "length js \<le> length is"
    using free_chain_suffix by blast
  with free_chain_det [OF assms, of js] show False by auto
qed

definition fresh :: "fe_Context \<Rightarrow> nat \<Rightarrow> fe_Context \<Rightarrow> bool" where
  "fresh c i c' \<longleftrightarrow> i < length (objects c') \<and> ty (objects c' ! i) = FE_TFREE \<and>
     (\<exists>d. ocdr (objects c' ! i) = VObj d) \<and>
     (\<exists>fs. free_chain (objects c') (freelist c') fs \<and> i \<notin> set fs) \<and>
     rest c' = rest (c\<lparr>gcstack := gcstack c @ [Ref i]\<rparr>)"

lemma fresh_not_kept: "fresh c i c' \<Longrightarrow> evo X P c c' \<Longrightarrow> \<not> kept c i"
  by (metis evo_def fresh_def kept_def)

lemma evo_same:
  assumes "objects c' = objects c" and "slabs c' = slabs c" and "roots c \<subseteq> roots c'"
  shows "evo X P c c'"
proof -
  have "kept c j \<Longrightarrow> kept c' j" for j
    by (rule kept_path [of c' c]) (use assms in simp_all)
  then show ?thesis using obj_bytes_fields [OF assms(1,2)] assms by (simp add: evo_def)
qed

lemma roots_push: "roots (c\<lparr>gcstack := gcstack c @ [p]\<rparr>) = (if is_fixnum p \<or> p = Nil then roots c else insert p (roots c))"
  by (auto simp: roots_def gc_roots_def)

lemma roots_rest: "rest c' = rest c \<Longrightarrow> roots c' = roots c"
  by (simp add: roots_def gc_roots_def rest_def)

lemma wp_pushgc:
  assumes "heap_inv X P c" and "\<And>c'. c' = c\<lparr>gcstack := gcstack c @ [Ref i]\<rparr> \<Longrightarrow> Q () c'"
  shows "wp (fe_pushgc (Ref i)) Q (alloc_err X P) c"
  using assms by (simp add: fe_pushgc_def is_immediate_def wp_simps wp_fe_error)

lemma wp_take_cell:
  assumes inv: "heap_inv X P c" and ne: "freelist c \<noteq> Nil"
  shows "wp (bnd (gets freelist) (\<lambda>obj. bnd (cdr obj) (\<lambda>next.
        sq (modify (\<lambda>c. c\<lparr>freelist := next, allocs_since_gc := allocs_since_gc c + 1,
          object_allocations_total := object_allocations_total c + 1\<rparr>))
        (sq (fe_pushgc obj) (ret obj)))))
     (\<lambda>p c'. \<exists>i. p = Ref i \<and> heap_inv X P c' \<and> evo X P c c' \<and> fresh c i c') (alloc_err X P) c"
proof -
  from inv obtain fs0 where "free_chain (objects c) (freelist c) fs0" by (auto simp: heap_inv_def)
  with ne obtain i fs d where fc: "free_chain (objects c) (freelist c) (i # fs)"
    and i: "freelist c = Ref i" "i < length (objects c)" "ty (objects c ! i) = FE_TFREE"
      "ocdr (objects c ! i) = VObj d" "free_chain (objects c) d fs"
    by (cases fs0) (auto split: val.splits)
  let ?c1 = "c\<lparr>freelist := d, allocs_since_gc := allocs_since_gc c + 1,
          object_allocations_total := object_allocations_total c + 1\<rparr>"
  have inv1: "heap_inv X P ?c1"
    using inv by (rule heap_invE) (rule heap_invI, use i(5) slab_inv_fields [of ?c1 c] in \<open>auto simp: wf_spans_def\<close>)
  let ?c2 = "?c1\<lparr>gcstack := gcstack ?c1 @ [Ref i]\<rparr>"
  have "heap_inv X P ?c2" by (rule heap_inv_cong [OF inv1]) (use inv1 in \<open>simp_all add: heap_inv_def wf_spans_def\<close>)
  moreover have "evo X P c ?c2"
  proof (rule evo_same)
    have "roots ?c1 = roots c" by (rule roots_rest) (simp add: rest_def)
    then show "roots c \<subseteq> roots ?c2" by (simp only: roots_push) (simp add: is_fixnum_def, blast)
  qed simp_all
  moreover have "fresh c i ?c2"
    using i free_chain_Cons_fresh [OF fc] by (auto simp: fresh_def rest_def)
  ultimately show ?thesis
    using cdr_Ref [OF i(2,4)]
    by (auto simp: wp_simps i(1) wp_Inr intro!: wp_pushgc [OF inv1])
qed

lemma wp_object:
  assumes inv: "heap_inv X P c" and X: "X \<subseteq> {i. kept c i}"
  shows "wp object (\<lambda>p c'. \<exists>i. p = Ref i \<and> heap_inv X P c' \<and> evo X P c c' \<and> fresh c i c') (alloc_err X P) c"
proof -
  have tail: "wp (bnd (gets freelist) (\<lambda>obj. bnd (cdr obj) (\<lambda>next.
        sq (modify (\<lambda>c. c\<lparr>freelist := next, allocs_since_gc := allocs_since_gc c + 1,
          object_allocations_total := object_allocations_total c + 1\<rparr>))
        (sq (fe_pushgc obj) (ret obj)))))
     (\<lambda>p c'. \<exists>i. p = Ref i \<and> heap_inv X P c' \<and> evo X P c c' \<and> fresh c i c') (alloc_err X P) c1"
    if g: "gc_post X P c c1" "freelist c1 \<noteq> Nil" for c1
  proof (rule wp_mono [OF wp_take_cell])
    show "heap_inv X P c1" "freelist c1 \<noteq> Nil" using g by (simp_all add: gc_post_def)
    fix p c' assume "\<exists>i. p = Ref i \<and> heap_inv X P c' \<and> evo X P c1 c' \<and> fresh c1 i c'"
    then show "\<exists>i. p = Ref i \<and> heap_inv X P c' \<and> evo X P c c' \<and> fresh c i c'"
      using evo_trans [OF gc_post_evo [OF g(1)]] g(1) by (auto simp: fresh_def gc_post_def rest_def)
  qed
  show ?thesis
  proof (cases "allocs_since_gc c \<ge> gc_threshold c \<or> bytes_since_gc c \<ge> byte_threshold c \<or> isnil (freelist c)")
    case True
    show ?thesis
      unfolding object_def wp_bnd wp_gets
      by (subst if_P [OF True]) (auto simp: wp_sq wp_bnd wp_gets isnil_def wp_if wp_ret gc_post_def wp_fe_error
          intro!: wp_collectgarbage [OF inv X] tail [unfolded wp_bnd wp_gets])
  next
    case False
    then show ?thesis
      using wp_take_cell [OF inv] unfolding object_def wp_bnd wp_gets
      by (simp add: wp_sq wp_ret isnil_def wp_bnd wp_gets)
  qed
qed

section \<open>Initialising a cell\<close>

text \<open>What a constructor returns: a new cell \<open>i\<close> that satisfies \<open>Q\<close>, rooted by the GC stack, and a heap
  that has otherwise only evolved.\<close>

definition built ::
  "nat set \<Rightarrow> nat list \<Rightarrow> fe_Context \<Rightarrow> nat \<Rightarrow> (fe_Object \<Rightarrow> bool) \<Rightarrow> fe_Context \<Rightarrow> bool" where
  "built X P c i Q c' \<longleftrightarrow> heap_inv X P c' \<and> evo X P c c' \<and> \<not> kept c i \<and> kept c' i \<and> Q (objects c' ! i) \<and>
     rest c' = rest (c\<lparr>gcstack := gcstack c @ [Ref i]\<rparr>)"

lemma fresh_roots:
  assumes "rest c' = rest (c\<lparr>gcstack := gcstack c @ [Ref i]\<rparr>)"
  shows "roots c' = insert (Ref i) (roots c)"
  using roots_rest [OF assms] by (simp add: roots_push is_fixnum_def)

lemma fresh_init:
  assumes inv: "heap_inv X P c1" and f: "fresh c i c1" and e: "evo X P c c1"
    and o': "gc_ok o'" "\<not> mark o'" "ty o' \<noteq> FE_TFREE"
    and X': "X' = (if is_data o' then insert i X else X)"
    and c2: "c2 = c1\<lparr>objects := (objects c1)[i := o']\<rparr>"
  shows "built X' P c i (\<lambda>x. x = o') c2"
proof -
  have i: "i < length (objects c1)" using f by (simp add: fresh_def)
  have nk: "\<not> kept c i" using fresh_not_kept [OF f e] .
  have r: "rest c2 = rest (c\<lparr>gcstack := gcstack c @ [Ref i]\<rparr>)" using f c2 by (simp add: fresh_def rest_def)
  note roots = fresh_roots [OF r]
  have same: "objects c2 ! j = objects c ! j" if "kept c j" for j
    using that e nk c2 by (cases "j = i") (auto simp: evo_def)
  have len: "length (objects c2) = length (objects c)" using e c2 by (simp add: evo_def)
  have k: "kept c2 j" if "kept c j" for j
    by (rule kept_path [OF len _ same that]) (use roots in auto)
  have bytes: "obj_bytes c2 (Ref j) = obj_bytes c1 (Ref j)" if "kept c j" for j
  proof -
    from that nk have "j \<noteq> i" by blast
    with c2 show ?thesis by (auto simp: obj_bytes_def split: val.split ptr.split)
  qed
  have "X \<subseteq> X'" using X' by auto
  then have "evo X' P c c2"
    using e k same len bytes c2 by (auto simp: evo_def)
  moreover have "kept c2 i"
    using roots i o'(3) c2 by (auto simp: kept_def reach_def)
  moreover have "heap_inv X' P c2"
  proof -
    from inv obtain fl chs where s: "slab_inv X P c1 fl chs" and w: "wf_slabs (slabs c1)" "wf_spans c1"
      and g: "\<forall>o' \<in> set (objects c1). gc_ok o' \<and> (ty o' \<noteq> FE_TFREE \<longrightarrow> \<not> mark o')"
      by (blast elim: heap_invE)
    from f obtain fs where fs: "free_chain (objects c1) (freelist c1) fs" "i \<notin> set fs" by (auto simp: fresh_def)
    show ?thesis
    proof (rule heap_invI)
      show "free_chain (objects c2) (freelist c2) fs"
        unfolding c2 by simp (rule free_chain_cong [OF fs(1)], use fs(2) in \<open>auto simp: nth_update_notin\<close>)
      have chs: "chs ! i = []" using s i f by (simp add: slab_inv_def fresh_def is_data_def)
      have cell: "if is_data (objects c2 ! j) \<and> j \<notin> X' then data_ok (slabs c2) (objects c2 ! j) (chs ! j)
          else chs ! j = []" if "j < length (objects c1)" for j
      proof (cases "j = i")
        case True
        then have "objects c2 ! j = o'" using c2 i by simp
        with True chs X' show ?thesis by (cases "is_data o'") simp_all
      next
        case False
        then have "objects c2 ! j = objects c1 ! j" "j \<in> X' \<longleftrightarrow> j \<in> X" "slabs c2 = slabs c1" using c2 X' by simp_all
        with s that show ?thesis unfolding slab_inv_def by presburger
      qed
      show "slab_inv X' P c2 fl chs"
        unfolding slab_inv_def
      proof (intro conjI allI impI)
        show "length chs = length (objects c2)" "slab_chain (slabs c2) (str_freelist c2) fl"
          "distinct (fl @ P @ concat chs)" using s unfolding slab_inv_def c2 by simp_all
      qed (rule cell, simp add: c2)
      show "\<forall>x \<in> set (objects c2). gc_ok x \<and> (ty x \<noteq> FE_TFREE \<longrightarrow> \<not> mark x)"
        using set_update_subset_insert [of "objects c1" i o'] g o' unfolding c2 by auto
    qed (use w c2 in \<open>simp_all add: wf_spans_def\<close>)
  qed
  ultimately show ?thesis using nk r i c2 by (simp add: built_def)
qed

lemma wp_upd_cell:
  "i < length (objects c) \<Longrightarrow>
   wp (upd_cell (Ref i) f) Q E c = Q () (c\<lparr>objects := (objects c)[i := f (objects c ! i)]\<rparr>)"
  by (simp add: wp_def upd_cell_def)

text \<open>A constructor that writes a cell of a type without slabs.\<close>

lemma wp_new_cell:
  assumes inv: "heap_inv X P c" "X \<subseteq> {i. kept c i}"
    and f: "\<And>o'. (\<exists>d. ocdr o' = VObj d) \<Longrightarrow>
      gc_ok (f o') \<and> \<not> mark (f o') \<and> ty (f o') \<noteq> FE_TFREE \<and> \<not> is_data (f o') \<and> Q (f o')"
  shows "wp (bnd object (\<lambda>obj. sq (upd_cell obj f) (ret obj)))
    (\<lambda>p c'. \<exists>i. p = Ref i \<and> built X P c i Q c') (alloc_err X P) c"
  unfolding wp_bnd
proof (rule wp_mono [OF wp_object [OF inv]], clarify)
  fix p c1 i
  assume h: "heap_inv X P c1" "evo X P c c1" "fresh c i c1"
  let ?o = "f (objects c1 ! i)"
  have o': "gc_ok ?o \<and> \<not> mark ?o \<and> ty ?o \<noteq> FE_TFREE \<and> \<not> is_data ?o \<and> Q ?o"
    using h(3) by (intro f) (simp add: fresh_def)
  have "built X P c i (\<lambda>x. x = ?o) (c1\<lparr>objects := (objects c1)[i := ?o]\<rparr>)"
    by (rule fresh_init [OF h(1,3,2)]) (use o' in simp_all)
  then show "wp (sq (upd_cell (Ref i) f) (ret (Ref i)))
      (\<lambda>p c'. \<exists>i. p = Ref i \<and> built X P c i Q c') (alloc_err X P) c1"
    using h(3) o' by (auto simp: wp_simps wp_upd_cell fresh_def built_def)
qed

lemma wp_fe_cons:
  assumes "heap_inv X P c" "X \<subseteq> {i. kept c i}"
  shows "wp (fe_cons a d) (\<lambda>p c'. \<exists>i. p = Ref i \<and> built X P c i (\<lambda>o'. o' = pair_cell a d) c') (alloc_err X P) c"
  unfolding fe_cons_def by (rule wp_new_cell [OF assms]) (simp add: gc_ok_def is_data_def pair_cell_def)

lemma wp_fe_number:
  assumes "heap_inv X P c" "X \<subseteq> {i. kept c i}"
  shows "wp (fe_number n) (\<lambda>p c'. \<exists>i. p = Ref i \<and> built X P c i (\<lambda>o'. ty o' = FE_TNUMBER \<and> ocdr o' = VNum n) c')
    (alloc_err X P) c"
  unfolding fe_number_def by (rule wp_new_cell [OF assms]) (simp add: gc_ok_def is_data_def)

lemma num_eq_of_int:
  assumes "num_to_intptr v = Some i" and "num_eq v (num_of_int i)"
  shows "num_of_int i = (if v = NegZero then Fin 0 else v)"
proof -
  have 0: "num_of_int 0 = Fin 0" by (simp add: num_of_int_def round_num_def)
  show ?thesis
  proof (cases v)
    case NegZero
    with assms 0 show ?thesis by simp
  next
    case (Fin r)
    with assms have "num_of_int i = Fin r \<or> num_of_int i = NegZero \<and> r = 0"
      by (cases "num_of_int i") simp_all
    moreover have "i = 0" if "r = 0"
      using assms(1) Fin that by (simp add: trunc_rat_def)
    ultimately show ?thesis using Fin 0 by auto
  qed (use assms in simp_all)
qed

section \<open>Building a chain of slabs\<close>

lemma heap_inv_bound:
  assumes "heap_inv X (P @ [k]) c" and "k < length (slabs c)"
  shows "k \<notin> set P"
  using assms by (auto simp: heap_inv_def slab_inv_def)

lemma slab_inv_slabs:
  assumes s: "slab_inv X P c fl chs" and o': "objects c1 = objects c"
    and "slab_chain (slabs c1) (str_freelist c1) fl"
    and d: "\<And>j. data_ok (slabs c) (objects c ! j) (chs ! j) \<Longrightarrow> j < length (objects c) \<Longrightarrow>
      data_ok (slabs c1) (objects c ! j) (chs ! j)"
  shows "slab_inv X P c1 fl chs"
proof -
  have "if is_data (objects c ! j) \<and> j \<notin> X then data_ok (slabs c1) (objects c ! j) (chs ! j) else chs ! j = []"
    if "j < length (objects c)" for j
    using s that d [OF _ that] unfolding slab_inv_def by presburger
  with s assms(3) show ?thesis unfolding slab_inv_def o' by blast
qed

text \<open>Writing to a slab under construction leaves every chain alone.\<close>

lemma pending_write:
  assumes inv: "heap_inv X P c" and k: "k \<in> set P"
    and s': "length (slab_data s') = FE_SLAB_DATA_SIZE"
    and c1: "c1 = c\<lparr>slabs := (slabs c)[k := s']\<rparr>"
  shows "heap_inv X P c1"
    and "\<And>j. kept c j \<Longrightarrow> kept c1 j \<and> objects c1 ! j = objects c ! j \<and>
        (is_data (objects c ! j) \<and> j \<notin> X \<longrightarrow> obj_bytes c1 (Ref j) = obj_bytes c (Ref j))"
proof -
  from inv obtain fs fl chs where s: "slab_inv X P c fl chs" and w: "wf_slabs (slabs c)" "wf_spans c"
    and g: "\<forall>o' \<in> set (objects c). gc_ok o' \<and> (ty o' \<noteq> FE_TFREE \<longrightarrow> \<not> mark o')"
    and fc: "free_chain (objects c) (freelist c) fs" by (blast elim: heap_invE)
  have out: "i \<in> set fl \<or> (\<exists>ch \<in> set chs. i \<in> set ch) \<Longrightarrow> slabs c1 ! i = slabs c ! i" for i
    using s k c1 by (cases "i = k") (auto simp: slab_inv_def)
  have w1: "wf_slabs (slabs c1)"
    using w(1) s' set_update_subset_insert [of "slabs c" k s'] unfolding c1 wf_slabs_def by auto
  have ch: "chs ! j \<in> set chs" if "j < length (objects c)" for j
    using that s by (simp add: slab_inv_def)
  show "heap_inv X P c1"
  proof (rule heap_invI)
    from s have "slab_chain (slabs c) (str_freelist c) fl" by (simp add: slab_inv_def)
    then have "slab_chain (slabs c1) (str_freelist c) fl" by (rule slab_chain_cong) (use c1 out in auto)
    then have "slab_chain (slabs c1) (str_freelist c1) fl" using c1 by simp
    moreover have "data_ok (slabs c1) (objects c ! j) (chs ! j)"
      if "data_ok (slabs c) (objects c ! j) (chs ! j)" "j < length (objects c)" for j
      using that(1) by (rule data_ok_cong) (use c1 out ch [OF that(2)] in auto)
    ultimately show "slab_inv X P c1 fl chs" using c1 by (intro slab_inv_slabs [OF s]) simp_all
  qed (use g fc w w1 c1 in \<open>simp_all add: wf_spans_def\<close>)
  fix j assume j: "kept c j"
  have "kept c1 j" using j c1 by (simp add: kept_def roots_def gc_roots_def)
  moreover have "obj_bytes c1 (Ref j) = obj_bytes c (Ref j)" if d: "is_data (objects c ! j)" "j \<notin> X"
  proof (rule obj_bytes_cong [of c j "chs ! j" c1])
    show l: "j < length (objects c)" using j by (simp add: kept_def)
    show "data_ok (slabs c) (objects c ! j) (chs ! j)" by (rule slab_invD [OF s l d])
    show "slabs c1 ! i = slabs c ! i" if "i \<in> set (chs ! j)" for i using that out ch [OF l] by blast
  qed (use w w1 c1 in simp_all)
  ultimately show "kept c1 j \<and> objects c1 ! j = objects c ! j \<and>
        (is_data (objects c ! j) \<and> j \<notin> X \<longrightarrow> obj_bytes c1 (Ref j) = obj_bytes c (Ref j))"
    using c1 by simp
qed

lemma evo_write:
  assumes "heap_inv X (P @ k # Q) c" and "length (slab_data s') = FE_SLAB_DATA_SIZE"
  shows "evo X P c (c\<lparr>slabs := (slabs c)[k := s']\<rparr>)"
proof -
  have "k \<notin> set P" using assms(1) by (auto simp: heap_inv_def slab_inv_def)
  then have "i \<in> set P \<Longrightarrow> (slabs c)[k := s'] ! i = slabs c ! i" for i by (cases "i = k") auto
  with pending_write(2) [OF assms(1) _ assms(2) refl] show ?thesis by (simp add: evo_def)
qed

lemma wp_upd_slab:
  assumes "unat off = FE_SLAB_SIZE * k" and "k < length (slabs c)"
  shows "wp (upd_slab off f) Q E c = Q () (c\<lparr>slabs := (slabs c)[k := f (slabs c ! k)]\<rparr>)"
  using slab_offset(2) [OF assms(1)] slab_offset(3) [OF assms]
  by (simp add: upd_slab_def slab_lookup_def or_crash_def wp_simps)

text \<open>Taking a slab from the free list: it becomes one of the pending slabs.\<close>

definition slab_taken :: "nat set \<Rightarrow> nat list \<Rightarrow> fe_Context \<Rightarrow> u32 \<Rightarrow> fe_Context \<Rightarrow> bool" where
  "slab_taken X P c off c' \<longleftrightarrow> (\<exists>k. unat off = FE_SLAB_SIZE * k \<and> k < length (slabs c') \<and>
     heap_inv X (P @ [k]) c' \<and> evo X P c c' \<and> rest c' = rest c)"

lemma wp_take_slab:
  assumes inv: "heap_inv X P c" and ne: "str_freelist c \<noteq> FE_SLAB_NULL"
  shows "wp (bnd (gets str_freelist) (\<lambda>offset. bnd (slab_lookup offset) (\<lambda>slab.
        sq (modify (\<lambda>c. c\<lparr>str_freelist := slab_next slab\<rparr>)) (ret offset))))
     (slab_taken X P c) E c"
proof -
  from inv obtain fs fl0 chs where s: "slab_inv X P c fl0 chs" and w: "wf_slabs (slabs c)" "wf_spans c"
    and g: "\<forall>o' \<in> set (objects c). gc_ok o' \<and> (ty o' \<noteq> FE_TFREE \<longrightarrow> \<not> mark o')"
    and fc: "free_chain (objects c) (freelist c) fs" by (blast elim: heap_invE)
  with ne obtain k fl where fl: "fl0 = k # fl" by (cases fl0) (auto simp: slab_inv_def)
  with s have k: "unat (str_freelist c) = FE_SLAB_SIZE * k" "k < length (slabs c)"
    "slab_chain (slabs c) (slab_next (slabs c ! k)) fl" by (auto simp: slab_inv_def)
  let ?c = "c\<lparr>str_freelist := slab_next (slabs c ! k)\<rparr>"
  have "heap_inv X (P @ [k]) ?c"
  proof (rule heap_invI)
    show "slab_inv X (P @ [k]) ?c fl chs" using s k(3) fl unfolding slab_inv_def by auto
  qed (use g fc w in \<open>simp_all add: wf_spans_def\<close>)
  moreover have "evo X P c ?c" by (rule evo_same) (simp_all add: roots_def gc_roots_def)
  ultimately show ?thesis
    using k slab_offset(3) [OF k(1,2)]
    by (auto simp: wp_simps slab_lookup_def or_crash_def slab_taken_def rest_def)
qed

lemma wp_str_slab_alloc:
  assumes inv: "heap_inv X P c" and X: "X \<subseteq> {i. kept c i}"
  shows "wp str_slab_alloc (slab_taken X P c) (alloc_err X P) c"
proof (cases "str_freelist c = FE_SLAB_NULL")
  case True
  have tail: "wp (bnd (gets str_freelist) (\<lambda>offset. bnd (slab_lookup offset) (\<lambda>slab.
        sq (modify (\<lambda>c. c\<lparr>str_freelist := slab_next slab\<rparr>)) (ret offset))))
     (slab_taken X P c) (alloc_err X P) c1" if "gc_post X P c c1" "str_freelist c1 \<noteq> FE_SLAB_NULL" for c1
  proof (rule wp_mono [OF wp_take_slab])
    show "heap_inv X P c1" "str_freelist c1 \<noteq> FE_SLAB_NULL" using that by (simp_all add: gc_post_def)
    fix off c' assume "slab_taken X P c1 off c'"
    then show "slab_taken X P c off c'"
      using evo_trans [OF gc_post_evo [OF that(1)]] that(1) by (auto simp: slab_taken_def gc_post_def)
  qed
  show ?thesis
    unfolding str_slab_alloc_def wp_bnd wp_gets wp_sq
    by (subst if_P [OF True])
      (auto simp: wp_sq wp_bnd wp_gets wp_if wp_ret wp_fe_error gc_post_def
        intro!: wp_collectgarbage [OF inv X] tail [unfolded wp_bnd wp_gets wp_sq])
next
  case False
  then show ?thesis
    using wp_take_slab [OF inv False] unfolding str_slab_alloc_def wp_bnd wp_gets wp_sq
    by (simp add: wp_sq wp_ret)
qed

lemma evo_weaken: "evo X P c c' \<Longrightarrow> set Q \<subseteq> set P \<Longrightarrow> evo X Q c c'"
  by (auto simp: evo_def)

lemma evo_kept: "evo X P c c' \<Longrightarrow> X \<subseteq> {i. kept c i} \<Longrightarrow> X \<subseteq> {i. kept c' i}"
  by (auto simp: evo_def)

text \<open>The bytes a source stands for.\<close>

definition src_data :: "string option \<Rightarrow> char \<Rightarrow> nat \<Rightarrow> string \<Rightarrow> bool" where
  "src_data src fill_char r bs \<longleftrightarrow> (case src of Some s \<Rightarrow> bs = take r s \<and> r \<le> length s | None \<Rightarrow> bs = replicate r fill_char)"

lemma src_data_length: "src_data src f r bs \<Longrightarrow> length bs = r"
  by (auto simp: src_data_def split: option.splits)

lemma src_data_chunk:
  assumes "src_data src f r bs" and "n \<le> r"
  shows "(case src of Some s \<Rightarrow> take n s | None \<Rightarrow> replicate n f) = take n bs"
    and "src_data (map_option (drop n) src) f (r - n) (drop n bs)"
  using assms by (auto simp: src_data_def drop_take min_def split: option.splits)

definition filled :: "nat set \<Rightarrow> nat list \<Rightarrow> fe_Context \<Rightarrow> u32 \<Rightarrow> nat \<Rightarrow> string \<Rightarrow> fe_Context \<Rightarrow> bool" where
  "filled X P c cur k bs c' \<longleftrightarrow> (\<exists>is. heap_inv X (P @ k # is) c' \<and> slab_chain (slabs c') cur (k # is) \<and>
     length bs \<le> FE_SLAB_DATA_SIZE * length (k # is) \<and> slab_bytes (slabs c') cur (length bs) = Some bs \<and>
     evo X P c c' \<and> rest c' = rest c)"

definition fill_err :: "nat set \<Rightarrow> fe_err \<Rightarrow> fe_Context \<Rightarrow> bool" where
  "fill_err X e c' \<longleftrightarrow> (\<exists>msg cl. e = FeError msg cl) \<and> (\<exists>P. heap_inv X P c')"

lemma slab_write_length:
  assumes "heap_inv X P c" and "k < length (slabs c)" and "length bs = n" and "n \<le> FE_SLAB_DATA_SIZE"
  shows "length (slab_data ((slabs c ! k)\<lparr>slab_data := bs @ drop n (slab_data (slabs c ! k))\<rparr>)) = FE_SLAB_DATA_SIZE"
  using assms by (simp add: heap_inv_def wf_slabs_def)

lemma slab_keep_length:
  "heap_inv X P c \<Longrightarrow> k < length (slabs c) \<Longrightarrow>
   length (slab_data ((slabs c ! k)\<lparr>slab_next := f\<rparr>)) = FE_SLAB_DATA_SIZE"
  by (simp add: heap_inv_def wf_slabs_def)

text \<open>The last slab: its bytes are written and the chain ends.\<close>

lemma filled_last:
  assumes inv: "heap_inv X (P @ [k]) c" and k: "unat cur = FE_SLAB_SIZE * k" "k < length (slabs c)"
    and bs: "0 < length bs" "length bs \<le> FE_SLAB_DATA_SIZE"
    and c': "c' = c\<lparr>slabs := (slabs c)[k := (slabs c ! k)\<lparr>slab_data := bs @ drop (length bs) (slab_data (slabs c ! k)),
      slab_next := FE_SLAB_NULL\<rparr>]\<rparr>"
  shows "filled X P c cur k bs c'"
proof -
  let ?s = "(slabs c ! k)\<lparr>slab_data := bs @ drop (length bs) (slab_data (slabs c ! k)), slab_next := FE_SLAB_NULL\<rparr>"
  have len: "length (slab_data ?s) = FE_SLAB_DATA_SIZE"
    using slab_write_length [OF inv k(2) refl bs(2)] by simp
  have "heap_inv X (P @ [k]) c'" using pending_write(1) [OF inv _ len c'] by simp
  moreover have "slab_chain (slabs c') cur [k]" using k c' by simp
  moreover have "slab_bytes (slabs c') cur (length bs) = Some bs"
    using slab_offset(1) [OF k(1)] slab_offset(3) [OF k(1), of "slabs c'"] k(2) bs c'
    by (subst slab_bytes.simps) (simp add: chunk_def)
  moreover have "evo X P c c'" unfolding c' by (rule evo_write [OF inv len])
  moreover have "rest c' = rest c" using c' by (simp add: rest_def)
  ultimately show ?thesis unfolding filled_def using bs(2) by (intro exI [of _ "[]"]) simp
qed

text \<open>A full slab in front of a chain that has been filled.\<close>

lemma filled_step:
  assumes e: "evo X P c c3" "rest c3 = rest c"
    and s3: "slabs c3 ! k = s'\<lparr>slab_next := off\<rparr>" "k < length (slabs c3)"
    and k: "unat cur = FE_SLAB_SIZE * k"
    and bs: "length bs > FE_SLAB_DATA_SIZE" "take FE_SLAB_DATA_SIZE (slab_data s') = take FE_SLAB_DATA_SIZE bs"
    and f: "filled X (P @ [k]) c3 off k2 (drop FE_SLAB_DATA_SIZE bs) c4"
  shows "filled X P c cur k bs c4"
proof -
  let ?n = FE_SLAB_DATA_SIZE
  from f obtain js where js: "heap_inv X ((P @ [k]) @ k2 # js) c4" "slab_chain (slabs c4) off (k2 # js)"
    "length (drop ?n bs) \<le> ?n * length (k2 # js)"
    "slab_bytes (slabs c4) off (length (drop ?n bs)) = Some (drop ?n bs)"
    "evo X (P @ [k]) c3 c4" "rest c4 = rest c3" by (auto simp: filled_def)
  have s4: "slabs c4 ! k = s'\<lparr>slab_next := off\<rparr>" "k < length (slabs c4)"
    using js(5) s3 by (simp_all add: evo_def)
  have "slab_chain (slabs c4) cur (k # k2 # js)" using k s4 js(2) by simp
  moreover have "slab_bytes (slabs c4) cur (length bs) = Some bs"
    using slab_offset(1) [OF k] slab_offset(3) [OF k s4(2)] s4(1) js(4) bs
    by (subst slab_bytes.simps) (simp add: chunk_def)
  moreover have "evo X P c c4" using evo_trans [OF e(1) evo_weaken [OF js(5)]] by auto
  moreover have "heap_inv X (P @ k # k2 # js) c4" using js(1) by simp
  moreover have "rest c4 = rest c" using js(6) e(2) by simp
  ultimately show ?thesis unfolding filled_def using js(3) bs(1) by (intro exI [of _ "k2 # js"]) simp
qed

lemma wp_str_fill:
  assumes "heap_inv X (P @ [k]) c" and "unat cur = FE_SLAB_SIZE * k" and "k < length (slabs c)"
    and "X \<subseteq> {i. kept c i}" and "src_data src f r bs" and "0 < r"
  shows "wp (str_fill src f r cur b) (\<lambda>_. filled X P c cur k bs) (fill_err X) c"
  using assms
proof (induction r arbitrary: P k c cur src bs b rule: less_induct)
  case (less r)
  note inv = less.prems(1) and k = less.prems(2,3) and X = less.prems(4)
  have lbs: "length bs = r" using less.prems(5) by (rule src_data_length)
  define n where "n = chunk r"
  have n: "n \<le> r" "0 < n" "n \<le> FE_SLAB_DATA_SIZE" using less.prems(6) chunk_le_data by (simp_all add: n_def)
  note sd = src_data_chunk [OF less.prems(5) n(1)]
  define s1 where "s1 = (slabs c ! k)\<lparr>slab_data := take n bs @ drop n (slab_data (slabs c ! k))\<rparr>"
  define c1 where "c1 = c\<lparr>slabs := (slabs c)[k := s1]\<rparr>"
  have l1: "length (slab_data s1) = FE_SLAB_DATA_SIZE"
    using slab_write_length [OF inv k(2) _ n(3), of "take n bs"] lbs n by (simp add: s1_def)
  have inv1: "heap_inv X (P @ [k]) c1" using pending_write(1) [OF inv _ l1 c1_def] by simp
  have e1: "evo X P c c1" unfolding c1_def by (rule evo_write [OF inv l1])
  have k1: "k < length (slabs c1)" "slabs c1 ! k = s1" using k(2) by (simp_all add: c1_def)
  have X1: "X \<subseteq> {i. kept c1 i}" by (rule evo_kept [OF e1 X])
  have step: "wp (str_fill src f r cur b) Q E c = wp (if r - n > 0 then
        bnd str_slab_alloc (\<lambda>next_offset. sq (upd_slab cur (\<lambda>s. s\<lparr>slab_next := next_offset\<rparr>))
          (str_fill (map_option (drop n) src) f (r - n) next_offset (b + FE_SLAB_SIZE)))
       else sq (upd_slab cur (\<lambda>s. s\<lparr>slab_next := FE_SLAB_NULL\<rparr>)) (ret b)) Q E c1" for Q E
    using less.prems(6) sd(1)
    by (subst str_fill.simps) (simp add: n_def [symmetric] Let_def wp_sq wp_upd_slab [OF k] c1_def s1_def)
  show ?case
  proof (cases "r - n > 0")
    case False
    then have "n = r" using n by simp
    moreover have "filled X P c cur k bs (c1\<lparr>slabs := (slabs c1)[k := s1\<lparr>slab_next := FE_SLAB_NULL\<rparr>]\<rparr>)"
      by (rule filled_last [OF inv k]) (use lbs n \<open>n = r\<close> in \<open>simp_all add: c1_def s1_def\<close>)
    ultimately show ?thesis
      using False k1 unfolding step by (simp add: wp_simps wp_upd_slab [OF k(1) k1(1)])
  next
    case True
    then have nd: "n = FE_SLAB_DATA_SIZE" by (auto simp: n_def chunk_def split: if_splits)
    have "wp str_slab_alloc (\<lambda>off. wp (sq (upd_slab cur (\<lambda>s. s\<lparr>slab_next := off\<rparr>))
          (str_fill (map_option (drop n) src) f (r - n) off (b + FE_SLAB_SIZE))) (\<lambda>_. filled X P c cur k bs) (fill_err X))
        (fill_err X) c1"
    proof (rule wp_mono [OF wp_str_slab_alloc [OF inv1 X1]])
      fix off c2 assume "slab_taken X (P @ [k]) c1 off c2"
      then obtain k2 where k2: "unat off = FE_SLAB_SIZE * k2" "k2 < length (slabs c2)"
        "heap_inv X ((P @ [k]) @ [k2]) c2" "evo X (P @ [k]) c1 c2" "rest c2 = rest c1"
        by (auto simp: slab_taken_def)
      have kc2: "k < length (slabs c2)" "slabs c2 ! k = s1" using k2(4) k1 by (simp_all add: evo_def)
      let ?c3 = "c2\<lparr>slabs := (slabs c2)[k := s1\<lparr>slab_next := off\<rparr>]\<rparr>"
      have l3: "length (slab_data (s1\<lparr>slab_next := off\<rparr>)) = FE_SLAB_DATA_SIZE" using l1 by simp
      have inv3: "heap_inv X ((P @ [k]) @ [k2]) ?c3" using pending_write(1) [OF k2(3) _ l3 refl] by simp
      have inv2: "heap_inv X (P @ k # [k2]) c2" using k2(3) by simp
      have e3: "evo X P c ?c3"
        using evo_trans [OF evo_trans [OF e1 evo_weaken [OF k2(4)]] evo_write [OF inv2 l3]] by auto
      have "wp (str_fill (map_option (drop n) src) f (r - n) off (b + FE_SLAB_SIZE))
          (\<lambda>_. filled X (P @ [k]) ?c3 off k2 (drop n bs)) (fill_err X) ?c3"
        by (rule less.IH [OF _ inv3 k2(1)]) (use n k2(2) True sd(2) evo_kept [OF e3 X] in simp_all)
      then have "wp (str_fill (map_option (drop n) src) f (r - n) off (b + FE_SLAB_SIZE))
          (\<lambda>_. filled X P c cur k bs) (fill_err X) ?c3"
      proof (rule wp_mono)
        fix c4 assume f: "filled X (P @ [k]) ?c3 off k2 (drop n bs) c4"
        have "take FE_SLAB_DATA_SIZE (slab_data s1) = take FE_SLAB_DATA_SIZE bs"
          using nd lbs n by (simp add: s1_def)
        moreover have "rest ?c3 = rest c" using k2(5) by (simp add: rest_def c1_def)
        ultimately show "filled X P c cur k bs c4"
          using f nd True lbs kc2(1)
          by (intro filled_step [OF e3 _ _ _ k(1), where ?k2.0 = k2 and off = off and s' = s1]) simp_all
      qed
      then show "wp (sq (upd_slab cur (\<lambda>s. s\<lparr>slab_next := off\<rparr>))
          (str_fill (map_option (drop n) src) f (r - n) off (b + FE_SLAB_SIZE))) (\<lambda>_. filled X P c cur k bs) (fill_err X) c2"
        using kc2 by (simp add: wp_sq wp_upd_slab [OF k(1) kc2(1)])
    qed (auto simp: alloc_err_def fill_err_def)
    then show ?thesis unfolding step using True by (simp add: wp_bnd)
  qed
qed

section \<open>String objects\<close>

text \<open>Linking the finished chain to its cell.\<close>

lemma link_chain:
  assumes inv: "heap_inv (insert i X) is c" and i: "i < length (objects c)" "i \<notin> X"
    and o': "o' = objects c ! i" "is_data o'" "ocar o' = VObj (Fixnum n)" "0 \<le> n"
    and ch: "slab_chain (slabs c) off is" "nat n \<le> FE_SLAB_DATA_SIZE * length is"
    and c': "c' = c\<lparr>objects := (objects c)[i := o'\<lparr>ocdr := VU32 off\<rparr>]\<rparr>"
  shows "heap_inv X [] c'"
proof -
  from inv obtain fs fl chs where s: "slab_inv (insert i X) is c fl chs" and w: "wf_slabs (slabs c)" "wf_spans c"
    and g: "\<forall>o' \<in> set (objects c). gc_ok o' \<and> (ty o' \<noteq> FE_TFREE \<longrightarrow> \<not> mark o')"
    and fc: "free_chain (objects c) (freelist c) fs" by (blast elim: heap_invE)
  have len: "length chs = length (objects c)" using s by (simp add: slab_inv_def)
  have nf: "i \<notin> set fs" using free_chain_free [OF fc] o'(1,2) by (auto simp: is_data_def)
  have di: "is_data (o'\<lparr>ocdr := VU32 off\<rparr>)" using o'(2) by (simp add: is_data_def)
  show ?thesis
  proof (rule heap_invI)
    show "\<forall>o' \<in> set (objects c'). gc_ok o' \<and> (ty o' \<noteq> FE_TFREE \<longrightarrow> \<not> mark o')"
    proof -
      have "o' \<in> set (objects c)" using i o'(1) by simp
      then have "gc_ok (o'\<lparr>ocdr := VU32 off\<rparr>) \<and> \<not> mark (o'\<lparr>ocdr := VU32 off\<rparr>)"
        using g o'(2) by (auto simp: is_data_def gc_ok_def)
      then show ?thesis
        using g set_update_subset_insert [of "objects c" i "o'\<lparr>ocdr := VU32 off\<rparr>"] unfolding c' by auto
    qed
    show "free_chain (objects c') (freelist c') fs"
      unfolding c' by simp (rule free_chain_cong [OF fc], use nf in \<open>auto simp: nth_update_notin\<close>)
    have ci: "chs ! i = []" using s i by (simp add: slab_inv_def)
    show "slab_inv X [] c' fl (chs[i := is])"
      unfolding slab_inv_def
    proof (intro conjI allI impI)
      show "distinct (fl @ [] @ concat (chs[i := is]))"
        using s i len ci concat_update_split(1) [of i chs]
        by (simp add: upd_conv_take_nth_drop slab_inv_def) blast
      fix j assume j: "j < length (objects c')"
      show "if is_data (objects c' ! j) \<and> j \<notin> X then data_ok (slabs c') (objects c' ! j) (chs[i := is] ! j)
        else chs[i := is] ! j = []"
      proof (cases "j = i")
        case True
        then have "objects c' ! j = o'\<lparr>ocdr := VU32 off\<rparr>" "chs[i := is] ! j = is" using c' i len by simp_all
        then show ?thesis using True di i(2) o'(3,4) ch c' by (simp add: data_ok_def)
      next
        case False
        then have "objects c' ! j = objects c ! j" "chs[i := is] ! j = chs ! j" "slabs c' = slabs c"
          "j \<in> insert i X \<longleftrightarrow> j \<in> X" "j < length (objects c)" using c' j by simp_all
        with s show ?thesis unfolding slab_inv_def by presburger
      qed
    qed (use s c' in \<open>simp_all add: slab_inv_def\<close>)
  qed (use w c' in \<open>simp_all add: wf_spans_def\<close>)
qed

text \<open>The result of a string constructor.\<close>

definition made_string :: "fe_tag \<Rightarrow> string \<Rightarrow> fe_Context \<Rightarrow> ptr \<Rightarrow> fe_Context \<Rightarrow> bool" where
  "made_string t bs c p c' \<longleftrightarrow> (\<exists>i. p = Ref i \<and> built {} [] c i (\<lambda>o'. ty o' = t) c' \<and>
     obj_bytes c' p = Some bs)"

text \<open>An error in the middle of a string leaves a cell without its chain, \<open>X\<close>, and perhaps slabs that
  belong to nothing.\<close>

definition string_err :: "fe_err \<Rightarrow> fe_Context \<Rightarrow> bool" where
  "string_err e c' \<longleftrightarrow> (\<exists>msg cl. e = FeError msg cl) \<and> (\<exists>X P. heap_inv X P c')"

text \<open>A chain that holds \<open>bs\<close> and belongs to no cell yet.\<close>

definition chained :: "nat set \<Rightarrow> fe_Context \<Rightarrow> string \<Rightarrow> u32 \<Rightarrow> fe_Context \<Rightarrow> bool" where
  "chained X c bs off c' \<longleftrightarrow> (\<exists>is. heap_inv X is c' \<and> slab_chain (slabs c') off is \<and>
     length bs \<le> FE_SLAB_DATA_SIZE * length is \<and> slab_bytes (slabs c') off (length bs) = Some bs \<and>
     evo X [] c c' \<and> rest c' = rest c)"

lemma filled_chained:
  assumes "filled X [] c1 off k bs c'" and "evo X [] c c1" and "rest c1 = rest c"
  shows "chained X c bs off c'"
proof -
  from assms(1) obtain js where "heap_inv X (k # js) c'" "slab_chain (slabs c') off (k # js)"
    "length bs \<le> FE_SLAB_DATA_SIZE * length (k # js)" "slab_bytes (slabs c') off (length bs) = Some bs"
    "evo X [] c1 c'" "rest c' = rest c1" unfolding filled_def by auto
  then show ?thesis
    using evo_trans [OF assms(2)] assms(3) unfolding chained_def by (intro exI [of _ "k # js"]) simp
qed

lemma chained_bytes_since:
  assumes "chained X c bs off c1"
  shows "chained X c bs off (c1\<lparr>bytes_since_gc := n\<rparr>)"
proof -
  from assms obtain "is" where j: "heap_inv X is c1" "slab_chain (slabs c1) off is"
    "length bs \<le> FE_SLAB_DATA_SIZE * length is" "slab_bytes (slabs c1) off (length bs) = Some bs"
    "evo X [] c c1" "rest c1 = rest c" by (auto simp: chained_def)
  have "heap_inv X is (c1\<lparr>bytes_since_gc := n\<rparr>)"
    by (rule heap_inv_cong [OF j(1)]) (use j(1) in \<open>simp_all add: heap_inv_def wf_spans_def\<close>)
  moreover have "evo X [] c1 (c1\<lparr>bytes_since_gc := n\<rparr>)"
    by (rule evo_same) (simp_all add: roots_def gc_roots_def)
  ultimately show ?thesis
    using j evo_trans [OF j(5)] unfolding chained_def by (intro exI [of _ "is"]) (simp add: rest_def)
qed

lemma wp_str_alloc:
  assumes inv: "heap_inv X [] c" and X: "X \<subseteq> {i. kept c i}" and bs: "src_data src f len bs"
  shows "wp (str_alloc src len f) (chained X c bs) string_err c"
proof (cases "len = 0")
  case True
  with inv bs show ?thesis
    by (auto simp: str_alloc_def wp_simps src_data_def evo_refl chained_def split: option.splits
        intro!: exI [of _ "[]"])
next
  case False
  have fill: "wp (str_fill src f len off b) (\<lambda>_. chained X c bs off) string_err c1"
    if "slab_taken X [] c off c1" for off c1 b
  proof -
    from that obtain k where k: "unat off = FE_SLAB_SIZE * k" "k < length (slabs c1)"
      "heap_inv X ([] @ [k]) c1" "evo X [] c c1" "rest c1 = rest c" unfolding slab_taken_def by blast
    show ?thesis
      by (rule wp_mono [OF wp_str_fill [OF k(3,1,2) evo_kept [OF k(4) X] bs]])
        (use False filled_chained [OF _ k(4,5)] in \<open>auto simp: fill_err_def string_err_def\<close>)
  qed
  have "wp (bnd (str_fill src f len off FE_SLAB_SIZE) (\<lambda>bytes.
        sq (modify (\<lambda>c. c\<lparr>bytes_since_gc := bytes_since_gc c + of_nat bytes\<rparr>)) (ret off)))
      (chained X c bs) string_err c1" if "slab_taken X [] c off c1" for off c1
    using fill [OF that] unfolding wp_bnd wp_sq wp_modify wp_ret
    by (rule wp_mono) (rule chained_bytes_since)
  then have "wp str_slab_alloc (\<lambda>off. wp (bnd (str_fill src f len off FE_SLAB_SIZE) (\<lambda>bytes.
        sq (modify (\<lambda>c. c\<lparr>bytes_since_gc := bytes_since_gc c + of_nat bytes\<rparr>)) (ret off)))
      (chained X c bs) string_err) string_err c"
    by (rule wp_mono [OF wp_str_slab_alloc [OF inv X]]) (auto simp: alloc_err_def string_err_def)
  with False show ?thesis by (simp add: str_alloc_def wp_bnd)
qed

lemma made_stringI:
  assumes b: "built {i} [] c i (\<lambda>x. x = o2) c2"
    and o2: "is_data o2" "ty o2 = t" "ocar o2 = VObj (Fixnum (int (length bs)))"
    and ch: "chained {i} c2 bs off c3"
    and c4: "c4 = c3\<lparr>objects := (objects c3)[i := o2\<lparr>ocdr := VU32 off\<rparr>]\<rparr>"
  shows "made_string t bs c (Ref i) c4"
proof -
  from ch obtain "is" where j: "heap_inv {i} is c3" "slab_chain (slabs c3) off is"
    "length bs \<le> FE_SLAB_DATA_SIZE * length is" "slab_bytes (slabs c3) off (length bs) = Some bs"
    "evo {i} [] c2 c3" "rest c3 = rest c2" by (auto simp: chained_def)
  have k3: "kept c3 i" "objects c3 ! i = o2" using b j(5) by (auto simp: built_def evo_def)
  have i: "i < length (objects c3)" using k3(1) by (simp add: kept_def)
  have e: "evo {i} [] c c3" using b j(5) evo_trans by (auto simp: built_def)
  have r4: "rest c4 = rest (c\<lparr>gcstack := gcstack c @ [Ref i]\<rparr>)"
    using b j(6) c4 by (simp add: built_def rest_def)
  have nk: "\<not> kept c i" using b by (simp add: built_def)
  have same: "objects c4 ! m = objects c ! m" "obj_bytes c4 (Ref m) = obj_bytes c3 (Ref m)"
    if "kept c m" for m
  proof -
    from that nk have "m \<noteq> i" by blast
    then show "objects c4 ! m = objects c ! m" "obj_bytes c4 (Ref m) = obj_bytes c3 (Ref m)"
      using e that c4 by (auto simp: evo_def obj_bytes_def split: val.split ptr.split)
  qed
  have len: "length (objects c4) = length (objects c)" using e c4 by (simp add: evo_def)
  have "kept c4 m" if "kept c m" for m
    by (rule kept_path [OF len _ same(1) that]) (use fresh_roots [OF r4] in auto)
  with same e len nk c4 have "evo {} [] c c4" by (auto simp: evo_def)
  moreover have "heap_inv {} [] c4"
    by (rule link_chain [OF j(1) i, where n = "int (length bs)"]) (use k3(2) o2 j(2,3) c4 in simp_all)
  moreover have "kept c4 i"
    using fresh_roots [OF r4] i c4 o2(1) by (auto simp: kept_def reach_def is_data_def)
  moreover have "obj_bytes c4 (Ref i) = Some bs"
    using i c4 o2(3) j(4) by (simp add: obj_bytes_def)
  ultimately show ?thesis
    using nk r4 i c4 o2(2) by (simp add: made_string_def built_def)
qed

lemma wp_make_data_obj:
  assumes inv: "heap_inv {} [] c" and t: "t = FE_TSTRING \<or> t = FE_TBYTES" and bs: "src_data src f len bs"
  shows "wp (make_data_obj t src len f) (made_string t bs c) string_err c"
  unfolding make_data_obj_def wp_bnd
proof (rule wp_mono [OF wp_object [OF inv]], simp, clarify)
  fix c1 i
  assume h: "heap_inv {} [] c1" "evo {} [] c c1" "fresh c i c1"
  have i: "i < length (objects c1)" using h(3) by (simp add: fresh_def)
  define o2 where "o2 = (objects c1 ! i)\<lparr>ty := t, mark := False, ocar := VObj (Fixnum (int len))\<rparr>"
  define c2 where "c2 = c1\<lparr>objects := (objects c1)[i := o2]\<rparr>"
  have o2: "is_data o2" "ty o2 = t" "gc_ok o2" "\<not> mark o2" "ty o2 \<noteq> FE_TFREE"
    using t by (auto simp: o2_def is_data_def gc_ok_def)
  have b: "built {i} [] c i (\<lambda>x. x = o2) c2"
    by (rule fresh_init [OF h(1,3,2) o2(3,4,5)]) (simp_all add: o2(1) c2_def)
  have l: "length bs = len" by (rule src_data_length [OF bs])
  have "wp (str_alloc src len f) (\<lambda>off. wp (sq (upd_cell (Ref i) (\<lambda>x. x\<lparr>ocdr := VU32 off\<rparr>)) (ret (Ref i)))
      (made_string t bs c) string_err) string_err c2"
  proof (rule wp_mono [OF wp_str_alloc [OF _ _ bs, where X = "{i}"]])
    show "heap_inv {i} [] c2" "{i} \<subseteq> {i. kept c2 i}" using b by (simp_all add: built_def)
    fix off c3 assume ch: "chained {i} c2 bs off c3"
    then have k3: "kept c3 i" "objects c3 ! i = o2" using b by (auto simp: built_def chained_def evo_def)
    then show "wp (sq (upd_cell (Ref i) (\<lambda>x. x\<lparr>ocdr := VU32 off\<rparr>)) (ret (Ref i))) (made_string t bs c) string_err c3"
      using made_stringI [OF b o2(1,2) _ ch refl] l
      by (simp add: wp_simps wp_upd_cell kept_def o2_def)
  qed
  then show "wp (sq (settype (Ref i) t) (sq (set_car (Ref i) (Fixnum (int len)))
      (bnd (str_alloc src len f) (\<lambda>off. sq (upd_cell (Ref i) (\<lambda>x. x\<lparr>ocdr := VU32 off\<rparr>)) (ret (Ref i))))))
      (made_string t bs c) string_err c1"
    using i by (simp add: wp_sq wp_bnd settype_def set_car_def wp_upd_cell c2_def o2_def)
qed (auto simp: alloc_err_def string_err_def)

section \<open>Lists\<close>

text \<open>A proper list whose cells are all kept.\<close>

fun list_kept :: "fe_Context \<Rightarrow> ptr \<Rightarrow> ptr list \<Rightarrow> bool" where
  "list_kept c p [] = (p = Nil)"
| "list_kept c p (x # xs) = (case p of
      Ref i \<Rightarrow> kept c i \<and> ty (objects c ! i) = FE_TPAIR \<and> ocar (objects c ! i) = VObj x \<and>
        (case ocdr (objects c ! i) of VObj d \<Rightarrow> list_kept c d xs | _ \<Rightarrow> False)
    | _ \<Rightarrow> False)"

lemma list_kept_evo: "list_kept c p xs \<Longrightarrow> evo X P c c' \<Longrightarrow> list_kept c' p xs"
proof (induction xs arbitrary: p)
  case (Cons x xs)
  then obtain i d where "p = Ref i" "kept c i" "ty (objects c ! i) = FE_TPAIR" "ocar (objects c ! i) = VObj x"
    "ocdr (objects c ! i) = VObj d" "list_kept c d xs" by (auto split: ptr.splits val.splits)
  moreover have "kept c' i" "objects c' ! i = objects c ! i" using Cons.prems(2) \<open>kept c i\<close> by (simp_all add: evo_def)
  ultimately show ?case using Cons.IH Cons.prems(2) by simp
qed simp

lemma list_kept_heap_list: "list_kept c p xs \<Longrightarrow> heap_list (objects c) p xs"
  by (induction xs arbitrary: p) (auto simp: kept_def split: ptr.splits val.splits)

lemma wp_fe_list_loop:
  assumes "heap_inv {} [] c" and "list_kept c res ys"
  shows "wp (fe_list_loop xs res) (\<lambda>p c'. heap_inv {} [] c' \<and> evo {} [] c c' \<and> list_kept c' p (rev xs @ ys))
    (alloc_err {} []) c"
  using assms
proof (induction xs arbitrary: res ys c)
  case Nil
  then show ?case by (simp add: wp_simps evo_refl)
next
  case (Cons x xs)
  have "wp (fe_cons x res) (\<lambda>p. wp (fe_list_loop xs p) (\<lambda>p c'. heap_inv {} [] c' \<and> evo {} [] c c' \<and>
      list_kept c' p (rev xs @ x # ys)) (alloc_err {} [])) (alloc_err {} []) c"
  proof (rule wp_mono [OF wp_fe_cons [OF Cons.prems(1)]], simp, clarify)
    fix c1 i assume b: "built {} [] c i (\<lambda>o'. o' = pair_cell x res) c1"
    then have "list_kept c1 (Ref i) (x # ys)"
      using list_kept_evo [OF Cons.prems(2)] by (auto simp: built_def pair_cell_def)
    with b have "wp (fe_list_loop xs (Ref i)) (\<lambda>p c'. heap_inv {} [] c' \<and> evo {} [] c1 c' \<and>
        list_kept c' p (rev xs @ x # ys)) (alloc_err {} []) c1"
      using Cons.IH [of c1 "Ref i" "x # ys"] by (simp add: built_def)
    then show "wp (fe_list_loop xs (Ref i)) (\<lambda>p c'. heap_inv {} [] c' \<and> evo {} [] c c' \<and>
        list_kept c' p (rev xs @ x # ys)) (alloc_err {} []) c1"
      by (rule wp_mono) (use b evo_trans in \<open>auto simp: built_def\<close>)
  qed simp
  then show ?case by (simp add: wp_bnd)
qed

section \<open>Properties\<close>

text \<open>
  C3. Allocating a pair is transparent: from a well-formed heap, \<^verbatim>\<open>fe_cons\<close> either returns a new pair with
  the given fields in a cell that nothing reachable used, with every reachable object and its
  bytes unchanged, or raises an error; the heap is well formed in both cases, even when a
  collection runs in between.
\<close>

theorem cons_transparent:
  assumes "heap_inv {} [] c"
  shows "case fe_cons a d c of
      (Inr p, c') \<Rightarrow> \<exists>i. p = Ref i \<and> \<not> kept c i \<and> objects c' ! i = pair_cell a d \<and> heap_inv {} [] c' \<and>
        (\<forall>j. kept c j \<longrightarrow> objects c' ! j = objects c ! j \<and>
           (is_data (objects c ! j) \<longrightarrow> obj_bytes c' (Ref j) = obj_bytes c (Ref j)))
    | (Inl e, c') \<Rightarrow> (\<exists>msg cl. e = FeError msg cl) \<and> heap_inv {} [] c'"
  using wp_fe_cons [OF assms, of a d]
  by (auto simp: wp_def built_def evo_def alloc_err_def split: sum.splits prod.splits)

text \<open>
  C4. Strings are stored and read back faithfully: when \<^verbatim>\<open>fe_string\<close> returns, the new object is a
  string whose bytes are the argument's, of any length, every object reachable before is
  unchanged with its bytes, and the heap is well formed. The only other outcome is an error.
\<close>

theorem string_roundtrip:
  assumes "heap_inv {} [] c"
  shows "case fe_string s c of
      (Inr p, c') \<Rightarrow> typeof c' p = FE_TSTRING \<and> obj_bytes c' p = Some s \<and> heap_inv {} [] c' \<and>
        (\<forall>j. kept c j \<longrightarrow> objects c' ! j = objects c ! j \<and>
           (is_data (objects c ! j) \<longrightarrow> obj_bytes c' (Ref j) = obj_bytes c (Ref j)))
    | (Inl e, c') \<Rightarrow> \<exists>msg cl. e = FeError msg cl"
proof -
  have "wp (fe_string s) (made_string FE_TSTRING s c) string_err c"
    unfolding fe_string_def by (rule wp_make_data_obj [OF assms]) (simp_all add: src_data_def)
  then show ?thesis
    by (auto simp: wp_def made_string_def built_def evo_def string_err_def typeof_def kept_def
        split: sum.splits prod.splits)
qed

text \<open>
  \<^verbatim>\<open>fe_list\<close> builds the list it is given: when it returns, the result is a proper list with exactly
  the elements of the array in order, its cells are all rooted, and everything reachable before
  is unchanged.
\<close>

lemma list_builds:
  assumes "heap_inv {} [] c" and "fe_list xs c = (Inr p, c')"
  shows "heap_list (objects c') p xs \<and> heap_inv {} [] c' \<and>
    (\<forall>j. kept c j \<longrightarrow> objects c' ! j = objects c ! j)"
  using wpD [OF wp_fe_list_loop [OF assms(1), of Nil "[]" "rev xs"]] assms(2)
  by (auto simp: fe_list_def evo_def intro: list_kept_heap_list)

text \<open>
  Boxing a number loses only the sign of zero: the object \<^verbatim>\<open>fe_make_number\<close> returns is a number whose
  value, read back by \<^verbatim>\<open>fe_num_value\<close>, is the argument, whether it became a fixnum or a cell; only
  negative zero comes back as zero.
\<close>

lemma make_number_value:
  assumes "heap_inv {} [] c"
  shows "case fe_make_number v c of
      (Inr p, c') \<Rightarrow> typeof c' p = FE_TNUMBER \<and> heap_inv {} [] c' \<and>
        fe_num_value p c' = (Inr (if v = NegZero then Fin 0 else v), c')
    | (Inl e, c') \<Rightarrow> (\<exists>msg cl. e = FeError msg cl) \<and> v \<noteq> NegZero"
proof -
  have boxed: "wp (fe_number v) (\<lambda>p c'. typeof c' p = FE_TNUMBER \<and> heap_inv {} [] c' \<and>
      fe_num_value p c' = (Inr v, c')) (\<lambda>e c'. \<exists>msg cl. e = FeError msg cl) c"
    by (rule wp_mono [OF wp_fe_number [OF assms]])
      (auto simp: built_def kept_def typeof_def fe_num_value_def alloc_err_def bnd_Inr [OF cell_Ref] ret_def)
  show ?thesis
  proof (cases "\<exists>i. num_to_intptr v = Some i \<and> num_eq v (num_of_int i) \<and> fixnum_range i")
    case True
    then obtain i where i: "num_to_intptr v = Some i" "num_eq v (num_of_int i)" "fixnum_range i" by blast
    have "num_of_int i = (if v = NegZero then Fin 0 else v)"
      using num_eq_of_int [OF i(1,2)] .
    with i assms show ?thesis by (simp add: fe_make_number_def ret_def fe_num_value_def typeof_def)
  next
    case False
    moreover have "num_to_intptr NegZero = Some 0" "num_eq NegZero (num_of_int 0)" "fixnum_range 0"
      by (simp_all add: num_of_int_def round_num_def fixnum_range_def)
    ultimately have "v \<noteq> NegZero" by blast
    moreover from False have "fe_make_number v = fe_number v"
      by (auto simp: fe_make_number_def split: option.split)
    ultimately show ?thesis using boxed by (auto simp: wp_def split: sum.splits prod.splits)
  qed
qed

text \<open>The same heap with the thresholds of a fresh context.\<close>

definition alloc_example :: fe_Context where
  "alloc_example = gc_example\<lparr>gc_threshold := 1024, byte_threshold := 1024\<rparr>"

lemma alloc_example_inv: "heap_inv {} [] alloc_example"
  by (rule heap_inv_cong [OF gc_example_inv])
    (simp_all add: alloc_example_def gc_example_def wf_spans_def zeroed_context_def)

lemma alloc_example_kept: "kept alloc_example 1"
  using gc_example_reach(1)
  by (simp add: kept_def roots_def gc_roots_def alloc_example_def)

lemmas alloc_example_run =
  object_def comp_defs alloc_example_def gc_example_def zeroed_context_def isnil_def cdr_def
  cell_def as_obj_def fe_pushgc_def is_immediate_def upd_cell_def GCSTACKSIZE_def

theorem cons_transparent_witness:
  "\<exists>i c'. fe_cons (Ref 0) Nil alloc_example = (Inr (Ref i), c') \<and> objects c' ! i = pair_cell (Ref 0) Nil \<and>
     objects c' ! 1 = objects alloc_example ! 1"
proof -
  obtain p c' where "fe_cons (Ref 0) Nil alloc_example = (Inr p, c')"
    by (simp add: fe_cons_def alloc_example_run)
  with cons_transparent [OF alloc_example_inv, of "Ref 0" Nil] alloc_example_kept show ?thesis by auto
qed

theorem string_roundtrip_witness:
  "\<exists>p c'. fe_string ''abc'' alloc_example = (Inr p, c') \<and> obj_bytes c' p = Some ''abc''"
proof -
  obtain p c' where "fe_string ''abc'' alloc_example = (Inr p, c')"
    by (simp add: fe_string_def make_data_obj_def alloc_example_run str_alloc_def str_slab_alloc_def
        str_fill.simps upd_slab_def slab_lookup_def settype_def set_car_def FE_SLAB_SIZE_def FE_SLAB_NULL_def
        chunk_def FE_SLAB_DATA_SIZE_def or_crash_def slab_at_def)
  with string_roundtrip [OF alloc_example_inv, of "''abc''"] show ?thesis by auto
qed

lemma make_number_value_witness:
  "\<exists>p c'. fe_make_number (Fin (1 / 2)) alloc_example = (Inr p, c') \<and> fe_num_value p c' = (Inr (Fin (1 / 2)), c')"
proof -
  have "num_to_intptr (Fin (1 / 2)) = Some 0" by (simp add: trunc_rat_def floor_divide_of_nat_eq [of 1 2, simplified])
  moreover have "\<not> num_eq (Fin (1 / 2)) (num_of_int 0)" by (simp add: num_of_int_def round_num_def)
  ultimately obtain p c' where "fe_make_number (Fin (1 / 2)) alloc_example = (Inr p, c')"
    by (simp add: fe_make_number_def fe_number_def alloc_example_run)
  with make_number_value [OF alloc_example_inv, of "Fin (1 / 2)"] show ?thesis by auto
qed

lemma list_builds_witness:
  "\<exists>p c'. fe_list [Ref 0] alloc_example = (Inr p, c') \<and> heap_list (objects c') p [Ref 0]"
proof -
  obtain p c' where "fe_list [Ref 0] alloc_example = (Inr p, c')"
    by (simp add: fe_list_def fe_cons_def alloc_example_run)
  with list_builds [OF alloc_example_inv] show ?thesis by blast
qed

end
