(* ===== verification/Fe_Map.thy ===== *)
theory Fe_Map
  imports Fe_Alloc
begin

text \<open>
  Hash maps (\<^verbatim>\<open>fe.c\<close>): open addressing with linear probing and tombstones, FNV-1a hashes of string
  keys, growth at three quarters. The operations refine a finite map from byte strings to objects.

  A map is owned by the cell that refers to it, so the functions that take a \<^verbatim>\<open>fe_Map *\<close> take its
  value here and return the new one; the caller writes it back. The C code writes through the
  pointer only after the last point at which it can raise an error. The \<^verbatim>\<open>int\<close> counters are
  unbounded: a map near \<open>2^29\<close> slots would overflow them.
\<close>

section \<open>Definitions\<close>

definition normalize_map_key :: "ptr \<Rightarrow> ptr fcomp" where
  "normalize_map_key key = bnd (gets (\<lambda>c. typeof c key)) (\<lambda>t.
     if t = FE_TSYMBOL then bnd (cdr key) car
     else if t = FE_TSTRING then ret key
     else fe_error ''map keys must be strings or symbols'')"

definition mapdata :: "ptr \<Rightarrow> fe_Map fcomp" where
  "mapdata p = bnd (cell p) (\<lambda>o'. case ocdr o' of VMap (Some m) \<Rightarrow> ret m | _ \<Rightarrow> throw Crash)"

definition set_mapdata :: "ptr \<Rightarrow> fe_Map \<Rightarrow> unit fcomp" where
  "set_mapdata p m = upd_cell p (\<lambda>o'. o'\<lparr>ocdr := VMap (Some m)\<rparr>)"

definition empty_map :: "nat \<Rightarrow> fe_Map" where
  "empty_map capacity = \<lparr>map_count = 0, map_used = 0, map_capacity = capacity,
     map_keys = replicate capacity None, map_values = replicate capacity None,
     map_states = replicate capacity MAP_EMPTY\<rparr>"

definition map_alloc :: "nat \<Rightarrow> fe_Map option fcomp" where
  "map_alloc capacity = bnd (lift_st (tracked_alloc sizeof_fe_Map)) (\<lambda>map.
     if map = None then ret None
     else bnd (lift_st (tracked_alloc (of_nat (sizeof_ptr * capacity)))) (\<lambda>keys.
       bnd (lift_st (tracked_alloc (of_nat (sizeof_ptr * capacity)))) (\<lambda>values.
       bnd (lift_st (tracked_alloc (of_nat capacity))) (\<lambda>states.
       if keys = None \<or> values = None \<or> states = None then
         sq (modify (tracked_free keys)) (sq (modify (tracked_free values))
         (sq (modify (tracked_free states)) (sq (modify (tracked_free map)) (ret None))))
       else ret (Some (empty_map capacity))))))"

text \<open>The probe loop of \<^verbatim>\<open>map_find_slot\<close>: \<open>n\<close> slots are left to look at, \<open>None\<close> stands for \<open>-1\<close>.
  The result pairs the slot with \<^verbatim>\<open>*found\<close>.\<close>

fun map_probe ::
  "fe_Map \<Rightarrow> ptr \<Rightarrow> nat \<Rightarrow> nat \<Rightarrow> nat option \<Rightarrow> nat \<Rightarrow> (nat option \<times> bool) fcomp" where
  "map_probe m key index 0 first_tombstone countdown = ret (first_tombstone, False)"
| "map_probe m key index (Suc n) first_tombstone countdown =
     (let slot = (index + (map_capacity m - Suc n)) mod map_capacity m
      in bnd (check_io_abort countdown) (\<lambda>countdown.
         if map_states m ! slot = MAP_EMPTY then
           ret (case first_tombstone of Some t \<Rightarrow> Some t | None \<Rightarrow> Some slot, False)
         else if map_states m ! slot = MAP_TOMBSTONE then
           map_probe m key index n (case first_tombstone of Some t \<Rightarrow> Some t | None \<Rightarrow> Some slot) countdown
         else bnd (or_crash (map_keys m ! slot)) (\<lambda>k. bnd (equal k key) (\<lambda>eq.
           if eq then ret (Some slot, True)
           else map_probe m key index n first_tombstone countdown))))"

definition map_find_slot :: "fe_Map \<Rightarrow> ptr \<Rightarrow> (nat option \<times> bool) fcomp" where
  "map_find_slot m key =
     (if map_capacity m = 0 then ret (None, False)
      else bnd (hash_string_obj key) (\<lambda>hash.
        map_probe m key (unat hash mod map_capacity m) (map_capacity m) None
          FE_IO_ABORT_CHECK_INTERVAL))"

definition map_fill :: "fe_Map \<Rightarrow> nat \<Rightarrow> ptr option \<Rightarrow> ptr option \<Rightarrow> fe_Map" where
  "map_fill m slot k v = m\<lparr>map_states := (map_states m)[slot := MAP_USED],
     map_keys := (map_keys m)[slot := k], map_values := (map_values m)[slot := v],
     map_count := map_count m + 1, map_used := map_used m + 1\<rparr>"

primrec map_rehash :: "fe_Map \<Rightarrow> nat list \<Rightarrow> nat \<Rightarrow> fe_Map \<Rightarrow> fe_Map option fcomp" where
  "map_rehash m [] countdown grown = ret (Some grown)"
| "map_rehash m (i # is) countdown grown =
     bnd (check_io_abort countdown) (\<lambda>countdown.
     if map_states m ! i \<noteq> MAP_USED then map_rehash m is countdown grown
     else bnd (or_crash (map_keys m ! i)) (\<lambda>k. bnd (map_find_slot grown k) (\<lambda>(slot, found).
       case slot of
         None \<Rightarrow> sq (free_map grown) (ret None)
       | Some s \<Rightarrow> map_rehash m is countdown (map_fill grown s (Some k) (map_values m ! i)))))"

definition map_resize :: "fe_Map \<Rightarrow> nat \<Rightarrow> fe_Map option fcomp" where
  "map_resize m capacity = bnd (map_alloc capacity) (\<lambda>g. case g of
      None \<Rightarrow> ret None
    | Some grown \<Rightarrow>
        bnd (map_rehash m [0..<map_capacity m] FE_IO_ABORT_CHECK_INTERVAL grown) (\<lambda>g. case g of
          None \<Rightarrow> ret None
        | Some grown \<Rightarrow> sq (free_arrays (map_capacity m))
            (sq (modify (tracked_free (Some sizeof_fe_Map))) (ret (Some grown)))))"

text \<open>The doubling loop; the caller starts it at 8 or more.\<close>

function grow_target :: "int \<Rightarrow> nat \<Rightarrow> nat" where
  "grow_target used target =
     (if 0 < target \<and> (used + 1) * 4 \<ge> int target * 3 then grow_target used (target * 2) else target)"
  by pat_completeness auto
termination by (relation "measure (\<lambda>(u, t). nat ((u + 1) * 4 - int t * 3 + 1))") auto

declare grow_target.simps [simp del]

definition map_ensure_capacity :: "fe_Map \<Rightarrow> fe_Map option fcomp" where
  "map_ensure_capacity m =
     (let min_capacity = 8;
          target = (if map_capacity m < min_capacity then min_capacity else map_capacity m)
      in if (map_used m + 1) * 4 < int target * 3 then ret (Some m)
         else map_resize m (grow_target (map_used m) target))"

definition fe_map :: "ptr fcomp" where
  "fe_map = bnd object (\<lambda>obj. bnd (map_alloc 8) (\<lambda>m. case m of
      None \<Rightarrow> memory_error ''out of memory (map)''
    | Some m \<Rightarrow> sq (settype obj FE_TMAP) (sq (set_car obj Nil) (sq (set_mapdata obj m) (ret obj)))))"

definition map_store :: "fe_Map \<Rightarrow> nat \<Rightarrow> bool \<Rightarrow> ptr \<Rightarrow> ptr \<Rightarrow> fe_Map" where
  "map_store m slot found key value =
     (let m = (if \<not> found then
                 (let m = (if map_states m ! slot = MAP_EMPTY then m\<lparr>map_used := map_used m + 1\<rparr> else m)
                  in m\<lparr>map_states := (map_states m)[slot := MAP_USED],
                       map_keys := (map_keys m)[slot := Some key], map_count := map_count m + 1\<rparr>)
               else m)
      in m\<lparr>map_values := (map_values m)[slot := Some value]\<rparr>)"

definition fe_map_set :: "ptr \<Rightarrow> ptr \<Rightarrow> ptr \<Rightarrow> bool fcomp" where
  "fe_map_set map_obj key value = sq (checktype map_obj FE_TMAP) (bnd (normalize_map_key key) (\<lambda>key.
     bnd (gets (\<lambda>c. typeof c key)) (\<lambda>t. if t \<noteq> FE_TSTRING then ret False
     else bnd (mapdata map_obj) (\<lambda>m. bnd (map_ensure_capacity m) (\<lambda>r. case r of
       None \<Rightarrow> memory_error ''out of memory (map)''
     | Some m \<Rightarrow> sq (set_mapdata map_obj m) (bnd (map_find_slot m key) (\<lambda>(slot, found). case slot of
         None \<Rightarrow> memory_error ''out of memory (map)''
       | Some s \<Rightarrow> sq (set_mapdata map_obj (map_store m s found key value)) (ret True))))))))"

definition fe_map_has :: "ptr \<Rightarrow> ptr \<Rightarrow> bool fcomp" where
  "fe_map_has map_obj key = sq (checktype map_obj FE_TMAP) (bnd (normalize_map_key key) (\<lambda>key.
     bnd (gets (\<lambda>c. typeof c key)) (\<lambda>t. if t \<noteq> FE_TSTRING then ret False
     else bnd (mapdata map_obj) (\<lambda>m. bnd (map_find_slot m key) (\<lambda>(slot, found). ret found)))))"

definition fe_map_get :: "ptr \<Rightarrow> ptr \<Rightarrow> ptr fcomp" where
  "fe_map_get map_obj key = sq (checktype map_obj FE_TMAP) (bnd (normalize_map_key key) (\<lambda>key.
     bnd (gets (\<lambda>c. typeof c key)) (\<lambda>t. if t \<noteq> FE_TSTRING then ret Nil
     else bnd (mapdata map_obj) (\<lambda>m. bnd (map_find_slot m key) (\<lambda>(slot, found).
       if \<not> found then ret Nil
       else case slot of None \<Rightarrow> ret Nil | Some s \<Rightarrow> or_crash (map_values m ! s))))))"

definition map_erase :: "fe_Map \<Rightarrow> nat \<Rightarrow> fe_Map" where
  "map_erase m slot = m\<lparr>map_states := (map_states m)[slot := MAP_TOMBSTONE],
     map_keys := (map_keys m)[slot := None], map_values := (map_values m)[slot := None],
     map_count := map_count m - 1\<rparr>"

definition fe_map_delete :: "ptr \<Rightarrow> ptr \<Rightarrow> bool fcomp" where
  "fe_map_delete map_obj key = sq (checktype map_obj FE_TMAP) (bnd (normalize_map_key key) (\<lambda>key.
     bnd (gets (\<lambda>c. typeof c key)) (\<lambda>t. if t \<noteq> FE_TSTRING then ret False
     else bnd (mapdata map_obj) (\<lambda>m. bnd (map_find_slot m key) (\<lambda>(slot, found).
       if \<not> found then ret False
       else case slot of None \<Rightarrow> ret False
         | Some s \<Rightarrow> sq (set_mapdata map_obj (map_erase m s)) (ret True))))))"

definition fe_map_count :: "ptr \<Rightarrow> int fcomp" where
  "fe_map_count map_obj = sq (checktype map_obj FE_TMAP) (bnd (mapdata map_obj) (\<lambda>m. ret (map_count m)))"

text \<open>No operation inside the loop of \<^verbatim>\<open>fe_map_keys\<close> writes the map, so it is read once.\<close>

primrec map_keys_loop :: "fe_Map \<Rightarrow> ptr \<Rightarrow> nat \<Rightarrow> nat list \<Rightarrow> nat \<Rightarrow> ptr \<Rightarrow> ptr fcomp" where
  "map_keys_loop m map_obj gc_save [] countdown result = ret result"
| "map_keys_loop m map_obj gc_save (i # is) countdown result =
     bnd (check_io_abort countdown) (\<lambda>countdown.
     if map_states m ! i = MAP_USED then
       sq (fe_restoregc gc_save) (sq (fe_pushgc map_obj) (sq (fe_pushgc result)
       (bnd (or_crash (map_keys m ! i)) (\<lambda>k. bnd (fe_cons k result)
         (map_keys_loop m map_obj gc_save is countdown)))))
     else map_keys_loop m map_obj gc_save is countdown result)"

definition fe_map_keys :: "ptr \<Rightarrow> ptr fcomp" where
  "fe_map_keys map_obj = sq (checktype map_obj FE_TMAP) (bnd fe_savegc (\<lambda>gc_save.
     sq (fe_pushgc map_obj) (sq (fe_pushgc Nil) (bnd (mapdata map_obj) (\<lambda>m.
     bnd (map_keys_loop m map_obj gc_save (rev [0..<map_capacity m]) FE_IO_ABORT_CHECK_INTERVAL Nil) (\<lambda>result.
     sq (fe_restoregc gc_save) (ret result)))))))"

section \<open>What a table represents\<close>

definition key_bytes :: "fe_Context \<Rightarrow> ptr option \<Rightarrow> string option" where
  "key_bytes c k = (case k of
      Some p \<Rightarrow> if typeof c p = FE_TSTRING then obj_bytes c p else None
    | None \<Rightarrow> None)"

definition slot_key :: "fe_Context \<Rightarrow> fe_Map \<Rightarrow> nat \<Rightarrow> string option" where
  "slot_key c m i =
     (if map_states m ! i = MAP_USED then key_bytes c (map_keys m ! i) else None)"

definition probe_slot :: "fe_Map \<Rightarrow> string \<Rightarrow> nat \<Rightarrow> nat" where
  "probe_slot m s n = (unat (fnv1a s) mod map_capacity m + n) mod map_capacity m"

text \<open>Slot \<open>i\<close> is met by the probe for \<open>s\<close> before any empty slot.\<close>

definition on_path :: "fe_Map \<Rightarrow> string \<Rightarrow> nat \<Rightarrow> bool" where
  "on_path m s i \<longleftrightarrow> (\<exists>n < map_capacity m. i = probe_slot m s n \<and>
     (\<forall>j < n. map_states m ! probe_slot m s j \<noteq> MAP_EMPTY))"

definition wf_map :: "fe_Context \<Rightarrow> fe_Map \<Rightarrow> bool" where
  "wf_map c m \<longleftrightarrow>
     length (map_states m) = map_capacity m \<and> length (map_keys m) = map_capacity m \<and>
     length (map_values m) = map_capacity m \<and>
     (\<forall>i < map_capacity m. map_states m ! i = MAP_USED \<longrightarrow>
        map_values m ! i \<noteq> None \<and> (\<exists>s. slot_key c m i = Some s \<and> on_path m s i)) \<and>
     (\<forall>i < map_capacity m. \<forall>j < map_capacity m.
        slot_key c m i = slot_key c m j \<longrightarrow> slot_key c m i \<noteq> None \<longrightarrow> i = j) \<and>
     map_count m = int (length (filter (\<lambda>st. st = MAP_USED) (map_states m))) \<and>
     map_used m = int (length (filter (\<lambda>st. st \<noteq> MAP_EMPTY) (map_states m))) \<and>
     map_used m < int (map_capacity m) \<and> 8 \<le> map_capacity m"

definition map_rep :: "fe_Context \<Rightarrow> fe_Map \<Rightarrow> (string \<rightharpoonup> ptr) \<Rightarrow> bool" where
  "map_rep c m f \<longleftrightarrow> wf_map c m \<and>
     (\<forall>s v. f s = Some v \<longleftrightarrow> (\<exists>i < map_capacity m. slot_key c m i = Some s \<and> map_values m ! i = Some v))"

lemma length_filter_update:
  "i < length xs \<Longrightarrow>
   length (filter P (xs[i := x])) + (if P (xs ! i) then 1 else 0) =
   length (filter P xs) + (if P x then 1 else 0)"
proof (induction xs arbitrary: i)
  case (Cons y ys)
  then show ?case by (cases i) auto
qed simp

lemma probe_slot_less: "0 < map_capacity m \<Longrightarrow> probe_slot m s n < map_capacity m"
  by (simp add: probe_slot_def)

lemma probe_slot_onto:
  assumes "i < map_capacity m"
  shows "\<exists>n < map_capacity m. probe_slot m s n = i"
proof -
  let ?k = "map_capacity m" and ?h = "unat (fnv1a s) mod map_capacity m"
  have h: "?h < ?k" using assms by simp
  show ?thesis
  proof (cases "?h \<le> i")
    case True
    with assms show ?thesis by (intro exI [of _ "i - ?h"]) (auto simp: probe_slot_def)
  next
    case False
    with h have "?h + (i + ?k - ?h) = i + ?k" by simp
    then have "probe_slot m s (i + ?k - ?h) = i" using assms by (simp only: probe_slot_def) simp
    with False h show ?thesis by (intro exI [of _ "i + ?k - ?h"]) auto
  qed
qed

lemma all_filter_length: "length xs = n \<Longrightarrow> (\<And>i. i < n \<Longrightarrow> P (xs ! i)) \<Longrightarrow> length (filter P xs) = n"
  by (metis filter_id_conv in_set_conv_nth)

text \<open>A well-formed table has an empty slot on every probe.\<close>

lemma probe_meets_empty:
  assumes "wf_map c m"
  shows "\<exists>n < map_capacity m. map_states m ! probe_slot m s n = MAP_EMPTY"
proof (rule ccontr)
  assume "\<not> ?thesis"
  then have "map_states m ! i \<noteq> MAP_EMPTY" if "i < map_capacity m" for i
    using probe_slot_onto [OF that, of s] by auto
  then have "length (filter (\<lambda>st. st \<noteq> MAP_EMPTY) (map_states m)) = map_capacity m"
    using assms by (intro all_filter_length) (auto simp: wf_map_def)
  with assms show False by (auto simp: wf_map_def)
qed

text \<open>What the search for \<open>s\<close> reports.\<close>

definition found_at :: "fe_Context \<Rightarrow> fe_Map \<Rightarrow> string \<Rightarrow> nat \<Rightarrow> bool \<Rightarrow> bool" where
  "found_at c m s i found \<longleftrightarrow> i < map_capacity m \<and> on_path m s i \<and>
     (if found then slot_key c m i = Some s
      else map_states m ! i \<noteq> MAP_USED \<and> (\<forall>j < map_capacity m. slot_key c m j \<noteq> Some s))"

text \<open>Once the probe meets an empty slot, the key is nowhere else.\<close>

lemma empty_ends_search:
  assumes "wf_map c m" and "\<And>j. j < n \<Longrightarrow> slot_key c m (probe_slot m s j) \<noteq> Some s"
    and "map_states m ! probe_slot m s n = MAP_EMPTY"
  shows "i < map_capacity m \<Longrightarrow> slot_key c m i \<noteq> Some s"
proof
  assume i: "i < map_capacity m" "slot_key c m i = Some s"
  then have "map_states m ! i = MAP_USED" by (simp add: slot_key_def split: if_splits)
  with assms(1) i obtain k where k: "i = probe_slot m s k" "\<forall>j < k. map_states m ! probe_slot m s j \<noteq> MAP_EMPTY"
    by (auto simp: wf_map_def on_path_def)
  with i \<open>map_states m ! i = MAP_USED\<close> assms(2,3) show False
    by (metis linorder_neqE_nat slot_state.distinct(1))
qed

section \<open>Searching\<close>

definition poll_err :: "fe_Context \<Rightarrow> fe_err \<Rightarrow> fe_Context \<Rightarrow> bool" where
  "poll_err c e c' \<longleftrightarrow> (\<exists>msg cl. e = FeError msg cl) \<and> limit_ctx.more c' = limit_ctx.more c"

lemma wp_check_io_abort:
  assumes "\<And>k c'. limit_ctx.more c' = limit_ctx.more c \<Longrightarrow> Q k c'"
  shows "wp (check_io_abort n) Q (poll_err c) (c :: fe_Context)"
proof (rule wpI)
  fix k c' assume "check_io_abort n c = (Inr k, c')"
  then show "Q k c'" using assms poll_frame_fields(1) [OF check_io_abort_Inr] by blast
next
  fix e c' assume e: "check_io_abort n c = (Inl e, c')"
  then have "\<exists>msg cl. e = FeError msg cl"
    by (auto simp: check_io_abort_def bnd_lift_st ret_def fe_error_def split: prod.splits option.splits)
  with e stepsD [OF check_io_abort_more e] show "poll_err c e c'"
    by (simp add: poll_err_def fixes_field_def)
qed

lemma poll_err_trans: "limit_ctx.more c1 = limit_ctx.more c \<Longrightarrow> poll_err c1 e c' \<Longrightarrow> poll_err c e c'"
  by (simp add: poll_err_def)

text \<open>What a table says depends on the cells and slabs only.\<close>

lemma key_bytes_more:
  assumes "limit_ctx.more c' = limit_ctx.more c"
  shows "key_bytes c' k = key_bytes c k" "typeof c' p = typeof c p" "obj_bytes c' p = obj_bytes c p"
    "slabs c' = slabs c"
proof -
  note f = more_fields(1,2) [OF assms]
  show t: "typeof c' p = typeof c p" for p by (simp only: typeof_def f)
  show b: "obj_bytes c' p = obj_bytes c p" for p by (rule obj_bytes_fields [OF f])
  show "key_bytes c' k = key_bytes c k" by (simp only: key_bytes_def t b)
  show "slabs c' = slabs c" by (rule f)
qed

definition is_string :: "fe_Context \<Rightarrow> ptr \<Rightarrow> string \<Rightarrow> bool" where
  "is_string c p s \<longleftrightarrow> typeof c p = FE_TSTRING \<and> obj_bytes c p = Some s"

lemma is_string_more:
  assumes "limit_ctx.more c' = limit_ctx.more c"
  shows "is_string c' p s = is_string c p s"
  by (simp add: is_string_def key_bytes_more [OF assms])

lemma key_bytes_Some: "key_bytes c k = Some s \<longleftrightarrow> (\<exists>p. k = Some p \<and> is_string c p s)"
  by (auto simp: key_bytes_def is_string_def split: option.splits)

lemma wp_equal_string:
  assumes "wf_slabs (slabs c)" and "is_string c a xs" and "is_string c b ys"
  shows "wp (equal a b) Q E c = Q (xs = ys) c"
  using equal_bytes [OF assms(1)] assms(2,3) by (simp add: is_string_def wp_Inr)

lemma wp_or_crash_Some: "wp (or_crash (Some x)) Q E c = Q x c"
  by (simp add: or_crash_def wp_simps)

lemma wf_map_used:
  assumes "wf_map c m" and "i < map_capacity m" and "map_states m ! i = MAP_USED"
  obtains k s v where "map_keys m ! i = Some k" "is_string c k s" "slot_key c m i = Some s"
    "on_path m s i" "map_values m ! i = Some v"
proof -
  from assms obtain s where s: "slot_key c m i = Some s" "on_path m s i" "map_values m ! i \<noteq> None"
    by (auto simp: wf_map_def)
  then show ?thesis using that assms(3) by (auto simp: slot_key_def key_bytes_Some)
qed

text \<open>The loop, with what it has seen so far: no empty slot and not the key.\<close>

text \<open>The first \<open>t\<close> slots of the probe sequence have been passed; \<open>tomb\<close> is the first tombstone among them.\<close>

definition probing :: "fe_Context \<Rightarrow> fe_Map \<Rightarrow> string \<Rightarrow> nat \<Rightarrow> nat option \<Rightarrow> bool" where
  "probing c m s t tomb \<longleftrightarrow> t \<le> map_capacity m \<and>
     (\<forall>j < t. map_states m ! probe_slot m s j \<noteq> MAP_EMPTY \<and> slot_key c m (probe_slot m s j) \<noteq> Some s) \<and>
     (\<forall>i. tomb = Some i \<longrightarrow> (\<exists>j < t. i = probe_slot m s j \<and> map_states m ! i = MAP_TOMBSTONE))"

lemma probing_path:
  assumes "probing c m s t tomb" "t < map_capacity m"
  shows "on_path m s (probe_slot m s t)" "tomb = Some i \<Longrightarrow> on_path m s i \<and> i < map_capacity m \<and> map_states m ! i = MAP_TOMBSTONE"
proof -
  show "on_path m s (probe_slot m s t)" using assms unfolding on_path_def probing_def by blast
  assume "tomb = Some i"
  with assms(1) obtain j where j: "j < t" "i = probe_slot m s j" "map_states m ! i = MAP_TOMBSTONE" unfolding probing_def by blast
  with assms show "on_path m s i \<and> i < map_capacity m \<and> map_states m ! i = MAP_TOMBSTONE"
    unfolding on_path_def probing_def by (auto intro!: exI [of _ j] probe_slot_less)
qed

lemma probing_passed:
  assumes "probing c m s t tomb" "t < map_capacity m"
  shows "map_states m ! probe_slot m s t = MAP_TOMBSTONE \<Longrightarrow> probing c m s (Suc t) (case tomb of Some i \<Rightarrow> Some i | None \<Rightarrow> Some (probe_slot m s t))"
    and "map_states m ! probe_slot m s t = MAP_USED \<Longrightarrow> slot_key c m (probe_slot m s t) \<noteq> Some s \<Longrightarrow> probing c m s (Suc t) tomb"
  using assms by (auto simp: probing_def less_Suc_eq slot_key_def split: option.splits)

text \<open>At an empty slot the search is over.\<close>

lemma probing_found:
  assumes "wf_map c m" "probing c m s t tomb" "t < map_capacity m" "map_states m ! probe_slot m s t = MAP_EMPTY"
  shows "found_at c m s (case tomb of Some i \<Rightarrow> i | None \<Rightarrow> probe_slot m s t) False"
proof -
  have "j < map_capacity m \<Longrightarrow> slot_key c m j \<noteq> Some s" for j
    by (rule empty_ends_search [OF assms(1) _ assms(4)]) (use assms(2) in \<open>auto simp: probing_def\<close>)
  then show ?thesis using assms(3,4) probing_path [OF assms(2,3)]
    by (auto simp: found_at_def probe_slot_less split: option.split)
qed

lemma wp_map_probe:
  assumes wf: "wf_map c m" "wf_slabs (slabs c)" and key: "is_string c key s"
  shows "n \<le> map_capacity m \<Longrightarrow> limit_ctx.more c1 = limit_ctx.more c \<Longrightarrow> probing c m s (map_capacity m - n) tomb \<Longrightarrow>
    wp (map_probe m key (unat (fnv1a s) mod map_capacity m) n tomb k)
      (\<lambda>(slot, found) c'. limit_ctx.more c' = limit_ctx.more c \<and> (\<exists>i. slot = Some i \<and> found_at c m s i found))
      (poll_err c) c1"
proof (induction n arbitrary: tomb k c1)
  case 0
  with probe_meets_empty [OF wf(1), of s] show ?case by (auto simp: probing_def)
next
  case (Suc n)
  let ?t = "map_capacity m - Suc n" and ?i = "probe_slot m s (map_capacity m - Suc n)"
  let ?Q = "\<lambda>(slot, found) c'. limit_ctx.more c' = limit_ctx.more c \<and> (\<exists>i. slot = Some i \<and> found_at c m s i found)"
  have t: "?t < map_capacity m" "Suc ?t = map_capacity m - n" "n \<le> map_capacity m" using Suc.prems(1) by linarith+
  note IH = Suc.IH [OF t(3), folded t(2)]
  have body: "wp (let slot = ?i in if map_states m ! slot = MAP_EMPTY then
           ret (case tomb of Some t \<Rightarrow> Some t | None \<Rightarrow> Some slot, False)
         else if map_states m ! slot = MAP_TOMBSTONE then
           map_probe m key (unat (fnv1a s) mod map_capacity m) n (case tomb of Some t \<Rightarrow> Some t | None \<Rightarrow> Some slot) k'
         else bnd (or_crash (map_keys m ! slot)) (\<lambda>k. bnd (equal k key) (\<lambda>eq.
           if eq then ret (Some slot, True)
           else map_probe m key (unat (fnv1a s) mod map_capacity m) n tomb k'))) ?Q (poll_err c) c2"
    if m2: "limit_ctx.more c2 = limit_ctx.more c" for k' c2
  proof (cases "map_states m ! ?i")
    case MAP_EMPTY
    with probing_found [OF wf(1) Suc.prems(3) t(1)] m2 show ?thesis by (auto simp: wp_simps split: option.splits)
  next
    case MAP_TOMBSTONE
    with IH [OF m2 probing_passed(1) [OF Suc.prems(3) t(1)]] show ?thesis by simp
  next
    case MAP_USED
    have i: "?i < map_capacity m" using t(1) by (simp add: probe_slot_less)
    from wf_map_used [OF wf(1) i MAP_USED] obtain kp ks where kp: "map_keys m ! ?i = Some kp"
      "is_string c kp ks" "slot_key c m ?i = Some ks" by metis
    have eq: "wp (equal kp key) Q E c2 = Q (ks = s) c2" for Q E
      by (rule wp_equal_string) (use wf(2) kp(2) key m2 in \<open>simp_all add: is_string_more [OF m2] key_bytes_more [OF m2]\<close>)
    from IH [OF m2 probing_passed(2) [OF Suc.prems(3) t(1) MAP_USED]] MAP_USED kp i probing_path(1) [OF Suc.prems(3) t(1)] m2
    show ?thesis by (auto simp: wp_simps wp_or_crash_Some eq found_at_def)
  qed
  show ?case
    unfolding map_probe.simps Let_def wp_bnd
    by (rule wp_mono [OF wp_check_io_abort [where Q = "\<lambda>k' c2. limit_ctx.more c2 = limit_ctx.more c"]])
      (use Suc.prems(2) body in \<open>auto simp: probe_slot_def Let_def wp_bnd elim: poll_err_trans [rotated]\<close>)
qed

lemma wp_hash_bytes:
  "limit_ctx.more c1 = limit_ctx.more c \<Longrightarrow>
   wp (hash_bytes bs h k) (\<lambda>(h', k') c'. h' = fold hash_char bs h \<and> limit_ctx.more c' = limit_ctx.more c)
     (poll_err c) c1"
proof (induction bs arbitrary: h k c1)
  case (Cons b bs)
  show ?case
    unfolding hash_bytes.simps wp_bnd
    by (rule wp_mono [OF wp_check_io_abort [where Q = "\<lambda>k c2. limit_ctx.more c2 = limit_ctx.more c"]])
      (use Cons in \<open>auto elim: poll_err_trans [rotated]\<close>)
qed (simp add: wp_simps)

lemma wp_hash_slabs:
  assumes "slab_bytes ss off n = Some bs"
  shows "limit_ctx.more c1 = limit_ctx.more c \<Longrightarrow>
    wp (hash_slabs ss off n h k) (\<lambda>h' c'. h' = fold hash_char bs h \<and> limit_ctx.more c' = limit_ctx.more c)
      (poll_err c) c1"
  using assms
proof (induction arbitrary: h k c1 rule: slab_bytes_induct)
  case Done
  then show ?case by (simp add: hash_slabs_done wp_simps)
next
  case (Slab off n slab rest)
  show ?case
    unfolding hash_slabs_step [OF Slab(1-3)] wp_bnd
    by (rule wp_mono [OF wp_hash_bytes [OF Slab.prems]]) (use Slab.IH in \<open>auto simp: wp_case_prod\<close>)
qed

lemma wp_hash_string_obj:
  assumes "is_string c p s"
  shows "wp (hash_string_obj p) (\<lambda>h c'. h = fnv1a s \<and> limit_ctx.more c' = limit_ctx.more c) (poll_err c) c"
proof -
  from assms have "obj_bytes c p = Some s" by (simp add: is_string_def)
  then obtain n off where a: "FE_STR_LEN p c = (Inr n, c)" "str_head p c = (Inr off, c)"
    "slab_bytes (slabs c) off n = Some s" by (rule obj_bytesE)
  show ?thesis
    using wp_hash_slabs [OF a(3) refl [of "limit_ctx.more c"]]
    by (simp add: hash_string_obj_def wp_bnd wp_Inr [of "FE_STR_LEN p", OF a(1)]
        wp_Inr [of "str_head p", OF a(2)] wp_gets fnv1a_def)
qed

lemma wp_map_find_slot:
  assumes wf: "wf_map c m" "wf_slabs (slabs c)" and key: "is_string c key s"
  shows "wp (map_find_slot m key)
      (\<lambda>(slot, found) c'. limit_ctx.more c' = limit_ctx.more c \<and> (\<exists>i. slot = Some i \<and> found_at c m s i found))
      (poll_err c) c"
proof -
  have "map_capacity m \<noteq> 0" using wf(1) by (auto simp: wf_map_def)
  then show ?thesis
    unfolding map_find_slot_def
    by (simp add: wp_bnd, intro wp_mono [OF wp_hash_string_obj [OF key]])
      (auto intro!: wp_map_probe [OF wf key] simp: probing_def)
qed

section \<open>Writing\<close>

lemma on_path_mono:
  assumes "on_path m s i" and "map_capacity m' = map_capacity m"
    and "\<And>j. j < map_capacity m \<Longrightarrow> map_states m ! j \<noteq> MAP_EMPTY \<Longrightarrow> map_states m' ! j \<noteq> MAP_EMPTY"
  shows "on_path m' s i"
proof -
  have p: "probe_slot m' = probe_slot m" by (simp add: fun_eq_iff probe_slot_def assms(2))
  from assms(1) obtain n where n: "n < map_capacity m" "i = probe_slot m s n"
    "\<forall>j < n. map_states m ! probe_slot m s j \<noteq> MAP_EMPTY" by (auto simp: on_path_def)
  then show ?thesis
    unfolding on_path_def p assms(2)
    by (intro exI [of _ n]) (simp, metis assms(3) gr_implies_not0 neq0_conv probe_slot_less)
qed

text \<open>Writing one slot: a table with a new entry for \<open>s\<close> at a slot the search reported.\<close>

lemma map_write_rep:
  assumes rep: "map_rep c m f" and at: "found_at c m s i found" and key: "is_string c key s"
    and m': "map_capacity m' = map_capacity m" "map_states m' = (map_states m)[i := MAP_USED]"
      "map_values m' = (map_values m)[i := Some v]"
      "map_keys m' = (if found then map_keys m else (map_keys m)[i := Some key])"
      "map_count m' = (if found then map_count m else map_count m + 1)"
      "map_used m' = (if map_states m ! i = MAP_EMPTY then map_used m + 1 else map_used m)"
    and room: "map_used m' < int (map_capacity m)"
  shows "map_rep c m' (f(s \<mapsto> v))"
proof -
  have wf: "wf_map c m" and i: "i < map_capacity m" using rep at by (simp_all add: map_rep_def found_at_def)
  have len: "length (map_states m) = map_capacity m" "length (map_keys m) = map_capacity m"
    "length (map_values m) = map_capacity m" using wf by (simp_all add: wf_map_def)
  have used: "found \<Longrightarrow> map_states m ! i = MAP_USED" "\<not> found \<Longrightarrow> map_states m ! i \<noteq> MAP_USED"
    using at by (auto simp: found_at_def slot_key_def split: if_splits)
  have sk: "slot_key c m' j = (if j = i then Some s else slot_key c m j)" if "j < map_capacity m" for j
    using that at key i len by (auto simp: slot_key_def m' found_at_def key_bytes_Some nth_list_update split: if_splits)
  have other: "slot_key c m j \<noteq> Some s" if "j < map_capacity m" "j \<noteq> i" for j
    using that at wf i by (auto simp: found_at_def wf_map_def split: if_splits)
  have path: "on_path m t j \<Longrightarrow> on_path m' t j" for t j
    by (rule on_path_mono [of m]) (use i len in \<open>auto simp: m' nth_list_update\<close>)
  have val: "map_values m' ! j = (if j = i then Some v else map_values m ! j)" if "j < map_capacity m" for j
    using that len by (simp add: m' nth_list_update)
  have "\<exists>t. slot_key c m' j = Some t \<and> on_path m' t j"
    and "map_values m' ! j \<noteq> None" if "j < map_capacity m" "map_states m' ! j = MAP_USED" for j
  proof -
    have "map_states m ! j = MAP_USED" if "j \<noteq> i" using that \<open>map_states m' ! j = MAP_USED\<close> by (simp add: m')
    with wf that(1) sk path val at show "\<exists>t. slot_key c m' j = Some t \<and> on_path m' t j" "map_values m' ! j \<noteq> None"
      by (auto simp: wf_map_def found_at_def)
  qed
  moreover have "j = k" if "j < map_capacity m" "k < map_capacity m" "slot_key c m' j = slot_key c m' k"
      "slot_key c m' j \<noteq> None" for j k
    using that sk other wf by (auto simp: wf_map_def split: if_splits)
  moreover have "map_count m' = int (length (filter (\<lambda>st. st = MAP_USED) (map_states m')))"
    using length_filter_update [of i "map_states m" "\<lambda>st. st = MAP_USED" MAP_USED] used wf i len
    by (auto simp: m' wf_map_def split: if_splits)
  moreover have "map_used m' = int (length (filter (\<lambda>st. st \<noteq> MAP_EMPTY) (map_states m')))"
    using length_filter_update [of i "map_states m" "\<lambda>st. st \<noteq> MAP_EMPTY" MAP_USED] wf i len
    by (auto simp: m' wf_map_def split: if_splits)
  ultimately have "wf_map c m'"
    using room len wf unfolding wf_map_def by (simp add: m')
  moreover have "(f(s \<mapsto> v)) t = Some w \<longleftrightarrow> (\<exists>j < map_capacity m. slot_key c m' j = Some t \<and> map_values m' ! j = Some w)" for t w
  proof (cases "t = s")
    case True
    have "slot_key c m' j = Some s \<longleftrightarrow> j = i" if "j < map_capacity m" for j
      using sk [OF that] other [OF that] by auto
    with True i val [OF i] show ?thesis by auto
  next
    case False
    have "slot_key c m i \<noteq> Some t" using False at by (auto simp: found_at_def slot_key_def split: if_splits)
    then have "(slot_key c m' j = Some t \<and> map_values m' ! j = Some w) =
        (slot_key c m j = Some t \<and> map_values m ! j = Some w)" if "j < map_capacity m" for j
      using sk [OF that] val [OF that] False by auto
    with False rep show ?thesis by (auto simp: map_rep_def)
  qed
  ultimately show ?thesis by (simp add: map_rep_def m')
qed

lemma map_erase_rep:
  assumes rep: "map_rep c m f" and at: "found_at c m s i True"
  shows "map_rep c (map_erase m i) (f(s := None))"
proof -
  let ?m = "map_erase m i"
  have wf: "wf_map c m" and i: "i < map_capacity m" and si: "slot_key c m i = Some s"
    using rep at by (simp_all add: map_rep_def found_at_def)
  have len: "length (map_states m) = map_capacity m" "length (map_keys m) = map_capacity m"
    "length (map_values m) = map_capacity m" using wf by (simp_all add: wf_map_def)
  have used: "map_states m ! i = MAP_USED" using si by (simp add: slot_key_def split: if_splits)
  have sk: "slot_key c ?m j = (if j = i then None else slot_key c m j)" if "j < map_capacity m" for j
    using that len by (auto simp: slot_key_def map_erase_def nth_list_update)
  have val: "map_values ?m ! j = map_values m ! j" if "j \<noteq> i" for j
    using that by (simp add: map_erase_def)
  have path: "on_path m t j \<Longrightarrow> on_path ?m t j" for t j
    by (rule on_path_mono [of m]) (use i len in \<open>auto simp: map_erase_def nth_list_update\<close>)
  have "map_values ?m ! j \<noteq> None \<and> (\<exists>t. slot_key c ?m j = Some t \<and> on_path ?m t j)"
    if "j < map_capacity m" "map_states ?m ! j = MAP_USED" for j
  proof -
    have "j \<noteq> i" using that(2) i len by (auto simp: map_erase_def)
    moreover from this that(2) have "map_states m ! j = MAP_USED" by (simp add: map_erase_def)
    ultimately show ?thesis using wf that(1) sk path val by (auto simp: wf_map_def)
  qed
  moreover have "j = k" if "j < map_capacity m" "k < map_capacity m" "slot_key c ?m j = slot_key c ?m k"
      "slot_key c ?m j \<noteq> None" for j k
    using that sk wf by (auto simp: wf_map_def split: if_splits)
  moreover have "map_count ?m = int (length (filter (\<lambda>st. st = MAP_USED) (map_states ?m)))"
    using length_filter_update [of i "map_states m" "\<lambda>st. st = MAP_USED" MAP_TOMBSTONE] used wf i len
    by (auto simp: map_erase_def wf_map_def)
  moreover have "map_used ?m = int (length (filter (\<lambda>st. st \<noteq> MAP_EMPTY) (map_states ?m)))"
    using length_filter_update [of i "map_states m" "\<lambda>st. st \<noteq> MAP_EMPTY" MAP_TOMBSTONE] used wf i len
    by (auto simp: map_erase_def wf_map_def)
  ultimately have "wf_map c ?m"
    using len wf unfolding wf_map_def by (simp add: map_erase_def)
  moreover have "(f(s := None)) t = Some w \<longleftrightarrow> (\<exists>j < map_capacity m. slot_key c ?m j = Some t \<and> map_values ?m ! j = Some w)" for t w
  proof (cases "t = s")
    case True
    have "slot_key c m j \<noteq> Some s" if "j < map_capacity m" "j \<noteq> i" for j
      using that si wf i by (auto simp: wf_map_def)
    then have "slot_key c ?m j \<noteq> Some s" if "j < map_capacity m" for j
      using sk [OF that] that by (cases "j = i") auto
    with True show ?thesis by auto
  next
    case False
    then have "(slot_key c ?m j = Some t \<and> map_values ?m ! j = Some w) =
        (slot_key c m j = Some t \<and> map_values m ! j = Some w)" if "j < map_capacity m" for j
      using sk [OF that] val si by auto
    with False rep show ?thesis by (auto simp: map_rep_def)
  qed
  ultimately show ?thesis by (simp add: map_rep_def map_erase_def)
qed

lemma empty_map_rep: "8 \<le> n \<Longrightarrow> map_rep c (empty_map n) Map.empty"
  by (simp add: map_rep_def wf_map_def empty_map_def slot_key_def)

section \<open>Growing\<close>

lemma tracked_alloc_moreD: "tracked_alloc sz c = (r, c') \<Longrightarrow> limit_ctx.more c' = limit_ctx.more c"
  using more_tracked_alloc [of sz c] by simp

lemma map_alloc_run:
  "\<exists>r c'. map_alloc n c = (Inr r, c') \<and> limit_ctx.more c' = limit_ctx.more c \<and> (r = None \<or> r = Some (empty_map n))"
  by (auto simp: map_alloc_def bnd_lift_st sq_modify ret_def split: prod.split dest!: tracked_alloc_moreD)

lemma grow_target_enough:
  "0 < target \<Longrightarrow> target \<le> grow_target used target \<and> (used + 1) * 4 < int (grow_target used target) * 3"
proof (induction used target rule: grow_target.induct)
  case (1 used target)
  show ?case
  proof (cases "(used + 1) * 4 \<ge> int target * 3")
    case True
    with 1 show ?thesis by (subst (1 2) grow_target.simps) auto
  next
    case False
    then show ?thesis by (subst (1 2) grow_target.simps) auto
  qed
qed

lemma free_arrays_run: "\<exists>c'. free_arrays n c = (Inr (), c') \<and> limit_ctx.more c' = limit_ctx.more c"
  by (simp add: free_arrays_def comp_defs)

text \<open>The entries of the first \<open>i\<close> slots.\<close>

definition keys_below :: "fe_Context \<Rightarrow> fe_Map \<Rightarrow> nat \<Rightarrow> string set" where
  "keys_below c m i = {s. \<exists>j < i. slot_key c m j = Some s}"

lemma keys_below_all:
  assumes "map_rep c m f"
  shows "f |` keys_below c m (map_capacity m) = f"
proof
  fix s
  from assms show "(f |` keys_below c m (map_capacity m)) s = f s"
    by (cases "f s") (auto simp: restrict_map_def keys_below_def map_rep_def)
qed

lemma keys_below_Suc:
  "keys_below c m (Suc i) = (case slot_key c m i of Some s \<Rightarrow> insert s (keys_below c m i) | None \<Rightarrow> keys_below c m i)"
  by (auto simp: keys_below_def less_Suc_eq split: option.split)

definition used_below :: "fe_Map \<Rightarrow> nat \<Rightarrow> nat" where
  "used_below m i = length (filter (\<lambda>st. st = MAP_USED) (take i (map_states m)))"

lemma used_below_Suc:
  "i < length (map_states m) \<Longrightarrow> used_below m (Suc i) = used_below m i + (if map_states m ! i = MAP_USED then 1 else 0)"
  by (simp add: used_below_def take_Suc_conv_app_nth)

lemma used_below_bound:
  assumes "wf_map c m"
  shows "int (used_below m i) \<le> map_used m"
proof -
  have "length (filter P (take i xs)) \<le> length (filter P xs)" for P and xs :: "slot_state list"
    by (metis append_take_drop_id filter_append le_add1 length_append)
  moreover have "length (filter (\<lambda>st. st = MAP_USED) xs) \<le> length (filter (\<lambda>st. st \<noteq> MAP_EMPTY) xs)" for xs
    by (induction xs) auto
  ultimately show ?thesis using assms unfolding used_below_def wf_map_def by (metis le_trans of_nat_le_iff)
qed

text \<open>What holds between the old table and the new one after \<open>i\<close> slots.\<close>

definition rehashed :: "fe_Context \<Rightarrow> fe_Map \<Rightarrow> (string \<rightharpoonup> ptr) \<Rightarrow> nat \<Rightarrow> fe_Map \<Rightarrow> bool" where
  "rehashed c m f i g \<longleftrightarrow> map_rep c g (f |` keys_below c m i) \<and> MAP_TOMBSTONE \<notin> set (map_states g) \<and>
     map_used g = int (used_below m i) \<and> map_used m + 1 < int (map_capacity g)"

lemma rehashed_step:
  assumes rep: "map_rep c m f" and i: "i < map_capacity m" and g: "rehashed c m f i g"
    and used: "map_states m ! i = MAP_USED" and key: "map_keys m ! i = Some k" "is_string c k s"
    and at: "found_at c g s slot found"
  shows "rehashed c m f (Suc i) (map_fill g slot (Some k) (map_values m ! i))"
proof -
  have wf: "wf_map c m" using rep by (simp add: map_rep_def)
  have si: "slot_key c m i = Some s" using used key by (auto simp: slot_key_def key_bytes_Some)
  from wf_map_used [OF wf i used] obtain v where v: "map_values m ! i = Some v" by metis
  have fs: "f s = Some v" using rep i si v by (auto simp: map_rep_def)
  have "s \<notin> keys_below c m i"
  proof
    assume "s \<in> keys_below c m i"
    then obtain j where j: "j < i" "slot_key c m j = Some s" by (auto simp: keys_below_def)
    with si wf i have "j = i" unfolding wf_map_def by (metis less_trans option.distinct(1))
    with j show False by simp
  qed
  moreover have "s \<in> keys_below c m i" if found
  proof -
    from that at have g': "slot < map_capacity g" "slot_key c g slot = Some s" by (simp_all add: found_at_def)
    then have "map_states g ! slot = MAP_USED" by (simp add: slot_key_def split: if_splits)
    moreover have "wf_map c g" using g by (simp add: rehashed_def map_rep_def)
    ultimately obtain w where "map_values g ! slot = Some w" using g'(1) by (blast elim: wf_map_used)
    with g g' have "(f |` keys_below c m i) s = Some w" by (auto simp: rehashed_def map_rep_def)
    then show ?thesis by (simp add: restrict_map_def split: if_splits)
  qed
  ultimately have "\<not> found" by blast
  then have e: "map_states g ! slot = MAP_EMPTY" "slot < map_capacity g"
  proof -
    show "slot < map_capacity g" using at by (simp add: found_at_def)
    then have "map_states g ! slot \<in> set (map_states g)"
      using g by (simp add: rehashed_def map_rep_def wf_map_def)
    with at g \<open>\<not> found\<close> show "map_states g ! slot = MAP_EMPTY"
      by (cases "map_states g ! slot") (auto simp: found_at_def rehashed_def)
  qed
  have len: "i < length (map_states m)" using wf i by (simp add: wf_map_def)
  have cnt: "map_used g + 1 = int (used_below m (Suc i))" using used_below_Suc [OF len] used g by (simp add: rehashed_def)
  have "map_rep c (map_fill g slot (Some k) (Some v)) ((f |` keys_below c m i)(s \<mapsto> v))"
    by (rule map_write_rep [where m = g and i = slot and found = found and key = k])
      (use g at key e \<open>\<not> found\<close> cnt used_below_bound [OF wf, of "Suc i"] in
        \<open>auto simp: map_fill_def rehashed_def\<close>)
  moreover have "(f |` keys_below c m i)(s \<mapsto> v) = f |` keys_below c m (Suc i)"
    using fs by (auto simp: keys_below_Suc si restrict_map_def fun_eq_iff)
  moreover have "MAP_TOMBSTONE \<notin> set ((map_states g)[slot := MAP_USED])"
    using g by (auto simp: rehashed_def dest!: subsetD [OF set_update_subset_insert])
  ultimately show ?thesis using g cnt v by (simp add: rehashed_def map_fill_def)
qed

lemma wp_map_rehash:
  assumes rep: "map_rep c m f" and wf: "wf_slabs (slabs c)"
  shows "i \<le> map_capacity m \<Longrightarrow> rehashed c m f i g \<Longrightarrow> limit_ctx.more c1 = limit_ctx.more c \<Longrightarrow>
    wp (map_rehash m [i..<map_capacity m] k g)
      (\<lambda>r c'. limit_ctx.more c' = limit_ctx.more c \<and> (\<exists>g'. r = Some g' \<and> rehashed c m f (map_capacity m) g'))
      (poll_err c) c1"
proof (induction "map_capacity m - i" arbitrary: i g k c1)
  case 0
  then show ?case by (auto simp: wp_simps)
next
  case (Suc n)
  then have i: "i < map_capacity m" and wfm: "wf_map c m" using rep by (simp_all add: map_rep_def)
  have IH: "wp (map_rehash m [Suc i..<map_capacity m] k' g')
      (\<lambda>r c'. limit_ctx.more c' = limit_ctx.more c \<and> (\<exists>g'. r = Some g' \<and> rehashed c m f (map_capacity m) g'))
      (poll_err c) c2" if "rehashed c m f (Suc i) g'" "limit_ctx.more c2 = limit_ctx.more c" for k' g' c2
    using that Suc.hyps i by auto
  have len: "i < length (map_states m)" using wfm i by (simp add: wf_map_def)
  have "wp (if map_states m ! i \<noteq> MAP_USED then map_rehash m [Suc i..<map_capacity m] k' g
     else bnd (or_crash (map_keys m ! i)) (\<lambda>k. bnd (map_find_slot g k) (\<lambda>(slot, found).
       case slot of
         None \<Rightarrow> sq (free_map g) (ret None)
       | Some s \<Rightarrow> map_rehash m [Suc i..<map_capacity m] k' (map_fill g s (Some k) (map_values m ! i)))))
      (\<lambda>r c'. limit_ctx.more c' = limit_ctx.more c \<and> (\<exists>g'. r = Some g' \<and> rehashed c m f (map_capacity m) g'))
      (poll_err c) c2" if m2: "limit_ctx.more c2 = limit_ctx.more c" for k' c2
  proof (cases "map_states m ! i = MAP_USED")
    case False
    then have "rehashed c m f (Suc i) g"
      using Suc.prems(2) used_below_Suc [OF len] by (simp add: rehashed_def keys_below_Suc slot_key_def)
    with False IH [OF _ m2] show ?thesis by simp
  next
    case True
    from wf_map_used [OF wfm i True] obtain kp s where key: "map_keys m ! i = Some kp" "is_string c kp s" by metis
    have wg: "wf_map c2 g"
      using Suc.prems(2) by (simp add: rehashed_def map_rep_def wf_map_def slot_key_def key_bytes_more [OF m2])
    have fa: "found_at c2 g = found_at c g"
      by (simp add: fun_eq_iff found_at_def slot_key_def key_bytes_more [OF m2])
    have "wp (map_find_slot g kp) (\<lambda>(slot, found) c'. limit_ctx.more c' = limit_ctx.more c2 \<and>
        (\<exists>j. slot = Some j \<and> found_at c2 g s j found)) (poll_err c2) c2"
      by (rule wp_map_find_slot [OF wg]) (use wf key in \<open>simp_all add: is_string_more [OF m2] key_bytes_more [OF m2]\<close>)
    then have "wp (map_find_slot g kp) (\<lambda>(slot, found) c'. limit_ctx.more c' = limit_ctx.more c \<and>
        (\<exists>j. slot = Some j \<and> found_at c g s j found)) (poll_err c) c2"
      by (rule wp_mono) (use m2 fa in \<open>auto elim: poll_err_trans [rotated]\<close>)
    then show ?thesis
      unfolding key wp_bnd wp_or_crash_Some
      by (subst if_not_P, simp add: True, simp only: wp_bnd wp_or_crash_Some)
        (erule wp_mono, use rehashed_step [OF rep i Suc.prems(2) True key] in \<open>auto intro!: IH\<close>)
  qed
  then show ?case
    unfolding upt_conv_Cons [OF i] map_rehash.simps wp_bnd
    by (intro wp_mono [OF wp_check_io_abort [where Q = "\<lambda>k c2. limit_ctx.more c2 = limit_ctx.more c"]])
      (use Suc.prems(3) in \<open>auto simp: wp_bnd elim: poll_err_trans [rotated]\<close>)
qed

lemma wp_map_resize:
  assumes rep: "map_rep c m f" and wf: "wf_slabs (slabs c)" and cap: "8 \<le> cap" "map_used m + 1 < int cap"
  shows "wp (map_resize m cap)
      (\<lambda>r c'. limit_ctx.more c' = limit_ctx.more c \<and>
         (\<forall>g. r = Some g \<longrightarrow> map_rep c g f \<and> map_used g + 1 < int (map_capacity g)))
      (poll_err c) c"
proof -
  from map_alloc_run obtain r c1 where r: "map_alloc cap c = (Inr r, c1)"
    "limit_ctx.more c1 = limit_ctx.more c" "r = None \<or> r = Some (empty_map cap)" by blast
  have start: "rehashed c m f 0 (empty_map cap)"
    using empty_map_rep [OF cap(1), of c] cap(2)
    by (simp add: rehashed_def keys_below_def used_below_def empty_map_def)
  have fin: "map_rep c g f \<and> map_used g + 1 < int (map_capacity g)" if "rehashed c m f (map_capacity m) g" for g
    using that used_below_bound [of c m "map_capacity m"] rep keys_below_all [OF rep]
    by (auto simp: rehashed_def map_rep_def)
  have tail: "wp (sq (free_arrays n) (sq (modify (tracked_free b)) (ret x))) Q E c2"
    if "\<And>c3. limit_ctx.more c3 = limit_ctx.more c2 \<Longrightarrow> Q x c3" for Q E n b x c2
    using free_arrays_run [of n c2] that by (auto simp: wp_def comp_defs)
  show ?thesis
  proof (cases r)
    case None
    with r show ?thesis by (simp add: map_resize_def wp_bnd wp_Inr [of "map_alloc cap", OF r(1)] wp_simps)
  next
    case (Some g0)
    with r(3) have "g0 = empty_map cap" by simp
    with Some show ?thesis
      unfolding map_resize_def wp_bnd wp_Inr [of "map_alloc cap", OF r(1)]
      by (simp add: wp_bnd, intro wp_mono [OF wp_map_rehash [OF rep wf _ start r(2)]])
        (auto intro!: tail simp: fin)
  qed
qed

lemma wp_map_ensure_capacity:
  assumes rep: "map_rep c m f" and wf: "wf_slabs (slabs c)"
  shows "wp (map_ensure_capacity m)
      (\<lambda>r c'. limit_ctx.more c' = limit_ctx.more c \<and>
         (\<forall>g. r = Some g \<longrightarrow> map_rep c g f \<and> map_used g + 1 < int (map_capacity g)))
      (poll_err c) c"
proof (cases "(map_used m + 1) * 4 < int (map_capacity m) * 3")
  case True
  with rep show ?thesis by (auto simp: map_ensure_capacity_def wp_simps map_rep_def wf_map_def)
next
  case False
  have c8: "8 \<le> map_capacity m" using rep by (simp add: map_rep_def wf_map_def)
  with grow_target_enough [of "map_capacity m" "map_used m"] False show ?thesis
    by (auto simp: map_ensure_capacity_def intro!: wp_map_resize [OF rep wf])
qed

section \<open>The operations on map objects\<close>

text \<open>Overwriting a live cell that owns no slabs with another such cell.\<close>

lemma heap_inv_overwrite:
  assumes inv: "heap_inv X P c" and i: "i < length (objects c)" "ty (objects c ! i) \<noteq> FE_TFREE"
    "\<not> is_data (objects c ! i)"
    and o': "gc_ok o'" "\<not> mark o'" "ty o' \<noteq> FE_TFREE" "\<not> is_data o'"
  shows "heap_inv X P (c\<lparr>objects := (objects c)[i := o']\<rparr>)"
proof -
  let ?c = "c\<lparr>objects := (objects c)[i := o']\<rparr>"
  from inv obtain fs fl chs where g: "\<forall>o' \<in> set (objects c). gc_ok o' \<and> (ty o' \<noteq> FE_TFREE \<longrightarrow> \<not> mark o')"
    and fs: "free_chain (objects c) (freelist c) fs" and s: "slab_inv X P c fl chs"
    and w: "wf_slabs (slabs c)" "wf_spans c" by (rule heap_invE)
  have nf: "i \<notin> set fs" using free_chain_free [OF fs] i(2) by blast
  show ?thesis
  proof (rule heap_invI)
    show "free_chain (objects ?c) (freelist ?c) fs"
      by simp (rule free_chain_cong [OF fs], use nf in \<open>auto simp: nth_update_notin\<close>)
    have cell: "if is_data (objects ?c ! j) \<and> j \<notin> X then data_ok (slabs ?c) (objects ?c ! j) (chs ! j)
        else chs ! j = []" if "j < length (objects c)" for j
      using s that i o'(4) by (cases "j = i") (auto simp: slab_inv_def)
    show "slab_inv X P ?c fl chs"
      unfolding slab_inv_def
    proof (intro conjI allI impI)
      show "length chs = length (objects ?c)" "slab_chain (slabs ?c) (str_freelist ?c) fl"
        "distinct (fl @ P @ concat chs)" using s unfolding slab_inv_def by simp_all
    qed (rule cell, simp)
    show "\<forall>x \<in> set (objects ?c). gc_ok x \<and> (ty x \<noteq> FE_TFREE \<longrightarrow> \<not> mark x)"
      using set_update_subset_insert [of "objects c" i o'] g o' by auto
  qed (use w in \<open>simp_all add: wf_spans_def\<close>)
qed

text \<open>\<open>map_at p c f\<close>: the heap is well formed and the object \<open>p\<close> is a map that represents \<open>f\<close>.\<close>

definition map_at :: "ptr \<Rightarrow> fe_Context \<Rightarrow> (string \<rightharpoonup> ptr) \<Rightarrow> bool" where
  "map_at p c f \<longleftrightarrow> heap_inv {} [] c \<and> (\<exists>i m. p = Ref i \<and> i < length (objects c) \<and>
     ty (objects c ! i) = FE_TMAP \<and> ocdr (objects c ! i) = VMap (Some m) \<and> map_rep c m f)"

text \<open>The byte string a key stands for: a string, or the name of a symbol.\<close>

definition key_name :: "fe_Context \<Rightarrow> ptr \<Rightarrow> string \<Rightarrow> bool" where
  "key_name c k s \<longleftrightarrow> is_string c k s \<or>
     (\<exists>i d n. k = Ref i \<and> i < length (objects c) \<and> ty (objects c ! i) = FE_TSYMBOL \<and>
        ocdr (objects c ! i) = VObj (Ref d) \<and> d < length (objects c) \<and> ty (objects c ! d) = FE_TPAIR \<and>
        ocar (objects c ! d) = VObj n \<and> is_string c n s)"

lemma wp_normalize_map_key:
  assumes "key_name c k s" and "\<And>p. is_string c p s \<Longrightarrow> Q p c"
  shows "wp (normalize_map_key k) Q E c"
  using assms unfolding key_name_def
proof (elim disjE exE conjE)
  assume k: "is_string c k s"
  with assms(2) show ?thesis by (simp add: normalize_map_key_def wp_simps is_string_def)
next
  fix i d n
  assume h: "k = Ref i" "i < length (objects c)" "ty (objects c ! i) = FE_TSYMBOL"
    "ocdr (objects c ! i) = VObj (Ref d)" "d < length (objects c)" "ocar (objects c ! d) = VObj n"
    "is_string c n s"
  then have "cdr k c = (Inr (Ref d), c)" "car (Ref d) c = (Inr n, c)" by (simp_all add: cdr_Ref car_Ref)
  with h assms(2) show ?thesis
    by (simp add: normalize_map_key_def wp_simps typeof_def) (simp add: wp_def)
qed

lemma is_string_set_map:
  assumes "ty (objects c ! i) = FE_TMAP"
  shows "is_string (c\<lparr>objects := (objects c)[i := (objects c ! i)\<lparr>ocdr := v\<rparr>]\<rparr>) p s = is_string c p s"
proof (cases "p = Ref i")
  case True
  with assms show ?thesis by (simp add: is_string_def typeof_def)
next
  case False
  then show ?thesis
    by (cases p) (auto simp: is_string_def typeof_def obj_bytes_def split: val.splits ptr.splits)
qed

lemma map_rep_cong:
  assumes "\<And>p s. is_string c' p s = is_string c p s"
  shows "map_rep c' m f = map_rep c m f"
proof -
  have "key_bytes c' k = key_bytes c k" for k
    using key_bytes_Some [of c' k] key_bytes_Some [of c k] assms by (metis not_Some_eq)
  then show ?thesis by (simp add: map_rep_def wf_map_def slot_key_def)
qed

lemma map_rep_gc_ok:
  assumes "map_rep c m f"
  shows "slots_ok (map_slots m)"
proof -
  have wf: "wf_map c m" using assms by (simp add: map_rep_def)
  then have len: "length (map_states m) = map_capacity m" by (simp add: wf_map_def)
  have "map_keys m ! i \<noteq> None \<and> map_values m ! i \<noteq> None"
    if "i < length (map_states m)" "map_states m ! i = MAP_USED" for i
  proof -
    from that len have "i < map_capacity m" by simp
    from wf_map_used [OF wf this that(2)] show ?thesis by (metis option.distinct(1))
  qed
  then show ?thesis by (auto simp: slots_ok_def map_slots_def set_zip)
qed

lemma key_name_mono:
  assumes "key_name c k s" and "length (objects c') = length (objects c)"
    and "\<And>p s. is_string c p s \<Longrightarrow> is_string c' p s"
    and "\<And>j. objects c' ! j = objects c ! j \<or> ty (objects c ! j) = FE_TMAP"
  shows "key_name c' k s"
  using assms(1) unfolding key_name_def
proof (elim disjE exE conjE)
  fix i d n
  assume h: "k = Ref i" "i < length (objects c)" "ty (objects c ! i) = FE_TSYMBOL"
    "ocdr (objects c ! i) = VObj (Ref d)" "d < length (objects c)" "ty (objects c ! d) = FE_TPAIR"
    "ocar (objects c ! d) = VObj n" "is_string c n s"
  then have "objects c' ! i = objects c ! i" "objects c' ! d = objects c ! d"
    using assms(4) [of i] assms(4) [of d] by auto
  with h assms(2,3) show "is_string c' k s \<or> (\<exists>i d n. k = Ref i \<and> i < length (objects c') \<and>
      ty (objects c' ! i) = FE_TSYMBOL \<and> ocdr (objects c' ! i) = VObj (Ref d) \<and> d < length (objects c') \<and>
      ty (objects c' ! d) = FE_TPAIR \<and> ocar (objects c' ! d) = VObj n \<and> is_string c' n s)"
    by auto
qed (simp add: assms(3))

text \<open>Writing a map back keeps the heap and what every key stands for.\<close>

lemma set_mapdata_at:
  assumes at: "map_at (Ref i) c f" and m1: "limit_ctx.more c1 = limit_ctx.more c" and rep: "map_rep c m g"
  shows "wp (set_mapdata (Ref i) m) (\<lambda>_ c'. map_at (Ref i) c' g \<and> key_name c' = key_name c \<and>
      is_string c' = is_string c \<and> c' = c1\<lparr>objects := (objects c1)[i := (objects c1 ! i)\<lparr>ocdr := VMap (Some m)\<rparr>]\<rparr>) E c1"
proof -
  note f = more_fields [OF m1]
  have inv: "heap_inv {} [] c1" by (rule heap_inv_more [OF _ m1]) (use at in \<open>simp add: map_at_def\<close>)
  have i: "i < length (objects c1)" "ty (objects c1 ! i) = FE_TMAP" using at f(1) by (simp_all add: map_at_def)
  let ?o = "(objects c1 ! i)\<lparr>ocdr := VMap (Some m)\<rparr>"
  let ?c = "c1\<lparr>objects := (objects c1)[i := ?o]\<rparr>"
  have str: "is_string ?c p s = is_string c p s" for p s
    using is_string_set_map [OF i(2)] is_string_more [OF m1] by simp
  have "\<not> mark (objects c1 ! i)" using inv i by (auto simp: heap_inv_def)
  then have "heap_inv {} [] ?c"
    by (intro heap_inv_overwrite [OF inv]) (use i map_rep_gc_ok [OF rep] in \<open>simp_all add: is_data_def gc_ok_def\<close>)
  moreover have "map_rep ?c m g" using rep map_rep_cong [of ?c c] str by simp
  moreover have "key_name ?c k s = key_name c k s" for k s
  proof
    show "key_name c k s" if "key_name ?c k s"
      by (rule key_name_mono [OF that]) (use i str f(1) in \<open>auto simp: nth_list_update\<close>)
    show "key_name ?c k s" if "key_name c k s"
      by (rule key_name_mono [OF that]) (use i str f(1) in \<open>auto simp: nth_list_update\<close>)
  qed
  ultimately show ?thesis
    using i str by (simp add: set_mapdata_def wp_upd_cell map_at_def fun_eq_iff)
qed

text \<open>The contract of the operations, over any state that represents a finite map.\<close>

datatype 'k map_op = Map_set 'k ptr | Map_get 'k | Map_has 'k | Map_delete 'k | Map_count

datatype map_res = RVal ptr | RBool bool | RInt int

fun spec_op :: "string map_op \<Rightarrow> (string \<rightharpoonup> ptr) \<Rightarrow> map_res \<times> (string \<rightharpoonup> ptr)" where
  "spec_op (Map_set s v) f = (RBool True, f(s \<mapsto> v))"
| "spec_op (Map_get s) f = (RVal (case f s of Some v \<Rightarrow> v | None \<Rightarrow> Nil), f)"
| "spec_op (Map_has s) f = (RBool (f s \<noteq> None), f)"
| "spec_op (Map_delete s) f = (RBool (f s \<noteq> None), f(s := None))"
| "spec_op Map_count f = (RInt (int (card (dom f))), f)"

fun spec_run :: "string map_op list \<Rightarrow> (string \<rightharpoonup> ptr) \<Rightarrow> map_res list \<times> (string \<rightharpoonup> ptr)" where
  "spec_run [] f = ([], f)"
| "spec_run (op # ops) f =
     (let (r, f') = spec_op op f; (rs, f'') = spec_run ops f' in (r # rs, f''))"

definition run_op :: "ptr \<Rightarrow> ptr map_op \<Rightarrow> map_res fcomp" where
  "run_op p op = (case op of
      Map_set k v \<Rightarrow> bnd (fe_map_set p k v) (\<lambda>b. ret (RBool b))
    | Map_get k \<Rightarrow> bnd (fe_map_get p k) (\<lambda>v. ret (RVal v))
    | Map_has k \<Rightarrow> bnd (fe_map_has p k) (\<lambda>b. ret (RBool b))
    | Map_delete k \<Rightarrow> bnd (fe_map_delete p k) (\<lambda>b. ret (RBool b))
    | Map_count \<Rightarrow> bnd (fe_map_count p) (\<lambda>n. ret (RInt n)))"

primrec run_ops :: "ptr \<Rightarrow> ptr map_op list \<Rightarrow> map_res list fcomp" where
  "run_ops p [] = ret []"
| "run_ops p (op # ops) = bnd (run_op p op) (\<lambda>r. bnd (run_ops p ops) (\<lambda>rs. ret (r # rs)))"

text \<open>The names of the keys an operation uses.\<close>

fun op_names :: "fe_Context \<Rightarrow> ptr map_op \<Rightarrow> string map_op \<Rightarrow> bool" where
  "op_names c (Map_set k v) (Map_set s w) \<longleftrightarrow> key_name c k s \<and> v = w"
| "op_names c (Map_get k) (Map_get s) \<longleftrightarrow> key_name c k s"
| "op_names c (Map_has k) (Map_has s) \<longleftrightarrow> key_name c k s"
| "op_names c (Map_delete k) (Map_delete s) \<longleftrightarrow> key_name c k s"
| "op_names c Map_count Map_count \<longleftrightarrow> True"
| "op_names c _ _ \<longleftrightarrow> False"

locale op_refinement =
  fixes rep :: "'s \<Rightarrow> 'a \<Rightarrow> bool" and names :: "'s \<Rightarrow> 'op \<Rightarrow> 'aop \<Rightarrow> bool"
    and step :: "'op \<Rightarrow> ('s, 'e, 'r) comp" and spec :: "'aop \<Rightarrow> 'a \<Rightarrow> 'r \<times> 'a"
    and run :: "'op list \<Rightarrow> ('s, 'e, 'r list) comp" and spec_seq :: "'aop list \<Rightarrow> 'a \<Rightarrow> 'r list \<times> 'a"
    and err :: "'e \<Rightarrow> bool"
  assumes run_Nil: "run [] = ret []"
    and run_Cons: "run (x # xs) = bnd (step x) (\<lambda>r. bnd (run xs) (\<lambda>rs. ret (r # rs)))"
    and spec_Nil: "spec_seq [] a = ([], a)"
    and spec_Cons: "spec_seq (y # ys) a = (fst (spec y a) # fst (spec_seq ys (snd (spec y a))), snd (spec_seq ys (snd (spec y a))))"
    and step_ok: "rep s a \<Longrightarrow> names s x y \<Longrightarrow>
      wp (step x) (\<lambda>r s'. r = fst (spec y a) \<and> rep s' (snd (spec y a)) \<and> names s' = names s)
        (\<lambda>e s'. err e \<and> rep s' a) s"
begin

lemma run_ok:
  "rep s a \<Longrightarrow> list_all2 (names s) xs ys \<Longrightarrow>
   wp (run xs) (\<lambda>rs s'. rs = fst (spec_seq ys a) \<and> rep s' (snd (spec_seq ys a)))
     (\<lambda>e s'. err e \<and> (\<exists>n \<le> length ys. rep s' (snd (spec_seq (take n ys) a)))) s"
proof (induction xs arbitrary: ys s a)
  case Nil
  then show ?case by (simp add: run_Nil wp_ret spec_Nil)
next
  case (Cons x xs)
  from Cons.prems(2) obtain y zs where ys: "ys = y # zs" "names s x y" "list_all2 (names s) xs zs"
    by (auto simp: list_all2_Cons1)
  show ?case
    unfolding run_Cons wp_bnd ys(1)
  proof (rule wp_mono [OF step_ok [OF Cons.prems(1) ys(2)]])
    fix e s' assume "err e \<and> rep s' a"
    then show "err e \<and> (\<exists>n \<le> length (y # zs). rep s' (snd (spec_seq (take n (y # zs)) a)))"
      by (auto simp: spec_Nil intro!: exI [of _ 0])
  next
    fix r s' assume r: "r = fst (spec y a) \<and> rep s' (snd (spec y a)) \<and> names s' = names s"
    then have "rep s' (snd (spec y a))" "list_all2 (names s') xs zs" using ys(3) by simp_all
    from Cons.IH [OF this] show "wp (run xs) (\<lambda>rs. wp (ret (r # rs))
          (\<lambda>rs s'. rs = fst (spec_seq (y # zs) a) \<and> rep s' (snd (spec_seq (y # zs) a)))
          (\<lambda>e s'. err e \<and> (\<exists>n \<le> length (y # zs). rep s' (snd (spec_seq (take n (y # zs)) a)))))
        (\<lambda>e s'. err e \<and> (\<exists>n \<le> length (y # zs). rep s' (snd (spec_seq (take n (y # zs)) a)))) s'"
    proof (rule wp_mono)
      fix e t assume "err e \<and> (\<exists>n \<le> length zs. rep t (snd (spec_seq (take n zs) (snd (spec y a)))))"
      then obtain n where "err e" "n \<le> length zs" "rep t (snd (spec_seq (take n zs) (snd (spec y a))))" by blast
      then show "err e \<and> (\<exists>n \<le> length (y # zs). rep t (snd (spec_seq (take n (y # zs)) a)))"
        by (intro conjI exI [of _ "Suc n"]) (simp_all add: spec_Cons)
    qed (use r in \<open>simp add: wp_ret spec_Cons\<close>)
  qed
qed

end

text \<open>How each operation reaches the table.\<close>

lemma map_atE:
  assumes "map_at p c f"
  obtains i m where "p = Ref i" "i < length (objects c)" "ty (objects c ! i) = FE_TMAP"
    "ocdr (objects c ! i) = VMap (Some m)" "map_rep c m f" "heap_inv {} [] c" "wf_slabs (slabs c)"
    "checktype p FE_TMAP c = (Inr p, c)" "mapdata p c = (Inr m, c)"
proof -
  from assms obtain i m where h: "p = Ref i" "i < length (objects c)" "ty (objects c ! i) = FE_TMAP"
    "ocdr (objects c ! i) = VMap (Some m)" "map_rep c m f" "heap_inv {} [] c" by (auto simp: map_at_def)
  moreover have "wf_slabs (slabs c)" using h(6) by (simp add: heap_inv_def)
  moreover have "checktype p FE_TMAP c = (Inr p, c)"
    using h by (simp add: checktype_def bnd_def gets_def typeof_def ret_def)
  moreover have "mapdata p c = (Inr m, c)"
    using h by (simp add: mapdata_def bnd_Inr [OF cell_Ref] ret_def)
  ultimately show ?thesis by (rule that)
qed

lemma map_at_more:
  assumes "map_at p c f" and m: "limit_ctx.more c' = limit_ctx.more c"
  shows "map_at p c' f" and "key_name c' = key_name c"
proof -
  note fl = more_fields(1) [OF m]
  have "map_rep c' g h = map_rep c g h" for g h by (rule map_rep_cong) (rule is_string_more [OF m])
  with assms(1) heap_inv_more [OF _ m] show "map_at p c' f" unfolding map_at_def fl by auto
  show "key_name c' = key_name c" unfolding fun_eq_iff key_name_def fl is_string_more [OF m] by simp
qed

lemma wp_ret_fun: "wp (ret x) P E = P x"
  by (simp add: fun_eq_iff wp_ret)

definition map_err :: "fe_err \<Rightarrow> bool" where
  "map_err e \<longleftrightarrow> (\<exists>msg cl. e = FeError msg cl)"

lemma wp_keyed:
  assumes at: "map_at p c f" and k: "key_name c k s"
    and body: "\<And>q m. is_string c q s \<Longrightarrow> mapdata p c = (Inr m, c) \<Longrightarrow> map_rep c m f \<Longrightarrow> wp (body q m) Q E c"
  shows "wp (sq (checktype p FE_TMAP) (bnd (normalize_map_key k) (\<lambda>key.
     bnd (gets (\<lambda>c. typeof c key)) (\<lambda>t. if t \<noteq> FE_TSTRING then ret d
     else bnd (mapdata p) (body key))))) Q E c"
proof -
  from at obtain m where m: "checktype p FE_TMAP c = (Inr p, c)" "mapdata p c = (Inr m, c)" "map_rep c m f"
    by (rule map_atE)
  have "wp (bnd (normalize_map_key k) (\<lambda>key. bnd (gets (\<lambda>c. typeof c key)) (\<lambda>t. if t \<noteq> FE_TSTRING then ret d
     else bnd (mapdata p) (body key)))) Q E c"
    unfolding wp_bnd
    by (rule wp_normalize_map_key [OF k])
      (use body m in \<open>auto simp: wp_simps is_string_def wp_def [of "mapdata p"]\<close>)
  with m(1) show ?thesis by (simp add: wp_sq wp_def [of "checktype p FE_TMAP"])
qed

lemma wp_find:
  assumes at: "map_at p c f" and "map_rep c m f" and "is_string c q s"
    and "\<And>i found c'. limit_ctx.more c' = limit_ctx.more c \<Longrightarrow> found_at c m s i found \<Longrightarrow>
      map_at p c' f \<Longrightarrow> key_name c' = key_name c \<Longrightarrow> wp (body (Some i, found)) Q E c'"
    and "\<And>e c'. map_err e \<Longrightarrow> map_at p c' f \<Longrightarrow> E e c'"
  shows "wp (bnd (map_find_slot m q) body) Q E c"
proof -
  have wf: "wf_map c m" "wf_slabs (slabs c)" using assms(1,2) by (auto simp: map_rep_def map_at_def heap_inv_def)
  show ?thesis
    unfolding wp_bnd
  proof (rule wp_mono [OF wp_map_find_slot [OF wf assms(3)]])
    fix x c' assume "(case x of (slot, found) \<Rightarrow> \<lambda>c'.
      limit_ctx.more c' = limit_ctx.more c \<and> (\<exists>i. slot = Some i \<and> found_at c m s i found)) c'"
    then obtain i found where x: "x = (Some i, found)" "limit_ctx.more c' = limit_ctx.more c" "found_at c m s i found"
      by (cases x) auto
    from assms(4) [OF x(2,3) map_at_more [OF at x(2)]] show "wp (body x) Q E c'" by (simp add: x(1))
  next
    fix e c' assume "poll_err c e c'"
    then have "map_err e" "limit_ctx.more c' = limit_ctx.more c" by (simp_all add: poll_err_def map_err_def)
    with assms(5) map_at_more(1) [OF at] show "E e c'" by blast
  qed
qed

lemma found_value:
  assumes "map_rep c m f" and "found_at c m s i found"
  shows "found = (f s \<noteq> None)" and "found \<Longrightarrow> map_values m ! i = f s"
proof -
  have *: "\<exists>v. map_values m ! i = Some v \<and> f s = Some v" if found
  proof -
    from that assms(2) have i: "i < map_capacity m" "slot_key c m i = Some s" by (simp_all add: found_at_def)
    then have "map_states m ! i = MAP_USED" by (simp add: slot_key_def split: if_splits)
    moreover have "wf_map c m" using assms(1) by (simp add: map_rep_def)
    ultimately obtain v where "map_values m ! i = Some v" using i(1) by (blast elim: wf_map_used)
    with i assms(1) show ?thesis by (auto simp: map_rep_def)
  qed
  show "found = (f s \<noteq> None)"
    using * assms by (cases found) (auto simp: map_rep_def found_at_def)
  show "found \<Longrightarrow> map_values m ! i = f s" using * by auto
qed

section \<open>Each operation refines its specification\<close>

lemma wp_fe_map_get:
  assumes at: "map_at p c f" and k: "key_name c k s"
  shows "wp (fe_map_get p k) (\<lambda>r c'. r = (case f s of Some v \<Rightarrow> v | None \<Rightarrow> Nil) \<and> map_at p c' f \<and> key_name c' = key_name c)
    (\<lambda>e c'. map_err e \<and> map_at p c' f) c"
  unfolding fe_map_get_def
proof (rule wp_keyed [OF at k], rule wp_find [OF at])
  fix q m i found c'
  assume h: "map_rep c m f" "found_at c m s i found" "map_at p c' f" "key_name c' = key_name c"
  show "wp (case (Some i, found) of (slot, found) \<Rightarrow> if \<not> found then ret Nil
       else case slot of None \<Rightarrow> ret Nil | Some s \<Rightarrow> or_crash (map_values m ! s))
     (\<lambda>r c'. r = (case f s of Some v \<Rightarrow> v | None \<Rightarrow> Nil) \<and> map_at p c' f \<and> key_name c' = key_name c)
     (\<lambda>e c'. map_err e \<and> map_at p c' f) c'"
    using found_value [OF h(1,2)] h(3,4) by (auto simp: wp_simps wp_or_crash_Some)
qed auto

lemma wp_fe_map_has:
  assumes at: "map_at p c f" and k: "key_name c k s"
  shows "wp (fe_map_has p k) (\<lambda>r c'. r = (f s \<noteq> None) \<and> map_at p c' f \<and> key_name c' = key_name c)
    (\<lambda>e c'. map_err e \<and> map_at p c' f) c"
  unfolding fe_map_has_def
proof (rule wp_keyed [OF at k], rule wp_find [OF at])
  fix q m i found c'
  assume h: "map_rep c m f" "found_at c m s i found" "map_at p c' f" "key_name c' = key_name c"
  then show "wp (case (Some i, found) of (slot, found) \<Rightarrow> ret found)
     (\<lambda>r c'. r = (f s \<noteq> None) \<and> map_at p c' f \<and> key_name c' = key_name c)
     (\<lambda>e c'. map_err e \<and> map_at p c' f) c'"
    using found_value(1) [OF h(1,2)] by (simp add: wp_simps)
qed auto

lemma wp_fe_map_delete:
  assumes at: "map_at p c f" and k: "key_name c k s"
  shows "wp (fe_map_delete p k) (\<lambda>r c'. r = (f s \<noteq> None) \<and> map_at p c' (f(s := None)) \<and> key_name c' = key_name c)
    (\<lambda>e c'. map_err e \<and> map_at p c' f) c"
  unfolding fe_map_delete_def
proof (rule wp_keyed [OF at k], rule wp_find [OF at])
  fix q m i found c'
  assume h: "map_rep c m f" "found_at c m s i found" "map_at p c' f" "key_name c' = key_name c"
    "limit_ctx.more c' = limit_ctx.more c"
  obtain j where p: "p = Ref j" using at by (auto simp: map_at_def)
  note fv = found_value [OF h(1,2)]
  have "wp (set_mapdata p (map_erase m i)) (\<lambda>_ c'. map_at p c' (f(s := None)) \<and> key_name c' = key_name c) E c'"
    if found for E
    using set_mapdata_at [of j c f c' "map_erase m i" "f(s := None)" E] map_erase_rep [of c m f s i] h at that p
    by (auto elim!: wp_mono)
  moreover have "f(s := None) = f" if "\<not> found" using that fv(1) by auto
  ultimately show "wp (case (Some i, found) of (slot, found) \<Rightarrow> if \<not> found then ret False
       else case slot of None \<Rightarrow> ret False | Some s \<Rightarrow> sq (set_mapdata p (map_erase m s)) (ret True))
     (\<lambda>r c'. r = (f s \<noteq> None) \<and> map_at p c' (f(s := None)) \<and> key_name c' = key_name c)
     (\<lambda>e c'. map_err e \<and> map_at p c' f) c'"
    using fv(1) h(3,4) by (cases found) (auto simp: wp_simps wp_ret_fun)
qed auto

lemma wp_fe_map_count:
  assumes at: "map_at p c f"
  shows "fe_map_count p c = (Inr (int (card (dom f))), c)"
proof -
  from at obtain m where m: "checktype p FE_TMAP c = (Inr p, c)" "mapdata p c = (Inr m, c)" "map_rep c m f"
    by (rule map_atE)
  then have wf: "wf_map c m" by (simp add: map_rep_def)
  let ?U = "{i. i < length (map_states m) \<and> map_states m ! i = MAP_USED}"
  have len: "length (map_states m) = map_capacity m" using wf by (simp add: wf_map_def)
  have key: "\<exists>s v. slot_key c m i = Some s \<and> map_values m ! i = Some v" if "i \<in> ?U" for i
    using that len wf by (auto elim: wf_map_used)
  have "bij_betw (\<lambda>i. the (slot_key c m i)) ?U (dom f)"
    unfolding bij_betw_def
  proof
    show "inj_on (\<lambda>i. the (slot_key c m i)) ?U"
    proof (rule inj_onI)
      fix i j assume ij: "i \<in> ?U" "j \<in> ?U" "the (slot_key c m i) = the (slot_key c m j)"
      with key [OF ij(1)] key [OF ij(2)] have "slot_key c m i = slot_key c m j" "slot_key c m i \<noteq> None" by auto
      with wf ij len show "i = j" by (auto simp: wf_map_def)
    qed
    show "(\<lambda>i. the (slot_key c m i)) ` ?U = dom f"
    proof (intro equalityI subsetI)
      fix s assume "s \<in> (\<lambda>i. the (slot_key c m i)) ` ?U"
      then obtain i where i: "i \<in> ?U" "s = the (slot_key c m i)" by blast
      with key [OF i(1)] obtain v where "slot_key c m i = Some s" "map_values m ! i = Some v" by auto
      with i(1) len m(3) show "s \<in> dom f" by (auto simp: map_rep_def)
    next
      fix s assume "s \<in> dom f"
      then obtain v where "f s = Some v" by blast
      with m(3) obtain i where i: "i < map_capacity m" "slot_key c m i = Some s" by (auto simp: map_rep_def)
      then have "i \<in> ?U" using len by (auto simp: slot_key_def split: if_splits)
      with i(2) show "s \<in> (\<lambda>i. the (slot_key c m i)) ` ?U" by force
    qed
  qed
  then have "card ?U = card (dom f)" by (rule bij_betw_same_card)
  then have "map_count m = int (card (dom f))"
    using wf by (simp add: wf_map_def length_filter_conv_card)
  with m show ?thesis by (simp add: fe_map_count_def sq_def bnd_def ret_def)
qed

lemma map_store_rep:
  assumes "map_rep c m f" and "found_at c m s i found" and "is_string c q s"
    and "map_used m + 1 < int (map_capacity m)"
  shows "map_rep c (map_store m i found q v) (f(s \<mapsto> v))"
proof (rule map_write_rep [OF assms(1-3)])
  have "found \<Longrightarrow> map_states m ! i = MAP_USED"
    using assms(2) by (auto simp: found_at_def slot_key_def split: if_splits)
  then show "map_states (map_store m i found q v) = (map_states m)[i := MAP_USED]"
    by (cases found) (simp_all add: map_store_def Let_def, metis list_update_id)
  show "map_used (map_store m i found q v) = (if map_states m ! i = MAP_EMPTY then map_used m + 1 else map_used m)"
    using \<open>found \<Longrightarrow> map_states m ! i = MAP_USED\<close> by (auto simp: map_store_def Let_def)
  show "map_used (map_store m i found q v) < int (map_capacity m)"
    using assms(4) by (auto simp: map_store_def Let_def)
qed (simp_all add: map_store_def Let_def)

lemma wp_fe_map_set:
  assumes at: "map_at p c f" and k: "key_name c k s"
  shows "wp (fe_map_set p k v) (\<lambda>r c'. r \<and> map_at p c' (f(s \<mapsto> v)) \<and> key_name c' = key_name c)
    (\<lambda>e c'. map_err e \<and> map_at p c' f) c" (is "wp _ ?Q ?E c")
  unfolding fe_map_set_def
proof (rule wp_keyed [OF at k])
  fix q m
  assume q: "is_string c q s" and rep: "map_rep c m f"
  obtain j where p: "p = Ref j" using at by (auto simp: map_at_def)
  have wf: "wf_slabs (slabs c)" using at by (auto simp: map_at_def heap_inv_def)
  let ?rest = "\<lambda>m. bnd (map_find_slot m q) (\<lambda>(slot, found). case slot of
         None \<Rightarrow> memory_error ''out of memory (map)''
       | Some s \<Rightarrow> sq (set_mapdata p (map_store m s found q v)) (ret True))"
  have store: "wp (?rest g) ?Q ?E c2"
    if c2: "map_at p c2 f" "key_name c2 = key_name c" "is_string c2 = is_string c" and g: "map_rep c g f"
      "map_used g + 1 < int (map_capacity g)" for g c2
  proof (rule wp_find [OF c2(1)])
    show rep2: "map_rep c2 g f" using g(1) map_rep_cong [of c2 c] c2(3) by simp
    show q2: "is_string c2 q s" using q c2(3) by simp
    fix i found c3
    assume h: "limit_ctx.more c3 = limit_ctx.more c2" "found_at c2 g s i found" "map_at p c3 f"
    have "wp (set_mapdata p (map_store g i found q v)) (\<lambda>_ c'. map_at p c' (f(s \<mapsto> v)) \<and> key_name c' = key_name c) ?E c3"
      unfolding p
      by (rule wp_mono [OF set_mapdata_at [OF c2(1) [unfolded p] h(1) map_store_rep [OF rep2 h(2) q2 g(2)]]])
        (use c2(2) in simp_all)
    then show "wp (case (Some i, found) of (slot, found) \<Rightarrow> (case slot of
         None \<Rightarrow> memory_error ''out of memory (map)''
       | Some s \<Rightarrow> sq (set_mapdata p (map_store g s found q v)) (ret True))) ?Q ?E c3"
      by (simp add: wp_sq wp_ret_fun)
  qed auto
  show "wp (bnd (map_ensure_capacity m) (\<lambda>r. case r of
       None \<Rightarrow> memory_error ''out of memory (map)''
     | Some m \<Rightarrow> sq (set_mapdata p m) (?rest m))) ?Q ?E c"
    unfolding wp_bnd
  proof (rule wp_mono [OF wp_map_ensure_capacity [OF rep wf]])
    fix r c1
    assume r: "limit_ctx.more c1 = limit_ctx.more c \<and>
      (\<forall>g. r = Some g \<longrightarrow> map_rep c g f \<and> map_used g + 1 < int (map_capacity g))"
    show "wp (case r of None \<Rightarrow> memory_error ''out of memory (map)'' | Some m \<Rightarrow> sq (set_mapdata p m) (?rest m)) ?Q ?E c1"
    proof (cases r)
      case None
      have "map_at p (fe_error_reset c1) f" using map_at_more(1) [OF at] r by simp
      with None show ?thesis by (simp add: wp_def memory_error_def fe_error_def map_err_def)
    next
      case (Some g)
      with r have g: "map_rep c g f" "map_used g + 1 < int (map_capacity g)" by simp_all
      have "wp (set_mapdata p g) (\<lambda>_ c'. map_at p c' f \<and> key_name c' = key_name c \<and> is_string c' = is_string c) ?E c1"
        unfolding p by (rule wp_mono [OF set_mapdata_at [OF at [unfolded p] conjunct1 [OF r] g(1)]]) simp_all
      then have "wp (set_mapdata p g) (\<lambda>_. wp (?rest g) ?Q ?E) ?E c1"
        by (rule wp_mono) (use store [OF _ _ _ g] in auto)
      with Some show ?thesis by (simp only: wp_sq option.simps)
    qed
  next
    fix e c' assume "poll_err c e c'"
    then show "?E e c'" using map_at_more(1) [OF at] by (auto simp: poll_err_def map_err_def)
  qed
qed

lemma op_names_key: "key_name c' = key_name c \<Longrightarrow> op_names c' = op_names c"
proof (intro ext)
  fix x :: "ptr map_op" and y :: "string map_op"
  assume "key_name c' = key_name c"
  then show "op_names c' x y = op_names c x y" by (cases x; cases y) simp_all
qed

lemma run_op_ok:
  assumes at: "map_at p c f" and n: "op_names c x y"
  shows "wp (run_op p x) (\<lambda>r c'. r = fst (spec_op y f) \<and> map_at p c' (snd (spec_op y f)) \<and> op_names c' = op_names c)
    (\<lambda>e c'. map_err e \<and> map_at p c' f) c"
proof (cases x)
  case (Map_set k v)
  with n obtain s where y: "y = Map_set s v" "key_name c k s" by (cases y) auto
  show ?thesis unfolding run_op_def Map_set y map_op.case wp_bnd
    by (rule wp_mono [OF wp_fe_map_set [OF at y(2)]]) (auto simp: wp_ret intro!: op_names_key)
next
  case (Map_get k)
  with n obtain s where y: "y = Map_get s" "key_name c k s" by (cases y) auto
  show ?thesis unfolding run_op_def Map_get y map_op.case wp_bnd
    by (rule wp_mono [OF wp_fe_map_get [OF at y(2)]]) (auto simp: wp_ret intro!: op_names_key)
next
  case (Map_has k)
  with n obtain s where y: "y = Map_has s" "key_name c k s" by (cases y) auto
  show ?thesis unfolding run_op_def Map_has y map_op.case wp_bnd
    by (rule wp_mono [OF wp_fe_map_has [OF at y(2)]]) (auto simp: wp_ret intro!: op_names_key)
next
  case (Map_delete k)
  with n obtain s where y: "y = Map_delete s" "key_name c k s" by (cases y) auto
  show ?thesis unfolding run_op_def Map_delete y map_op.case wp_bnd
    by (rule wp_mono [OF wp_fe_map_delete [OF at y(2)]]) (auto simp: wp_ret intro!: op_names_key)
next
  case Map_count
  with n have y: "y = Map_count" by (cases y) auto
  show ?thesis using wp_fe_map_count [OF at] at
    by (simp add: run_op_def Map_count y wp_def bnd_def ret_def)
qed

interpretation map_ops: op_refinement "map_at p" op_names "run_op p" spec_op "run_ops p" spec_run map_err for p
  by unfold_locales (simp_all add: run_op_ok split: prod.splits)

text \<open>
  C6. Maps behave as finite maps: for any sequence of sets, lookups, membership tests, deletions and
  counts on a map object, with string or symbol keys, the results are those of the same sequence
  on a finite map from names to objects, through every growth of the table and reuse of
  tombstones. If an operation raises an error, the map is the one after the operations before it.
\<close>

theorem map_refines_finite_map:
  assumes "map_at p c f" and "list_all2 (op_names c) ops names"
  shows "case run_ops p ops c of
      (Inr rs, c') \<Rightarrow> rs = fst (spec_run names f) \<and> map_at p c' (snd (spec_run names f))
    | (Inl e, c') \<Rightarrow> (\<exists>msg cl. e = FeError msg cl) \<and>
        (\<exists>n \<le> length names. map_at p c' (snd (spec_run (take n names) f)))"
  using map_ops.run_ok [OF assms] by (auto simp: wp_def map_err_def split: sum.splits prod.splits)

text \<open>
  \<^verbatim>\<open>fe_map\<close> returns a new object that represents the empty map, leaves every reachable object as it
  was, and has an error as its only other outcome.
\<close>

lemma map_create:
  assumes "heap_inv {} [] c"
  shows "case fe_map c of
      (Inr p, c') \<Rightarrow> map_at p c' Map.empty \<and> (\<forall>j. p = Ref j \<longrightarrow> \<not> kept c j) \<and>
        (\<forall>j. kept c j \<longrightarrow> objects c' ! j = objects c ! j)
    | (Inl e, c') \<Rightarrow> \<exists>msg cl. e = FeError msg cl"
proof -
  have "wp fe_map (\<lambda>p c'. \<exists>i. p = Ref i \<and> built {} [] c i (\<lambda>o'. ty o' = FE_TMAP \<and> ocdr o' = VMap (Some (empty_map 8))) c')
      (\<lambda>e c'. map_err e) c"
    unfolding fe_map_def wp_bnd
  proof (rule wp_mono [OF wp_object [OF assms]])
    fix p c1
    assume "\<exists>i. p = Ref i \<and> heap_inv {} [] c1 \<and> evo {} [] c c1 \<and> fresh c i c1"
    then obtain i where h: "p = Ref i" "heap_inv {} [] c1" "evo {} [] c c1" "fresh c i c1" by blast
    from map_alloc_run obtain r c2 where r: "map_alloc 8 c1 = (Inr r, c2)"
      "limit_ctx.more c2 = limit_ctx.more c1" "r = None \<or> r = Some (empty_map 8)" by blast
    note f = more_fields [OF r(2)]
    have i: "i < length (objects c2)" using h(4) by (simp add: fresh_def f)
    let ?o = "(objects c2 ! i)\<lparr>ty := FE_TMAP, mark := False, ocar := VObj Nil, ocdr := VMap (Some (empty_map 8))\<rparr>"
    have ok: "gc_ok ?o" using map_rep_gc_ok [OF empty_map_rep [of 8]] by (simp add: gc_ok_def)
    have "fresh c i c2" using h(4) rest_more [OF r(2)] by (simp add: fresh_def f)
    moreover have "evo {} [] c c2"
      using h(3) evo_same [of c2 c1] f by (auto intro: evo_trans simp: roots_rest [OF rest_more [OF r(2)]])
    ultimately have "built {} [] c i (\<lambda>x. x = ?o) (c2\<lparr>objects := (objects c2)[i := ?o]\<rparr>)"
      by (intro fresh_init [OF heap_inv_more [OF h(2) r(2)]]) (use ok in \<open>simp_all add: is_data_def\<close>)
    then have b: "built {} [] c i (\<lambda>o'. ty o' = FE_TMAP \<and> ocdr o' = VMap (Some (empty_map 8)))
        (c2\<lparr>objects := (objects c2)[i := ?o]\<rparr>)" by (simp add: built_def)
    show "wp (map_alloc 8) (\<lambda>x. wp (case x of None \<Rightarrow> memory_error ''out of memory (map)''
        | Some m \<Rightarrow> sq (settype p FE_TMAP) (sq (set_car p Nil) (sq (set_mapdata p m) (ret p))))
        (\<lambda>p c'. \<exists>i. p = Ref i \<and> built {} [] c i (\<lambda>o'. ty o' = FE_TMAP \<and> ocdr o' = VMap (Some (empty_map 8))) c')
        (\<lambda>e c'. map_err e)) (\<lambda>e c'. map_err e) c1"
      using r(3) b i
      by (auto simp: wp_Inr [of "map_alloc 8", OF r(1)] wp_sq h(1) settype_def set_car_def set_mapdata_def
          wp_upd_cell wp_ret_fun map_err_def) (simp add: wp_def memory_error_def fe_error_def)
  qed (auto simp: alloc_err_def map_err_def)
  then show ?thesis
    using empty_map_rep [of 8]
    by (auto simp: wp_def map_err_def built_def evo_def map_at_def kept_def split: sum.splits prod.splits)
qed

text \<open>A map in cell 2, beside the string \<open>hi\<close> in cell 1.\<close>

definition map_example :: fe_Context where
  "map_example = gc_example\<lparr>objects := (objects gc_example)[2 :=
     \<lparr>ocar = VObj Nil, ocdr = VMap (Some (empty_map 8)), ty = FE_TMAP, mark = False\<rparr>]\<rparr>"

lemma map_example_at: "map_at (Ref 2) map_example Map.empty"
proof -
  have "heap_inv {} [] map_example"
    unfolding map_example_def
    by (rule heap_inv_overwrite [OF gc_example_inv])
      (use map_rep_gc_ok [OF empty_map_rep [of 8]] in \<open>simp_all add: gc_example_def is_data_def gc_ok_def pair_cell_def\<close>)
  with empty_map_rep [of 8] show ?thesis by (simp add: map_at_def map_example_def gc_example_def)
qed

lemma map_example_key: "key_name map_example (Ref 1) ''hi''"
  by (simp add: key_name_def is_string_def typeof_def map_example_def gc_example_def obj_bytes_def
      slab_bytes.simps slab_at_def chunk_def FE_SLAB_DATA_SIZE_def FE_SLAB_SIZE_def FE_SLAB_NULL_def)

theorem map_refines_finite_map_witness:
  "case run_ops (Ref 2) [Map_set (Ref 1) (Fixnum 7), Map_get (Ref 1), Map_delete (Ref 1), Map_count] map_example of
      (Inr rs, c') \<Rightarrow> rs = [RBool True, RVal (Fixnum 7), RBool True, RInt 0]
    | (Inl e, c') \<Rightarrow> \<exists>msg cl. e = FeError msg cl"
proof -
  have "list_all2 (op_names map_example)
      [Map_set (Ref 1) (Fixnum 7), Map_get (Ref 1), Map_delete (Ref 1), Map_count]
      [Map_set ''hi'' (Fixnum 7), Map_get ''hi'', Map_delete ''hi'', Map_count]"
    using map_example_key by simp
  from map_refines_finite_map [OF map_example_at this] show ?thesis
    by (auto split: sum.splits prod.splits)
qed

lemma map_create_witness:
  "\<exists>p c'. fe_map alloc_example = (Inr p, c') \<and> map_at p c' Map.empty"
proof -
  have "\<not> isl (fst (fe_map alloc_example))" by code_simp
  then show ?thesis
    using map_create [OF alloc_example_inv] by (cases "fe_map alloc_example") (auto split: sum.splits)
qed

end
