(* ===== verification/Fe_Symbol.thy ===== *)
theory Fe_Symbol
  imports Fe_Map
begin

text \<open>
  Symbols and the construction of a context (\<^verbatim>\<open>fe.c\<close>): interning in the symbol list, the global
  value of a symbol, and \<^verbatim>\<open>fe_open\<close>, which binds every primitive to its name.
\<close>

section \<open>Definitions\<close>

definition symbol_name :: "ptr \<Rightarrow> ptr fcomp" where
  "symbol_name sy = bnd (cdr sy) car"

text \<open>The search loops of \<^verbatim>\<open>fe_symbol\<close> and \<^verbatim>\<open>fe_symbol_from_string_obj\<close>.\<close>

fun find_symbol :: "nat \<Rightarrow> string \<Rightarrow> ptr \<Rightarrow> nat \<Rightarrow> ptr option fcomp" where
  "find_symbol 0 name obj countdown = throw OutOfFuel"
| "find_symbol (Suc n) name obj countdown =
     (if isnil obj then ret None
      else bnd (check_io_abort countdown) (\<lambda>countdown. bnd (car obj) (\<lambda>sy. bnd (symbol_name sy) (\<lambda>nm.
        bnd (streq nm name) (\<lambda>eq. if eq then ret (Some sy)
          else bnd (cdr obj) (\<lambda>rest. find_symbol n name rest countdown))))))"

fun find_symbol_obj :: "nat \<Rightarrow> ptr \<Rightarrow> ptr \<Rightarrow> ptr option fcomp" where
  "find_symbol_obj 0 name_obj obj = throw OutOfFuel"
| "find_symbol_obj (Suc n) name_obj obj =
     (if isnil obj then ret None
      else bnd (car obj) (\<lambda>sy. bnd (symbol_name sy) (\<lambda>nm. bnd (equal nm name_obj) (\<lambda>eq.
        if eq then ret (Some sy) else bnd (cdr obj) (find_symbol_obj n name_obj)))))"

text \<open>The end both share: the name object is made by the given computation.\<close>

definition push_symbol :: "ptr fcomp \<Rightarrow> ptr fcomp" where
  "push_symbol mk_name = bnd object (\<lambda>obj. sq (settype obj FE_TSYMBOL)
     (bnd mk_name (\<lambda>name_obj. bnd (fe_cons name_obj Nil) (\<lambda>d. sq (set_cdr obj d)
     (bnd (gets symlist) (\<lambda>l. bnd (fe_cons obj l) (\<lambda>l'.
      sq (modify (\<lambda>c. c\<lparr>symlist := l'\<rparr>)) (ret obj))))))))"

definition fe_symbol :: "string \<Rightarrow> ptr fcomp" where
  "fe_symbol name = bnd (gets (\<lambda>c. (walk_fuel c, symlist c))) (\<lambda>(n, l).
     bnd (find_symbol n name l FE_IO_ABORT_CHECK_INTERVAL) (\<lambda>r. case r of
       Some sy \<Rightarrow> ret sy
     | None \<Rightarrow> push_symbol (fe_string name)))"

definition fe_symbol_from_string_obj :: "ptr \<Rightarrow> ptr fcomp" where
  "fe_symbol_from_string_obj name_obj = sq (checktype name_obj FE_TSTRING) (bnd fe_savegc (\<lambda>gc_save.
     sq (fe_pushgc name_obj) (bnd (gets (\<lambda>c. (walk_fuel c, symlist c))) (\<lambda>(n, l).
     bnd (find_symbol_obj n name_obj l) (\<lambda>r. case r of
       Some sy \<Rightarrow> sq (fe_restoregc gc_save) (ret sy)
     | None \<Rightarrow> bnd (push_symbol (ret name_obj)) (\<lambda>obj. sq (fe_restoregc gc_save) (ret obj)))))))"

definition primnames :: "string list" where
  "primnames = [''let'', ''='', ''if'', ''fn'', ''mac'', ''while'', ''return'',
     ''module'', ''export'', ''import'', ''get'', ''put'',
     ''quote'', ''and'', ''or'', ''do'', ''cons'',
     ''car'', ''cdr'', ''setcar'', ''setcdr'', ''list'', ''not'', ''is'', ''atom'', ''print'', ''<'',
     ''<='', ''>'', ''>='', ''+'', ''-'', ''*'', ''/'']"

definition P_MAX :: nat where "P_MAX = 34"

definition register_prim :: "nat \<Rightarrow> nat \<Rightarrow> unit fcomp" where
  "register_prim save i = bnd object (\<lambda>v. sq (settype v FE_TPRIM)
     (sq (upd_cell v (\<lambda>o'. o'\<lparr>ocdr := VPrim i\<rparr>))
     (bnd (fe_symbol (primnames ! i)) (\<lambda>sy. sq (fe_set sy v) (fe_restoregc save)))))"

primrec register_prims :: "nat \<Rightarrow> nat list \<Rightarrow> unit fcomp" where
  "register_prims save [] = ret ()"
| "register_prims save (i # is) = sq (register_prim save i) (register_prims save is)"

definition init_special :: "unit fcomp" where
  "init_special =
     bnd (fe_symbol ''return'') (\<lambda>s. sq (modify (\<lambda>c. c\<lparr>return_sym := s\<rparr>))
     (bnd (fe_symbol ''[frame]'') (\<lambda>s. sq (modify (\<lambda>c. c\<lparr>frame_sym := s\<rparr>))
     (bnd (fe_symbol ''do'') (\<lambda>s. sq (modify (\<lambda>c. c\<lparr>do_sym := s\<rparr>))
     (bnd (fe_symbol ''let'') (\<lambda>s. sq (modify (\<lambda>c. c\<lparr>let_sym := s\<rparr>))
     (bnd (fe_symbol ''quote'') (\<lambda>s. sq (modify (\<lambda>c. c\<lparr>quote_sym := s\<rparr>))
     (bnd (fe_symbol ''fn'') (\<lambda>s. sq (modify (\<lambda>c. c\<lparr>fn_sym := s\<rparr>))
     (bnd (fe_symbol ''mac'') (\<lambda>s. sq (modify (\<lambda>c. c\<lparr>mac_sym := s\<rparr>)) (ret ()))))))))))))))"

definition init_symbols :: "unit fcomp" where
  "init_symbols =
     bnd (fe_symbol ''t'') (\<lambda>t. sq (modify (\<lambda>c. c\<lparr>t_sym := t\<rparr>)) (sq (fe_set t t)
     (bnd fe_savegc (\<lambda>save. sq (register_prims save [0..<P_MAX]) init_special))))"

text \<open>\<open>None\<close> is the NULL \<^verbatim>\<open>fe_open\<close> returns for a region that is too small or too large.\<close>

definition fe_open :: "fe_env \<Rightarrow> nat \<Rightarrow> ((fe_err + unit) \<times> fe_Context) option" where
  "fe_open env total_mem = map_option init_symbols (fe_open_arenas env total_mem)"

section \<open>The symbol table\<close>

text \<open>
  A symbol is a cell whose cdr is a pair of its name and its global value. \<open>interned c tab\<close>: the
  symbol list holds exactly the symbols of \<open>tab\<close>, in this order, with these names and values, and
  no two have the same name.
\<close>

type_synonym sym_entry = "ptr \<times> string \<times> ptr"

definition sym_obj :: "fe_Context \<Rightarrow> ptr \<Rightarrow> string \<Rightarrow> ptr \<Rightarrow> bool" where
  "sym_obj c sy s v \<longleftrightarrow> (\<exists>i d n. sy = Ref i \<and> i < length (objects c) \<and> ty (objects c ! i) = FE_TSYMBOL \<and>
     ocdr (objects c ! i) = VObj (Ref d) \<and> d < length (objects c) \<and> ty (objects c ! d) = FE_TPAIR \<and>
     ocar (objects c ! d) = VObj (Ref n) \<and> ocdr (objects c ! d) = VObj v \<and> is_string c (Ref n) s)"

fun pair_list :: "fe_Object list \<Rightarrow> ptr \<Rightarrow> ptr list \<Rightarrow> bool" where
  "pair_list os p [] = (p = Nil)"
| "pair_list os p (x # xs) = (case p of
      Ref i \<Rightarrow> i < length os \<and> ty (os ! i) = FE_TPAIR \<and> ocar (os ! i) = VObj x \<and>
        (case ocdr (os ! i) of VObj d \<Rightarrow> pair_list os d xs | _ \<Rightarrow> False)
    | _ \<Rightarrow> False)"

definition interned :: "fe_Context \<Rightarrow> sym_entry list \<Rightarrow> bool" where
  "interned c tab \<longleftrightarrow> pair_list (objects c) (symlist c) (map fst tab) \<and>
     (\<forall>(sy, s, v) \<in> set tab. sym_obj c sy s v) \<and> distinct (map (fst \<circ> snd) tab)"

lemma pair_listE:
  assumes "pair_list os p (x # xs)"
  obtains i d where "p = Ref i" "i < length os" "ty (os ! i) = FE_TPAIR" "ocar (os ! i) = VObj x"
    "ocdr (os ! i) = VObj d" "pair_list os d xs"
  using assms by (auto split: ptr.splits val.splits)

lemma pair_list_heap_list: "pair_list os p xs \<Longrightarrow> heap_list os p xs"
  by (induction xs arbitrary: p) (auto split: ptr.splits val.splits)

subsection \<open>What is reachable\<close>

definition live_ptr :: "fe_Context \<Rightarrow> ptr \<Rightarrow> bool" where
  "live_ptr c p = (case p of Ref i \<Rightarrow> kept c i | _ \<Rightarrow> True)"

lemma kept_root: "Ref i \<in> roots c \<Longrightarrow> i < length (objects c) \<Longrightarrow> ty (objects c ! i) \<noteq> FE_TFREE \<Longrightarrow> kept c i"
  by (auto simp: kept_def reach_def)

lemma kept_kid:
  assumes "kept c i" and "Ref j \<in> set (kids (objects c ! i))" and "j < length (objects c)"
    and "ty (objects c ! j) \<noteq> FE_TFREE"
  shows "kept c j"
proof -
  from assms(1) obtain r where r: "Ref r \<in> roots c" "r < length (objects c)" "(edge (objects c))\<^sup>*\<^sup>* r i"
    by (auto simp: kept_def reach_def)
  have "edge (objects c) i j" using assms by (simp add: edge_def kept_def)
  with r(3) have "(edge (objects c))\<^sup>*\<^sup>* r j" by simp
  with r assms(3,4) show ?thesis by (auto simp: kept_def reach_def)
qed

lemma pair_list_kept:
  "pair_list (objects c) p xs \<Longrightarrow> live_ptr c p \<Longrightarrow> (\<And>x j. x \<in> set xs \<Longrightarrow> x = Ref j \<Longrightarrow>
     j < length (objects c) \<and> ty (objects c ! j) \<noteq> FE_TFREE) \<Longrightarrow> list_kept c p xs \<and> (\<forall>x \<in> set xs. live_ptr c x)"
proof (induction xs arbitrary: p)
  case (Cons x xs)
  from Cons.prems(1) obtain i d where d: "p = Ref i" "i < length (objects c)" "ty (objects c ! i) = FE_TPAIR"
    "ocar (objects c ! i) = VObj x" "ocdr (objects c ! i) = VObj d" "pair_list (objects c) d xs" by (rule pair_listE)
  have i: "kept c i" using Cons.prems(2) d(1) by (simp add: live_ptr_def)
  have kids: "kids (objects c ! i) = [x, d]" using d by (simp add: kids_def)
  have "live_ptr c d"
  proof (cases xs)
    case Nil
    with d(6) show ?thesis by (simp add: live_ptr_def)
  next
    case (Cons y ys)
    with d(6) obtain j where "d = Ref j" "j < length (objects c)" "ty (objects c ! j) = FE_TPAIR"
      by (auto split: ptr.splits)
    with i kids show ?thesis by (auto simp: live_ptr_def intro: kept_kid)
  qed
  moreover have "live_ptr c x"
    using Cons.prems(3) [of x] i kids by (cases x) (auto simp: live_ptr_def intro: kept_kid)
  ultimately show ?case using Cons.IH [OF d(6)] Cons.prems(3) d i by auto
qed simp

lemma sym_obj_kept:
  assumes "sym_obj c sy s v" and "live_ptr c sy"
  obtains i d n where "sy = Ref i" "kept c i" "kept c d" "kept c n" "ty (objects c ! i) = FE_TSYMBOL"
    "ocdr (objects c ! i) = VObj (Ref d)" "ty (objects c ! d) = FE_TPAIR"
    "ocar (objects c ! d) = VObj (Ref n)" "ocdr (objects c ! d) = VObj v" "is_string c (Ref n) s"
proof -
  from assms(1) obtain i d n where h: "sy = Ref i" "i < length (objects c)" "ty (objects c ! i) = FE_TSYMBOL"
    "ocdr (objects c ! i) = VObj (Ref d)" "d < length (objects c)" "ty (objects c ! d) = FE_TPAIR"
    "ocar (objects c ! d) = VObj (Ref n)" "ocdr (objects c ! d) = VObj v" "is_string c (Ref n) s"
    by (auto simp: sym_obj_def)
  have i: "kept c i" using assms(2) h(1) by (simp add: live_ptr_def)
  have d: "kept c d" by (rule kept_kid [OF i]) (use h in \<open>simp_all add: kids_def\<close>)
  have n: "n < length (objects c)" "ty (objects c ! n) = FE_TSTRING"
    using h(9) by (auto simp: is_string_def typeof_def split: if_splits)
  have "kept c n" by (rule kept_kid [OF d]) (use h n in \<open>simp_all add: kids_def\<close>)
  with h i d show ?thesis by (intro that)
qed

lemma is_string_evo:
  assumes "evo {} [] c c'" and "is_string c (Ref n) s" and "kept c n"
  shows "is_string c' (Ref n) s"
proof -
  have n: "n < length (objects c)" "ty (objects c ! n) = FE_TSTRING"
    using assms(2) by (auto simp: is_string_def typeof_def split: if_splits)
  then show ?thesis using assms by (auto simp: evo_def is_string_def typeof_def is_data_def)
qed

lemma sym_obj_evo:
  assumes "evo {} [] c c'" and "sym_obj c sy s v" and "live_ptr c sy"
  shows "sym_obj c' sy s v"
proof -
  from assms(2,3) obtain i d n where h: "sy = Ref i" "kept c i" "kept c d" "kept c n"
    "ty (objects c ! i) = FE_TSYMBOL" "ocdr (objects c ! i) = VObj (Ref d)" "ty (objects c ! d) = FE_TPAIR"
    "ocar (objects c ! d) = VObj (Ref n)" "ocdr (objects c ! d) = VObj v" "is_string c (Ref n) s"
    by (rule sym_obj_kept)
  with assms(1) is_string_evo [OF assms(1) h(10,4)] show ?thesis
    unfolding sym_obj_def by (intro exI [of _ i] exI [of _ d] exI [of _ n]) (auto simp: evo_def kept_def)
qed

lemma interned_live:
  assumes "interned c tab"
  shows "list_kept c (symlist c) (map fst tab)" and "(sy, s, v) \<in> set tab \<Longrightarrow> live_ptr c sy"
proof -
  have pl: "pair_list (objects c) (symlist c) (map fst tab)" using assms by (simp add: interned_def)
  have "live_ptr c (symlist c)"
  proof (cases tab)
    case Nil
    with pl show ?thesis by (simp add: live_ptr_def)
  next
    case (Cons e es)
    with pl obtain j where j: "symlist c = Ref j" "j < length (objects c)" "ty (objects c ! j) = FE_TPAIR"
      by (auto split: ptr.splits)
    then have "Ref j \<in> roots c" by (auto simp: roots_def gc_roots_def)
    with j show ?thesis by (auto simp: live_ptr_def intro: kept_root)
  qed
  from pair_list_kept [OF pl this] assms
  show "list_kept c (symlist c) (map fst tab)" and "(sy, s, v) \<in> set tab \<Longrightarrow> live_ptr c sy"
    by (fastforce simp: interned_def sym_obj_def)+
qed

lemma list_kept_pair_list: "list_kept c p xs \<Longrightarrow> pair_list (objects c) p xs"
  by (induction xs arbitrary: p) (auto simp: kept_def split: ptr.splits val.splits)

lemma interned_evo:
  assumes "interned c tab" and e: "evo {} [] c c'" and "symlist c' = symlist c"
  shows "interned c' tab"
proof -
  have "pair_list (objects c') (symlist c') (map fst tab)"
    using list_kept_evo [OF interned_live(1) [OF assms(1)] e] assms(3) by (simp add: list_kept_pair_list)
  moreover have "sym_obj c' sy s v" if "(sy, s, v) \<in> set tab" for sy s v
    using that assms(1) sym_obj_evo [OF e] interned_live(2) [OF assms(1)] by (fastforce simp: interned_def)
  ultimately show ?thesis using assms(1) by (auto simp: interned_def)
qed

section \<open>Interning\<close>

lemma symbol_name_run:
  assumes "sym_obj c sy s v"
  obtains nm where "symbol_name sy c = (Inr nm, c)" "is_string c nm s"
proof -
  from assms obtain i d n where h: "sy = Ref i" "i < length (objects c)" "ocdr (objects c ! i) = VObj (Ref d)"
    "d < length (objects c)" "ocar (objects c ! d) = VObj (Ref n)" "is_string c (Ref n) s"
    by (auto simp: sym_obj_def)
  then have "symbol_name sy c = (Inr (Ref n), c)"
    by (simp add: symbol_name_def bnd_Inr [OF cdr_Ref] car_Ref)
  with h(6) that show ?thesis by blast
qed

lemma sym_obj_more:
  assumes "limit_ctx.more c' = limit_ctx.more c"
  shows "sym_obj c' sy s v = sym_obj c sy s v"
  unfolding sym_obj_def more_fields(1) [OF assms] is_string_more [OF assms] ..

lemma wp_find_symbol:
  assumes wf: "wf_slabs (slabs c)"
  shows "pair_list (objects c) l (map fst es) \<Longrightarrow> \<forall>(sy, s, v) \<in> set es. sym_obj c sy s v \<Longrightarrow> length es < n \<Longrightarrow>
    limit_ctx.more c1 = limit_ctx.more c \<Longrightarrow>
    wp (find_symbol n name l k)
      (\<lambda>r c'. limit_ctx.more c' = limit_ctx.more c \<and> r = map_option fst (find (\<lambda>e. fst (snd e) = name) es))
      (poll_err c) c1"
proof (induction es arbitrary: l n k c1)
  case Nil
  then show ?case by (cases n) (simp_all add: isnil_def wp_simps)
next
  case (Cons e es)
  obtain sy s v where e: "e = (sy, s, v)" by (cases e)
  from Cons.prems(3) obtain m where n: "n = Suc m" "length es < m" by (cases n) auto
  from Cons.prems(1) have "pair_list (objects c) l (sy # map fst es)" by (simp add: e)
  then obtain i d where l: "l = Ref i" "i < length (objects c)" "ocar (objects c ! i) = VObj sy"
    "ocdr (objects c ! i) = VObj d" "pair_list (objects c) d (map fst es)" by (rule pair_listE)
  have body: "wp (bnd (car l) (\<lambda>sy. bnd (symbol_name sy) (\<lambda>nm.
        bnd (streq nm name) (\<lambda>eq. if eq then ret (Some sy)
          else bnd (cdr l) (\<lambda>rest. find_symbol m name rest k')))))
      (\<lambda>r c'. limit_ctx.more c' = limit_ctx.more c \<and> r = map_option fst (find (\<lambda>e. fst (snd e) = name) (e # es)))
      (poll_err c) c2" if m2: "limit_ctx.more c2 = limit_ctx.more c" for k' c2
  proof -
    note f = more_fields(1,2) [OF m2]
    have "sym_obj c2 sy s v" using Cons.prems(2) e sym_obj_more [OF m2] by auto
    then obtain nm where nm: "symbol_name sy c2 = (Inr nm, c2)" "is_string c2 nm s" by (rule symbol_name_run)
    have "streq nm name c2 = (Inr (s = name), c2)"
      using nm(2) wf f by (intro streq_bytes) (simp_all add: is_string_def)
    moreover have "car l c2 = (Inr sy, c2)" "cdr l c2 = (Inr d, c2)" using l f by (simp_all add: car_Ref cdr_Ref)
    moreover have "wp (find_symbol m name d k') (\<lambda>r c'. limit_ctx.more c' = limit_ctx.more c \<and>
        r = map_option fst (find (\<lambda>e. fst (snd e) = name) es)) (poll_err c) c2"
      by (rule Cons.IH [OF l(5) _ n(2) m2]) (use Cons.prems(2) in auto)
    ultimately show ?thesis using nm(1) m2 by (auto simp: wp_def bnd_def ret_def e)
  qed
  have "\<not> isnil l" using l(1) by (simp add: isnil_def)
  then show ?case
    unfolding n find_symbol.simps if_not_P [OF \<open>\<not> isnil l\<close>]
    by (subst wp_bnd, intro wp_mono [OF wp_check_io_abort [where Q = "\<lambda>k c2. limit_ctx.more c2 = limit_ctx.more c"]])
      (simp add: Cons.prems(4), rule body, assumption, rule poll_err_trans [OF Cons.prems(4)])
qed

text \<open>Changing a cell that was not reachable, in a state that has evolved.\<close>

lemma evo_overwrite:
  assumes e: "evo {} [] c c1" and "\<not> kept c i" and r: "roots c \<subseteq> roots c1"
  shows "evo {} [] c (c1\<lparr>objects := (objects c1)[i := o']\<rparr>)"
proof -
  let ?c = "c1\<lparr>objects := (objects c1)[i := o']\<rparr>"
  have len: "length (objects ?c) = length (objects c)" using e by (simp add: evo_def)
  have same: "objects ?c ! j = objects c ! j" if "kept c j" for j
    using that e assms(2) by (cases "j = i") (auto simp: evo_def)
  have k: "kept ?c j" if "kept c j" for j
    by (rule kept_path [OF len _ same that]) (use r in \<open>auto simp: roots_def gc_roots_def\<close>)
  have "obj_bytes ?c (Ref j) = obj_bytes c1 (Ref j)" if "kept c j" for j
  proof -
    from that assms(2) have "j \<noteq> i" by blast
    then show ?thesis by (auto simp: obj_bytes_def split: val.split ptr.split)
  qed
  with k same len e show ?thesis by (auto simp: evo_def)
qed

lemma reach_subset:
  assumes "\<And>i. Ref i \<in> W \<Longrightarrow> i < length os \<Longrightarrow> i \<in> reach os V"
  shows "reach os W \<subseteq> reach os V"
proof
  fix j assume "j \<in> reach os W"
  then obtain i where i: "Ref i \<in> W" "i < length os" "(edge os)\<^sup>*\<^sup>* i j" by (auto simp: reach_def)
  from assms [OF i(1,2)] obtain k where "Ref k \<in> V" "k < length os" "(edge os)\<^sup>*\<^sup>* k i" by (auto simp: reach_def)
  with i(3) show "j \<in> reach os V" by (auto simp: reach_def intro: rtranclp_trans)
qed

text \<open>The context apart from the symbol list and what has been pushed on the root stack.\<close>

definition grown :: "fe_Context \<Rightarrow> fe_Context \<Rightarrow> bool" where
  "grown c c' \<longleftrightarrow> heap_inv {} [] c' \<and> evo {} [] c c' \<and>
     (\<exists>xs. rest c' = rest (c\<lparr>gcstack := gcstack c @ xs, symlist := symlist c'\<rparr>))"

lemma built_roots:
  assumes "built X P c i Q c'"
  shows "roots c' = insert (Ref i) (roots c)"
  by (rule fresh_roots) (use assms in \<open>simp add: built_def\<close>)

definition pushed :: "ptr list \<Rightarrow> fe_Context \<Rightarrow> fe_Context \<Rightarrow> bool" where
  "pushed xs c c' \<longleftrightarrow> rest c' = rest (c\<lparr>gcstack := gcstack c @ xs\<rparr>)"

lemma pushed_trans: "pushed xs c c1 \<Longrightarrow> pushed ys c1 c2 \<Longrightarrow> pushed (xs @ ys) c c2"
  by (simp add: pushed_def rest_def)

lemma pushed_built: "built X P c i Q c' \<Longrightarrow> pushed [Ref i] c c'"
  by (simp add: built_def pushed_def)

lemma pushed_roots: "pushed xs c c' \<Longrightarrow> roots c' = roots c \<union> {x \<in> set xs. \<not> is_fixnum x \<and> x \<noteq> Nil}"
  by (auto simp: pushed_def rest_def roots_def gc_roots_def)

lemma pushed_symlist: "pushed xs c c' \<Longrightarrow> symlist c' = symlist c"
  by (simp add: pushed_def rest_def)

text \<open>What the computation of the name has to deliver.\<close>

definition names_ok :: "ptr fcomp \<Rightarrow> string \<Rightarrow> fe_Context \<Rightarrow> bool" where
  "names_ok mk s c \<longleftrightarrow> wp mk (\<lambda>p c'. \<exists>n xs. p = Ref n \<and> heap_inv {} [] c' \<and> evo {} [] c c' \<and> pushed xs c c' \<and>
     is_string c' (Ref n) s \<and> Ref n \<in> roots c') (\<lambda>e c'. map_err e) c"

lemma names_ok_string: "heap_inv {} [] c \<Longrightarrow> names_ok (fe_string s) s c"
  unfolding names_ok_def fe_string_def
proof (rule wp_mono [OF wp_make_data_obj])
  fix p c' assume "made_string FE_TSTRING s c p c'"
  then obtain n where n: "p = Ref n" "built {} [] c n (\<lambda>o'. ty o' = FE_TSTRING) c'" "obj_bytes c' p = Some s"
    by (auto simp: made_string_def)
  then have "is_string c' (Ref n) s" by (auto simp: is_string_def typeof_def built_def kept_def)
  with n built_roots [OF n(2)] pushed_built [OF n(2)]
  show "\<exists>n xs. p = Ref n \<and> heap_inv {} [] c' \<and> evo {} [] c c' \<and> pushed xs c c' \<and>
     is_string c' (Ref n) s \<and> Ref n \<in> roots c'" by (auto simp: built_def)
qed (auto simp: src_data_def string_err_def map_err_def)

text \<open>The last step: the new list cell becomes the head of the symbol list.\<close>

lemma link_symbol:
  assumes b: "built {} [] c l (\<lambda>o'. o' = pair_cell (Ref i) (symlist c)) c1" and t: "interned c tab"
    and sy: "sym_obj c (Ref i) s Nil" "Ref i \<in> roots c" and new: "s \<notin> fst ` snd ` set tab"
  shows "interned (c1\<lparr>symlist := Ref l\<rparr>) ((Ref i, s, Nil) # tab)" and "heap_inv {} [] (c1\<lparr>symlist := Ref l\<rparr>)"
    and "evo {} [] c (c1\<lparr>symlist := Ref l\<rparr>)"
proof -
  let ?c = "c1\<lparr>symlist := Ref l\<rparr>"
  have e: "evo {} [] c c1" and inv: "heap_inv {} [] c1" and cell: "objects c1 ! l = pair_cell (Ref i) (symlist c)"
    and l: "kept c1 l" using b by (simp_all add: built_def)
  have sl: "symlist c1 = symlist c" using pushed_symlist [OF pushed_built [OF b]] .
  have t1: "interned c1 tab" by (rule interned_evo [OF t e sl])
  have ob: "obj_bytes ?c p = obj_bytes c1 p" for p by (rule obj_bytes_fields) simp_all
  then have str: "is_string ?c = is_string c1" by (simp add: fun_eq_iff is_string_def typeof_def)
  have so: "sym_obj ?c = sym_obj c1" by (simp add: fun_eq_iff sym_obj_def str)
  have "kept c i" using sy by (auto simp: sym_obj_def intro: kept_root)
  then have "sym_obj c1 (Ref i) s Nil" by (intro sym_obj_evo [OF e sy(1)]) (simp add: live_ptr_def)
  moreover have "pair_list (objects ?c) (Ref l) (Ref i # map fst tab)"
    using t1 sl cell l by (simp add: interned_def pair_cell_def kept_def)
  ultimately show "interned ?c ((Ref i, s, Nil) # tab)"
    using t1 new by (auto simp: interned_def so image_image)
  show "heap_inv {} [] ?c" by (rule heap_inv_cong [OF inv]) (use inv in \<open>simp_all add: heap_inv_def wf_spans_def\<close>)
  have rl: "Ref l \<in> roots ?c" by (auto simp: roots_def gc_roots_def)
  have "reach (objects c1) (roots c1) \<subseteq> reach (objects c1) (roots ?c)"
  proof (rule reach_subset)
    fix k assume k: "Ref k \<in> roots c1" "k < length (objects c1)"
    show "k \<in> reach (objects c1) (roots ?c)"
    proof (cases "Ref k = symlist c1")
      case True
      then have "edge (objects c1) l k" using l cell sl k by (simp add: edge_def kids_def pair_cell_def kept_def)
      with rl l show ?thesis by (auto simp: reach_def kept_def intro!: exI [of _ l])
    next
      case False
      with k have "Ref k \<in> roots ?c" by (auto simp: roots_def gc_roots_def)
      with k show ?thesis by (auto simp: reach_def)
    qed
  qed
  then have "evo {} [] c1 ?c" by (auto simp: evo_def kept_def ob)
  with e show "evo {} [] c ?c" by (rule evo_trans)
qed

lemma rest_symlist: "pushed xs c c1 \<Longrightarrow> rest (c1\<lparr>symlist := y\<rparr>) = rest (c\<lparr>gcstack := gcstack c @ xs, symlist := y\<rparr>)"
  by (simp add: pushed_def rest_def)

lemma wp_push_symbol:
  assumes inv: "heap_inv {} [] c" and t: "interned c tab" and new: "s \<notin> fst ` snd ` set tab"
    and mk: "\<And>c2. heap_inv {} [] c2 \<Longrightarrow> evo {} [] c c2 \<Longrightarrow> names_ok mk s c2"
  shows "wp (push_symbol mk) (\<lambda>p c'. interned c' ((p, s, Nil) # tab) \<and> grown c c' \<and> live_ptr c' p)
    (\<lambda>e c'. map_err e) c" (is "wp _ ?Q ?E c")
  unfolding push_symbol_def wp_bnd
proof (rule wp_mono [OF wp_object [OF inv]])
  fix p c1
  assume "\<exists>i. p = Ref i \<and> heap_inv {} [] c1 \<and> evo {} [] c c1 \<and> fresh c i c1"
  then obtain i where i: "p = Ref i" "heap_inv {} [] c1" "evo {} [] c c1" "fresh c i c1" by blast
  let ?o = "(objects c1 ! i)\<lparr>ty := FE_TSYMBOL, mark := False\<rparr>"
  let ?c2 = "c1\<lparr>objects := (objects c1)[i := ?o]\<rparr>"
  have "gc_ok ?o" using i(4) by (auto simp: gc_ok_def fresh_def)
  then have b2: "built {} [] c i (\<lambda>x. x = ?o) ?c2"
    by (intro fresh_init [OF i(2,4,3)]) (simp_all add: is_data_def)
  then have b2': "heap_inv {} [] ?c2" "evo {} [] c ?c2" "\<not> kept c i" "kept ?c2 i" by (simp_all add: built_def)
  have rest: "wp (bnd mk (\<lambda>name_obj. bnd (fe_cons name_obj Nil) (\<lambda>d. sq (set_cdr p d)
     (bnd (gets symlist) (\<lambda>l. bnd (fe_cons p l) (\<lambda>l'.
      sq (modify (\<lambda>c. c\<lparr>symlist := l'\<rparr>)) (ret p))))))) ?Q ?E ?c2"
    unfolding wp_bnd
  proof (rule wp_mono [OF mk [OF b2'(1,2), unfolded names_ok_def]])
    fix q c3
    assume "\<exists>n xs. q = Ref n \<and> heap_inv {} [] c3 \<and> evo {} [] ?c2 c3 \<and> pushed xs ?c2 c3 \<and>
        is_string c3 (Ref n) s \<and> Ref n \<in> roots c3"
    then obtain n xs where n: "q = Ref n" "heap_inv {} [] c3" "evo {} [] ?c2 c3" "pushed xs ?c2 c3"
      "is_string c3 (Ref n) s" "Ref n \<in> roots c3" by blast
    have kn: "kept c3 n" using n(5,6) by (auto simp: is_string_def typeof_def split: if_splits intro: kept_root)
    show "wp (fe_cons q Nil) (\<lambda>d. wp (sq (set_cdr p d) (bnd (gets symlist) (\<lambda>l. bnd (fe_cons p l) (\<lambda>l'.
        sq (modify (\<lambda>c. c\<lparr>symlist := l'\<rparr>)) (ret p))))) ?Q ?E) ?E c3"
    proof (rule wp_mono [OF wp_fe_cons [OF n(2)]])
      fix r c4
      assume "\<exists>d. r = Ref d \<and> built {} [] c3 d (\<lambda>o'. o' = pair_cell q Nil) c4"
      then obtain d where d: "r = Ref d" "built {} [] c3 d (\<lambda>o'. o' = pair_cell q Nil) c4" by blast
      have e24: "evo {} [] ?c2 c4" using n(3) d(2) by (auto simp: built_def intro: evo_trans)
      have e4: "evo {} [] c c4" using b2'(2) e24 by (rule evo_trans)
      have p4: "pushed ([Ref i] @ xs @ [Ref d]) c c4"
        using pushed_trans [OF pushed_built [OF b2] pushed_trans [OF n(4) pushed_built [OF d(2)]]] .
      have r4: "roots c \<subseteq> roots c4" "Ref i \<in> roots c4" "Ref d \<in> roots c4"
        using pushed_roots [OF p4] by (auto simp: is_fixnum_def)
      have i4: "objects c4 ! i = ?o" "kept c4 i" "i < length (objects c4)"
        using e24 b2'(4) i(4) by (auto simp: evo_def kept_def fresh_def)
      let ?o5 = "?o\<lparr>ocdr := VObj (Ref d)\<rparr>"
      let ?c5 = "c4\<lparr>objects := (objects c4)[i := ?o5]\<rparr>"
      have inv5: "heap_inv {} [] ?c5"
        by (rule heap_inv_overwrite) (use d(2) i4 in \<open>simp_all add: built_def is_data_def gc_ok_def\<close>)
      have e5: "evo {} [] c ?c5" by (rule evo_overwrite [OF e4 b2'(3) r4(1)])
      have s5: "symlist ?c5 = symlist c" using pushed_symlist [OF p4] by simp
      have t5: "interned ?c5 tab" by (rule interned_evo [OF t e5 s5])
      have dk: "d \<noteq> i" "d < length (objects c4)" "objects c4 ! d = pair_cell q Nil" "n \<noteq> i"
        using d(2) n(3,5) b2'(4) i4 by (auto simp: built_def kept_def evo_def is_string_def typeof_def split: if_splits)
      have str4: "is_string c4 (Ref n) s" by (rule is_string_evo [OF _ n(5) kn]) (use d(2) in \<open>simp add: built_def\<close>)
      then have "is_string ?c5 (Ref n) s"
        using dk(4) by (auto simp: is_string_def typeof_def obj_bytes_def split: if_splits val.splits ptr.splits)
      then have so5: "sym_obj ?c5 (Ref i) s Nil"
        using i4 dk n(1) by (auto simp: sym_obj_def pair_cell_def)
      have ri5: "Ref i \<in> roots ?c5" using r4(2) by (simp add: roots_def gc_roots_def)
      have "wp (fe_cons p (symlist ?c5)) (\<lambda>l'. wp (sq (modify (\<lambda>c. c\<lparr>symlist := l'\<rparr>)) (ret p)) ?Q ?E) ?E ?c5"
      proof (rule wp_mono [OF wp_fe_cons [OF inv5]])
        fix u c6
        assume "\<exists>l. u = Ref l \<and> built {} [] ?c5 l (\<lambda>o'. o' = pair_cell p (symlist ?c5)) c6"
        then obtain l where l: "u = Ref l" "built {} [] ?c5 l (\<lambda>o'. o' = pair_cell (Ref i) (symlist ?c5)) c6"
          using i(1) by blast
        note k = link_symbol [OF l(2) t5 so5 ri5 new]
        have p5: "pushed ([Ref i] @ xs @ [Ref d]) c ?c5" using p4 by (simp add: pushed_def rest_def)
        have "grown c (c6\<lparr>symlist := Ref l\<rparr>)"
          unfolding grown_def
          using k(2) evo_trans [OF e5 k(3)] rest_symlist [OF pushed_trans [OF p5 pushed_built [OF l(2)]]] by auto
        moreover have "live_ptr (c6\<lparr>symlist := Ref l\<rparr>) (Ref i)" using interned_live(2) [OF k(1)] by auto
        ultimately show "wp (sq (modify (\<lambda>c. c\<lparr>symlist := u\<rparr>)) (ret p)) ?Q ?E c6"
          using k(1) l(1) i(1) by (simp add: wp_sq wp_modify wp_ret_fun)
      qed (auto simp: alloc_err_def map_err_def)
      then show "wp (sq (set_cdr p r) (bnd (gets symlist) (\<lambda>l. bnd (fe_cons p l) (\<lambda>l'.
          sq (modify (\<lambda>c. c\<lparr>symlist := l'\<rparr>)) (ret p))))) ?Q ?E c4"
        using i4 d(1) i(1) by (simp add: wp_sq set_cdr_def wp_upd_cell wp_bnd wp_gets)
    qed (auto simp: alloc_err_def map_err_def)
  qed
  show "wp (sq (settype p FE_TSYMBOL) (bnd mk (\<lambda>name_obj. bnd (fe_cons name_obj Nil) (\<lambda>d. sq (set_cdr p d)
     (bnd (gets symlist) (\<lambda>l. bnd (fe_cons p l) (\<lambda>l'.
      sq (modify (\<lambda>c. c\<lparr>symlist := l'\<rparr>)) (ret p)))))))) ?Q ?E c1"
    using rest i(1,4) by (simp add: wp_sq settype_def wp_upd_cell fresh_def)
qed (auto simp: alloc_err_def map_err_def)

lemma grown_more:
  assumes "heap_inv {} [] c" and m: "limit_ctx.more c' = limit_ctx.more c"
  shows "grown c c'"
proof -
  note f = more_fields [OF m]
  have r: "rest c' = rest c" by (rule rest_more [OF m])
  have "evo {} [] c c'" by (rule evo_same) (use f roots_rest [OF r] in auto)
  moreover have "rest c' = rest (c\<lparr>gcstack := gcstack c @ [], symlist := symlist c'\<rparr>)"
    using r f by (simp add: rest_def)
  ultimately show ?thesis using heap_inv_more [OF assms] unfolding grown_def by blast
qed

lemma grown_trans: "grown c c1 \<Longrightarrow> grown c1 c2 \<Longrightarrow> grown c c2"
  unfolding grown_def by (auto simp: rest_def intro: evo_trans)

lemma wp_fe_symbol:
  assumes inv: "heap_inv {} [] c" and t: "interned c tab"
  shows "wp (fe_symbol name) (\<lambda>p c'. grown c c' \<and> live_ptr c' p \<and> (case find (\<lambda>e. fst (snd e) = name) tab of
        Some e \<Rightarrow> p = fst e \<and> interned c' tab | None \<Rightarrow> interned c' ((p, name, Nil) # tab)))
    (\<lambda>e c'. map_err e) c" (is "wp _ ?Q ?E c")
proof -
  have wf: "wf_slabs (slabs c)" using inv by (simp add: heap_inv_def)
  have pl: "pair_list (objects c) (symlist c) (map fst tab)" using t by (simp add: interned_def)
  have fuel: "length tab < walk_fuel c"
    using heap_list_length [OF pair_list_heap_list [OF pl]] by (simp add: walk_fuel_def)
  show ?thesis
    unfolding fe_symbol_def wp_bnd wp_gets prod.case
  proof (rule wp_mono [OF wp_find_symbol [OF wf pl _ fuel refl, where name = name]])
    show "\<forall>(sy, s, v) \<in> set tab. sym_obj c sy s v" using t by (simp add: interned_def)
    fix r c1
    assume r: "limit_ctx.more c1 = limit_ctx.more c \<and> r = map_option fst (find (\<lambda>e. fst (snd e) = name) tab)"
    then have g: "grown c c1" using grown_more [OF inv] by blast
    then have inv1: "heap_inv {} [] c1" by (simp add: grown_def)
    have t1: "interned c1 tab"
      using g r more_fields(6) [of c1 c] by (intro interned_evo [OF t]) (auto simp: grown_def)
    show "wp (case r of None \<Rightarrow> push_symbol (fe_string name) | Some x \<Rightarrow> ret x) ?Q ?E c1"
    proof (cases "find (\<lambda>e. fst (snd e) = name) tab")
      case None
      then have "name \<notin> fst ` snd ` set tab" by (auto simp: find_None_iff)
      from wp_push_symbol [OF inv1 t1 this names_ok_string] None r show ?thesis
        by (auto elim!: wp_mono intro: grown_trans [OF g])
    next
      case (Some e)
      then have "e \<in> set tab" by (auto simp: find_Some_iff)
      moreover obtain sy u v where "e = (sy, u, v)" by (rule prod_cases3)
      ultimately have "live_ptr c1 (fst e)" using interned_live(2) [OF t1] by simp
      with Some r g t1 show ?thesis by (simp add: wp_simps)
    qed
  qed (auto simp: poll_err_def map_err_def)
qed

lemma sym_obj_name: "sym_obj c sy s v \<Longrightarrow> sym_obj c sy t w \<Longrightarrow> s = t \<and> v = w"
  by (auto simp: sym_obj_def is_string_def)

lemma interned_entry: "interned c tab \<Longrightarrow> (sy, s, v) \<in> set tab \<Longrightarrow> sym_obj c sy s v"
  by (auto simp: interned_def)

lemma interned_inj:
  assumes "interned c tab" and "(sy, s, v) \<in> set tab" and "(sy', s, v') \<in> set tab"
  shows "sy = sy'"
proof -
  have "inj_on (fst \<circ> snd) (set tab)" using assms(1) by (simp add: interned_def distinct_map)
  from inj_onD [OF this _ assms(2,3)] show ?thesis by simp
qed

lemma is_string_upd:
  assumes "is_string c p u" and "p \<noteq> Ref d"
  shows "is_string (c\<lparr>objects := (objects c)[d := o']\<rparr>) p u"
  using assms by (cases p) (auto simp: is_string_def typeof_def obj_bytes_def split: if_splits val.splits ptr.splits)

lemma wp_fe_symbol_entry:
  assumes "heap_inv {} [] c" and "interned c tab"
  shows "wp (fe_symbol name) (\<lambda>p c'. grown c c' \<and> live_ptr c' p \<and>
      (\<exists>tab' v. interned c' tab' \<and> set tab \<subseteq> set tab' \<and> (p, name, v) \<in> set tab')) (\<lambda>e c'. map_err e) c"
proof (rule wp_mono [OF wp_fe_symbol [OF assms]])
  fix p c'
  assume h: "grown c c' \<and> live_ptr c' p \<and> (case find (\<lambda>e. fst (snd e) = name) tab of
        Some e \<Rightarrow> p = fst e \<and> interned c' tab | None \<Rightarrow> interned c' ((p, name, Nil) # tab))"
  show "grown c c' \<and> live_ptr c' p \<and>
      (\<exists>tab' v. interned c' tab' \<and> set tab \<subseteq> set tab' \<and> (p, name, v) \<in> set tab')"
  proof (cases "find (\<lambda>e. fst (snd e) = name) tab")
    case None
    with h show ?thesis by (auto intro!: exI [of _ "(p, name, Nil) # tab"])
  next
    case (Some e)
    then have "e \<in> set tab" "fst (snd e) = name" by (auto simp: find_Some_iff)
    with Some h show ?thesis by (cases e) auto
  qed
qed simp

text \<open>
  C7. Symbols are interned: of two calls of \<^verbatim>\<open>fe_symbol\<close>, one after the other, the results are the same object
  exactly when the names are equal, whatever the first call allocated or collected; the symbol
  table keeps its entries and its names stay distinct.
\<close>

theorem symbols_interned:
  assumes "heap_inv {} [] c" and "interned c tab"
    and "fe_symbol s1 c = (Inr p, c1)" and "fe_symbol s2 c1 = (Inr q, c2)"
  shows "(p = q \<longleftrightarrow> s1 = s2) \<and> (\<exists>tab'. interned c2 tab' \<and> set tab \<subseteq> set tab' \<and> heap_inv {} [] c2)"
proof -
  from wpD [OF wp_fe_symbol_entry [OF assms(1,2)] assms(3)] obtain tab1 v1 where
    1: "grown c c1" "interned c1 tab1" "set tab \<subseteq> set tab1" "(p, s1, v1) \<in> set tab1" by blast
  then have inv1: "heap_inv {} [] c1" by (simp add: grown_def)
  from wpD [OF wp_fe_symbol_entry [OF inv1 1(2)] assms(4)] obtain tab2 v2 where
    2: "grown c1 c2" "interned c2 tab2" "set tab1 \<subseteq> set tab2" "(q, s2, v2) \<in> set tab2" by blast
  have "(p, s1, v1) \<in> set tab2" using 1(4) 2(3) by blast
  with 2(2,4) have "p = q \<Longrightarrow> s1 = s2" by (blast dest: interned_entry sym_obj_name)
  moreover have "p = q" if "s1 = s2"
    using interned_inj [OF 2(2) \<open>(p, s1, v1) \<in> set tab2\<close>] 2(4) that by blast
  ultimately show ?thesis using 1(3) 2 by (auto simp: grown_def)
qed

section \<open>Global values\<close>

definition set_value :: "ptr \<Rightarrow> ptr \<Rightarrow> sym_entry list \<Rightarrow> sym_entry list" where
  "set_value sy v tab = map (\<lambda>(sy', s, w). (sy', s, if sy' = sy then v else w)) tab"

lemma pair_list_cong:
  "pair_list os p xs \<Longrightarrow> length os' = length os \<Longrightarrow>
   (\<And>i x. ocar (os ! i) = VObj x \<Longrightarrow> x \<in> set xs \<Longrightarrow> os' ! i = os ! i) \<Longrightarrow> pair_list os' p xs"
proof (induction xs arbitrary: p)
  case (Cons x xs)
  from Cons.prems(1) obtain i d where d: "p = Ref i" "i < length os" "ty (os ! i) = FE_TPAIR"
    "ocar (os ! i) = VObj x" "ocdr (os ! i) = VObj d" "pair_list os d xs" by (rule pair_listE)
  moreover have "os' ! i = os ! i" using Cons.prems(3) d(4) by simp
  ultimately show ?case using Cons by auto
qed simp

text \<open>\<^verbatim>\<open>fe_set\<close> on a symbol changes its value and nothing else.\<close>

lemma wp_fe_set:
  assumes inv: "heap_inv {} [] c" and t: "interned c tab" and e: "(sy, s, w) \<in> set tab"
  shows "wp (fe_set sy v) (\<lambda>_ c'. interned c' (set_value sy v tab) \<and> heap_inv {} [] c' \<and> gcstack c' = gcstack c \<and>
      (\<forall>j. ty (objects c ! j) \<noteq> FE_TPAIR \<longrightarrow> objects c' ! j = objects c ! j) \<and>
      length (objects c') = length (objects c)) E c"
proof -
  from interned_entry [OF t e] obtain i d n where h: "sy = Ref i" "i < length (objects c)"
    "ty (objects c ! i) = FE_TSYMBOL" "ocdr (objects c ! i) = VObj (Ref d)" "d < length (objects c)"
    "ty (objects c ! d) = FE_TPAIR" "ocar (objects c ! d) = VObj (Ref n)" "ocdr (objects c ! d) = VObj w"
    "is_string c (Ref n) s" by (auto simp: sym_obj_def)
  let ?o = "(objects c ! d)\<lparr>ocdr := VObj v\<rparr>" and ?os = "(objects c)[d := (objects c ! d)\<lparr>ocdr := VObj v\<rparr>]"
  let ?c = "c\<lparr>objects := ?os\<rparr>"
  have "getbound sy Nil c = (Inr (Ref d), c)"
    using h(1-4) by (simp add: getbound_def is_frame_def typeof_def bnd_def gets_def ret_def walk_fuel_def
        isnil_def cdr_Ref)
  then have run: "wp (fe_set sy v) Q E c = Q () ?c" for Q
    using h(5) by (simp add: fe_set_def wp_bnd wp_def [of "getbound sy Nil"] set_cdr_def wp_upd_cell)
  have "\<not> mark (objects c ! d)" using inv h(5,6) by (auto simp: heap_inv_def)
  then have inv': "heap_inv {} [] ?c"
    by (intro heap_inv_overwrite [OF inv h(5)]) (use h in \<open>simp_all add: is_data_def gc_ok_def\<close>)
  have other: "objects ?c ! j = objects c ! j" if "j \<noteq> d" for j using that by simp
  have str: "is_string ?c p u" if "is_string c p u" for p u
    by (rule is_string_upd [OF that]) (use that h(5,6) in \<open>auto simp: is_string_def typeof_def\<close>)
  have "sym_obj ?c sy' u (if sy' = sy then v else w')" if m: "(sy', u, w') \<in> set tab" for sy' u w'
  proof -
    from interned_entry [OF t m] obtain i' d' n' where k: "sy' = Ref i'" "i' < length (objects c)"
      "ty (objects c ! i') = FE_TSYMBOL" "ocdr (objects c ! i') = VObj (Ref d')" "d' < length (objects c)"
      "ty (objects c ! d') = FE_TPAIR" "ocar (objects c ! d') = VObj (Ref n')" "ocdr (objects c ! d') = VObj w'"
      "is_string c (Ref n') u" by (auto simp: sym_obj_def)
    have "d' = d \<longleftrightarrow> sy' = sy"
    proof
      assume "d' = d"
      with k h have "u = s" by (auto simp: is_string_def)
      with interned_inj [OF t m] e show "sy' = sy" by blast
    qed (use h k in auto)
    moreover have "i' \<noteq> d" using k(3) h(6) by auto
    ultimately show ?thesis
      using k h str [OF k(9)] unfolding sym_obj_def
      by (intro exI [of _ i'] exI [of _ d'] exI [of _ n']) (auto simp: nth_list_update)
  qed
  moreover have "pair_list ?os (symlist c) (map fst tab)"
  proof (rule pair_list_cong [where os = "objects c"])
    fix j x assume j: "ocar (objects c ! j) = VObj x" "x \<in> set (map fst tab)"
    then have "ty (objects c ! n) \<noteq> FE_TSYMBOL \<Longrightarrow> x \<noteq> Ref n"
      using t by (auto simp: interned_def sym_obj_def)
    moreover have "ty (objects c ! n) = FE_TSTRING" using h(9) by (auto simp: is_string_def typeof_def split: if_splits)
    ultimately have "j \<noteq> d" using j h(7) by auto
    then show "?os ! j = objects c ! j" by simp
  qed (use t in \<open>simp_all add: interned_def\<close>)
  ultimately have "interned ?c (set_value sy v tab)"
    using t by (auto simp: interned_def set_value_def comp_def case_prod_beta image_iff)
  moreover have "?os ! j = objects c ! j" if "ty (objects c ! j) \<noteq> FE_TPAIR" for j
    using that h(6) by (cases "j = d") auto
  ultimately show ?thesis using inv' unfolding run by simp
qed

section \<open>Building a context\<close>

definition prim_ok :: "fe_Context \<Rightarrow> ptr \<Rightarrow> nat \<Rightarrow> bool" where
  "prim_ok c v k \<longleftrightarrow> (\<exists>i. v = Ref i \<and> i < length (objects c) \<and> ty (objects c ! i) = FE_TPRIM \<and>
     ocdr (objects c ! i) = VPrim k)"

text \<open>The first \<open>k\<close> primitives are bound to their names.\<close>

definition booted :: "nat \<Rightarrow> fe_Context \<Rightarrow> sym_entry list \<Rightarrow> bool" where
  "booted k c tab \<longleftrightarrow> heap_inv {} [] c \<and> interned c tab \<and>
     (\<forall>j < k. \<exists>sy v. (sy, primnames ! j, v) \<in> set tab \<and> prim_ok c v j)"

lemma prim_ok_evo:
  assumes t: "interned c tab" "(sy, s, v) \<in> set tab" and "prim_ok c v k" and e: "evo {} [] c c'"
  shows "prim_ok c' v k"
proof -
  from assms(3) obtain m where m: "v = Ref m" "m < length (objects c)" "ty (objects c ! m) = FE_TPRIM"
    "ocdr (objects c ! m) = VPrim k" by (auto simp: prim_ok_def)
  from interned_entry [OF t] interned_live(2) [OF t] obtain d where d: "kept c d" "ty (objects c ! d) = FE_TPAIR"
    "ocdr (objects c ! d) = VObj v" "\<exists>n. ocar (objects c ! d) = VObj (Ref n)" by (blast elim: sym_obj_kept)
  have "kept c m" by (rule kept_kid [OF d(1)]) (use d m in \<open>auto simp: kids_def\<close>)
  with e m show ?thesis by (auto simp: evo_def prim_ok_def)
qed

lemma booted_evo:
  assumes "booted k c tab" and "heap_inv {} [] c'" and "evo {} [] c c'" and "interned c' tab'" and "set tab \<subseteq> set tab'"
  shows "booted k c' tab'"
  using assms unfolding booted_def by (meson prim_ok_evo subsetD)

lemma booted_cong:
  assumes b: "booted k c tab" and f: "objects c' = objects c" "freelist c' = freelist c" "slabs c' = slabs c"
    "str_freelist c' = str_freelist c" "symlist c' = symlist c" and "wf_spans c'"
  shows "booted k c' tab"
proof -
  have "heap_inv {} [] c'" by (rule heap_inv_cong) (use assms in \<open>simp_all add: booted_def\<close>)
  moreover have "obj_bytes c' p = obj_bytes c p" for p by (rule obj_bytes_fields [OF f(1,3)])
  ultimately show ?thesis
    using b f by (simp add: booted_def interned_def sym_obj_def is_string_def typeof_def prim_ok_def)
qed

lemma booted_wf_spans: "booted k c tab \<Longrightarrow> span_state c' = span_state c \<Longrightarrow> wf_spans c'"
  by (simp add: booted_def heap_inv_def wf_spans_def)

lemma booted_gcstack:
  assumes "booted k c tab"
  shows "booted k (c\<lparr>gcstack := xs\<rparr>) tab"
  by (rule booted_cong [OF assms]) (simp_all add: booted_wf_spans [OF assms])

lemma primnames_distinct: "i < P_MAX \<Longrightarrow> j < P_MAX \<Longrightarrow> primnames ! i = primnames ! j \<longleftrightarrow> i = j"
proof -
  have "distinct primnames" "length primnames = P_MAX" by (simp_all add: primnames_def P_MAX_def)
  then show "i < P_MAX \<Longrightarrow> j < P_MAX \<Longrightarrow> primnames ! i = primnames ! j \<longleftrightarrow> i = j"
    by (simp add: nth_eq_iff_index_eq)
qed

lemma booted_set_prim:
  assumes b: "booted i c tab" and i: "i < P_MAX" and e: "(sy, primnames ! i, w) \<in> set tab" and v: "prim_ok c v i"
  shows "wp (fe_set sy v) (\<lambda>_ c'. booted (Suc i) c' (set_value sy v tab)) E c"
proof -
  from b have t: "heap_inv {} [] c" "interned c tab" by (simp_all add: booted_def)
  show ?thesis
  proof (rule wp_mono [OF wp_fe_set [OF t e]])
    fix x c'
    assume h: "interned c' (set_value sy v tab) \<and> heap_inv {} [] c' \<and> gcstack c' = gcstack c \<and>
      (\<forall>j. ty (objects c ! j) \<noteq> FE_TPAIR \<longrightarrow> objects c' ! j = objects c ! j) \<and> length (objects c') = length (objects c)"
    then have po: "prim_ok c u k \<Longrightarrow> prim_ok c' u k" for u k by (auto simp: prim_ok_def)
    have "\<exists>sy' u. (sy', primnames ! j, u) \<in> set (set_value sy v tab) \<and> prim_ok c' u j" if "j < Suc i" for j
    proof (cases "j = i")
      case True
      have "(sy, primnames ! i, v) \<in> set (set_value sy v tab)" using e by (force simp: set_value_def)
      with True po [OF v] show ?thesis by blast
    next
      case False
      with that b obtain sy' u where u: "(sy', primnames ! j, u) \<in> set tab" "prim_ok c u j"
        by (auto simp: booted_def less_Suc_eq)
      have "sy' \<noteq> sy"
      proof
        assume "sy' = sy"
        with u(1) e t(2) have "primnames ! j = primnames ! i" by (blast dest: interned_entry sym_obj_name)
        with False that i primnames_distinct [of j i] show False by simp
      qed
      with u(1) have "(sy', primnames ! j, u) \<in> set (set_value sy v tab)" by (force simp: set_value_def)
      with po [OF u(2)] show ?thesis by blast
    qed
    with h show "booted (Suc i) c' (set_value sy v tab)" by (simp add: booted_def)
  qed
qed

lemma wp_register_prim:
  assumes b: "booted i c tab" and i: "i < P_MAX"
  shows "wp (register_prim save i) (\<lambda>_ c'. \<exists>tab'. booted (Suc i) c' tab') (\<lambda>e c'. map_err e) c" (is "wp _ ?Q ?E c")
proof -
  from b have inv: "heap_inv {} [] c" and t: "interned c tab" by (simp_all add: booted_def)
  let ?f = "\<lambda>o'. (o'\<lparr>ty := FE_TPRIM, mark := False\<rparr>)\<lparr>ocdr := VPrim i\<rparr>"
  show ?thesis
    unfolding register_prim_def wp_bnd
  proof (rule wp_mono [OF wp_object [OF inv]])
    fix p c0
    assume "\<exists>m. p = Ref m \<and> heap_inv {} [] c0 \<and> evo {} [] c c0 \<and> fresh c m c0"
    then obtain m where m: "p = Ref m" "heap_inv {} [] c0" "evo {} [] c c0" "fresh c m c0" by blast
    let ?c = "c0\<lparr>objects := (objects c0)[m := ?f (objects c0 ! m)]\<rparr>"
    have b1: "built {} [] c m (\<lambda>x. x = ?f (objects c0 ! m)) ?c"
      by (rule fresh_init [OF m(2,4,3)]) (simp_all add: gc_ok_def is_data_def)
    have e1: "evo {} [] c ?c" "heap_inv {} [] ?c" "kept ?c m" using b1 by (simp_all add: built_def)
    have t1: "interned ?c tab" by (rule interned_evo [OF t e1(1) pushed_symlist [OF pushed_built [OF b1]]])
    have bo1: "booted i ?c tab" by (rule booted_evo [OF b e1(2,1) t1 order_refl])
    have pr: "prim_ok ?c p i" using m(1,4) by (simp add: prim_ok_def fresh_def)
    have "wp (bnd (fe_symbol (primnames ! i)) (\<lambda>sy. sq (fe_set sy p) (fe_restoregc save))) ?Q ?E ?c"
      unfolding wp_bnd
    proof (rule wp_mono [OF wp_fe_symbol_entry [OF e1(2) t1]])
      fix sy c2
      assume "grown ?c c2 \<and> live_ptr c2 sy \<and> (\<exists>tab' v. interned c2 tab' \<and> set tab \<subseteq> set tab' \<and>
        (sy, primnames ! i, v) \<in> set tab')"
      then obtain tab2 w where g: "grown ?c c2" "interned c2 tab2" "set tab \<subseteq> set tab2" "(sy, primnames ! i, w) \<in> set tab2"
        by blast
      have b2: "booted i c2 tab2" by (rule booted_evo [OF bo1]) (use g in \<open>simp_all add: grown_def\<close>)
      have "prim_ok c2 p i" using pr g(1) e1(3) m(1) by (auto simp: prim_ok_def grown_def evo_def)
      from booted_set_prim [OF b2 i g(4) this, where E = ?E]
      show "wp (sq (fe_set sy p) (fe_restoregc save)) ?Q ?E c2"
        unfolding wp_sq by (rule wp_mono) (auto simp: fe_restoregc_def wp_modify dest: booted_gcstack)
    qed simp
    then show "wp (sq (settype p FE_TPRIM) (sq (upd_cell p (\<lambda>o'. o'\<lparr>ocdr := VPrim i\<rparr>))
        (bnd (fe_symbol (primnames ! i)) (\<lambda>sy. sq (fe_set sy p) (fe_restoregc save))))) ?Q ?E c0"
      using m(1,4) by (simp add: wp_sq settype_def wp_upd_cell fresh_def)
  qed (auto simp: alloc_err_def map_err_def)
qed

lemma wp_register_prims:
  "booted i c tab \<Longrightarrow> i \<le> P_MAX \<Longrightarrow>
   wp (register_prims save [i..<P_MAX]) (\<lambda>_ c'. \<exists>tab'. booted P_MAX c' tab') (\<lambda>e c'. map_err e) c"
proof (induction "P_MAX - i" arbitrary: i c tab)
  case 0
  then show ?case by (auto simp: wp_simps)
next
  case (Suc n)
  then have i: "i < P_MAX" by simp
  then have *: "[i..<P_MAX] = i # [Suc i..<P_MAX]" by (rule upt_conv_Cons)
  show ?case
    unfolding * register_prims.simps wp_sq
    by (rule wp_mono [OF wp_register_prim [OF Suc.prems(1) i]]) (use Suc.hyps i in auto)
qed

subsection \<open>The special symbols\<close>

definition syms_ok :: "((fe_Context \<Rightarrow> ptr) \<times> string) list \<Rightarrow> fe_Context \<Rightarrow> sym_entry list \<Rightarrow> bool" where
  "syms_ok fs c tab \<longleftrightarrow> (\<forall>(f, s) \<in> set fs. \<exists>v. (f c, s, v) \<in> set tab)"

text \<open>One step of the initialisation: intern a name and store the symbol in a field of the context.\<close>

lemma wp_intern_field:
  assumes b: "booted k c tab" "syms_ok fs c tab"
    and fs: "\<And>c c' xs y f s. rest c' = rest (c\<lparr>gcstack := xs, symlist := y\<rparr>) \<Longrightarrow> (f, s) \<in> set fs \<Longrightarrow> f c' = f c"
    and upd: "\<And>c x. fld (upd x c) = x" "\<And>c x f s. (f, s) \<in> set fs \<Longrightarrow> f (upd x c) = f c"
      "\<And>c x tab. booted k c tab \<Longrightarrow> booted k (upd x c) tab"
    and m: "\<And>c' tab'. booted k c' tab' \<Longrightarrow> syms_ok ((fld, name) # fs) c' tab' \<Longrightarrow> wp m Q (\<lambda>e c'. map_err e) c'"
  shows "wp (bnd (fe_symbol name) (\<lambda>s. sq (modify (upd s)) m)) Q (\<lambda>e c'. map_err e) c"
  unfolding wp_bnd
proof (rule wp_mono [OF wp_fe_symbol_entry])
  show "heap_inv {} [] c" "interned c tab" using b(1) by (simp_all add: booted_def)
  fix sy c2
  assume "grown c c2 \<and> live_ptr c2 sy \<and> (\<exists>tab' v. interned c2 tab' \<and> set tab \<subseteq> set tab' \<and> (sy, name, v) \<in> set tab')"
  then obtain tab2 w where g: "grown c c2" "interned c2 tab2" "set tab \<subseteq> set tab2" "(sy, name, w) \<in> set tab2" by blast
  have "booted k c2 tab2" by (rule booted_evo [OF b(1)]) (use g in \<open>simp_all add: grown_def\<close>)
  then have 1: "booted k (upd sy c2) tab2" by (rule upd(3))
  have "\<exists>v. (f (upd sy c2), s, v) \<in> set tab2" if "(f, s) \<in> set fs" for f s
  proof -
    have "f c2 = f c" using g(1) fs [OF _ that] by (auto simp: grown_def)
    moreover have "\<exists>v. (f c, s, v) \<in> set tab"
      using bspec [OF b(2) [unfolded syms_ok_def] that] by (simp only: prod.case)
    moreover have "f (upd sy c2) = f c2" by (rule upd(2) [OF that])
    ultimately show ?thesis using g(3) by auto
  qed
  then have "syms_ok ((fld, name) # fs) (upd sy c2) tab2"
    using g(4) upd(1) by (auto simp: syms_ok_def)
  from m [OF 1 this] show "wp (sq (modify (upd sy)) m) Q (\<lambda>e c'. map_err e) c2" by (simp add: wp_sq wp_modify)
qed simp

lemma rest_fields:
  assumes "rest c' = rest (c\<lparr>gcstack := xs, symlist := y\<rparr>)"
  shows "return_sym c' = return_sym c" "frame_sym c' = frame_sym c" "do_sym c' = do_sym c"
    "let_sym c' = let_sym c" "quote_sym c' = quote_sym c" "fn_sym c' = fn_sym c" "mac_sym c' = mac_sym c"
  using assms by (simp_all add: rest_def)

definition special_syms :: "((fe_Context \<Rightarrow> ptr) \<times> string) list" where
  "special_syms = [(mac_sym, ''mac''), (fn_sym, ''fn''), (quote_sym, ''quote''), (let_sym, ''let''),
     (do_sym, ''do''), (frame_sym, ''[frame]''), (return_sym, ''return'')]"

lemma sq_ret: "sq m (ret ()) = m"
  by (auto simp: fun_eq_iff sq_def bnd_def ret_def split: prod.split sum.split)

lemma booted_upd_field:
  assumes "booted k c tab"
  shows "booted k (c\<lparr>return_sym := x\<rparr>) tab" "booted k (c\<lparr>frame_sym := x\<rparr>) tab" "booted k (c\<lparr>do_sym := x\<rparr>) tab"
    "booted k (c\<lparr>let_sym := x\<rparr>) tab" "booted k (c\<lparr>quote_sym := x\<rparr>) tab" "booted k (c\<lparr>fn_sym := x\<rparr>) tab"
    "booted k (c\<lparr>mac_sym := x\<rparr>) tab" "booted k (c\<lparr>t_sym := x\<rparr>) tab"
  by (rule booted_cong [OF assms]; simp add: booted_wf_spans [OF assms])+

lemma wp_init_special:
  assumes "booted k c tab"
  shows "wp init_special (\<lambda>_ c'. \<exists>tab'. booted k c' tab' \<and> syms_ok special_syms c' tab') (\<lambda>e c'. map_err e) c"
proof -
  note step = wp_intern_field [where k = k and Q = "\<lambda>_ c'. \<exists>tab'. booted k c' tab' \<and> syms_ok special_syms c' tab'"]
  note side = booted_upd_field rest_fields
  show ?thesis
    unfolding init_special_def
    apply (rule step [where fld = return_sym and fs = "[]"], fact, simp add: syms_ok_def)
       apply (auto simp: side dest: rest_fields)[4]
    apply (rule step [where fld = frame_sym and fs = "[(return_sym, ''return'')]"], assumption, assumption)
       apply (auto simp: side dest: rest_fields)[4]
    apply (rule step [where fld = do_sym and fs = "[(frame_sym, ''[frame]''), (return_sym, ''return'')]"], assumption, assumption)
       apply (auto simp: side dest: rest_fields)[4]
    apply (rule step [where fld = let_sym and fs = "[(do_sym, ''do''), (frame_sym, ''[frame]''), (return_sym, ''return'')]"], assumption, assumption)
       apply (auto simp: side dest: rest_fields)[4]
    apply (rule step [where fld = quote_sym and fs = "[(let_sym, ''let''), (do_sym, ''do''), (frame_sym, ''[frame]''), (return_sym, ''return'')]"], assumption, assumption)
       apply (auto simp: side dest: rest_fields)[4]
    apply (rule step [where fld = fn_sym and fs = "[(quote_sym, ''quote''), (let_sym, ''let''), (do_sym, ''do''), (frame_sym, ''[frame]''), (return_sym, ''return'')]"], assumption, assumption)
       apply (auto simp: side dest: rest_fields)[4]
    apply (rule step [where fld = mac_sym and fs = "[(fn_sym, ''fn''), (quote_sym, ''quote''), (let_sym, ''let''), (do_sym, ''do''), (frame_sym, ''[frame]''), (return_sym, ''return'')]"], assumption, assumption)
       apply (auto simp: side dest: rest_fields)[4]
    apply (auto simp: wp_ret special_syms_def)
    done
qed

lemma wp_init_symbols:
  assumes "heap_inv {} [] c" and "symlist c = Nil"
  shows "wp init_symbols (\<lambda>_ c'. \<exists>tab. booted P_MAX c' tab \<and> syms_ok special_syms c' tab) (\<lambda>e c'. map_err e) c"
    (is "wp _ ?Q ?E c")
proof -
  have t0: "interned c []" using assms(2) by (simp add: interned_def)
  show ?thesis
    unfolding init_symbols_def
  proof (subst wp_bnd, rule wp_mono [OF wp_fe_symbol_entry [OF assms(1) t0]])
    fix t c1
    assume "grown c c1 \<and> live_ptr c1 t \<and> (\<exists>tab' v. interned c1 tab' \<and> set [] \<subseteq> set tab' \<and> (t, ''t'', v) \<in> set tab')"
    then obtain tab w where g: "grown c c1" "interned c1 tab" "(t, ''t'', w) \<in> set tab" by blast
    then have "booted 0 c1 tab" by (simp add: booted_def grown_def)
    then have "booted 0 (c1\<lparr>t_sym := t\<rparr>) tab" by (rule booted_upd_field)
    then have b: "heap_inv {} [] (c1\<lparr>t_sym := t\<rparr>)" "interned (c1\<lparr>t_sym := t\<rparr>) tab" by (simp_all add: booted_def)
    have "wp (bnd fe_savegc (\<lambda>save. sq (register_prims save [0..<P_MAX]) init_special)) ?Q ?E c2"
      if "interned c2 tab2" "heap_inv {} [] c2" for c2 tab2
    proof -
      have "booted 0 c2 tab2" using that by (simp add: booted_def)
      from wp_register_prims [OF this] show ?thesis
        unfolding fe_savegc_def wp_bnd wp_gets wp_sq
        by (rule wp_mono) (use wp_init_special in auto)
    qed
    then show "wp (sq (modify (\<lambda>c. c\<lparr>t_sym := t\<rparr>)) (sq (fe_set t t)
        (bnd fe_savegc (\<lambda>save. sq (register_prims save [0..<P_MAX]) init_special)))) ?Q ?E c1"
      unfolding wp_sq [of "modify _"] wp_modify
      by (subst wp_sq, intro wp_mono [OF wp_fe_set [OF b g(3)]]) auto
  qed simp
qed

subsection \<open>The arenas of a new context\<close>

lemma fold_free_slab:
  assumes "str_freelist c = FE_SLAB_NULL" and "FE_SLAB_SIZE * length (slabs c) < 2 ^ 32"
  shows "k \<le> length (slabs c) \<Longrightarrow> \<exists>ss off. fold free_slab_at [0..<k] c = c\<lparr>slabs := ss, str_freelist := off\<rparr> \<and>
     length ss = length (slabs c) \<and> slab_chain ss off (rev [0..<k]) \<and> map slab_data ss = map slab_data (slabs c)"
proof (induction k)
  case 0
  have "c = c\<lparr>slabs := slabs c, str_freelist := FE_SLAB_NULL\<rparr>" using assms(1) by simp
  then show ?case by (intro exI [of _ "slabs c"] exI [of _ FE_SLAB_NULL]) simp
next
  case (Suc k)
  then obtain ss off where h: "fold free_slab_at [0..<k] c = c\<lparr>slabs := ss, str_freelist := off\<rparr>"
    "length ss = length (slabs c)" "slab_chain ss off (rev [0..<k])" "map slab_data ss = map slab_data (slabs c)" by auto
  let ?ss = "ss[k := (ss ! k)\<lparr>slab_next := off\<rparr>]"
  have "FE_SLAB_SIZE * k < 2 ^ 32" using assms(2) Suc.prems by (simp add: FE_SLAB_SIZE_def)
  then have "unat (of_nat (FE_SLAB_SIZE * k) :: u32) = FE_SLAB_SIZE * k" by (simp only: unat_of_nat) simp
  moreover have "slab_chain ?ss off (rev [0..<k])" by (rule slab_chain_cong [OF h(3)]) auto
  moreover have "map slab_data ?ss = map slab_data (slabs c)"
    using h(2,4) Suc.prems by (metis (no_types, lifting) fe_Slab.select_convs(2) fe_Slab.surjective
        fe_Slab.update_convs(1) list_update_id map_update)
  moreover have "fold free_slab_at [0..<Suc k] c = c\<lparr>slabs := ?ss, str_freelist := of_nat (FE_SLAB_SIZE * k)\<rparr>"
    using h(1) by simp (simp add: free_slab_at_def)
  ultimately show ?case
    using h(2) Suc.prems by (intro exI [of _ ?ss] exI [of _ "of_nat (FE_SLAB_SIZE * k)"]) simp
qed

lemma fold_free_cell:
  assumes "freelist c = Nil"
  shows "k \<le> length (objects c) \<Longrightarrow> \<exists>os p. fold free_cell_at [0..<k] c = c\<lparr>objects := os, freelist := p\<rparr> \<and>
     length os = length (objects c) \<and> free_chain os p (rev [0..<k]) \<and>
     (\<forall>i < k. ty (os ! i) = FE_TFREE \<and> \<not> mark (os ! i))"
proof (induction k)
  case 0
  have "c = c\<lparr>objects := objects c, freelist := Nil\<rparr>" using assms(1) by simp
  then show ?case by (intro exI [of _ "objects c"] exI [of _ Nil]) simp
next
  case (Suc k)
  then obtain os p where h: "fold free_cell_at [0..<k] c = c\<lparr>objects := os, freelist := p\<rparr>"
    "length os = length (objects c)" "free_chain os p (rev [0..<k])"
    "\<forall>i < k. ty (os ! i) = FE_TFREE \<and> \<not> mark (os ! i)" by auto
  let ?os = "os[k := (os ! k)\<lparr>ty := FE_TFREE, mark := False, ocdr := VObj p\<rparr>]"
  have "free_chain ?os p (rev [0..<k])" by (rule free_chain_cong [OF h(3)]) auto
  moreover have "fold free_cell_at [0..<Suc k] c = c\<lparr>objects := ?os, freelist := Ref k\<rparr>"
    using h(1) by simp (simp add: free_cell_at_def)
  ultimately show ?case
    using h(2,4) Suc.prems
    by (intro exI [of _ ?os] exI [of _ "Ref k"]) (auto simp: nth_list_update less_Suc_eq)
qed

lemma init_arenas_inv:
  assumes "FE_SLAB_SIZE * sc < 2 ^ 32"
  shows "heap_inv {} [] (init_arenas oc sc (zeroed_context env n)) \<and> symlist (init_arenas oc sc (zeroed_context env n)) = Nil"
proof -
  let ?z = "zeroed_context env n"
  let ?c0 = "?z\<lparr>objects := replicate oc \<lparr>ocar = VNone, ocdr = VNone, ty = FE_TPAIR, mark = False\<rparr>,
      slabs := replicate sc \<lparr>slab_next = 0, slab_data = replicate FE_SLAB_DATA_SIZE (CHR 0x00)\<rparr>\<rparr>"
  obtain ss off where s: "fold free_slab_at [0..<sc] ?c0 = ?c0\<lparr>slabs := ss, str_freelist := off\<rparr>" "length ss = sc"
    "slab_chain ss off (rev [0..<sc])" "map slab_data ss = map slab_data (slabs ?c0)"
    using fold_free_slab [of ?c0 sc] assms by (auto simp: zeroed_context_def)
  define a where "a = (let thr = int (oc div GC_INITIAL_DIVISOR) in if thr < GC_MIN_THRESHOLD then GC_MIN_THRESHOLD else thr)"
  define b where "b = (of_nat (oc * sizeof_fe_Object div 3) :: size_t)"
  let ?c1 = "?c0\<lparr>slabs := ss, str_freelist := off, gc_threshold := a, byte_threshold := b\<rparr>"
  have eq: "init_arenas oc sc ?z = fold free_cell_at [0..<oc] ?c1"
    unfolding init_arenas_def Let_def s(1) a_def b_def by simp
  obtain os p where o': "init_arenas oc sc ?z = ?c1\<lparr>objects := os, freelist := p\<rparr>" "length os = oc"
    "free_chain os p (rev [0..<oc])" "\<forall>i < oc. ty (os ! i) = FE_TFREE \<and> \<not> mark (os ! i)"
    using fold_free_cell [of ?c1 oc] unfolding eq by (auto simp: zeroed_context_def)
  let ?c = "?c1\<lparr>objects := os, freelist := p\<rparr>"
  have free: "\<forall>o' \<in> set os. ty o' = FE_TFREE \<and> \<not> mark o'" using o'(2,4) by (auto simp: in_set_conv_nth)
  have "\<forall>x \<in> set ss. length (slab_data x) = FE_SLAB_DATA_SIZE"
  proof
    fix x assume "x \<in> set ss"
    then have "slab_data x \<in> set (map slab_data ss)" by simp
    then show "length (slab_data x) = FE_SLAB_DATA_SIZE" unfolding s(4) by auto
  qed
  then have "heap_inv {} [] ?c"
    by (intro heap_invI [where fs = "rev [0..<oc]" and fl = "rev [0..<sc]" and chs = "replicate oc []"])
      (use o' s free in \<open>auto simp: gc_ok_def slab_inv_def is_data_def wf_slabs_def wf_spans_def zeroed_context_def\<close>)
  with o'(1) show ?thesis by (simp add: zeroed_context_def)
qed

lemma arena_split_bound:
  assumes "n < 2 ^ 32" and "arena_split n = (oc, sc)"
  shows "FE_SLAB_SIZE * sc < 2 ^ 32"
proof -
  let ?x = "num_mul (num_of_int (int n)) FE_STR_ARENA_RATIO"
  have n: "num_of_int (int n) = Fin (of_nat n)" using assms(1) num_of_int_small [of "int n"] by simp
  have "(\<exists>q. FE_STR_ARENA_RATIO = Fin q \<and> \<bar>q\<bar> \<le> 1 / 2) \<or> FE_STR_ARENA_RATIO = NegZero"
    using round_num_bound [of "3 / 10" "-1"] by (simp add: FE_STR_ARENA_RATIO_def pow2_def)
  then have "num_rat ?x \<le> 2 ^ 31"
  proof
    assume "\<exists>q. FE_STR_ARENA_RATIO = Fin q \<and> \<bar>q\<bar> \<le> 1 / 2"
    then obtain q where q: "FE_STR_ARENA_RATIO = Fin q" "\<bar>q\<bar> \<le> 1 / 2" by blast
    have "\<bar>of_nat n * q\<bar> \<le> of_nat n * (1 / 2)" using mult_left_mono [OF q(2), of "of_nat n"] by (simp add: abs_mult)
    also have "\<dots> < 2 ^ 31" using assms(1) by simp
    finally have "\<bar>of_nat n * q\<bar> < pow2 31" by (simp add: pow2_def)
    from round_num_bound [OF this] show ?thesis
      by (auto simp: n q num_mul_def num_is_inf_def num_is_zero_def signed_zero_def pow2_def Let_def)
  next
    assume "FE_STR_ARENA_RATIO = NegZero"
    then show ?thesis by (simp add: n num_mul_def num_is_inf_def num_is_zero_def signed_zero_def Let_def)
  qed
  then have "nat (trunc_rat (num_rat ?x)) \<le> 2 ^ 31"
  proof (cases "num_rat ?x < 0")
    case True
    then have "0 \<le> \<lfloor>- num_rat ?x\<rfloor>" by (simp add: zero_le_floor)
    then have "nat (trunc_rat (num_rat ?x)) = 0" using True unfolding trunc_rat_def by simp
    then show ?thesis by simp
  qed (simp add: trunc_rat_def nat_le_iff floor_le_iff)
  moreover define t where "t = nat (trunc_rat (num_rat ?x))"
  ultimately have "t \<le> 2 ^ 31" by simp
  moreover have "sc = (t - t mod 8) div 64"
    using assms(2) unfolding arena_split_def Let_def t_def FE_SLAB_SIZE_def by simp
  moreover have "64 * ((t - t mod 8) div 64) \<le> t" by (simp add: mult.commute le_trans [OF div_times_less_eq_dividend])
  ultimately show ?thesis unfolding FE_SLAB_SIZE_def by simp
qed



text \<open>A heap whose symbol list (cell 0) holds the symbol \<open>x\<close> (cell 1).\<close>

definition sym_example :: fe_Context where
  "sym_example = (zeroed_context quiet_env 4096)
     \<lparr>objects := [pair_cell (Ref 1) Nil, symbol_cell (Ref 2), pair_cell (Ref 3) Nil,
                  \<lparr>ocar = VObj (Fixnum 1), ocdr = VU32 0, ty = FE_TSTRING, mark = False\<rparr>],
      symlist := Ref 0,
      slabs := [\<lparr>slab_next = FE_SLAB_NULL, slab_data = ''x'' @ replicate 59 (CHR 0x00)\<rparr>]\<rparr>"

lemma sym_example_inv: "heap_inv {} [] sym_example"
proof -
  have os: "objects sym_example = [pair_cell (Ref 1) Nil, symbol_cell (Ref 2), pair_cell (Ref 3) Nil,
      \<lparr>ocar = VObj (Fixnum 1), ocdr = VU32 0, ty = FE_TSTRING, mark = False\<rparr>]"
    and ss: "slabs sym_example = [\<lparr>slab_next = FE_SLAB_NULL, slab_data = ''x'' @ replicate 59 (CHR 0x00)\<rparr>]"
    and fl: "freelist sym_example = Nil" "str_freelist sym_example = FE_SLAB_NULL" "span_state sym_example = None"
    by (simp_all add: sym_example_def zeroed_context_def)
  have "slab_inv {} [] sym_example [] [[], [], [], [0]]"
    by (auto simp: slab_inv_def os ss fl is_data_def data_ok_def pair_cell_def symbol_cell_def FE_SLAB_SIZE_def
        FE_SLAB_DATA_SIZE_def less_Suc_eq numeral_eq_Suc)
  then show ?thesis
    by (rule heap_invI [rotated 2, where fs = "[]"])
      (simp_all add: os ss fl gc_ok_def pair_cell_def symbol_cell_def wf_slabs_def FE_SLAB_DATA_SIZE_def wf_spans_def)
qed

lemma sym_example_interned: "interned sym_example [(Ref 1, ''x'', Nil)]"
  by (simp add: interned_def sym_obj_def sym_example_def pair_cell_def symbol_cell_def is_string_def typeof_def
      obj_bytes_def slab_bytes.simps slab_at_def chunk_def FE_SLAB_DATA_SIZE_def FE_SLAB_SIZE_def FE_SLAB_NULL_def)

theorem symbols_interned_witness:
  "\<exists>p c1 q c2. fe_symbol ''x'' sym_example = (Inr p, c1) \<and> fe_symbol ''x'' c1 = (Inr q, c2) \<and> p = q"
proof -
  have x: "streq (Ref 3) ''x'' sym_example = (Inr True, sym_example)"
    using streq_bytes [of sym_example "Ref 3" "''x''"] sym_example_inv sym_example_interned
    by (auto simp: interned_def sym_obj_def is_string_def heap_inv_def sym_example_def pair_cell_def symbol_cell_def)
  have r: "fe_symbol ''x'' sym_example = (Inr (Ref 1), sym_example)"
  proof -
    have w: "walk_fuel sym_example = Suc 4" "symlist sym_example = Ref 0" by (simp_all add: walk_fuel_def sym_example_def)
    have "car (Ref 0) sym_example = (Inr (Ref 1), sym_example)"
      "symbol_name (Ref 1) sym_example = (Inr (Ref 3), sym_example)"
      by (simp_all add: car_def cdr_def symbol_name_def cell_def as_obj_def bnd_def ret_def sym_example_def
          pair_cell_def symbol_cell_def)
    moreover have "check_io_abort FE_IO_ABORT_CHECK_INTERVAL sym_example = (Inr 63, sym_example)"
      by (simp add: check_io_abort_def bnd_lift_st poll_io_abort_def FE_IO_ABORT_CHECK_INTERVAL_def ret_def)
    ultimately show ?thesis
      using x unfolding fe_symbol_def bnd_gets prod.case w find_symbol.simps
      by (simp add: bnd_def ret_def isnil_def)
  qed
  with symbols_interned [OF sym_example_inv sym_example_interned r r] show ?thesis by blast
qed

end
