(* ===== verification/C_Lib.thy ===== *)
theory C_Lib
  imports Fe_Number
begin

text \<open>
  What the program uses of the C library on text: the character classes of \<^verbatim>\<open><ctype.h>\<close>, the
  conversions \<^verbatim>\<open>%d\<close> and \<^verbatim>\<open>%g\<close> of \<^verbatim>\<open>printf\<close>, and \<^verbatim>\<open>strtod\<close> and \<^verbatim>\<open>strtoull\<close>, in the C locale with
  correct rounding. The sign of a NaN is not part of \<open>fe_Number\<close>; it prints as \<^verbatim>\<open>nan\<close>.
\<close>

section \<open>Characters\<close>

text \<open>\<^verbatim>\<open><ctype.h>\<close> in the C locale; bytes from 0x80 on belong to no class.\<close>

definition isdigit :: "char \<Rightarrow> bool" where
  "isdigit c \<longleftrightarrow> 48 \<le> (of_char c :: nat) \<and> of_char c \<le> (57 :: nat)"

definition isalpha :: "char \<Rightarrow> bool" where
  "isalpha c \<longleftrightarrow> (65 \<le> (of_char c :: nat) \<and> of_char c \<le> (90 :: nat)) \<or>
     (97 \<le> (of_char c :: nat) \<and> of_char c \<le> (122 :: nat))"

definition isxdigit :: "char \<Rightarrow> bool" where
  "isxdigit c \<longleftrightarrow> isdigit c \<or> (65 \<le> (of_char c :: nat) \<and> of_char c \<le> (70 :: nat)) \<or>
     (97 \<le> (of_char c :: nat) \<and> of_char c \<le> (102 :: nat))"

text \<open>The conversion of a pointer difference to \<^verbatim>\<open>int\<close>.\<close>

definition c_int :: "int \<Rightarrow> int" where
  "c_int i = (i + 2 ^ 31) mod 2 ^ 32 - 2 ^ 31"

lemma c_int_id: "- (2 ^ 31) \<le> i \<Longrightarrow> i < 2 ^ 31 \<Longrightarrow> c_int i = i"
  by (simp add: c_int_def)

section \<open>Printing numbers\<close>

definition digit_char :: "nat \<Rightarrow> char" where
  "digit_char d = char_of (48 + d)"

function nat_string :: "nat \<Rightarrow> string" where
  "nat_string n = (if n < 10 then [digit_char n] else nat_string (n div 10) @ [digit_char (n mod 10)])"
  by auto
termination by (relation "measure id") auto

declare nat_string.simps [simp del]

definition int_string :: "int \<Rightarrow> string" where
  "int_string i = (if i < 0 then CHR ''-'' # nat_string (nat (- i)) else nat_string (nat i))"

definition pow10 :: "int \<Rightarrow> rat" where
  "pow10 k = (if 0 \<le> k then 10 ^ nat k else 1 / 10 ^ nat (- k))"

text \<open>The decimal exponent of a positive rational: the integer part of its decimal logarithm.\<close>

definition rat_exp10 :: "rat \<Rightarrow> int" where
  "rat_exp10 r =
     (let (a, b) = quotient_of r;
          k = int (length (nat_string (nat a))) - int (length (nat_string (nat b)))
      in if r < pow10 k then k - 1 else k)"

definition strip_zeros :: "string \<Rightarrow> string" where
  "strip_zeros s = rev (dropWhile (\<lambda>c. c = CHR ''0'') (rev s))"

definition with_point :: "string \<Rightarrow> string \<Rightarrow> string" where
  "with_point a b = (if b = [] then a else a @ CHR ''.'' # b)"

definition printf_g_pos :: "nat \<Rightarrow> rat \<Rightarrow> string" where
  "printf_g_pos prec r =
     (let e = rat_exp10 r;
          m = nat (round_even (r / pow10 (e - int prec + 1)));
          (m, e) = (if m = 10 ^ prec then (10 ^ (prec - 1), e + 1) else (m, e));
          ds = nat_string m
      in if - 4 \<le> e \<and> e < int prec then
           (if 0 \<le> e then with_point (take (nat e + 1) ds) (strip_zeros (drop (nat e + 1) ds))
            else with_point ''0'' (replicate (nat (- e) - 1) (CHR ''0'') @ strip_zeros ds))
         else
           with_point (take 1 ds) (strip_zeros (drop 1 ds)) @ CHR ''e'' #
             (if e < 0 then CHR ''-'' else CHR ''+'') #
             (let x = nat_string (nat \<bar>e\<bar>) in if length x < 2 then CHR ''0'' # x else x))"

fun printf_g :: "nat \<Rightarrow> fe_Number \<Rightarrow> string" where
  "printf_g prec NaN = ''nan''"
| "printf_g prec PInf = ''inf''"
| "printf_g prec NInf = ''-inf''"
| "printf_g prec NegZero = ''-0''"
| "printf_g prec (Fin r) =
     (if r = 0 then ''0'' else if r < 0 then CHR ''-'' # printf_g_pos prec (- r) else printf_g_pos prec r)"

section \<open>Reading numbers\<close>

definition isspace :: "char \<Rightarrow> bool" where
  "isspace c \<longleftrightarrow> of_char c = (32 :: nat) \<or> (9 \<le> (of_char c :: nat) \<and> of_char c \<le> (13 :: nat))"

definition lower :: "char \<Rightarrow> char" where
  "lower c = (if 65 \<le> (of_char c :: nat) \<and> of_char c \<le> (90 :: nat) then char_of (of_char c + 32 :: nat) else c)"

definition digit_val :: "char \<Rightarrow> nat" where
  "digit_val c = (if isdigit c then of_char c - 48 else of_char (lower c) - 87)"

definition digits_val :: "nat \<Rightarrow> string \<Rightarrow> nat" where
  "digits_val base ds = foldl (\<lambda>v c. v * base + digit_val c) 0 ds"

text \<open>The sign at the front of a text, and whether there is one.\<close>

definition sign_part :: "string \<Rightarrow> bool \<times> nat" where
  "sign_part s = (case s of c # _ \<Rightarrow> (c = CHR ''-'', if c = CHR ''-'' \<or> c = CHR ''+'' then 1 else 0) | [] \<Rightarrow> (False, 0))"

text \<open>An exponent with its mark, and the number of characters it has; 0 of them if there is none.\<close>

definition exponent_part :: "char \<Rightarrow> string \<Rightarrow> int \<times> nat" where
  "exponent_part mk s = (case s of
      [] \<Rightarrow> (0, 0)
    | c # t \<Rightarrow> if lower c \<noteq> mk then (0, 0)
        else let (neg, k) = sign_part t; ds = takeWhile isdigit (drop k t)
             in if ds = [] then (0, 0)
                else ((if neg then - 1 else 1) * int (digits_val 10 ds), 1 + k + length ds))"

text \<open>Digits with an optional fraction: the digits, how many of them are after the point, and the
  length of the text. \<open>None\<close> if there is no digit.\<close>

definition mantissa_part :: "(char \<Rightarrow> bool) \<Rightarrow> string \<Rightarrow> (string \<times> nat \<times> nat) option" where
  "mantissa_part p s =
     (let ds = takeWhile p s; t = drop (length ds) s;
          fs = (case t of c # u \<Rightarrow> if c = CHR ''.'' then takeWhile p u else [] | [] \<Rightarrow> []);
          point = (case t of c # _ \<Rightarrow> if c = CHR ''.'' then 1 else 0 | [] \<Rightarrow> 0)
      in if ds = [] \<and> fs = [] then None
         else Some (ds @ fs, length fs, length ds + point + length fs))"

definition prefix_ci :: "string \<Rightarrow> string \<Rightarrow> bool" where
  "prefix_ci w s \<longleftrightarrow> map lower (take (length w) s) = w"

text \<open>The unsigned part of \<^verbatim>\<open>strtod\<close>.\<close>

definition strtod_unsigned :: "string \<Rightarrow> (fe_Number \<times> nat) option" where
  "strtod_unsigned s =
     (if prefix_ci ''infinity'' s then Some (PInf, 8)
      else if prefix_ci ''inf'' s then Some (PInf, 3)
      else if prefix_ci ''nan'' s then
        (let t = drop 3 s;
             ws = takeWhile (\<lambda>c. isalpha c \<or> isdigit c \<or> c = CHR ''_'') (drop 1 t)
         in if take 1 t = ''('' \<and> take 1 (drop (1 + length ws) t) = '')''
            then Some (NaN, 5 + length ws) else Some (NaN, 3))
      else
        (case (if prefix_ci ''0x'' s then mantissa_part isxdigit (drop 2 s) else None) of
           Some (ds, k, n) \<Rightarrow>
             (let (e, m) = exponent_part (CHR ''p'') (drop (2 + n) s)
              in Some (round_num (of_nat (digits_val 16 ds) * pow2 (e - 4 * int k)), 2 + n + m))
         | None \<Rightarrow>
             (case mantissa_part isdigit s of
                Some (ds, k, n) \<Rightarrow>
                  (let (e, m) = exponent_part (CHR ''e'') (drop n s)
                   in Some (round_num (of_nat (digits_val 10 ds) * pow10 (e - int k)), n + m))
              | None \<Rightarrow> None)))"

text \<open>\<^verbatim>\<open>strtod(s, &end)\<close>: the value and \<^verbatim>\<open>end - s\<close>.\<close>

definition strtod :: "string \<Rightarrow> fe_Number \<times> nat" where
  "strtod s =
     (let w = length (takeWhile isspace s); (neg, k) = sign_part (drop w s)
      in case strtod_unsigned (drop (w + k) s) of
           None \<Rightarrow> (Fin 0, 0)
         | Some (x, n) \<Rightarrow> (if neg then num_neg x else x, w + k + n))"

text \<open>\<^verbatim>\<open>strtoull(s, &end, 16)\<close>: saturates at the largest value; a sign negates modulo \<open>2 ^ 64\<close>.\<close>

definition strtoull16 :: "string \<Rightarrow> nat \<times> nat" where
  "strtoull16 s =
     (let w = length (takeWhile isspace s); (neg, k) = sign_part (drop w s); t = drop (w + k) s;
          x = (if prefix_ci ''0x'' t \<and> takeWhile isxdigit (drop 2 t) \<noteq> [] then 2 else 0);
          ds = takeWhile isxdigit (drop x t); v = digits_val 16 ds
      in if ds = [] then (0, 0)
         else (if v \<ge> 2 ^ 64 then 2 ^ 64 - 1 else if neg then (2 ^ 64 - v) mod 2 ^ 64 else v,
               w + k + x + length ds))"

end
