(* ===== verification/Fe_Write.thy ===== *)
theory Fe_Write
  imports Fe_Symbol C_Lib
begin

text \<open>
  Writing objects as text (\<^verbatim>\<open>fe.c\<close>, \<^verbatim>\<open>write_checked\<close> to \<^verbatim>\<open>fe_strlen\<close>). The callback \<^verbatim>\<open>fn\<close> receives
  one character after the other; the model collects them. A writer state is the text written so far
  with the poll countdown of the running call. The recursion of \<^verbatim>\<open>fe_write\<close> and the loop over a list
  carry a fuel, as a cyclic object is written without end.
\<close>

type_synonym wstate = "string \<times> nat"

definition write_checked :: "char \<Rightarrow> wstate \<Rightarrow> wstate fcomp" where
  "write_checked chr w = (case w of (out, countdown) \<Rightarrow>
     bnd (check_io_abort countdown) (\<lambda>countdown. ret (out @ [chr], countdown)))"

primrec writestr :: "string \<Rightarrow> wstate \<Rightarrow> wstate fcomp" where
  "writestr [] w = ret w"
| "writestr (c # s) w = bnd (write_checked c w) (writestr s)"

definition hex_digit :: "nat \<Rightarrow> char" where
  "hex_digit d = ''0123456789abcdef'' ! d"

definition write_hex_byte :: "char \<Rightarrow> wstate \<Rightarrow> wstate fcomp" where
  "write_hex_byte b w =
     bnd (write_checked (hex_digit (of_char b div 16)) w)
       (write_checked (hex_digit (of_char b mod 16)))"

text \<open>The characters of a slab, with quotes escaped when \<open>qt\<close> is set.\<close>

primrec write_chunk :: "bool \<Rightarrow> string \<Rightarrow> wstate \<Rightarrow> wstate fcomp" where
  "write_chunk qt [] w = ret w"
| "write_chunk qt (c # cs) w =
     bnd (if qt \<and> c = CHR 0x22 then write_checked (CHR 0x5C) w else ret w) (\<lambda>w.
       bnd (write_checked c w) (write_chunk qt cs))"

function write_slabs :: "fe_Slab list \<Rightarrow> bool \<Rightarrow> u32 \<Rightarrow> nat \<Rightarrow> wstate \<Rightarrow> wstate fcomp" where
  "write_slabs ss qt offset remaining w =
     (if offset \<noteq> FE_SLAB_NULL \<and> remaining > 0 then
        case slab_at ss offset of None \<Rightarrow> throw Crash | Some slab \<Rightarrow>
          bnd (write_chunk qt (take (chunk remaining) (slab_data slab)) w)
            (write_slabs ss qt (slab_next slab) (remaining - chunk remaining))
      else ret w)"
  by pat_completeness auto
termination by (relation "measure (\<lambda>(ss, q, a, r, w). r)") auto

primrec write_hex_chunk :: "bool \<Rightarrow> string \<Rightarrow> wstate \<Rightarrow> wstate fcomp" where
  "write_hex_chunk first [] w = ret w"
| "write_hex_chunk first (c # cs) w =
     bnd (if \<not> first then write_checked (CHR '' '') w else ret w) (\<lambda>w.
       bnd (write_hex_byte c w) (write_hex_chunk False cs))"

function write_hex_slabs :: "fe_Slab list \<Rightarrow> bool \<Rightarrow> u32 \<Rightarrow> nat \<Rightarrow> wstate \<Rightarrow> wstate fcomp" where
  "write_hex_slabs ss first offset remaining w =
     (if offset \<noteq> FE_SLAB_NULL \<and> remaining > 0 then
        case slab_at ss offset of None \<Rightarrow> throw Crash | Some slab \<Rightarrow>
          bnd (write_hex_chunk first (take (chunk remaining) (slab_data slab)) w)
            (write_hex_slabs ss False (slab_next slab) (remaining - chunk remaining))
      else ret w)"
  by pat_completeness auto
termination by (relation "measure (\<lambda>(ss, q, a, r, w). r)") auto

declare write_slabs.simps [simp del] write_hex_slabs.simps [simp del]

text \<open>\<open>write_data loop obj w\<close>: the characters of a string or byte string, none when its length is 0.\<close>

definition write_data ::
  "(fe_Slab list \<Rightarrow> u32 \<Rightarrow> nat \<Rightarrow> wstate \<Rightarrow> wstate fcomp) \<Rightarrow> ptr \<Rightarrow> wstate \<Rightarrow> wstate fcomp" where
  "write_data loop obj w =
     bnd (FE_STR_LEN obj) (\<lambda>len.
       if len > 0 then bnd (str_head obj) (\<lambda>offset. bnd (gets slabs) (\<lambda>ss. loop ss offset len w))
       else ret w)"

function hex_string :: "nat \<Rightarrow> string" where
  "hex_string n = (if n < 16 then [hex_digit n] else hex_string (n div 16) @ [hex_digit (n mod 16)])"
  by auto
termination by (relation "measure id") auto

declare hex_string.simps [simp del]

text \<open>\<^verbatim>\<open>snprintf(buf, 32, "[%s %p]", ...)\<close>\<close>

definition opaque_text :: "fe_tag \<Rightarrow> u64 \<Rightarrow> string" where
  "opaque_text t addr = take 31 (CHR ''['' # typenames t @ '' 0x'' @ hex_string (unat addr) @ '']'')"

type_synonym writer = "ptr \<Rightarrow> bool \<Rightarrow> string \<Rightarrow> string fcomp"

text \<open>The loop over the cells of a list; the result is the tail that ended it.\<close>

primrec write_pairs :: "nat \<Rightarrow> writer \<Rightarrow> ptr \<Rightarrow> wstate \<Rightarrow> (ptr \<times> wstate) fcomp" where
  "write_pairs 0 wr obj w = throw OutOfFuel"
| "write_pairs (Suc n) wr obj w =
     bnd (check_io_abort (snd w)) (\<lambda>countdown.
     bnd (car obj) (\<lambda>x. bnd (wr x True (fst w)) (\<lambda>out.
     bnd (cdr obj) (\<lambda>obj. bnd (gets (\<lambda>c. typeof c obj)) (\<lambda>t.
       if t \<noteq> FE_TPAIR then ret (obj, out, countdown)
       else bnd (write_checked (CHR '' '') (out, countdown)) (write_pairs n wr obj))))))"

primrec write_entries ::
  "fe_Map \<Rightarrow> writer \<Rightarrow> nat list \<Rightarrow> bool \<Rightarrow> wstate \<Rightarrow> wstate fcomp" where
  "write_entries m wr [] first w = ret w"
| "write_entries m wr (i # is') first w =
     bnd (check_io_abort (snd w)) (\<lambda>countdown. let w = (fst w, countdown) in
       if map_states m ! i \<noteq> MAP_USED then write_entries m wr is' first w
       else bnd (if \<not> first then writestr '', '' w else ret w) (\<lambda>w.
         case (map_keys m ! i, map_values m ! i) of
           (Some k, Some v) \<Rightarrow>
             bnd (wr k True (fst w)) (\<lambda>out. bnd (writestr '': '' (out, snd w)) (\<lambda>w.
               bnd (wr v True (fst w)) (\<lambda>out. write_entries m wr is' False (out, snd w))))
         | _ \<Rightarrow> throw Crash))"

definition write_pair :: "nat \<Rightarrow> writer \<Rightarrow> ptr \<Rightarrow> wstate \<Rightarrow> wstate fcomp" where
  "write_pair n wr obj w =
     bnd (car obj) (\<lambda>x. bnd (gets frame_sym) (\<lambda>fr.
       if x = fr then writestr ''[env frame]'' w
       else bnd (write_checked (CHR ''('') w) (\<lambda>w. bnd (write_pairs n wr obj w) (\<lambda>(obj, w).
         bnd (if \<not> isnil obj then
                bnd (writestr '' . '' w) (\<lambda>w. bnd (wr obj True (fst w)) (\<lambda>out. ret (out, snd w)))
              else ret w)
           (write_checked (CHR '')''))))))"

definition write_number :: "ptr \<Rightarrow> wstate \<Rightarrow> wstate fcomp" where
  "write_number obj w = (case obj of
      Fixnum i \<Rightarrow> writestr (int_string i) w
    | _ \<Rightarrow> bnd (fe_num_value obj) (\<lambda>x. writestr (take 31 (printf_g 7 x)) w))"

definition write_map :: "writer \<Rightarrow> ptr \<Rightarrow> wstate \<Rightarrow> wstate fcomp" where
  "write_map wr obj w =
     bnd (cell obj) (\<lambda>o'. case ocdr o' of
       VMap m \<Rightarrow>
         bnd (write_checked (CHR ''{'') w) (\<lambda>w.
           bnd (case m of None \<Rightarrow> ret w
                | Some m \<Rightarrow> write_entries m wr [0..<map_capacity m] True w)
             (write_checked (CHR ''}'')))
     | _ \<Rightarrow> throw Crash)"

definition fe_write_body :: "nat \<Rightarrow> writer \<Rightarrow> writer" where
  "fe_write_body n wr obj qt out =
     (let w = (out, FE_IO_ABORT_CHECK_INTERVAL) in
      bnd (gets (\<lambda>c. typeof c obj)) (\<lambda>t.
      bnd (case t of
          FE_TNIL \<Rightarrow> writestr ''nil'' w
        | FE_TBOOLEAN \<Rightarrow> writestr (if obj = Boolean True then ''true'' else ''false'') w
        | FE_TNUMBER \<Rightarrow> write_number obj w
        | FE_TPAIR \<Rightarrow> write_pair n wr obj w
        | FE_TSYMBOL \<Rightarrow> bnd (cdr obj) (\<lambda>d. bnd (car d) (\<lambda>name.
            bnd (wr name False (fst w)) (\<lambda>out. ret (out, snd w))))
        | FE_TSTRING \<Rightarrow>
            bnd (if qt then write_checked (CHR 0x22) w else ret w) (\<lambda>w.
              bnd (write_data (\<lambda>ss. write_slabs ss qt) obj w) (\<lambda>w.
                if qt then write_checked (CHR 0x22) w else ret w))
        | FE_TBYTES \<Rightarrow>
            bnd (writestr ''#bytes['' w) (\<lambda>w.
              bnd (write_data (\<lambda>ss. write_hex_slabs ss True) obj w) (write_checked (CHR '']'')))
        | FE_TMAP \<Rightarrow> write_map wr obj w
        | _ \<Rightarrow> bnd (gets (\<lambda>c. enc_ptr (objects_addr c) (nil_addr c) obj)) (\<lambda>addr.
            writestr (opaque_text t addr) w))
      (\<lambda>w. ret (fst w))))"

primrec fe_write :: "nat \<Rightarrow> writer" where
  "fe_write 0 obj qt out = throw OutOfFuel"
| "fe_write (Suc n) obj qt out = fe_write_body n (fe_write n) obj qt out"

text \<open>
  \<^verbatim>\<open>fe_tostring\<close> into a buffer of \<open>size\<close> bytes: the text stored and the return value. With a size of
  0 the counter of \<^verbatim>\<open>writebuf\<close> starts at -1 and never stops it.
\<close>

definition fe_tostring :: "nat \<Rightarrow> ptr \<Rightarrow> int \<Rightarrow> (string \<times> int) fcomp" where
  "fe_tostring n obj sz =
     (if sz < 1 then throw Crash
      else bnd (fe_write n obj False []) (\<lambda>out.
        let s = take (nat (sz - 1)) out in ret (s, int (length s))))"

definition fe_strlen :: "ptr \<Rightarrow> nat fcomp" where
  "fe_strlen obj = FE_STR_LEN obj"

section \<open>The text of an object\<close>

text \<open>Symbolic expressions: the data an object stands for, numbers, symbols and strings as atoms.\<close>

datatype sexp =
    SNil | SBool bool | SInt int | SNum fe_Number | SSym string | SStr string | SBytes string
  | SPair sexp sexp

fun sexp_at :: "fe_Context \<Rightarrow> ptr \<Rightarrow> sexp \<Rightarrow> bool" where
  "sexp_at c p SNil = (p = Nil)"
| "sexp_at c p (SBool b) = (p = Boolean b)"
| "sexp_at c p (SInt i) = (p = Fixnum i)"
| "sexp_at c p (SNum x) = (\<exists>i. p = Ref i \<and> i < length (objects c) \<and> ty (objects c ! i) = FE_TNUMBER \<and>
     ocdr (objects c ! i) = VNum x)"
| "sexp_at c p (SSym s) = (\<exists>v. sym_obj c p s v)"
| "sexp_at c p (SStr s) = is_string c p s"
| "sexp_at c p (SBytes s) = (typeof c p = FE_TBYTES \<and> obj_bytes c p = Some s)"
| "sexp_at c p (SPair a b) = (\<exists>i x y. p = Ref i \<and> i < length (objects c) \<and> ty (objects c ! i) = FE_TPAIR \<and>
     ocar (objects c ! i) = VObj x \<and> ocdr (objects c ! i) = VObj y \<and> x \<noteq> frame_sym c \<and>
     sexp_at c x a \<and> sexp_at c y b)"

definition escape_quotes :: "string \<Rightarrow> string" where
  "escape_quotes s = concat (map (\<lambda>c. if c = CHR 0x22 then [CHR 0x5C, c] else [c]) s)"

definition hex_byte :: "char \<Rightarrow> string" where
  "hex_byte b = [hex_digit (of_char b div 16), hex_digit (of_char b mod 16)]"

fun hex_dump :: "string \<Rightarrow> string" where
  "hex_dump [] = []"
| "hex_dump [b] = hex_byte b"
| "hex_dump (b # bs) = hex_byte b @ CHR '' '' # hex_dump bs"

fun print_sexp :: "bool \<Rightarrow> sexp \<Rightarrow> string" and print_tail :: "sexp \<Rightarrow> string" where
  "print_sexp qt SNil = ''nil''"
| "print_sexp qt (SBool b) = (if b then ''true'' else ''false'')"
| "print_sexp qt (SInt i) = int_string i"
| "print_sexp qt (SNum x) = take 31 (printf_g 7 x)"
| "print_sexp qt (SSym s) = s"
| "print_sexp qt (SStr s) = (if qt then CHR 0x22 # escape_quotes s @ [CHR 0x22] else s)"
| "print_sexp qt (SBytes s) = ''#bytes['' @ hex_dump s @ '']''"
| "print_sexp qt (SPair a b) = CHR ''('' # print_sexp True a @ print_tail b"
| "print_tail SNil = '')''"
| "print_tail (SPair a b) = CHR '' '' # print_sexp True a @ print_tail b"
| "print_tail e = '' . '' @ print_sexp True e @ '')''"

section \<open>What is written\<close>

text \<open>
  \<open>writes c m out s\<close>: in any state that differs from \<open>c\<close> by polling only, \<open>m\<close> appends \<open>s\<close> to \<open>out\<close>
  and polls, or raises the abort of a poll.
\<close>

definition writes :: "fe_Context \<Rightarrow> wstate fcomp \<Rightarrow> string \<Rightarrow> string \<Rightarrow> bool" where
  "writes c m out s \<longleftrightarrow> (\<forall>c1. limit_ctx.more c1 = limit_ctx.more c \<longrightarrow>
     wp m (\<lambda>w c'. fst w = out @ s \<and> limit_ctx.more c' = limit_ctx.more c) (poll_err c) c1)"

lemma writes_ret: "writes c (ret (out, k)) out []"
  by (simp add: writes_def wp_ret)

lemma writes_bnd:
  assumes "writes c m out s" and "\<And>k. writes c (f (out @ s, k)) (out @ s) t"
  shows "writes c (bnd m f) out (s @ t)"
  unfolding writes_def wp_bnd
proof (intro allI impI)
  fix c1 assume m: "limit_ctx.more c1 = limit_ctx.more c"
  show "wp m (\<lambda>x. wp (f x) (\<lambda>w c'. fst w = out @ s @ t \<and> limit_ctx.more c' = limit_ctx.more c) (poll_err c))
      (poll_err c) c1"
    using assms(1) [unfolded writes_def, rule_format, OF m]
  proof (rule wp_mono)
    fix w :: wstate and c' assume w: "fst w = out @ s \<and> limit_ctx.more c' = limit_ctx.more c"
    then have "w = (out @ s, snd w)" by (metis prod.collapse)
    with assms(2) [of "snd w", unfolded writes_def] w
    show "wp (f w) (\<lambda>w c'. fst w = out @ s @ t \<and> limit_ctx.more c' = limit_ctx.more c) (poll_err c) c'"
      by simp
  qed
qed

lemma writes_pure:
  "(\<And>c1. limit_ctx.more c1 = limit_ctx.more c \<Longrightarrow> m c1 = (Inr x, c1)) \<Longrightarrow> writes c (f x) out s \<Longrightarrow>
   writes c (bnd m f) out s"
  by (simp add: writes_def wp_bnd wp_Inr [of m])

lemma writes_checked: "writes c (write_checked ch (out, k)) out [ch]"
  unfolding writes_def
proof (intro allI impI)
  fix c1 assume m: "limit_ctx.more c1 = limit_ctx.more c"
  have "wp (check_io_abort k) (\<lambda>x. wp (ret (out @ [ch], x))
      (\<lambda>w c'. fst w = out @ [ch] \<and> limit_ctx.more c' = limit_ctx.more c) (poll_err c)) (poll_err c1) c1"
    by (rule wp_check_io_abort) (simp add: wp_ret m)
  then show "wp (write_checked ch (out, k))
      (\<lambda>w c'. fst w = out @ [ch] \<and> limit_ctx.more c' = limit_ctx.more c) (poll_err c) c1"
    unfolding write_checked_def prod.case wp_bnd
    by (rule wp_mono) (use poll_err_trans [OF m] in auto)
qed

lemma writes_str: "writes c (writestr s (out, k)) out s"
proof (induction s arbitrary: out k)
  case (Cons ch s)
  have "writes c (writestr (ch # s) (out, k)) out ([ch] @ s)"
    unfolding writestr.simps by (intro writes_bnd writes_checked Cons.IH)
  then show ?case by simp
qed (simp add: writes_ret)

lemma writes_opt: "writes c (if b then write_checked ch (out, k) else ret (out, k)) out (if b then [ch] else [])"
  by (simp add: writes_checked writes_ret)

lemma escape_quotes_simps [simp]:
  "escape_quotes [] = []"
  "escape_quotes (c # s) = (if c = CHR 0x22 then [CHR 0x5C, c] else [c]) @ escape_quotes s"
  "escape_quotes (s @ t) = escape_quotes s @ escape_quotes t"
  by (simp_all add: escape_quotes_def)

lemma writes_chunk: "writes c (write_chunk qt s (out, k)) out (if qt then escape_quotes s else s)"
proof (induction s arbitrary: out k)
  case (Cons ch s)
  have "writes c (write_chunk qt (ch # s) (out, k)) out
      ((if qt \<and> ch = CHR 0x22 then [CHR 0x5C] else []) @ [ch] @ (if qt then escape_quotes s else s))"
    unfolding write_chunk.simps
    by (intro writes_bnd writes_opt writes_checked Cons.IH)
  then show ?case by (auto split: if_splits)
qed (simp add: writes_ret)

lemma writes_slabs:
  assumes "slab_bytes ss off n = Some bs"
  shows "writes c (write_slabs ss qt off n (out, k)) out (if qt then escape_quotes bs else bs)"
  using assms
proof (induction arbitrary: out k rule: slab_bytes_induct)
  case (Done off)
  then show ?case by (subst write_slabs.simps) (simp add: writes_ret)
next
  case (Slab off n slab rest)
  have "write_slabs ss qt off n (out, k) = bnd (write_chunk qt (take (chunk n) (slab_data slab)) (out, k))
      (write_slabs ss qt (slab_next slab) (n - chunk n))"
    using Slab by (subst write_slabs.simps) simp
  moreover have "writes c (bnd (write_chunk qt (take (chunk n) (slab_data slab)) (out, k))
      (write_slabs ss qt (slab_next slab) (n - chunk n))) out
      ((if qt then escape_quotes (take (chunk n) (slab_data slab)) else take (chunk n) (slab_data slab)) @
       (if qt then escape_quotes rest else rest))"
    by (intro writes_bnd writes_chunk Slab.IH)
  ultimately show ?case by (simp split: if_splits)
qed

lemma writes_hex_byte: "writes c (write_hex_byte b (out, k)) out (hex_byte b)"
proof -
  have "writes c (write_hex_byte b (out, k)) out
      ([hex_digit (of_char b div 16)] @ [hex_digit (of_char b mod 16)])"
    unfolding write_hex_byte_def by (intro writes_bnd writes_checked)
  then show ?thesis by (simp add: hex_byte_def)
qed

text \<open>The dump of bytes that follow others: each with a space before it.\<close>

definition hex_more :: "string \<Rightarrow> string" where
  "hex_more bs = concat (map (\<lambda>b. CHR '' '' # hex_byte b) bs)"

lemma hex_dump_Cons: "hex_dump (b # bs) = hex_byte b @ hex_more bs"
proof (induction bs arbitrary: b)
  case (Cons b' bs)
  then show ?case by (simp add: hex_more_def)
qed (simp add: hex_more_def)

definition hex_text :: "bool \<Rightarrow> string \<Rightarrow> string" where
  "hex_text first bs = (if first then hex_dump bs else hex_more bs)"

lemma hex_text_append: "xs \<noteq> [] \<Longrightarrow> hex_text first (xs @ ys) = hex_text first xs @ hex_text False ys"
  by (cases xs) (simp_all add: hex_text_def hex_dump_Cons hex_more_def)

lemma hex_text_Nil [simp]: "hex_text first [] = []"
  by (simp add: hex_text_def hex_more_def)

lemma writes_hex_chunk: "writes c (write_hex_chunk first s (out, k)) out (hex_text first s)"
proof (induction s arbitrary: first out k)
  case (Cons ch s)
  have "writes c (write_hex_chunk first (ch # s) (out, k)) out
      ((if \<not> first then '' '' else []) @ hex_byte ch @ hex_text False s)"
    unfolding write_hex_chunk.simps
    by (intro writes_bnd writes_opt writes_hex_byte Cons.IH)
  moreover have "hex_text first (ch # s) = (if \<not> first then '' '' else []) @ hex_byte ch @ hex_text False s"
    by (simp add: hex_text_def hex_dump_Cons hex_more_def)
  ultimately show ?case by simp
qed (simp add: writes_ret)

lemma writes_hex_slabs:
  assumes wf: "wf_slabs ss" and "slab_bytes ss off n = Some bs"
  shows "writes c (write_hex_slabs ss first off n (out, k)) out (hex_text first bs)"
  using assms(2)
proof (induction arbitrary: first out k rule: slab_bytes_induct)
  case (Done off)
  then show ?case by (subst write_hex_slabs.simps) (simp add: writes_ret)
next
  case (Slab off n slab rest)
  let ?x = "take (chunk n) (slab_data slab)"
  have "write_hex_slabs ss first off n (out, k) = bnd (write_hex_chunk first ?x (out, k))
      (write_hex_slabs ss False (slab_next slab) (n - chunk n))"
    using Slab by (subst write_hex_slabs.simps) simp
  moreover have "length ?x \<noteq> 0" using slab_chunk_length [OF wf Slab(3), of n] Slab(1) by simp
  then have "?x \<noteq> []" by auto
  moreover have "writes c (bnd (write_hex_chunk first ?x (out, k))
      (write_hex_slabs ss False (slab_next slab) (n - chunk n))) out (hex_text first ?x @ hex_text False rest)"
    by (intro writes_bnd writes_hex_chunk Slab.IH)
  ultimately show ?case by (simp add: hex_text_append)
qed

text \<open>The fuel an expression needs.\<close>

fun print_cost :: "sexp \<Rightarrow> nat" where
  "print_cost (SSym s) = 1"
| "print_cost (SPair a b) = Suc (print_cost a + print_cost b)"
| "print_cost e = 0"

text \<open>The same for a computation that returns the text only.\<close>

definition prints :: "fe_Context \<Rightarrow> string fcomp \<Rightarrow> string \<Rightarrow> string \<Rightarrow> bool" where
  "prints c m out s \<longleftrightarrow> (\<forall>c1. limit_ctx.more c1 = limit_ctx.more c \<longrightarrow>
     wp m (\<lambda>r c'. r = out @ s \<and> limit_ctx.more c' = limit_ctx.more c) (poll_err c) c1)"

lemma prints_bnd:
  assumes "prints c m out s" and "writes c (f (out @ s)) (out @ s) t"
  shows "writes c (bnd m f) out (s @ t)"
  unfolding writes_def wp_bnd
proof (intro allI impI)
  fix c1 assume m: "limit_ctx.more c1 = limit_ctx.more c"
  show "wp m (\<lambda>x. wp (f x) (\<lambda>w c'. fst w = out @ s @ t \<and> limit_ctx.more c' = limit_ctx.more c) (poll_err c))
      (poll_err c) c1"
    using assms(1) [unfolded prints_def, rule_format, OF m]
    by (rule wp_mono) (use assms(2) in \<open>auto simp: writes_def\<close>)
qed

lemma writes_prints: "writes c m out s \<Longrightarrow> prints c (bnd m (\<lambda>w. ret (fst w))) out s"
  by (simp add: writes_def prints_def wp_bnd wp_ret_fun)

lemma writes_poll:
  assumes "\<And>k. writes c (f k) out s"
  shows "writes c (bnd (check_io_abort n) f) out s"
  unfolding writes_def wp_bnd
proof (intro allI impI)
  fix c1 assume m: "limit_ctx.more c1 = limit_ctx.more c"
  have "wp (check_io_abort n) (\<lambda>k. wp (f k)
      (\<lambda>w c'. fst w = out @ s \<and> limit_ctx.more c' = limit_ctx.more c) (poll_err c)) (poll_err c1) c1"
    by (rule wp_check_io_abort) (use assms m in \<open>simp add: writes_def\<close>)
  then show "wp (check_io_abort n) (\<lambda>k. wp (f k)
      (\<lambda>w c'. fst w = out @ s \<and> limit_ctx.more c' = limit_ctx.more c) (poll_err c)) (poll_err c) c1"
    by (rule wp_mono) (use poll_err_trans [OF m] in auto)
qed

text \<open>Reading a cell of a state that differs by polling only.\<close>

lemma reads_more:
  assumes "limit_ctx.more c1 = limit_ctx.more c"
  shows car_more: "i < length (objects c) \<Longrightarrow> ocar (objects c ! i) = VObj x \<Longrightarrow> car (Ref i) c1 = (Inr x, c1)"
    and cdr_more: "i < length (objects c) \<Longrightarrow> ocdr (objects c ! i) = VObj x \<Longrightarrow> cdr (Ref i) c1 = (Inr x, c1)"
    and cell_more: "i < length (objects c) \<Longrightarrow> cell (Ref i) c1 = (Inr (objects c ! i), c1)"
    and typeof_more: "gets (\<lambda>c. typeof c p) c1 = (Inr (typeof c p), c1)"
    and frame_more: "gets frame_sym c1 = (Inr (frame_sym c), c1)"
    and slabs_more: "gets slabs c1 = (Inr (slabs c), c1)"
  by (simp_all add: car_Ref cdr_Ref cell_Ref more_fields [OF assms] gets_def typeof_def)

lemma sexp_at_type:
  "sexp_at c p e \<Longrightarrow> typeof c p = (case e of SNil \<Rightarrow> FE_TNIL | SBool _ \<Rightarrow> FE_TBOOLEAN | SInt _ \<Rightarrow> FE_TNUMBER
     | SNum _ \<Rightarrow> FE_TNUMBER | SSym _ \<Rightarrow> FE_TSYMBOL | SStr _ \<Rightarrow> FE_TSTRING | SBytes _ \<Rightarrow> FE_TBYTES
     | SPair _ _ \<Rightarrow> FE_TPAIR)"
  by (cases e) (auto simp: typeof_def sym_obj_def is_string_def)

lemma write_pairs_sexp:
  assumes wr: "\<And>x e' q out. sexp_at c x e' \<Longrightarrow> print_cost e' < N \<Longrightarrow> prints c (wr x q out) out (print_sexp q e')"
  shows "sexp_at c obj (SPair a b) \<Longrightarrow> print_cost (SPair a b) \<le> N \<Longrightarrow> print_cost (SPair a b) \<le> m \<Longrightarrow>
    writes c (bnd (write_pairs m wr obj (out, k)) (\<lambda>(obj, w).
         bnd (if \<not> isnil obj then
                bnd (writestr '' . '' w) (\<lambda>w. bnd (wr obj True (fst w)) (\<lambda>out. ret (out, snd w)))
              else ret w)
           (write_checked (CHR '')'')))) out (print_sexp True a @ print_tail b)"
proof (induction b arbitrary: a obj out k m rule: measure_induct_rule [of size])
  case (less b)
  let ?fin = "\<lambda>(obj, w). bnd (if \<not> isnil obj then
                bnd (writestr '' . '' w) (\<lambda>w. bnd (wr obj True (fst w)) (\<lambda>out. ret (out, snd w)))
              else ret w)
           (write_checked (CHR '')''))"
  from less.prems(1) obtain i x y where o: "obj = Ref i" "i < length (objects c)"
    "ocar (objects c ! i) = VObj x" "ocdr (objects c ! i) = VObj y" "sexp_at c x a" "sexp_at c y b"
    by auto
  obtain m' where m': "m = Suc m'" using less.prems(3) by (cases m) simp_all
  have "writes c (bnd (wr x True out) (\<lambda>out. bnd (bnd (cdr obj) (\<lambda>obj. bnd (gets (\<lambda>c. typeof c obj)) (\<lambda>t.
       if t \<noteq> FE_TPAIR then ret (obj, out, k)
       else bnd (write_checked (CHR '' '') (out, k)) (write_pairs m' wr obj)))) ?fin)) out
     (print_sexp True a @ print_tail b)" for k
  proof (rule prints_bnd)
    show "prints c (wr x True out) out (print_sexp True a)" using wr o(5) less.prems(2) by simp
    let ?out = "out @ print_sexp True a"
    have "writes c (bnd (if typeof c y \<noteq> FE_TPAIR then ret (y, ?out, k)
       else bnd (write_checked (CHR '' '') (?out, k)) (write_pairs m' wr y)) ?fin) ?out (print_tail b)"
    proof (cases "\<exists>a' b'. b = SPair a' b'")
      case True
      then obtain a' b' where b: "b = SPair a' b'" by blast
      then have "typeof c y = FE_TPAIR" using sexp_at_type [OF o(6)] by simp
      moreover have "writes c (bnd (write_pairs m' wr y (?out @ '' '', k)) ?fin) (?out @ '' '')
          (print_sexp True a' @ print_tail b')" for k
        by (rule less.IH) (use b o(6) less.prems(2,3) m' in auto)
      then have "writes c (bnd (write_checked (CHR '' '') (?out, k)) (\<lambda>w. bnd (write_pairs m' wr y w) ?fin)) ?out
          ('' '' @ print_sexp True a' @ print_tail b')"
        by (intro writes_bnd writes_checked) simp
      ultimately show ?thesis by (simp add: bnd_assoc b)
    next
      case False
      then have t: "typeof c y \<noteq> FE_TPAIR" using sexp_at_type [OF o(6)] by (cases b) auto
      show ?thesis
      proof (cases "b = SNil")
        case True
        with o(6) t show ?thesis by (simp add: isnil_def writes_checked)
      next
        case notnil: False
        then have "y \<noteq> Nil" using sexp_at_type [OF o(6)] False by (cases b) (auto simp: typeof_def)
        have "writes c (bnd (writestr '' . '' (?out, k)) (\<lambda>w. bnd (wr y True (fst w)) (\<lambda>out. ret (out, snd w)))) ?out
            ('' . '' @ print_sexp True b @ [])"
          by (intro writes_bnd writes_str)
            (simp only: fst_conv snd_conv, intro prints_bnd writes_ret, use wr o(6) less.prems(2) in simp)
        then have "writes c (bnd (bnd (writestr '' . '' (?out, k)) (\<lambda>w. bnd (wr y True (fst w)) (\<lambda>out. ret (out, snd w))))
            (write_checked (CHR '')''))) ?out (('' . '' @ print_sexp True b @ []) @ '')'')"
          by (rule writes_bnd) (rule writes_checked)
        moreover have "print_tail b = ('' . '' @ print_sexp True b @ []) @ '')''"
          using False notnil by (cases b) simp_all
        ultimately show ?thesis using \<open>y \<noteq> Nil\<close> t by (simp add: isnil_def)
      qed
    qed
    then show "writes c (bnd (bnd (cdr obj) (\<lambda>obj. bnd (gets (\<lambda>c. typeof c obj)) (\<lambda>t.
       if t \<noteq> FE_TPAIR then ret (obj, ?out, k)
       else bnd (write_checked (CHR '' '') (?out, k)) (write_pairs m' wr obj)))) ?fin) ?out (print_tail b)"
      unfolding bnd_assoc o(1)
      by (intro writes_pure [OF cdr_more [OF _ o(2,4)]] writes_pure [OF typeof_more])
  qed
  then show ?case
    unfolding m' write_pairs.simps bnd_assoc o(1) fst_conv snd_conv
    by (intro writes_poll writes_pure [OF car_more [OF _ o(2,3)]])
qed

lemma prints_pure:
  "(\<And>c1. limit_ctx.more c1 = limit_ctx.more c \<Longrightarrow> m c1 = (Inr x, c1)) \<Longrightarrow> prints c (f x) out s \<Longrightarrow>
   prints c (bnd m f) out s"
  by (simp add: prints_def wp_bnd wp_Inr [of m])

lemma writes_data:
  assumes "obj_bytes c p = Some bs" "wf_slabs (slabs c)"
    and "\<And>off n. slab_bytes (slabs c) off n = Some bs \<Longrightarrow> writes c (loop (slabs c) off n (out, k)) out s"
    and "bs = [] \<Longrightarrow> s = []"
  shows "writes c (write_data loop p (out, k)) out s"
proof -
  from assms(1) obtain i n off where p: "p = Ref i" "i < length (objects c)"
    "ocar (objects c ! i) = VObj (Fixnum n)" "ocdr (objects c ! i) = VU32 off"
    "slab_bytes (slabs c) off (nat n) = Some bs"
    by (auto simp: obj_bytes_def split: ptr.splits if_splits val.splits)
  have len: "length bs = nat n" by (rule slab_bytes_length [OF assms(2) p(5)])
  have "FE_STR_LEN p c1 = (Inr (nat n), c1)" if "limit_ctx.more c1 = limit_ctx.more c" for c1
    using car_more [OF that p(2,3)] by (simp add: FE_STR_LEN_def p(1) bnd_def ret_def)
  moreover have "str_head p c1 = (Inr off, c1)" if "limit_ctx.more c1 = limit_ctx.more c" for c1
    using cell_more [OF that p(2)] p(4) by (simp add: str_head_def p(1) bnd_def ret_def)
  ultimately show ?thesis
    unfolding write_data_def
    by (intro writes_pure [of c "FE_STR_LEN p" "nat n"])
      (use len assms(4) in \<open>auto intro!: writes_pure [of c "str_head p" off] writes_pure [OF slabs_more]
        assms(3) p(5) simp: writes_ret\<close>)
qed

lemma writes_pair:
  assumes wr: "\<And>x e' q out. sexp_at c x e' \<Longrightarrow> print_cost e' < n \<Longrightarrow> prints c (wr x q out) out (print_sexp q e')"
    and at: "sexp_at c p (SPair a b)" and sz: "print_cost (SPair a b) \<le> n"
  shows "writes c (write_pair n wr p (out, k)) out (print_sexp qt (SPair a b))"
proof -
  from at obtain i x where o: "p = Ref i" "i < length (objects c)" "ocar (objects c ! i) = VObj x"
    "x \<noteq> frame_sym c" by auto
  have "writes c (bnd (write_checked (CHR ''('') (out, k)) (\<lambda>w. bnd (write_pairs n wr p w) (\<lambda>(obj, w).
         bnd (if \<not> isnil obj then
                bnd (writestr '' . '' w) (\<lambda>w. bnd (wr obj True (fst w)) (\<lambda>out. ret (out, snd w)))
              else ret w)
           (write_checked (CHR '')''))))) out (''('' @ print_sexp True a @ print_tail b)"
    by (rule writes_bnd [OF writes_checked]) (rule write_pairs_sexp [OF wr at sz sz])
  with o(4) have "writes c (if x = frame_sym c then writestr ''[env frame]'' (out, k)
      else bnd (write_checked (CHR ''('') (out, k)) (\<lambda>w. bnd (write_pairs n wr p w) (\<lambda>(obj, w).
         bnd (if \<not> isnil obj then
                bnd (writestr '' . '' w) (\<lambda>w. bnd (wr obj True (fst w)) (\<lambda>out. ret (out, snd w)))
              else ret w)
           (write_checked (CHR '')''))))) out (print_sexp qt (SPair a b))"
    by (simp only: if_False print_sexp.simps append_Cons append_Nil)
  then show ?thesis
    unfolding write_pair_def o(1)
    by (intro writes_pure [OF car_more [OF _ o(2,3)]] writes_pure [OF frame_more])
qed

lemma fe_write_sexp:
  assumes wf: "wf_slabs (slabs c)"
  shows "sexp_at c p e \<Longrightarrow> print_cost e < n \<Longrightarrow> prints c (fe_write n p qt out) out (print_sexp qt e)"
proof (induction n arbitrary: p e qt out)
  case (Suc n)
  let ?k = FE_IO_ABORT_CHECK_INTERVAL
  note at = Suc.prems(1) and t = sexp_at_type [OF Suc.prems(1)]
  have IH: "\<And>x e' q out. sexp_at c x e' \<Longrightarrow> print_cost e' < n \<Longrightarrow> prints c (fe_write n x q out) out (print_sexp q e')"
    by (rule Suc.IH)
  show ?case
    unfolding fe_write.simps fe_write_body_def Let_def
  proof (rule prints_pure [OF typeof_more], assumption, rule writes_prints, goal_cases)
    case 1
    show ?case
    proof (cases e)
      case (SNum x)
      with at obtain i where i: "p = Ref i" "i < length (objects c)" "ocdr (objects c ! i) = VNum x" by auto
      have "fe_num_value p c1 = (Inr x, c1)" if "limit_ctx.more c1 = limit_ctx.more c" for c1
        using cell_more [OF that i(2)] i by (simp add: fe_num_value_def bnd_def ret_def)
      then have "writes c (write_number p (out, ?k)) out (take 31 (printf_g 7 x))"
        unfolding write_number_def i(1) ptr.case by (rule writes_pure) (assumption, rule writes_str)
      with SNum t show ?thesis by simp
    next
      case (SSym s)
      with at obtain i d m where o: "p = Ref i" "i < length (objects c)" "ocdr (objects c ! i) = VObj (Ref d)"
        "d < length (objects c)" "ocar (objects c ! d) = VObj (Ref m)" "is_string c (Ref m) s"
        by (auto simp: sym_obj_def)
      obtain n' where n': "n = Suc n'" using Suc.prems(2) SSym by (cases n) simp_all
      have "prints c (fe_write n (Ref m) False out) out (print_sexp False (SStr s))"
        by (rule Suc.IH) (use o(6) n' in simp_all)
      then have "writes c (bnd (fe_write n (Ref m) False out) (\<lambda>out. ret (out, ?k))) out (s @ [])"
        by (intro prints_bnd writes_ret) simp
      then have "writes c (bnd (cdr p) (\<lambda>d. bnd (car d) (\<lambda>name.
            bnd (fe_write n name False out) (\<lambda>out. ret (out, ?k))))) out s"
        unfolding o(1)
        by (intro writes_pure [OF cdr_more [OF _ o(2,3)]] writes_pure [OF car_more [OF _ o(4,5)]]) simp_all
      with SSym t show ?thesis by simp
    next
      case (SStr s)
      with at have b: "obj_bytes c p = Some s" by (simp add: is_string_def)
      have d: "writes c (write_data (\<lambda>ss. write_slabs ss qt) p (out, k)) out (if qt then escape_quotes s else s)" for out k
        by (rule writes_data [OF b wf]) (simp_all add: writes_slabs)
      have "writes c (bnd (if qt then write_checked (CHR 0x22) (out, ?k) else ret (out, ?k)) (\<lambda>w.
              bnd (write_data (\<lambda>ss. write_slabs ss qt) p w) (\<lambda>w.
                if qt then write_checked (CHR 0x22) w else ret w))) out
          ((if qt then [CHR 0x22] else []) @ (if qt then escape_quotes s else s) @ (if qt then [CHR 0x22] else []))"
        by (intro writes_bnd writes_opt d)
      with SStr t show ?thesis by (simp split: if_splits)
    next
      case (SBytes s)
      with at have b: "obj_bytes c p = Some s" by simp
      have d: "writes c (write_data (\<lambda>ss. write_hex_slabs ss True) p (out, k)) out (hex_text True s)" for out k
        by (rule writes_data [OF b wf]) (simp_all add: writes_hex_slabs [OF wf])
      have "writes c (bnd (writestr ''#bytes['' (out, ?k)) (\<lambda>w.
              bnd (write_data (\<lambda>ss. write_hex_slabs ss True) p w) (write_checked (CHR '']'')))) out
          (''#bytes['' @ hex_text True s @ '']'')"
        by (rule writes_bnd [OF writes_str]) (intro writes_bnd d writes_checked)
      with SBytes t show ?thesis by (simp only: sexp.case fe_tag.case print_sexp.simps hex_text_def if_True)
    next
      case (SPair a b)
      with at IH Suc.prems(2) have "writes c (write_pair n (fe_write n) p (out, ?k)) out (print_sexp qt (SPair a b))"
        by (intro writes_pair) auto
      with SPair t show ?thesis by (simp only: sexp.case fe_tag.case)
    qed (use at t in \<open>auto simp: write_number_def intro: writes_str simp del: writestr.simps\<close>)
  qed
qed simp


text \<open>The object \<open>(x "a" . 7)\<close> in a heap of seven cells and two slabs.\<close>

definition write_example :: fe_Context where
  "write_example = (zeroed_context quiet_env 4096)
     \<lparr>frame_sym := Ref 7,
      objects := [pair_cell (Ref 2) (Ref 1), pair_cell (Ref 5) (Fixnum 7), symbol_cell (Ref 3),
        pair_cell (Ref 4) Nil,
        \<lparr>ocar = VObj (Fixnum 1), ocdr = VU32 0, ty = FE_TSTRING, mark = False\<rparr>,
        \<lparr>ocar = VObj (Fixnum 1), ocdr = VU32 64, ty = FE_TSTRING, mark = False\<rparr>],
      slabs := [\<lparr>slab_next = FE_SLAB_NULL, slab_data = CHR ''x'' # replicate 59 (CHR 0x00)\<rparr>,
        \<lparr>slab_next = FE_SLAB_NULL, slab_data = CHR ''a'' # replicate 59 (CHR 0x00)\<rparr>]\<rparr>"


end
