(* ===== verification/Fe_Path.thy ===== *)
theory Fe_Path
  imports Fe_Symbol
begin

text \<open>
  Growable string arrays, the module cache, paths and the search for module files (\<^verbatim>\<open>fe.c\<close>,
  \<^verbatim>\<open>dup_cstring\<close> to \<^verbatim>\<open>fex_reset_import_state\<close> and \<^verbatim>\<open>path_contains_dotdot\<close> to
  \<^verbatim>\<open>append_module_search_error\<close>; the POSIX branches). An array is passed in and returned
  updated; \<open>None\<close> is the return value 0 for a failed allocation. The file system is a parameter:
  which paths can be opened, what \<^verbatim>\<open>realpath\<close> answers, and the bytes of a file.
\<close>

record os_files =
  file_readable :: "string \<Rightarrow> bool"
  real_path :: "string \<Rightarrow> string option"
  file_bytes :: "string \<Rightarrow> string option"

section \<open>Arrays of strings\<close>

definition str_size :: "string \<Rightarrow> size_t" where
  "str_size s = of_nat (length s + 1)"

definition free_cstr :: "cstr option \<Rightarrow> ('x, unit) lcomp" where
  "free_cstr s = modify (tracked_free (map_option snd s))"

definition dup_cstring :: "string option \<Rightarrow> ('x, cstr option) lcomp" where
  "dup_cstring src = (case src of
      None \<Rightarrow> ret None
    | Some s \<Rightarrow> bnd (lift_st (tracked_alloc (str_size s))) (\<lambda>copy.
        ret (map_option (\<lambda>sz. (s, sz)) copy)))"

function double_until :: "nat \<Rightarrow> nat \<Rightarrow> nat" where
  "double_until new_capacity needed =
     (if 0 < new_capacity \<and> new_capacity < needed then double_until (new_capacity * 2) needed
      else new_capacity)"
  by auto
termination by (relation "measure (\<lambda>(n, m). m - n)") auto

declare double_until.simps [simp del]

definition items_block :: "nat \<Rightarrow> block" where
  "items_block capacity = (if capacity = 0 then None else Some (8 * of_nat capacity))"

definition ensure_string_array_capacity :: "nat \<Rightarrow> str_array \<Rightarrow> ('x, str_array option) lcomp" where
  "ensure_string_array_capacity needed a =
     (if needed \<le> arr_capacity a then ret (Some a)
      else
        (let new_capacity =
           double_until (if arr_capacity a > 0 then arr_capacity a * 2 else 4) needed
         in bnd (lift_st (tracked_realloc (items_block (arr_capacity a)) (8 * of_nat new_capacity)))
            (\<lambda>new_items. case new_items of
               None \<Rightarrow> ret None
             | Some _ \<Rightarrow> ret (Some (a\<lparr>arr_capacity := new_capacity\<rparr>)))))"

definition string_array_push_owned :: "cstr \<Rightarrow> str_array \<Rightarrow> ('x, str_array option) lcomp" where
  "string_array_push_owned v a =
     bnd (ensure_string_array_capacity (length (arr_items a) + 1) a) (\<lambda>r.
       ret (map_option (\<lambda>a. a\<lparr>arr_items := arr_items a @ [v]\<rparr>) r))"

definition string_array_push_copy :: "string \<Rightarrow> str_array \<Rightarrow> ('x, str_array option) lcomp" where
  "string_array_push_copy v a =
     bnd (dup_cstring (Some v)) (\<lambda>copy. case copy of
       None \<Rightarrow> ret None
     | Some s \<Rightarrow> bnd (string_array_push_owned s a) (\<lambda>r. case r of
         None \<Rightarrow> sq (free_cstr copy) (ret None)
       | Some a' \<Rightarrow> ret (Some a')))"

definition free_items :: "cstr list \<Rightarrow> 'x mem_ctx_scheme \<Rightarrow> 'x mem_ctx_scheme" where
  "free_items xs = fold (\<lambda>s. tracked_free (Some (snd s))) xs"

definition string_array_clear :: "str_array \<Rightarrow> ('x, str_array) lcomp" where
  "string_array_clear a =
     sq (modify (\<lambda>c. tracked_free (items_block (arr_capacity a)) (free_items (arr_items a) c)))
     (ret empty_array)"

text \<open>The polled search loop that \<^verbatim>\<open>string_array_contains\<close> and \<^verbatim>\<open>module_cache_find_index\<close> share.\<close>

primrec find_cstr :: "string \<Rightarrow> nat \<Rightarrow> nat \<Rightarrow> cstr list \<Rightarrow> ('x, nat option) lcomp" where
  "find_cstr v i countdown [] = ret None"
| "find_cstr v i countdown (s # ss) =
     bnd (check_io_abort countdown) (\<lambda>countdown.
       if fst s = v then ret (Some i) else find_cstr v (Suc i) countdown ss)"

definition string_array_contains :: "string \<Rightarrow> str_array \<Rightarrow> ('x, bool) lcomp" where
  "string_array_contains v a =
     bnd (find_cstr v 0 FE_IO_ABORT_CHECK_INTERVAL (arr_items a)) (\<lambda>r. ret (r \<noteq> None))"

definition string_array_pop :: "str_array \<Rightarrow> ('x, str_array) lcomp" where
  "string_array_pop a =
     (if arr_items a = [] then ret a
      else sq (free_cstr (Some (last (arr_items a))))
        (ret (a\<lparr>arr_items := butlast (arr_items a)\<rparr>)))"

section \<open>The module cache\<close>

text \<open>An array of objects is its capacity here; its items are NULL while that is 0.\<close>

definition ensure_object_array_capacity :: "nat \<Rightarrow> nat \<Rightarrow> ('x, nat option) lcomp" where
  "ensure_object_array_capacity needed capacity =
     (if needed \<le> capacity \<and> capacity \<noteq> 0 then ret (Some capacity)
      else
        (let new_capacity = (if capacity > 0 then capacity * 2 else 4);
             new_capacity = (if capacity = 0 \<and> capacity \<ge> needed then capacity else new_capacity);
             new_capacity = double_until new_capacity needed
         in bnd (lift_st (tracked_realloc (items_block capacity) (8 * of_nat new_capacity)))
            (\<lambda>new_items. case new_items of
               None \<Rightarrow> ret None
             | Some _ \<Rightarrow> ret (Some new_capacity))))"

definition module_cache_find_index :: "string \<Rightarrow> nat option fcomp" where
  "module_cache_find_index path =
     bnd (gets loaded_modules) (\<lambda>a.
       find_cstr path 0 FE_IO_ABORT_CHECK_INTERVAL (arr_items a))"

definition module_cache_get :: "string \<Rightarrow> ptr fcomp" where
  "module_cache_get path =
     bnd (module_cache_find_index path) (\<lambda>index. case index of
       None \<Rightarrow> ret Nil
     | Some i \<Rightarrow> bnd (gets loaded_module_values) (\<lambda>vs.
         if i < length vs then ret (vs ! i) else throw Crash))"

definition module_cache_push_owned :: "cstr \<Rightarrow> ptr \<Rightarrow> bool fcomp" where
  "module_cache_push_owned path v =
     bnd (gets loaded_modules) (\<lambda>a. let needed = length (arr_items a) + 1 in
     bnd (ensure_string_array_capacity needed a) (\<lambda>r. case r of
       None \<Rightarrow> ret False
     | Some a \<Rightarrow> sq (modify (\<lambda>c. c\<lparr>loaded_modules := a\<rparr>))
         (bnd (gets loaded_module_value_capacity) (\<lambda>cap.
          bnd (ensure_object_array_capacity needed cap) (\<lambda>r. case r of
            None \<Rightarrow> ret False
          | Some cap \<Rightarrow> sq (modify (\<lambda>c. c\<lparr>loaded_module_value_capacity := cap,
                loaded_modules := a\<lparr>arr_items := arr_items a @ [path]\<rparr>,
                loaded_module_values := loaded_module_values c @ [v]\<rparr>))
              (ret True))))))"

definition module_cache_clear :: "unit fcomp" where
  "module_cache_clear =
     bnd (gets loaded_modules) (\<lambda>a. bnd (string_array_clear a) (\<lambda>a.
       modify (\<lambda>c. (tracked_free (items_block (loaded_module_value_capacity c)) c)
         \<lparr>loaded_modules := a, loaded_module_values := [], loaded_module_value_capacity := 0\<rparr>)))"

section \<open>Paths\<close>

definition is_path_separator :: "char \<Rightarrow> bool" where
  "is_path_separator chr \<longleftrightarrow> chr = CHR ''/'' \<or> chr = CHR 0x5C"

text \<open>\<^verbatim>\<open>normalize_path_chars\<close> changes a buffer in place: the result is its new text.\<close>

primrec normalize_path_loop :: "nat \<Rightarrow> string \<Rightarrow> ('x, string) lcomp" where
  "normalize_path_loop countdown [] = ret []"
| "normalize_path_loop countdown (p # ps) =
     bnd (check_io_abort countdown) (\<lambda>countdown.
       bnd (normalize_path_loop countdown ps) (\<lambda>ps.
         ret ((if is_path_separator p then CHR ''/'' else p) # ps)))"

definition normalize_path_chars :: "cstr \<Rightarrow> ('x, cstr) lcomp" where
  "normalize_path_chars path =
     bnd (normalize_path_loop FE_IO_ABORT_CHECK_INTERVAL (fst path)) (\<lambda>p. ret (p, snd path))"

definition dup_normalized_path :: "string \<Rightarrow> ('x, cstr option) lcomp" where
  "dup_normalized_path path =
     bnd (dup_cstring (Some path)) (\<lambda>copy. case copy of
       None \<Rightarrow> ret None
     | Some s \<Rightarrow> bnd (normalize_path_chars s) (\<lambda>s. ret (Some s)))"

definition normalize_existing_path :: "os_files \<Rightarrow> string \<Rightarrow> ('x, cstr option) lcomp" where
  "normalize_existing_path fs path = (case real_path fs path of
      None \<Rightarrow> ret None
    | Some resolved \<Rightarrow> bnd (dup_cstring (Some resolved)) (\<lambda>copy. case copy of
        None \<Rightarrow> ret None
      | Some s \<Rightarrow> bnd (normalize_path_chars s) (\<lambda>s. ret (Some s))))"

primrec last_sep_loop :: "nat \<Rightarrow> nat \<Rightarrow> nat option \<Rightarrow> string \<Rightarrow> ('x, nat option) lcomp" where
  "last_sep_loop countdown i last_sep [] = ret last_sep"
| "last_sep_loop countdown i last_sep (p # ps) =
     bnd (check_io_abort countdown) (\<lambda>countdown.
       last_sep_loop countdown (Suc i) (if is_path_separator p then Some i else last_sep) ps)"

definition path_dirname_copy :: "string \<Rightarrow> ('x, cstr option) lcomp" where
  "path_dirname_copy path =
     (if path = [] then dup_cstring (Some ''.'')
      else bnd (last_sep_loop FE_IO_ABORT_CHECK_INTERVAL 0 None path) (\<lambda>last_sep. case last_sep of
        None \<Rightarrow> dup_cstring (Some ''.'')
      | Some i \<Rightarrow>
          (let len = (if i = 0 then 1 else i) in
           bnd (lift_st (tracked_alloc (of_nat (len + 1)))) (\<lambda>dir.
             ret (map_option (\<lambda>sz. (take len path, sz)) dir)))))"

definition joined_path :: "string \<Rightarrow> string \<Rightarrow> string \<Rightarrow> string" where
  "joined_path base name suffix =
     base @ (if base \<noteq> [] \<and> \<not> is_path_separator (last base) then ''/'' else []) @ name @ suffix"

definition join_path_suffix :: "string \<Rightarrow> string \<Rightarrow> string \<Rightarrow> ('x, cstr option) lcomp" where
  "join_path_suffix base name suffix =
     (let path = joined_path base name suffix in
      bnd (lift_st (tracked_alloc (str_size path))) (\<lambda>b.
        ret (map_option (\<lambda>sz. (path, sz)) b)))"

definition join_module_file_path :: "string \<Rightarrow> string \<Rightarrow> ('x, cstr option) lcomp" where
  "join_module_file_path base module_name = join_path_suffix base module_name ''.fex''"

definition join_module_index_path :: "string \<Rightarrow> string \<Rightarrow> ('x, cstr option) lcomp" where
  "join_module_index_path base module_name = join_path_suffix base module_name ''/index.fex''"

section \<open>Module specifiers\<close>

definition module_spec_uses_path_mode :: "string \<Rightarrow> bool" where
  "module_spec_uses_path_mode spec = list_ex is_path_separator spec"

definition module_spec_is_relative :: "string \<Rightarrow> bool" where
  "module_spec_is_relative spec = (case spec of [] \<Rightarrow> False | c # _ \<Rightarrow> c = CHR ''.'')"

text \<open>Unlike the other polled loops this one frees its buffer before it raises.\<close>

primrec dots_to_slashes :: "block \<Rightarrow> nat \<Rightarrow> string \<Rightarrow> ('x, string) lcomp" where
  "dots_to_slashes copy countdown [] = ret []"
| "dots_to_slashes copy countdown (p # ps) =
     bnd (lift_st (poll_io_abort countdown)) (\<lambda>(msg, countdown). case msg of
       Some m \<Rightarrow> sq (modify (tracked_free copy)) (fe_error m)
     | None \<Rightarrow> bnd (dots_to_slashes copy countdown ps) (\<lambda>ps.
         ret ((if p = CHR ''.'' then CHR ''/'' else p) # ps)))"

definition module_spec_to_lookup_name :: "string \<Rightarrow> ('x, cstr option) lcomp" where
  "module_spec_to_lookup_name spec =
     bnd (dup_cstring (Some spec)) (\<lambda>copy. case copy of
       None \<Rightarrow> ret None
     | Some s \<Rightarrow>
         if module_spec_uses_path_mode spec then
           bnd (normalize_path_chars s) (\<lambda>s. ret (Some s))
         else bnd (dots_to_slashes (Some (snd s)) FE_IO_ABORT_CHECK_INTERVAL (fst s)) (\<lambda>t.
           ret (Some (t, snd s))))"

text \<open>
  A segment is copied with everything after it (\<^verbatim>\<open>segment_start\<close> is not terminated) and then cut to
  its length. \<open>seg\<close> is the rest of the specifier from \<^verbatim>\<open>segment_start\<close>, \<open>len\<close> is \<^verbatim>\<open>p - segment_start\<close>.
\<close>

definition push_segment :: "bool \<Rightarrow> string \<Rightarrow> nat \<Rightarrow> str_array \<Rightarrow> ('x, str_array option) lcomp" where
  "push_segment path_mode seg len a =
     (if len > 0 \<and> \<not> (path_mode \<and> take len seg = ''.'') \<and> \<not> (path_mode \<and> take len seg = ''..'') then
        bnd (string_array_push_copy seg a) (\<lambda>r. case r of
          None \<Rightarrow> bnd (string_array_clear a) (\<lambda>_. ret None)
        | Some a' \<Rightarrow> ret (Some (a'\<lparr>arr_items := butlast (arr_items a') @
            [(take len seg, snd (last (arr_items a')))]\<rparr>)))
      else ret (Some a))"

primrec split_loop ::
  "bool \<Rightarrow> nat \<Rightarrow> string \<Rightarrow> nat \<Rightarrow> string \<Rightarrow> str_array \<Rightarrow> ('x, str_array option) lcomp" where
  "split_loop path_mode countdown seg len [] a = push_segment path_mode seg len a"
| "split_loop path_mode countdown seg len (p # ps) a =
     bnd (lift_st (poll_io_abort countdown)) (\<lambda>(msg, countdown). case msg of
       Some m \<Rightarrow> bnd (string_array_clear a) (\<lambda>_. fe_error m)
     | None \<Rightarrow>
         if (if path_mode then is_path_separator p else p = CHR ''.'') then
           bnd (push_segment path_mode seg len a) (\<lambda>r. case r of
             None \<Rightarrow> ret None
           | Some a \<Rightarrow> split_loop path_mode countdown ps 0 ps a)
         else split_loop path_mode countdown seg (Suc len) ps a)"

definition split_module_spec_segments :: "string \<Rightarrow> ('x, str_array option) lcomp" where
  "split_module_spec_segments spec =
     (if spec = [] then ret (Some empty_array)
      else split_loop (module_spec_uses_path_mode spec) FE_IO_ABORT_CHECK_INTERVAL spec 0 spec empty_array)"

fun intercalate :: "char \<Rightarrow> string list \<Rightarrow> string" where
  "intercalate sep [] = []"
| "intercalate sep [s] = s"
| "intercalate sep (s # ss) = s @ sep # intercalate sep ss"

definition join_module_segments :: "string list \<Rightarrow> char \<Rightarrow> ('x, cstr option) lcomp" where
  "join_module_segments segments sep =
     (let joined = intercalate sep segments in
      bnd (lift_st (tracked_alloc (str_size joined))) (\<lambda>b.
        ret (map_option (\<lambda>sz. (joined, sz)) b)))"

fun path_contains_dotdot_at :: "bool \<Rightarrow> string \<Rightarrow> bool" where
  "path_contains_dotdot_at at_start [] = False"
| "path_contains_dotdot_at at_start (p # ps) =
     (p = CHR ''.'' \<and> ps \<noteq> [] \<and> hd ps = CHR ''.'' \<and> at_start \<and>
        (tl ps = [] \<or> is_path_separator (hd (tl ps))) \<or>
      path_contains_dotdot_at (is_path_separator p) ps)"

definition path_contains_dotdot :: "string \<Rightarrow> bool" where
  "path_contains_dotdot path = path_contains_dotdot_at True path"

section \<open>Packages\<close>

definition snprintf_buf :: "nat \<Rightarrow> string \<Rightarrow> string" where
  "snprintf_buf n s = take (n - 1) s"

definition lookup_global_module :: "string \<Rightarrow> ptr fcomp" where
  "lookup_global_module name =
     (if name = [] then ret Nil
      else bnd (fe_symbol name) (\<lambda>sy. bnd (getbound sy Nil) (\<lambda>b. bnd (cdr b) (\<lambda>v.
        gets (\<lambda>c. if typeof c v = FE_TMAP then v else Nil)))))"

primrec module_chain_loop :: "string list \<Rightarrow> ptr \<Rightarrow> ptr fcomp" where
  "module_chain_loop [] current = ret current"
| "module_chain_loop (s # ss) current =
     bnd (fe_symbol s) (\<lambda>sy. bnd (fe_map_get current sy) (\<lambda>current.
       bnd (gets (\<lambda>c. typeof c current)) (\<lambda>t.
         if t \<noteq> FE_TMAP then ret Nil else module_chain_loop ss current)))"

definition lookup_module_chain :: "string list \<Rightarrow> ptr fcomp" where
  "lookup_module_chain segments = (case segments of
      [] \<Rightarrow> ret Nil
    | s # ss \<Rightarrow> bnd (lookup_global_module s) (\<lambda>current. bnd (gets (\<lambda>c. typeof c current)) (\<lambda>t.
        if t \<noteq> FE_TMAP then ret Nil else module_chain_loop ss current)))"

primrec package_chain_loop :: "string list \<Rightarrow> ptr \<Rightarrow> ptr fcomp" where
  "package_chain_loop [] current = ret current"
| "package_chain_loop (s # ss) current =
     bnd (fe_symbol s) (\<lambda>segment_sym. bnd (fe_map_get current segment_sym) (\<lambda>next.
       if isnil next then
         bnd fe_map (\<lambda>next. bnd (fe_map_set current segment_sym next) (\<lambda>_.
           package_chain_loop ss next))
       else bnd (gets (\<lambda>c. typeof c next)) (\<lambda>t.
         if t \<noteq> FE_TMAP then
           fe_error (snprintf_buf 256 (''package segment '' @ [CHR 0x27] @ s @ [CHR 0x27] @
             '' is not a module/map''))
         else package_chain_loop ss next)))"

definition ensure_package_chain :: "string list \<Rightarrow> ptr option fcomp" where
  "ensure_package_chain segments = (case segments of
      [] \<Rightarrow> ret None
    | s # ss \<Rightarrow> bnd (lookup_global_module s) (\<lambda>current. bnd (gets (\<lambda>c. typeof c current)) (\<lambda>t.
        bnd (if t \<noteq> FE_TMAP then
               bnd fe_map (\<lambda>current. bnd (fe_symbol s) (\<lambda>sy. sq (fe_set sy current) (ret current)))
             else ret current)
        (\<lambda>current. bnd (package_chain_loop ss current) (\<lambda>r. ret (Some r))))))"

definition bind_imported_module :: "string \<Rightarrow> string list \<Rightarrow> bool \<Rightarrow> ptr \<Rightarrow> unit fcomp" where
  "bind_imported_module spec segments is_relative module_obj =
     bnd (gets (\<lambda>c. typeof c module_obj)) (\<lambda>t.
       if segments = [] \<or> t \<noteq> FE_TMAP then ret ()
       else if \<not> is_relative \<and> length segments > 1 then
         bnd (ensure_package_chain (butlast segments)) (\<lambda>parent. case parent of
           None \<Rightarrow> throw Crash
         | Some parent \<Rightarrow> bnd (fe_symbol (last segments)) (\<lambda>sy.
             bnd (fe_map_set parent sy module_obj) (\<lambda>_. ret ())))
       else
         bnd (fe_symbol (last segments)) (\<lambda>sy. sq (fe_set sy module_obj)
           (if spec \<noteq> last segments \<and> \<not> module_spec_uses_path_mode spec \<and> CHR ''.'' \<notin> set spec
            then bnd (fe_symbol spec) (\<lambda>sy. fe_set sy module_obj) else ret ())))"

section \<open>Files\<close>

definition file_exists :: "os_files \<Rightarrow> string \<Rightarrow> bool" where
  "file_exists fs path = file_readable fs path"

definition SOURCE_BUFFER_TAIL_SLACK :: nat where "SOURCE_BUFFER_TAIL_SLACK = 8"

text \<open>The buffer is used as a C string, so its text ends at the first NUL of the file.\<close>

definition read_text_file :: "os_files \<Rightarrow> string \<Rightarrow> ('x, cstr option) lcomp" where
  "read_text_file fs path =
     (if \<not> file_readable fs path then ret None
      else case file_bytes fs path of
        None \<Rightarrow> ret None
      | Some bytes \<Rightarrow>
          bnd (lift_st (tracked_alloc (of_nat (length bytes + SOURCE_BUFFER_TAIL_SLACK)))) (\<lambda>b.
            ret (map_option (\<lambda>sz. (takeWhile (\<lambda>c. c \<noteq> CHR 0x00) bytes, sz)) b)))"

definition push_source_dir_from_file :: "os_files \<Rightarrow> string \<Rightarrow> bool fcomp" where
  "push_source_dir_from_file fs path =
     bnd (normalize_existing_path fs path) (\<lambda>normalized_path.
     bnd (path_dirname_copy (case normalized_path of Some s \<Rightarrow> fst s | None \<Rightarrow> path)) (\<lambda>dir.
     sq (free_cstr normalized_path)
       (case dir of
          None \<Rightarrow> ret False
        | Some d \<Rightarrow> bnd (gets source_dirs) (\<lambda>a. bnd (string_array_push_owned d a) (\<lambda>r. case r of
            None \<Rightarrow> sq (free_cstr dir) (ret False)
          | Some a \<Rightarrow> sq (modify (\<lambda>c. c\<lparr>source_dirs := a\<rparr>)) (ret True))))))"

definition pop_source_dir :: "unit fcomp" where
  "pop_source_dir = bnd (gets source_dirs) (\<lambda>a. bnd (string_array_pop a) (\<lambda>a.
     modify (\<lambda>c. c\<lparr>source_dirs := a\<rparr>)))"

section \<open>The search for a module file\<close>

definition search_report :: "string list \<Rightarrow> string" where
  "search_report items = concat (map (\<lambda>s. ''  - '' @ s @ [CHR 0x0A]) items)"

definition format_search_paths :: "string list \<Rightarrow> ('x, cstr option) lcomp" where
  "format_search_paths items =
     (if items = [] then dup_cstring (Some [])
      else bnd (lift_st (tracked_alloc (str_size (search_report items)))) (\<lambda>b.
        ret (map_option (\<lambda>sz. (search_report items, sz)) b)))"

text \<open>
  The outcome of a search step: the status, the resolved path (set when the status is 1), and the
  list of paths tried, which is only kept when \<^verbatim>\<open>searched\<close> is not NULL.
\<close>

type_synonym search = "int \<times> cstr option \<times> str_array option"

definition resolve_existing :: "os_files \<Rightarrow> string \<Rightarrow> str_array option \<Rightarrow> search fcomp" where
  "resolve_existing fs candidate searched =
     (if \<not> file_exists fs candidate then ret (0, None, searched)
      else bnd (normalize_existing_path fs candidate) (\<lambda>normalized. case normalized of
        Some p \<Rightarrow> ret (1, Some p, searched)
      | None \<Rightarrow> bnd (gets alloc_failure_active) (\<lambda>failed.
          if failed then ret (- 1, None, searched)
          else bnd (dup_normalized_path candidate) (\<lambda>normalized. case normalized of
            None \<Rightarrow> ret (- 1, None, searched)
          | Some p \<Rightarrow> ret (1, Some p, searched)))))"

definition try_resolve_module_candidate ::
  "os_files \<Rightarrow> string \<Rightarrow> str_array option \<Rightarrow> search fcomp" where
  "try_resolve_module_candidate fs candidate searched = (case searched of
      None \<Rightarrow> resolve_existing fs candidate None
    | Some a \<Rightarrow> bnd (string_array_push_copy candidate a) (\<lambda>r. case r of
        None \<Rightarrow> ret (- 1, None, searched)
      | Some a \<Rightarrow> resolve_existing fs candidate (Some a)))"

definition try_candidate ::
  "os_files \<Rightarrow> cstr option fcomp \<Rightarrow> str_array option \<Rightarrow> search fcomp" where
  "try_candidate fs join searched =
     bnd join (\<lambda>candidate. case candidate of
       None \<Rightarrow> ret (- 1, None, searched)
     | Some s \<Rightarrow> bnd (try_resolve_module_candidate fs (fst s) searched) (\<lambda>r.
         sq (free_cstr candidate) (ret r)))"

definition try_resolve_module_under_base ::
  "os_files \<Rightarrow> string \<Rightarrow> string \<Rightarrow> str_array option \<Rightarrow> search fcomp" where
  "try_resolve_module_under_base fs base module_name searched =
     bnd (try_candidate fs (join_module_file_path base module_name) searched)
     (\<lambda>(status, resolved, searched).
       if status \<noteq> 0 then ret (status, resolved, searched)
       else try_candidate fs (join_module_index_path base module_name) searched)"

primrec import_paths_loop ::
  "os_files \<Rightarrow> string \<Rightarrow> nat \<Rightarrow> string list \<Rightarrow> str_array option \<Rightarrow> search fcomp" where
  "import_paths_loop fs module_name countdown [] searched = ret (0, None, searched)"
| "import_paths_loop fs module_name countdown (b # bs) searched =
     bnd (check_io_abort countdown) (\<lambda>countdown.
       bnd (try_resolve_module_under_base fs b module_name searched) (\<lambda>(status, resolved, searched).
         if status \<noteq> 0 then ret (status, resolved, searched)
         else import_paths_loop fs module_name countdown bs searched))"

definition resolve_search :: "os_files \<Rightarrow> string \<Rightarrow> str_array option \<Rightarrow> search fcomp" where
  "resolve_search fs module_name searched =
     bnd (gets (\<lambda>c. map fst (arr_items (source_dirs c)))) (\<lambda>dirs.
     bnd (gets (\<lambda>c. map fst (arr_items (import_paths c)))) (\<lambda>paths.
     bnd (if dirs \<noteq> [] then try_resolve_module_under_base fs (last dirs) module_name searched
          else ret (0, None, searched)) (\<lambda>(status, resolved, searched).
     if status \<noteq> 0 then ret (status, resolved, searched)
     else bnd (import_paths_loop fs module_name FE_IO_ABORT_CHECK_INTERVAL paths searched)
       (\<lambda>(status, resolved, searched).
       if status \<noteq> 0 then ret (status, resolved, searched)
       else try_resolve_module_under_base fs ''.'' module_name searched))))"

text \<open>The result is the resolved path and \<^verbatim>\<open>*searched_paths\<close>; \<open>report\<close> says whether the caller asked
  for the latter.\<close>

definition resolve_module_file ::
  "os_files \<Rightarrow> string \<Rightarrow> bool \<Rightarrow> (cstr option \<times> cstr option) fcomp" where
  "resolve_module_file fs module_name report =
     bnd (resolve_search fs module_name (if report then Some empty_array else None))
     (\<lambda>(status, resolved, searched).
       let tried = (case searched of Some a \<Rightarrow> a | None \<Rightarrow> empty_array) in
       if status > 0 then bnd (string_array_clear tried) (\<lambda>_. ret (resolved, None))
       else bnd (if report then format_search_paths (map fst (arr_items tried)) else ret None) (\<lambda>text.
         bnd (string_array_clear tried) (\<lambda>_. ret (resolved, text))))"

definition fex_clear_import_paths :: "unit fcomp" where
  "fex_clear_import_paths = bnd (gets import_paths) (\<lambda>a. bnd (string_array_clear a) (\<lambda>a.
     modify (\<lambda>c. c\<lparr>import_paths := a\<rparr>)))"

definition fex_add_import_path :: "os_files \<Rightarrow> string \<Rightarrow> bool fcomp" where
  "fex_add_import_path fs path =
     (if path = [] then ret False
      else bnd (normalize_existing_path fs path) (\<lambda>normalized.
        bnd (case normalized of None \<Rightarrow> dup_normalized_path path | Some s \<Rightarrow> ret (Some s))
        (\<lambda>normalized. case normalized of
           None \<Rightarrow> ret False
         | Some s \<Rightarrow> bnd (gets import_paths) (\<lambda>a. bnd (string_array_push_owned s a) (\<lambda>r. case r of
             None \<Rightarrow> sq (free_cstr normalized) (ret False)
           | Some a \<Rightarrow> sq (modify (\<lambda>c. c\<lparr>import_paths := a\<rparr>)) (ret True))))))"

text \<open>The three loops pop until the array is empty; the items go from the last to the first.\<close>

definition pop_all :: "str_array \<Rightarrow> 'x mem_ctx_scheme \<Rightarrow> 'x mem_ctx_scheme" where
  "pop_all a = free_items (rev (arr_items a))"

definition fex_reset_import_state :: "unit fcomp" where
  "fex_reset_import_state =
     modify (\<lambda>c. pop_all (loading_modules c) (pop_all (source_dirs c) (pop_all (source_buffers c) c))
       \<lparr>source_buffers := (source_buffers c)\<lparr>arr_items := []\<rparr>,
        source_dirs := (source_dirs c)\<lparr>arr_items := []\<rparr>,
        loading_modules := (loading_modules c)\<lparr>arr_items := []\<rparr>,
        modulestack := Nil\<rparr>)"

section \<open>Import specifiers\<close>

definition searched_label :: string where
  "searched_label = [CHR 0x0A] @ ''searched:'' @ [CHR 0x0A]"

definition append_module_search_error :: "nat \<Rightarrow> string \<Rightarrow> string \<Rightarrow> string" where
  "append_module_search_error error_buf_size module_spec searched_paths =
     (let error_buf = snprintf_buf error_buf_size
            (''could not resolve module '' @ [CHR 0x27] @ module_spec @ [CHR 0x27])
      in if searched_paths = [] then error_buf
         else
           (let remaining = error_buf_size - length error_buf - 1
            in if remaining > 0 then
                 (let error_buf = error_buf @ take remaining searched_label;
                      remaining = error_buf_size - length error_buf - 1
                  in error_buf @ take remaining searched_paths)
               else error_buf))"

definition resolve_imported_module_value ::
  "string \<Rightarrow> string list \<Rightarrow> ptr option \<Rightarrow> ptr fcomp" where
  "resolve_imported_module_value module_spec segments eval_result =
     bnd (gets (\<lambda>c. case eval_result of Some r \<Rightarrow> typeof c r = FE_TMAP | None \<Rightarrow> False)) (\<lambda>is_map.
     if is_map then ret (the eval_result)
     else bnd (lookup_module_chain segments) (\<lambda>m. bnd (gets (\<lambda>c. typeof c m)) (\<lambda>t.
       if t = FE_TMAP then ret m
       else bnd (if segments \<noteq> [] then lookup_global_module (last segments) else ret Nil) (\<lambda>m.
         bnd (gets (\<lambda>c. typeof c m)) (\<lambda>t.
         if t = FE_TMAP then ret m
         else bnd (lookup_global_module module_spec) (\<lambda>m. bnd (gets (\<lambda>c. typeof c m)) (\<lambda>t.
           if t = FE_TMAP then ret m else ret Nil)))))))"

section \<open>Specifiers cannot climb\<close>

text \<open>The components of a path, between its separators.\<close>

fun components :: "string \<Rightarrow> string list" where
  "components [] = [[]]"
| "components (c # cs) =
     (if is_path_separator c then [] # components cs
      else case components cs of [] \<Rightarrow> [[c]] | w # ws \<Rightarrow> (c # w) # ws)"

lemma components_not_Nil [simp]: "components p \<noteq> []"
  by (induction p) (auto split: list.split)

lemma components_Cons:
  "\<not> is_path_separator c \<Longrightarrow> components (c # cs) = (c # hd (components cs)) # tl (components cs)"
  using components_not_Nil [of cs] by (cases "components cs") auto

lemma hd_components_Nil: "hd (components p) = [] \<longleftrightarrow> p = [] \<or> is_path_separator (hd p)"
  by (cases p) (auto split: list.split)

lemma not_sep_dot [simp]: "\<not> is_path_separator (CHR ''.'')"
  by (simp add: is_path_separator_def)

lemma hd_components_one: "hd (components p) = ''.'' \<longleftrightarrow>
   (\<exists>q. p = CHR ''.'' # q \<and> (q = [] \<or> is_path_separator (hd q)))"
  using hd_components_Nil [of "tl p"]
  by (cases p) (auto simp: components_Cons split: list.split)

lemma dotdot_at_components:
  "path_contains_dotdot_at b p \<longleftrightarrow>
     ''..'' \<in> set (if b then components p else tl (components p))"
proof (induction b p rule: path_contains_dotdot_at.induct)
  case (1 b)
  then show ?case by simp
next
  case (2 b p ps)
  show ?case
  proof (cases "is_path_separator p")
    case True
    then have "p \<noteq> CHR ''.''" by auto
    with True 2 show ?thesis by auto
  next
    case False
    have "p # hd (components ps) = ''..'' \<longleftrightarrow> p = CHR ''.'' \<and> ps \<noteq> [] \<and> hd ps = CHR ''.'' \<and>
        (tl ps = [] \<or> is_path_separator (hd (tl ps)))"
      by (cases ps) (auto simp: hd_components_one simp del: components.simps)
    with False 2 show ?thesis by (auto simp: components_Cons simp del: components.simps)
  qed
qed

lemma path_contains_dotdot_components: "path_contains_dotdot p \<longleftrightarrow> ''..'' \<in> set (components p)"
  by (simp add: path_contains_dotdot_def dotdot_at_components)

definition norm_sep :: "char \<Rightarrow> char" where
  "norm_sep p = (if is_path_separator p then CHR ''/'' else p)"

lemma normalize_path_loop_result:
  "normalize_path_loop n p c = (Inr r, c') \<Longrightarrow> r = map norm_sep p"
  by (induction p arbitrary: n c r) (auto simp: ret_def norm_sep_def elim!: bnd_InrE)

lemma components_norm_sep: "components (map norm_sep p) = components p"
  by (induction p) (auto simp: norm_sep_def is_path_separator_def)

lemma dots_to_slashes_result:
  "dots_to_slashes b n p c = (Inr r, c') \<Longrightarrow> r = map (\<lambda>p. if p = CHR ''.'' then CHR ''/'' else p) p"
  by (induction p arbitrary: n c r)
    (auto simp: ret_def sq_def fe_error_def modify_def elim!: bnd_InrE split: option.splits prod.splits)

lemma components_no_dot:
  "CHR ''.'' \<notin> set p \<Longrightarrow> w \<in> set (components p) \<Longrightarrow> CHR ''.'' \<notin> set w"
  by (induction p arbitrary: w) (auto split: if_splits list.splits)

lemma components_append:
  "components (p @ q) = butlast (components p) @ (last (components p) @ hd (components q)) # tl (components q)"
proof (induction p)
  case Nil
  then show ?case using components_not_Nil [of q] by (cases "components q") auto
next
  case (Cons c p)
  show ?case
  proof (cases "is_path_separator c")
    case True
    then show ?thesis by (simp add: Cons.IH)
  next
    case False
    show ?thesis
      using components_not_Nil [of p]
      by (simp add: components_Cons [OF False] Cons.IH del: components.simps)
        (cases "components p"; auto)
  qed
qed

text \<open>Appending a file suffix adds no parent component.\<close>

lemma suffix_no_dotdot:
  assumes "''..'' \<notin> set (components p)"
  shows "''..'' \<notin> set (components (p @ ''.fex''))" "''..'' \<notin> set (components (p @ ''/index.fex''))"
proof -
  have f: "components ''.fex'' = [''.fex'']" "components ''/index.fex'' = [[], ''index.fex'']"
    by (simp_all add: is_path_separator_def)
  have l: "last (components p) \<in> set (components p)" by (rule last_in_set) simp
  have "last (components p) @ ''.fex'' \<noteq> ''..''"
  proof
    assume "last (components p) @ ''.fex'' = ''..''"
    then have "length (last (components p) @ ''.fex'') = length ''..''" by (rule arg_cong)
    then show False by simp
  qed
  with assms l show "''..'' \<notin> set (components (p @ ''.fex''))"
    "''..'' \<notin> set (components (p @ ''/index.fex''))"
    by (auto simp: components_append f dest: in_set_butlastD simp del: components.simps)
qed

lemma lookup_name_components:
  assumes "module_spec_to_lookup_name spec c = (Inr (Some (name, sz)), c')"
  shows "name = (if module_spec_uses_path_mode spec then map norm_sep spec
    else map (\<lambda>p. if p = CHR ''.'' then CHR ''/'' else p) spec)"
  using assms
  by (auto simp: module_spec_to_lookup_name_def dup_cstring_def normalize_path_chars_def ret_def
      elim!: bnd_InrE split: option.splits if_splits prod.splits
      dest!: normalize_path_loop_result dots_to_slashes_result simp: lift_st_def Let_def)



section \<open>The search order\<close>

text \<open>The places a module may be in, in the order the search tries them.\<close>

definition base_candidates :: "string \<Rightarrow> string \<Rightarrow> string list" where
  "base_candidates module_name base =
     [joined_path base module_name ''.fex'', joined_path base module_name ''/index.fex'']"

definition search_bases :: "fe_Context \<Rightarrow> string list" where
  "search_bases c =
     (let dirs = map fst (arr_items (source_dirs c))
      in (if dirs \<noteq> [] then [last dirs] else []) @ map fst (arr_items (import_paths c)) @ [''.''])"

definition search_candidates :: "fe_Context \<Rightarrow> string \<Rightarrow> string list" where
  "search_candidates c module_name = concat (map (base_candidates module_name) (search_bases c))"

text \<open>The name a found file gets: its real path, or the candidate itself, with forward slashes.\<close>

definition canonical :: "os_files \<Rightarrow> string \<Rightarrow> string" where
  "canonical fs p = map norm_sep (case real_path fs p of Some r \<Rightarrow> r | None \<Rightarrow> p)"

text \<open>What a search over the candidates \<open>ps\<close> may answer when \<open>old\<close> had been tried before.\<close>

definition tried :: "str_array option \<Rightarrow> string list" where
  "tried s = (case s of Some a \<Rightarrow> map fst (arr_items a) | None \<Rightarrow> [])"

definition search_answer ::
  "os_files \<Rightarrow> string list \<Rightarrow> str_array option \<Rightarrow> search \<Rightarrow> fe_Context \<Rightarrow> bool" where
  "search_answer fs ps s0 r c' = (case r of (status, resolved, s) \<Rightarrow>
     (s = None \<longleftrightarrow> s0 = None) \<and>
     (\<exists>k \<le> length ps. s0 \<noteq> None \<longrightarrow> tried s = tried s0 @ take k ps) \<and>
     (status = 1 \<and> (\<exists>p sz. find (file_readable fs) ps = Some p \<and> resolved = Some (canonical fs p, sz)) \<or>
      status = 0 \<and> resolved = None \<and> find (file_readable fs) ps = None \<and>
        (s0 \<noteq> None \<longrightarrow> tried s = tried s0 @ ps) \<or>
      status = - 1 \<and> resolved = None \<and> (s0 = None \<longrightarrow> alloc_failure_active c')))"

lemma tracked_alloc_cases:
  "(\<And>c'. P (Some n) c') \<Longrightarrow> (\<And>c'. alloc_failure_active c' \<Longrightarrow> P None c') \<Longrightarrow>
   wp (lift_st (tracked_alloc n)) P E c"
  by (auto simp: wp_lift_st tracked_alloc_def Let_def case_prod_beta alloc_failure_def)

lemma wp_dup_cstring:
  "(\<And>sz c'. P (Some (s, sz)) c') \<Longrightarrow> (\<And>c'. alloc_failure_active c' \<Longrightarrow> P None c') \<Longrightarrow>
   wp (dup_cstring (Some s)) P E c"
  unfolding dup_cstring_def option.case wp_bnd
  by (rule tracked_alloc_cases) (simp_all add: wp_ret)

lemma wp_normalize_path_chars:
  "(\<And>c'. P (map norm_sep (fst p), snd p) c') \<Longrightarrow> wp (normalize_path_chars p) P (\<lambda>_ _. True) c"
  by (rule wpI) (auto simp: normalize_path_chars_def ret_def elim!: bnd_InrE dest: normalize_path_loop_result)

lemma wp_dup_norm:
  assumes "\<And>sz c'. P (Some (map norm_sep s, sz)) c'"
    and "\<And>c'. alloc_failure_active c' \<Longrightarrow> P None c'"
  shows "wp (bnd (dup_cstring (Some s)) (\<lambda>copy. case copy of
      None \<Rightarrow> ret None
    | Some s \<Rightarrow> bnd (normalize_path_chars s) (\<lambda>s. ret (Some s)))) P (\<lambda>_ _. True) c"
  unfolding wp_bnd
  by (rule wp_dup_cstring)
    (simp_all add: wp_ret wp_bnd assms(2), rule wp_normalize_path_chars, simp add: wp_ret assms(1))

lemma wp_join_path_suffix:
  "(\<And>sz c'. P (Some (joined_path b n x, sz)) c') \<Longrightarrow> (\<And>c'. alloc_failure_active c' \<Longrightarrow> P None c') \<Longrightarrow>
   wp (join_path_suffix b n x) P E c"
  unfolding join_path_suffix_def Let_def wp_bnd
  by (rule tracked_alloc_cases) (simp_all add: wp_ret)

lemma wp_push_copy:
  assumes "\<And>a' c'. map fst (arr_items a') = map fst (arr_items a) @ [v] \<Longrightarrow> P (Some a') c'"
    and "\<And>c'. P None c'"
  shows "wp (string_array_push_copy v a) P E c"
  by (auto simp: string_array_push_copy_def string_array_push_owned_def ensure_string_array_capacity_def
      free_cstr_def Let_def wp_simps wp_lift_st assms(2)
      intro!: wp_dup_cstring assms(1) split: option.split)

lemma find_singleton: "find P [x] = (if P x then Some x else None)"
  by simp

lemma resolve_existing_answer:
  "wp (resolve_existing fs p s) (\<lambda>r c'. search_answer fs [p] s0 r c') (\<lambda>_ _. True) c"
  if "s0 = None \<longleftrightarrow> s = None" "s0 \<noteq> None \<longrightarrow> tried s = tried s0 @ [p]"
proof -
  have t: "\<exists>k \<le> Suc 0. s0 \<noteq> None \<longrightarrow> tried s = tried s0 @ take k [p]"
    using that(2) by (intro exI [of _ "Suc 0"]) simp
  have found: "search_answer fs [p] s0 (1, Some (canonical fs p, sz), s) c'" if "file_readable fs p" for sz c'
    using that t \<open>s0 = None \<longleftrightarrow> s = None\<close> by (simp add: search_answer_def)
  have failed: "search_answer fs [p] s0 (- 1, None, s) c'" if "alloc_failure_active c'" for c'
    using that t \<open>s0 = None \<longleftrightarrow> s = None\<close> by (simp add: search_answer_def)
  show ?thesis
  proof (cases "file_readable fs p")
    case False
    then show ?thesis using that t
      by (simp add: resolve_existing_def file_exists_def wp_ret search_answer_def)
  next
    case True
    note found = found [OF True]
    have fb: "wp (bnd (gets alloc_failure_active) (\<lambda>failed.
          if failed then ret (- 1, None, s)
          else bnd (dup_normalized_path p) (\<lambda>normalized. case normalized of
            None \<Rightarrow> ret (- 1, None, s)
          | Some p \<Rightarrow> ret (1, Some p, s)))) (search_answer fs [p] s0) (\<lambda>_ _. True) c'"
      if "real_path fs p = None \<or> alloc_failure_active c'" for c'
      using that found failed unfolding dup_normalized_path_def
      by (auto simp: wp_bnd wp_gets wp_ret wp_if canonical_def intro!: wp_dup_norm [unfolded wp_bnd])
    show ?thesis
    proof (cases "real_path fs p")
      case None
      with True fb show ?thesis
        by (simp add: resolve_existing_def file_exists_def normalize_existing_path_def)
    next
      case (Some r)
      with True have "resolve_existing fs p s =
          bnd (normalize_existing_path fs p) (\<lambda>normalized. case normalized of
        Some p \<Rightarrow> ret (1, Some p, s)
      | None \<Rightarrow> bnd (gets alloc_failure_active) (\<lambda>failed.
          if failed then ret (- 1, None, s)
          else bnd (dup_normalized_path p) (\<lambda>normalized. case normalized of
            None \<Rightarrow> ret (- 1, None, s)
          | Some p \<Rightarrow> ret (1, Some p, s))))"
        by (simp add: resolve_existing_def file_exists_def)
      moreover have "wp (normalize_existing_path fs p) (\<lambda>normalized. wp (case normalized of
        Some p \<Rightarrow> ret (1, Some p, s)
      | None \<Rightarrow> bnd (gets alloc_failure_active) (\<lambda>failed.
          if failed then ret (- 1, None, s)
          else bnd (dup_normalized_path p) (\<lambda>normalized. case normalized of
            None \<Rightarrow> ret (- 1, None, s)
          | Some p \<Rightarrow> ret (1, Some p, s)))) (search_answer fs [p] s0) (\<lambda>_ _. True)) (\<lambda>_ _. True) c"
        unfolding normalize_existing_path_def Some option.case
        by (rule wp_dup_norm) (use found Some fb in \<open>simp_all add: wp_ret canonical_def\<close>)
      ultimately show ?thesis by (simp only: wp_bnd)
    qed
  qed
qed

lemma search_answer_flag:
  "alloc_failure_active c' = alloc_failure_active c \<Longrightarrow> search_answer fs ps s0 r c' = search_answer fs ps s0 r c"
  by (simp add: search_answer_def)

lemma alloc_failure_active_free [simp]: "alloc_failure_active (tracked_free b c) = alloc_failure_active c"
  by (simp add: tracked_free_def memory_note_free_def Let_def split: option.split)

text \<open>Searches in a row.\<close>

lemma find_append_some: "find P xs = Some x \<Longrightarrow> find P (xs @ ys) = Some x"
  and find_append_none: "find P xs = None \<Longrightarrow> find P (xs @ ys) = find P ys"
  by (simp_all add: find_append)

lemma search_answer_stop:
  assumes "search_answer fs ps s0 (st, r, s) c" "st \<noteq> 0"
  shows "search_answer fs (ps @ qs) s0 (st, r, s) c"
proof -
  from assms(1) obtain k where k: "k \<le> length ps" "s0 \<noteq> None \<longrightarrow> tried s = tried s0 @ take k ps"
    by (auto simp: search_answer_def)
  then have "k \<le> length (ps @ qs) \<and> (s0 \<noteq> None \<longrightarrow> tried s = tried s0 @ take k (ps @ qs))" by simp
  with assms show ?thesis
    unfolding search_answer_def by (auto simp: find_append_some simp del: take_append)
qed

lemma search_answer_next:
  assumes "search_answer fs ps s0 (0, r, s) c" "search_answer fs qs s r' c'"
  shows "search_answer fs (ps @ qs) s0 r' c'"
proof -
  obtain st q s' where r': "r' = (st, q, s')" by (cases r')
  from assms(2) r' obtain k where k: "k \<le> length qs" "s \<noteq> None \<longrightarrow> tried s' = tried s @ take k qs"
    by (auto simp: search_answer_def)
  have s: "s = None \<longleftrightarrow> s0 = None" "find (file_readable fs) ps = None"
    "s0 \<noteq> None \<longrightarrow> tried s = tried s0 @ ps"
    using assms(1) by (auto simp: search_answer_def)
  have "length ps + k \<le> length (ps @ qs)" using k(1) by simp
  moreover have "s0 \<noteq> None \<longrightarrow> tried s' = tried s0 @ take (length ps + k) (ps @ qs)" using k s by simp
  ultimately have ex: "\<exists>k \<le> length (ps @ qs). s0 \<noteq> None \<longrightarrow> tried s' = tried s0 @ take k (ps @ qs)"
    by blast
  have "s' = None \<longleftrightarrow> s0 = None" using assms(2) s(1) by (simp add: search_answer_def r')
  moreover note find_append_none [OF s(2), of qs]
  moreover have "st = 1 \<and> (\<exists>p sz. find (file_readable fs) qs = Some p \<and> q = Some (canonical fs p, sz)) \<or>
      st = 0 \<and> q = None \<and> find (file_readable fs) qs = None \<and> (s \<noteq> None \<longrightarrow> tried s' = tried s @ qs) \<or>
      st = - 1 \<and> q = None \<and> (s = None \<longrightarrow> alloc_failure_active c')"
    using assms(2) by (auto simp: search_answer_def r')
  ultimately show ?thesis
    unfolding search_answer_def r' prod.case using ex s(1,3) by (intro conjI) auto
qed

lemma search_seq:
  assumes "wp m (search_answer fs ps s0) (\<lambda>_ _. True) c"
    and "\<And>s c'. wp (k s) (search_answer fs qs s) (\<lambda>_ _. True) c'"
  shows "wp (bnd m (\<lambda>(st, r, s). if st \<noteq> 0 then ret (st, r, s) else k s))
    (search_answer fs (ps @ qs) s0) (\<lambda>_ _. True) c"
  unfolding wp_bnd
proof (rule wp_mono [OF assms(1)])
  fix x c'
  assume x: "search_answer fs ps s0 x c'"
  obtain st r s where p: "x = (st, r, s)" by (cases x)
  show "wp (case x of (st, r, s) \<Rightarrow> if st \<noteq> 0 then ret (st, r, s) else k s)
      (search_answer fs (ps @ qs) s0) (\<lambda>_ _. True) c'"
  proof (cases "st = 0")
    case True
    with x p show ?thesis by (auto intro!: wp_mono [OF assms(2)] search_answer_next)
  next
    case False
    with x p show ?thesis by (simp add: wp_ret search_answer_stop)
  qed
qed simp

lemma try_candidate_answer:
  assumes "\<And>P E c. (\<And>sz c'. P (Some (p, sz)) c') \<Longrightarrow> (\<And>c'. alloc_failure_active c' \<Longrightarrow> P None c') \<Longrightarrow> wp join P E c"
  shows "wp (try_candidate fs join s0) (search_answer fs [p] s0) (\<lambda>_ _. True) c"
proof -
  have none: "search_answer fs [p] s0 (- 1, None, s0) c'" if "s0 = None \<longrightarrow> alloc_failure_active c'" for c'
    using that by (auto simp: search_answer_def intro: exI [of _ 0])
  have ans: "wp (try_resolve_module_candidate fs p s0) (search_answer fs [p] s0) (\<lambda>_ _. True) c'" for c'
  proof (cases s0)
    case None
    then show ?thesis
      unfolding try_resolve_module_candidate_def by (auto intro!: resolve_existing_answer)
  next
    case (Some a)
    then show ?thesis
      unfolding try_resolve_module_candidate_def Some option.case wp_bnd
      by (intro wp_push_copy)
        (use none Some in \<open>auto simp: wp_ret tried_def intro!: resolve_existing_answer\<close>)
  qed
  show ?thesis
    unfolding try_candidate_def wp_bnd
    by (rule assms)
      (auto simp: wp_simps free_cstr_def none intro!: wp_mono [OF ans] elim!: search_answer_flag [THEN iffD2, rotated])
qed

lemma under_base_answer:
  "wp (try_resolve_module_under_base fs b n s0) (search_answer fs (base_candidates n b) s0) (\<lambda>_ _. True) c"
proof -
  have 1: "wp (try_candidate fs (join_module_file_path b n) s0)
      (search_answer fs [joined_path b n ''.fex''] s0) (\<lambda>_ _. True) c" for s0 c
    by (rule try_candidate_answer) (simp add: join_module_file_path_def wp_join_path_suffix)
  have 2: "wp (try_candidate fs (join_module_index_path b n) s0)
      (search_answer fs [joined_path b n ''/index.fex''] s0) (\<lambda>_ _. True) c" for s0 c
    by (rule try_candidate_answer) (simp add: join_module_index_path_def wp_join_path_suffix)
  have bc: "base_candidates n b = [joined_path b n ''.fex''] @ [joined_path b n ''/index.fex'']"
    by (simp add: base_candidates_def)
  show ?thesis
    unfolding try_resolve_module_under_base_def bc by (rule search_seq [OF 1 2])
qed

lemma import_paths_loop_answer:
  "wp (import_paths_loop fs n k bs s0) (search_answer fs (concat (map (base_candidates n) bs)) s0)
    (\<lambda>_ _. True) c"
proof (induction bs arbitrary: k s0 c)
  case Nil
  then show ?case by (simp add: wp_ret search_answer_def)
next
  case (Cons b bs k s0 c)
  show ?case
    unfolding import_paths_loop.simps wp_bnd [of "check_io_abort k"] list.map concat.simps
    by (rule wpI) (simp_all add: search_seq [OF under_base_answer Cons.IH])
qed

lemma search_answer_empty: "search_answer fs [] s0 (0, None, s0) c"
  by (simp add: search_answer_def)

lemma resolve_search_answer:
  "wp (resolve_search fs n s0) (search_answer fs (search_candidates c n) s0) (\<lambda>_ _. True) c"
proof -
  let ?dirs = "map fst (arr_items (source_dirs c))"
  let ?paths = "map fst (arr_items (import_paths c))"
  let ?d = "if ?dirs \<noteq> [] then base_candidates n (last ?dirs) else []"
  have c: "search_candidates c n =
      (?d @ concat (map (base_candidates n) ?paths)) @ base_candidates n ''.''"
    by (simp add: search_candidates_def search_bases_def Let_def)
  have d: "wp (if ?dirs \<noteq> [] then try_resolve_module_under_base fs (last ?dirs) n s0
          else ret (0, None, s0)) (search_answer fs ?d s0) (\<lambda>_ _. True) c"
    using under_base_answer by (auto simp: wp_ret search_answer_empty)
  show ?thesis
    unfolding resolve_search_def wp_bnd [of "gets _"] wp_gets c append_assoc
    by (intro search_seq d import_paths_loop_answer under_base_answer)
qed


text \<open>Two directories: the importer's, which has the package index, and a library directory.\<close>

definition files_example :: os_files where
  "files_example = \<lparr>file_readable = (\<lambda>p. p \<in> {''src/m/index.fex'', ''lib/m.fex''}),
     real_path = (\<lambda>p. Some (''/home/'' @ p)), file_bytes = (\<lambda>_. Some ''nil;'')\<rparr>"

definition search_example :: fe_Context where
  "search_example = (zeroed_context quiet_env 4096)
     \<lparr>source_dirs := \<lparr>arr_items = [(''src'', 4)], arr_capacity = 4\<rparr>,
      import_paths := \<lparr>arr_items = [(''lib'', 4)], arr_capacity = 4\<rparr>\<rparr>"


section \<open>The module cache as a finite map\<close>

definition cached :: "fe_Context \<Rightarrow> string \<Rightarrow> ptr option" where
  "cached c = map_of (zip (map fst (arr_items (loaded_modules c))) (loaded_module_values c))"

definition cache_ok :: "fe_Context \<Rightarrow> bool" where
  "cache_ok c \<longleftrightarrow> length (loaded_module_values c) = length (arr_items (loaded_modules c))"

lemma find_cstr_map_of:
  "find_cstr v i n xs c = (Inr r, c') \<Longrightarrow> length vs = length xs \<Longrightarrow>
   case r of None \<Rightarrow> map_of (zip (map fst xs) vs) v = None
   | Some j \<Rightarrow> i \<le> j \<and> j - i < length vs \<and> map_of (zip (map fst xs) vs) v = Some (vs ! (j - i))"
proof (induction xs arbitrary: i n c vs)
  case Nil
  then show ?case by (simp add: ret_def)
next
  case (Cons x xs)
  then obtain w ws where vs: "vs = w # ws" by (cases vs) auto
  from Cons.prems(1) obtain k c1 where step: "(if fst x = v then ret (Some i) else find_cstr v (Suc i) k xs) c1 = (Inr r, c')"
    by (auto elim!: bnd_InrE)
  show ?case
  proof (cases "fst x = v")
    case True
    with step vs show ?thesis by (auto simp: ret_def)
  next
    case False
    with step have "find_cstr v (Suc i) k xs c1 = (Inr r, c')" by simp
    from Cons.IH [OF this, of ws] Cons.prems(2) vs False show ?thesis
      by (auto split: option.splits simp: nth_Cons' Suc_diff_le)
  qed
qed

lemma cache_more: "limit_ctx.more c' = limit_ctx.more c \<Longrightarrow> cached c' = cached c \<and> cache_ok c' = cache_ok c"
  by (cases c; cases c') (simp add: cached_def cache_ok_def)

lemma find_cstr_more: "steps (fixes_field limit_ctx.more) (find_cstr v i n xs)"
  by (induction xs arbitrary: i n)
    (auto intro!: field_order.steps_intros check_io_abort_more)

lemma module_cache_get_result:
  assumes "cache_ok c" "module_cache_get path c = (Inr r, c')"
  shows "r = (case cached c path of Some v \<Rightarrow> v | None \<Rightarrow> Nil)"
proof -
  from assms(2) obtain i c1 where run: "find_cstr path 0 FE_IO_ABORT_CHECK_INTERVAL (arr_items (loaded_modules c)) c = (Inr i, c1)"
    and fin: "(case i of None \<Rightarrow> ret Nil
     | Some i \<Rightarrow> bnd (gets loaded_module_values) (\<lambda>vs.
         if i < length vs then ret (vs ! i) else throw Crash)) c1 = (Inr r, c')"
    unfolding module_cache_get_def module_cache_find_index_def
    by (auto elim!: bnd_InrE simp: gets_def)
  have "loaded_module_values c1 = loaded_module_values c"
    using stepsD [OF find_cstr_more run] by (cases c; cases c1) (simp add: fixes_field_def)
  moreover have "case i of None \<Rightarrow> cached c path = None
      | Some j \<Rightarrow> j < length (loaded_module_values c) \<and> cached c path = Some (loaded_module_values c ! j)"
    using find_cstr_map_of [OF run, of "loaded_module_values c"] assms(1)
    unfolding cached_def cache_ok_def by (simp split: option.splits)
  ultimately show ?thesis using fin
    by (auto simp: ret_def throw_def bnd_gets split: option.splits)
qed

lemma ensure_capacity_more:
  "steps (fixes_field limit_ctx.more) (ensure_string_array_capacity n a)"
  "steps (fixes_field limit_ctx.more) (ensure_object_array_capacity n k)"
proof -
  have "limit_ctx.more (snd (tracked_realloc p n c)) = limit_ctx.more c" for p n and c :: "'x limit_ctx_scheme"
    by (simp add: tracked_realloc_def tracked_alloc_def Let_def case_prod_beta sys_malloc_def alloc_failure_def
        memory_note_alloc_def memory_note_free_def tracked_free_def split: option.split)
  note m = this
  show "steps (fixes_field limit_ctx.more) (ensure_string_array_capacity n a)"
    "steps (fixes_field limit_ctx.more) (ensure_object_array_capacity n k)"
    unfolding ensure_string_array_capacity_def ensure_object_array_capacity_def Let_def
    by (intro field_order.steps_intros field_order.steps_lift_st; simp add: fixes_field_def m)+
qed

lemma ensure_string_array_items:
  "ensure_string_array_capacity n a c = (Inr (Some a'), c') \<Longrightarrow> arr_items a' = arr_items a"
  by (auto simp: ensure_string_array_capacity_def Let_def ret_def elim!: bnd_InrE split: if_splits option.splits)

text \<open>
  The module cache is a map from canonical paths to module values: after a successful insertion
  of a new path, a lookup gives the inserted value for that path, what it gave before for every
  other path, and nil for a path that was never cached; a failed insertion changes no entry.
\<close>

lemma module_cache_roundtrip:
  assumes "cache_ok c" and "cached c (fst path) = None"
    and "module_cache_push_owned path v c = (Inr ok, c1)"
    and "module_cache_get q c1 = (Inr r, c2)"
  shows "cache_ok c1 \<and>
    r = (if ok \<and> q = fst path then v else case cached c q of Some w \<Rightarrow> w | None \<Rightarrow> Nil)"
proof -
  let ?a = "loaded_modules c" and ?n = "Suc (length (arr_items (loaded_modules c)))"
  from assms(3) obtain o1 d where
    s1: "ensure_string_array_capacity ?n ?a c = (Inr o1, d)"
    and k: "(case o1 of None \<Rightarrow> ret False
     | Some a \<Rightarrow> sq (modify (\<lambda>c. c\<lparr>loaded_modules := a\<rparr>))
         (bnd (gets loaded_module_value_capacity) (\<lambda>cap.
          bnd (ensure_object_array_capacity ?n cap) (\<lambda>r. case r of
            None \<Rightarrow> ret False
          | Some cap \<Rightarrow> sq (modify (\<lambda>c. c\<lparr>loaded_module_value_capacity := cap,
                loaded_modules := a\<lparr>arr_items := arr_items a @ [path]\<rparr>,
                loaded_module_values := loaded_module_values c @ [v]\<rparr>))
              (ret True))))) d = (Inr ok, c1)"
    unfolding module_cache_push_owned_def Let_def by (auto elim!: bnd_InrE simp: gets_def)
  have d: "limit_ctx.more d = limit_ctx.more c"
    using stepsD [OF ensure_capacity_more(1) s1] by (simp add: fixes_field_def)
  have "cache_ok c1 \<and> cached c1 = (if ok then (cached c)(fst path \<mapsto> v) else cached c)"
  proof (cases o1)
    case None
    with k have "c1 = d" "\<not> ok" by (auto simp: ret_def)
    with cache_more [OF d] assms(1) show ?thesis by simp
  next
    case (Some a)
    have items: "arr_items a = arr_items ?a" using s1 Some ensure_string_array_items by blast
    let ?d = "d\<lparr>loaded_modules := a\<rparr>"
    define ins :: "nat option \<Rightarrow> bool fcomp" where "ins = (\<lambda>r. case r of None \<Rightarrow> ret False
          | Some cap \<Rightarrow> sq (modify (\<lambda>c. c\<lparr>loaded_module_value_capacity := cap,
                loaded_modules := a\<lparr>arr_items := arr_items a @ [path]\<rparr>,
                loaded_module_values := loaded_module_values c @ [v]\<rparr>))
              (ret True))"
    have "bnd (ensure_object_array_capacity ?n (loaded_module_value_capacity ?d)) ins ?d = (Inr ok, c1)"
      using k Some by (simp add: sq_modify bnd_gets ins_def)
    then obtain o2 e where
      s2: "ensure_object_array_capacity ?n (loaded_module_value_capacity ?d) ?d = (Inr o2, e)"
      and k2: "ins o2 e = (Inr ok, c1)" by (rule bnd_InrE)
    have e: "limit_ctx.more e = limit_ctx.more ?d"
      using stepsD [OF ensure_capacity_more(2) s2] by (simp add: fixes_field_def)
    have f: "loaded_module_values e = loaded_module_values c" "loaded_modules e = a"
      using d e by (cases c; cases d; cases e; simp)+
    show ?thesis
    proof (cases o2)
      case None
      with k2 have "c1 = e" "\<not> ok" by (auto simp: ret_def ins_def)
      with f items assms(1) show ?thesis by (simp add: cached_def cache_ok_def)
    next
      case (Some cap)
      with k2 have c1: "c1 = e\<lparr>loaded_module_value_capacity := cap,
          loaded_modules := a\<lparr>arr_items := arr_items a @ [path]\<rparr>,
          loaded_module_values := loaded_module_values e @ [v]\<rparr>" and ok
        by (auto simp: ret_def sq_modify ins_def)
      have "cached c1 = [fst path \<mapsto> v] ++ cached c"
        using assms(1) f items by (simp add: c1 cached_def cache_ok_def)
      moreover have "[p \<mapsto> v] ++ m = m(p \<mapsto> v)" if "m p = None" for p and m :: "string \<rightharpoonup> ptr"
        using that by (auto simp: map_add_def fun_eq_iff split: option.split)
      ultimately have "cached c1 = (cached c)(fst path \<mapsto> v)" using assms(2) by simp
      with assms(1,2) f items \<open>ok\<close> show ?thesis
        by (simp add: c1 cache_ok_def)
    qed
  qed
  with module_cache_get_result [OF _ assms(4)] show ?thesis by auto
qed

lemma module_cache_roundtrip_witness:
  "case module_cache_push_owned (''/m.fex'', 7) (Ref 3) (zeroed_context quiet_env 4096) of
     (Inr ok, c1) \<Rightarrow> ok \<and> fst (module_cache_get ''/m.fex'' c1) = Inr (Ref 3) | _ \<Rightarrow> False"
proof -
  let ?c = "zeroed_context quiet_env 4096"
  have ok: "cache_ok ?c" "cached ?c (fst (''/m.fex'', 7)) = None"
    by (simp_all add: cache_ok_def cached_def zeroed_context_def empty_array_def)
  have "fst (module_cache_push_owned (''/m.fex'', 7) (Ref 3) ?c) = Inr True" by code_simp
  then obtain c1 where p: "module_cache_push_owned (''/m.fex'', 7) (Ref 3) ?c = (Inr True, c1)"
    by (cases "module_cache_push_owned (''/m.fex'', 7) (Ref 3) ?c") auto
  have "case module_cache_push_owned (''/m.fex'', 7) (Ref 3) ?c of (_, c1) \<Rightarrow>
      (case module_cache_get ''/m.fex'' c1 of (Inr _, _) \<Rightarrow> True | _ \<Rightarrow> False)" by code_simp
  with p obtain r c2 where "module_cache_get ''/m.fex'' c1 = (Inr r, c2)"
    by (auto split: prod.splits sum.splits)
  with module_cache_roundtrip [OF ok p this] p show ?thesis by simp
qed

end
