(* ===== verification/Fe_Frame.thy ===== *)
theory Fe_Frame
  imports Fe_Path
begin

text \<open>
  What the operations on the heap leave alone when they return: the control state of the reader and
  the evaluator (look-ahead character, recursion depths, call list, step counter, the modules being loaded). An error resets
  part of it, so the relation is about returns only. The rules are collected in \<open>ctl_rules\<close>.
\<close>

section \<open>Relations along returns\<close>

definition oks :: "('s \<Rightarrow> 's \<Rightarrow> bool) \<Rightarrow> ('s, 'e, 'a) comp \<Rightarrow> bool" where
  "oks R m \<longleftrightarrow> (\<forall>s x s'. m s = (Inr x, s') \<longrightarrow> R s s')"

lemma oksD: "oks R m \<Longrightarrow> m s = (Inr x, s') \<Longrightarrow> R s s'"
  by (simp add: oks_def)

lemma steps_oks: "steps R m \<Longrightarrow> oks R m"
  by (simp add: oks_def stepsD)

lemma oks_throw: "oks R (throw e)"
  by (simp add: oks_def throw_def)

lemma oks_error: "oks R (fe_error msg)"
  by (simp add: oks_def fe_error_def)

lemma oks_memory_error: "oks R (memory_error msg)"
  by (simp add: oks_def memory_error_def fe_error_def)

context state_order
begin

lemma oks_ret: "oks R (ret x)"
  by (simp add: oks_def ret_def R_refl)

lemma oks_gets: "oks R (gets f)"
  by (simp add: oks_def gets_def R_refl)

lemma oks_bnd: "oks R m \<Longrightarrow> (\<And>x. oks R (f x)) \<Longrightarrow> oks R (bnd m f)"
  unfolding oks_def by (blast elim: bnd_InrE intro: R_trans)

lemma oks_sq: "oks R m \<Longrightarrow> oks R n \<Longrightarrow> oks R (sq m n)"
  unfolding sq_def by (rule oks_bnd)

lemma oks_modify: "(\<And>s. R s (f s)) \<Longrightarrow> oks R (modify f)"
  by (simp add: oks_def modify_def)

lemma oks_lift_st: "(\<And>s. R s (snd (f s))) \<Longrightarrow> oks R (lift_st f)"
  by (simp add: oks_def lift_st_def case_prod_beta Let_def)

lemmas oks_intros = oks_ret oks_throw oks_error oks_memory_error oks_gets oks_bnd oks_sq

end

section \<open>The control state\<close>

definition ctl ::
  "fe_Context \<Rightarrow> char \<times> ptr list \<times> (int \<times> int) \<times> (int \<times> int \<times> int \<times> cstr list) \<times> size_t \<times> size_t" where
  "ctl c = (nextchr c, calllist c, (current_read_depth c, max_read_depth c),
     (eval_depth c, current_eval_depth c, max_eval_depth c, arr_items (loading_modules c)), steps_executed c, step_limit c)"

abbreviation ctl_kept :: "'a fcomp \<Rightarrow> bool" where
  "ctl_kept m \<equiv> oks (fixes_field ctl) m"

named_theorems ctl_rules \<open>operations that keep the control state\<close>

lemmas [ctl_rules] = field_order.oks_intros

lemma ctl_modify [ctl_rules]: "(\<And>c. ctl (f c) = ctl c) \<Longrightarrow> ctl_kept (modify f)"
  by (rule field_order.oks_modify) (simp add: fixes_field_def)

lemma ctl_mem [simp]:
  "ctl (tracked_free p c) = ctl c" "ctl (snd (tracked_alloc n c)) = ctl c"
  "ctl (snd (tracked_realloc p n c)) = ctl c"
  by (simp_all add: ctl_def tracked_free_def tracked_alloc_def tracked_realloc_def Let_def case_prod_beta
      sys_malloc_def alloc_failure_def memory_note_alloc_def memory_note_free_def split: option.split)

lemma ctl_lift [ctl_rules]:
  "ctl_kept (lift_st (tracked_alloc n))" "ctl_kept (lift_st (tracked_realloc p n))"
  by (auto intro!: field_order.oks_lift_st simp: fixes_field_def)

lemma ctl_check_io_abort [ctl_rules]: "ctl_kept (check_io_abort n)"
proof -
  have "ctl c' = ctl c" if "poll_frame c c'" for c c'
    using that by (auto simp: poll_frame_def ctl_def)
  then show ?thesis by (auto simp: oks_def fixes_field_def dest: check_io_abort_Inr)
qed

lemma ctl_cells [ctl_rules]:
  "ctl_kept (cell p)" "ctl_kept (as_obj v)" "ctl_kept (car p)" "ctl_kept (cdr p)"
  "ctl_kept (upd_cell p f)" "ctl_kept (set_car p x)" "ctl_kept (set_cdr p x)" "ctl_kept (settype p t)"
  "ctl_kept (or_crash o')" "ctl_kept (FE_STR_LEN p)" "ctl_kept (str_head p)"
proof -
  show c: "ctl_kept (cell p)" "ctl_kept (upd_cell p f)" for p f
    by (auto simp: oks_def fixes_field_def cell_def upd_cell_def ctl_def split: ptr.splits if_splits)
  show a: "ctl_kept (as_obj v)" for v
    by (auto simp: as_obj_def intro!: ctl_rules split: val.split)
  show d: "ctl_kept (car p)" for p by (auto simp: car_def intro!: ctl_rules c a)
  show "ctl_kept (cdr p)" "ctl_kept (set_car p x)" "ctl_kept (set_cdr p x)" "ctl_kept (settype p t)"
    by (auto simp: cdr_def set_car_def set_cdr_def settype_def intro!: ctl_rules c a)
  show "ctl_kept (or_crash o')" by (auto simp: or_crash_def intro!: ctl_rules split: option.split)
  show "ctl_kept (FE_STR_LEN p)" "ctl_kept (str_head p)"
    by (auto simp: FE_STR_LEN_def str_head_def intro!: ctl_rules c d split: ptr.split val.split)
qed

lemma ctl_args [ctl_rules]:
  "ctl_kept (fe_nextarg a)" "ctl_kept (checktype p t)" "ctl_kept (checknum p)" "ctl_kept (fe_num_value p)"
  "ctl_kept (fe_car p)" "ctl_kept (fe_cdr p)" "ctl_kept (is_return_obj p)"
  "ctl_kept (fe_pushgc p)" "ctl_kept fe_savegc" "ctl_kept (fe_restoregc n)"
  unfolding fe_nextarg_def checktype_def checknum_def fe_num_value_def fe_car_def fe_cdr_def
    is_return_obj_def fe_pushgc_def fe_savegc_def fe_restoregc_def
  by (auto intro!: ctl_rules simp: ctl_def split: ptr.split val.split)

section \<open>Collection and construction\<close>

lemma ctl_slabs [ctl_rules]:
  "ctl_kept (slab_lookup off)" "ctl_kept (str_slab_free off)" "ctl_kept (str_free_chain off)"
proof -
  show a: "ctl_kept (slab_lookup off)" for off unfolding slab_lookup_def by (intro ctl_rules)
  show b: "ctl_kept (str_slab_free off)" for off
    unfolding str_slab_free_def by (auto intro!: ctl_rules a simp: ctl_def)
  have "ctl_kept (str_free_chain_loop n off)" for n off
    by (induction n arbitrary: off) (auto intro!: ctl_rules a b)
  then show "ctl_kept (str_free_chain off)" unfolding str_free_chain_def by (intro ctl_rules)
qed

lemma ctl_sweep [ctl_rules]: "ctl_kept (sweep is' live)"
proof -
  have f: "ctl_kept (free_map m)" for m
    unfolding free_map_def free_arrays_def by (intro ctl_rules ctl_mem)
  have r: "ctl_kept (release o')" for o'
    unfolding release_def by (auto intro!: ctl_rules f split: val.split option.split)
  have "ctl_kept (sweep_cell i live)" for i live
    unfolding sweep_cell_def by (auto intro!: ctl_rules r simp: ctl_def free_cell_at_def)
  then show ?thesis by (induction is' arbitrary: live) (auto intro!: ctl_rules)
qed

lemma ctl_mark_roots [ctl_rules]: "ctl_kept (mark_roots ps)"
proof (induction ps)
  case (Cons p ps)
  have "ctl_kept (mark_root p)"
    by (auto simp: oks_def fixes_field_def mark_root_def ctl_def split: option.splits sum.splits)
  with Cons show ?case by (auto intro!: ctl_rules)
qed (auto intro!: ctl_rules)

lemma ctl_set_state [ctl_rules]: "ctl_kept (set_state st)"
  unfolding set_state_def by (intro ctl_rules) (simp add: ctl_def)

lemma ctl_span_free [ctl_rules]: "ctl_kept (span_free b)" "ctl_kept (free_span e)" "ctl_kept (span_alloc n)"
  unfolding span_free_def free_span_def span_alloc_def
  by (auto intro!: ctl_rules split: option.split)

lemma ctl_span_prune [ctl_rules]: "ctl_kept fex_span_prune"
proof -
  have b: "ctl_kept (prune_bucket es)" for es by (induction es) (auto intro!: ctl_rules)
  have "ctl_kept (prune_buckets bs)" for bs by (induction bs) (auto intro!: ctl_rules b)
  then show ?thesis unfolding fex_span_prune_def by (auto intro!: ctl_rules split: option.split)
qed

lemma ctl_collectgarbage [ctl_rules]: "ctl_kept collectgarbage"
  unfolding collectgarbage_def by (intro ctl_rules) (simp add: ctl_def)

lemma ctl_object [ctl_rules]: "ctl_kept object"
  unfolding object_def by (auto intro!: ctl_rules simp: ctl_def)

lemma ctl_str_slab_alloc [ctl_rules]: "ctl_kept str_slab_alloc" "ctl_kept (upd_slab off f)"
  unfolding str_slab_alloc_def upd_slab_def by (auto intro!: ctl_rules simp: ctl_def)

lemma ctl_str_fill [ctl_rules]: "ctl_kept (str_fill src f n off b)"
proof (induction src f n off b rule: str_fill.induct)
  case (1 src f n off b)
  show ?case by (subst str_fill.simps) (auto simp: Let_def intro!: ctl_rules 1)
qed

lemma ctl_make [ctl_rules]:
  "ctl_kept (str_alloc src n f)" "ctl_kept (make_data_obj t src n f)"
  "ctl_kept (fe_string s)" "ctl_kept (fe_cons a d)" "ctl_kept (fe_number x)" "ctl_kept (fe_make_number x)"
  "ctl_kept (fe_cfunc fn)" "ctl_kept (fe_ptr h)"
proof -
  show a: "ctl_kept (str_alloc src n f)" for src n f
    unfolding str_alloc_def by (auto intro!: ctl_rules simp: ctl_def)
  show b: "ctl_kept (make_data_obj t src n f)" for t src n f
    unfolding make_data_obj_def by (intro ctl_rules a)
  show c: "ctl_kept (fe_number x)" "ctl_kept (fe_cons a d)" "ctl_kept (fe_cfunc fn)" "ctl_kept (fe_ptr h)"
    for x a d fn h
    unfolding fe_number_def fe_cons_def fe_cfunc_def fe_ptr_def by (intro ctl_rules)+
  show "ctl_kept (fe_string s)" "ctl_kept (fe_make_number x)"
    unfolding fe_string_def fe_make_number_def by (auto intro!: ctl_rules b c split: option.split)
qed

section \<open>Strings, symbols, lookup\<close>

lemma ctl_compare [ctl_rules]: "ctl_kept (equal a b)" "ctl_kept (streq p s)" "ctl_kept (fe_symbol_name_eq p s)"
proof -
  show s: "ctl_kept (streq p s)" for p s unfolding streq_def by (auto intro!: ctl_rules)
  show "ctl_kept (equal a b)"
    unfolding equal_def equal_slab_def by (auto intro!: ctl_rules split: prod.split)
  show "ctl_kept (fe_symbol_name_eq p s)" unfolding fe_symbol_name_eq_def by (auto intro!: ctl_rules s)
qed

lemma ctl_symbol [ctl_rules]: "ctl_kept (fe_symbol s)" "ctl_kept (fe_symbol_from_string_obj p)"
  "ctl_kept (symbol_name p)"
proof -
  show n: "ctl_kept (symbol_name p)" for p unfolding symbol_name_def by (auto intro!: ctl_rules)
  have f: "ctl_kept (find_symbol n s p k)" for n s p k
    by (induction n s p k rule: find_symbol.induct) (auto intro!: ctl_rules n)
  have g: "ctl_kept (find_symbol_obj n s p)" for n s p
    by (induction n s p rule: find_symbol_obj.induct) (auto intro!: ctl_rules n)
  have p: "ctl_kept (push_symbol m)" if "ctl_kept m" for m
    unfolding push_symbol_def by (auto intro!: ctl_rules that simp: ctl_def)
  show "ctl_kept (fe_symbol s)" unfolding fe_symbol_def by (auto intro!: ctl_rules f p split: option.split)
  show "ctl_kept (fe_symbol_from_string_obj q)" for q
    unfolding fe_symbol_from_string_obj_def by (auto intro!: ctl_rules g p split: option.split)
qed

lemma ctl_lookup [ctl_rules]: "ctl_kept (list_has l x)" "ctl_kept (getbound sy env)" "ctl_kept (fe_set sy v)"
  "ctl_kept (find_assoc_binding sy env)"
proof -
  have "ctl_kept (list_has_loop n l x)" for n l x
    by (induction n l x rule: list_has_loop.induct) (auto intro!: ctl_rules)
  then show "ctl_kept (list_has l x)" unfolding list_has_def by (intro ctl_rules)
  have f: "ctl_kept (find_binding n p sy)" for n p sy
    by (induction n p sy rule: find_binding.induct) (auto intro!: ctl_rules)
  show g: "ctl_kept (getbound sy env)" for sy env
    unfolding getbound_def is_frame_def by (auto intro!: ctl_rules f split: option.split)
  show "ctl_kept (fe_set sy v)" unfolding fe_set_def by (intro ctl_rules g)
  have "ctl_kept (find_assoc_loop n sy p)" for n sy p
    by (induction n sy p rule: find_assoc_loop.induct) (auto intro!: ctl_rules)
  then show "ctl_kept (find_assoc_binding sy env)"
    unfolding find_assoc_binding_def by (auto intro!: ctl_rules)
qed

section \<open>Maps and spans\<close>

lemma ctl_free_map [ctl_rules]: "ctl_kept (free_map m)" "ctl_kept (free_arrays n)"
  unfolding free_map_def free_arrays_def by (intro ctl_rules ctl_mem)+

lemma ctl_hash [ctl_rules]: "ctl_kept (hash_string_obj p)"
proof -
  have b: "ctl_kept (hash_bytes cs h k)" for cs h k
    by (induction cs arbitrary: h k) (auto intro!: ctl_rules)
  have "ctl_kept (hash_slabs ss off n h k)" for ss off n h k
  proof (induction ss off n h k rule: hash_slabs.induct)
    case (1 ss off n h k)
    show ?case by (subst hash_slabs.simps) (auto intro!: ctl_rules b 1 split: option.split prod.split)
  qed
  then show ?thesis unfolding hash_string_obj_def by (intro ctl_rules)
qed

lemma ctl_map_find_slot [ctl_rules]: "ctl_kept (map_find_slot m key)"
proof -
  have "ctl_kept (map_probe m key i n t k)" for m key i n t k
    by (induction m key i n t k rule: map_probe.induct)
      (auto simp: Let_def intro!: ctl_rules)
  then show ?thesis unfolding map_find_slot_def by (auto intro!: ctl_rules)
qed

lemma ctl_map_resize [ctl_rules]: "ctl_kept (map_ensure_capacity m)" "ctl_kept (map_alloc n)"
proof -
  show a: "ctl_kept (map_alloc n)" for n unfolding map_alloc_def by (auto intro!: ctl_rules)
  have r: "ctl_kept (map_rehash m is' k g)" for m is' k g
    by (induction is' arbitrary: k g) (auto intro!: ctl_rules split: option.split prod.split)
  show "ctl_kept (map_ensure_capacity m)"
    unfolding map_ensure_capacity_def Let_def map_resize_def
    by (auto intro!: ctl_rules a r split: option.split)
qed

lemma ctl_map_ops [ctl_rules]:
  "ctl_kept fe_map" "ctl_kept (fe_map_set p k v)" "ctl_kept (fe_map_get p k)" "ctl_kept (fe_map_has p k)"
  "ctl_kept (fe_map_delete p k)" "ctl_kept (fe_map_count p)" "ctl_kept (fe_map_keys p)"
proof -
  have n: "ctl_kept (normalize_map_key k)" "ctl_kept (mapdata p)" "ctl_kept (set_mapdata p m)" for k p m
    unfolding normalize_map_key_def mapdata_def set_mapdata_def
    by (auto intro!: ctl_rules split: val.split option.split)
  have l: "ctl_kept (map_keys_loop m p g is' c r)" for m p g is' c r
    by (induction is' arbitrary: c r) (auto intro!: ctl_rules)
  show "ctl_kept fe_map" "ctl_kept (fe_map_set p k v)" "ctl_kept (fe_map_get p k)" "ctl_kept (fe_map_has p k)"
    "ctl_kept (fe_map_delete p k)" "ctl_kept (fe_map_count p)" "ctl_kept (fe_map_keys p)"
    unfolding fe_map_def fe_map_set_def fe_map_get_def fe_map_has_def fe_map_delete_def fe_map_count_def
      fe_map_keys_def
    by (auto intro!: ctl_rules n l split: option.split prod.split)
qed

lemma ctl_record_span [ctl_rules]: "ctl_kept (fex_record_span p s a b c d t)"
proof -
  have c: "ctl_kept (copy_span_excerpt t)" "ctl_kept (intern_source_name st n)" for t st n
    unfolding copy_span_excerpt_def intern_source_name_def
    by (auto intro!: ctl_rules split: option.split)
  show ?thesis
    unfolding fex_record_span_def new_span_def link_span_def
    by (auto intro!: ctl_rules c split: option.split prod.split)
qed

end
