(* ===== verification/Fe_Read.thy ===== *)
theory Fe_Read
  imports Fe_Write Fe_Frame
begin

text \<open>
  Reading objects from text (\<^verbatim>\<open>fe.c\<close>, \<^verbatim>\<open>read_\<close> and \<^verbatim>\<open>fe_read\<close>, in the build with string slabs). The
  callback \<^verbatim>\<open>fn\<close> hands out the characters of an input one by one and \<open>NUL\<close> at its end; the model
  passes the rest of the input along. The recursion carries a fuel; the theorems show that the
  length of the input is enough.
\<close>

definition getchr :: "string \<Rightarrow> char \<times> string" where
  "getchr inp = (case inp of [] \<Rightarrow> (CHR 0x00, []) | c # cs \<Rightarrow> (c, cs))"

definition is_blank :: "char \<Rightarrow> bool" where
  "is_blank c \<longleftrightarrow> c \<in> {CHR '' '', CHR 0x0A, CHR 0x09, CHR 0x0D}"

text \<open>The characters of the string \<^verbatim>\<open>delimiter\<close>.\<close>

definition delimiter :: string where
  "delimiter = [CHR '' '', CHR 0x0A, CHR 0x09, CHR 0x0D, CHR ''('', CHR '')'', CHR '';'']"

text \<open>The results of \<^verbatim>\<open>read_\<close>: NULL, the static object \<^verbatim>\<open>rparen\<close>, an object.\<close>

datatype read_res = REof | RRparen | RObj ptr

fun read_skip :: "nat \<Rightarrow> char \<Rightarrow> string \<Rightarrow> (char \<times> string \<times> nat) fcomp" where
  "read_skip countdown chr inp =
     (if is_blank chr then
        bnd (check_io_abort countdown) (\<lambda>countdown.
          case inp of [] \<Rightarrow> ret (CHR 0x00, [], countdown) | c # cs \<Rightarrow> read_skip countdown c cs)
      else ret (chr, inp, countdown))"

fun read_comment :: "nat \<Rightarrow> char \<Rightarrow> string \<Rightarrow> string fcomp" where
  "read_comment countdown chr inp =
     (if chr \<noteq> CHR 0x00 \<and> chr \<noteq> CHR 0x0A then
        bnd (check_io_abort countdown) (\<lambda>countdown.
          case inp of [] \<Rightarrow> ret [] | c # cs \<Rightarrow> read_comment countdown c cs)
      else ret inp)"

declare read_skip.simps [simp del] read_comment.simps [simp del]

definition FE_MAX_LITERAL_SZ :: nat where "FE_MAX_LITERAL_SZ = 256"

definition unescape :: "char \<Rightarrow> char" where
  "unescape c = (if c = CHR ''n'' then CHR 0x0A else if c = CHR ''r'' then CHR 0x0D
     else if c = CHR ''t'' then CHR 0x09 else c)"

text \<open>The characters up to the closing quote; \<open>s_buf\<close> holds those read so far.\<close>

function read_string_chars :: "nat \<Rightarrow> string \<Rightarrow> string \<Rightarrow> (string \<times> string) fcomp" where
  "read_string_chars countdown s_buf inp =
     (let (chr, inp') = getchr inp in
      if chr = CHR 0x22 then ret (s_buf, inp')
      else bnd (check_io_abort countdown) (\<lambda>countdown.
        if chr = CHR 0x00 then fe_error ''unclosed string''
        else let (chr, inp') = (if chr = CHR 0x5C
                                then (case getchr inp' of (c, i) \<Rightarrow> (unescape c, i)) else (chr, inp'))
             in if length s_buf \<ge> FE_MAX_LITERAL_SZ - 1 then fe_error ''string literal too long''
                else read_string_chars countdown (s_buf @ [chr]) inp'))"
  by pat_completeness auto
termination
  by (relation "measure (\<lambda>(k, b, inp). length inp)")
    (auto simp: getchr_def split: list.splits if_splits)

declare read_string_chars.simps [simp del]

text \<open>The characters of a number or symbol. \<open>chr\<close> has been read and belongs to it.\<close>

fun read_token :: "nat \<Rightarrow> string \<Rightarrow> char \<Rightarrow> string \<Rightarrow> (string \<times> char \<times> string) fcomp" where
  "read_token countdown buf chr inp =
     bnd (check_io_abort countdown) (\<lambda>countdown.
       if length buf = 63 then fe_error ''symbol too long''
       else case inp of
         [] \<Rightarrow> ret (buf @ [chr], CHR 0x00, [])
       | c # cs \<Rightarrow> if c \<noteq> CHR 0x00 \<and> c \<notin> set delimiter
                   then read_token countdown (buf @ [chr]) c cs
                   else ret (buf @ [chr], c, cs))"

declare read_token.simps [simp del]

text \<open>\<^verbatim>\<open>strchr(delimiter, *p)\<close> also finds the terminating NUL.\<close>

definition token_object :: "string \<Rightarrow> ptr fcomp" where
  "token_object buf =
     (let (n, used) = strtod buf in
      if used \<noteq> 0 \<and> (used \<ge> length buf \<or> buf ! used \<in> set delimiter) then fe_make_number n
      else if buf = ''nil'' then ret Nil
      else if buf = ''true'' then ret (Boolean True)
      else if buf = ''false'' then ret (Boolean False)
      else fe_symbol buf)"

type_synonym reader = "string \<Rightarrow> (read_res \<times> string) fcomp"

text \<open>\<^verbatim>\<open>fe_read\<close> for a given \<^verbatim>\<open>read_\<close>; \<open>None\<close> is NULL.\<close>

definition fe_read_of :: "reader \<Rightarrow> string \<Rightarrow> (ptr option \<times> string) fcomp" where
  "fe_read_of rd inp = bnd (rd inp) (\<lambda>(r, inp). case r of
      RRparen \<Rightarrow> fe_error (''stray '' @ [CHR 0x27] @ '')'' @ [CHR 0x27])
    | REof \<Rightarrow> ret (None, inp)
    | RObj v \<Rightarrow> ret (Some v, inp))"

text \<open>\<^verbatim>\<open>*tail = v\<close>, where \<^verbatim>\<open>tail\<close> is \<^verbatim>\<open>&res\<close> or the cdr of the last cell; the new value of \<^verbatim>\<open>res\<close>.\<close>

definition set_tail :: "ptr option \<Rightarrow> ptr \<Rightarrow> ptr \<Rightarrow> ptr fcomp" where
  "set_tail lst res v = (case lst of None \<Rightarrow> ret v | Some x \<Rightarrow> sq (set_cdr x v) (ret res))"

text \<open>
  The loop over the elements of a list. When the input ends right after a dot, \<^verbatim>\<open>*tail\<close> becomes NULL and
  the next turn of the loop finds the end of the input.
\<close>

definition read_place ::
  "reader \<Rightarrow> ptr \<Rightarrow> ptr option \<Rightarrow> nat \<Rightarrow> ptr \<Rightarrow> string \<Rightarrow> (ptr \<times> ptr option \<times> string) fcomp" where
  "read_place rd res lst countdown v inp =
     bnd (fe_symbol_name_eq v ''.'') (\<lambda>dot.
       if dot then
         bnd (fe_read_of rd inp) (\<lambda>(r, inp). case r of
           Some d \<Rightarrow> bnd (set_tail lst res d) (\<lambda>res. ret (res, lst, inp))
         | None \<Rightarrow> bnd (rd inp) (\<lambda>(r, inp).
             if r = REof then bnd (check_io_abort countdown) (\<lambda>_. fe_error ''unclosed list'')
             else throw Crash))
       else
         bnd (fe_cons v Nil) (\<lambda>cell. bnd (set_tail lst res cell) (\<lambda>res. ret (res, Some cell, inp))))"

definition read_item ::
  "reader \<Rightarrow> nat \<Rightarrow> ptr \<Rightarrow> ptr option \<Rightarrow> nat \<Rightarrow> ptr \<Rightarrow> string \<Rightarrow> (ptr \<times> ptr option \<times> string) fcomp" where
  "read_item rd gc res lst countdown v inp =
     bnd (read_place rd res lst countdown v inp) (\<lambda>(res, lst, inp).
       sq (fe_restoregc gc) (sq (fe_pushgc res) (ret (res, lst, inp))))"

text \<open>The error \<open>stop\<close> of exhausted fuel is a parameter: a theorem below shows that it never occurs.\<close>

primrec read_items ::
  "fe_err \<Rightarrow> nat \<Rightarrow> reader \<Rightarrow> nat \<Rightarrow> ptr \<Rightarrow> ptr option \<Rightarrow> nat \<Rightarrow> string \<Rightarrow> (ptr \<times> string) fcomp" where
  "read_items stop 0 rd gc res lst countdown inp = throw stop"
| "read_items stop (Suc m) rd gc res lst countdown inp =
     bnd (rd inp) (\<lambda>(r, inp).
       if r = RRparen then ret (res, inp)
       else bnd (check_io_abort countdown) (\<lambda>countdown. case r of
         RObj v \<Rightarrow> bnd (read_item rd gc res lst countdown v inp) (\<lambda>(res, lst, inp).
           read_items stop m rd gc res lst countdown inp)
       | _ \<Rightarrow> fe_error ''unclosed list''))"

definition enter_read_depth :: "unit fcomp" where
  "enter_read_depth =
     bnd (gets (\<lambda>c. max_read_depth c > 0 \<and> current_read_depth c \<ge> max_read_depth c)) (\<lambda>deep.
       if deep then fe_error ''read nesting depth limit exceeded''
       else modify (\<lambda>c. c\<lparr>current_read_depth := current_read_depth c + 1\<rparr>))"

definition leave_read_depth :: "unit fcomp" where
  "leave_read_depth = modify (\<lambda>c. c\<lparr>current_read_depth := current_read_depth c - 1\<rparr>)"

definition read_list :: "fe_err \<Rightarrow> nat \<Rightarrow> reader \<Rightarrow> nat \<Rightarrow> string \<Rightarrow> (ptr \<times> string) fcomp" where
  "read_list stop m rd countdown inp =
     sq enter_read_depth
     (bnd fe_savegc (\<lambda>gc. sq (fe_pushgc Nil)
       (bnd (read_items stop m rd gc Nil None countdown inp) (\<lambda>(res, inp).
         sq leave_read_depth (ret (res, inp))))))"

definition read_quote :: "reader \<Rightarrow> string \<Rightarrow> (ptr \<times> string) fcomp" where
  "read_quote rd inp =
     sq enter_read_depth
     (bnd (fe_read_of rd inp) (\<lambda>(v, inp). case v of
        None \<Rightarrow> fe_error (''stray '' @ [CHR 0x27, CHR 0x27, CHR 0x27])
      | Some v \<Rightarrow> sq leave_read_depth
          (bnd (fe_symbol ''quote'') (\<lambda>q. bnd (fe_cons v Nil) (\<lambda>d. bnd (fe_cons q d) (\<lambda>r.
            ret (r, inp)))))))"

definition ret_obj :: "(ptr \<times> string) fcomp \<Rightarrow> (read_res \<times> string) fcomp" where
  "ret_obj m = bnd m (\<lambda>(v, inp). ret (RObj v, inp))"

definition read_start :: "string \<Rightarrow> (char \<times> string \<times> nat) fcomp" where
  "read_start inp =
     bnd (gets nextchr) (\<lambda>nc.
     let (chr, inp) = (if nc \<noteq> CHR 0x00 then (nc, inp) else getchr inp) in
     sq (modify (\<lambda>c. c\<lparr>nextchr := CHR 0x00\<rparr>))
       (read_skip FE_IO_ABORT_CHECK_INTERVAL chr inp))"

definition read_atom :: "nat \<Rightarrow> char \<Rightarrow> string \<Rightarrow> (ptr \<times> string) fcomp" where
  "read_atom countdown chr inp =
     bnd (read_token countdown [] chr inp) (\<lambda>(buf, chr, inp).
       sq (modify (\<lambda>c. c\<lparr>nextchr := chr\<rparr>))
         (bnd (token_object buf) (\<lambda>v. ret (v, inp))))"

definition read_string :: "nat \<Rightarrow> string \<Rightarrow> (ptr \<times> string) fcomp" where
  "read_string countdown inp =
     bnd (read_string_chars countdown [] inp) (\<lambda>(s, inp).
       bnd (make_data_obj FE_TSTRING (Some s) (length s) (CHR 0x00)) (\<lambda>v. ret (v, inp)))"

definition read_form :: "fe_err \<Rightarrow> nat \<Rightarrow> reader \<Rightarrow> char \<Rightarrow> nat \<Rightarrow> reader" where
  "read_form stop n rd chr countdown inp =
     (if chr = CHR 0x00 then ret (REof, inp)
      else if chr = CHR '';'' then bnd (read_comment countdown chr inp) rd
      else if chr = CHR '')'' then ret (RRparen, inp)
      else if chr = CHR ''('' then ret_obj (read_list stop n rd countdown inp)
      else if chr = CHR 0x27 then ret_obj (read_quote rd inp)
      else if chr = CHR 0x22 then ret_obj (read_string countdown inp)
      else ret_obj (read_atom countdown chr inp))"

primrec read_rec :: "fe_err \<Rightarrow> nat \<Rightarrow> reader" where
  "read_rec stop 0 inp = throw stop"
| "read_rec stop (Suc n) inp =
     bnd (read_start inp) (\<lambda>(chr, inp, countdown).
       read_form stop n (read_rec stop n) chr countdown inp)"

definition read_obj :: "nat \<Rightarrow> reader" where
  "read_obj = read_rec OutOfFuel"

definition fe_read :: "nat \<Rightarrow> string \<Rightarrow> (ptr option \<times> string) fcomp" where
  "fe_read n inp = fe_read_of (read_obj n) inp"

section \<open>Termination\<close>

text \<open>The characters still to come, the look-ahead character included.\<close>

definition avail :: "fe_Context \<Rightarrow> string \<Rightarrow> nat" where
  "avail c inp = length inp + (if nextchr c \<noteq> CHR 0x00 then 1 else 0)"

lemma read_skip_shorter:
  "read_skip k chr inp c = (Inr (chr', inp', k'), c') \<Longrightarrow>
   ctl c' = ctl c \<and> length inp' \<le> length inp \<and> (chr' = CHR 0x00 \<or> \<not> is_blank chr')"
proof (induction k chr inp arbitrary: c rule: read_skip.induct)
  case (1 k chr inp)
  show ?case
  proof (cases "is_blank chr")
    case False
    with 1(2) show ?thesis by (subst (asm) read_skip.simps) (auto simp: ret_def)
  next
    case True
    with 1(2) obtain k1 c1 where p: "check_io_abort k c = (Inr k1, c1)"
      and r: "(case inp of [] \<Rightarrow> ret (CHR 0x00, [], k1) | x # xs \<Rightarrow> read_skip k1 x xs) c1 = (Inr (chr', inp', k'), c')"
      by (subst (asm) read_skip.simps) (auto elim!: bnd_InrE)
    have "ctl c1 = ctl c" using oksD [OF ctl_check_io_abort p] by (simp add: fixes_field_def)
    with r 1(1) [OF True] show ?thesis by (cases inp) (fastforce simp: ret_def)+
  qed
qed

lemma read_comment_shorter:
  "read_comment k chr inp c = (Inr inp', c') \<Longrightarrow> ctl c' = ctl c \<and> length inp' \<le> length inp"
proof (induction k chr inp arbitrary: c rule: read_comment.induct)
  case (1 k chr inp)
  show ?case
  proof (cases "chr \<noteq> CHR 0x00 \<and> chr \<noteq> CHR 0x0A")
    case False
    with 1(2) show ?thesis by (subst (asm) read_comment.simps) (auto simp: ret_def)
  next
    case True
    with 1(2) obtain k1 c1 where p: "check_io_abort k c = (Inr k1, c1)"
      and r: "(case inp of [] \<Rightarrow> ret [] | x # xs \<Rightarrow> read_comment k1 x xs) c1 = (Inr inp', c')"
      by (subst (asm) read_comment.simps) (auto elim!: bnd_InrE)
    have "ctl c1 = ctl c" using oksD [OF ctl_check_io_abort p] by (simp add: fixes_field_def)
    with r 1(1) [OF True] show ?thesis by (cases inp) (fastforce simp: ret_def)+
  qed
qed

lemma read_string_chars_shorter:
  "read_string_chars k b inp c = (Inr (s, inp'), c') \<Longrightarrow> ctl c' = ctl c \<and> length inp' \<le> length inp"
proof (induction k b inp arbitrary: c rule: read_string_chars.induct)
  case (1 k b inp)
  obtain chr i1 where g: "getchr inp = (chr, i1)" by (cases "getchr inp")
  have le: "length i1 \<le> length inp" using g by (auto simp: getchr_def split: list.splits)
  show ?case
  proof (cases "chr = CHR 0x22")
    case True
    with g 1(2) le show ?thesis by (subst (asm) read_string_chars.simps) (auto simp: ret_def)
  next
    case False
    define p where "p = (if chr = CHR 0x5C then (case getchr i1 of (x, i) \<Rightarrow> (unescape x, i)) else (chr, i1))"
    have le2: "length (snd p) \<le> length i1"
      by (auto simp: p_def getchr_def split: list.splits prod.splits)
    note run = 1(2) [unfolded read_string_chars.simps [of k b inp] g Let_def prod.case, folded p_def]
    from run False obtain k1 c1 where poll: "check_io_abort k c = (Inr k1, c1)"
      and r: "(if chr = CHR 0x00 then fe_error ''unclosed string''
        else case p of (x, i) \<Rightarrow> if length b \<ge> FE_MAX_LITERAL_SZ - 1 then fe_error ''string literal too long''
                else read_string_chars k1 (b @ [x]) i) c1 = (Inr (s, inp'), c')"
      by (auto elim!: bnd_InrE)
    have c1: "ctl c1 = ctl c" using oksD [OF ctl_check_io_abort poll] by (simp add: fixes_field_def)
    obtain x i where xi: "p = (x, i)" by (cases p)
    from r xi have nz: "chr \<noteq> CHR 0x00" "\<not> length b \<ge> FE_MAX_LITERAL_SZ - 1"
      and rec: "read_string_chars k1 (b @ [x]) i c1 = (Inr (s, inp'), c')"
      by (auto simp: fe_error_def split: if_splits)
    from 1(1) [OF refl g [symmetric] False nz(1) refl xi [symmetric, unfolded p_def] nz(2) rec]
    show ?thesis using c1 le le2 xi by simp
  qed
qed

lemma read_token_shorter:
  "read_token k b chr inp c = (Inr (buf, x, inp'), c') \<Longrightarrow>
   ctl c' = ctl c \<and> (length inp' < length inp \<or> x = CHR 0x00 \<and> inp' = [])"
proof (induction k b chr inp arbitrary: c rule: read_token.induct)
  case (1 k b chr inp)
  from 1(2) obtain k1 c1 where p: "check_io_abort k c = (Inr k1, c1)"
    and r: "(if length b = 63 then fe_error ''symbol too long''
       else case inp of
         [] \<Rightarrow> ret (b @ [chr], CHR 0x00, [])
       | y # ys \<Rightarrow> if y \<noteq> CHR 0x00 \<and> y \<notin> set delimiter
                   then read_token k1 (b @ [chr]) y ys
                   else ret (b @ [chr], y, ys)) c1 = (Inr (buf, x, inp'), c')"
    by (auto simp: read_token.simps [of k b chr inp] elim!: bnd_InrE)
  have c1: "ctl c1 = ctl c" using oksD [OF ctl_check_io_abort p] by (simp add: fixes_field_def)
  show ?case
  proof (cases inp)
    case Nil
    with r c1 show ?thesis by (auto simp: ret_def fe_error_def split: if_splits)
  next
    case (Cons y ys)
    with r c1 1(1) show ?thesis
      by (fastforce simp: ret_def fe_error_def split: if_splits)
  qed
qed

text \<open>
  A reader consumes: it never gives characters back beyond the look-ahead, reads at least one when it
  returns something, and keeps the rest of the control state, the nesting depth included.
\<close>

definition eaten :: "bool \<Rightarrow> fe_Context \<Rightarrow> string \<Rightarrow> fe_Context \<Rightarrow> string \<Rightarrow> bool" where
  "eaten some c inp c' inp' \<longleftrightarrow> snd (ctl c') = snd (ctl c) \<and> avail c' inp' \<le> avail c inp \<and>
     (some \<longrightarrow> avail c' inp' < avail c inp)"

definition consumes :: "reader \<Rightarrow> bool" where
  "consumes rd \<longleftrightarrow> (\<forall>inp c r inp' c'. rd inp c = (Inr (r, inp'), c') \<longrightarrow> eaten (r \<noteq> REof) c inp c' inp')"

lemma eaten_trans: "eaten a c i d j \<Longrightarrow> eaten b d j e k \<Longrightarrow> eaten (a \<or> b) c i e k"
  by (auto simp: eaten_def)

lemma eaten_weak: "eaten a c i d j \<Longrightarrow> eaten False c i d j"
  by (simp add: eaten_def)

lemma eaten_ctl: "ctl_kept m \<Longrightarrow> m c = (Inr x, c') \<Longrightarrow> eaten False c i c' i"
  by (auto dest!: oksD simp: eaten_def fixes_field_def avail_def ctl_def)

lemma eaten_ctl_eq: "ctl c' = ctl c \<Longrightarrow> length inp' \<le> length inp \<Longrightarrow> eaten False c inp c' inp'"
  by (auto simp: eaten_def avail_def ctl_def)

lemma consumesD: "consumes rd \<Longrightarrow> rd inp c = (Inr (r, inp'), c') \<Longrightarrow> eaten (r \<noteq> REof) c inp c' inp'"
  unfolding consumes_def by blast

lemma fe_read_of_eaten:
  assumes rd: "consumes rd" and run: "fe_read_of rd inp c = (Inr (v, inp'), c')"
  shows "eaten False c inp c' inp'"
proof -
  from run obtain r where "rd inp c = (Inr (r, inp'), c')"
    unfolding fe_read_of_def
    by (auto elim!: bnd_InrE simp: ret_def fe_error_def split: read_res.splits)
  then show ?thesis using consumesD [OF rd] eaten_weak by blast
qed

lemma ctl_set_tail [ctl_rules]: "ctl_kept (set_tail l r v)"
  unfolding set_tail_def by (auto intro!: ctl_rules split: option.split)

lemma read_place_eaten:
  assumes rd: "consumes rd" and run: "read_place rd res lst k v inp c = (Inr (res', lst', inp'), c')"
  shows "eaten False c inp c' inp'"
proof -
  define cont where "cont = (\<lambda>dot. if dot then
         bnd (fe_read_of rd inp) (\<lambda>(r, inp). case r of
           Some d \<Rightarrow> bnd (set_tail lst res d) (\<lambda>res. ret (res, lst, inp))
         | None \<Rightarrow> bnd (rd inp) (\<lambda>(r, inp).
             if r = REof then bnd (check_io_abort k) (\<lambda>_. fe_error ''unclosed list'')
             else throw Crash))
       else
         bnd (fe_cons v Nil) (\<lambda>cell. bnd (set_tail lst res cell) (\<lambda>res. ret (res, Some cell, inp))))"
  from run have "bnd (fe_symbol_name_eq v ''.'') cont c = (Inr (res', lst', inp'), c')"
    unfolding read_place_def cont_def .
  then obtain dot c2 where d: "fe_symbol_name_eq v ''.'' c = (Inr dot, c2)"
    and e: "cont dot c2 = (Inr (res', lst', inp'), c')" by (rule bnd_InrE)
  have "eaten False c inp c2 inp" by (rule eaten_ctl [OF ctl_compare(3) d])
  moreover have "eaten False c2 inp c' inp'"
  proof (cases dot)
    case True
    with e obtain o1 i2 c3 where r: "fe_read_of rd inp c2 = (Inr (o1, i2), c3)"
      and f: "(case o1 of
           Some d \<Rightarrow> bnd (set_tail lst res d) (\<lambda>res. ret (res, lst, i2))
         | None \<Rightarrow> bnd (rd i2) (\<lambda>(r, inp).
             if r = REof then bnd (check_io_abort k) (\<lambda>_. fe_error ''unclosed list'')
             else throw Crash)) c3 = (Inr (res', lst', inp'), c')"
      unfolding cont_def by (auto elim!: bnd_InrE)
    from f obtain d where o1: "o1 = Some d"
      by (cases o1) (auto elim!: bnd_InrE simp: fe_error_def throw_def split: if_splits)
    with f have g: "bnd (set_tail lst res d) (\<lambda>res. ret (res, lst, i2)) c3 = (Inr (res', lst', inp'), c')" by simp
    have "ctl_kept (bnd (set_tail lst res d) (\<lambda>res. ret (res, lst, i2)))" by (intro ctl_rules)
    from eaten_ctl [OF this g] have "eaten False c3 i2 c' i2" .
    moreover have "inp' = i2" using g by (auto simp: ret_def elim!: bnd_InrE)
    ultimately show ?thesis using eaten_trans [OF fe_read_of_eaten [OF rd r]] by auto
  next
    case False
    with e have g: "bnd (fe_cons v Nil) (\<lambda>cell. bnd (set_tail lst res cell) (\<lambda>res. ret (res, Some cell, inp))) c2 =
       (Inr (res', lst', inp'), c')" unfolding cont_def by simp
    have "ctl_kept (bnd (fe_cons v Nil) (\<lambda>cell. bnd (set_tail lst res cell) (\<lambda>res. ret (res, Some cell, inp))))"
      by (intro ctl_rules)
    from eaten_ctl [OF this g] have "eaten False c2 inp c' inp" .
    moreover have "inp' = inp" using g by (auto simp: ret_def elim!: bnd_InrE)
    ultimately show ?thesis by simp
  qed
  ultimately show ?thesis using eaten_trans by fastforce
qed

lemma read_item_eaten:
  assumes rd: "consumes rd" and run: "read_item rd gc res lst k v inp c = (Inr (res', lst', inp'), c')"
  shows "eaten False c inp c' inp'"
proof -
  from run obtain p c1 where a: "read_place rd res lst k v inp c = (Inr p, c1)"
    and b: "(case p of (res, lst, inp) \<Rightarrow> sq (fe_restoregc gc) (sq (fe_pushgc res) (ret (res, lst, inp)))) c1
      = (Inr (res', lst', inp'), c')"
    unfolding read_item_def by (rule bnd_InrE)
  obtain r1 l1 i1 where p: "p = (r1, l1, i1)" by (cases p)
  have "ctl_kept (sq (fe_restoregc gc) (sq (fe_pushgc r1) (ret (r1, l1, i1))))" by (intro ctl_rules)
  from eaten_ctl [OF this] b p have "eaten False c1 i1 c' i1" by simp
  moreover have "inp' = i1" using b p by (auto simp: ret_def elim!: sq_InrE)
  ultimately show ?thesis using eaten_trans [OF read_place_eaten [OF rd a [unfolded p]]] by auto
qed

lemma read_items_eaten:
  assumes rd: "consumes rd"
  shows "read_items stop m rd gc res lst k inp c = (Inr (v, inp'), c') \<Longrightarrow> eaten True c inp c' inp'"
proof (induction m arbitrary: res lst k inp c)
  case (Suc m)
  from Suc.prems obtain r i1 c1 where a: "rd inp c = (Inr (r, i1), c1)"
    and b: "(if r = RRparen then ret (res, i1)
       else bnd (check_io_abort k) (\<lambda>countdown. case r of
         RObj v \<Rightarrow> bnd (read_item rd gc res lst countdown v i1) (\<lambda>(res, lst, inp).
           read_items stop m rd gc res lst countdown inp)
       | _ \<Rightarrow> fe_error ''unclosed list'')) c1 = (Inr (v, inp'), c')"
    by (auto elim!: bnd_InrE)
  have e1: "eaten (r \<noteq> REof) c inp c1 i1" using rd a unfolding consumes_def by blast
  show ?case
  proof (cases r)
    case RRparen
    with b e1 show ?thesis by (simp add: ret_def)
  next
    case REof
    with b show ?thesis by (auto elim!: bnd_InrE simp: fe_error_def)
  next
    case (RObj w)
    with b obtain k2 c2 r3 l3 i3 c3 where p: "check_io_abort k c1 = (Inr k2, c2)"
      and q: "read_item rd gc res lst k2 w i1 c2 = (Inr (r3, l3, i3), c3)"
      and t: "read_items stop m rd gc r3 l3 k2 i3 c3 = (Inr (v, inp'), c')"
      by (auto elim!: bnd_InrE)
    have "eaten True c inp c1 i1" using e1 RObj by simp
    from eaten_trans [OF eaten_trans [OF eaten_trans [OF this eaten_ctl [OF ctl_check_io_abort p]] read_item_eaten [OF rd q]] Suc.IH [OF t]]
    show ?thesis by simp
  qed
qed (simp add: throw_def)

lemma enter_leave_depth:
  "enter_read_depth c = (Inr u, c1) \<Longrightarrow> c1 = c\<lparr>current_read_depth := current_read_depth c + 1\<rparr>"
  "leave_read_depth c = (Inr u, c2) \<Longrightarrow> c2 = c\<lparr>current_read_depth := current_read_depth c - 1\<rparr>"
  by (auto simp: enter_read_depth_def leave_read_depth_def modify_def gets_def fe_error_def
      elim!: bnd_InrE split: if_splits)

text \<open>Entering a level before and leaving it after a consuming computation.\<close>

lemma eaten_nested:
  assumes "eaten b (c\<lparr>current_read_depth := current_read_depth c + 1\<rparr>) i d j"
  shows "eaten b c i (d\<lparr>current_read_depth := current_read_depth d - 1\<rparr>) j"
  using assms by (auto simp: eaten_def avail_def ctl_def)

lemma read_list_eaten:
  assumes rd: "consumes rd" and run: "read_list stop m rd k inp c = (Inr (v, inp'), c')"
  shows "eaten True c inp c' inp'"
proof -
  from run obtain u c1 where a: "enter_read_depth c = (Inr u, c1)"
    and r1: "bnd fe_savegc (\<lambda>gc. sq (fe_pushgc Nil)
       (bnd (read_items stop m rd gc Nil None k inp) (\<lambda>(res, inp).
         sq leave_read_depth (ret (res, inp))))) c1 = (Inr (v, inp'), c')"
    unfolding read_list_def by (auto elim!: sq_InrE)
  from r1 obtain gc where r2: "sq (fe_pushgc Nil)
       (bnd (read_items stop m rd gc Nil None k inp) (\<lambda>(res, inp).
         sq leave_read_depth (ret (res, inp)))) c1 = (Inr (v, inp'), c')"
    by (rule bnd_InrE) (auto simp: fe_savegc_def gets_def)
  from r2 obtain w c2 where p: "fe_pushgc Nil c1 = (Inr w, c2)"
    and r3: "bnd (read_items stop m rd gc Nil None k inp) (\<lambda>(res, inp).
         sq leave_read_depth (ret (res, inp))) c2 = (Inr (v, inp'), c')"
    by (rule sq_InrE)
  from r3 obtain c3 c4 where i: "read_items stop m rd gc Nil None k inp c2 = (Inr (v, inp'), c3)"
    and l: "leave_read_depth c3 = (Inr (), c4)" and "c4 = c'"
    by (auto elim!: bnd_InrE sq_InrE simp: ret_def)
  have "ctl_kept (fe_pushgc Nil)" by (intro ctl_rules)
  from eaten_trans [OF eaten_ctl [OF this p] read_items_eaten [OF rd i]]
  have "eaten True c1 inp c3 inp'" by simp
  with eaten_nested enter_leave_depth(1) [OF a] enter_leave_depth(2) [OF l] \<open>c4 = c'\<close>
  show ?thesis by simp
qed

lemma read_quote_eaten:
  assumes rd: "consumes rd" and run: "read_quote rd inp c = (Inr (v, inp'), c')"
  shows "eaten False c inp c' inp'"
proof -
  from run obtain u c1 where a: "enter_read_depth c = (Inr u, c1)"
    and r1: "bnd (fe_read_of rd inp) (\<lambda>(v, inp). case v of
        None \<Rightarrow> fe_error (''stray '' @ [CHR 0x27, CHR 0x27, CHR 0x27])
      | Some v \<Rightarrow> sq leave_read_depth
          (bnd (fe_symbol ''quote'') (\<lambda>q. bnd (fe_cons v Nil) (\<lambda>d. bnd (fe_cons q d) (\<lambda>r.
            ret (r, inp)))))) c1 = (Inr (v, inp'), c')"
    unfolding read_quote_def by (auto elim!: sq_InrE)
  from r1 obtain p c2 where f: "fe_read_of rd inp c1 = (Inr p, c2)"
    and r2: "(case p of (v, inp) \<Rightarrow> case v of
        None \<Rightarrow> fe_error (''stray '' @ [CHR 0x27, CHR 0x27, CHR 0x27])
      | Some v \<Rightarrow> sq leave_read_depth
          (bnd (fe_symbol ''quote'') (\<lambda>q. bnd (fe_cons v Nil) (\<lambda>d. bnd (fe_cons q d) (\<lambda>r.
            ret (r, inp)))))) c2 = (Inr (v, inp'), c')" by (rule bnd_InrE)
  obtain o1 i1 where p: "p = (o1, i1)" by (cases p)
  from r2 p obtain w where "o1 = Some w" by (cases o1) (auto simp: fe_error_def)
  with r2 p have "sq leave_read_depth
          (bnd (fe_symbol ''quote'') (\<lambda>q. bnd (fe_cons w Nil) (\<lambda>d. bnd (fe_cons q d) (\<lambda>r.
            ret (r, i1))))) c2 = (Inr (v, inp'), c')" by simp
  then obtain x c3 where l: "leave_read_depth c2 = (Inr x, c3)"
    and g: "bnd (fe_symbol ''quote'') (\<lambda>q. bnd (fe_cons w Nil) (\<lambda>d. bnd (fe_cons q d) (\<lambda>r.
            ret (r, i1)))) c3 = (Inr (v, inp'), c')" by (rule sq_InrE)
  have i1: "inp' = i1" using g by (auto elim!: bnd_InrE simp: ret_def)
  have "ctl_kept (bnd (fe_symbol ''quote'') (\<lambda>q. bnd (fe_cons w Nil) (\<lambda>d. bnd (fe_cons q d) (\<lambda>r.
            ret (r, i1)))))" by (intro ctl_rules)
  from eaten_ctl [OF this g] have "eaten False c3 i1 c' inp'" using i1 by simp
  moreover have "eaten False c inp c3 i1"
    using fe_read_of_eaten [OF rd f [unfolded p]] eaten_nested enter_leave_depth(1) [OF a]
      enter_leave_depth(2) [OF l] by simp
  ultimately show ?thesis using eaten_trans by fastforce
qed

lemma read_start_shorter:
  assumes run: "read_start inp c = (Inr (chr, inp', k), c')"
  shows "snd (ctl c') = snd (ctl c) \<and> nextchr c' = CHR 0x00 \<and> length inp' \<le> avail c inp \<and>
    (chr \<noteq> CHR 0x00 \<longrightarrow> length inp' < avail c inp)"
proof -
  obtain x i where xi: "(if nextchr c \<noteq> CHR 0x00 then (nextchr c, inp) else getchr inp) = (x, i)"
    by (cases "if nextchr c \<noteq> CHR 0x00 then (nextchr c, inp) else getchr inp")
  have sk: "read_skip FE_IO_ABORT_CHECK_INTERVAL x i (c\<lparr>nextchr := CHR 0x00\<rparr>) = (Inr (chr, inp', k), c')"
    using run xi by (simp add: read_start_def bnd_gets sq_modify)
  have "x = CHR 0x00 \<Longrightarrow> chr = CHR 0x00" using sk by (auto simp: read_skip.simps [of _ "CHR 0x00"] is_blank_def ret_def)
  moreover have "length i \<le> avail c inp" "x \<noteq> CHR 0x00 \<Longrightarrow> length i < avail c inp"
    using xi by (auto simp: avail_def getchr_def split: if_splits list.splits)
  moreover note read_skip_shorter [OF sk]
  ultimately show ?thesis by (cases "x = CHR 0x00") (auto simp: ctl_def)
qed

lemma read_string_eaten:
  assumes "read_string k inp c = (Inr (v, inp'), c')" shows "eaten False c inp c' inp'"
proof -
  from assms obtain s c1 where a: "read_string_chars k [] inp c = (Inr (s, inp'), c1)"
    and b: "make_data_obj FE_TSTRING (Some s) (length s) (CHR 0x00) c1 = (Inr v, c')"
    unfolding read_string_def by (auto elim!: bnd_InrE simp: ret_def)
  have "ctl_kept (make_data_obj FE_TSTRING (Some s) (length s) (CHR 0x00))" by (intro ctl_rules)
  from eaten_ctl [OF this b] read_string_chars_shorter [OF a] show ?thesis
    using eaten_trans [OF eaten_ctl_eq] by fastforce
qed

lemma ctl_token_object [ctl_rules]: "ctl_kept (token_object buf)"
  unfolding token_object_def Let_def case_prod_beta by (auto intro!: ctl_rules)

lemma read_atom_eaten:
  assumes run: "read_atom k chr inp c = (Inr (v, inp'), c')" and nc: "nextchr c = CHR 0x00"
  shows "eaten False c inp c' inp'"
proof -
  from run obtain b x c1 where a: "read_token k [] chr inp c = (Inr (b, x, inp'), c1)"
    and t: "token_object b (c1\<lparr>nextchr := x\<rparr>) = (Inr v, c')"
    unfolding read_atom_def by (auto elim!: bnd_InrE sq_InrE simp: ret_def modify_def)
  from eaten_ctl [OF ctl_token_object t] have "eaten False (c1\<lparr>nextchr := x\<rparr>) inp' c' inp'" .
  moreover have "eaten False c inp (c1\<lparr>nextchr := x\<rparr>) inp'"
    using read_token_shorter [OF a] nc by (auto simp: eaten_def avail_def ctl_def)
  ultimately show ?thesis using eaten_trans by fastforce
qed

lemma ret_obj_run:
  assumes "ret_obj m c = (Inr (r, inp'), c')"
  obtains v where "r = RObj v" "m c = (Inr (v, inp'), c')"
  using assms unfolding ret_obj_def by (auto elim!: bnd_InrE simp: ret_def)

lemma read_form_eaten:
  assumes rd: "consumes rd" and nc: "nextchr c = CHR 0x00"
    and run: "read_form stop n rd chr k inp c = (Inr (r, inp'), c')"
  shows "eaten False c inp c' inp'"
proof -
  have refl: "eaten False c inp c inp" by (simp add: eaten_def)
  have cm: ?thesis if "bnd (read_comment k chr inp) rd c = (Inr (r, inp'), c')"
  proof -
    from that obtain i1 c1 where a: "read_comment k chr inp c = (Inr i1, c1)"
      and b: "rd i1 c1 = (Inr (r, inp'), c')" by (rule bnd_InrE)
    from read_comment_shorter [OF a] consumesD [OF rd b] show ?thesis
      using eaten_trans [OF eaten_ctl_eq] eaten_weak by fastforce
  qed
  show ?thesis
    using run refl unfolding read_form_def
    by (auto simp: ret_def split: if_splits elim!: ret_obj_run intro: cm read_string_eaten
        read_atom_eaten [OF _ nc] read_quote_eaten [OF rd] eaten_weak [OF read_list_eaten [OF rd]])
qed

lemma consumes_read_rec: "consumes (read_rec stop n)"
proof (induction n)
  case (Suc n)
  show ?case unfolding consumes_def
  proof (intro allI impI)
    fix inp c r inp' c'
    assume "read_rec stop (Suc n) inp c = (Inr (r, inp'), c')"
    then obtain chr i k c1 where a: "read_start inp c = (Inr (chr, i, k), c1)"
      and b: "read_form stop n (read_rec stop n) chr k i c1 = (Inr (r, inp'), c')"
      by (auto elim!: bnd_InrE)
    note st = read_start_shorter [OF a]
    have "eaten False c1 i c' inp'" using st by (intro read_form_eaten [OF Suc _ b]) simp
    then have e: "eaten (chr \<noteq> CHR 0x00 \<or> False) c inp c' inp'"
      by (rule eaten_trans [rotated]) (use st in \<open>auto simp: eaten_def avail_def\<close>)
    have "r = REof" if "chr = CHR 0x00" using b that by (simp add: read_form_def ret_def)
    then show "eaten (r \<noteq> REof) c inp c' inp'" using e by (auto simp: eaten_def)
  qed
qed (simp add: consumes_def throw_def)

text \<open>Two readers that agree as long as fewer than \<open>k\<close> characters are left.\<close>

definition agree :: "nat \<Rightarrow> reader \<Rightarrow> reader \<Rightarrow> bool" where
  "agree k rd rd' \<longleftrightarrow> (\<forall>inp c. avail c inp < k \<longrightarrow> rd inp c = rd' inp c)"

lemma agreeD: "agree k rd rd' \<Longrightarrow> avail c inp < k \<Longrightarrow> rd inp c = rd' inp c"
  by (simp add: agree_def)

lemma bnd_run_cong:
  "m c = m' c \<Longrightarrow> (\<And>x d. m c = (Inr x, d) \<Longrightarrow> f x d = g x d) \<Longrightarrow> bnd m f c = bnd m' g c"
  by (auto simp: bnd_def split: sum.splits prod.splits)

lemma sq_run_cong:
  "m c = m' c \<Longrightarrow> (\<And>x d. m c = (Inr x, d) \<Longrightarrow> f d = g d) \<Longrightarrow> sq m f c = sq m' g c"
  unfolding sq_def by (rule bnd_run_cong)

lemma eaten_avail: "eaten b c i d j \<Longrightarrow> avail d j \<le> avail c i"
  by (simp add: eaten_def)

lemma agree_fe_read_of:
  "agree k rd rd' \<Longrightarrow> avail c inp < k \<Longrightarrow> fe_read_of rd inp c = fe_read_of rd' inp c"
  unfolding fe_read_of_def by (rule bnd_run_cong) (simp_all add: agreeD)

lemma agree_read_place:
  assumes agr: "agree k rd rd'" and rd: "consumes rd" and lt: "avail c inp < k"
  shows "read_place rd res lst n v inp c = read_place rd' res lst n v inp c"
  unfolding read_place_def
proof (rule bnd_run_cong [OF refl])
  fix dot d
  assume "fe_symbol_name_eq v ''.'' c = (Inr dot, d)"
  then have d: "avail d inp < k" using eaten_avail [OF eaten_ctl [OF ctl_compare(3)]] lt le_less_trans by blast
  have "(case r of
           Some d \<Rightarrow> bnd (set_tail lst res d) (\<lambda>res. ret (res, lst, i))
         | None \<Rightarrow> bnd (rd i) (\<lambda>(r, inp).
             if r = REof then bnd (check_io_abort n) (\<lambda>_. fe_error ''unclosed list'')
             else throw Crash)) e = (case r of
           Some d \<Rightarrow> bnd (set_tail lst res d) (\<lambda>res. ret (res, lst, i))
         | None \<Rightarrow> bnd (rd' i) (\<lambda>(r, inp).
             if r = REof then bnd (check_io_abort n) (\<lambda>_. fe_error ''unclosed list'')
             else throw Crash)) e" if "avail e i < k" for r i e
    using agreeD [OF agr that] by (auto simp: bnd_def split: option.split)
  then show "(if dot then
         bnd (fe_read_of rd inp) (\<lambda>(r, inp). case r of
           Some d \<Rightarrow> bnd (set_tail lst res d) (\<lambda>res. ret (res, lst, inp))
         | None \<Rightarrow> bnd (rd inp) (\<lambda>(r, inp).
             if r = REof then bnd (check_io_abort n) (\<lambda>_. fe_error ''unclosed list'')
             else throw Crash))
       else
         bnd (fe_cons v Nil) (\<lambda>cell. bnd (set_tail lst res cell) (\<lambda>res. ret (res, Some cell, inp)))) d =
    (if dot then
         bnd (fe_read_of rd' inp) (\<lambda>(r, inp). case r of
           Some d \<Rightarrow> bnd (set_tail lst res d) (\<lambda>res. ret (res, lst, inp))
         | None \<Rightarrow> bnd (rd' inp) (\<lambda>(r, inp).
             if r = REof then bnd (check_io_abort n) (\<lambda>_. fe_error ''unclosed list'')
             else throw Crash))
       else
         bnd (fe_cons v Nil) (\<lambda>cell. bnd (set_tail lst res cell) (\<lambda>res. ret (res, Some cell, inp)))) d"
    by (auto intro!: bnd_run_cong agree_fe_read_of [OF agr] d dest!: fe_read_of_eaten [OF rd, THEN eaten_avail]
        intro: le_less_trans [OF _ d])
qed

lemma agree_read_items:
  assumes agr: "agree k rd rd'" and rd: "consumes rd"
  shows "avail c inp < k \<Longrightarrow> avail c inp < m \<Longrightarrow> avail c inp < m' \<Longrightarrow>
   read_items stop m rd gc res lst n inp c = read_items stop' m' rd' gc res lst n inp c"
proof (induction m arbitrary: m' c inp res lst n)
  case (Suc m)
  then obtain j where m': "m' = Suc j" by (cases m') auto
  have rec: "read_items stop m rd gc res lst n i e = read_items stop' j rd' gc res lst n i e"
    if "avail e i < avail c inp" for res lst n i e
    using that Suc.prems m' by (intro Suc.IH) auto
  have body: "bnd (read_item rd gc res lst q v i) (\<lambda>(res, lst, inp). read_items stop m rd gc res lst q inp) e =
    bnd (read_item rd' gc res lst q v i) (\<lambda>(res, lst, inp). read_items stop' j rd' gc res lst q inp) e"
    if e: "avail e i < avail c inp" for q v i e
  proof (rule bnd_run_cong)
    show "read_item rd gc res lst q v i e = read_item rd' gc res lst q v i e"
      unfolding read_item_def by (rule bnd_run_cong) (use agree_read_place [OF agr rd] e Suc.prems(1) in auto)
  next
    fix x d
    assume "read_item rd gc res lst q v i e = (Inr x, d)"
    then show "(case x of (res, lst, inp) \<Rightarrow> read_items stop m rd gc res lst q inp) d =
       (case x of (res, lst, inp) \<Rightarrow> read_items stop' j rd' gc res lst q inp) d"
      using eaten_avail [OF read_item_eaten [OF rd], of gc res lst q v i e] e
      by (cases x) (fastforce intro!: rec)
  qed
  show ?case unfolding m' read_items.simps
  proof (rule bnd_run_cong)
    show "rd inp c = rd' inp c" by (rule agreeD [OF agr Suc.prems(1)])
  next
    fix x d
    assume run: "rd inp c = (Inr x, d)"
    obtain r i where x: "x = (r, i)" by (cases x)
    have lt: "r \<noteq> REof \<Longrightarrow> avail d i < avail c inp"
      using consumesD [OF rd run [unfolded x]] by (simp add: eaten_def)
    have "bnd (check_io_abort n) (\<lambda>q. bnd (read_item rd gc res lst q v i) (\<lambda>(res, lst, inp). read_items stop m rd gc res lst q inp)) d =
      bnd (check_io_abort n) (\<lambda>q. bnd (read_item rd' gc res lst q v i) (\<lambda>(res, lst, inp). read_items stop' j rd' gc res lst q inp)) d"
      if "r = RObj v" for v
    proof (rule bnd_run_cong [OF refl])
      fix q e
      assume "check_io_abort n d = (Inr q, e)"
      from eaten_avail [OF eaten_ctl [OF ctl_check_io_abort this]] lt that show
        "bnd (read_item rd gc res lst q v i) (\<lambda>(res, lst, inp). read_items stop m rd gc res lst q inp) e =
         bnd (read_item rd' gc res lst q v i) (\<lambda>(res, lst, inp). read_items stop' j rd' gc res lst q inp) e"
        by (intro body) (auto intro: le_less_trans)
    qed
    then show "(case x of (r, inp) \<Rightarrow> if r = RRparen then ret (res, inp)
       else bnd (check_io_abort n) (\<lambda>countdown. case r of
         RObj v \<Rightarrow> bnd (read_item rd gc res lst countdown v inp) (\<lambda>(res, lst, inp).
           read_items stop m rd gc res lst countdown inp)
       | _ \<Rightarrow> fe_error ''unclosed list'')) d = (case x of (r, inp) \<Rightarrow> if r = RRparen then ret (res, inp)
       else bnd (check_io_abort n) (\<lambda>countdown. case r of
         RObj v \<Rightarrow> bnd (read_item rd' gc res lst countdown v inp) (\<lambda>(res, lst, inp).
           read_items stop' j rd' gc res lst countdown inp)
       | _ \<Rightarrow> fe_error ''unclosed list'')) d"
      by (cases r) (simp_all add: x)
  qed
qed simp

lemma agree_read_list:
  assumes agr: "agree k rd rd'" and rd: "consumes rd" and "avail c inp < k" "k \<le> m" "k \<le> m'"
  shows "read_list stop m rd n inp c = read_list stop' m' rd' n inp c"
  unfolding read_list_def
proof (intro sq_run_cong bnd_run_cong refl)
  fix u c1 gc c2 w c3
  assume "enter_read_depth c = (Inr u, c1)" "fe_savegc c1 = (Inr gc, c2)" and p: "fe_pushgc Nil c2 = (Inr w, c3)"
  moreover have "ctl_kept (fe_pushgc Nil)" by (intro ctl_rules)
  ultimately have "avail c3 inp = avail c inp"
    using oksD [of "fixes_field ctl" "fe_pushgc Nil"] by (fastforce simp: fe_savegc_def gets_def fixes_field_def ctl_def avail_def dest!: enter_leave_depth(1))
  with assms show "read_items stop m rd gc Nil None n inp c3 = read_items stop' m' rd' gc Nil None n inp c3"
    by (intro agree_read_items [OF agr rd]) auto
qed

lemma agree_read_quote:
  assumes agr: "agree k rd rd'" and lt: "avail c inp < k"
  shows "read_quote rd inp c = read_quote rd' inp c"
  unfolding read_quote_def
proof (intro sq_run_cong bnd_run_cong refl)
  fix u c1
  assume "enter_read_depth c = (Inr u, c1)"
  then have "avail c1 inp < k" using lt by (auto simp: avail_def dest!: enter_leave_depth(1))
  then show "fe_read_of rd inp c1 = fe_read_of rd' inp c1" by (rule agree_fe_read_of [OF agr])
qed

lemma agree_read_form:
  assumes agr: "agree k rd rd'" and rd: "consumes rd" and nc: "nextchr c = CHR 0x00"
    and lt: "chr \<noteq> CHR 0x00 \<Longrightarrow> length inp < k" and "k \<le> m" "k \<le> m'"
  shows "read_form stop m rd chr n inp c = read_form stop' m' rd' chr n inp c"
proof (cases "chr = CHR 0x00")
  case False
  then have a: "avail c inp < k" using lt nc by (simp add: avail_def)
  have cm: "bnd (read_comment n chr inp) rd c = bnd (read_comment n chr inp) rd' c"
  proof (rule bnd_run_cong [OF refl])
    fix i d
    assume "read_comment n chr inp c = (Inr i, d)"
    from read_comment_shorter [OF this] a nc have "avail d i < k" by (auto simp: avail_def ctl_def)
    then show "rd i d = rd' i d" by (rule agreeD [OF agr])
  qed
  have "ret_obj (read_list stop m rd n inp) c = ret_obj (read_list stop' m' rd' n inp) c"
    "ret_obj (read_quote rd inp) c = ret_obj (read_quote rd' inp) c"
    unfolding ret_obj_def
    by (intro bnd_run_cong agree_read_list [OF agr rd a assms(5,6)] agree_read_quote [OF agr a] refl)+
  with cm show ?thesis unfolding read_form_def by presburger
qed (simp add: read_form_def)

lemma agree_read_rec: "n \<le> m \<Longrightarrow> agree n (read_rec stop n) (read_rec stop' m)"
proof (induction n arbitrary: m)
  case (Suc n)
  then obtain j where m: "m = Suc j" and j: "n \<le> j" by (cases m) auto
  show ?case unfolding agree_def m read_rec.simps
  proof (intro allI impI bnd_run_cong refl)
    fix inp c x d
    assume lt: "avail c inp < Suc n" and run: "read_start inp c = (Inr x, d)"
    obtain chr i q where x: "x = (chr, i, q)" by (cases x)
    from read_start_shorter [OF run [unfolded x]] lt
    have "read_form stop n (read_rec stop n) chr q i d = read_form stop' j (read_rec stop' j) chr q i d"
      by (intro agree_read_form [OF Suc.IH [OF j] consumes_read_rec _ _ order_refl j]) auto
    then show "(case x of (chr, inp, q) \<Rightarrow> read_form stop n (read_rec stop n) chr q inp) d =
       (case x of (chr, inp, q) \<Rightarrow> read_form stop' j (read_rec stop' j) chr q inp) d"
      by (simp add: x)
  qed
qed (simp add: agree_def)

text \<open>
  C10. Reading terminates: the recursion of \<^verbatim>\<open>read_\<close> and the loop over the elements of a list never take more
  turns than there are characters left (the look-ahead character counted). With more fuel than that
  the result of \<^verbatim>\<open>fe_read\<close> depends neither on the amount of fuel nor on what happens when it runs out.
\<close>

theorem read_terminates:
  assumes "avail c inp < n" and "avail c inp < m"
  shows "fe_read_of (read_rec stop n) inp c = fe_read_of (read_rec stop' m) inp c"
proof -
  define k where "k = Suc (avail c inp)"
  have "fe_read_of (read_rec stop k) inp c = fe_read_of (read_rec s j) inp c" if "k \<le> j" for s j
    by (rule agree_fe_read_of [OF agree_read_rec [OF that]]) (simp add: k_def)
  then show ?thesis using assms unfolding k_def by (metis Suc_leI)
qed

theorem read_terminates_witness:
  "avail write_example ''(7 . x)'' = 7 \<and>
   fe_read_of (read_rec OutOfFuel 8) ''(7 . x)'' write_example = fe_read_of (read_rec Crash 20) ''(7 . x)'' write_example \<and>
   fst (fe_read_of (read_rec OutOfFuel 8) ''true'' write_example) = Inr (Some (Boolean True), [])"
proof (intro conjI)
  show a: "avail write_example ''(7 . x)'' = 7" by code_simp
  show "fe_read_of (read_rec OutOfFuel 8) ''(7 . x)'' write_example = fe_read_of (read_rec Crash 20) ''(7 . x)'' write_example"
    by (rule read_terminates) (simp_all add: a)
  show "fst (fe_read_of (read_rec OutOfFuel 8) ''true'' write_example) = Inr (Some (Boolean True), [])"
    by code_simp
qed

section \<open>Nesting\<close>

lemma read_list_error:
  assumes "0 < max_read_depth c" and "current_read_depth c \<ge> max_read_depth c"
  shows "\<exists>e d. read_list stop m rd k inp c = (Inl e, d)" "\<exists>e d. read_quote rd inp c = (Inl e, d)"
  using assms by (auto simp: read_list_def read_quote_def enter_read_depth_def sq_def gets_def fe_error_def bnd_def)

lemma bnd_error: "(\<And>x d. m c = (Inr x, d) \<Longrightarrow> \<exists>e d'. f x d = (Inl e, d')) \<Longrightarrow> \<exists>e d. bnd m f c = (Inl e, d)"
  by (cases "m c"; cases "fst (m c)") (auto simp: bnd_def)

lemma sq_error: "(\<And>x d. m c = (Inr x, d) \<Longrightarrow> \<exists>e d'. f d = (Inl e, d')) \<Longrightarrow> \<exists>e d. sq m f c = (Inl e, d)"
  unfolding sq_def by (rule bnd_error)

lemma read_level_error:
  assumes "\<And>c1. snd (ctl c1) = snd (ctl (c\<lparr>current_read_depth := current_read_depth c + 1\<rparr>)) \<Longrightarrow>
      nextchr c1 = nextchr c \<Longrightarrow> \<exists>e d. rd inp c1 = (Inl e, d)"
  shows "\<exists>e d. read_list stop m rd k inp c = (Inl e, d)" "\<exists>e d. read_quote rd inp c = (Inl e, d)"
proof -
  show "\<exists>e d. read_list stop m rd k inp c = (Inl e, d)" unfolding read_list_def
  proof (rule sq_error, rule bnd_error, rule sq_error)
    fix u c1 gc c2 w c3
    assume a: "enter_read_depth c = (Inr u, c1)" "fe_savegc c1 = (Inr gc, c2)" "fe_pushgc Nil c2 = (Inr w, c3)"
    have "ctl_kept (fe_pushgc Nil)" by (intro ctl_rules)
    from oksD [OF this a(3)] a(2) enter_leave_depth(1) [OF a(1)]
    have "ctl c3 = ctl (c\<lparr>current_read_depth := current_read_depth c + 1\<rparr>)"
      by (simp add: fe_savegc_def gets_def fixes_field_def)
    then have "\<exists>e d. rd inp c3 = (Inl e, d)" by (intro assms) (simp_all add: ctl_def)
    then have "\<exists>e d. read_items stop m rd gc Nil None k inp c3 = (Inl e, d)"
      by (cases m) (auto simp: throw_def bnd_def)
    then show "\<exists>e d. bnd (read_items stop m rd gc Nil None k inp) (\<lambda>(res, inp). sq leave_read_depth (ret (res, inp))) c3 = (Inl e, d)"
      by (auto simp: bnd_def)
  qed
  show "\<exists>e d. read_quote rd inp c = (Inl e, d)" unfolding read_quote_def
  proof (rule sq_error)
    fix u c1
    assume "enter_read_depth c = (Inr u, c1)"
    from enter_leave_depth(1) [OF this] have "\<exists>e d. rd inp c1 = (Inl e, d)" by (intro assms) simp_all
    then show "\<exists>e d'. bnd (fe_read_of rd inp) (\<lambda>(v, inp). case v of
        None \<Rightarrow> fe_error (''stray '' @ [CHR 0x27, CHR 0x27, CHR 0x27])
      | Some v \<Rightarrow> sq leave_read_depth
          (bnd (fe_symbol ''quote'') (\<lambda>q. bnd (fe_cons v Nil) (\<lambda>d. bnd (fe_cons q d) (\<lambda>r.
            ret (r, inp)))))) c1 = (Inl e, d')"
      by (auto simp: fe_read_of_def bnd_def)
  qed
qed

lemma read_rec_nested:
  assumes "set pre \<subseteq> {CHR ''('', CHR 0x27}" and "0 < max_read_depth c"
    and "nextchr c = CHR 0x00" and "max_read_depth c < current_read_depth c + int (length pre)" and "pre \<noteq> []"
  shows "\<exists>e d. read_rec stop n (pre @ inp) c = (Inl e, d)"
  using assms
proof (induction n arbitrary: pre c)
  case (Suc n)
  then obtain x xs where pre: "pre = x # xs" and x: "x = CHR ''('' \<or> x = CHR 0x27" by (cases pre) auto
  have lvl: "\<exists>e d. read_list stop n (read_rec stop n) k (xs @ inp) (c\<lparr>nextchr := CHR 0x00\<rparr>) = (Inl e, d)"
    "\<exists>e d. read_quote (read_rec stop n) (xs @ inp) (c\<lparr>nextchr := CHR 0x00\<rparr>) = (Inl e, d)" for k
  proof -
    have *: "\<exists>e d. read_rec stop n (xs @ inp) c1 = (Inl e, d)"
      if "snd (ctl c1) = snd (ctl (c\<lparr>nextchr := CHR 0x00, current_read_depth := current_read_depth c + 1\<rparr>))"
        "nextchr c1 = CHR 0x00" "xs \<noteq> []" for c1
      using that Suc.prems pre by (intro Suc.IH) (auto simp: ctl_def)
    have deep: "current_read_depth c \<ge> max_read_depth c" if "xs = []" using that Suc.prems pre by simp
    show "\<exists>e d. read_list stop n (read_rec stop n) k (xs @ inp) (c\<lparr>nextchr := CHR 0x00\<rparr>) = (Inl e, d)"
    proof (cases "xs = []")
      case True
      then show ?thesis using deep Suc.prems(2) by (intro read_list_error(1)) simp_all
    qed (intro read_level_error(1) *, simp_all add: ctl_def)
    show "\<exists>e d. read_quote (read_rec stop n) (xs @ inp) (c\<lparr>nextchr := CHR 0x00\<rparr>) = (Inl e, d)"
    proof (cases "xs = []")
      case True
      then show ?thesis using deep Suc.prems(2) by (intro read_list_error(2)) simp_all
    qed (intro read_level_error(2) *, simp_all add: ctl_def)
  qed
  have st: "read_start (pre @ inp) c = (Inr (x, xs @ inp, FE_IO_ABORT_CHECK_INTERVAL), c\<lparr>nextchr := CHR 0x00\<rparr>)"
    using x Suc.prems(3) pre
    by (auto simp: read_start_def bnd_gets sq_modify getchr_def read_skip.simps [of _ x] is_blank_def ret_def)
  have "\<exists>e d. read_form stop n (read_rec stop n) x FE_IO_ABORT_CHECK_INTERVAL (xs @ inp) (c\<lparr>nextchr := CHR 0x00\<rparr>) = (Inl e, d)"
    using x lvl(1) [of FE_IO_ABORT_CHECK_INTERVAL] lvl(2) by (auto simp: read_form_def ret_obj_def bnd_def)
  then show ?case by (simp add: bnd_Inr [of "read_start (pre @ inp)", OF st])
qed (simp add: throw_def)

text \<open>
  C11. The nesting limit of the reader holds whatever the input: text that opens more levels in a row
  (parentheses or quotes) than \<^verbatim>\<open>max_read_depth\<close> allows is never read successfully, whatever follows it.
\<close>

theorem read_depth_bounded:
  assumes "0 < max_read_depth c" and "nextchr c = CHR 0x00"
    and "set pre \<subseteq> {CHR ''('', CHR 0x27}" and "max_read_depth c < current_read_depth c + int (length pre)"
    and "current_read_depth c \<le> max_read_depth c"
  shows "\<exists>e d. fe_read n (pre @ inp) c = (Inl e, d)"
proof -
  have "pre \<noteq> []" using assms(4,5) by auto
  from read_rec_nested [OF assms(3,1,2,4) this, of OutOfFuel n inp] show ?thesis
    unfolding fe_read_def fe_read_of_def read_obj_def by (auto simp: bnd_def)
qed

theorem read_depth_bounded_witness:
  "\<exists>e d. fe_read 9 ([CHR ''('', CHR 0x27, CHR ''(''] @ ''a))'') (write_example\<lparr>max_read_depth := 2\<rparr>) = (Inl e, d)"
  by (rule read_depth_bounded) (simp_all add: write_example_def zeroed_context_def)

text \<open>
  When reading succeeds the control state is what it was before: the nesting depth is back at its old
  value, the call list, the evaluation depths and the step counter are untouched, and only
  characters of the input (or the look-ahead character) have been consumed.
\<close>

lemma read_keeps_control:
  assumes "fe_read n inp c = (Inr (v, inp'), c')"
  shows "current_read_depth c' = current_read_depth c \<and> calllist c' = calllist c \<and>
    current_eval_depth c' = current_eval_depth c \<and> steps_executed c' = steps_executed c \<and>
    avail c' inp' \<le> avail c inp"
  using fe_read_of_eaten [OF consumes_read_rec assms [unfolded fe_read_def read_obj_def]]
  by (auto simp: eaten_def ctl_def)

lemma read_keeps_control_witness:
  "fst (fe_read 5 ''true 8'' write_example) = Inr (Some (Boolean True), ''8'') \<and>
   current_read_depth (snd (fe_read 5 ''true 8'' write_example)) = current_read_depth write_example"
proof -
  have f: "fst (fe_read 5 ''true 8'' write_example) = Inr (Some (Boolean True), ''8'')" by code_simp
  then show ?thesis using read_keeps_control [of 5 "''true 8''" write_example "Some (Boolean True)" "''8''"]
    by (metis prod.collapse)
qed

end
