(* ===== verification/Fe_Eval.thy ===== *)
theory Fe_Eval
  imports Fe_Read
begin

text \<open>
  The evaluator (\<^verbatim>\<open>fe.c\<close>: \<^verbatim>\<open>analyze\<close>, \<^verbatim>\<open>evallist\<close>, \<^verbatim>\<open>dolist\<close>, \<^verbatim>\<open>argstoenv\<close>, \<^verbatim>\<open>eval\<close>, \<^verbatim>\<open>fe_eval\<close>). Nested calls of
  \<^verbatim>\<open>eval\<close> go through a parameter \<open>rec\<close>; the \<^verbatim>\<open>goto tail_call\<close> is a loop of its own. Two fuels are kept
  apart: \<open>n\<close> bounds the nesting of \<^verbatim>\<open>eval\<close>, \<open>k\<close> every loop, the trampoline included. The second argument of
  \<^verbatim>\<open>eval\<close> that is written through a pointer, \<^verbatim>\<open>newenv\<close>, is \<open>None\<close> for NULL and otherwise the value it points to; the
  result carries its new value.
\<close>

type_synonym evaluator = "ptr \<Rightarrow> ptr \<Rightarrow> ptr option \<Rightarrow> (ptr \<times> ptr option) fcomp"

text \<open>
  What the evaluator needs from outside: the registered C functions, the import of a module (its model
  needs the evaluator) and the standard output.
\<close>

record host =
  host_cfunc :: "nat \<Rightarrow> ptr \<Rightarrow> ptr fcomp"
  host_import :: "ptr \<Rightarrow> ptr fcomp"
  host_print :: "string \<Rightarrow> unit fcomp"

datatype prim =
  P_LET | P_SET | P_IF | P_FN | P_MAC | P_WHILE |
  P_RETURN | P_MODULE | P_EXPORT | P_IMPORT | P_GET | P_PUT |
  P_QUOTE | P_AND | P_OR | P_DO | P_CONS |
  P_CAR | P_CDR | P_SETCAR | P_SETCDR | P_LIST | P_NOT | P_IS | P_ATOM | P_PRINT | P_LT |
  P_LTE | P_GT | P_GTE | P_ADD | P_SUB | P_MUL | P_DIV

definition prims :: "prim list" where
  "prims = [P_LET, P_SET, P_IF, P_FN, P_MAC, P_WHILE,
     P_RETURN, P_MODULE, P_EXPORT, P_IMPORT, P_GET, P_PUT,
     P_QUOTE, P_AND, P_OR, P_DO, P_CONS,
     P_CAR, P_CDR, P_SETCAR, P_SETCDR, P_LIST, P_NOT, P_IS, P_ATOM, P_PRINT, P_LT,
     P_LTE, P_GT, P_GTE, P_ADD, P_SUB, P_MUL, P_DIV]"

section \<open>Roots\<close>

primrec push_all :: "ptr list \<Rightarrow> unit fcomp" where
  "push_all [] = ret ()"
| "push_all (x # xs) = sq (fe_pushgc x) (push_all xs)"

text \<open>\<^verbatim>\<open>fe_restoregc(ctx, save)\<close> followed by \<^verbatim>\<open>fe_pushgc\<close> of each of the given objects.\<close>

definition reroot :: "nat \<Rightarrow> ptr list \<Rightarrow> unit fcomp" where
  "reroot save xs = sq (fe_restoregc save) (push_all xs)"

section \<open>Free variables\<close>

type_synonym analyzer = "ptr \<Rightarrow> ptr \<Rightarrow> ptr \<Rightarrow> ptr fcomp"

text \<open>The statements of a \<^verbatim>\<open>do\<close>; the result is the new \<^verbatim>\<open>*free_vars\<close>.\<close>

primrec analyze_do :: "nat \<Rightarrow> analyzer \<Rightarrow> nat \<Rightarrow> ptr \<Rightarrow> ptr \<Rightarrow> ptr \<Rightarrow> ptr fcomp" where
  "analyze_do 0 an gc p local_bound free_vars = throw OutOfFuel"
| "analyze_do (Suc k) an gc p local_bound free_vars =
     (if isnil p then ret free_vars
      else bnd (car p) (\<lambda>stmt. bnd (bnd (gets (\<lambda>c. typeof c stmt)) (\<lambda>t.
          if t = FE_TPAIR then bnd (car stmt) (\<lambda>x. gets (\<lambda>c. x = let_sym c)) else ret False)) (\<lambda>is_let.
        bnd (if is_let then
            bnd (cdr stmt) (\<lambda>let_args. bnd (car let_args) (\<lambda>var. bnd (bnd (cdr let_args) car) (\<lambda>expr.
              bnd (an expr local_bound free_vars) (\<lambda>free_vars. bnd (fe_cons var local_bound) (\<lambda>local_bound.
                sq (reroot gc [local_bound]) (ret (local_bound, free_vars)))))))
          else bnd (an stmt local_bound free_vars) (\<lambda>free_vars. ret (local_bound, free_vars)))
        (\<lambda>(local_bound, free_vars). bnd (cdr p) (\<lambda>p. analyze_do k an gc p local_bound free_vars)))))"

primrec analyze_params :: "nat \<Rightarrow> ptr \<Rightarrow> ptr \<Rightarrow> ptr fcomp" where
  "analyze_params 0 p bound = throw OutOfFuel"
| "analyze_params (Suc k) p bound =
     (if isnil p then ret bound
      else bnd (car p) (\<lambda>x. bnd (fe_cons x bound) (\<lambda>bound. bnd (cdr p) (\<lambda>p. analyze_params k p bound))))"

primrec analyze_each :: "nat \<Rightarrow> analyzer \<Rightarrow> ptr \<Rightarrow> ptr \<Rightarrow> ptr \<Rightarrow> ptr fcomp" where
  "analyze_each 0 an p bound free_vars = throw OutOfFuel"
| "analyze_each (Suc k) an p bound free_vars =
     (if isnil p then ret free_vars
      else bnd (car p) (\<lambda>x. bnd (an x bound free_vars) (\<lambda>free_vars.
        bnd (cdr p) (\<lambda>p. analyze_each k an p bound free_vars))))"

primrec analyze_args :: "nat \<Rightarrow> analyzer \<Rightarrow> ptr \<Rightarrow> ptr \<Rightarrow> ptr \<Rightarrow> ptr fcomp" where
  "analyze_args 0 an p bound free_vars = throw OutOfFuel"
| "analyze_args (Suc k) an p bound free_vars =
     (if isnil p then ret free_vars
      else bnd (gets (\<lambda>c. typeof c p)) (\<lambda>t.
        if t = FE_TPAIR then
          bnd (car p) (\<lambda>x. bnd (an x bound free_vars) (\<lambda>free_vars.
            bnd (cdr p) (\<lambda>p. analyze_args k an p bound free_vars)))
        else an p bound free_vars))"

definition analyze_atom :: "ptr \<Rightarrow> ptr \<Rightarrow> ptr \<Rightarrow> ptr fcomp" where
  "analyze_atom node bound free_vars =
     bnd (gets (\<lambda>c. typeof c node)) (\<lambda>t.
       if t \<noteq> FE_TSYMBOL then ret free_vars
       else bnd (list_has bound node) (\<lambda>b. if b then ret free_vars
       else bnd (list_has free_vars node) (\<lambda>f. if f then ret free_vars
       else fe_cons node free_vars)))"

definition analyze_fn :: "nat \<Rightarrow> analyzer \<Rightarrow> ptr \<Rightarrow> ptr \<Rightarrow> ptr \<Rightarrow> ptr fcomp" where
  "analyze_fn k an args bound free_vars =
     bnd (car args) (\<lambda>params. bnd (bnd (cdr args) car) (\<lambda>body. bnd fe_savegc (\<lambda>gc.
       sq (fe_pushgc Nil) (bnd (analyze_params k params Nil) (\<lambda>inner_bound.
       sq (fe_pushgc Nil) (bnd (an body inner_bound Nil) (\<lambda>inner_free.
       sq (fe_restoregc gc) (sq (fe_pushgc inner_free)
       (bnd (analyze_each k an inner_free bound free_vars) (\<lambda>free_vars.
       sq (fe_restoregc gc) (ret free_vars)))))))))))"

definition analyze_pair :: "nat \<Rightarrow> analyzer \<Rightarrow> ptr \<Rightarrow> ptr \<Rightarrow> ptr \<Rightarrow> ptr fcomp" where
  "analyze_pair k an node bound free_vars =
     bnd (car node) (\<lambda>op. bnd (cdr node) (\<lambda>args.
     bnd (gets (\<lambda>c. (op = quote_sym c, op = do_sym c, op = fn_sym c \<or> op = mac_sym c))) (\<lambda>(is_quote, is_do, is_fn).
       if is_quote then ret free_vars
       else if is_do then
         bnd fe_savegc (\<lambda>gc. sq (fe_pushgc bound) (bnd (analyze_do k an gc args bound free_vars) (\<lambda>free_vars.
           sq (fe_restoregc gc) (ret free_vars))))
       else if is_fn then analyze_fn k an args bound free_vars
       else bnd (an op bound free_vars) (\<lambda>free_vars. analyze_args k an args bound free_vars))))"

primrec analyze :: "nat \<Rightarrow> analyzer" where
  "analyze 0 node bound free_vars = throw OutOfFuel"
| "analyze (Suc n) node bound free_vars =
     bnd (gets (\<lambda>c. typeof c node)) (\<lambda>t.
       if t \<noteq> FE_TPAIR then analyze_atom node bound free_vars
       else analyze_pair n (analyze n) node bound free_vars)"

section \<open>Arguments and environments\<close>

primrec evallist_loop :: "nat \<Rightarrow> evaluator \<Rightarrow> ptr \<Rightarrow> nat \<Rightarrow> ptr \<Rightarrow> ptr option \<Rightarrow> ptr \<Rightarrow> ptr fcomp" where
  "evallist_loop 0 rec env save res tail lst = throw OutOfFuel"
| "evallist_loop (Suc k) rec env save res tail lst =
     (if isnil lst then sq (fe_restoregc save) (ret res)
      else sq (reroot save [res, lst, env]) (bnd (fe_nextarg lst) (\<lambda>(x, lst).
        bnd (rec x env None) (\<lambda>(value, _).
        sq (reroot save [res, lst, env, value]) (bnd (fe_cons value Nil) (\<lambda>cell.
        bnd (set_tail tail res cell) (\<lambda>res. evallist_loop k rec env save res (Some cell) lst)))))))"

definition evallist :: "nat \<Rightarrow> evaluator \<Rightarrow> ptr \<Rightarrow> ptr \<Rightarrow> ptr fcomp" where
  "evallist k rec lst env = bnd fe_savegc (\<lambda>save. evallist_loop k rec env save Nil None lst)"

primrec dolist_loop :: "nat \<Rightarrow> evaluator \<Rightarrow> nat \<Rightarrow> ptr \<Rightarrow> ptr \<Rightarrow> ptr \<Rightarrow> ptr fcomp" where
  "dolist_loop 0 rec save res lst env = throw OutOfFuel"
| "dolist_loop (Suc k) rec save res lst env =
     (if isnil lst then ret res
      else sq (reroot save [lst, env]) (bnd (fe_nextarg lst) (\<lambda>(x, lst).
        bnd (rec x env (Some env)) (\<lambda>(res, env').
        bnd (is_return_obj res) (\<lambda>r. if r then ret res
          else dolist_loop k rec save res lst (case env' of Some e \<Rightarrow> e | None \<Rightarrow> env))))))"

definition dolist :: "nat \<Rightarrow> evaluator \<Rightarrow> ptr \<Rightarrow> ptr \<Rightarrow> ptr fcomp" where
  "dolist k rec lst env = bnd fe_savegc (\<lambda>save. dolist_loop k rec save Nil lst env)"

primrec argstoenv_loop :: "nat \<Rightarrow> nat \<Rightarrow> ptr \<Rightarrow> ptr \<Rightarrow> ptr \<Rightarrow> ptr fcomp" where
  "argstoenv_loop 0 save prm arg env = throw OutOfFuel"
| "argstoenv_loop (Suc k) save prm arg env =
     (if isnil prm then ret env
      else sq (reroot save [prm, arg, env]) (bnd (gets (\<lambda>c. typeof c prm)) (\<lambda>t.
        if t \<noteq> FE_TPAIR then
          bnd (fe_cons prm arg) (\<lambda>binding. sq (reroot save [env, binding]) (fe_cons binding env))
        else
          bnd (car prm) (\<lambda>p. bnd (fe_car arg) (\<lambda>a. bnd (fe_cons p a) (\<lambda>binding.
            sq (reroot save [prm, arg, env, binding]) (bnd (fe_cons binding env) (\<lambda>env.
            bnd (cdr prm) (\<lambda>prm. bnd (fe_cdr arg) (\<lambda>arg. argstoenv_loop k save prm arg env))))))))))"

definition argstoenv :: "nat \<Rightarrow> ptr \<Rightarrow> ptr \<Rightarrow> ptr \<Rightarrow> ptr fcomp" where
  "argstoenv k prm arg env = bnd fe_savegc (\<lambda>save.
     bnd (argstoenv_loop k save prm arg env) (\<lambda>env. sq (fe_restoregc save) (ret env)))"

section \<open>Primitives\<close>

text \<open>\<^verbatim>\<open>evalarg()\<close>: the value of the next argument, and the arguments left.\<close>

definition evalarg :: "evaluator \<Rightarrow> ptr \<Rightarrow> ptr \<Rightarrow> (ptr \<times> ptr) fcomp" where
  "evalarg rec env arg = bnd (fe_nextarg arg) (\<lambda>(x, arg). bnd (rec x env None) (\<lambda>(v, _). ret (v, arg)))"

text \<open>\<^verbatim>\<open>eval(ctx, x, env, &env)\<close>: the value and the new environment.\<close>

definition eval_in :: "evaluator \<Rightarrow> ptr \<Rightarrow> ptr \<Rightarrow> (ptr \<times> ptr) fcomp" where
  "eval_in rec x env = bnd (rec x env (Some env)) (\<lambda>(v, env').
     ret (v, case env' of Some e \<Rightarrow> e | None \<Rightarrow> env))"

definition prim_module :: "evaluator \<Rightarrow> ptr \<Rightarrow> ptr \<Rightarrow> ptr fcomp" where
  "prim_module rec arg env =
     bnd (fe_nextarg arg) (\<lambda>(name_obj, arg). bnd (fe_nextarg arg) (\<lambda>(body, arg).
     bnd (gets (\<lambda>c. typeof c name_obj)) (\<lambda>t.
     bnd (if t = FE_TSYMBOL then ret name_obj
          else if t = FE_TSTRING then
            bnd (fe_string_contains_nul name_obj) (\<lambda>b.
              if b then fe_error ''module: name strings cannot contain NUL bytes''
              else fe_symbol_from_string_obj name_obj)
          else sq (checktype name_obj FE_TSTRING) (ret Nil)) (\<lambda>name_sym.
     bnd fe_map (\<lambda>exports. sq (fe_pushgc exports)
     (bnd (gets modulestack) (\<lambda>ms. bnd (fe_cons exports ms) (\<lambda>ms.
     sq (modify (\<lambda>c. c\<lparr>modulestack := ms\<rparr>)) (bnd (eval_in rec body env) (\<lambda>_.
     bnd (gets modulestack) (\<lambda>ms. bnd (car ms) (\<lambda>exports. bnd (cdr ms) (\<lambda>ms'.
     sq (modify (\<lambda>c. c\<lparr>modulestack := ms'\<rparr>))
     (sq (fe_set name_sym exports) (ret exports)))))))))))))))"

text \<open>The last element of the expressions of a \<^verbatim>\<open>do\<close>; NULL (\<open>None\<close>) when the list is empty or dotted.\<close>

primrec last_expr :: "nat \<Rightarrow> ptr \<Rightarrow> ptr option fcomp" where
  "last_expr 0 p = throw OutOfFuel"
| "last_expr (Suc k) p =
     bnd (gets (\<lambda>c. typeof c p)) (\<lambda>t. if t \<noteq> FE_TPAIR then ret None
       else bnd (cdr p) (\<lambda>d. if isnil d then bnd (car p) (\<lambda>x. ret (Some x)) else last_expr k d))"

definition export_name_in_do :: "nat \<Rightarrow> ptr \<Rightarrow> ptr option fcomp" where
  "export_name_in_do k exprs =
     bnd (fe_symbol ''='') (\<lambda>set_sym. bnd (gets (\<lambda>c. typeof c exprs)) (\<lambda>t.
       bnd (if t = FE_TPAIR then
              bnd (car exprs) (\<lambda>first. bnd (gets (\<lambda>c. typeof c first)) (\<lambda>t.
                if t = FE_TPAIR then
                  bnd (car first) (\<lambda>op. if op = set_sym then bnd (fe_cdr first) (\<lambda>d. bnd (fe_car d) (\<lambda>x. ret (Some x)))
                    else ret None)
                else ret None))
            else ret None) (\<lambda>name_sym. case name_sym of Some x \<Rightarrow> ret (Some x) | None \<Rightarrow> last_expr k exprs)))"

definition export_name :: "nat \<Rightarrow> ptr \<Rightarrow> ptr option fcomp" where
  "export_name k decl =
     bnd (gets (\<lambda>c. typeof c decl)) (\<lambda>t.
       if t = FE_TSYMBOL then ret (Some decl)
       else if t = FE_TPAIR then
         bnd (car decl) (\<lambda>op. bnd (gets (\<lambda>c. (op = let_sym c, op = do_sym c))) (\<lambda>(is_let, is_do).
           if is_let then bnd (fe_cdr decl) (\<lambda>d. bnd (fe_car d) (\<lambda>x. ret (Some x)))
           else if is_do then bnd (cdr decl) (export_name_in_do k)
           else ret None))
       else ret None)"

text \<open>With no name \<^verbatim>\<open>checktype\<close> gets NULL and reads its tag.\<close>

definition prim_export :: "nat \<Rightarrow> evaluator \<Rightarrow> ptr \<Rightarrow> ptr \<Rightarrow> ptr fcomp" where
  "prim_export k rec arg env =
     bnd (gets modulestack) (\<lambda>ms.
     if isnil ms then fe_error ''export outside of module''
     else bnd (fe_nextarg arg) (\<lambda>(decl, arg). bnd (fe_car ms) (\<lambda>exports. bnd (export_name k decl) (\<lambda>name. case name of
         None \<Rightarrow> throw Crash
       | Some name_sym \<Rightarrow> sq (checktype name_sym FE_TSYMBOL) (bnd (eval_in rec decl env) (\<lambda>(res, _).
           sq (fe_map_set exports name_sym res) (ret res)))))))"

definition name_in :: "ptr \<Rightarrow> string \<Rightarrow> string \<Rightarrow> bool fcomp" where
  "name_in sy a b = bnd (fe_symbol_name_eq sy a) (\<lambda>x. if x then ret True else fe_symbol_name_eq sy b)"

definition get_property :: "ptr \<Rightarrow> ptr \<Rightarrow> ptr fcomp" where
  "get_property va vb =
     bnd (gets (\<lambda>c. typeof c va)) (\<lambda>t.
     if t = FE_TMAP then fe_map_get va vb
     else bnd (find_assoc_binding vb va) (\<lambda>(is_table, binding). case binding of
         Some b \<Rightarrow> cdr b
       | None \<Rightarrow>
           if \<not> is_table \<and> t = FE_TPAIR then
             bnd (name_in vb ''head'' ''first'') (\<lambda>h. if h then car va
             else bnd (name_in vb ''tail'' ''rest'') (\<lambda>r. if r then cdr va
             else fe_error ''Only .head, .first, .tail, and .rest are valid on pairs''))
           else if is_table then ret Nil
           else fe_error ''property access is only supported on maps/modules and pairs''))"

definition prim_get :: "evaluator \<Rightarrow> ptr \<Rightarrow> ptr \<Rightarrow> ptr fcomp" where
  "prim_get rec arg env =
     bnd (evalarg rec env arg) (\<lambda>(va, arg). bnd (fe_nextarg arg) (\<lambda>(vb, arg).
       sq (checktype vb FE_TSYMBOL) (get_property va vb)))"

definition prim_put :: "evaluator \<Rightarrow> ptr \<Rightarrow> ptr \<Rightarrow> ptr fcomp" where
  "prim_put rec arg env =
     bnd (evalarg rec env arg) (\<lambda>(va, arg). bnd (fe_nextarg arg) (\<lambda>(vb, arg).
     bnd (evalarg rec env arg) (\<lambda>(res, arg). sq (fe_map_set va vb res) (ret res))))"

definition prim_return :: "evaluator \<Rightarrow> ptr \<Rightarrow> ptr \<Rightarrow> ptr fcomp" where
  "prim_return rec arg env =
     bnd (if isnil arg then ret Nil else bnd (evalarg rec env arg) (\<lambda>(v, _). ret v)) (\<lambda>va.
     bnd (gets return_sym) (\<lambda>rs. fe_cons rs va))"

text \<open>A \<^verbatim>\<open>let\<close> extends the environment \<open>e\<close> that \<^verbatim>\<open>newenv\<close> points to.\<close>

definition let_env :: "ptr \<Rightarrow> ptr \<Rightarrow> ptr fcomp" where
  "let_env binding e =
     bnd (is_frame e) (\<lambda>frame.
       if frame then
         bnd (cdr e) (\<lambda>d. bnd (car d) (\<lambda>locals. bnd (cdr d) (\<lambda>upvals.
           bnd (fe_cons binding locals) (\<lambda>new_locals. bnd (fe_cons new_locals upvals) (\<lambda>fr.
             bnd (gets frame_sym) (\<lambda>fs. fe_cons fs fr))))))
       else fe_cons binding e)"

definition prim_let :: "evaluator \<Rightarrow> ptr \<Rightarrow> ptr \<Rightarrow> ptr option \<Rightarrow> (ptr \<times> ptr option) fcomp" where
  "prim_let rec arg env newenv =
     bnd (fe_nextarg arg) (\<lambda>(x, arg). bnd (checktype x FE_TSYMBOL) (\<lambda>sy. bnd (fe_nextarg arg) (\<lambda>(val_expr, arg).
       case newenv of
         Some e \<Rightarrow>
           bnd (fe_cons sy Nil) (\<lambda>binding. bnd (let_env binding e) (\<lambda>e'.
             bnd (rec val_expr e' None) (\<lambda>(v, _). sq (set_cdr binding v) (ret (v, Some e')))))
       | None \<Rightarrow> bnd (rec val_expr env None) (\<lambda>(v, _). sq (fe_set sy v) (ret (v, None))))))"

definition prim_set :: "evaluator \<Rightarrow> ptr \<Rightarrow> ptr \<Rightarrow> ptr fcomp" where
  "prim_set rec arg env =
     bnd (fe_nextarg arg) (\<lambda>(x, arg). bnd (checktype x FE_TSYMBOL) (\<lambda>va. bnd (getbound va env) (\<lambda>b.
       bnd (evalarg rec env arg) (\<lambda>(v, arg). sq (set_cdr b v) (ret Nil)))))"

text \<open>What the rest of a turn of \<^verbatim>\<open>eval\<close> is: a result, a jump to \<^verbatim>\<open>tail_call\<close> with a new \<^verbatim>\<open>obj\<close> and \<^verbatim>\<open>env\<close> (from a
  function body it also sets \<^verbatim>\<open>in_func_tail\<close>), or the evaluation of an expanded macro call.\<close>

datatype eval_next = Done ptr | Tail ptr ptr | TailFn ptr ptr | Expand

primrec prim_if :: "nat \<Rightarrow> evaluator \<Rightarrow> ptr \<Rightarrow> ptr \<Rightarrow> eval_next fcomp" where
  "prim_if 0 rec arg env = throw OutOfFuel"
| "prim_if (Suc k) rec arg env =
     (if isnil arg then ret (Done Nil)
      else bnd (cdr arg) (\<lambda>d.
        if isnil d then bnd (fe_nextarg arg) (\<lambda>(obj, _). ret (Tail obj env))
        else bnd (evalarg rec env arg) (\<lambda>(va, arg).
          if fe_truthy va then bnd (fe_nextarg arg) (\<lambda>(obj, _). ret (Tail obj env))
          else if isnil arg then ret (Done Nil)
          else bnd (cdr arg) (\<lambda>arg. prim_if k rec arg env))))"

primrec fn_bound :: "nat \<Rightarrow> nat \<Rightarrow> ptr \<Rightarrow> ptr \<Rightarrow> ptr fcomp" where
  "fn_bound 0 s p bound = throw OutOfFuel"
| "fn_bound (Suc k) s p bound =
     (if isnil p then ret bound
      else sq (reroot s [bound]) (bnd (car p) (\<lambda>x. bnd (fe_cons x bound) (\<lambda>bound.
        bnd (cdr p) (\<lambda>p. fn_bound k s p bound)))))"

definition prim_fn :: "nat \<Rightarrow> fe_tag \<Rightarrow> ptr \<Rightarrow> ptr \<Rightarrow> ptr fcomp" where
  "prim_fn k t arg env =
     bnd (fe_nextarg arg) (\<lambda>(params, arg). bnd (fe_car arg) (\<lambda>body. bnd fe_savegc (\<lambda>s.
     sq (fe_pushgc Nil) (bnd (fn_bound k s params Nil) (\<lambda>bound.
     sq (fe_pushgc Nil) (bnd (analyze k body bound Nil) (\<lambda>free_vars.
     sq (reroot s [free_vars, params, body, env]) (bnd (fe_cons body Nil) (\<lambda>va.
     sq (reroot s [free_vars, params, body, env, va]) (bnd (fe_cons params va) (\<lambda>va.
     sq (reroot s [free_vars, params, body, env, va]) (bnd (fe_cons free_vars va) (\<lambda>va.
     sq (reroot s [free_vars, params, body, env, va]) (bnd (fe_cons env va) (\<lambda>va.
     sq (reroot s [va]) (bnd object (\<lambda>res.
     sq (settype res t) (sq (set_cdr res va) (ret res)))))))))))))))))))"

text \<open>The body of a \<^verbatim>\<open>while\<close>: the last value and the environment. The check for a return object comes after
  every expression, the last one included.\<close>

primrec while_body :: "nat \<Rightarrow> evaluator \<Rightarrow> nat \<Rightarrow> ptr \<Rightarrow> ptr \<Rightarrow> ptr \<Rightarrow> ptr \<Rightarrow> (ptr \<times> ptr) fcomp" where
  "while_body 0 rec wsave arg res body_cur env = throw OutOfFuel"
| "while_body (Suc k) rec wsave arg res body_cur env =
     (if isnil body_cur then ret (res, env)
      else bnd (fe_nextarg body_cur) (\<lambda>(expr, body_cur).
        if isnil body_cur then sq (reroot wsave [arg, env]) (eval_in rec expr env)
        else sq (reroot wsave [body_cur, env]) (bnd (eval_in rec expr env) (\<lambda>(res, env).
          bnd (is_return_obj res) (\<lambda>r. if r then ret (res, env)
            else while_body k rec wsave arg res body_cur env)))))"

primrec while_loop :: "nat \<Rightarrow> nat \<Rightarrow> evaluator \<Rightarrow> nat \<Rightarrow> ptr \<Rightarrow> ptr \<Rightarrow> ptr \<Rightarrow> ptr \<Rightarrow> ptr fcomp" where
  "while_loop 0 m rec n cond_expr arg res env = throw OutOfFuel"
| "while_loop (Suc k) m rec n cond_expr arg res env =
     bnd (rec cond_expr env None) (\<lambda>(v, _).
       if \<not> fe_truthy v then ret res
       else bnd fe_savegc (\<lambda>wsave. bnd (while_body m rec wsave arg res arg env) (\<lambda>(res, env).
         bnd (is_return_obj res) (\<lambda>r. if r then ret res
           else sq (fe_restoregc n) (while_loop k m rec n cond_expr arg res env)))))"

definition prim_while :: "nat \<Rightarrow> evaluator \<Rightarrow> ptr \<Rightarrow> ptr \<Rightarrow> ptr fcomp" where
  "prim_while k rec arg env =
     bnd (fe_nextarg arg) (\<lambda>(cond_expr, arg). bnd fe_savegc (\<lambda>n. while_loop k k rec n cond_expr arg Nil env))"

text \<open>\<^verbatim>\<open>and\<close> goes on while the values are true (\<open>stop\<close> is \<open>False\<close>), \<^verbatim>\<open>or\<close> while they are not.\<close>

primrec prim_logic :: "nat \<Rightarrow> evaluator \<Rightarrow> bool \<Rightarrow> ptr \<Rightarrow> ptr \<Rightarrow> ptr \<Rightarrow> ptr fcomp" where
  "prim_logic 0 rec stop res arg env = throw OutOfFuel"
| "prim_logic (Suc k) rec stop res arg env =
     (if isnil arg then ret res
      else bnd (evalarg rec env arg) (\<lambda>(res, arg).
        if fe_truthy res = stop then ret res else prim_logic k rec stop res arg env))"

primrec prim_do_loop :: "nat \<Rightarrow> evaluator \<Rightarrow> nat \<Rightarrow> ptr \<Rightarrow> ptr \<Rightarrow> ptr \<Rightarrow> eval_next fcomp" where
  "prim_do_loop 0 rec save res arg env = throw OutOfFuel"
| "prim_do_loop (Suc k) rec save res arg env =
     (if isnil arg then ret (Done res)
      else bnd (fe_nextarg arg) (\<lambda>(expr, arg).
        if isnil arg then ret (Tail expr env)
        else sq (reroot save [arg, env]) (bnd (eval_in rec expr env) (\<lambda>(res, env).
          bnd (is_return_obj res) (\<lambda>r. if r then ret (Done res)
            else prim_do_loop k rec save res arg env)))))"

definition prim_do :: "nat \<Rightarrow> evaluator \<Rightarrow> ptr \<Rightarrow> ptr \<Rightarrow> eval_next fcomp" where
  "prim_do k rec arg env = bnd fe_savegc (\<lambda>save. prim_do_loop k rec save Nil arg env)"

primrec print_loop :: "nat \<Rightarrow> host \<Rightarrow> evaluator \<Rightarrow> ptr \<Rightarrow> ptr \<Rightarrow> unit fcomp" where
  "print_loop 0 hs rec arg env = throw OutOfFuel"
| "print_loop (Suc k) hs rec arg env =
     (if isnil arg then ret ()
      else bnd (evalarg rec env arg) (\<lambda>(v, arg). bnd (fe_write k v False []) (\<lambda>out.
        sq (host_print hs out) (sq (if isnil arg then ret () else host_print hs '' '')
          (print_loop k hs rec arg env)))))"

definition num_arg :: "evaluator \<Rightarrow> ptr \<Rightarrow> ptr \<Rightarrow> (fe_Number \<times> ptr) fcomp" where
  "num_arg rec env arg = bnd (evalarg rec env arg) (\<lambda>(v, arg). bnd (checknum v) (\<lambda>v.
     bnd (fe_num_value v) (\<lambda>x. ret (x, arg))))"

text \<open>\<open>None\<close> from the operator is a division by zero.\<close>

primrec arith_loop ::
  "nat \<Rightarrow> evaluator \<Rightarrow> (fe_Number \<Rightarrow> fe_Number \<Rightarrow> fe_Number option) \<Rightarrow> fe_Number \<Rightarrow> ptr \<Rightarrow> ptr \<Rightarrow> ptr fcomp" where
  "arith_loop 0 rec op x arg env = throw OutOfFuel"
| "arith_loop (Suc k) rec op x arg env =
     (if isnil arg then fe_make_number x
      else bnd (num_arg rec env arg) (\<lambda>(y, arg). case op x y of
          None \<Rightarrow> fe_error ''division by zero''
        | Some x \<Rightarrow> arith_loop k rec op x arg env))"

definition arithop ::
  "nat \<Rightarrow> evaluator \<Rightarrow> (fe_Number \<Rightarrow> fe_Number \<Rightarrow> fe_Number option) \<Rightarrow> ptr \<Rightarrow> ptr \<Rightarrow> ptr fcomp" where
  "arithop k rec op arg env = bnd (num_arg rec env arg) (\<lambda>(x, arg). arith_loop k rec op x arg env)"

definition prim_sub :: "nat \<Rightarrow> evaluator \<Rightarrow> ptr \<Rightarrow> ptr \<Rightarrow> ptr fcomp" where
  "prim_sub k rec arg env =
     (if isnil arg then fe_make_number (Fin 0)
      else bnd (num_arg rec env arg) (\<lambda>(x, arg).
        if isnil arg then fe_make_number (num_neg x)
        else arith_loop k rec (\<lambda>x y. Some (num_sub x y)) x arg env))"

definition checked_div :: "fe_Number \<Rightarrow> fe_Number \<Rightarrow> fe_Number option" where
  "checked_div x d = (if num_is_zero d then None else Some (num_div x d))"

definition numcmpop :: "evaluator \<Rightarrow> (fe_Number \<Rightarrow> fe_Number \<Rightarrow> bool) \<Rightarrow> ptr \<Rightarrow> ptr \<Rightarrow> ptr fcomp" where
  "numcmpop rec op arg env =
     bnd (evalarg rec env arg) (\<lambda>(va, arg). bnd (checknum va) (\<lambda>va. bnd (evalarg rec env arg) (\<lambda>(vb, arg).
     bnd (checknum vb) (\<lambda>vb. bnd (fe_num_value va) (\<lambda>x. bnd (fe_num_value vb) (\<lambda>y. ret (fe_bool (op x y))))))))"

text \<open>\<^verbatim>\<open>let\<close>, \<^verbatim>\<open>if\<close> and \<^verbatim>\<open>do\<close> write \<^verbatim>\<open>newenv\<close> or jump; \<open>eval_prim\<close> below treats them before it comes here.\<close>

fun prim_call ::
  "host \<Rightarrow> nat \<Rightarrow> evaluator \<Rightarrow> prim \<Rightarrow> ptr \<Rightarrow> ptr \<Rightarrow> ptr fcomp" where
  "prim_call hs k rec P_MODULE arg env = prim_module rec arg env"
| "prim_call hs k rec P_EXPORT arg env = prim_export k rec arg env"
| "prim_call hs k rec P_IMPORT arg env = bnd (fe_nextarg arg) (\<lambda>(vb, arg). host_import hs vb)"
| "prim_call hs k rec P_GET arg env = prim_get rec arg env"
| "prim_call hs k rec P_PUT arg env = prim_put rec arg env"
| "prim_call hs k rec P_RETURN arg env = prim_return rec arg env"
| "prim_call hs k rec P_SET arg env = prim_set rec arg env"
| "prim_call hs k rec P_FN arg env = prim_fn k FE_TFUNC arg env"
| "prim_call hs k rec P_MAC arg env = prim_fn k FE_TMACRO arg env"
| "prim_call hs k rec P_WHILE arg env = prim_while k rec arg env"
| "prim_call hs k rec P_QUOTE arg env = bnd (fe_nextarg arg) (\<lambda>(x, arg). ret x)"
| "prim_call hs k rec P_AND arg env = prim_logic k rec False Nil arg env"
| "prim_call hs k rec P_OR arg env = prim_logic k rec True Nil arg env"
| "prim_call hs k rec P_CONS arg env =
     bnd (evalarg rec env arg) (\<lambda>(va, arg). bnd (evalarg rec env arg) (\<lambda>(vb, arg). fe_cons va vb))"
| "prim_call hs k rec P_CAR arg env = bnd (evalarg rec env arg) (\<lambda>(va, arg). fe_car va)"
| "prim_call hs k rec P_CDR arg env = bnd (evalarg rec env arg) (\<lambda>(va, arg). fe_cdr va)"
| "prim_call hs k rec P_SETCAR arg env =
     bnd (evalarg rec env arg) (\<lambda>(va, arg). sq (checktype va FE_TPAIR) (bnd (evalarg rec env arg) (\<lambda>(vb, arg).
       sq (set_car va vb) (ret Nil))))"
| "prim_call hs k rec P_SETCDR arg env =
     bnd (evalarg rec env arg) (\<lambda>(va, arg). sq (checktype va FE_TPAIR) (bnd (evalarg rec env arg) (\<lambda>(vb, arg).
       sq (set_cdr va vb) (ret Nil))))"
| "prim_call hs k rec P_LIST arg env = evallist k rec arg env"
| "prim_call hs k rec P_NOT arg env = bnd (evalarg rec env arg) (\<lambda>(va, arg). ret (fe_bool (\<not> fe_truthy va)))"
| "prim_call hs k rec P_IS arg env =
     bnd (evalarg rec env arg) (\<lambda>(va, arg). bnd (evalarg rec env arg) (\<lambda>(vb, arg).
       bnd (equal va vb) (\<lambda>b. ret (fe_bool b))))"
| "prim_call hs k rec P_ATOM arg env =
     bnd (evalarg rec env arg) (\<lambda>(va, arg). bnd (gets (\<lambda>c. typeof c va)) (\<lambda>t. ret (fe_bool (t \<noteq> FE_TPAIR))))"
| "prim_call hs k rec P_PRINT arg env =
     sq (print_loop k hs rec arg env) (sq (host_print hs [CHR 0x0A]) (ret Nil))"
| "prim_call hs k rec P_LT arg env = numcmpop rec num_lt arg env"
| "prim_call hs k rec P_LTE arg env = numcmpop rec num_le arg env"
| "prim_call hs k rec P_GT arg env = numcmpop rec (\<lambda>x y. num_lt y x) arg env"
| "prim_call hs k rec P_GTE arg env = numcmpop rec (\<lambda>x y. num_le y x) arg env"
| "prim_call hs k rec P_ADD arg env = arithop k rec (\<lambda>x y. Some (num_add x y)) arg env"
| "prim_call hs k rec P_SUB arg env = prim_sub k rec arg env"
| "prim_call hs k rec P_MUL arg env = arithop k rec (\<lambda>x y. Some (num_mul x y)) arg env"
| "prim_call hs k rec P_DIV arg env = arithop k rec checked_div arg env"
| "prim_call hs k rec P_LET arg env = ret Nil"
| "prim_call hs k rec P_IF arg env = ret Nil"
| "prim_call hs k rec P_DO arg env = ret Nil"

text \<open>The switch over the primitives; those that write \<^verbatim>\<open>newenv\<close> or jump come first, a number that is no
  primitive leaves nil.\<close>

definition eval_prim ::
  "host \<Rightarrow> nat \<Rightarrow> evaluator \<Rightarrow> nat \<Rightarrow> ptr \<Rightarrow> ptr \<Rightarrow> ptr option \<Rightarrow> (eval_next \<times> ptr option) fcomp" where
  "eval_prim hs k rec i arg env newenv =
     (if i \<ge> P_MAX then ret (Done Nil, newenv)
      else if prims ! i = P_LET then bnd (prim_let rec arg env newenv) (\<lambda>(v, newenv). ret (Done v, newenv))
      else if prims ! i = P_IF then bnd (prim_if k rec arg env) (\<lambda>nx. ret (nx, newenv))
      else if prims ! i = P_DO then bnd (prim_do k rec arg env) (\<lambda>nx. ret (nx, newenv))
      else bnd (prim_call hs k rec (prims ! i) arg env) (\<lambda>v. ret (Done v, newenv)))"

section \<open>Calls\<close>

primrec capture_loop :: "nat \<Rightarrow> nat \<Rightarrow> ptr \<Rightarrow> ptr \<Rightarrow> ptr \<Rightarrow> ptr \<Rightarrow> ptr fcomp" where
  "capture_loop 0 s def_env arg upvals p = throw OutOfFuel"
| "capture_loop (Suc k) s def_env arg upvals p =
     (if isnil p then ret upvals
      else bnd (car p) (\<lambda>sy. bnd (getbound sy def_env) (\<lambda>binding.
        sq (reroot s [upvals, def_env, arg, binding]) (bnd (fe_cons binding upvals) (\<lambda>upvals.
          bnd (cdr p) (\<lambda>p. capture_loop k s def_env arg upvals p))))))"

definition capture :: "nat \<Rightarrow> ptr \<Rightarrow> ptr \<Rightarrow> ptr \<Rightarrow> ptr fcomp" where
  "capture k def_env free_vars arg =
     bnd fe_savegc (\<lambda>s. sq (push_all [Nil, def_env, arg])
       (bnd (capture_loop k s def_env arg Nil free_vars) (\<lambda>upvals. sq (fe_restoregc s) (ret upvals))))"

definition make_frame :: "nat \<Rightarrow> ptr \<Rightarrow> ptr \<Rightarrow> ptr \<Rightarrow> ptr fcomp" where
  "make_frame k params arg upvals =
     bnd fe_savegc (\<lambda>frame_save. sq (push_all [upvals, arg])
       (bnd (argstoenv k params arg Nil) (\<lambda>locals. sq (fe_pushgc locals)
       (bnd (fe_cons locals upvals) (\<lambda>frame. sq (fe_pushgc frame)
       (bnd (gets frame_sym) (\<lambda>fs. bnd (fe_cons fs frame) (\<lambda>frame.
       sq (fe_restoregc frame_save) (ret frame)))))))))"

text \<open>The parts of a function or macro: definition environment, free variables, parameters, body.\<close>

definition closure_parts :: "ptr \<Rightarrow> (ptr \<times> ptr \<times> ptr \<times> ptr) fcomp" where
  "closure_parts fn =
     bnd (cdr fn) (\<lambda>g. bnd (car g) (\<lambda>def_env. bnd (cdr g) (\<lambda>g. bnd (car g) (\<lambda>free_vars.
     bnd (cdr g) (\<lambda>params_body. bnd (car params_body) (\<lambda>params. bnd (cdr params_body) (\<lambda>body.
       ret (def_env, free_vars, params, body))))))))"

primrec body_loop :: "nat \<Rightarrow> evaluator \<Rightarrow> nat \<Rightarrow> ptr \<Rightarrow> ptr \<Rightarrow> ptr \<Rightarrow> eval_next fcomp" where
  "body_loop 0 rec save res body_cur frame = throw OutOfFuel"
| "body_loop (Suc k) rec save res body_cur frame =
     (if isnil body_cur then ret (Done res)
      else bnd (fe_nextarg body_cur) (\<lambda>(expr, body_cur).
        if isnil body_cur then ret (TailFn expr frame)
        else sq (reroot save [body_cur, frame]) (bnd (eval_in rec expr frame) (\<lambda>(res, frame).
          bnd (is_return_obj res) (\<lambda>r. if r then bnd (cdr res) (\<lambda>v. ret (Done v))
            else body_loop k rec save res body_cur frame)))))"

definition call_func :: "nat \<Rightarrow> evaluator \<Rightarrow> ptr \<Rightarrow> ptr \<Rightarrow> ptr \<Rightarrow> eval_next fcomp" where
  "call_func k rec fn arg env =
     bnd (evallist k rec arg env) (\<lambda>arg. bnd (closure_parts fn) (\<lambda>(def_env, free_vars, params, body).
     bnd (capture k def_env free_vars arg) (\<lambda>upvals. sq (push_all [upvals, arg])
     (bnd (make_frame k params arg upvals) (\<lambda>frame. bnd fe_savegc (\<lambda>save.
       body_loop k rec save Nil body frame))))))"

text \<open>
  \<^verbatim>\<open>*obj = *v\<close>. A fixnum or boolean is no address, so copying from it is undefined; nil is a static
  object with NULL fields. The copy of a map shares its arrays with the original, which the model of
  maps cannot express: it stops there.
\<close>

definition copy_object :: "ptr \<Rightarrow> ptr \<Rightarrow> unit fcomp" where
  "copy_object obj v = (case v of
      Nil \<Rightarrow> upd_cell obj (\<lambda>_. \<lparr>ocar = VNone, ocdr = VNone, ty = FE_TNIL, mark = False\<rparr>)
    | Ref i \<Rightarrow> bnd (cell v) (\<lambda>o'. if ty o' = FE_TMAP then throw Crash else upd_cell obj (\<lambda>_. o'))
    | _ \<Rightarrow> throw Crash)"

definition call_macro :: "nat \<Rightarrow> evaluator \<Rightarrow> ptr \<Rightarrow> ptr \<Rightarrow> ptr \<Rightarrow> unit fcomp" where
  "call_macro k rec fn obj arg =
     bnd (closure_parts fn) (\<lambda>(def_env, free_vars, params, body).
     bnd (capture k def_env free_vars arg) (\<lambda>upvals.
     bnd (make_frame k params arg upvals) (\<lambda>frame. bnd fe_savegc (\<lambda>save.
     sq (fe_pushgc frame) (bnd (dolist k rec body frame) (\<lambda>v.
     sq (copy_object obj v) (fe_restoregc save)))))))"

text \<open>The outer switch.\<close>

definition eval_call ::
  "host \<Rightarrow> nat \<Rightarrow> evaluator \<Rightarrow> ptr \<Rightarrow> ptr \<Rightarrow> ptr \<Rightarrow> ptr \<Rightarrow> ptr option \<Rightarrow> (eval_next \<times> ptr option) fcomp" where
  "eval_call hs k rec fn obj arg env newenv =
     bnd (gets (\<lambda>c. typeof c fn)) (\<lambda>t.
       if t = FE_TPRIM then
         bnd (cell fn) (\<lambda>o'. case ocdr o' of VPrim i \<Rightarrow> eval_prim hs k rec i arg env newenv | _ \<Rightarrow> throw Crash)
       else if t = FE_TCFUNC then
         bnd (evallist k rec arg env) (\<lambda>arg. sq (fe_pushgc arg) (bnd (cell fn) (\<lambda>o'. case ocdr o' of
             VFn f \<Rightarrow> bnd (host_cfunc hs f arg) (\<lambda>res. ret (Done res, newenv))
           | _ \<Rightarrow> throw Crash)))
       else if t = FE_TFUNC then bnd (call_func k rec fn arg env) (\<lambda>nx. ret (nx, newenv))
       else if t = FE_TMACRO then sq (call_macro k rec fn obj arg) (ret (Expand, newenv))
       else fe_error ''tried to call non-callable value'')"

section \<open>The evaluator\<close>

definition enter_eval :: "unit fcomp" where
  "enter_eval =
     bnd (gets (\<lambda>c. max_eval_depth c > 0 \<and> current_eval_depth c \<ge> max_eval_depth c)) (\<lambda>deep.
       if deep then fe_error ''eval recursion depth limit exceeded''
       else modify (\<lambda>c. c\<lparr>current_eval_depth := current_eval_depth c + 1\<rparr>))"

definition leave_eval :: "unit fcomp" where
  "leave_eval = modify (\<lambda>c. c\<lparr>current_eval_depth := current_eval_depth c - 1\<rparr>)"

text \<open>\<^verbatim>\<open>ctx->calllist = cdr(&cl); ctx->current_eval_depth--\<close>\<close>

definition leave_call :: "ptr list \<Rightarrow> unit fcomp" where
  "leave_call cl = sq (modify (\<lambda>c. c\<lparr>calllist := cl\<rparr>)) leave_eval"

definition strip_return :: "bool \<Rightarrow> ptr \<Rightarrow> ptr fcomp" where
  "strip_return in_func_tail obj =
     (if \<not> in_func_tail then ret obj
      else bnd (is_return_obj obj) (\<lambda>r.
        if r then bnd (cdr obj) (\<lambda>args. if isnil args then ret Nil else car args) else ret obj))"

definition unwrap_return :: "bool \<Rightarrow> ptr \<Rightarrow> ptr fcomp" where
  "unwrap_return in_func_tail res =
     (if \<not> in_func_tail then ret res
      else bnd (is_return_obj res) (\<lambda>r. if r then cdr res else ret res))"

text \<open>Leaving the turn of a call, with \<open>cl\<close> the call list and \<open>gc\<close> the root index from before it.\<close>

definition end_call :: "nat \<Rightarrow> ptr list \<Rightarrow> unit fcomp" where
  "end_call gc cl = sq (fe_restoregc gc) (leave_call cl)"

definition eval_apply :: "host \<Rightarrow> nat \<Rightarrow> evaluator \<Rightarrow> ptr \<Rightarrow> ptr \<Rightarrow> ptr option \<Rightarrow> (eval_next \<times> ptr option) fcomp" where
  "eval_apply hs k rec obj env newenv =
     bnd (car obj) (\<lambda>f. bnd (rec f env None) (\<lambda>(fn, _).
       bnd (cdr obj) (\<lambda>arg. eval_call hs k rec fn obj arg env newenv)))"

text \<open>What follows the switch; \<open>again\<close> continues at \<^verbatim>\<open>tail_call\<close> with the given \<^verbatim>\<open>in_func_tail\<close>.\<close>

definition eval_finish ::
  "(bool \<Rightarrow> evaluator) \<Rightarrow> bool \<Rightarrow> ptr \<Rightarrow> ptr \<Rightarrow> nat \<Rightarrow> ptr list \<Rightarrow> eval_next \<Rightarrow> ptr option \<Rightarrow> (ptr \<times> ptr option) fcomp" where
  "eval_finish again in_func_tail obj env gc cl nx newenv = (case nx of
      Done res \<Rightarrow> sq (reroot gc [res]) (sq (leave_call cl)
        (bnd (unwrap_return in_func_tail res) (\<lambda>v. ret (v, newenv))))
    | Tail obj env \<Rightarrow> sq (end_call gc cl) (again in_func_tail obj env newenv)
    | TailFn obj env \<Rightarrow> sq (end_call gc cl) (again True obj env newenv)
    | Expand \<Rightarrow> sq (end_call gc cl) (bnd (again False obj env None) (\<lambda>(v, _). ret (v, newenv))))"

definition eval_pair ::
  "host \<Rightarrow> nat \<Rightarrow> evaluator \<Rightarrow> (bool \<Rightarrow> evaluator) \<Rightarrow> bool \<Rightarrow> ptr list \<Rightarrow> evaluator" where
  "eval_pair hs k rec again in_func_tail cl obj env newenv =
     sq (modify (\<lambda>c. c\<lparr>calllist := obj # cl\<rparr>)) (bnd fe_savegc (\<lambda>gc. sq (push_all [env, obj])
       (bnd (eval_apply hs k rec obj env newenv) (\<lambda>(nx, newenv).
         eval_finish again in_func_tail obj env gc cl nx newenv))))"

primrec eval_loop ::
  "nat \<Rightarrow> host \<Rightarrow> nat \<Rightarrow> evaluator \<Rightarrow> bool \<Rightarrow> evaluator" where
  "eval_loop 0 hs k rec in_func_tail obj env newenv = throw OutOfFuel"
| "eval_loop (Suc m) hs k rec in_func_tail obj env newenv =
     bnd (strip_return in_func_tail obj) (\<lambda>obj. sq check_eval_budget (sq enter_eval
     (bnd (gets (\<lambda>c. (typeof c obj, calllist c))) (\<lambda>(t, cl).
       if t = FE_TSYMBOL then sq leave_eval (bnd (getbound obj env) (\<lambda>x. bnd (cdr x) (\<lambda>v. ret (v, newenv))))
       else if t \<noteq> FE_TPAIR then sq leave_eval (ret (obj, newenv))
       else eval_pair hs k rec (eval_loop m hs k rec) in_func_tail cl obj env newenv))))"

text \<open>\<open>k\<close> bounds the loops, \<open>n\<close> the nesting; \<open>stop\<close> is raised when the nesting exceeds \<open>n\<close>.\<close>

primrec eval :: "host \<Rightarrow> nat \<Rightarrow> fe_err \<Rightarrow> nat \<Rightarrow> evaluator" where
  "eval hs k stop 0 obj env newenv = throw stop"
| "eval hs k stop (Suc n) obj env newenv = eval_loop k hs k (eval hs k stop n) False obj env newenv"

definition fe_eval :: "host \<Rightarrow> nat \<Rightarrow> nat \<Rightarrow> ptr \<Rightarrow> ptr fcomp" where
  "fe_eval hs k n obj =
     sq (modify begin_eval_run) (bnd (eval hs k OutOfFuel n obj Nil None) (\<lambda>(res, _).
       sq (modify end_eval_run) (ret res)))"

end
