(* ===== verification/Fex_Lexer.thy ===== *)
theory Fex_Lexer
  imports C_Lib
begin

text \<open>
  The lexer of the FeX front end (\<^verbatim>\<open>fex.c\<close>). The source is a C string, modelled as the list of
  its bytes before the terminating NUL; the pointers \<^verbatim>\<open>start\<close>, \<^verbatim>\<open>current\<close> and \<^verbatim>\<open>line_start\<close> are
  offsets into it. A token points into the source, or, for the error tokens, at a message.
\<close>

section \<open>Tokens and the lexer state\<close>

datatype TokenType =
    TOKEN_LPAREN | TOKEN_RPAREN | TOKEN_LBRACE | TOKEN_RBRACE | TOKEN_LBRACKET | TOKEN_RBRACKET
  | TOKEN_COMMA | TOKEN_DOT | TOKEN_MINUS | TOKEN_PLUS
  | TOKEN_SEMICOLON | TOKEN_SLASH | TOKEN_STAR
  | TOKEN_BANG | TOKEN_BANG_EQUAL
  | TOKEN_EQUAL | TOKEN_EQUAL_EQUAL
  | TOKEN_GREATER | TOKEN_GREATER_EQUAL
  | TOKEN_LESS | TOKEN_LESS_EQUAL
  | TOKEN_IDENTIFIER | TOKEN_STRING | TOKEN_NUMBER
  | TOKEN_AND | TOKEN_ELSE | TOKEN_EXPORT | TOKEN_FALSE | TOKEN_FN | TOKEN_IF
  | TOKEN_IMPORT | TOKEN_LET | TOKEN_MODULE | TOKEN_NIL | TOKEN_OR | TOKEN_RETURN
  | TOKEN_TRUE | TOKEN_WHILE
  | TOKEN_COLON_COLON
  | TOKEN_ERROR | TOKEN_EOF

text \<open>What \<^verbatim>\<open>token.start\<close> points at: a place in the source or a message of the lexer.\<close>

datatype tok_start = Src nat | Msg string

text \<open>\<^verbatim>\<open>error_token\<close> leaves \<^verbatim>\<open>column\<close> uninitialised: the field is \<open>None\<close> then.\<close>

record Token =
  tok_type :: TokenType
  tok_start :: tok_start
  tok_length :: int
  tok_line :: int
  tok_column :: "int option"

record Lexer =
  lex_source :: string
  lex_source_name :: string
  lex_start :: nat
  lex_current :: nat
  line_start :: nat
  lex_line :: int
  lex_had_error :: bool

definition init_lexer :: "string \<Rightarrow> Lexer" where
  "init_lexer source =
     \<lparr>lex_source = source, lex_source_name = ''<string>'', lex_start = 0, lex_current = 0,
      line_start = 0, lex_line = 1, lex_had_error = False\<rparr>"

section \<open>Reading characters\<close>

text \<open>The byte at an offset, the terminating NUL at the end.\<close>

definition src_at :: "string \<Rightarrow> nat \<Rightarrow> char" where
  "src_at s i = (if i < length s then s ! i else CHR 0x00)"

definition cur :: "Lexer \<Rightarrow> nat \<Rightarrow> char" where
  "cur lx k = src_at (lex_source lx) (lex_current lx + k)"

definition is_at_end :: "Lexer \<Rightarrow> bool" where
  "is_at_end lx \<longleftrightarrow> cur lx 0 = CHR 0x00"

definition make_token :: "TokenType \<Rightarrow> Lexer \<Rightarrow> Token" where
  "make_token t lx =
     \<lparr>tok_type = t, tok_start = Src (lex_start lx),
      tok_length = c_int (int (lex_current lx) - int (lex_start lx)),
      tok_line = lex_line lx,
      tok_column = Some (c_int (int (lex_start lx) - int (line_start lx)) + 1)\<rparr>"

definition error_token :: "string \<Rightarrow> Lexer \<Rightarrow> Token \<times> Lexer" where
  "error_token message lx =
     (\<lparr>tok_type = TOKEN_ERROR, tok_start = Msg message, tok_length = int (length message),
       tok_line = lex_line lx, tok_column = None\<rparr>,
      lx\<lparr>lex_had_error := True\<rparr>)"

definition advance :: "Lexer \<Rightarrow> Lexer" where
  "advance lx =
     (let nl = (cur lx 0 = CHR 0x0A);
          lx = lx\<lparr>lex_current := lex_current lx + 1\<rparr>
      in if nl then lx\<lparr>lex_line := lex_line lx + 1, line_start := lex_current lx\<rparr> else lx)"

definition match :: "char \<Rightarrow> Lexer \<Rightarrow> bool \<times> Lexer" where
  "match expected lx =
     (if is_at_end lx then (False, lx)
      else if cur lx 0 \<noteq> expected then (False, lx)
      else (True, lx\<lparr>lex_current := lex_current lx + 1\<rparr>))"

text \<open>
  \<^verbatim>\<open>while (p(*L.current)) advance();\<close> for a test that fails on the NUL. The bound check only
  serves termination.
\<close>

function advance_while :: "(char \<Rightarrow> bool) \<Rightarrow> Lexer \<Rightarrow> Lexer" where
  "advance_while p lx =
     (if p (cur lx 0) \<and> lex_current lx < length (lex_source lx)
      then advance_while p (advance lx) else lx)"
  by auto
termination
  by (relation "measure (\<lambda>(p, lx). length (lex_source lx) - lex_current lx)")
    (auto simp: advance_def Let_def)

declare advance_while.simps [simp del]

lemma advance_fields [simp]:
  "lex_source (advance lx) = lex_source lx" "lex_start (advance lx) = lex_start lx"
  "lex_source_name (advance lx) = lex_source_name lx"
  "lex_had_error (advance lx) = lex_had_error lx"
  "lex_current (advance lx) = Suc (lex_current lx)"
  by (simp_all add: advance_def Let_def)

lemma advance_while_fields [simp]:
  "lex_source (advance_while p lx) = lex_source lx"
  "lex_start (advance_while p lx) = lex_start lx"
  "lex_source_name (advance_while p lx) = lex_source_name lx"
  by (induction p lx rule: advance_while.induct; subst advance_while.simps; simp)+

lemma advance_while_current:
  "lex_current (advance_while p lx) =
     lex_current lx + length (takeWhile p (drop (lex_current lx) (lex_source lx)))"
proof (induction p lx rule: advance_while.induct)
  case (1 p lx)
  show ?case
  proof (cases "lex_current lx < length (lex_source lx)")
    case True
    then have "drop (lex_current lx) (lex_source lx) =
        cur lx 0 # drop (Suc (lex_current lx)) (lex_source lx)"
      by (simp add: cur_def src_at_def Cons_nth_drop_Suc)
    with 1 True show ?thesis by (subst advance_while.simps) simp
  qed (subst advance_while.simps, simp)
qed

function skip_whitespace :: "Lexer \<Rightarrow> Lexer" where
  "skip_whitespace lx =
     (if \<not> lex_current lx < length (lex_source lx) then lx
      else if cur lx 0 \<in> {CHR '' '', CHR 0x0D, CHR 0x09} then skip_whitespace (advance lx)
      else if cur lx 0 = CHR 0x0A then
        skip_whitespace (advance (lx\<lparr>lex_line := lex_line lx + 1\<rparr>))
      else if cur lx 0 = CHR ''/'' then
        (if cur lx 1 = CHR ''/''
         then skip_whitespace (advance_while (\<lambda>c. c \<noteq> CHR 0x0A \<and> c \<noteq> CHR 0x00) lx)
         else lx)
      else lx)"
  by auto
termination
proof (relation "measure (\<lambda>lx. length (lex_source lx) - lex_current lx)", goal_cases)
  case (4 lx)
  then have *: "0 < length (takeWhile (\<lambda>c. c \<noteq> CHR 0x0A \<and> c \<noteq> CHR 0x00)
      (drop (lex_current lx) (lex_source lx)))"
    by (simp add: cur_def src_at_def flip: Cons_nth_drop_Suc)
  with 4(1) show ?case
    by (simp only: in_measure advance_while_current advance_while_fields) linarith
qed auto

declare skip_whitespace.simps [simp del]

section \<open>Token shapes\<close>

definition lexeme_len :: "Lexer \<Rightarrow> nat" where
  "lexeme_len lx = lex_current lx - lex_start lx"

definition at_start :: "Lexer \<Rightarrow> nat \<Rightarrow> char" where
  "at_start lx k = src_at (lex_source lx) (lex_start lx + k)"

definition check_keyword :: "nat \<Rightarrow> string \<Rightarrow> TokenType \<Rightarrow> Lexer \<Rightarrow> TokenType" where
  "check_keyword start rest t lx =
     (if lexeme_len lx = start + length rest \<and>
         (\<forall>k < length rest. at_start lx (start + k) = rest ! k)
      then t else TOKEN_IDENTIFIER)"

definition identifier_type :: "Lexer \<Rightarrow> TokenType" where
  "identifier_type lx =
     (let c = at_start lx 0 in
      if c = CHR ''a'' then check_keyword 1 ''nd'' TOKEN_AND lx
      else if c = CHR ''e'' then
        (if lexeme_len lx > 1 then
           (if at_start lx 1 = CHR ''l'' then check_keyword 2 ''se'' TOKEN_ELSE lx
            else if at_start lx 1 = CHR ''x'' then check_keyword 2 ''port'' TOKEN_EXPORT lx
            else TOKEN_IDENTIFIER)
         else TOKEN_IDENTIFIER)
      else if c = CHR ''f'' then
        (if lexeme_len lx > 1 then
           (if at_start lx 1 = CHR ''a'' then check_keyword 2 ''lse'' TOKEN_FALSE lx
            else if at_start lx 1 = CHR ''n'' \<and> lexeme_len lx = 2 then TOKEN_FN
            else TOKEN_IDENTIFIER)
         else TOKEN_IDENTIFIER)
      else if c = CHR ''i'' then
        (if lexeme_len lx > 1 \<and> at_start lx 1 = CHR ''m''
         then check_keyword 1 ''mport'' TOKEN_IMPORT lx
         else check_keyword 1 ''f'' TOKEN_IF lx)
      else if c = CHR ''l'' then check_keyword 1 ''et'' TOKEN_LET lx
      else if c = CHR ''m'' then check_keyword 1 ''odule'' TOKEN_MODULE lx
      else if c = CHR ''n'' then check_keyword 1 ''il'' TOKEN_NIL lx
      else if c = CHR ''o'' then check_keyword 1 ''r'' TOKEN_OR lx
      else if c = CHR ''r'' then check_keyword 1 ''eturn'' TOKEN_RETURN lx
      else if c = CHR ''t'' then check_keyword 1 ''rue'' TOKEN_TRUE lx
      else if c = CHR ''w'' then check_keyword 1 ''hile'' TOKEN_WHILE lx
      else TOKEN_IDENTIFIER)"

definition lex_identifier :: "Lexer \<Rightarrow> Token \<times> Lexer" where
  "lex_identifier lx =
     (let lx = advance_while (\<lambda>c. isalpha c \<or> isdigit c \<or> c = CHR ''_'') lx
      in (make_token (identifier_type lx) lx, lx))"

definition lex_fraction :: "Lexer \<Rightarrow> Lexer" where
  "lex_fraction lx =
     (if cur lx 0 = CHR ''.'' \<and> isdigit (cur lx 1)
      then advance_while isdigit (advance lx) else lx)"

definition is_sign :: "char \<Rightarrow> bool" where
  "is_sign c \<longleftrightarrow> c = CHR ''+'' \<or> c = CHR ''-''"

definition lex_exponent :: "Lexer \<Rightarrow> Lexer" where
  "lex_exponent lx =
     (if cur lx 0 = CHR ''e'' \<or> cur lx 0 = CHR ''E'' then
        (let e = (if is_sign (cur lx 1) then 2 else 1)
         in if isdigit (cur lx e) then
              (let lx = advance lx;
                   lx = (if is_sign (cur lx 0) then advance lx else lx)
               in advance_while isdigit lx)
            else lx)
      else lx)"

definition lex_number :: "Lexer \<Rightarrow> Token \<times> Lexer" where
  "lex_number lx =
     (if at_start lx 0 = CHR ''0'' \<and> (cur lx 0 = CHR ''x'' \<or> cur lx 0 = CHR ''X'') then
        (let lx = advance lx
         in if \<not> isxdigit (cur lx 0) then error_token ''Invalid hexadecimal literal.'' lx
            else let lx = advance_while isxdigit lx in (make_token TOKEN_NUMBER lx, lx))
      else
        (let lx = lex_exponent (lex_fraction (advance_while isdigit lx))
         in (make_token TOKEN_NUMBER lx, lx)))"

function lex_string :: "Lexer \<Rightarrow> Token \<times> Lexer" where
  "lex_string lx =
     (if is_at_end lx \<or> \<not> lex_current lx < length (lex_source lx)
      then error_token ''Unterminated string.'' lx
      else
        (let c = cur lx 0; lx = advance lx
         in if c = CHR 0x5C \<and> \<not> is_at_end lx then lex_string (advance lx)
            else if c = CHR 0x22 then (make_token TOKEN_STRING lx, lx)
            else lex_string lx))"
  by auto
termination
  by (relation "measure (\<lambda>lx. length (lex_source lx) - lex_current lx)")
    (auto simp: advance_def Let_def)

declare lex_string.simps [simp del]

definition match_token :: "char \<Rightarrow> TokenType \<Rightarrow> TokenType \<Rightarrow> Lexer \<Rightarrow> Token \<times> Lexer" where
  "match_token expected two one lx =
     (case match expected lx of (b, lx) \<Rightarrow> (make_token (if b then two else one) lx, lx))"

definition single_tokens :: "(char \<times> TokenType) list" where
  "single_tokens =
     [(CHR ''('', TOKEN_LPAREN), (CHR '')'', TOKEN_RPAREN), (CHR ''{'', TOKEN_LBRACE),
      (CHR ''}'', TOKEN_RBRACE), (CHR ''['', TOKEN_LBRACKET), (CHR '']'', TOKEN_RBRACKET),
      (CHR '';'', TOKEN_SEMICOLON), (CHR '','', TOKEN_COMMA), (CHR ''.'', TOKEN_DOT),
      (CHR ''-'', TOKEN_MINUS), (CHR ''+'', TOKEN_PLUS), (CHR ''/'', TOKEN_SLASH),
      (CHR ''*'', TOKEN_STAR)]"

definition scan_token :: "Lexer \<Rightarrow> Token \<times> Lexer" where
  "scan_token lx =
     (let lx = skip_whitespace lx; lx = lx\<lparr>lex_start := lex_current lx\<rparr> in
      if is_at_end lx then (make_token TOKEN_EOF lx, lx)
      else
        (let c = cur lx 0; lx = advance lx in
         if isalpha c \<or> c = CHR ''_'' then lex_identifier lx
         else if isdigit c then lex_number lx
         else case map_of single_tokens c of
           Some t \<Rightarrow> (make_token t lx, lx)
         | None \<Rightarrow>
             if c = CHR ''!'' then match_token (CHR ''='') TOKEN_BANG_EQUAL TOKEN_BANG lx
             else if c = CHR ''='' then match_token (CHR ''='') TOKEN_EQUAL_EQUAL TOKEN_EQUAL lx
             else if c = CHR ''<'' then match_token (CHR ''='') TOKEN_LESS_EQUAL TOKEN_LESS lx
             else if c = CHR ''>'' then match_token (CHR ''='') TOKEN_GREATER_EQUAL TOKEN_GREATER lx
             else if c = CHR '':'' then match_token (CHR '':'') TOKEN_COLON_COLON TOKEN_ERROR lx
             else if c = CHR 0x22 then lex_string lx
             else error_token ''Unexpected character.'' lx))"

section \<open>What a lexer step consumes\<close>

text \<open>The unread rest of the source, and the relation \<open>lx\<close> has read \<open>w\<close> to become \<open>lx'\<close>.\<close>

definition rest :: "Lexer \<Rightarrow> string" where
  "rest lx = drop (lex_current lx) (lex_source lx)"

definition eats :: "Lexer \<Rightarrow> string \<Rightarrow> Lexer \<Rightarrow> bool" where
  "eats lx w lx' \<longleftrightarrow> lex_source lx' = lex_source lx \<and> lex_start lx' = lex_start lx \<and>
     lex_current lx' = lex_current lx + length w \<and> rest lx = w @ rest lx'"

lemma eats_refl [simp]: "eats lx [] lx"
  by (simp add: eats_def)

lemma eats_trans: "eats lx v m \<Longrightarrow> eats m w n \<Longrightarrow> eats lx (v @ w) n"
  by (simp add: eats_def)

lemma eats_Cons: "eats lx [c] m \<Longrightarrow> eats m w n \<Longrightarrow> eats lx (c # w) n"
  using eats_trans [of lx "[c]" m w n] by simp

lemma cur_rest: "cur lx k = (if k < length (rest lx) then rest lx ! k else CHR 0x00)"
  by (auto simp: cur_def src_at_def rest_def)

lemma rest_Cons: "lex_current lx < length (lex_source lx) \<Longrightarrow> rest lx = cur lx 0 # rest (advance lx)"
  by (simp add: rest_def cur_def src_at_def Cons_nth_drop_Suc)

lemma eats_advance:
  "lex_current lx < length (lex_source lx) \<Longrightarrow> eats lx [cur lx 0] (advance lx)"
  by (simp add: eats_def rest_Cons)

lemma cur_not_nul: "cur lx 0 \<noteq> CHR 0x00 \<Longrightarrow> lex_current lx < length (lex_source lx)"
  by (auto simp: cur_def src_at_def split: if_splits)

lemma eats_advance_cur: "cur lx 0 = c \<Longrightarrow> c \<noteq> CHR 0x00 \<Longrightarrow> eats lx [c] (advance lx)"
  using eats_advance cur_not_nul by metis

lemma eats_while: "eats lx (takeWhile p (rest lx)) (advance_while p lx)"
proof -
  have "rest (advance_while p lx) = drop (length (takeWhile p (rest lx))) (rest lx)"
    by (simp add: rest_def advance_while_current add.commute)
  also have "\<dots> = dropWhile p (rest lx)"
    by (rule dropWhile_eq_drop [symmetric])
  finally show ?thesis
    by (simp add: eats_def advance_while_current rest_def)
qed

lemma eats_while_stop:
  "\<not> p (CHR 0x00) \<Longrightarrow> \<not> p (cur (advance_while p lx) 0)"
proof (induction p lx rule: advance_while.induct)
  case (1 p lx)
  then show ?case
    by (subst advance_while.simps) (auto simp: cur_def src_at_def)
qed

text \<open>Blank text: white space and comments.\<close>

function blank :: "string \<Rightarrow> bool" where
  "blank [] = True"
| "blank (c # cs) =
     (if c \<in> {CHR '' '', CHR 0x0D, CHR 0x09, CHR 0x0A} then blank cs
      else if c = CHR ''/'' \<and> cs \<noteq> [] \<and> hd cs = CHR ''/''
      then blank (dropWhile (\<lambda>c. c \<noteq> CHR 0x0A) cs)
      else False)"
  by pat_completeness auto
termination
  by (relation "measure length") (auto simp: le_imp_less_Suc length_dropWhile_le)

lemma blank_dropWhile: "blank g \<Longrightarrow> blank (dropWhile (\<lambda>c. c \<noteq> CHR 0x0A) g)"
  by (induction g) (auto split: if_splits)

lemma blank_comment:
  assumes "blank g" and "CHR 0x0A \<notin> set u"
  shows "blank (CHR ''/'' # CHR ''/'' # u @ g)"
proof -
  have "dropWhile (\<lambda>c. c \<noteq> CHR 0x0A) (u @ g) = dropWhile (\<lambda>c. c \<noteq> CHR 0x0A) g"
    using assms(2) by (induction u) auto
  with blank_dropWhile [OF assms(1)] show ?thesis by simp
qed

text \<open>
  \<^verbatim>\<open>skip_whitespace\<close> reads blank text and stops at the end or at a character that begins a token.
\<close>

definition token_head :: "string \<Rightarrow> bool" where
  "token_head r \<longleftrightarrow> r \<noteq> [] \<and> hd r \<notin> {CHR '' '', CHR 0x0D, CHR 0x09, CHR 0x0A} \<and>
     \<not> (\<exists>r'. r = CHR ''/'' # CHR ''/'' # r')"

lemma skip_whitespace_eats:
  assumes "CHR 0x00 \<notin> set (lex_source lx)"
  shows "\<exists>g. eats lx g (skip_whitespace lx) \<and> blank g \<and>
    (rest (skip_whitespace lx) = [] \<or> token_head (rest (skip_whitespace lx)))"
  using assms
proof (induction lx rule: skip_whitespace.induct)
  case (1 lx)
  show ?case
  proof (cases "lex_current lx < length (lex_source lx)")
    case False
    then show ?thesis by (subst (1 2 3) skip_whitespace.simps) (auto simp: rest_def intro!: exI [of _ "[]"])
  next
    case in_src: True
    note step = eats_advance [OF in_src]
    consider (ws) "cur lx 0 \<in> {CHR '' '', CHR 0x0D, CHR 0x09}"
      | (nl) "cur lx 0 = CHR 0x0A"
      | (com) "cur lx 0 = CHR ''/''" "cur lx 1 = CHR ''/''"
      | (tok) "cur lx 0 \<notin> {CHR '' '', CHR 0x0D, CHR 0x09, CHR 0x0A}"
          "\<not> (cur lx 0 = CHR ''/'' \<and> cur lx 1 = CHR ''/'')"
      by auto
    then show ?thesis
    proof cases
      case ws
      with 1(1) in_src 1(4) obtain g where "eats (advance lx) g (skip_whitespace (advance lx))"
        "blank g" "rest (skip_whitespace (advance lx)) = [] \<or> token_head (rest (skip_whitespace (advance lx)))"
        by auto
      moreover have "skip_whitespace lx = skip_whitespace (advance lx)"
        using ws in_src by (subst skip_whitespace.simps) simp
      ultimately show ?thesis using ws eats_Cons [OF step]
        by (intro exI [of _ "cur lx 0 # g"]) auto
    next
      case nl
      let ?m = "advance (lx\<lparr>lex_line := lex_line lx + 1\<rparr>)"
      from nl 1(2) in_src 1(4) obtain g where g: "eats ?m g (skip_whitespace ?m)"
        "blank g" "rest (skip_whitespace ?m) = [] \<or> token_head (rest (skip_whitespace ?m))"
        by auto
      have "skip_whitespace lx = skip_whitespace ?m"
        using nl in_src by (subst skip_whitespace.simps) simp
      moreover have "eats lx [CHR 0x0A] ?m"
        using step nl by (simp add: eats_def rest_def)
      ultimately show ?thesis using nl g eats_Cons
        by (intro exI [of _ "CHR 0x0A # g"]) auto
    next
      case com
      let ?p = "\<lambda>c. c \<noteq> CHR 0x0A \<and> c \<noteq> CHR 0x00"
      let ?m = "advance_while ?p lx"
      from com 1(3) in_src 1(4) obtain g where g: "eats ?m g (skip_whitespace ?m)"
        "blank g" "rest (skip_whitespace ?m) = [] \<or> token_head (rest (skip_whitespace ?m))"
        by auto
      have sk: "skip_whitespace lx = skip_whitespace ?m"
        using com in_src by (subst skip_whitespace.simps) simp
      obtain r where "rest lx = CHR ''/'' # CHR ''/'' # r"
        using com by (cases "rest lx"; cases "tl (rest lx)") (auto simp: cur_rest split: if_splits)
      then have w: "takeWhile ?p (rest lx) = CHR ''/'' # CHR ''/'' # takeWhile ?p r" by simp
      have "eats lx (takeWhile ?p (rest lx) @ g) (skip_whitespace lx)"
        using eats_trans [OF eats_while [of lx ?p] g(1)] sk by simp
      moreover have "blank (takeWhile ?p (rest lx) @ g)"
        unfolding w using blank_comment [OF g(2), of "takeWhile ?p r"]
        by (auto dest: set_takeWhileD)
      ultimately show ?thesis using g(3) sk by metis
    next
      case tok
      have "skip_whitespace lx = lx"
        using tok in_src by (subst skip_whitespace.simps) auto
      moreover obtain a r where r: "rest lx = a # r" using rest_Cons [OF in_src] by blast
      have "token_head (rest lx)"
        using tok by (auto simp: token_head_def cur_rest r split: if_splits)
      ultimately show ?thesis by (intro exI [of _ "[]"]) simp
    qed
  qed
qed

section \<open>The lexical grammar\<close>

definition ident_char :: "char \<Rightarrow> bool" where
  "ident_char c \<longleftrightarrow> isalpha c \<or> isdigit c \<or> c = CHR ''_''"

definition keyword_table :: "(string \<times> TokenType) list" where
  "keyword_table =
     [(''and'', TOKEN_AND), (''else'', TOKEN_ELSE), (''export'', TOKEN_EXPORT),
      (''false'', TOKEN_FALSE), (''fn'', TOKEN_FN), (''if'', TOKEN_IF), (''import'', TOKEN_IMPORT),
      (''let'', TOKEN_LET), (''module'', TOKEN_MODULE), (''nil'', TOKEN_NIL), (''or'', TOKEN_OR),
      (''return'', TOKEN_RETURN), (''true'', TOKEN_TRUE), (''while'', TOKEN_WHILE)]"

definition word_type :: "string \<Rightarrow> TokenType" where
  "word_type w = (case map_of keyword_table w of Some t \<Rightarrow> t | None \<Rightarrow> TOKEN_IDENTIFIER)"

definition operators :: "(string \<times> TokenType) list" where
  "operators = map (\<lambda>(c, t). ([c], t)) single_tokens @
     [(''!'', TOKEN_BANG), (''!='', TOKEN_BANG_EQUAL), (''='', TOKEN_EQUAL),
      (''=='', TOKEN_EQUAL_EQUAL), (''<'', TOKEN_LESS), (''<='', TOKEN_LESS_EQUAL),
      (''>'', TOKEN_GREATER), (''>='', TOKEN_GREATER_EQUAL), (''::'', TOKEN_COLON_COLON),
      ('':'', TOKEN_ERROR)]"

definition digits :: "string \<Rightarrow> bool" where
  "digits w \<longleftrightarrow> w \<noteq> [] \<and> list_all isdigit w"

definition fraction_lit :: "string \<Rightarrow> bool" where
  "fraction_lit f \<longleftrightarrow> f = [] \<or> (\<exists>ds. digits ds \<and> f = CHR ''.'' # ds)"

definition exponent_lit :: "string \<Rightarrow> bool" where
  "exponent_lit e \<longleftrightarrow> e = [] \<or> (\<exists>m s ds. m \<in> {CHR ''e'', CHR ''E''} \<and>
     (s = [] \<or> s = ''+'' \<or> s = ''-'') \<and> digits ds \<and> e = m # s @ ds)"

definition number_lit :: "string \<Rightarrow> bool" where
  "number_lit w \<longleftrightarrow>
     (\<exists>x hs. w = CHR ''0'' # x # hs \<and> x \<in> {CHR ''x'', CHR ''X''} \<and> hs \<noteq> [] \<and> list_all isxdigit hs) \<or>
     (\<exists>ds f e. w = ds @ f @ e \<and> digits ds \<and> fraction_lit f \<and> exponent_lit e)"

text \<open>The rest of a string literal after the opening quote, up to the first unescaped quote.\<close>

fun string_tail :: "string \<Rightarrow> bool" where
  "string_tail [] = False"
| "string_tail (c # cs) =
     (if c = CHR 0x5C then (case cs of [] \<Rightarrow> False | _ # cs' \<Rightarrow> string_tail cs')
      else if c = CHR 0x22 then cs = [] else string_tail cs)"

definition string_lit :: "string \<Rightarrow> bool" where
  "string_lit w \<longleftrightarrow> (\<exists>cs. w = CHR 0x22 # cs \<and> string_tail cs)"

text \<open>\<open>spells t w\<close>: the text \<open>w\<close> is a token of type \<open>t\<close>.\<close>

definition spells :: "TokenType \<Rightarrow> string \<Rightarrow> bool" where
  "spells t w \<longleftrightarrow>
     (w \<noteq> [] \<and> (isalpha (hd w) \<or> hd w = CHR ''_'') \<and> list_all ident_char w \<and> t = word_type w) \<or>
     (t = TOKEN_NUMBER \<and> number_lit w) \<or> (t = TOKEN_STRING \<and> string_lit w) \<or>
     (w, t) \<in> set operators \<or> (t = TOKEN_EOF \<and> w = [])"

lemma at_start_lexeme:
  assumes "eats m w lx" and "lex_start lx = lex_current m"
  shows "lexeme_len lx = length w" "k < length w \<Longrightarrow> at_start lx k = w ! k"
proof -
  show "lexeme_len lx = length w" using assms by (simp add: lexeme_len_def eats_def)
  show "at_start lx k = w ! k" if "k < length w"
  proof -
    have "drop (lex_current m) (lex_source lx) = w @ rest lx" using assms(1) by (simp add: eats_def rest_def)
    then have "drop (lex_current m) (lex_source lx) ! k = w ! k"
      and "length w \<le> length (lex_source lx) - lex_current m"
      using that by (simp_all add: nth_append flip: length_drop)
    then show ?thesis using that assms(2) by (auto simp: at_start_def src_at_def)
  qed
qed

lemma check_keyword_lexeme:
  assumes "eats m w lx" "lex_start lx = lex_current m"
  shows "check_keyword start r t lx =
    (if length w = start + length r \<and> drop start w = r then t else TOKEN_IDENTIFIER)"
  using at_start_lexeme [OF assms]
  by (auto simp: check_keyword_def list_eq_iff_nth_eq)

text \<open>The hand-written decision tree recognises exactly the table of keywords.\<close>

lemma identifier_type_word:
  assumes "eats m w lx" "lex_start lx = lex_current m" "w \<noteq> []"
  shows "identifier_type lx = word_type w"
proof -
  note ck = check_keyword_lexeme [OF assms(1,2)]
  have len: "lexeme_len lx = length w" by (rule at_start_lexeme [OF assms(1,2)])
  obtain a u where w: "w = a # u" using assms(3) by (cases w) auto
  have a0: "at_start lx 0 = a" using at_start_lexeme(2) [OF assms(1,2), of 0] w by simp
  have a1: "at_start lx 1 = b" if "u = b # v" for b v
    using at_start_lexeme(2) [OF assms(1,2), of 1] w that by simp
  show ?thesis
  proof (cases u)
    case Nil
    then show ?thesis
      by (simp add: identifier_type_def word_type_def keyword_table_def ck len w a0 Let_def)
  next
    case (Cons b v)
    show ?thesis
      unfolding identifier_type_def word_type_def keyword_table_def ck len a0 a1 [OF Cons] w Cons Let_def
      by simp
  qed
qed

section \<open>One token\<close>

text \<open>
  \<open>scanned m t lx w\<close>: from \<open>m\<close> the lexer has read \<open>w\<close>, is now in \<open>lx\<close>, and returned \<open>t\<close>, which is
  a token spelled \<open>w\<close> or an error token with a message.
\<close>

definition scanned :: "Lexer \<Rightarrow> Token \<Rightarrow> Lexer \<Rightarrow> string \<Rightarrow> bool" where
  "scanned m t lx w \<longleftrightarrow> eats m w lx \<and>
     (t = make_token (tok_type t) lx \<and> spells (tok_type t) w \<or>
      tok_type t = TOKEN_ERROR \<and> (\<exists>msg. tok_start t = Msg msg) \<and> lex_had_error lx)"

lemma tok_type_make_token [simp]: "tok_type (make_token t lx) = t"
  by (simp add: make_token_def)

lemma scanned_token: "eats m w lx \<Longrightarrow> spells t w \<Longrightarrow> scanned m (make_token t lx) lx w"
  by (simp add: scanned_def)

lemma scanned_error:
  "eats m w lx \<Longrightarrow> error_token msg lx = (t, lx') \<Longrightarrow> scanned m t lx' w"
  by (auto simp: scanned_def error_token_def eats_def rest_def)

lemma lex_identifier_scanned:
  assumes "eats m [c] lx" "isalpha c \<or> c = CHR ''_''" "lex_start m = lex_current m"
    and "lex_identifier lx = (t, lx')"
  shows "\<exists>w. scanned m t lx' (c # w)"
proof -
  let ?p = "\<lambda>c. isalpha c \<or> isdigit c \<or> c = CHR ''_''"
  let ?w = "c # takeWhile ?p (rest lx)"
  have t: "t = make_token (identifier_type lx') lx'" "lx' = advance_while ?p lx"
    using assms(4) by (auto simp: lex_identifier_def Let_def)
  have e: "eats m ?w lx'"
    using eats_Cons [OF assms(1) eats_while [of lx ?p]] t(2) by simp
  have "lex_start lx' = lex_current m" using e assms(3) by (simp add: eats_def)
  with e have "identifier_type lx' = word_type ?w" by (rule identifier_type_word) simp
  moreover have "list_all ident_char ?w"
    using assms(2) by (auto simp: ident_char_def list_all_iff dest: set_takeWhileD)
  ultimately show ?thesis
    using e t assms(2) by (intro exI) (auto intro!: scanned_token simp: spells_def)
qed

lemma takeWhile_all: "list_all p (takeWhile p xs)"
  by (auto simp: list_all_iff dest: set_takeWhileD)

lemma takeWhile_cur: "p (cur lx 0) \<Longrightarrow> \<not> p (CHR 0x00) \<Longrightarrow> takeWhile p (rest lx) \<noteq> []"
  by (cases "rest lx") (auto simp: cur_rest split: if_splits)

lemma not_isdigit_nul [simp]: "\<not> isdigit (CHR 0x00)" "\<not> isxdigit (CHR 0x00)" "\<not> isalpha (CHR 0x00)"
  by (simp_all add: isdigit_def isxdigit_def isalpha_def)

lemma lex_digits: "isdigit (cur lx 0) \<Longrightarrow> \<exists>ds. digits ds \<and> eats lx ds (advance_while isdigit lx)"
  using eats_while [of lx isdigit] takeWhile_cur [of isdigit lx] takeWhile_all [of isdigit "rest lx"]
  unfolding digits_def by auto

lemma cur_advance: "cur (advance lx) k = cur lx (Suc k)"
  by (simp add: cur_def)

lemma lex_fraction_eats: "\<exists>f. fraction_lit f \<and> eats lx f (lex_fraction lx)"
proof (cases "cur lx 0 = CHR ''.'' \<and> isdigit (cur lx 1)")
  case True
  then obtain ds where ds: "digits ds" "eats (advance lx) ds (advance_while isdigit (advance lx))"
    using lex_digits [of "advance lx"] by (auto simp: cur_advance)
  have "eats lx [CHR ''.''] (advance lx)" using True by (auto intro: eats_advance_cur)
  from eats_Cons [OF this ds(2)] show ?thesis
    using True ds(1) by (auto simp: lex_fraction_def fraction_lit_def)
qed (auto simp: lex_fraction_def fraction_lit_def intro: exI [of _ "[]"])

lemma lex_exponent_eats: "\<exists>e. exponent_lit e \<and> eats lx e (lex_exponent lx)"
proof (cases "(cur lx 0 = CHR ''e'' \<or> cur lx 0 = CHR ''E'') \<and>
    isdigit (cur lx (if is_sign (cur lx 1) then 2 else 1))")
  case True
  let ?m = "advance lx"
  let ?n = "if is_sign (cur ?m 0) then advance ?m else ?m"
  have r: "lex_exponent lx = advance_while isdigit ?n"
    using True by (simp add: lex_exponent_def Let_def)
  have "isdigit (cur ?n 0)" using True by (simp add: cur_advance numeral_2_eq_2 split: if_splits)
  then obtain ds where ds: "digits ds" "eats ?n ds (lex_exponent lx)"
    using lex_digits [of ?n] r by auto
  have m: "eats lx [cur lx 0] ?m" using True by (auto intro: eats_advance_cur)
  define sg where "sg = (if is_sign (cur ?m 0) then [cur ?m 0] else [])"
  have "eats ?m sg ?n" by (auto simp: sg_def is_sign_def intro: eats_advance_cur)
  from eats_Cons [OF m eats_trans [OF this ds(2)]]
  have "eats lx (cur lx 0 # sg @ ds) (lex_exponent lx)" .
  moreover have "exponent_lit (cur lx 0 # sg @ ds)"
    unfolding exponent_lit_def
  proof (rule disjI2, intro exI conjI)
    show "cur lx 0 \<in> {CHR ''e'', CHR ''E''}" using True by simp
    show "sg = [] \<or> sg = ''+'' \<or> sg = ''-''" by (simp add: sg_def is_sign_def)
  qed (use ds(1) in simp_all)
  ultimately show ?thesis by blast
next
  case False
  then have "lex_exponent lx = lx" by (auto simp: lex_exponent_def Let_def)
  then show ?thesis by (intro exI [of _ "[]"]) (simp add: exponent_lit_def)
qed

lemma lex_number_scanned:
  assumes "eats m [c] lx" "isdigit c" "lex_start m = lex_current m" "lex_number lx = (t, lx')"
  shows "\<exists>w. scanned m t lx' (c # w)"
proof (cases "at_start lx 0 = CHR ''0'' \<and> (cur lx 0 = CHR ''x'' \<or> cur lx 0 = CHR ''X'')")
  case True
  have "at_start lx 0 = c"
    using at_start_lexeme(2) [OF assms(1), of 0] assms(1,3) by (simp add: eats_def)
  with True have c: "c = CHR ''0''" by simp
  let ?x = "cur lx 0"
  have m: "eats m [c, ?x] (advance lx)"
    using True by (intro eats_Cons [OF assms(1)] eats_advance_cur) auto
  show ?thesis
  proof (cases "isxdigit (cur (advance lx) 0)")
    case False
    with True assms(4) have "error_token ''Invalid hexadecimal literal.'' (advance lx) = (t, lx')"
      by (simp add: lex_number_def Let_def)
    from scanned_error [OF m this] show ?thesis by blast
  next
    case hex: True
    let ?hs = "takeWhile isxdigit (rest (advance lx))"
    have t: "lx' = advance_while isxdigit (advance lx)" "t = make_token TOKEN_NUMBER lx'"
      using True hex assms(4) by (auto simp: lex_number_def Let_def)
    have "eats m ([c, ?x] @ ?hs) lx'" unfolding t(1) using m eats_while by (rule eats_trans)
    moreover have "?hs \<noteq> []" using hex by (intro takeWhile_cur) auto
    then have "number_lit (c # ?x # ?hs)"
      unfolding number_lit_def c using True by (auto intro: takeWhile_all)
    ultimately show ?thesis using t(2)
      by (intro exI [of _ "?x # ?hs"]) (simp add: scanned_token spells_def)
  qed
next
  case False
  let ?ds = "takeWhile isdigit (rest lx)"
  let ?m = "advance_while isdigit lx"
  obtain f where f: "fraction_lit f" "eats ?m f (lex_fraction ?m)" using lex_fraction_eats by blast
  obtain e where e: "exponent_lit e" "eats (lex_fraction ?m) e (lex_exponent (lex_fraction ?m))"
    using lex_exponent_eats by blast
  have t: "lx' = lex_exponent (lex_fraction ?m)" "t = make_token TOKEN_NUMBER lx'"
    using False assms(4) by (auto simp: lex_number_def Let_def)
  have "eats m (c # ?ds @ f @ e) lx'"
    unfolding t(1) by (rule eats_Cons [OF assms(1) eats_trans [OF eats_while eats_trans [OF f(2) e(2)]]])
  moreover have "digits (c # ?ds)"
    using assms(2) by (simp add: digits_def takeWhile_all)
  then have "number_lit (c # ?ds @ f @ e)"
    unfolding number_lit_def using f(1) e(1) by (metis append_Cons)
  ultimately show ?thesis using t(2)
    by (intro exI [of _ "?ds @ f @ e"]) (simp add: scanned_token spells_def)
qed

lemma at_end_rest: "CHR 0x00 \<notin> set (lex_source lx) \<Longrightarrow> is_at_end lx \<longleftrightarrow> rest lx = []"
  using set_drop_subset [of "lex_current lx" "lex_source lx"]
  by (cases "rest lx") (auto simp: is_at_end_def cur_rest rest_def [symmetric])

lemma lex_string_scanned:
  assumes "CHR 0x00 \<notin> set (lex_source lx)"
    and "lex_string lx = (t, lx')"
  shows "\<exists>w. eats lx w lx' \<and> (t = make_token TOKEN_STRING lx' \<and> string_tail w \<or>
    tok_type t = TOKEN_ERROR \<and> (\<exists>msg. tok_start t = Msg msg) \<and> lex_had_error lx')"
  using assms
proof (induction lx arbitrary: t lx' rule: lex_string.induct)
  case (1 lx)
  show ?case
  proof (cases "is_at_end lx \<or> \<not> lex_current lx < length (lex_source lx)")
    case True
    with 1(4) have "error_token ''Unterminated string.'' lx = (t, lx')"
      by (subst (asm) lex_string.simps) simp
    then show ?thesis
      by (intro exI [of _ "[]"]) (auto simp: error_token_def eats_def rest_def)
  next
    case False
    let ?c = "cur lx 0"
    have a: "eats lx [?c] (advance lx)" using False by (auto intro: eats_advance)
    consider (esc) "?c = CHR 0x5C" "\<not> is_at_end (advance lx)"
      | (quote) "?c = CHR 0x22"
      | (other) "?c \<noteq> CHR 0x22" "\<not> (?c = CHR 0x5C \<and> \<not> is_at_end (advance lx))" by blast
    then show ?thesis
    proof cases
      case esc
      let ?m = "advance (advance lx)"
      have "lex_string lx = lex_string ?m" using False esc by (subst lex_string.simps) simp
      with 1(1) [OF False refl refl] esc 1(3,4) obtain w where w: "eats ?m w lx'"
        "t = make_token TOKEN_STRING lx' \<and> string_tail w \<or>
         tok_type t = TOKEN_ERROR \<and> (\<exists>msg. tok_start t = Msg msg) \<and> lex_had_error lx'" by auto
      have "eats (advance lx) [cur (advance lx) 0] ?m"
        using esc(2) by (auto simp: is_at_end_def intro: eats_advance_cur)
      from eats_Cons [OF a eats_Cons [OF this w(1)]] show ?thesis
        using w(2) esc(1) by (intro exI [of _ "?c # cur (advance lx) 0 # w"]) auto
    next
      case quote
      then have "lex_string lx = (make_token TOKEN_STRING (advance lx), advance lx)"
        using False by (subst lex_string.simps) (simp add: Let_def)
      with 1(4) have "t = make_token TOKEN_STRING (advance lx)" "lx' = advance lx" by auto
      with a quote show ?thesis by (intro exI [of _ "[CHR 0x22]"]) simp
    next
      case other
      have "lex_string lx = lex_string (advance lx)" using False other by (subst lex_string.simps) (auto simp: Let_def)
      with 1(2) [OF False refl refl] other 1(3,4) obtain w where w: "eats (advance lx) w lx'"
        "t = make_token TOKEN_STRING lx' \<and> string_tail w \<or>
         tok_type t = TOKEN_ERROR \<and> (\<exists>msg. tok_start t = Msg msg) \<and> lex_had_error lx'" by auto
      have "w = []" if "?c = CHR 0x5C"
      proof -
        have "is_at_end (advance lx)" using that other(2) by simp
        then have "rest (advance lx) = []"
          using 1(3) at_end_rest [of "advance lx"] by simp
        with w(1) show ?thesis by (simp add: eats_def)
      qed
      with eats_Cons [OF a w(1)] w(2) other(1) show ?thesis
        by (intro exI [of _ "?c # w"]) auto
    qed
  qed
qed

lemma match_token_scanned:
  assumes "eats m [c] lx" "match_token e two one lx = (t, lx')" "e \<noteq> CHR 0x00"
    and "([c, e], two) \<in> set operators" "([c], one) \<in> set operators"
  shows "\<exists>w. scanned m t lx' (c # w)"
proof (cases "is_at_end lx \<or> cur lx 0 \<noteq> e")
  case True
  then have "match e lx = (False, lx)" by (auto simp: match_def)
  with assms(2) have "t = make_token one lx" "lx' = lx" by (auto simp: match_token_def)
  then show ?thesis using assms(1,5)
    by (intro exI [of _ "[]"]) (simp add: scanned_token spells_def)
next
  case False
  let ?m = "lx\<lparr>lex_current := lex_current lx + 1\<rparr>"
  have "match e lx = (True, ?m)" using False by (simp add: match_def)
  with assms(2) have t: "t = make_token two ?m" "lx' = ?m" by (auto simp: match_token_def)
  have "eats lx [e] (advance lx)" using False assms(3) by (auto intro: eats_advance_cur)
  then have "eats lx [e] ?m" by (simp add: eats_def rest_def)
  from eats_Cons [OF assms(1) this] show ?thesis
    using t assms(4) by (intro exI [of _ "[e]"]) (simp add: scanned_token spells_def)
qed

lemma single_tokens_operators: "map_of single_tokens c = Some t \<Longrightarrow> ([c], t) \<in> set operators"
  by (auto simp: operators_def dest!: map_of_SomeD)

lemma scan_body_scanned:
  assumes nul: "CHR 0x00 \<notin> set (lex_source m)" and st: "lex_start m = lex_current m"
    and r: "rest m \<noteq> []" and sc: "scan_token m = (t, lx')" and skip: "skip_whitespace m = m"
  shows "\<exists>c w. scanned m t lx' (c # w)"
proof -
  define c where "c = cur m 0"
  have in_src: "lex_current m < length (lex_source m)" using r by (simp add: rest_def)
  have "c \<in> set (lex_source m)" using in_src by (simp add: c_def cur_def src_at_def)
  with nul have ne: "\<not> is_at_end m" "c \<noteq> CHR 0x00" by (auto simp: is_at_end_def c_def)
  have a: "eats m [c] (advance m)" unfolding c_def by (rule eats_advance [OF in_src])
  have m: "m\<lparr>lex_start := lex_current m\<rparr> = m" using st by simp
  have nul': "CHR 0x00 \<notin> set (lex_source (advance m))" using nul by simp
  note sc' = sc [unfolded scan_token_def Let_def skip m, folded c_def, simplified ne(1) if_False]
  consider (id) "isalpha c \<or> c = CHR ''_''"
    | (num) "\<not> (isalpha c \<or> c = CHR ''_'')" "isdigit c"
    | (one) ty where "\<not> (isalpha c \<or> c = CHR ''_'')" "\<not> isdigit c" "map_of single_tokens c = Some ty"
    | (op) "\<not> (isalpha c \<or> c = CHR ''_'')" "\<not> isdigit c" "map_of single_tokens c = None"
    by (cases "map_of single_tokens c") auto
  then show ?thesis
  proof cases
    case id
    with sc' have "lex_identifier (advance m) = (t, lx')" by simp
    with lex_identifier_scanned [OF a id st] show ?thesis by blast
  next
    case num
    with sc' have "lex_number (advance m) = (t, lx')" by simp
    with lex_number_scanned [OF a num(2) st] show ?thesis by blast
  next
    case one
    with sc' have "t = make_token ty (advance m)" "lx' = advance m" by auto
    with a single_tokens_operators [OF one(3)] show ?thesis
      by (intro exI [of _ c] exI [of _ "[]"]) (simp add: scanned_token spells_def)
  next
    case op
    note sc' = sc' [simplified op option.case if_False]
    consider (two) e ty1 ty2 where "match_token e ty2 ty1 (advance m) = (t, lx')" "e \<noteq> CHR 0x00"
        "([c, e], ty2) \<in> set operators" "([c], ty1) \<in> set operators"
      | (str) "c = CHR 0x22" "lex_string (advance m) = (t, lx')"
      | (bad) "error_token ''Unexpected character.'' (advance m) = (t, lx')"
    proof -
      have ops: "(''!='', TOKEN_BANG_EQUAL) \<in> set operators" "(''!'', TOKEN_BANG) \<in> set operators"
        "(''=='', TOKEN_EQUAL_EQUAL) \<in> set operators" "(''='', TOKEN_EQUAL) \<in> set operators"
        "(''<='', TOKEN_LESS_EQUAL) \<in> set operators" "(''<'', TOKEN_LESS) \<in> set operators"
        "(''>='', TOKEN_GREATER_EQUAL) \<in> set operators" "(''>'', TOKEN_GREATER) \<in> set operators"
        "(''::'', TOKEN_COLON_COLON) \<in> set operators" "('':'', TOKEN_ERROR) \<in> set operators"
        by (simp_all add: operators_def)
      show ?thesis
        using sc' ops two [of "CHR ''=''"] two [of "CHR '':''"] str bad
        by (simp split: if_splits)
    qed
    then show ?thesis
    proof cases
      case two
      from match_token_scanned [OF a this] show ?thesis by blast
    next
      case str
      from lex_string_scanned [OF nul' str(2)] obtain w where w: "eats (advance m) w lx'"
        "t = make_token TOKEN_STRING lx' \<and> string_tail w \<or>
         tok_type t = TOKEN_ERROR \<and> (\<exists>msg. tok_start t = Msg msg) \<and> lex_had_error lx'" by blast
      from eats_Cons [OF a w(1)] w(2) str(1) show ?thesis
        by (intro exI [of _ c] exI [of _ w]) (auto simp: scanned_def spells_def string_lit_def)
    next
      case bad
      from scanned_error [OF a this] show ?thesis by blast
    qed
  qed
qed

lemma skip_whitespace_stop:
  "token_head (rest lx) \<Longrightarrow> skip_whitespace lx = lx"
  by (subst skip_whitespace.simps, cases "rest lx"; cases "tl (rest lx)")
    (auto simp: token_head_def cur_rest)

lemma scan_token_cases:
  assumes nul: "CHR 0x00 \<notin> set (lex_source lx)" and sc: "scan_token lx = (t, lx')"
  obtains g w m where "blank g" "eats lx g m" "lex_start lx' = lex_current m"
    "scanned (m\<lparr>lex_start := lex_current m\<rparr>) t lx' w"
    "w \<noteq> [] \<or> (w = [] \<and> rest m = [] \<and> tok_type t = TOKEN_EOF \<and> lx' = m\<lparr>lex_start := lex_current m\<rparr>)"
proof -
  define m where "m = skip_whitespace lx"
  define n where "n = m\<lparr>lex_start := lex_current m\<rparr>"
  from skip_whitespace_eats [OF nul] obtain g where g: "eats lx g m" "blank g"
    "rest m = [] \<or> token_head (rest m)" unfolding m_def by blast
  have src: "lex_source n = lex_source lx" "rest n = rest m" "lex_start n = lex_current n"
    "lex_current n = lex_current m"
    using g(1) by (simp_all add: n_def eats_def rest_def)
  show ?thesis
  proof (cases "rest m = []")
    case True
    then have "is_at_end n" using src by (simp add: is_at_end_def cur_rest)
    then have t: "t = make_token TOKEN_EOF n" "lx' = n"
      using sc by (auto simp: scan_token_def Let_def m_def n_def)
    have "scanned n t lx' []" using t by (simp add: scanned_token spells_def)
    then show ?thesis
      using that [OF g(2,1)] t src True by (auto simp: n_def)
  next
    case False
    then have "skip_whitespace n = n" using g(3) src by (intro skip_whitespace_stop) simp
    moreover have "n\<lparr>lex_start := lex_current n\<rparr> = n" using src(3) by simp
    with \<open>skip_whitespace n = n\<close> sc have "scan_token n = (t, lx')"
      by (simp only: scan_token_def Let_def m_def [symmetric] n_def [symmetric])
    ultimately obtain c w where w: "scanned n t lx' (c # w)"
      using scan_body_scanned [of n t lx'] nul src False by auto
    then have "lex_start lx' = lex_current m" using src by (simp add: scanned_def eats_def)
    with that [OF g(2,1)] w show ?thesis by (simp add: n_def)
  qed
qed

section \<open>The whole source\<close>

text \<open>Every token but the end token is at least one character long, so scanning ends.\<close>

definition lex_le :: "Lexer \<Rightarrow> Lexer \<Rightarrow> bool" where
  "lex_le a b \<longleftrightarrow> lex_source b = lex_source a \<and> lex_current a \<le> lex_current b"

lemma lex_le_trans: "lex_le a b \<Longrightarrow> lex_le b c \<Longrightarrow> lex_le a c"
  by (simp add: lex_le_def)

lemma lex_le_simps [simp]:
  "lex_le a a" "lex_le a (advance a)" "lex_le a (advance_while p a)"
  "lex_le a (lex_fraction a)" "lex_le a (snd (match e a))" "lex_le a (snd (error_token msg a))"
  by (simp_all add: lex_le_def advance_while_current lex_fraction_def match_def error_token_def)

lemma lex_le_skip [intro]: "lex_le a (skip_whitespace a)"
proof (induction a rule: skip_whitespace.induct)
  case (1 lx)
  then show ?case
    by (subst skip_whitespace.simps) (auto simp: lex_le_def advance_while_current)
qed

lemma lex_le_string [intro]: "lex_le a (snd (lex_string a))"
proof (induction a rule: lex_string.induct)
  case (1 lx)
  note IH = 1(1) [OF _ refl refl] 1(2) [OF _ refl refl]
  show ?case
    by (subst lex_string.simps)
      (auto simp: Let_def intro: lex_le_trans [OF lex_le_simps(2) IH(2)]
        lex_le_trans [OF lex_le_simps(2) lex_le_trans [OF lex_le_simps(2) IH(1)]])
qed

lemma lex_le_exponent [intro]: "lex_le a (lex_exponent a)"
  by (auto simp: lex_exponent_def Let_def lex_le_def advance_while_current)

lemma lex_le_number [intro]: "lex_le a (snd (lex_number a))"
proof -
  have "lex_le a (lex_exponent (lex_fraction (advance_while isdigit a)))"
    by (rule lex_le_trans [OF lex_le_simps(3) lex_le_trans [OF lex_le_simps(4) lex_le_exponent]])
  then show ?thesis
    by (auto simp: lex_number_def Let_def lex_le_def advance_while_current error_token_def)
qed

lemma lex_le_match_token [intro]: "lex_le a (snd (match_token e two one a))"
  using lex_le_simps(5) [of a e] by (simp add: match_token_def case_prod_beta)

lemma scan_token_progress:
  assumes "scan_token lx = (t, lx')" "tok_type t \<noteq> TOKEN_EOF"
  shows "lex_source lx' = lex_source lx" "lex_current lx < length (lex_source lx)"
    "lex_current lx < lex_current lx'"
proof -
  define m where "m = (skip_whitespace lx)\<lparr>lex_start := lex_current (skip_whitespace lx)\<rparr>"
  have m: "lex_le lx m" using lex_le_skip [of lx] by (simp add: m_def lex_le_def)
  have ne: "\<not> is_at_end m" using assms by (auto simp: scan_token_def Let_def m_def)
  have "lex_le (advance m) (snd (scan_token lx))"
    using ne unfolding scan_token_def Let_def m_def [symmetric]
    by (simp add: lex_identifier_def Let_def lex_le_number lex_le_string lex_le_match_token
        split: option.split)
  with m assms(1) show "lex_source lx' = lex_source lx" "lex_current lx < lex_current lx'"
    by (simp_all add: lex_le_def)
  show "lex_current lx < length (lex_source lx)"
    using m ne cur_not_nul [of m] by (auto simp: lex_le_def is_at_end_def)
qed

text \<open>
  The tokens of a source up to the end token, each with the text skipped before it and the text it
  was read from.
\<close>

definition slice :: "string \<Rightarrow> nat \<Rightarrow> nat \<Rightarrow> string" where
  "slice s a b = take (b - a) (drop a s)"

function scan_all :: "Lexer \<Rightarrow> (string \<times> string \<times> Token) list" where
  "scan_all lx = (case scan_token lx of (t, lx') \<Rightarrow>
     (slice (lex_source lx) (lex_current lx) (lex_start lx'),
      slice (lex_source lx) (lex_start lx') (lex_current lx'), t) #
     (if tok_type t = TOKEN_EOF then [] else scan_all lx'))"
  by auto
termination
  by (relation "measure (\<lambda>lx. length (lex_source lx) - lex_current lx)")
    (simp_all, metis diff_less_mono2 scan_token_progress)

declare scan_all.simps [simp del]

text \<open>What a piece of the source and its token have to do with each other.\<close>

definition good_piece :: "string \<times> string \<times> Token \<Rightarrow> bool" where
  "good_piece p = (case p of (g, w, t) \<Rightarrow> blank g \<and>
     (spells (tok_type t) w \<and> tok_length t = int (length w) \<or>
      tok_type t = TOKEN_ERROR \<and> w \<noteq> [] \<and> (\<exists>msg. tok_start t = Msg msg)))"

lemma slice_eats:
  assumes "eats m w lx" "lex_start lx = lex_current m"
  shows "slice (lex_source m) (lex_start lx) (lex_current lx) = w"
proof -
  have "drop (lex_current m) (lex_source m) = w @ rest lx" "lex_current lx - lex_current m = length w"
    using assms(1) by (simp_all add: eats_def rest_def)
  then show ?thesis unfolding slice_def assms(2) by simp
qed

lemma spells_EOF: "spells TOKEN_EOF w \<Longrightarrow> w = []"
  by (auto simp: spells_def word_type_def keyword_table_def operators_def single_tokens_def
      split: if_splits)

lemma scan_token_piece:
  assumes nul: "CHR 0x00 \<notin> set (lex_source lx)" and len: "length (lex_source lx) < 2 ^ 31"
    and sc: "scan_token lx = (t, lx')"
  defines "g \<equiv> slice (lex_source lx) (lex_current lx) (lex_start lx')"
    and "w \<equiv> slice (lex_source lx) (lex_start lx') (lex_current lx')"
  shows "rest lx = g @ w @ rest lx'" "good_piece (g, w, t)" "lex_source lx' = lex_source lx"
    "tok_type t = TOKEN_EOF \<Longrightarrow> w = [] \<and> rest lx' = []"
proof -
  from scan_token_cases [OF nul sc] obtain g' w' m where
    g: "blank g'" "eats lx g' m" "lex_start lx' = lex_current m"
    and w: "scanned (m\<lparr>lex_start := lex_current m\<rparr>) t lx' w'"
    and e: "w' \<noteq> [] \<or> (w' = [] \<and> rest m = [] \<and> tok_type t = TOKEN_EOF \<and> lx' = m\<lparr>lex_start := lex_current m\<rparr>)"
    by blast
  have w': "eats (m\<lparr>lex_start := lex_current m\<rparr>) w' lx'" using w by (simp add: scanned_def)
  have eq: "g = g'" "w = w'"
    using g(2,3) slice_eats [OF w'] unfolding g_def w_def
    by (simp_all add: slice_def eats_def rest_def)
  show "rest lx = g @ w @ rest lx'" "lex_source lx' = lex_source lx"
    using g(2) w' eq by (simp_all add: eats_def rest_def)
  have "length w' \<le> length (rest lx)" using \<open>rest lx = g @ w @ rest lx'\<close> eq by simp
  then have "int (length w') < 2 ^ 31" using len by (simp add: rest_def)
  then have l: "tok_length (make_token ty lx') = int (length w')" for ty
    using g(3) w' by (simp add: make_token_def eats_def c_int_id)
  consider (tok) "t = make_token (tok_type t) lx'" "spells (tok_type t) w'"
    | (err) "tok_type t = TOKEN_ERROR" "\<exists>msg. tok_start t = Msg msg"
    using w by (auto simp: scanned_def)
  then show "good_piece (g, w, t)"
  proof cases
    case tok
    then have "tok_length t = int (length w')" using l by metis
    with tok g(1) show ?thesis by (simp add: good_piece_def eq)
  next
    case err
    with e g(1) show ?thesis by (auto simp: good_piece_def eq)
  qed
  show "w = [] \<and> rest lx' = []" if "tok_type t = TOKEN_EOF"
    using that e w eq spells_EOF by (auto simp: scanned_def rest_def)
qed

lemma scan_all_pieces:
  assumes "CHR 0x00 \<notin> set (lex_source lx)" and "length (lex_source lx) < 2 ^ 31"
  shows "concat (map (\<lambda>(g, w, t). g @ w) (scan_all lx)) = rest lx \<and>
    list_all good_piece (scan_all lx) \<and>
    filter (\<lambda>(g, w, t). tok_type t = TOKEN_EOF) (scan_all lx) = [last (scan_all lx)]"
  using assms
proof (induction lx rule: scan_all.induct)
  case (1 lx)
  obtain t lx' where sc: "scan_token lx = (t, lx')" by (cases "scan_token lx")
  note p = scan_token_piece [OF 1(2,3) sc]
  show ?case
  proof (cases "tok_type t = TOKEN_EOF")
    case True
    with sc have "scan_all lx = [(slice (lex_source lx) (lex_current lx) (lex_start lx'),
        slice (lex_source lx) (lex_start lx') (lex_current lx'), t)]"
      by (subst scan_all.simps) simp
    with p True show ?thesis by simp
  next
    case False
    with sc have "scan_all lx = (slice (lex_source lx) (lex_current lx) (lex_start lx'),
        slice (lex_source lx) (lex_start lx') (lex_current lx'), t) # scan_all lx'"
      by (subst scan_all.simps) simp
    moreover have "scan_all lx' \<noteq> []"
      by (subst scan_all.simps) (simp add: case_prod_beta)
    ultimately show ?thesis using 1(1) [OF sc [symmetric] False] 1(2,3) p False
      by (simp add: p(3))
  qed
qed

text \<open>
  C20. The lexer loses nothing and invents nothing: for every C string shorter than 2 GiB, scanning
  ends, the skipped texts and the token texts put together again are the source, every skipped
  text is white space and comments, every token is spelled as its type says and has the length of
  its text, errors apart, and the only end token is the last token.
\<close>

theorem lexer_partitions_source:
  assumes "CHR 0x00 \<notin> set source" and "length source < 2 ^ 31"
  shows "concat (map (\<lambda>(g, w, t). g @ w) (scan_all (init_lexer source))) = source \<and>
    list_all good_piece (scan_all (init_lexer source)) \<and>
    filter (\<lambda>(g, w, t). tok_type t = TOKEN_EOF) (scan_all (init_lexer source)) =
      [last (scan_all (init_lexer source))]"
  using scan_all_pieces [of "init_lexer source"] assms
  by (simp add: init_lexer_def rest_def)

theorem lexer_partitions_source_witness:
  "map (\<lambda>(g, w, t). (g, w, tok_type t)) (scan_all (init_lexer ''let x=1.5; // c'')) =
     [([], ''let'', TOKEN_LET), ('' '', ''x'', TOKEN_IDENTIFIER), ([], ''='', TOKEN_EQUAL),
      ([], ''1.5'', TOKEN_NUMBER), ([], '';'', TOKEN_SEMICOLON), ('' // c'', [], TOKEN_EOF)] \<and>
   concat (map (\<lambda>(g, w, t). g @ w) (scan_all (init_lexer ''let x=1.5; // c''))) = ''let x=1.5; // c''"
proof (rule conjI)
  show "concat (map (\<lambda>(g, w, t). g @ w) (scan_all (init_lexer ''let x=1.5; // c''))) = ''let x=1.5; // c''"
    using lexer_partitions_source [of "''let x=1.5; // c''"] by simp
qed code_simp

lemma skip_newlines:
  "lex_source lx = replicate (lex_current lx) (CHR 0x0A) @ replicate n (CHR 0x0A) @ ''x'' \<Longrightarrow>
   skip_whitespace lx =
     lx\<lparr>lex_current := lex_current lx + n, lex_line := lex_line lx + 2 * int n,
        line_start := (if n = 0 then line_start lx else lex_current lx + n)\<rparr>"
proof (induction n arbitrary: lx)
  case 0
  then show ?case
    by (subst skip_whitespace.simps) (simp add: cur_def src_at_def nth_append)
next
  case (Suc n)
  let ?m = "advance (lx\<lparr>lex_line := lex_line lx + 1\<rparr>)"
  have c: "cur lx 0 = CHR 0x0A" "lex_current lx < length (lex_source lx)"
    using Suc.prems by (simp_all add: cur_def src_at_def nth_append)
  then have "skip_whitespace lx = skip_whitespace ?m" by (subst skip_whitespace.simps) simp
  moreover have "cur (lx\<lparr>lex_line := lex_line lx + 1\<rparr>) 0 = CHR 0x0A" using c(1) by (simp add: cur_def)
  then have m: "?m = lx\<lparr>lex_current := lex_current lx + 1, lex_line := lex_line lx + 2,
      line_start := lex_current lx + 1\<rparr>"
    by (simp add: advance_def Let_def)
  moreover have "lex_source ?m = replicate (lex_current ?m) (CHR 0x0A) @ replicate n (CHR 0x0A) @ ''x''"
    using Suc.prems by (simp add: replicate_app_Cons_same)
  note IH = Suc.IH [OF this]
  ultimately show ?case by (simp add: IH [unfolded m])
qed


end
