(* ===== verification/Fex_Parser.thy ===== *)
theory Fex_Parser
  imports Fe_Eval Fex_Lexer
begin

text \<open>
  The parser and compiler of the FeX front end (\<^verbatim>\<open>fex.c\<close>): a Pratt parser that builds the code as lists in
  the heap of the runtime. The state is the runtime context with the lexer and the parser of the
  current compile scope, the flag that says whether a try scope is active, and what has been
  written to the standard error stream. Nested calls of the three mutually recursive productions
  (expression, statement, declaration) go through a parameter \<open>rec\<close>.
\<close>

section \<open>State\<close>

record pstate =
  p_ctx :: fe_Context
  p_lexer :: Lexer
  p_source_name :: string
  p_current :: Token
  p_previous :: Token
  p_had_error :: bool
  p_panic_mode :: bool
  p_try :: bool
  p_stderr :: string

text \<open>An error of the runtime, or a compile or input error raised in a try scope by \<^verbatim>\<open>fex_try_raise\<close>.\<close>

datatype perr = RtError fe_err | CompileError string int "int option" string | IoError string string

type_synonym 'a pcomp = "(pstate, perr, 'a) comp"

definition rt :: "'a fcomp \<Rightarrow> 'a pcomp" where
  "rt m s = (case m (p_ctx s) of
      (Inl e, c) \<Rightarrow> (Inl (RtError e), s\<lparr>p_ctx := c\<rparr>)
    | (Inr x, c) \<Rightarrow> (Inr x, s\<lparr>p_ctx := c\<rparr>))"

section \<open>Temporary allocations\<close>

definition sizeof_FexTempAlloc :: size_t where "sizeof_FexTempAlloc = 24"

definition temp_size :: "nat \<Rightarrow> size_t" where
  "temp_size n = sizeof_FexTempAlloc + (if (of_nat n :: size_t) > 0 then of_nat n else 1)"

definition fex_temp_alloc :: "nat \<Rightarrow> unit fcomp" where
  "fex_temp_alloc n = bnd (lift_st (tracked_alloc (temp_size n))) (\<lambda>b. case b of
      None \<Rightarrow> memory_error ''out of memory''
    | Some sz \<Rightarrow> modify (\<lambda>c. c\<lparr>temp_allocs := sz # temp_allocs c\<rparr>))"

definition fex_temp_free :: "nat \<Rightarrow> unit fcomp" where
  "fex_temp_free n = sq (modify (\<lambda>c. c\<lparr>temp_allocs := remove1 (temp_size n) (temp_allocs c)\<rparr>))
     (modify (tracked_free (Some (temp_size n))))"

section \<open>Tokens\<close>

text \<open>The text of a token, and the text from its start on when it is printed as a C string.\<close>

definition token_text :: "pstate \<Rightarrow> Token \<Rightarrow> string" where
  "token_text s t = (case tok_start t of
      Src i \<Rightarrow> take (nat (tok_length t)) (drop i (lex_source (p_lexer s)))
    | Msg m \<Rightarrow> take (nat (tok_length t)) m)"

definition token_cstring :: "pstate \<Rightarrow> Token \<Rightarrow> string" where
  "token_cstring s t = (case tok_start t of Src i \<Rightarrow> drop i (lex_source (p_lexer s)) | Msg m \<Rightarrow> m)"

definition error_text :: "pstate \<Rightarrow> Token \<Rightarrow> string \<Rightarrow> string" where
  "error_text s t message =
     ''[line '' @ int_string (tok_line t) @ ''] Error'' @
     (if tok_type t = TOKEN_EOF then '' at end''
      else if tok_type t \<noteq> TOKEN_ERROR then '' at '' @ [CHR 0x27] @ token_text s t @ [CHR 0x27] else []) @
     '': '' @ message @ [CHR 0x0A]"

definition error_at :: "Token \<Rightarrow> string \<Rightarrow> unit pcomp" where
  "error_at t message =
     bnd (gets (\<lambda>s. (p_try s, p_panic_mode s, p_source_name s))) (\<lambda>(try_active, panic, name).
       if try_active then throw (CompileError name (tok_line t) (tok_column t) message)
       else if panic then ret ()
       else modify (\<lambda>s. s\<lparr>p_panic_mode := True, p_stderr := p_stderr s @ error_text s t message, p_had_error := True\<rparr>))"

definition error_at_current :: "string \<Rightarrow> unit pcomp" where
  "error_at_current message = bnd (gets p_current) (\<lambda>t. error_at t message)"

definition error :: "string \<Rightarrow> unit pcomp" where
  "error message = bnd (gets p_previous) (\<lambda>t. error_at t message)"

definition scan :: "unit pcomp" where
  "scan = modify (\<lambda>s. case scan_token (p_lexer s) of (t, lx) \<Rightarrow> s\<lparr>p_current := t, p_lexer := lx\<rparr>)"

primrec advance_loop :: "nat \<Rightarrow> unit pcomp" where
  "advance_loop 0 = throw (RtError OutOfFuel)"
| "advance_loop (Suc k) =
     sq scan (bnd (gets (\<lambda>s. (p_current s, token_cstring s (p_current s)))) (\<lambda>(t, message).
       if tok_type t \<noteq> TOKEN_ERROR then ret ()
       else sq (error_at_current message) (advance_loop k)))"

text \<open>Every error token has taken at least one character.\<close>

definition parser_advance :: "unit pcomp" where
  "parser_advance =
     sq (modify (\<lambda>s. s\<lparr>p_previous := p_current s\<rparr>))
     (bnd (gets (\<lambda>s. Suc (length (lex_source (p_lexer s)) - lex_current (p_lexer s)))) advance_loop)"

definition check :: "TokenType \<Rightarrow> bool pcomp" where
  "check t = gets (\<lambda>s. tok_type (p_current s) = t)"

definition consume :: "TokenType \<Rightarrow> string \<Rightarrow> unit pcomp" where
  "consume t message = bnd (check t) (\<lambda>b. if b then parser_advance else error_at_current message)"

definition parser_match :: "TokenType \<Rightarrow> bool pcomp" where
  "parser_match t = bnd (check t) (\<lambda>b. if \<not> b then ret False else sq parser_advance (ret True))"

section \<open>Building code\<close>

text \<open>The columns of tokens other than error tokens are always set.\<close>

definition column :: "Token \<Rightarrow> int" where
  "column t = (case tok_column t of Some i \<Rightarrow> i | None \<Rightarrow> 0)"

definition fex_cons_tok :: "ptr \<Rightarrow> ptr \<Rightarrow> ptr pcomp" where
  "fex_cons_tok a d =
     bnd (rt (fe_cons a d)) (\<lambda>cell. bnd (gets (\<lambda>s. (p_previous s, p_source_name s))) (\<lambda>(t, name).
       sq (rt (fex_record_span cell name (tok_line t) (column t) (tok_line t) (column t) None)) (ret cell)))"

definition symbol_from_token :: "ptr pcomp" where
  "symbol_from_token =
     bnd (gets (\<lambda>s. (tok_length (p_previous s), token_text s (p_previous s)))) (\<lambda>(len, name).
       if len \<ge> 256 then sq (error ''Identifier too long.'') (ret Nil)
       else rt (fe_symbol name))"

primrec cons_args :: "ptr list \<Rightarrow> ptr fcomp" where
  "cons_args [] = ret Nil"
| "cons_args (x # xs) = bnd (cons_args xs) (fe_cons x)"

text \<open>
  The form \<open>(op . args)\<close>: the shape shared by \<^verbatim>\<open>make_unary\<close>, \<^verbatim>\<open>make_binary\<close>, \<^verbatim>\<open>make_ternary\<close> and the others. The operands
  are rooted, the symbol is interned and rooted, the list is built from its end, and the roots are
  dropped again, the one of the result included.
\<close>

definition make_form :: "string \<Rightarrow> ptr list \<Rightarrow> (ptr \<Rightarrow> unit pcomp) \<Rightarrow> ptr pcomp" where
  "make_form op args mark_span =
     bnd (rt fe_savegc) (\<lambda>guard. sq (rt (push_all args))
     (bnd (rt (fe_symbol op)) (\<lambda>op_s. sq (rt (fe_pushgc op_s))
     (bnd (rt (cons_args args)) (\<lambda>tmp. bnd (fex_cons_tok op_s tmp) (\<lambda>res.
     sq (mark_span res) (sq (rt (fe_restoregc guard)) (ret res))))))))"

definition make_unary :: "string \<Rightarrow> ptr \<Rightarrow> ptr pcomp" where
  "make_unary op right = make_form op [right] (\<lambda>_. ret ())"

definition make_binary :: "string \<Rightarrow> ptr \<Rightarrow> ptr \<Rightarrow> ptr pcomp" where
  "make_binary op left right = make_form op [left, right] (\<lambda>_. ret ())"

definition make_ternary :: "string \<Rightarrow> ptr \<Rightarrow> ptr \<Rightarrow> ptr \<Rightarrow> ptr pcomp" where
  "make_ternary op a b cobj = make_form op [a, b, cobj] (\<lambda>_. ret ())"

definition copy_span_from :: "ptr \<Rightarrow> ptr \<Rightarrow> unit pcomp" where
  "copy_span_from dst src =
     bnd (gets (\<lambda>s. fex_lookup_span src (p_ctx s))) (\<lambda>sp. case sp of
       None \<Rightarrow> ret ()
     | Some sp \<Rightarrow> rt (fex_record_span dst (span_source_name sp) (start_line sp) (start_col sp)
         (end_line sp) (end_col sp) (span_source sp)))"

definition FEX_FN_DECL_TAG :: string where "FEX_FN_DECL_TAG = ''[fex-fn-decl]''"
definition FEX_EXPORT_FN_DECL_TAG :: string where "FEX_EXPORT_FN_DECL_TAG = ''[fex-export-fn-decl]''"

definition make_named_fn_decl :: "ptr \<Rightarrow> ptr \<Rightarrow> bool \<Rightarrow> ptr pcomp" where
  "make_named_fn_decl name fn_expr is_export =
     make_form (if is_export then FEX_EXPORT_FN_DECL_TAG else FEX_FN_DECL_TAG) [name, fn_expr] (\<lambda>_. ret ())"

definition decl_parts :: "bool \<Rightarrow> ptr \<Rightarrow> (ptr \<times> ptr \<times> bool) option fcomp" where
  "decl_parts is_export stmt =
     bnd (fe_cdr stmt) (\<lambda>args. bnd (gets (\<lambda>c. typeof c args)) (\<lambda>t. if t \<noteq> FE_TPAIR then ret None
     else bnd (fe_car args) (\<lambda>name. bnd (fe_cdr args) (\<lambda>args. bnd (gets (\<lambda>c. typeof c args)) (\<lambda>t.
       if t \<noteq> FE_TPAIR then ret None
       else bnd (fe_car args) (\<lambda>fn_expr. bnd (gets (\<lambda>c. typeof c name)) (\<lambda>t.
         ret (if t = FE_TSYMBOL then Some (name, fn_expr, is_export) else None))))))))"

definition extract_named_fn_decl :: "ptr \<Rightarrow> (ptr \<times> ptr \<times> bool) option fcomp" where
  "extract_named_fn_decl stmt =
     bnd (gets (\<lambda>c. typeof c stmt)) (\<lambda>t. if t \<noteq> FE_TPAIR then ret None
     else bnd (fe_car stmt) (\<lambda>tag. bnd (fe_symbol FEX_FN_DECL_TAG) (\<lambda>fn_tag.
       if tag = fn_tag then decl_parts False stmt
       else bnd (fe_symbol FEX_EXPORT_FN_DECL_TAG) (\<lambda>export_tag.
         if tag = export_tag then decl_parts True stmt else ret None))))"

definition make_do_two_with_span :: "ptr \<Rightarrow> ptr \<Rightarrow> ptr \<Rightarrow> ptr pcomp" where
  "make_do_two_with_span first second template_node =
     make_form ''do'' [first, second] (\<lambda>res. copy_span_from res template_node)"

definition make_do_three_with_span :: "ptr \<Rightarrow> ptr \<Rightarrow> ptr \<Rightarrow> ptr \<Rightarrow> ptr pcomp" where
  "make_do_three_with_span first second third template_node =
     make_form ''do'' [first, second, third] (\<lambda>res. copy_span_from res template_node)"

section \<open>Function declarations are declared ahead\<close>

text \<open>\<^verbatim>\<open>*fe_cdr_ptr(c, tail) = cell\<close>\<close>

definition put_cdr :: "ptr \<Rightarrow> ptr \<Rightarrow> unit fcomp" where
  "put_cdr tail c =
     (if isnil tail then fe_error ''cannot get cdr pointer of nil''
      else sq (checktype tail FE_TPAIR) (set_cdr tail c))"

text \<open>The three loops over the statements; lists of statements are finite, so the fuel is the heap's size.\<close>

primrec count_fn_decls :: "nat \<Rightarrow> nat \<Rightarrow> ptr \<Rightarrow> nat fcomp" where
  "count_fn_decls 0 hoisted p = throw OutOfFuel"
| "count_fn_decls (Suc k) hoisted p =
     (if isnil p then ret hoisted
      else bnd (fe_car p) (\<lambda>stmt. bnd (extract_named_fn_decl stmt) (\<lambda>d.
        bnd (fe_cdr p) (count_fn_decls k (if d = None then hoisted else Suc hoisted)))))"

primrec predeclare :: "nat \<Rightarrow> nat \<Rightarrow> ptr \<Rightarrow> ptr \<Rightarrow> ptr pcomp" where
  "predeclare 0 guard tail p = throw (RtError OutOfFuel)"
| "predeclare (Suc k) guard tail p =
     (if isnil p then ret tail
      else bnd (rt (fe_car p)) (\<lambda>stmt. bnd (rt (extract_named_fn_decl stmt)) (\<lambda>d.
        bnd (case d of
            None \<Rightarrow> ret tail
          | Some (name, _, _) \<Rightarrow>
              bnd (make_binary ''let'' name Nil) (\<lambda>placeholder. sq (copy_span_from placeholder stmt)
                (sq (rt (fe_pushgc placeholder)) (bnd (rt (fe_cons placeholder Nil)) (\<lambda>cell.
                sq (rt (put_cdr tail cell)) (sq (rt (fe_restoregc (guard + 1))) (ret cell)))))))
        (\<lambda>tail. bnd (rt (fe_cdr p)) (\<lambda>p. predeclare k guard tail p)))))"

definition rewrite_decl :: "ptr \<Rightarrow> ptr \<Rightarrow> ptr \<Rightarrow> bool \<Rightarrow> ptr pcomp" where
  "rewrite_decl stmt name fn_expr is_export =
     bnd (make_binary ''='' name fn_expr) (\<lambda>assign_expr. sq (copy_span_from assign_expr stmt)
       (if is_export then
          bnd (rt fe_savegc) (\<lambda>inner_guard. sq (rt (fe_pushgc assign_expr))
            (bnd (make_unary ''export'' name) (\<lambda>export_expr. sq (copy_span_from export_expr stmt)
            (bnd (make_do_three_with_span assign_expr export_expr name stmt) (\<lambda>rewritten.
            sq (rt (fe_restoregc inner_guard)) (ret rewritten))))))
        else make_do_two_with_span assign_expr name stmt))"

primrec rewrite_stmts :: "nat \<Rightarrow> nat \<Rightarrow> ptr \<Rightarrow> ptr \<Rightarrow> unit pcomp" where
  "rewrite_stmts 0 guard tail p = throw (RtError OutOfFuel)"
| "rewrite_stmts (Suc k) guard tail p =
     (if isnil p then ret ()
      else bnd (rt (fe_car p)) (\<lambda>stmt. bnd (rt (extract_named_fn_decl stmt)) (\<lambda>d.
        bnd (case d of None \<Rightarrow> ret stmt | Some (name, fn_expr, is_export) \<Rightarrow> rewrite_decl stmt name fn_expr is_export)
        (\<lambda>rewritten. sq (rt (fe_pushgc rewritten)) (bnd (rt (fe_cons rewritten Nil)) (\<lambda>cell.
          sq (rt (put_cdr tail cell)) (sq (rt (fe_restoregc (guard + 1)))
          (bnd (rt (fe_cdr p)) (\<lambda>p. rewrite_stmts k guard cell p)))))))))"

definition rewrite_named_fn_declarations :: "ptr \<Rightarrow> nat \<Rightarrow> (ptr \<times> nat) pcomp" where
  "rewrite_named_fn_declarations stmts count =
     bnd (gets (\<lambda>s. walk_fuel (p_ctx s))) (\<lambda>k. bnd (rt (count_fn_decls k 0 stmts)) (\<lambda>hoisted.
       if hoisted = 0 then ret (stmts, count)
       else bnd (rt fe_savegc) (\<lambda>guard. bnd (rt (fe_cons Nil Nil)) (\<lambda>dummy. sq (rt (fe_pushgc dummy))
         (bnd (predeclare k guard dummy stmts) (\<lambda>tail. sq (rewrite_stmts k guard tail stmts)
         (bnd (rt (fe_cdr dummy)) (\<lambda>stmts. sq (rt (fe_restoregc guard)) (ret (stmts, count + hoisted))))))))))"

section \<open>Literals\<close>

definition parse_number :: "ptr pcomp" where
  "parse_number =
     bnd (gets (\<lambda>s. (nat (tok_length (p_previous s)), token_text s (p_previous s)))) (\<lambda>(len, buf).
       sq (if len \<ge> 64 then rt (fex_temp_alloc (len + 1)) else ret ())
         (if len > 2 \<and> buf ! 0 = CHR ''0'' \<and> (buf ! 1 = CHR ''x'' \<or> buf ! 1 = CHR ''X'') \<and>
             snd (strtoull16 buf) = length buf
          then rt (fe_make_number (num_of_int (int (fst (strtoull16 buf)))))
          else rt (fe_make_number (fst (strtod buf)))))"

text \<open>The escapes of a string literal; the flag tells whether an escape gave a NUL.\<close>

fun fex_unescape :: "string \<Rightarrow> string \<times> bool" where
  "fex_unescape [] = ([], False)"
| "fex_unescape [c] = ([c], False)"
| "fex_unescape (c # d # cs) =
     (if c = CHR 0x5C then
        (let (t, nul) = fex_unescape cs in
         if d = CHR ''n'' then (CHR 0x0A # t, nul)
         else if d = CHR ''t'' then (CHR 0x09 # t, nul)
         else if d = CHR ''r'' then (CHR 0x0D # t, nul)
         else if d = CHR 0x5C then (CHR 0x5C # t, nul)
         else if d = CHR 0x22 then (CHR 0x22 # t, nul)
         else if d = CHR ''0'' then (CHR 0x00 # t, True)
         else (CHR 0x5C # d # t, nul))
      else (let (t, nul) = fex_unescape (d # cs) in (c # t, nul)))"

definition literal_body :: "pstate \<Rightarrow> Token \<Rightarrow> string" where
  "literal_body s t = take (nat (tok_length t - 2)) (drop 1 (token_cstring s t))"

definition record_literal :: "ptr \<Rightarrow> unit pcomp" where
  "record_literal v =
     bnd (gets (\<lambda>s. (p_previous s, p_source_name s, token_text s (p_previous s)))) (\<lambda>(t, name, txt).
       rt (fex_record_span v name (tok_line t) (column t) (tok_line t) (column t + tok_length t - 1) (Some txt)))"

definition parse_string_literal :: "bool \<Rightarrow> ptr pcomp" where
  "parse_string_literal as_symbol =
     bnd (gets (\<lambda>s. literal_body s (p_previous s))) (\<lambda>raw.
       let (buf, contains_nul) = fex_unescape raw; heap = length raw \<ge> 1024;
           free_buf = (if heap then rt (fex_temp_free (length raw + 1)) else ret ())
       in sq (if heap then rt (fex_temp_alloc (length raw + 1)) else ret ())
          (if as_symbol \<and> contains_nul then
             sq free_buf (sq (error ''Module name strings cannot contain NUL bytes.'') (ret Nil))
           else bnd (if as_symbol then rt (fe_symbol buf) else rt (fe_string buf)) (\<lambda>v.
             sq (record_literal v) (sq free_buf (ret v)))))"

definition parse_string :: "ptr pcomp" where
  "parse_string = parse_string_literal False"

definition parse_literal :: "ptr pcomp" where
  "parse_literal = gets (\<lambda>s. case tok_type (p_previous s) of
      TOKEN_FALSE \<Rightarrow> fe_bool False
    | TOKEN_TRUE \<Rightarrow> fe_bool True
    | _ \<Rightarrow> Nil)"

definition parse_variable :: "ptr pcomp" where
  "parse_variable = symbol_from_token"

section \<open>Import specifiers\<close>

text \<open>A buffer grown with \<^verbatim>\<open>realloc\<close>: its text and its capacity.\<close>

definition append_import_segment :: "string \<times> nat \<Rightarrow> string \<Rightarrow> (string \<times> nat) option pcomp" where
  "append_import_segment b seg =
     (let needed = length (fst b) + length seg + 1 in
      if needed > snd b then
        (let new_capacity = double_until (if snd b > 0 then snd b else 32) needed in
         bnd (rt (lift_st (sys_malloc (of_nat new_capacity)))) (\<lambda>ok.
           ret (if ok then Some (fst b @ seg, new_capacity) else None)))
      else ret (Some (fst b @ seg, snd b)))"

definition import_oom :: "ptr pcomp" where
  "import_oom = sq (error ''Out of memory while parsing import.'') (ret Nil)"

primrec import_segments :: "perr \<Rightarrow> nat \<Rightarrow> string \<times> nat \<Rightarrow> ptr pcomp" where
  "import_segments stop 0 b = throw stop"
| "import_segments stop (Suc k) b =
     bnd (parser_match TOKEN_DOT) (\<lambda>dot.
       if \<not> dot then rt (fe_string (fst b))
       else bnd (append_import_segment b ''.'') (\<lambda>r. case r of None \<Rightarrow> import_oom | Some b \<Rightarrow>
         sq (consume TOKEN_IDENTIFIER (''Expect package name after '' @ [CHR 0x27, CHR ''.'', CHR 0x27] @ '' in import.''))
         (bnd (gets (\<lambda>s. token_text s (p_previous s))) (\<lambda>seg.
         bnd (append_import_segment b seg) (\<lambda>r. case r of None \<Rightarrow> import_oom | Some b \<Rightarrow>
           import_segments stop k b)))))"

definition parse_import_specifier :: "perr \<Rightarrow> nat \<Rightarrow> ptr pcomp" where
  "parse_import_specifier stop m =
     bnd (parser_match TOKEN_STRING) (\<lambda>str. if str then parse_string
     else sq (consume TOKEN_IDENTIFIER ''Expect module name to import.'')
       (bnd (check TOKEN_DOT) (\<lambda>dot. bnd (gets (\<lambda>s. token_text s (p_previous s))) (\<lambda>seg.
         if \<not> dot then rt (fe_string seg)
         else bnd (append_import_segment ([], 0) seg) (\<lambda>r. case r of None \<Rightarrow> import_oom | Some b \<Rightarrow>
           import_segments stop m b)))))"

section \<open>The rules table\<close>

definition PREC_NONE :: nat where "PREC_NONE = 0"
definition PREC_ASSIGNMENT :: nat where "PREC_ASSIGNMENT = 1"
definition PREC_OR :: nat where "PREC_OR = 2"
definition PREC_AND :: nat where "PREC_AND = 3"
definition PREC_EQUALITY :: nat where "PREC_EQUALITY = 4"
definition PREC_COMPARISON :: nat where "PREC_COMPARISON = 5"
definition PREC_TERM :: nat where "PREC_TERM = 6"
definition PREC_FACTOR :: nat where "PREC_FACTOR = 7"
definition PREC_UNARY :: nat where "PREC_UNARY = 8"
definition PREC_CALL :: nat where "PREC_CALL = 9"

datatype prefix_fn =
  Grouping | Unary | ListLit | NumberLit | StringLit | Literal | Variable | FnExpression

text \<open>The prefix function of a token, and its precedence when it is an infix operator.\<close>

fun rule_prefix :: "TokenType \<Rightarrow> prefix_fn option" where
  "rule_prefix TOKEN_LPAREN = Some Grouping"
| "rule_prefix TOKEN_LBRACKET = Some ListLit"
| "rule_prefix TOKEN_MINUS = Some Unary"
| "rule_prefix TOKEN_BANG = Some Unary"
| "rule_prefix TOKEN_IDENTIFIER = Some Variable"
| "rule_prefix TOKEN_STRING = Some StringLit"
| "rule_prefix TOKEN_NUMBER = Some NumberLit"
| "rule_prefix TOKEN_FALSE = Some Literal"
| "rule_prefix TOKEN_FN = Some FnExpression"
| "rule_prefix TOKEN_NIL = Some Literal"
| "rule_prefix TOKEN_TRUE = Some Literal"
| "rule_prefix _ = None"

fun rule_infix :: "TokenType \<Rightarrow> nat option" where
  "rule_infix TOKEN_LPAREN = Some PREC_CALL"
| "rule_infix TOKEN_DOT = Some PREC_CALL"
| "rule_infix TOKEN_MINUS = Some PREC_TERM"
| "rule_infix TOKEN_PLUS = Some PREC_TERM"
| "rule_infix TOKEN_SLASH = Some PREC_FACTOR"
| "rule_infix TOKEN_STAR = Some PREC_FACTOR"
| "rule_infix TOKEN_BANG_EQUAL = Some PREC_EQUALITY"
| "rule_infix TOKEN_EQUAL = Some PREC_ASSIGNMENT"
| "rule_infix TOKEN_EQUAL_EQUAL = Some PREC_EQUALITY"
| "rule_infix TOKEN_GREATER = Some PREC_COMPARISON"
| "rule_infix TOKEN_GREATER_EQUAL = Some PREC_COMPARISON"
| "rule_infix TOKEN_LESS = Some PREC_COMPARISON"
| "rule_infix TOKEN_LESS_EQUAL = Some PREC_COMPARISON"
| "rule_infix TOKEN_AND = Some PREC_AND"
| "rule_infix TOKEN_OR = Some PREC_OR"
| "rule_infix TOKEN_COLON_COLON = Some PREC_TERM"
| "rule_infix _ = None"

text \<open>The symbol of a standard binary operator.\<close>

fun op_str :: "TokenType \<Rightarrow> string option" where
  "op_str TOKEN_PLUS = Some ''+''"
| "op_str TOKEN_MINUS = Some ''-''"
| "op_str TOKEN_STAR = Some ''*''"
| "op_str TOKEN_SLASH = Some ''/''"
| "op_str TOKEN_EQUAL_EQUAL = Some ''is''"
| "op_str TOKEN_BANG_EQUAL = Some ''not is''"
| "op_str TOKEN_LESS = Some ''<''"
| "op_str TOKEN_LESS_EQUAL = Some ''<=''"
| "op_str TOKEN_GREATER = Some ''>''"
| "op_str TOKEN_GREATER_EQUAL = Some ''>=''"
| "op_str TOKEN_AND = Some ''and''"
| "op_str TOKEN_OR = Some ''or''"
| "op_str _ = None"

section \<open>Expressions\<close>

datatype nonterm = Expr nat | Stmt | Decl

type_synonym production = "nonterm \<Rightarrow> ptr pcomp"

definition expression :: "production \<Rightarrow> ptr pcomp" where
  "expression rec = rec (Expr PREC_ASSIGNMENT)"

definition parse_grouping :: "production \<Rightarrow> ptr pcomp" where
  "parse_grouping rec = bnd (expression rec) (\<lambda>expr.
     sq (consume TOKEN_RPAREN (''Expect '' @ [CHR 0x27] @ '')'' @ [CHR 0x27] @ '' after expression.'')) (ret expr))"

definition parse_unary :: "production \<Rightarrow> ptr pcomp" where
  "parse_unary rec =
     bnd (gets (\<lambda>s. tok_type (p_previous s))) (\<lambda>t. bnd (rec (Expr PREC_UNARY)) (\<lambda>right.
       if t = TOKEN_MINUS then make_unary ''-'' right
       else if t = TOKEN_BANG then make_unary ''not'' right
       else ret Nil))"

definition selector_setter_name :: "ptr \<Rightarrow> string option fcomp" where
  "selector_setter_name property =
     bnd (name_in property ''head'' ''first'') (\<lambda>h. if h then ret (Some ''setcar'')
     else bnd (name_in property ''tail'' ''rest'') (\<lambda>t. ret (if t then Some ''setcdr'' else None)))"

text \<open>\<^verbatim>\<open>do { ... } while (parser_match(TOKEN_COMMA))\<close> around the elements of an argument list.\<close>

primrec args_loop :: "perr \<Rightarrow> nat \<Rightarrow> production \<Rightarrow> ptr \<Rightarrow> ptr option \<Rightarrow> ptr pcomp" where
  "args_loop stop 0 rec head tail = throw stop"
| "args_loop stop (Suc k) rec head tail =
     bnd (expression rec) (\<lambda>x. bnd (rt (fe_cons x Nil)) (\<lambda>cell. bnd (rt (set_tail tail head cell)) (\<lambda>head.
     bnd (parser_match TOKEN_COMMA) (\<lambda>c. if c then args_loop stop k rec head (Some cell) else ret head))))"

definition call_args :: "perr \<Rightarrow> nat \<Rightarrow> production \<Rightarrow> ptr pcomp" where
  "call_args stop k rec =
     bnd (check TOKEN_RPAREN) (\<lambda>b.
     bnd (if b then ret Nil else args_loop stop k rec Nil None) (\<lambda>args.
     sq (consume TOKEN_RPAREN (''Expect '' @ [CHR 0x27] @ '')'' @ [CHR 0x27] @ '' after arguments.'')) (ret args)))"

text \<open>The right-hand sides of the infix operators. \<open>None\<close>: the function returns nil at once.\<close>

definition bad_target :: "ptr option pcomp" where
  "bad_target = sq (error ''Invalid assignment target.'') (ret None)"

definition assignment :: "ptr \<Rightarrow> ptr \<Rightarrow> ptr option pcomp" where
  "assignment left right =
     bnd (gets (\<lambda>s. typeof (p_ctx s) left)) (\<lambda>t.
       if t = FE_TSYMBOL then bnd (make_binary ''='' left right) (\<lambda>v. ret (Some v))
       else if t = FE_TPAIR then
         bnd (rt (fe_car left)) (\<lambda>op. bnd (rt (fe_symbol_name_eq op ''get'')) (\<lambda>g.
           if g then
             bnd (rt (fe_cdr left)) (\<lambda>args. bnd (rt (fe_car args)) (\<lambda>target.
             bnd (rt (fe_cdr args)) (\<lambda>d. bnd (rt (fe_car d)) (\<lambda>prop.
             bnd (rt (selector_setter_name prop)) (\<lambda>setter. case setter of
               Some f \<Rightarrow> bnd (make_binary f target right) (\<lambda>v. ret (Some v))
             | None \<Rightarrow> bnd (make_ternary ''put'' target prop right) (\<lambda>v. ret (Some v)))))))
           else bad_target))
       else bad_target)"

definition binary_operator :: "production \<Rightarrow> TokenType \<Rightarrow> ptr \<Rightarrow> ptr option pcomp" where
  "binary_operator rec op_type left = (case (op_str op_type, rule_infix op_type) of
      (Some op, Some p) \<Rightarrow>
        bnd (rec (Expr (p + 1))) (\<lambda>right.
          if op_type = TOKEN_BANG_EQUAL then
            bnd (make_binary ''is'' left right) (\<lambda>v. bnd (make_unary ''not'' v) (\<lambda>v. ret (Some v)))
          else bnd (make_binary op left right) (\<lambda>v. ret (Some v)))
    | _ \<Rightarrow> sq (error ''Unhandled infix operator.'') (ret None))"

definition infix_step :: "perr \<Rightarrow> nat \<Rightarrow> production \<Rightarrow> TokenType \<Rightarrow> ptr \<Rightarrow> ptr option pcomp" where
  "infix_step stop k rec op_type left =
     (if op_type = TOKEN_EQUAL then bnd (rec (Expr PREC_ASSIGNMENT)) (assignment left)
      else if op_type = TOKEN_LPAREN then
        bnd (call_args stop k rec) (\<lambda>args. bnd (fex_cons_tok left args) (\<lambda>v. ret (Some v)))
      else if op_type = TOKEN_DOT then
        sq (consume TOKEN_IDENTIFIER (''Expect property name after '' @ [CHR 0x27, CHR ''.'', CHR 0x27, CHR ''.'']))
        (bnd symbol_from_token (\<lambda>property. bnd (make_binary ''get'' left property) (\<lambda>v. ret (Some v))))
      else if op_type = TOKEN_COLON_COLON then
        bnd (rec (Expr PREC_TERM)) (\<lambda>right. bnd (make_binary ''cons'' left right) (\<lambda>v. ret (Some v)))
      else binary_operator rec op_type left)"

primrec infix_loop :: "perr \<Rightarrow> nat \<Rightarrow> nat \<Rightarrow> production \<Rightarrow> nat \<Rightarrow> ptr \<Rightarrow> ptr pcomp" where
  "infix_loop stop 0 m rec prec left = throw stop"
| "infix_loop stop (Suc k) m rec prec left =
     bnd (gets (\<lambda>s. rule_infix (tok_type (p_current s)))) (\<lambda>r. case r of
       None \<Rightarrow> ret left
     | Some p \<Rightarrow>
         if p < prec then ret left
         else sq parser_advance (bnd (gets (\<lambda>s. tok_type (p_previous s))) (\<lambda>op_type.
           bnd (infix_step stop m rec op_type left) (\<lambda>v. case v of
             None \<Rightarrow> ret Nil
           | Some left \<Rightarrow> infix_loop stop k m rec prec left))))"

primrec list_loop :: "perr \<Rightarrow> nat \<Rightarrow> production \<Rightarrow> nat \<Rightarrow> ptr \<Rightarrow> ptr option \<Rightarrow> ptr pcomp" where
  "list_loop stop 0 rec gc_base head tail = throw stop"
| "list_loop stop (Suc k) rec gc_base head tail =
     bnd (expression rec) (\<lambda>elem. sq (rt (fe_pushgc elem)) (bnd (rt (fe_cons elem Nil)) (\<lambda>cell.
     bnd (rt (set_tail tail head cell)) (\<lambda>head. sq (rt (fe_restoregc gc_base))
     (sq (if isnil head then ret () else rt (fe_pushgc head))
     (bnd (parser_match TOKEN_COMMA) (\<lambda>c. if c then list_loop stop k rec gc_base head (Some cell) else ret head)))))))"

definition parse_list :: "perr \<Rightarrow> nat \<Rightarrow> production \<Rightarrow> ptr pcomp" where
  "parse_list stop k rec =
     bnd (rt fe_savegc) (\<lambda>gc_base. bnd (check TOKEN_RBRACKET) (\<lambda>b.
     bnd (if b then ret Nil else list_loop stop k rec gc_base Nil None) (\<lambda>head.
     sq (consume TOKEN_RBRACKET (''Expect '' @ [CHR 0x27] @ '']'' @ [CHR 0x27] @ '' after list elements.''))
     (bnd (rt (fe_symbol ''list'')) (\<lambda>list_symbol. fex_cons_tok list_symbol head)))))"

section \<open>Blocks and functions\<close>

text \<open>The statements of a block with their number.\<close>

primrec block_loop :: "perr \<Rightarrow> nat \<Rightarrow> production \<Rightarrow> ptr \<Rightarrow> ptr option \<Rightarrow> nat \<Rightarrow> (ptr \<times> nat) pcomp" where
  "block_loop stop 0 rec head tail count = throw stop"
| "block_loop stop (Suc k) rec head tail count =
     bnd (gets (\<lambda>s. tok_type (p_current s))) (\<lambda>t.
       if t = TOKEN_RBRACE \<or> t = TOKEN_EOF then ret (head, count)
       else bnd (rec Decl) (\<lambda>d. bnd (rt (fe_cons d Nil)) (\<lambda>cell. bnd (rt (set_tail tail head cell)) (\<lambda>head.
         block_loop stop k rec head (Some cell) (Suc count)))))"

text \<open>A list of statements as one expression: nothing, the statement itself, or a \<^verbatim>\<open>do\<close>.\<close>

definition block :: "perr \<Rightarrow> nat \<Rightarrow> production \<Rightarrow> ptr pcomp" where
  "block stop k rec =
     bnd (block_loop stop k rec Nil None 0) (\<lambda>(head, count).
     sq (consume TOKEN_RBRACE (''Expect '' @ [CHR 0x27] @ ''}'' @ [CHR 0x27] @ '' after block.''))
     (bnd (if count > 0 then
             bnd (rt fe_savegc) (\<lambda>guard. sq (rt (fe_pushgc head))
               (bnd (rewrite_named_fn_declarations head count) (\<lambda>r. sq (rt (fe_restoregc guard)) (ret r))))
           else ret (head, count)) (\<lambda>(head, count).
       if count = 0 then ret Nil
       else if count = 1 then rt (fe_car head)
       else bnd (rt fe_savegc) (\<lambda>guard. sq (rt (fe_pushgc head)) (bnd (rt (fe_symbol ''do'')) (\<lambda>do_sym.
         sq (rt (fe_pushgc do_sym)) (bnd (fex_cons_tok do_sym head) (\<lambda>res.
         sq (rt (fe_restoregc guard)) (ret res)))))))))"

primrec params_loop :: "perr \<Rightarrow> nat \<Rightarrow> ptr \<Rightarrow> nat \<Rightarrow> (ptr \<times> nat) pcomp" where
  "params_loop stop 0 params count = throw stop"
| "params_loop stop (Suc k) params count =
     sq (consume TOKEN_IDENTIFIER ''Expect parameter name.'')
     (bnd symbol_from_token (\<lambda>x. bnd (rt (fe_cons x params)) (\<lambda>params.
     bnd (parser_match TOKEN_COMMA) (\<lambda>c.
       if c then params_loop stop k params (Suc count) else ret (params, Suc count)))))"

primrec reverse_params :: "nat \<Rightarrow> ptr \<Rightarrow> ptr \<Rightarrow> ptr fcomp" where
  "reverse_params 0 params reversed = ret reversed"
| "reverse_params (Suc i) params reversed =
     bnd (fe_car params) (\<lambda>x. bnd (fe_cons x reversed) (\<lambda>reversed.
       bnd (fe_cdr params) (\<lambda>params. reverse_params i params reversed)))"

definition expect :: "char \<Rightarrow> string \<Rightarrow> string" where
  "expect c where_text = ''Expect '' @ [CHR 0x27, c, CHR 0x27, CHR '' ''] @ where_text"

definition fn_declaration :: "perr \<Rightarrow> nat \<Rightarrow> production \<Rightarrow> ptr pcomp" where
  "fn_declaration stop k rec =
     sq (consume TOKEN_LPAREN (expect (CHR ''('') (''after '' @ [CHR 0x27] @ ''fn'' @ [CHR 0x27] @ ''.'')))
     (bnd (check TOKEN_RPAREN) (\<lambda>b. bnd (if b then ret (Nil, 0) else params_loop stop k Nil 0) (\<lambda>(params, param_count).
     sq (consume TOKEN_RPAREN (expect (CHR '')'') ''after parameters.''))
     (bnd (rt (reverse_params param_count params Nil)) (\<lambda>reversed_params.
     sq (consume TOKEN_LBRACE (expect (CHR ''{'') ''before function body.''))
     (bnd (block stop k rec) (\<lambda>body. bnd (rt (fe_cons body Nil)) (\<lambda>l. bnd (rt (fe_cons reversed_params l)) (\<lambda>l.
     bnd (rt (fe_symbol ''fn'')) (\<lambda>f. fex_cons_tok f l))))))))))"

definition fn_expression :: "perr \<Rightarrow> nat \<Rightarrow> production \<Rightarrow> ptr pcomp" where
  "fn_expression stop k rec = fn_declaration stop k rec"

definition call_prefix :: "perr \<Rightarrow> nat \<Rightarrow> production \<Rightarrow> prefix_fn \<Rightarrow> ptr pcomp" where
  "call_prefix stop k rec f = (case f of
      Grouping \<Rightarrow> parse_grouping rec
    | Unary \<Rightarrow> parse_unary rec
    | ListLit \<Rightarrow> parse_list stop k rec
    | NumberLit \<Rightarrow> parse_number
    | StringLit \<Rightarrow> parse_string
    | Literal \<Rightarrow> parse_literal
    | Variable \<Rightarrow> parse_variable
    | FnExpression \<Rightarrow> fn_expression stop k rec)"

definition parse_precedence_new :: "perr \<Rightarrow> nat \<Rightarrow> production \<Rightarrow> nat \<Rightarrow> ptr pcomp" where
  "parse_precedence_new stop k rec prec =
     sq parser_advance (bnd (gets (\<lambda>s. rule_prefix (tok_type (p_previous s)))) (\<lambda>r. case r of
       None \<Rightarrow> sq (error ''Expect expression.'') (ret Nil)
     | Some f \<Rightarrow> bnd (call_prefix stop k rec f) (infix_loop stop k k rec prec)))"

section \<open>Declarations and statements\<close>

definition module_declaration :: "perr \<Rightarrow> nat \<Rightarrow> production \<Rightarrow> ptr pcomp" where
  "module_declaration stop k rec =
     sq (consume TOKEN_LPAREN (expect (CHR ''('') (''after '' @ [CHR 0x27] @ ''module'' @ [CHR 0x27] @ ''.'')))
     (sq (consume TOKEN_STRING ''Expect module name string.'')
     (bnd (parse_string_literal True) (\<lambda>name.
     sq (consume TOKEN_RPAREN (expect (CHR '')'') ''after module name.''))
     (sq (consume TOKEN_LBRACE (expect (CHR ''{'') ''before module body.''))
     (bnd (block stop k rec) (\<lambda>body. bnd (rt (fe_cons body Nil)) (\<lambda>l. bnd (rt (fe_cons name l)) (\<lambda>l.
     bnd (rt (fe_symbol ''module'')) (\<lambda>f. fex_cons_tok f l)))))))))"

definition import_declaration :: "perr \<Rightarrow> nat \<Rightarrow> ptr pcomp" where
  "import_declaration stop k =
     bnd (parse_import_specifier stop k) (\<lambda>name.
     sq (consume TOKEN_SEMICOLON (expect (CHR '';'') ''after import statement.''))
     (bnd (rt (fe_cons name Nil)) (\<lambda>l. bnd (rt (fe_symbol ''import'')) (\<lambda>f. fex_cons_tok f l))))"

definition var_declaration :: "production \<Rightarrow> ptr pcomp" where
  "var_declaration rec =
     sq (consume TOKEN_IDENTIFIER ''Expect variable name.'')
     (bnd symbol_from_token (\<lambda>name. bnd (parser_match TOKEN_EQUAL) (\<lambda>eq.
     bnd (if eq then expression rec else ret Nil) (\<lambda>value.
     sq (consume TOKEN_SEMICOLON (expect (CHR '';'') ''after variable declaration.''))
     (if isnil name then sq (error ''Variable name cannot be nil.'') (ret Nil)
      else make_binary ''let'' name value)))))"

definition expr_statement :: "production \<Rightarrow> ptr pcomp" where
  "expr_statement rec = bnd (expression rec) (\<lambda>expr.
     sq (consume TOKEN_SEMICOLON (expect (CHR '';'') ''after expression.'')) (ret expr))"

definition return_statement :: "production \<Rightarrow> ptr pcomp" where
  "return_statement rec =
     bnd (check TOKEN_SEMICOLON) (\<lambda>b. bnd (if b then ret Nil else expression rec) (\<lambda>value.
     sq (consume TOKEN_SEMICOLON (expect (CHR '';'') ''after return value.''))
     (bnd (rt (fe_cons value Nil)) (\<lambda>l. bnd (rt (fe_symbol ''return'')) (\<lambda>f. fex_cons_tok f l)))))"

definition if_statement :: "production \<Rightarrow> ptr pcomp" where
  "if_statement rec =
     sq (consume TOKEN_LPAREN (expect (CHR ''('') (''after '' @ [CHR 0x27] @ ''if'' @ [CHR 0x27] @ ''.'')))
     (bnd (expression rec) (\<lambda>condition.
     sq (consume TOKEN_RPAREN (expect (CHR '')'') ''after if condition.''))
     (bnd (rec Stmt) (\<lambda>then_branch. bnd (parser_match TOKEN_ELSE) (\<lambda>els.
     bnd (if els then rec Stmt else ret Nil) (\<lambda>else_branch.
     bnd (rt (cons_args [condition, then_branch, else_branch])) (\<lambda>l.
     bnd (rt (fe_symbol ''if'')) (\<lambda>f. fex_cons_tok f l))))))))"

definition while_statement :: "production \<Rightarrow> ptr pcomp" where
  "while_statement rec =
     sq (consume TOKEN_LPAREN (expect (CHR ''('') (''after '' @ [CHR 0x27] @ ''while'' @ [CHR 0x27] @ ''.'')))
     (bnd (expression rec) (\<lambda>condition.
     sq (consume TOKEN_RPAREN (expect (CHR '')'') ''after condition.''))
     (bnd (rec Stmt) (\<lambda>body. bnd (rt (cons_args [condition, body])) (\<lambda>l.
     bnd (rt (fe_symbol ''while'')) (\<lambda>f. fex_cons_tok f l))))))"

primrec synchronize_loop :: "perr \<Rightarrow> nat \<Rightarrow> unit pcomp" where
  "synchronize_loop stop 0 = throw stop"
| "synchronize_loop stop (Suc k) =
     bnd (gets (\<lambda>s. (tok_type (p_current s), tok_type (p_previous s)))) (\<lambda>(cr, pv).
       if cr = TOKEN_EOF \<or> pv = TOKEN_SEMICOLON \<or>
          cr \<in> {TOKEN_FN, TOKEN_LET, TOKEN_IF, TOKEN_WHILE, TOKEN_RETURN} then ret ()
       else sq parser_advance (synchronize_loop stop k))"

definition synchronize :: "perr \<Rightarrow> nat \<Rightarrow> unit pcomp" where
  "synchronize stop k = sq (modify (\<lambda>s. s\<lparr>p_panic_mode := False\<rparr>)) (synchronize_loop stop k)"

definition statement :: "perr \<Rightarrow> nat \<Rightarrow> production \<Rightarrow> ptr pcomp" where
  "statement stop k rec =
     bnd (parser_match TOKEN_RETURN) (\<lambda>b. if b then return_statement rec
     else bnd (parser_match TOKEN_IF) (\<lambda>b. if b then if_statement rec
     else bnd (parser_match TOKEN_WHILE) (\<lambda>b. if b then while_statement rec
     else bnd (parser_match TOKEN_LBRACE) (\<lambda>b. if b then block stop k rec
     else expr_statement rec))))"

definition fn_decl_named :: "perr \<Rightarrow> nat \<Rightarrow> production \<Rightarrow> bool \<Rightarrow> ptr pcomp" where
  "fn_decl_named stop k rec is_export =
     sq (consume TOKEN_IDENTIFIER ''Expect function name.'')
     (bnd symbol_from_token (\<lambda>name. bnd (fn_declaration stop k rec) (\<lambda>fn_expr.
       make_named_fn_decl name fn_expr is_export)))"

definition fex_declaration :: "perr \<Rightarrow> nat \<Rightarrow> production \<Rightarrow> ptr pcomp" where
  "fex_declaration stop k rec =
     bnd (parser_match TOKEN_MODULE) (\<lambda>b. if b then module_declaration stop k rec
     else bnd (parser_match TOKEN_IMPORT) (\<lambda>b. if b then import_declaration stop k
     else bnd (parser_match TOKEN_EXPORT) (\<lambda>is_export.
       bnd (parser_match TOKEN_LET) (\<lambda>b. if b then
         bnd (var_declaration rec) (\<lambda>decl. if is_export then make_unary ''export'' decl else ret decl)
       else bnd (parser_match TOKEN_FN) (\<lambda>b. if b then fn_decl_named stop k rec is_export
       else sq (if is_export then
                  error (''Only '' @ [CHR 0x27] @ ''let'' @ [CHR 0x27] @ '' and '' @ [CHR 0x27] @ ''fn'' @ [CHR 0x27] @
                    '' declarations can be exported.'')
                else ret ())
         (bnd (rec Stmt) (\<lambda>stmt. bnd (gets p_panic_mode) (\<lambda>panic.
           sq (if panic then synchronize stop k else ret ()) (ret stmt)))))))))"

definition parse_nt :: "perr \<Rightarrow> nat \<Rightarrow> production \<Rightarrow> production" where
  "parse_nt stop k rec nt = (case nt of
      Expr prec \<Rightarrow> parse_precedence_new stop k rec prec
    | Stmt \<Rightarrow> statement stop k rec
    | Decl \<Rightarrow> fex_declaration stop k rec)"

primrec parse :: "perr \<Rightarrow> nat \<Rightarrow> production" where
  "parse stop 0 nt = throw stop"
| "parse stop (Suc n) nt = parse_nt stop n (parse stop n) nt"

section \<open>Compilation\<close>

definition enter_compile_scope :: "unit pcomp" where
  "enter_compile_scope = rt (bnd (lift_st (tracked_alloc sizeof_FexCompileState)) (\<lambda>b. case b of
      None \<Rightarrow> memory_error ''out of memory (compiler state)''
    | Some _ \<Rightarrow> modify (\<lambda>c. c\<lparr>compile_scopes := Suc (compile_scopes c)\<rparr>)))"

definition leave_compile_scope :: "unit pcomp" where
  "leave_compile_scope = rt (sq (modify (\<lambda>c. c\<lparr>compile_scopes := compile_scopes c - 1\<rparr>))
     (modify (tracked_free (Some sizeof_FexCompileState))))"

primrec program_loop :: "perr \<Rightarrow> nat \<Rightarrow> production \<Rightarrow> nat \<Rightarrow> ptr \<Rightarrow> ptr option \<Rightarrow> nat \<Rightarrow> (ptr \<times> nat) pcomp" where
  "program_loop stop 0 rec gc_base head tail count = throw stop"
| "program_loop stop (Suc k) rec gc_base head tail count =
     bnd (parser_match TOKEN_EOF) (\<lambda>b. if b then ret (head, count)
     else sq (rt (fe_restoregc gc_base)) (sq (if isnil head then ret () else rt (fe_pushgc head))
       (bnd (rec Decl) (\<lambda>node. sq (rt (fe_pushgc node)) (bnd (rt (fe_cons node Nil)) (\<lambda>cell.
       bnd (rt (set_tail tail head cell)) (\<lambda>head. bnd (gets p_had_error) (\<lambda>err.
         if err then ret (head, Suc count)
         else program_loop stop k rec gc_base head (Some cell) (Suc count)))))))))"

definition finish_program :: "nat \<Rightarrow> ptr \<Rightarrow> nat \<Rightarrow> ptr pcomp" where
  "finish_program gc_base head count =
     bnd (if count > 0 then
            sq (rt (fe_pushgc head)) (bnd (rewrite_named_fn_declarations head count) (\<lambda>(head, count).
              sq (rt (fe_restoregc gc_base)) (sq (rt (fe_pushgc head)) (ret (head, count)))))
          else ret (head, count)) (\<lambda>(head, count).
       if count = 0 then ret Nil
       else if count = 1 then rt (fe_car head)
       else bnd (rt (fe_symbol ''do'')) (\<lambda>do_sym. sq (rt (fe_pushgc do_sym))
         (bnd (fex_cons_tok do_sym head) (\<lambda>program. sq (rt (fe_restoregc gc_base))
         (sq (rt (fe_pushgc head)) (sq (rt (fe_pushgc program)) (ret program)))))))"

text \<open>\<open>None\<close> is NULL: the errors have been printed.\<close>

definition compile_body :: "perr \<Rightarrow> nat \<Rightarrow> ptr option pcomp" where
  "compile_body stop n =
     sq enter_compile_scope (sq parser_advance (bnd (rt fe_savegc) (\<lambda>gc_base.
     bnd (program_loop stop n (parse stop n) gc_base Nil None 0) (\<lambda>(head, count).
     bnd (gets (\<lambda>s. p_had_error s \<or> lex_had_error (p_lexer s))) (\<lambda>failed.
       if failed then sq (rt (fe_restoregc gc_base)) (sq leave_compile_scope (ret None))
       else bnd (finish_program gc_base head count) (\<lambda>program.
         sq (rt (fe_pushgc program)) (sq leave_compile_scope (ret (Some program)))))))))"

text \<open>The tokens of a fresh scope are uninitialised; both are written before they are read.\<close>

definition no_token :: Token where
  "no_token = \<lparr>tok_type = TOKEN_EOF, tok_start = Msg [], tok_length = 0, tok_line = 0, tok_column = None\<rparr>"

definition init_pstate :: "bool \<Rightarrow> string \<Rightarrow> string \<Rightarrow> fe_Context \<Rightarrow> pstate" where
  "init_pstate try_active source source_name c =
     \<lparr>p_ctx = c, p_lexer = (init_lexer source)\<lparr>lex_source_name := source_name\<rparr>, p_source_name = source_name,
      p_current = no_token, p_previous = no_token, p_had_error = False, p_panic_mode = False,
      p_try = try_active, p_stderr = []\<rparr>"

definition fex_compile_named ::
  "perr \<Rightarrow> nat \<Rightarrow> bool \<Rightarrow> string \<Rightarrow> string \<Rightarrow> fe_Context \<Rightarrow> (perr + ptr option) \<times> pstate" where
  "fex_compile_named stop n try_active source source_name c =
     compile_body stop n (init_pstate try_active source source_name c)"

definition fex_compile :: "perr \<Rightarrow> nat \<Rightarrow> bool \<Rightarrow> string \<Rightarrow> fe_Context \<Rightarrow> (perr + ptr option) \<times> pstate" where
  "fex_compile stop n try_active source c = fex_compile_named stop n try_active source ''<string>'' c"

end
