(* ===== verification/Fex_Termination.thy ===== *)
theory Fex_Termination
  imports Fex_Parser
begin

text \<open>
  Termination of the parser. The measure is the number of characters the lexer has left, counted from
  the current token; every token but the end takes at least one of them. A relation between
  computations, indexed by bounds on that number before and after, goes through the whole grammar:
  the parser with one amount of fuel does the same as with another as long as both are large enough.
\<close>

section \<open>What is left to parse\<close>

definition unread :: "Lexer \<Rightarrow> nat" where
  "unread lx = length (lex_source lx) - lex_current lx"

definition chars_left :: "pstate \<Rightarrow> nat" where
  "chars_left s = (if tok_type (p_current s) = TOKEN_EOF then 0 else Suc (unread (p_lexer s)))"

text \<open>At most \<open>r\<close> characters are left, and after the end token comes another one.\<close>

definition bounded_by :: "nat \<Rightarrow> pstate \<Rightarrow> bool" where
  "bounded_by r s \<longleftrightarrow> chars_left s \<le> r \<and>
     (tok_type (p_current s) = TOKEN_EOF \<longrightarrow> is_at_end (p_lexer s))"

lemma bounded_mono: "bounded_by r s \<Longrightarrow> r \<le> r' \<Longrightarrow> bounded_by r' s"
  by (simp add: bounded_by_def)

lemma bounded_0: "bounded_by 0 s \<Longrightarrow> tok_type (p_current s) = TOKEN_EOF"
  by (auto simp: bounded_by_def chars_left_def split: if_splits)

lemma bounded_cong:
  "p_lexer s' = p_lexer s \<Longrightarrow> p_current s' = p_current s \<Longrightarrow> bounded_by r s' = bounded_by r s"
  by (simp add: bounded_by_def chars_left_def)

lemma scan_at_end:
  "is_at_end lx \<Longrightarrow> tok_type (fst (scan_token lx)) = TOKEN_EOF \<and> is_at_end (snd (scan_token lx))"
proof -
  assume e: "is_at_end lx"
  then have "skip_whitespace lx = lx" by (subst skip_whitespace.simps) (auto simp: is_at_end_def)
  with e show ?thesis by (simp add: scan_token_def Let_def is_at_end_def cur_def)
qed

lemma lex_string_type: "tok_type (fst (lex_string lx)) \<noteq> TOKEN_EOF"
proof (induction lx rule: lex_string.induct)
  case (1 lx)
  note IH = 1(1) [OF _ refl refl] 1(2) [OF _ refl refl]
  show ?case by (subst lex_string.simps) (simp add: Let_def error_token_def IH)
qed

lemma lex_number_type: "tok_type (fst (lex_number lx)) \<noteq> TOKEN_EOF"
  by (simp add: lex_number_def Let_def error_token_def)

lemma match_token_type:
  "two \<noteq> TOKEN_EOF \<Longrightarrow> one \<noteq> TOKEN_EOF \<Longrightarrow> tok_type (fst (match_token e two one lx)) \<noteq> TOKEN_EOF"
  by (simp add: match_token_def split: prod.split)

lemma if_not: "a \<noteq> x \<Longrightarrow> b \<noteq> x \<Longrightarrow> (if p then a else b) \<noteq> x"
  by simp

lemma identifier_type_not_EOF: "identifier_type lx \<noteq> TOKEN_EOF"
  unfolding identifier_type_def check_keyword_def Let_def by (rule if_not | simp; fail)+

lemma single_tokens_not_EOF: "map_of single_tokens c = Some t \<Longrightarrow> t \<noteq> TOKEN_EOF"
  using single_tokens_operators [of c t] by (auto simp: operators_def single_tokens_def)

lemma scan_eof:
  assumes "scan_token lx = (t, lx')" "tok_type t = TOKEN_EOF" shows "is_at_end lx'"
proof -
  define m where "m = (skip_whitespace lx)\<lparr>lex_start := lex_current (skip_whitespace lx)\<rparr>"
  have "is_at_end m"
  proof (rule ccontr)
    assume ne: "\<not> is_at_end m"
    have "tok_type (fst (scan_token lx)) \<noteq> TOKEN_EOF"
      using ne unfolding scan_token_def Let_def m_def [symmetric]
      by (simp add: lex_identifier_def Let_def identifier_type_not_EOF lex_number_type lex_string_type
          match_token_type error_token_def single_tokens_not_EOF split: option.split)
    with assms show False by simp
  qed
  with assms(1) show ?thesis by (auto simp: scan_token_def Let_def m_def)
qed

lemma advance_loop_bounded:
  assumes "advance_loop k s = (Inr x, s')"
  shows "p_previous s' = p_previous s \<and> bounded_by (unread (p_lexer s)) s' \<and>
    (is_at_end (p_lexer s) \<longrightarrow> bounded_by 0 s')"
  using assms
proof (induction k arbitrary: s)
  case (Suc k)
  obtain t lx where sc: "scan_token (p_lexer s) = (t, lx)" by (cases "scan_token (p_lexer s)")
  define u where "u = s\<lparr>p_current := t, p_lexer := lx\<rparr>"
  have u: "p_previous u = p_previous s" "p_current u = t" "p_lexer u = lx" by (simp_all add: u_def)
  have end0: "bounded_by 0 u" if "is_at_end (p_lexer s)"
    using scan_at_end [OF that] sc by (simp add: bounded_by_def chars_left_def u)
  have b: "bounded_by (unread (p_lexer s)) u"
  proof (cases "tok_type t = TOKEN_EOF")
    case True
    with scan_eof [OF sc] show ?thesis by (simp add: bounded_by_def chars_left_def u)
  next
    case False
    with scan_token_progress [OF sc] show ?thesis by (simp add: bounded_by_def chars_left_def u unread_def)
  qed
  show ?case
  proof (cases "tok_type t = TOKEN_ERROR")
    case False
    with Suc.prems have "s' = u"
      by (simp add: sq_def scan_def bnd_def modify_def gets_def ret_def sc u_def)
    with u b end0 show ?thesis by simp
  next
    case True
    with Suc.prems obtain v where v: "error_at_current (token_cstring u t) u = (Inr (), v)"
      and rest: "advance_loop k v = (Inr x, s')"
      by (auto simp: sq_def scan_def bnd_def modify_def gets_def sc u_def split: prod.splits sum.splits)
    have v_eq: "p_lexer v = lx" "p_previous v = p_previous s"
      using v by (auto simp: error_at_current_def error_at_def bnd_def gets_def modify_def ret_def throw_def u_def
          split: if_splits)
    have "unread lx \<le> unread (p_lexer s)" "\<not> is_at_end (p_lexer s)"
      using True b end0 bounded_0 [of u] by (auto simp: bounded_by_def chars_left_def u)
    with Suc.IH [OF rest] v_eq show ?thesis by (auto intro: bounded_mono)
  qed
qed (simp add: throw_def)

text \<open>The fuel of the loop over error tokens is always enough.\<close>

lemma advance_loop_returns:
  assumes "unread (p_lexer s) < k" shows "fst (advance_loop k s) \<noteq> Inl (RtError OutOfFuel)"
  using assms
proof (induction k arbitrary: s)
  case (Suc k)
  obtain t lx where sc: "scan_token (p_lexer s) = (t, lx)" by (cases "scan_token (p_lexer s)")
  define u where "u = s\<lparr>p_current := t, p_lexer := lx\<rparr>"
  show ?case
  proof (cases "tok_type t = TOKEN_ERROR")
    case False
    then show ?thesis by (simp add: sq_def scan_def bnd_def modify_def gets_def ret_def sc)
  next
    case True
    obtain res v where v: "error_at_current (token_cstring u t) u = (res, v)" by fastforce
    have "res = Inr () \<and> p_lexer v = lx \<or> (\<exists>a b c d. res = Inl (CompileError a b c d))"
      using v by (auto simp: error_at_current_def error_at_def bnd_def gets_def modify_def ret_def throw_def u_def
          split: if_splits)
    moreover have "unread lx < k"
      using scan_token_progress [OF sc] True Suc.prems by (simp add: unread_def)
    ultimately show ?thesis
      using Suc.IH [of v] True v
      by (auto simp: sq_def scan_def bnd_def modify_def gets_def sc u_def)
  qed
qed simp

lemma parser_advance_bounded:
  assumes "bounded_by r s" "parser_advance s = (Inr x, s')"
  shows "bounded_by (r - 1) s' \<and> p_previous s' = p_current s"
proof -
  have "advance_loop (Suc (length (lex_source (p_lexer s)) - lex_current (p_lexer s))) (s\<lparr>p_previous := p_current s\<rparr>) = (Inr x, s')"
    using assms(2) by (simp add: parser_advance_def sq_def bnd_def modify_def gets_def del: advance_loop.simps)
  from advance_loop_bounded [OF this]
  have a: "p_previous s' = p_current s" "bounded_by (unread (p_lexer s)) s'" "is_at_end (p_lexer s) \<Longrightarrow> bounded_by 0 s'"
    by simp_all
  have "bounded_by (r - 1) s'"
  proof (cases "tok_type (p_current s) = TOKEN_EOF")
    case True
    with assms(1) a(3) show ?thesis by (auto simp: bounded_by_def [of r] intro: bounded_mono)
  next
    case False
    with assms(1) have "unread (p_lexer s) \<le> r - 1" by (simp add: bounded_by_def chars_left_def)
    with a(2) show ?thesis by (rule bounded_mono)
  qed
  with a show ?thesis by simp
qed

section \<open>The relation\<close>

text \<open>
  \<open>psim r q m m'\<close>: when at most \<open>r\<close> characters are left, both computations do the same, and when they
  return at most \<open>q\<close> are left.
\<close>

definition psim :: "nat \<Rightarrow> nat \<Rightarrow> 'a pcomp \<Rightarrow> 'a pcomp \<Rightarrow> bool" where
  "psim r q m m' \<longleftrightarrow> (\<forall>s. bounded_by r s \<longrightarrow>
     m s = m' s \<and> (\<forall>x s'. m s = (Inr x, s') \<longrightarrow> bounded_by q s'))"

named_theorems psim_rules \<open>structural rules of the relation\<close>

lemma psim_weaken: "psim r q m m' \<Longrightarrow> q \<le> q' \<Longrightarrow> psim r q' m m'"
  unfolding psim_def using bounded_mono by blast

lemma psim_bnd:
  assumes m: "psim r q m m'" and f: "\<And>x. psim q p (f x) (f' x)"
  shows "psim r p (bnd m f) (bnd m' f')"
  unfolding psim_def
proof (intro allI impI)
  fix s
  assume s: "bounded_by r s"
  obtain a u where au: "m s = (a, u)" by (cases "m s")
  show "bnd m f s = bnd m' f' s \<and> (\<forall>x s'. bnd m f s = (Inr x, s') \<longrightarrow> bounded_by p s')"
  proof (cases a)
    case (Inl e)
    with m s au show ?thesis by (auto simp: psim_def bnd_def)
  next
    case (Inr x)
    with m s au have "m' s = (Inr x, u)" "bounded_by q u" by (auto simp: psim_def)
    with f [of x] Inr au show ?thesis by (simp add: psim_def bnd_def)
  qed
qed

lemma psim_bnd_same [psim_rules]:
  "psim r r m m' \<Longrightarrow> (\<And>x. psim r q (f x) (f' x)) \<Longrightarrow> psim r q (bnd m f) (bnd m' f')"
  by (rule psim_bnd)

lemma psim_sq_same [psim_rules]: "psim r r m m' \<Longrightarrow> psim r q n n' \<Longrightarrow> psim r q (sq m n) (sq m' n')"
  unfolding sq_def by (rule psim_bnd)

lemma psim_if [psim_rules]:
  "(p \<Longrightarrow> psim r q m m') \<Longrightarrow> (\<not> p \<Longrightarrow> psim r q n n') \<Longrightarrow> psim r q (if p then m else n) (if p then m' else n')"
  by simp

lemma psim_case_prod [psim_rules]:
  "(\<And>x y. psim r q (f x y) (f' x y)) \<Longrightarrow> psim r q (case p of (x, y) \<Rightarrow> f x y) (case p of (x, y) \<Rightarrow> f' x y)"
  by (cases p) simp

lemma psim_case_option [psim_rules]:
  "psim r q m m' \<Longrightarrow> (\<And>x. psim r q (f x) (f' x)) \<Longrightarrow>
   psim r q (case p of None \<Rightarrow> m | Some x \<Rightarrow> f x) (case p of None \<Rightarrow> m' | Some x \<Rightarrow> f' x)"
  by (cases p) simp_all

text \<open>Computations that leave the lexer and the current token alone.\<close>

definition keeps_tokens :: "'a pcomp \<Rightarrow> bool" where
  "keeps_tokens m \<longleftrightarrow> (\<forall>s x s'. m s = (Inr x, s') \<longrightarrow> p_lexer s' = p_lexer s \<and> p_current s' = p_current s)"

lemma psim_keep: "keeps_tokens m \<Longrightarrow> r \<le> q \<Longrightarrow> psim r q m m"
  unfolding psim_def keeps_tokens_def using bounded_cong bounded_mono by blast

lemma keeps_rt: "keeps_tokens (rt m)"
  by (auto simp: keeps_tokens_def rt_def split: prod.splits sum.splits)

lemma keeps_error: "keeps_tokens (error_at t msg)"
  by (auto simp: keeps_tokens_def error_at_def bnd_def gets_def modify_def ret_def throw_def split: if_splits)

lemma keeps_atoms:
  "keeps_tokens (ret x)" "keeps_tokens (throw e)" "keeps_tokens (gets f)" "keeps_tokens (check t)"
  "keeps_tokens (modify (p_panic_mode_update g))"
  by (simp_all add: keeps_tokens_def ret_def throw_def gets_def check_def modify_def)

lemmas psim_atoms [psim_rules] = keeps_atoms [THEN psim_keep] keeps_rt [THEN psim_keep]

lemma psim_throw: "psim r q (throw e) (throw e)"
  by (simp add: psim_def throw_def)

lemma psim_errors [psim_rules]:
  "r \<le> q \<Longrightarrow> psim r q (error_at t msg) (error_at t msg)" "r \<le> q \<Longrightarrow> psim r q (error msg) (error msg)"
  "r \<le> q \<Longrightarrow> psim r q (error_at_current msg) (error_at_current msg)"
  unfolding error_def error_at_current_def
  by (intro psim_bnd_same psim_keep keeps_error psim_atoms order_refl; simp)+

lemma psim_advance: "r \<le> Suc q \<Longrightarrow> psim r q parser_advance parser_advance"
  unfolding psim_def using parser_advance_bounded bounded_mono [of "r - 1" _ q] by (metis le_diff_conv Suc_eq_plus1)

lemma psim_advance_same [psim_rules]: "r \<le> q \<Longrightarrow> psim r q parser_advance parser_advance"
  by (rule psim_advance) simp

lemma psim_consume [psim_rules]: "r \<le> q \<Longrightarrow> psim r q (consume t msg) (consume t msg)"
  unfolding consume_def by (intro psim_rules; simp)

lemma psim_match_only: "r \<le> q \<Longrightarrow> psim r q (parser_match t) (parser_match t)"
  unfolding parser_match_def by (intro psim_rules; simp)

text \<open>A token that is matched, other than the end, has been taken from what was left.\<close>

lemma psim_match:
  assumes "t \<noteq> TOKEN_EOF" "\<And>r'. r = Suc r' \<Longrightarrow> psim r' q (f True) (f' True)" "psim r q (f False) (f' False)"
  shows "psim r q (bnd (parser_match t) f) (bnd (parser_match t) f')"
proof (cases r)
  case 0
  have "bnd (parser_match t) g s = g False s" if "bounded_by 0 s" for s and g :: "bool \<Rightarrow> 'a pcomp"
    using bounded_0 [OF that] assms(1) by (simp add: parser_match_def check_def bnd_def gets_def ret_def)
  with 0 assms(3) show ?thesis by (simp add: psim_def)
next
  case (Suc r')
  have eq: "bnd (parser_match t) g = bnd (check t) (\<lambda>b. if \<not> b then g False else sq parser_advance (g True))"
    for g :: "bool \<Rightarrow> 'a pcomp"
    by (rule ext) (simp add: parser_match_def check_def sq_def bnd_def gets_def ret_def split: prod.split sum.split)
  have "psim r q (bnd parser_advance (\<lambda>_. f True)) (bnd parser_advance (\<lambda>_. f' True))"
    by (rule psim_bnd [OF psim_advance [of r r'] assms(2)]) (simp_all add: Suc)
  then show ?thesis unfolding eq sq_def using assms(3)
    by (intro psim_bnd_same psim_atoms) simp_all
qed

section \<open>The grammar\<close>

text \<open>Code that only builds and does not look ahead.\<close>

lemma psim_builders [psim_rules]:
  "r \<le> q \<Longrightarrow> psim r q (fex_cons_tok a d) (fex_cons_tok a d)" "r \<le> q \<Longrightarrow> psim r q symbol_from_token symbol_from_token"
  "r \<le> q \<Longrightarrow> psim r q (copy_span_from a d) (copy_span_from a d)"
  unfolding fex_cons_tok_def symbol_from_token_def copy_span_from_def by (intro psim_rules; simp)+

lemma psim_form [psim_rules]: "(\<And>v. psim r r (g v) (g v)) \<Longrightarrow> r \<le> q \<Longrightarrow> psim r q (make_form op args g) (make_form op args g)"
  unfolding make_form_def by (intro psim_rules; simp)

lemma psim_forms [psim_rules]:
  "r \<le> q \<Longrightarrow> psim r q (make_unary op a) (make_unary op a)" "r \<le> q \<Longrightarrow> psim r q (make_binary op a b) (make_binary op a b)"
  "r \<le> q \<Longrightarrow> psim r q (make_ternary op a b c) (make_ternary op a b c)"
  "r \<le> q \<Longrightarrow> psim r q (make_named_fn_decl a b e) (make_named_fn_decl a b e)"
  "r \<le> q \<Longrightarrow> psim r q (make_do_two_with_span a b c) (make_do_two_with_span a b c)"
  "r \<le> q \<Longrightarrow> psim r q (make_do_three_with_span a b c d) (make_do_three_with_span a b c d)"
  unfolding make_unary_def make_binary_def make_ternary_def make_named_fn_decl_def
    make_do_two_with_span_def make_do_three_with_span_def by (intro psim_rules; simp)+

lemma psim_predeclare [psim_rules]: "r \<le> q \<Longrightarrow> psim r q (predeclare k g t p) (predeclare k g t p)"
  by (induction k arbitrary: t p) (auto intro!: psim_rules)

lemma psim_rewrite_stmts [psim_rules]: "r \<le> q \<Longrightarrow> psim r q (rewrite_stmts k g t p) (rewrite_stmts k g t p)"
  by (induction k arbitrary: t p) (auto intro!: psim_rules simp: rewrite_decl_def)

lemma psim_rewrite [psim_rules]:
  "r \<le> q \<Longrightarrow> psim r q (rewrite_named_fn_declarations l n) (rewrite_named_fn_declarations l n)"
  unfolding rewrite_named_fn_declarations_def by (intro psim_rules; simp)

lemma psim_string [psim_rules]: "r \<le> q \<Longrightarrow> psim r q (parse_string_literal b) (parse_string_literal b)"
  unfolding parse_string_literal_def record_literal_def Let_def by (intro psim_rules; simp)

lemma psim_literals [psim_rules]:
  "r \<le> q \<Longrightarrow> psim r q parse_number parse_number" "r \<le> q \<Longrightarrow> psim r q parse_string parse_string"
  "r \<le> q \<Longrightarrow> psim r q parse_literal parse_literal" "r \<le> q \<Longrightarrow> psim r q parse_variable parse_variable"
  unfolding parse_number_def parse_string_def parse_literal_def parse_variable_def by (intro psim_rules; simp)+

lemma psim_segment [psim_rules]: "r \<le> q \<Longrightarrow> psim r q (append_import_segment b seg) (append_import_segment b seg)"
  unfolding append_import_segment_def Let_def by (intro psim_rules; simp)

lemma psim_import_oom [psim_rules]: "r \<le> q \<Longrightarrow> psim r q import_oom import_oom"
  unfolding import_oom_def by (intro psim_rules; simp)

text \<open>
  Loops: both have more fuel than there are characters. The case of no fuel is excluded, and each
  turn that goes on has matched a token.
\<close>

lemma psim_import_segments:
  assumes "r < k" "r < k'" "r \<le> q" shows "psim r q (import_segments stop k b) (import_segments stop' k' b)"
  using assms
proof (induction k arbitrary: k' r b)
  case (Suc k)
  then obtain i where i: "k' = Suc i" by (cases k') auto
  note IH = Suc.IH [of _ i]
  show ?case unfolding i import_segments.simps
    using Suc.prems i
    by - (rule psim_match IH psim_rules | simp only: if_True if_False not_True_eq_False not_False_eq_True | simp; fail)+
qed simp

lemma psim_params_loop:
  assumes "r < k" "r < k'" "r \<le> q" shows "psim r q (params_loop stop k ps c) (params_loop stop' k' ps c)"
  using assms
proof (induction k arbitrary: k' r ps c)
  case (Suc k)
  then obtain i where i: "k' = Suc i" by (cases k') auto
  note IH = Suc.IH [of _ i]
  show ?case unfolding i params_loop.simps
    using Suc.prems i
    by - (rule psim_match IH psim_rules | simp only: if_True if_False not_True_eq_False not_False_eq_True | simp; fail)+
qed simp

text \<open>A look at the current token: when nothing is left it is the end.\<close>

lemma psim_peek:
  assumes "\<And>s. 0 < r \<or> tok_type (p_current s) = TOKEN_EOF \<Longrightarrow> psim r q (f (g s)) (f' (g s))"
  shows "psim r q (bnd (gets g) f) (bnd (gets g) f')"
  using assms bounded_0 unfolding psim_def bnd_gets by (metis neq0_conv)

lemma psim_synchronize_loop:
  assumes "r < k" "r < k'" "r \<le> q" shows "psim r q (synchronize_loop stop k) (synchronize_loop stop' k')"
  using assms
proof (induction k arbitrary: k' r)
  case (Suc k)
  then obtain i where i: "k' = Suc i" by (cases k') auto
  have "psim r q (sq parser_advance (synchronize_loop stop k)) (sq parser_advance (synchronize_loop stop' i))" if "0 < r"
    unfolding sq_def using Suc.prems i that by (intro psim_bnd [OF psim_advance [of r "r - 1"]] Suc.IH) auto
  then show ?case unfolding i synchronize_loop.simps
    by (intro psim_peek) (auto intro!: psim_atoms Suc.prems)
qed simp

lemma psim_synchronize: "r < k \<Longrightarrow> r < k' \<Longrightarrow> r \<le> q \<Longrightarrow> psim r q (synchronize stop k) (synchronize stop' k')"
  unfolding synchronize_def by (intro psim_rules psim_synchronize_loop; simp)

text \<open>Two grammars whose productions agree below \<open>R\<close> characters; each production takes at least one.\<close>

definition agree :: "nat \<Rightarrow> production \<Rightarrow> production \<Rightarrow> bool" where
  "agree R rec rec' \<longleftrightarrow> (\<forall>r q nt. r < R \<longrightarrow> r \<le> Suc q \<longrightarrow> psim r q (rec nt) (rec' nt))"

lemma agree_rec: "agree R rec rec' \<Longrightarrow> r < R \<Longrightarrow> r \<le> Suc q \<Longrightarrow> psim r q (rec nt) (rec' nt)"
  by (simp add: agree_def)

lemma psim_args_loop:
  assumes "r < k" "r < k'" "r \<le> q" "r < R" "agree R rec rec'"
  shows "psim r q (args_loop stop k rec h t) (args_loop stop' k' rec' h t)"
  using assms(1-4)
proof (induction k arbitrary: k' r h t)
  case (Suc k)
  then obtain i where i: "k' = Suc i" by (cases k') auto
  note IH = Suc.IH [of _ i]
  show ?case unfolding i args_loop.simps expression_def
    using Suc.prems i
    by - (rule psim_match IH agree_rec [OF assms(5)] psim_rules | simp only: if_True if_False not_True_eq_False not_False_eq_True | simp; fail)+
qed simp

lemma psim_list_loop:
  assumes "r < k" "r < k'" "r \<le> q" "r < R" "agree R rec rec'"
  shows "psim r q (list_loop stop k rec g h t) (list_loop stop' k' rec' g h t)"
  using assms(1-4)
proof (induction k arbitrary: k' r h t)
  case (Suc k)
  then obtain i where i: "k' = Suc i" by (cases k') auto
  note IH = Suc.IH [of _ i]
  show ?case unfolding i list_loop.simps expression_def
    using Suc.prems i
    by - (rule psim_match IH agree_rec [OF assms(5)] psim_rules | simp only: if_True if_False not_True_eq_False not_False_eq_True | simp; fail)+
qed simp


lemma psim_block_loop:
  assumes "r < k" "r < k'" "r \<le> q" "r < R" "agree R rec rec'"
  shows "psim r q (block_loop stop k rec h t c) (block_loop stop' k' rec' h t c)"
  using assms(1-4)
proof (induction k arbitrary: k' r h t c)
  case (Suc k)
  then obtain i where i: "k' = Suc i" by (cases k') auto
  note IH = Suc.IH [of "r - 1" i]
  show ?case unfolding i block_loop.simps
  proof (rule psim_peek, rule psim_if)
    fix s
    assume "\<not> (tok_type (p_current s) = TOKEN_RBRACE \<or> tok_type (p_current s) = TOKEN_EOF)"
      and "0 < r \<or> tok_type (p_current s) = TOKEN_EOF"
    then have r: "0 < r" by simp
    show "psim r q
      (bnd (rec Decl) (\<lambda>d. bnd (rt (fe_cons d Nil)) (\<lambda>cell. bnd (rt (set_tail t h cell)) (\<lambda>head.
         block_loop stop k rec head (Some cell) (Suc c)))))
      (bnd (rec' Decl) (\<lambda>d. bnd (rt (fe_cons d Nil)) (\<lambda>cell. bnd (rt (set_tail t h cell)) (\<lambda>head.
         block_loop stop' i rec' head (Some cell) (Suc c)))))"
      using r Suc.prems i
      by - (rule psim_bnd [OF agree_rec [OF assms(5), of r "r - 1"]]; (rule IH psim_rules | simp; fail)+)
  qed (use Suc.prems in \<open>simp add: psim_atoms\<close>)
qed simp

text \<open>The parts of the grammar, given that the productions they call agree.\<close>

lemma psim_block:
  assumes "r < k" "r < k'" "r \<le> q" "r < R" "agree R rec rec'"
  shows "psim r q (block stop k rec) (block stop' k' rec')"
  unfolding block_def using assms(1-4)
  by - (rule psim_match psim_block_loop [OF _ _ _ _ assms(5)] psim_rules | simp only: if_True if_False not_True_eq_False not_False_eq_True | simp; fail)+

lemma psim_call_args:
  assumes "r < k" "r < k'" "r \<le> q" "r < R" "agree R rec rec'"
  shows "psim r q (call_args stop k rec) (call_args stop' k' rec')"
  unfolding call_args_def using assms(1-4)
  by - (rule psim_match psim_args_loop [OF _ _ _ _ assms(5)] psim_rules | simp only: if_True if_False not_True_eq_False not_False_eq_True | simp; fail)+

lemma psim_list:
  assumes "r < k" "r < k'" "r \<le> q" "r < R" "agree R rec rec'"
  shows "psim r q (parse_list stop k rec) (parse_list stop' k' rec')"
  unfolding parse_list_def using assms(1-4)
  by - (rule psim_match psim_list_loop [OF _ _ _ _ assms(5)] psim_rules | simp only: if_True if_False not_True_eq_False not_False_eq_True | simp; fail)+

lemma psim_fn_declaration:
  assumes "r < k" "r < k'" "r \<le> q" "r < R" "agree R rec rec'"
  shows "psim r q (fn_declaration stop k rec) (fn_declaration stop' k' rec')"
  unfolding fn_declaration_def using assms(1-4)
  by - (rule psim_match psim_params_loop psim_block [OF _ _ _ _ assms(5)] psim_rules | simp only: if_True if_False not_True_eq_False not_False_eq_True | simp; fail)+

lemma psim_prefix:
  assumes "r < k" "r < k'" "r \<le> q" "r < R" "agree R rec rec'"
  shows "psim r q (call_prefix stop k rec f) (call_prefix stop' k' rec' f)"
  using assms(1-4)
  by (cases f; simp add: call_prefix_def parse_grouping_def parse_unary_def expression_def fn_expression_def)
    (rule agree_rec [OF assms(5)] psim_list [OF _ _ _ _ assms(5)] psim_fn_declaration [OF _ _ _ _ assms(5)] psim_rules
      | simp; fail)+

lemma psim_assignment [psim_rules]: "r \<le> q \<Longrightarrow> psim r q (assignment a b) (assignment a b)"
  unfolding assignment_def bad_target_def by (intro psim_rules; simp)

lemma psim_binary_operator:
  assumes "r \<le> q" "r < R" "agree R rec rec'"
  shows "psim r q (binary_operator rec t a) (binary_operator rec' t a)"
  unfolding binary_operator_def using assms(1,2)
  by - (rule agree_rec [OF assms(3)] psim_rules | simp; fail)+

lemma psim_infix_step:
  assumes "r < k" "r < k'" "r \<le> q" "r < R" "agree R rec rec'"
  shows "psim r q (infix_step stop k rec t a) (infix_step stop' k' rec' t a)"
  unfolding infix_step_def using assms(1-4)
  by - (rule agree_rec [OF assms(5)] psim_call_args [OF _ _ _ _ assms(5)] psim_binary_operator [OF _ _ assms(5)] psim_rules
    | simp; fail)+

lemma psim_infix_loop:
  assumes "r < k" "r < k'" "r < m" "r < m'" "r \<le> q" "r < R" "agree R rec rec'"
  shows "psim r q (infix_loop stop k m rec prec a) (infix_loop stop' k' m' rec' prec a)"
  using assms(1-6)
proof (induction k arbitrary: k' r a)
  case (Suc k)
  then obtain i where i: "k' = Suc i" by (cases k') auto
  have step: "psim r q
      (bnd parser_advance (\<lambda>_. bnd (gets (\<lambda>s. tok_type (p_previous s))) (\<lambda>t. bnd (infix_step stop m rec t a)
        (\<lambda>v. case v of None \<Rightarrow> ret Nil | Some a \<Rightarrow> infix_loop stop k m rec prec a))))
      (bnd parser_advance (\<lambda>_. bnd (gets (\<lambda>s. tok_type (p_previous s))) (\<lambda>t. bnd (infix_step stop' m' rec' t a)
        (\<lambda>v. case v of None \<Rightarrow> ret Nil | Some a \<Rightarrow> infix_loop stop' i m' rec' prec a))))" if "0 < r"
    using that Suc.prems i
    by - (rule psim_bnd [OF psim_advance [of r "r - 1"]];
      (rule psim_infix_step [OF _ _ _ _ assms(7)] Suc.IH [of "r - 1" i] psim_rules | simp; fail)+)
  show ?case unfolding i infix_loop.simps sq_def
    by (rule psim_peek) (auto split: option.split intro!: psim_atoms step Suc.prems(5))
qed simp

lemma psim_expr:
  assumes "r \<le> k" "r \<le> k'" "r \<le> Suc q" "agree r rec rec'"
  shows "psim r q (parse_precedence_new stop k rec p) (parse_precedence_new stop' k' rec' p)"
proof (cases r)
  case 0
  have "parse_precedence_new stop k rec p s =
      sq parser_advance (sq (error ''Expect expression.'') (ret Nil)) s" if "bounded_by 0 s" for stop k rec s
    using parser_advance_bounded [OF that] bounded_0 [OF that]
    by (auto simp: parse_precedence_new_def sq_def bnd_def gets_def split: prod.splits sum.splits)
  moreover have "psim 0 q (sq parser_advance (sq (error ''Expect expression.'') (ret Nil)))
      (sq parser_advance (sq (error ''Expect expression.'') (ret Nil)))"
    by (intro psim_rules; simp)
  ultimately show ?thesis by (simp add: psim_def 0)
next
  case (Suc r')
  show ?thesis unfolding parse_precedence_new_def sq_def [of parser_advance] using assms(1-3) Suc
    by - (rule psim_bnd [OF psim_advance [of r r']];
      (rule psim_prefix [OF _ _ _ _ assms(4)] psim_infix_loop [OF _ _ _ _ _ _ assms(4)] psim_rules | simp; fail)+)
qed

lemma psim_expr_statement:
  assumes "\<And>q p. r \<le> Suc q \<Longrightarrow> psim r q (rec (Expr p)) (rec' (Expr p))" "r \<le> Suc q"
  shows "psim r q (expr_statement rec) (expr_statement rec')"
  unfolding expr_statement_def expression_def using assms(2)
  by - (rule psim_bnd [OF assms(1) [of "r - 1"]]; (rule psim_rules | simp; fail)+)

lemma psim_statement:
  assumes "r \<le> k" "r \<le> k'" "r \<le> Suc q" "agree r rec rec'"
    and e: "\<And>q p. r \<le> Suc q \<Longrightarrow> psim r q (rec (Expr p)) (rec' (Expr p))"
  shows "psim r q (statement stop k rec) (statement stop' k' rec')"
  unfolding statement_def return_statement_def if_statement_def while_statement_def expression_def
  using assms(1-3)
  by - (rule psim_match psim_expr_statement [of r rec rec', OF e] psim_block [OF _ _ _ _ assms(4)] agree_rec [OF assms(4)] psim_rules | simp only: if_True if_False not_True_eq_False not_False_eq_True | simp; fail)+

lemma psim_import_declaration:
  "r < k \<Longrightarrow> r < k' \<Longrightarrow> r \<le> q \<Longrightarrow> psim r q (import_declaration stop k) (import_declaration stop' k')"
  unfolding import_declaration_def parse_import_specifier_def
  by (rule psim_match psim_import_segments psim_rules | simp only: if_True if_False not_True_eq_False not_False_eq_True | simp; fail)+

lemma psim_declaration:
  assumes "r < k" "r < k'" "r \<le> Suc q" "agree r rec rec'"
    and s: "\<And>q. r \<le> Suc q \<Longrightarrow> psim r q (rec Stmt) (rec' Stmt)"
  shows "psim r q (fex_declaration stop k rec) (fex_declaration stop' k' rec')"
proof -
  have tail: "psim i q
      (bnd (rec Stmt) (\<lambda>stmt. bnd (gets p_panic_mode) (\<lambda>panic. sq (if panic then synchronize stop k else ret ()) (ret stmt))))
      (bnd (rec' Stmt) (\<lambda>stmt. bnd (gets p_panic_mode) (\<lambda>panic. sq (if panic then synchronize stop' k' else ret ()) (ret stmt))))"
    if "i \<le> r" "i \<le> Suc q" for i q
    using that assms(1,2) agree_rec [OF assms(4), of i "i - 1" Stmt] s [of "i - 1"]
    by - (rule psim_bnd [of i "i - 1"], (cases "i = r"; simp),
      (rule psim_synchronize psim_rules | simp; fail)+)
  show ?thesis
    unfolding fex_declaration_def module_declaration_def var_declaration_def fn_decl_named_def expression_def
    using assms(1-3)
    by - (rule psim_match tail psim_import_declaration psim_block [OF _ _ _ _ assms(4)] psim_fn_declaration [OF _ _ _ _ assms(4)] agree_rec [OF assms(4)] psim_rules | simp only: if_True if_False not_True_eq_False not_False_eq_True | simp; fail)+
qed

section \<open>Termination\<close>

primrec need :: "nonterm \<Rightarrow> nat \<Rightarrow> nat" where
  "need (Expr p) r = 3 * r + 1"
| "need Stmt r = 3 * r + 2"
| "need Decl r = 3 * r + 3"

lemma psim_parse:
  assumes "need nt r \<le> n" "need nt r \<le> n'" "r \<le> Suc q"
  shows "psim r q (parse stop n nt) (parse stop' n' nt)"
  using assms
proof (induction n arbitrary: n' r q nt)
  case 0
  then show ?case by (cases nt) simp_all
next
  case (Suc n)
  obtain m where m: "n' = Suc m" using Suc.prems(2) by (cases n'; cases nt) auto
  have below: "agree r (parse stop n) (parse stop' m)"
    unfolding agree_def
  proof (intro allI impI)
    fix i q nt'
    assume i: "i < r" "i \<le> Suc q"
    have "need nt' i \<le> 3 * i + 3" by (cases nt') simp_all
    moreover have "3 * r + 1 \<le> need nt r" by (cases nt) simp_all
    ultimately have "need nt' i \<le> n" "need nt' i \<le> m" using Suc.prems i m by simp_all
    with i show "psim i q (parse stop n nt') (parse stop' m nt')" by (intro Suc.IH)
  qed
  show ?case
  proof (cases nt)
    case (Expr p)
    with Suc.prems m show ?thesis by (simp add: parse_nt_def psim_expr [OF _ _ _ below])
  next
    case Stmt
    have "psim r q (parse stop n (Expr p)) (parse stop' m (Expr p))" if "r \<le> Suc q" for q p
      using that Suc.prems m Stmt by (intro Suc.IH) simp_all
    with Suc.prems m Stmt below show ?thesis by (simp add: parse_nt_def psim_statement)
  next
    case Decl
    have "psim r q (parse stop n Stmt) (parse stop' m Stmt)" if "r \<le> Suc q" for q
      using that Suc.prems m Decl by (intro Suc.IH) simp_all
    with Suc.prems m Decl below show ?thesis by (simp add: parse_nt_def psim_declaration)
  qed
qed

lemma psim_match_EOF:
  assumes "psim r q (f True) (f' True)" "0 < r \<Longrightarrow> psim r q (f False) (f' False)"
  shows "psim r q (bnd (parser_match TOKEN_EOF) f) (bnd (parser_match TOKEN_EOF) f')"
proof -
  have eq: "bnd (parser_match TOKEN_EOF) g =
      bnd (gets (\<lambda>s. tok_type (p_current s) = TOKEN_EOF)) (\<lambda>b. if \<not> b then g False else sq parser_advance (g True))"
    for g :: "bool \<Rightarrow> 'a pcomp"
    by (rule ext) (simp add: parser_match_def check_def sq_def bnd_def gets_def ret_def split: prod.split sum.split)
  show ?thesis unfolding eq using assms by (intro psim_peek) (auto intro: psim_rules)
qed

lemma psim_program_loop:
  assumes "r < k" "r < k'" "r \<le> q" "r < R" "agree R rec rec'"
  shows "psim r q (program_loop stop k rec g h t c) (program_loop stop' k' rec' g h t c)"
  using assms(1-4)
proof (induction k arbitrary: k' r h t c)
  case (Suc k)
  then obtain i where i: "k' = Suc i" by (cases k') auto
  have turn: "psim r q
      (bnd (rec Decl) (\<lambda>node. sq (rt (fe_pushgc node)) (bnd (rt (fe_cons node Nil)) (\<lambda>cell.
        bnd (rt (set_tail t h cell)) (\<lambda>head. bnd (gets p_had_error) (\<lambda>err.
          if err then ret (head, Suc c) else program_loop stop k rec g head (Some cell) (Suc c)))))))
      (bnd (rec' Decl) (\<lambda>node. sq (rt (fe_pushgc node)) (bnd (rt (fe_cons node Nil)) (\<lambda>cell.
        bnd (rt (set_tail t h cell)) (\<lambda>head. bnd (gets p_had_error) (\<lambda>err.
          if err then ret (head, Suc c) else program_loop stop' i rec' g head (Some cell) (Suc c)))))))"
    if "0 < r"
    using that Suc.prems i
    by - (rule psim_bnd [OF agree_rec [OF assms(5), of r "r - 1"]]; (rule Suc.IH [of "r - 1" i] psim_rules | simp; fail)+)
  show ?case unfolding i program_loop.simps using Suc.prems
    by - (rule psim_match_EOF; (rule turn psim_rules | simp only: if_True if_False | simp; fail)+)
qed simp

lemma psim_finish [psim_rules]: "r \<le> q \<Longrightarrow> psim r q (finish_program g h c) (finish_program g h c)"
  unfolding finish_program_def by (intro psim_rules; simp)

lemma psim_leave [psim_rules]: "r \<le> q \<Longrightarrow> psim r q leave_compile_scope leave_compile_scope"
  unfolding leave_compile_scope_def by (intro psim_rules; simp)

lemma compile_body_fuel:
  assumes "3 * unread (p_lexer s) + 3 \<le> n" "3 * unread (p_lexer s) + 3 \<le> n'"
  shows "compile_body stop n s = compile_body stop' n' s"
proof -
  define r where "r = unread (p_lexer s)"
  have "agree (Suc r) (parse stop n) (parse stop' n')"
    unfolding agree_def
  proof (intro allI impI)
    fix i q nt
    assume i: "i < Suc r" "i \<le> Suc q"
    have "need nt i \<le> 3 * i + 3" by (cases nt) simp_all
    with i assms show "psim i q (parse stop n nt) (parse stop' n' nt)" by (intro psim_parse) (simp_all add: r_def)
  qed
  note loop = psim_program_loop [of r n n' _ "Suc r", OF _ _ _ _ this]
  define after where "after st m = bnd (rt fe_savegc) (\<lambda>gc_base.
     bnd (program_loop st m (parse st m) gc_base Nil None 0) (\<lambda>(head, count).
     bnd (gets (\<lambda>s. p_had_error s \<or> lex_had_error (p_lexer s))) (\<lambda>failed.
       if failed then sq (rt (fe_restoregc gc_base)) (sq leave_compile_scope (ret None))
       else bnd (finish_program gc_base head count) (\<lambda>program.
         sq (rt (fe_pushgc program)) (sq leave_compile_scope (ret (Some program)))))))" for st m
  have after: "psim r r (after stop n) (after stop' n')"
    unfolding after_def using assms by - (rule loop psim_rules | simp add: r_def; fail)+
  have scope: "p_lexer u = p_lexer s" if "enter_compile_scope s = (Inr x, u)" for x u
    using that by (auto simp: enter_compile_scope_def rt_def split: prod.splits sum.splits)
  have first: "bounded_by r v" if "p_lexer u = p_lexer s" "parser_advance u = (Inr y, v)" for u y v
    using that(2) advance_loop_bounded [of _ "u\<lparr>p_previous := p_current u\<rparr>" y v] that(1)
    by (simp add: parser_advance_def sq_def bnd_def modify_def gets_def r_def del: advance_loop.simps)
  show ?thesis
    unfolding compile_body_def after_def [symmetric]
    using after scope first
    by (auto simp: sq_def bnd_def psim_def split: prod.splits sum.splits)
qed

text \<open>
  C17. Compilation ends: three levels of nesting and three turns of a loop per character of the source
  are enough, whatever the source, in a try scope or not, and whatever the allocator does. With at
  least that much fuel the result, the printed errors and the final state depend neither on the fuel
  nor on what running out of it would give.
\<close>

theorem compile_terminates:
  assumes "3 * length source + 3 \<le> n" "3 * length source + 3 \<le> n'"
  shows "fex_compile_named stop n try_active source source_name c =
    fex_compile_named stop' n' try_active source source_name c"
  unfolding fex_compile_named_def
  by (rule compile_body_fuel) (use assms in \<open>simp_all add: init_pstate_def init_lexer_def unread_def\<close>)

theorem compile_terminates_witness:
  "fex_compile_named (RtError OutOfFuel) 100 False ''if (a) { b(1, 2) } }'' ''m'' (zeroed_context quiet_env 65536) =
   fex_compile_named (RtError Crash) 1000 False ''if (a) { b(1, 2) } }'' ''m'' (zeroed_context quiet_env 65536)"
  by (rule compile_terminates) simp_all

end
