(* ===== verification/Fe_Nest.thy ===== *)
theory Fe_Nest
  imports Fe_Eval
begin

text \<open>
  Nesting and fuel of the evaluator. One relation between computations carries three facts through
  the whole of \<^verbatim>\<open>eval\<close>: that the call list and the depth counter are restored, that more fuel never changes
  a result, and that the nesting of \<^verbatim>\<open>eval\<close> is bounded by \<^verbatim>\<open>max_eval_depth\<close>.
\<close>

section \<open>The relation\<close>

type_synonym evc = "ptr list \<times> int \<times> int \<times> int \<times> cstr list"

definition evctl :: "fe_Context \<Rightarrow> evc" where
  "evctl c = (calllist c, eval_depth c, current_eval_depth c, max_eval_depth c, arr_items (loading_modules c))"

text \<open>
  \<open>sim e b m m'\<close>: from a state whose call list and depths are \<open>e\<close>, both computations do the same, and when
  they return the state has \<open>e\<close> again; if \<open>b\<close> is set, the first may run out of fuel instead.
\<close>

definition sim :: "evc \<Rightarrow> bool \<Rightarrow> 'a fcomp \<Rightarrow> 'a fcomp \<Rightarrow> bool" where
  "sim e b m m' \<longleftrightarrow> (\<forall>c. evctl c = e \<longrightarrow>
     b \<and> (\<exists>c'. m c = (Inl OutOfFuel, c')) \<or>
     m c = m' c \<and> (\<forall>x c'. m c = (Inr x, c') \<longrightarrow> evctl c' = e))"

lemma sim_eqD: "sim e False m m' \<Longrightarrow> evctl c = e \<Longrightarrow> m c = m' c"
  by (simp add: sim_def)

lemma sim_keptD: "sim e b m m' \<Longrightarrow> evctl c = e \<Longrightarrow> m c = (Inr x, c') \<Longrightarrow> evctl c' = e"
  by (fastforce simp: sim_def)

lemma sim_fuelD: "sim e b m m' \<Longrightarrow> evctl c = e \<Longrightarrow> fst (m c) \<noteq> Inl OutOfFuel \<Longrightarrow> m' c = m c"
  by (fastforce simp: sim_def)

named_theorems sim_rules \<open>structural rules of the relation\<close>

lemma simI:
  "(\<And>c. evctl c = e \<Longrightarrow> m c = m' c \<and> (\<forall>x c'. m c = (Inr x, c') \<longrightarrow> evctl c' = e)) \<Longrightarrow> sim e b m m'"
  by (simp add: sim_def)

lemma sim_kept: "oks (fixes_field evctl) m \<Longrightarrow> sim e b m m"
  by (auto simp: sim_def oks_def fixes_field_def)

lemma sim_ctl [sim_rules]:
  assumes "ctl_kept m" shows "sim e b m m"
proof -
  have "evctl c = (fst (snd (ctl c)), fst (snd (snd (snd (ctl c)))))" for c by (simp add: evctl_def ctl_def)
  with assms show ?thesis by (intro sim_kept) (simp add: oks_def fixes_field_def)
qed

text \<open>
  Sequencing where the intermediate state has other control values: the first part leads from \<open>e\<close> to
  \<open>e'\<close>, the rest leads back.
\<close>

definition leads :: "evc \<Rightarrow> evc \<Rightarrow> 'a fcomp \<Rightarrow> bool" where
  "leads e e' m \<longleftrightarrow> (\<forall>c x c'. evctl c = e \<longrightarrow> m c = (Inr x, c') \<longrightarrow> evctl c' = e')"

definition sim_to ::
  "evc \<Rightarrow> evc \<Rightarrow> bool \<Rightarrow> 'a fcomp \<Rightarrow> 'a fcomp \<Rightarrow> bool" where
  "sim_to e e' b m m' \<longleftrightarrow> (\<forall>c. evctl c = e \<longrightarrow>
     b \<and> (\<exists>c'. m c = (Inl OutOfFuel, c')) \<or>
     m c = m' c \<and> (\<forall>x c'. m c = (Inr x, c') \<longrightarrow> evctl c' = e'))"

lemma sim_to_refl: "leads e e' m \<Longrightarrow> sim_to e e' b m m"
  by (auto simp: leads_def sim_to_def)

lemma sim_to_same: "sim e b m m' \<longleftrightarrow> sim_to e e b m m'"
  by (simp add: sim_def sim_to_def)

lemma sim_to_bnd:
  assumes m: "sim_to e1 e2 b m m'" and f: "\<And>x. sim_to e2 e3 b (f x) (f' x)"
  shows "sim_to e1 e3 b (bnd m f) (bnd m' f')"
  unfolding sim_to_def
proof (intro allI impI)
  fix c
  assume c: "evctl c = e1"
  show "b \<and> (\<exists>c'. bnd m f c = (Inl OutOfFuel, c')) \<or>
    bnd m f c = bnd m' f' c \<and> (\<forall>x c'. bnd m f c = (Inr x, c') \<longrightarrow> evctl c' = e3)"
  proof (cases "\<exists>c'. b \<and> m c = (Inl OutOfFuel, c')")
    case True
    then show ?thesis by (auto simp: bnd_def)
  next
    case False
    with m c have eq: "m c = m' c" and st: "\<And>x c'. m c = (Inr x, c') \<Longrightarrow> evctl c' = e2"
      by (auto simp: sim_to_def)
    obtain r d where rd: "m c = (r, d)" by (cases "m c")
    show ?thesis
    proof (cases r)
      case (Inl err)
      with rd eq show ?thesis by (simp add: bnd_def)
    next
      case (Inr x)
      with rd st have "evctl d = e2" by simp
      with f [of x] rd Inr eq show ?thesis by (simp add: sim_to_def bnd_def)
    qed
  qed
qed

lemma sim_to_sq: "sim_to e1 e2 b m m' \<Longrightarrow> sim_to e2 e3 b n n' \<Longrightarrow> sim_to e1 e3 b (sq m n) (sq m' n')"
  unfolding sq_def by (rule sim_to_bnd)

lemma sim_to_gets:
  assumes "\<And>c. evctl c = e \<Longrightarrow> sim_to e e' b (g (f c)) (g' (f c))"
  shows "sim_to e e' b (bnd (gets f) g) (bnd (gets f) g')"
  using assms by (fastforce simp: sim_to_def bnd_gets)

lemma sim_bnd [sim_rules]:
  "sim e b m m' \<Longrightarrow> (\<And>x. sim e b (f x) (f' x)) \<Longrightarrow> sim e b (bnd m f) (bnd m' f')"
  unfolding sim_to_same by (rule sim_to_bnd)

lemma sim_sq [sim_rules]: "sim e b m m' \<Longrightarrow> sim e b n n' \<Longrightarrow> sim e b (sq m n) (sq m' n')"
  unfolding sq_def by (rule sim_bnd)

lemma sim_if [sim_rules]:
  "(p \<Longrightarrow> sim e b m m') \<Longrightarrow> (\<not> p \<Longrightarrow> sim e b n n') \<Longrightarrow> sim e b (if p then m else n) (if p then m' else n')"
  by simp

lemma sim_case_prod [sim_rules]:
  "(\<And>x y. sim e b (f x y) (f' x y)) \<Longrightarrow> sim e b (case p of (x, y) \<Rightarrow> f x y) (case p of (x, y) \<Rightarrow> f' x y)"
  by (cases p) simp

lemma sim_case_option [sim_rules]:
  "sim e b m m' \<Longrightarrow> (\<And>x. sim e b (f x) (f' x)) \<Longrightarrow>
   sim e b (case p of None \<Rightarrow> m | Some x \<Rightarrow> f x) (case p of None \<Rightarrow> m' | Some x \<Rightarrow> f' x)"
  by (cases p) simp_all

lemma sim_throw [sim_rules]: "sim e b (throw x) (throw x)"
  by (simp add: sim_def throw_def)

lemma sim_fuel [sim_rules]: "b \<Longrightarrow> sim e b (throw OutOfFuel) m"
  by (simp add: sim_def throw_def)

lemma sim_error [sim_rules]: "sim e b (fe_error msg) (fe_error msg)"
  by (simp add: sim_def fe_error_def)

text \<open>Loops: the first may have less fuel when \<open>b\<close> is set, otherwise both have the same.\<close>

definition fuel_le :: "bool \<Rightarrow> nat \<Rightarrow> nat \<Rightarrow> bool" where
  "fuel_le b k k' \<longleftrightarrow> k = k' \<or> b \<and> k \<le> k'"

lemma fuel_le_refl [simp]: "fuel_le b k k"
  by (simp add: fuel_le_def)

lemma fuel_le_cases:
  assumes "fuel_le b k k'"
  obtains (eq) "k = 0" "k' = 0" | (out) "k = 0" b | (step) j j' where "k = Suc j" "k' = Suc j'" "fuel_le b j j'"
  using assms by (cases k; cases k') (auto simp: fuel_le_def)

text \<open>Induction for loops with fuel: one turn is related, given the relation for the turns that follow.\<close>

lemma fuel_induct [consumes 1, case_names zero out step]:
  assumes "fuel_le b k k'"
    and "P 0 0" and "\<And>j'. b \<Longrightarrow> P 0 j'"
    and "\<And>j j'. fuel_le b j j' \<Longrightarrow> P j j' \<Longrightarrow> P (Suc j) (Suc j')"
  shows "P k k'"
  using assms(1)
proof (induction k arbitrary: k')
  case 0
  then show ?case by (cases rule: fuel_le_cases) (simp_all add: assms(2,3))
next
  case (Suc k)
  from Suc.prems obtain j' where "k' = Suc j'" "fuel_le b k j'" by (cases rule: fuel_le_cases) simp_all
  then show ?case using assms(4) Suc.IH by blast
qed

lemma ctl_reroot [ctl_rules]: "ctl_kept (push_all xs)" "ctl_kept (reroot n xs)"
proof -
  show p: "ctl_kept (push_all xs)" for xs by (induction xs) (auto intro!: ctl_rules)
  show "ctl_kept (reroot n xs)" unfolding reroot_def by (intro ctl_rules p)
qed

section \<open>Loops without evaluation\<close>

lemma sim_analyze_params [sim_rules]:
  assumes "fuel_le b k k'" shows "sim e b (analyze_params k p bound) (analyze_params k' p bound)"
  using assms
  by (induction k k' arbitrary: p bound rule: fuel_induct) (auto intro!: sim_rules ctl_rules)

lemma sim_fn_bound [sim_rules]:
  assumes "fuel_le b k k'" shows "sim e b (fn_bound k s p bound) (fn_bound k' s p bound)"
  using assms
  by (induction k k' arbitrary: p bound rule: fuel_induct) (auto intro!: sim_rules ctl_rules)

lemma sim_argstoenv_loop [sim_rules]:
  assumes "fuel_le b k k'" shows "sim e b (argstoenv_loop k s prm arg env) (argstoenv_loop k' s prm arg env)"
  using assms
  by (induction k k' arbitrary: prm arg env rule: fuel_induct) (auto intro!: sim_rules ctl_rules)

lemma sim_argstoenv [sim_rules]:
  "fuel_le b k k' \<Longrightarrow> sim e b (argstoenv k prm arg env) (argstoenv k' prm arg env)"
  unfolding argstoenv_def by (intro sim_rules ctl_rules)

lemma sim_capture_loop [sim_rules]:
  assumes "fuel_le b k k'" shows "sim e b (capture_loop k s d arg u p) (capture_loop k' s d arg u p)"
  using assms
  by (induction k k' arbitrary: u p rule: fuel_induct) (auto intro!: sim_rules ctl_rules)

lemma sim_capture [sim_rules]: "fuel_le b k k' \<Longrightarrow> sim e b (capture k d fv arg) (capture k' d fv arg)"
  unfolding capture_def by (intro sim_rules ctl_rules)

lemma sim_make_frame [sim_rules]:
  "fuel_le b k k' \<Longrightarrow> sim e b (make_frame k params arg upvals) (make_frame k' params arg upvals)"
  unfolding make_frame_def by (intro sim_rules ctl_rules)

lemma sim_closure_parts [sim_rules]: "sim e b (closure_parts fn) (closure_parts fn)"
  unfolding closure_parts_def by (intro sim_rules ctl_rules)

lemma sim_last_expr [sim_rules]:
  assumes "fuel_le b k k'" shows "sim e b (last_expr k p) (last_expr k' p)"
  using assms
  by (induction k k' arbitrary: p rule: fuel_induct) (auto intro!: sim_rules ctl_rules)

lemma sim_export_name [sim_rules]: "fuel_le b k k' \<Longrightarrow> sim e b (export_name k d) (export_name k' d)"
  unfolding export_name_def export_name_in_do_def by (intro sim_rules ctl_rules)

section \<open>The analysis of free variables\<close>

text \<open>Two analyzers related at every argument.\<close>

definition ansim :: "evc \<Rightarrow> bool \<Rightarrow> analyzer \<Rightarrow> analyzer \<Rightarrow> bool" where
  "ansim e b an an' \<longleftrightarrow> (\<forall>x bound fv. sim e b (an x bound fv) (an' x bound fv))"

lemma ansimD: "ansim e b an an' \<Longrightarrow> sim e b (an x bound fv) (an' x bound fv)"
  by (simp add: ansim_def)

lemma sim_analyze_do [sim_rules]:
  assumes "fuel_le b k k'" and "ansim e b an an'"
  shows "sim e b (analyze_do k an gc p l fv) (analyze_do k' an' gc p l fv)"
  using assms(1)
  by (induction k k' arbitrary: p l fv rule: fuel_induct) (auto intro!: sim_rules ctl_rules assms(2) ansimD [OF assms(2)])

lemma sim_analyze_each [sim_rules]:
  assumes "fuel_le b k k'" and "ansim e b an an'"
  shows "sim e b (analyze_each k an p l fv) (analyze_each k' an' p l fv)"
  using assms(1)
  by (induction k k' arbitrary: p fv rule: fuel_induct) (auto intro!: sim_rules ctl_rules assms(2) ansimD [OF assms(2)])

lemma sim_analyze_args [sim_rules]:
  assumes "fuel_le b k k'" and "ansim e b an an'"
  shows "sim e b (analyze_args k an p l fv) (analyze_args k' an' p l fv)"
  using assms(1)
  by (induction k k' arbitrary: p fv rule: fuel_induct) (auto intro!: sim_rules ctl_rules assms(2) ansimD [OF assms(2)])

lemma sim_analyze_pair [sim_rules]:
  assumes "fuel_le b k k'" and "ansim e b an an'"
  shows "sim e b (analyze_pair k an x l fv) (analyze_pair k' an' x l fv)"
  unfolding analyze_pair_def analyze_fn_def by (intro sim_rules ctl_rules assms ansimD [OF assms(2)])

lemma sim_analyze_atom [sim_rules]: "sim e b (analyze_atom x l fv) (analyze_atom x l fv)"
  unfolding analyze_atom_def by (intro sim_rules ctl_rules)

lemma ansim_analyze: "fuel_le b k k' \<Longrightarrow> ansim e b (analyze k) (analyze k')"
proof (induction k k' rule: fuel_induct)
  case (step j j')
  then show ?case unfolding ansim_def [of _ _ "analyze (Suc j)"] by (auto intro!: sim_rules ctl_rules)
qed (simp_all add: ansim_def sim_rules)

lemma sim_analyze [sim_rules]: "fuel_le b k k' \<Longrightarrow> sim e b (analyze k x l fv) (analyze k' x l fv)"
  by (rule ansimD [OF ansim_analyze])

section \<open>Loops with evaluation\<close>

definition esim :: "evc \<Rightarrow> bool \<Rightarrow> evaluator \<Rightarrow> evaluator \<Rightarrow> bool" where
  "esim e b rec rec' \<longleftrightarrow> (\<forall>x env ne. sim e b (rec x env ne) (rec' x env ne))"

lemma esimD: "esim e b rec rec' \<Longrightarrow> sim e b (rec x env ne) (rec' x env ne)"
  by (simp add: esim_def)

lemma sim_evalarg [sim_rules]: "esim e b rec rec' \<Longrightarrow> sim e b (evalarg rec env arg) (evalarg rec' env arg)"
  unfolding evalarg_def by (intro sim_rules ctl_rules esimD)

lemma sim_eval_in [sim_rules]: "esim e b rec rec' \<Longrightarrow> sim e b (eval_in rec x env) (eval_in rec' x env)"
  unfolding eval_in_def by (intro sim_rules ctl_rules esimD)

lemma sim_num_arg [sim_rules]: "esim e b rec rec' \<Longrightarrow> sim e b (num_arg rec env arg) (num_arg rec' env arg)"
  unfolding num_arg_def by (intro sim_rules ctl_rules)

lemma sim_evallist_loop [sim_rules]:
  assumes "fuel_le b k k'" and "esim e b rec rec'"
  shows "sim e b (evallist_loop k rec env save res t lst) (evallist_loop k' rec' env save res t lst)"
  using assms(1)
  by (induction k k' arbitrary: res t lst rule: fuel_induct) (auto intro!: sim_rules ctl_rules assms(2) esimD [OF assms(2)])

lemma sim_evallist [sim_rules]:
  "fuel_le b k k' \<Longrightarrow> esim e b rec rec' \<Longrightarrow> sim e b (evallist k rec lst env) (evallist k' rec' lst env)"
  unfolding evallist_def by (intro sim_rules ctl_rules)

lemma sim_dolist_loop [sim_rules]:
  assumes "fuel_le b k k'" and "esim e b rec rec'"
  shows "sim e b (dolist_loop k rec save res lst env) (dolist_loop k' rec' save res lst env)"
  using assms(1)
  by (induction k k' arbitrary: res lst env rule: fuel_induct) (auto intro!: sim_rules ctl_rules assms(2) esimD [OF assms(2)])

lemma sim_prim_if [sim_rules]:
  assumes "fuel_le b k k'" and "esim e b rec rec'"
  shows "sim e b (prim_if k rec arg env) (prim_if k' rec' arg env)"
  using assms(1)
  by (induction k k' arbitrary: arg rule: fuel_induct) (auto intro!: sim_rules ctl_rules assms(2) esimD [OF assms(2)])

lemma sim_while_body [sim_rules]:
  assumes "fuel_le b k k'" and "esim e b rec rec'"
  shows "sim e b (while_body k rec ws arg res cur env) (while_body k' rec' ws arg res cur env)"
  using assms(1)
  by (induction k k' arbitrary: res cur env rule: fuel_induct) (auto intro!: sim_rules ctl_rules assms(2) esimD [OF assms(2)])

lemma sim_while_loop [sim_rules]:
  assumes "fuel_le b k k'" and "fuel_le b m m'" and "esim e b rec rec'"
  shows "sim e b (while_loop k m rec n cnd arg res env) (while_loop k' m' rec' n cnd arg res env)"
  using assms(1)
  by (induction k k' arbitrary: res env rule: fuel_induct) (auto intro!: sim_rules ctl_rules assms(2,3) esimD [OF assms(3)])

lemma sim_prim_logic [sim_rules]:
  assumes "fuel_le b k k'" and "esim e b rec rec'"
  shows "sim e b (prim_logic k rec stop res arg env) (prim_logic k' rec' stop res arg env)"
  using assms(1)
  by (induction k k' arbitrary: res arg rule: fuel_induct) (auto intro!: sim_rules ctl_rules assms(2) esimD [OF assms(2)])

lemma sim_prim_do_loop [sim_rules]:
  assumes "fuel_le b k k'" and "esim e b rec rec'"
  shows "sim e b (prim_do_loop k rec save res arg env) (prim_do_loop k' rec' save res arg env)"
  using assms(1)
  by (induction k k' arbitrary: res arg env rule: fuel_induct) (auto intro!: sim_rules ctl_rules assms(2) esimD [OF assms(2)])

lemma sim_body_loop [sim_rules]:
  assumes "fuel_le b k k'" and "esim e b rec rec'"
  shows "sim e b (body_loop k rec save res cur frame) (body_loop k' rec' save res cur frame)"
  using assms(1)
  by (induction k k' arbitrary: res cur frame rule: fuel_induct) (auto intro!: sim_rules ctl_rules assms(2) esimD [OF assms(2)])

lemma sim_arith_loop [sim_rules]:
  assumes "fuel_le b k k'" and "esim e b rec rec'"
  shows "sim e b (arith_loop k rec op x arg env) (arith_loop k' rec' op x arg env)"
  using assms(1)
  by (induction k k' arbitrary: x arg rule: fuel_induct) (auto intro!: sim_rules ctl_rules assms(2) esimD [OF assms(2)])

section \<open>The writer\<close>

lemma ctl_write [ctl_rules]: "ctl_kept (write_checked x w)" "ctl_kept (writestr t w)" "ctl_kept (write_hex_byte x w)"
proof -
  show c: "ctl_kept (write_checked x w)" for x w
    unfolding write_checked_def case_prod_beta by (intro ctl_rules)
  show "ctl_kept (writestr t w)" by (induction t arbitrary: w) (auto intro!: ctl_rules c)
  show "ctl_kept (write_hex_byte x w)" unfolding write_hex_byte_def by (intro ctl_rules c)
qed

lemma ctl_write_chunk [ctl_rules]: "ctl_kept (write_chunk q t w)" "ctl_kept (write_hex_chunk q t w)"
  by (induction t arbitrary: w q) (auto intro!: ctl_rules)

lemma ctl_write_slabs [ctl_rules]: "ctl_kept (write_slabs ss q off r w)" "ctl_kept (write_hex_slabs ss q off r w)"
proof -
  show "ctl_kept (write_slabs ss q off r w)"
    by (induction ss q off r w rule: write_slabs.induct)
      (subst write_slabs.simps, auto intro!: ctl_rules split: option.split)
  show "ctl_kept (write_hex_slabs ss q off r w)"
    by (induction ss q off r w rule: write_hex_slabs.induct)
      (subst write_hex_slabs.simps, auto intro!: ctl_rules split: option.split)
qed

lemma ctl_write_data [ctl_rules]:
  "ctl_kept (write_data (\<lambda>ss. write_slabs ss q) obj w)" "ctl_kept (write_data (\<lambda>ss. write_hex_slabs ss q) obj w)"
  unfolding write_data_def by (auto intro!: ctl_rules)

lemma ctl_write_number [ctl_rules]: "ctl_kept (write_number obj w)"
  unfolding write_number_def by (cases obj) (auto intro!: ctl_rules)

definition wsim :: "evc \<Rightarrow> bool \<Rightarrow> writer \<Rightarrow> writer \<Rightarrow> bool" where
  "wsim e b wr wr' \<longleftrightarrow> (\<forall>x q out. sim e b (wr x q out) (wr' x q out))"

lemma wsimD: "wsim e b wr wr' \<Longrightarrow> sim e b (wr x q out) (wr' x q out)"
  by (simp add: wsim_def)

lemma sim_write_pairs [sim_rules]:
  assumes "fuel_le b k k'" and "wsim e b wr wr'"
  shows "sim e b (write_pairs k wr obj w) (write_pairs k' wr' obj w)"
  using assms(1)
  by (induction k k' arbitrary: obj w rule: fuel_induct) (auto intro!: sim_rules ctl_rules wsimD [OF assms(2)])

lemma sim_write_entries [sim_rules]:
  assumes "wsim e b wr wr'"
  shows "sim e b (write_entries m wr is' first w) (write_entries m wr' is' first w)"
  by (induction is' arbitrary: first w)
    (auto intro!: sim_rules ctl_rules wsimD [OF assms] simp: Let_def split: option.split)

lemma sim_write_map [sim_rules]:
  assumes "wsim e b wr wr'"
  shows "sim e b (write_map wr obj w) (write_map wr' obj w)"
  unfolding write_map_def
  by (auto intro!: sim_rules ctl_rules assms split: val.split option.split)

lemma sim_write_pair [sim_rules]:
  assumes "fuel_le b k k'" and "wsim e b wr wr'"
  shows "sim e b (write_pair k wr obj w) (write_pair k' wr' obj w)"
  unfolding write_pair_def by (intro sim_rules ctl_rules assms wsimD [OF assms(2)])

lemma wsim_fe_write: "fuel_le b k k' \<Longrightarrow> wsim e b (fe_write k) (fe_write k')"
proof (induction k k' rule: fuel_induct)
  case (step j j')
  show ?case unfolding wsim_def fe_write.simps fe_write_body_def Let_def
    by (auto intro!: sim_rules ctl_rules step wsimD [OF step(2)] split: fe_tag.split)
qed (simp_all add: wsim_def sim_rules)

lemma sim_fe_write [sim_rules]: "fuel_le b k k' \<Longrightarrow> sim e b (fe_write k x q out) (fe_write k' x q out)"
  by (rule wsimD [OF wsim_fe_write])

section \<open>Primitives and calls\<close>

text \<open>A host that leaves the call list, the depths and the modules being loaded alone.\<close>

definition host_kept :: "host \<Rightarrow> bool" where
  "host_kept hs \<longleftrightarrow> (\<forall>f a. oks (fixes_field evctl) (host_cfunc hs f a)) \<and>
     (\<forall>v. oks (fixes_field evctl) (host_import hs v)) \<and> (\<forall>s. oks (fixes_field evctl) (host_print hs s))"

text \<open>
  Two hosts that do the same. During an evaluation the call list and the nesting change; \<open>same_run\<close>
  relates control states that differ in these only.
\<close>

definition same_run :: "evc \<Rightarrow> evc \<Rightarrow> bool" where
  "same_run e e' \<longleftrightarrow> fst (snd e) = fst (snd e') \<and> snd (snd (snd e)) = snd (snd (snd e'))"

definition hsim :: "evc \<Rightarrow> bool \<Rightarrow> host \<Rightarrow> host \<Rightarrow> bool" where
  "hsim e b hs hs' \<longleftrightarrow> (\<forall>e'. same_run e e' \<longrightarrow>
     (\<forall>f a. sim e' b (host_cfunc hs f a) (host_cfunc hs' f a)) \<and>
     (\<forall>v. sim e' b (host_import hs v) (host_import hs' v)) \<and> (\<forall>s. sim e' b (host_print hs s) (host_print hs' s)))"

lemma same_run_refl: "same_run e e"
  by (simp add: same_run_def)

lemma hsim_refl: "host_kept hs \<Longrightarrow> hsim e b hs hs"
  by (simp add: host_kept_def hsim_def sim_kept)

lemma hsim_same: "hsim e b hs hs' \<Longrightarrow> same_run e e' \<Longrightarrow> hsim e' b hs hs'"
  by (auto simp: hsim_def same_run_def)

lemma same_run_tuple [simp]: "same_run (cl, d, n, m, L) (cl', d', n', m', L') \<longleftrightarrow> d = d' \<and> m = m' \<and> L = L'"
  by (simp add: same_run_def)

lemma sim_host:
  "hsim e b hs hs' \<Longrightarrow> sim e b (host_cfunc hs f a) (host_cfunc hs' f a)"
  "hsim e b hs hs' \<Longrightarrow> sim e b (host_import hs v) (host_import hs' v)"
  "hsim e b hs hs' \<Longrightarrow> sim e b (host_print hs s) (host_print hs' s)"
  using same_run_refl unfolding hsim_def by blast+

lemma sim_print_sep:
  "hsim e b hs hs' \<Longrightarrow> sim e b (if p then ret () else host_print hs s) (if p then ret () else host_print hs' s)"
  by (cases p) (simp_all add: sim_host sim_ctl ctl_rules)

lemma sim_print_loop [sim_rules]:
  assumes "fuel_le b k k'" and "esim e b rec rec'" and hs: "hsim e b hs hs'"
  shows "sim e b (print_loop k hs rec arg env) (print_loop k' hs' rec' arg env)"
  using assms(1)
proof (induction k k' arbitrary: arg rule: fuel_induct)
  case (step j j')
  show ?case unfolding print_loop.simps
    by (rule sim_if, intro sim_rules ctl_rules, rule sim_bnd, rule sim_evalarg [OF assms(2)], rule sim_case_prod,
        rule sim_bnd, rule sim_fe_write [OF step(1)], rule sim_sq, rule sim_host(3) [OF hs], rule sim_sq,
        rule sim_print_sep [OF hs], rule step(2))
qed (simp_all add: sim_rules)

lemma ctl_contains_nul [ctl_rules]: "ctl_kept (fe_string_contains_nul obj)"
  unfolding fe_string_contains_nul_def by (intro ctl_rules)

lemma ctl_let_env [ctl_rules]: "ctl_kept (let_env bd env)"
  unfolding let_env_def is_frame_def by (auto intro!: ctl_rules)

lemma sim_prim_let [sim_rules]:
  assumes "esim e b rec rec'"
  shows "sim e b (prim_let rec arg env ne) (prim_let rec' arg env ne)"
  unfolding prim_let_def by (intro sim_rules ctl_rules esimD [OF assms])

lemma sim_prim_module [sim_rules]:
  assumes "esim e b rec rec'"
  shows "sim e b (prim_module rec arg env) (prim_module rec' arg env)"
  unfolding prim_module_def by (auto intro!: sim_rules ctl_rules assms simp: ctl_def)

lemma sim_prim_export [sim_rules]:
  "fuel_le b k k' \<Longrightarrow> esim e b rec rec' \<Longrightarrow> sim e b (prim_export k rec arg env) (prim_export k' rec' arg env)"
  unfolding prim_export_def by (intro sim_rules ctl_rules)

lemma ctl_find_assoc_loop [ctl_rules]: "ctl_kept (find_assoc_loop n sy p)"
  by (induction n arbitrary: p) (auto intro!: ctl_rules)

lemma ctl_get_property [ctl_rules]: "ctl_kept (get_property va vb)"
  unfolding get_property_def name_in_def find_assoc_binding_def
  by (auto intro!: ctl_rules split: option.split)

lemma sim_prim_simple [sim_rules]:
  assumes "esim e b rec rec'"
  shows "sim e b (prim_get rec arg env) (prim_get rec' arg env)" "sim e b (prim_put rec arg env) (prim_put rec' arg env)"
    "sim e b (prim_set rec arg env) (prim_set rec' arg env)" "sim e b (prim_return rec arg env) (prim_return rec' arg env)"
    "sim e b (numcmpop rec op arg env) (numcmpop rec' op arg env)"
  unfolding prim_get_def prim_put_def prim_set_def prim_return_def numcmpop_def
  by (intro sim_rules ctl_rules assms)+

lemma sim_prim_fn [sim_rules]: "fuel_le b k k' \<Longrightarrow> sim e b (prim_fn k t arg env) (prim_fn k' t arg env)"
  unfolding prim_fn_def by (intro sim_rules ctl_rules)

lemma sim_prim_loops [sim_rules]:
  assumes "fuel_le b k k'" and "esim e b rec rec'"
  shows "sim e b (prim_while k rec arg env) (prim_while k' rec' arg env)"
    "sim e b (arithop k rec op arg env) (arithop k' rec' op arg env)"
    "sim e b (prim_sub k rec arg env) (prim_sub k' rec' arg env)"
    "sim e b (prim_do k rec arg env) (prim_do k' rec' arg env)"
    "sim e b (dolist k rec arg env) (dolist k' rec' arg env)"
  unfolding prim_while_def arithop_def prim_sub_def prim_do_def dolist_def
  by (intro sim_rules ctl_rules assms)+

lemma sim_prim_call:
  assumes "fuel_le b k k'" and "esim e b rec rec'" and "hsim e b hs hs'"
  shows "sim e b (prim_call hs k rec p arg env) (prim_call hs' k' rec' p arg env)"
proof (cases p)
  case P_IMPORT
  then show ?thesis by (auto intro!: sim_bnd sim_case_prod sim_host assms(3) intro: sim_ctl ctl_rules)
next
  case P_PRINT
  then show ?thesis
    by (auto intro!: sim_sq sim_print_loop sim_host assms intro: sim_ctl ctl_rules)
qed (simp_all, (intro sim_rules ctl_rules assms)+)

lemma sim_eval_prim:
  assumes "fuel_le b k k'" and "esim e b rec rec'" and "hsim e b hs hs'"
  shows "sim e b (eval_prim hs k rec i arg env ne) (eval_prim hs' k' rec' i arg env ne)"
  unfolding eval_prim_def by (intro sim_rules ctl_rules assms sim_prim_call)

lemma ctl_copy_object [ctl_rules]: "ctl_kept (copy_object obj v)"
  unfolding copy_object_def by (cases v) (auto intro!: ctl_rules)

lemma sim_call_func [sim_rules]:
  assumes "fuel_le b k k'" and "esim e b rec rec'"
  shows "sim e b (call_func k rec fn arg env) (call_func k' rec' fn arg env)"
    "sim e b (call_macro k rec fn obj arg) (call_macro k' rec' fn obj arg)"
  unfolding call_func_def call_macro_def by (intro sim_rules ctl_rules assms)+

lemma sim_eval_call:
  assumes "fuel_le b k k'" and "esim e b rec rec'" and "hsim e b hs hs'"
  shows "sim e b (eval_call hs k rec fn obj arg env ne) (eval_call hs' k' rec' fn obj arg env ne)"
proof -
  have c: "sim e b (case v of VFn f \<Rightarrow> bnd (host_cfunc hs f a) (\<lambda>res. ret (Done res, ne)) | _ \<Rightarrow> throw Crash)
      (case v of VFn f \<Rightarrow> bnd (host_cfunc hs' f a) (\<lambda>res. ret (Done res, ne)) | _ \<Rightarrow> throw Crash)" for v a
    by (cases v) (auto intro!: sim_bnd sim_host assms(3) sim_throw intro: sim_ctl ctl_rules)
  have p: "sim e b (case v of VPrim i \<Rightarrow> eval_prim hs k rec i arg env ne | _ \<Rightarrow> throw Crash)
      (case v of VPrim i \<Rightarrow> eval_prim hs' k' rec' i arg env ne | _ \<Rightarrow> throw Crash)" for v
    by (cases v) (auto intro!: sim_eval_prim assms sim_throw)
  show ?thesis unfolding eval_call_def
    by (intro sim_bnd sim_if sim_sq sim_error c p sim_evallist sim_call_func assms; intro sim_ctl ctl_rules)
qed

section \<open>The evaluator\<close>

lemma ctl_is_return [ctl_rules]: "ctl_kept (strip_return t obj)" "ctl_kept (unwrap_return t obj)"
  unfolding strip_return_def unwrap_return_def by (auto intro!: ctl_rules)

lemma sim_check_eval_budget: "sim e b check_eval_budget check_eval_budget"
proof (rule sim_kept, unfold oks_def fixes_field_def, intro allI impI)
  fix c c' :: fe_Context and x
  assume "check_eval_budget c = (Inr x, c')"
  then have "poll_frame (c\<lparr>steps_executed := steps_executed c + 1\<rparr>) c'"
    using poll_eval_abort_frame [of "c\<lparr>steps_executed := steps_executed c + 1\<rparr>" False]
    by (auto simp: check_eval_budget_def sq_modify bnd_gets bnd_lift_st fe_error_def ret_def
        split: prod.splits if_splits option.splits)
  then show "evctl c' = evctl c" by (auto simp: evctl_def poll_frame_def)
qed

lemma leads_eval:
  "leads (cl, d, n, m, L) (cl, d, n - 1, m, L) leave_eval"
  "leads (cl', d, n, m, L) (cl, d, n - 1, m, L) (leave_call cl)"
  "leads (cl', d, n, m, L) (cl, d, n, m, L) (modify (\<lambda>c. c\<lparr>calllist := cl\<rparr>))"
  by (auto simp: leads_def leave_call_def leave_eval_def modify_def sq_def bnd_def evctl_def)

lemma sim_to_enter_eval:
  assumes "\<not> (m > 0 \<and> n \<ge> m) \<Longrightarrow> sim_to (cl, d, n + 1, m, L) e b f f'"
  shows "sim_to (cl, d, n, m, L) e b (sq enter_eval f) (sq enter_eval f')"
proof (cases "m > 0 \<and> n \<ge> m")
  case True
  then show ?thesis by (auto simp: sim_to_def enter_eval_def evctl_def sq_def bnd_gets bnd_assoc fe_error_def bnd_def gets_def)
next
  case False
  have "leads (cl, d, n, m, L) (cl, d, n + 1, m, L) enter_eval"
    using False by (auto simp: leads_def enter_eval_def evctl_def bnd_gets modify_def fe_error_def)
  then show ?thesis using assms [OF False] by (intro sim_to_sq [OF sim_to_refl])
qed

lemmas sim_to_ctl = sim_ctl [unfolded sim_to_same]

lemma sim_to_end_call:
  assumes "sim (cl, d, n, m, L) b r r'"
  shows "sim_to (x # cl, d, n + 1, m, L) (cl, d, n, m, L) b (sq (end_call gc cl) r) (sq (end_call gc cl) r')"
proof -
  have "sim_to (x # cl, d, n + 1, m, L) (cl, d, n, m, L) b (leave_call cl) (leave_call cl)"
    using leads_eval(2) [of "x # cl" d "n + 1" m L cl] by (intro sim_to_refl) simp
  then have "sim_to (x # cl, d, n + 1, m, L) (cl, d, n, m, L) b (end_call gc cl) (end_call gc cl)"
    unfolding end_call_def by (rule sim_to_sq [rotated]) (intro sim_to_ctl ctl_rules)
  then show ?thesis using assms [unfolded sim_to_same] by (rule sim_to_sq)
qed

lemma sim_to_finish:
  assumes again: "\<And>t obj env ne. sim (cl, d, n, m, L) b (again t obj env ne) (again' t obj env ne)"
  shows "sim_to (x # cl, d, n + 1, m, L) (cl, d, n, m, L) b (eval_finish again t obj env gc cl nx ne)
    (eval_finish again' t obj env gc cl nx ne)"
proof (cases nx)
  case (Done res)
  have "sim_to (x # cl, d, n + 1, m, L) (cl, d, n, m, L) b (leave_call cl) (leave_call cl)"
    using leads_eval(2) [of "x # cl" d "n + 1" m L cl] by (intro sim_to_refl) simp
  moreover have "sim_to (cl, d, n, m, L) (cl, d, n, m, L) b (bnd (unwrap_return t res) (\<lambda>v. ret (v, ne)))
      (bnd (unwrap_return t res) (\<lambda>v. ret (v, ne)))" by (intro sim_to_ctl ctl_rules)
  ultimately have "sim_to (x # cl, d, n + 1, m, L) (cl, d, n, m, L) b
      (sq (leave_call cl) (bnd (unwrap_return t res) (\<lambda>v. ret (v, ne))))
      (sq (leave_call cl) (bnd (unwrap_return t res) (\<lambda>v. ret (v, ne))))" by (rule sim_to_sq)
  with Done show ?thesis unfolding eval_finish_def eval_next.case
    by (simp only: eval_next.case) (rule sim_to_sq [rotated], assumption, intro sim_to_ctl ctl_rules)
next
  case Expand
  have "sim (cl, d, n, m, L) b (bnd (again False obj env None) (\<lambda>(v, _). ret (v, ne)))
      (bnd (again' False obj env None) (\<lambda>(v, _). ret (v, ne)))"
    by (rule sim_bnd [OF again]) (intro sim_case_prod sim_ctl ctl_rules)
  with Expand show ?thesis by (simp add: eval_finish_def sim_to_end_call)
qed (simp_all add: eval_finish_def sim_to_end_call again)

lemma sim_eval_apply:
  assumes "fuel_le b k k'" and "esim e b rec rec'" and "hsim e b hs hs'"
  shows "sim e b (eval_apply hs k rec obj env ne) (eval_apply hs' k' rec' obj env ne)"
  unfolding eval_apply_def
  by (rule sim_bnd, intro sim_ctl ctl_rules, rule sim_bnd [OF esimD [OF assms(2)]], rule sim_case_prod,
      rule sim_bnd, intro sim_ctl ctl_rules, rule sim_eval_call [OF assms])

lemma sim_to_pair:
  assumes k: "fuel_le b k k'" and hs: "hsim (cl, d, n, m, L) b hs hs'" and rec: "esim (obj # cl, d, n + 1, m, L) b rec rec'"
    and again: "\<And>t obj env ne. sim (cl, d, n, m, L) b (again t obj env ne) (again' t obj env ne)"
  shows "sim_to (cl, d, n + 1, m, L) (cl, d, n, m, L) b (eval_pair hs k rec again t cl obj env ne)
    (eval_pair hs' k' rec' again' t cl obj env ne)"
proof -
  let ?e = "(obj # cl, d, n + 1, m, L)"
  have 1: "sim_to ?e (cl, d, n, m, L) b
      (bnd (eval_apply hs k rec obj env ne) (\<lambda>(nx, ne). eval_finish again t obj env gc cl nx ne))
      (bnd (eval_apply hs' k' rec' obj env ne) (\<lambda>(nx, ne). eval_finish again' t obj env gc cl nx ne))" for gc
    by (rule sim_to_bnd [OF sim_eval_apply [OF k rec hsim_same [OF hs], unfolded sim_to_same]])
      (auto intro: sim_to_finish [OF again])
  have 2: "sim_to ?e ?e b (push_all [env, obj]) (push_all [env, obj])" "sim_to ?e ?e b fe_savegc fe_savegc"
    by (intro sim_to_ctl ctl_rules)+
  have "sim_to ?e (cl, d, n, m, L) b
      (bnd fe_savegc (\<lambda>gc. sq (push_all [env, obj]) (bnd (eval_apply hs k rec obj env ne) (\<lambda>(nx, ne). eval_finish again t obj env gc cl nx ne))))
      (bnd fe_savegc (\<lambda>gc. sq (push_all [env, obj]) (bnd (eval_apply hs' k' rec' obj env ne) (\<lambda>(nx, ne). eval_finish again' t obj env gc cl nx ne))))"
    by (intro sim_to_bnd [OF 2(2)] sim_to_sq [OF 2(1)] 1)
  with sim_to_refl [OF leads_eval(3)] show ?thesis unfolding eval_pair_def by (rule sim_to_sq)
qed

lemma sim_eval_loop:
  assumes m: "fuel_le b j j'" and k: "fuel_le b k k'" and hs: "hsim (cl, d, n, m, L) b hs hs'"
    and rec: "\<And>obj. \<not> (m > 0 \<and> n \<ge> m) \<Longrightarrow> esim (obj # cl, d, n + 1, m, L) b rec rec'"
  shows "sim (cl, d, n, m, L) b (eval_loop j hs k rec t obj env ne) (eval_loop j' hs' k' rec' t obj env ne)"
  using m
proof (induction j j' arbitrary: t obj env ne rule: fuel_induct)
  case (step j j')
  let ?e = "(cl, d, n, m, L)"
  have leave: "sim_to (cl, d, n + 1, m, L) ?e b (sq leave_eval r) (sq leave_eval r)" if "ctl_kept r" for r :: "(ptr \<times> ptr option) fcomp"
    using sim_to_sq [OF sim_to_refl [OF leads_eval(1) [of cl d "n + 1" m L]] sim_to_ctl [OF that]] by simp
  have "sim_to ?e ?e b
     (sq enter_eval (bnd (gets (\<lambda>c. (typeof c x, calllist c))) (\<lambda>(ty, cl).
       if ty = FE_TSYMBOL then sq leave_eval (bnd (getbound x env) (\<lambda>y. bnd (cdr y) (\<lambda>v. ret (v, ne))))
       else if ty \<noteq> FE_TPAIR then sq leave_eval (ret (x, ne))
       else eval_pair hs k rec (eval_loop j hs k rec) t cl x env ne)))
     (sq enter_eval (bnd (gets (\<lambda>c. (typeof c x, calllist c))) (\<lambda>(ty, cl).
       if ty = FE_TSYMBOL then sq leave_eval (bnd (getbound x env) (\<lambda>y. bnd (cdr y) (\<lambda>v. ret (v, ne))))
       else if ty \<noteq> FE_TPAIR then sq leave_eval (ret (x, ne))
       else eval_pair hs' k' rec' (eval_loop j' hs' k' rec') t cl x env ne)))" for x
  proof (rule sim_to_enter_eval, rule sim_to_gets)
    fix c
    assume g: "\<not> (m > 0 \<and> n \<ge> m)" and "evctl c = (cl, d, n + 1, m, L)"
    then have cl: "calllist c = cl" by (simp add: evctl_def)
    show "sim_to (cl, d, n + 1, m, L) ?e b (case (typeof c x, calllist c) of (tg, cl) \<Rightarrow>
       if tg = FE_TSYMBOL then sq leave_eval (bnd (getbound x env) (\<lambda>y. bnd (cdr y) (\<lambda>v. ret (v, ne))))
       else if tg \<noteq> FE_TPAIR then sq leave_eval (ret (x, ne))
       else eval_pair hs k rec (eval_loop j hs k rec) t cl x env ne) (case (typeof c x, calllist c) of (tg, cl) \<Rightarrow>
       if tg = FE_TSYMBOL then sq leave_eval (bnd (getbound x env) (\<lambda>y. bnd (cdr y) (\<lambda>v. ret (v, ne))))
       else if tg \<noteq> FE_TPAIR then sq leave_eval (ret (x, ne))
       else eval_pair hs' k' rec' (eval_loop j' hs' k' rec') t cl x env ne)"
      unfolding cl prod.case
      using sim_to_pair [OF k hs rec [OF g] step(2)] by (simp add: leave ctl_rules)
  qed
  note turn = this [folded sim_to_same]
  show ?case unfolding eval_loop.simps
    by (rule sim_bnd [OF sim_ctl sim_sq [OF sim_check_eval_budget turn]]) (intro ctl_rules)
qed (simp_all add: sim_rules)

lemma sim_eval:
  assumes "fuel_le b n n'" and k: "fuel_le b k k'" and "hsim e b hs hs'" and "stop = OutOfFuel"
  shows "sim e b (eval hs k stop n obj env ne) (eval hs' k' stop n' obj env ne)"
  using assms(1,3)
proof (induction n n' arbitrary: e obj env ne rule: fuel_induct)
  case (step j j')
  obtain cl d n m L where e: "e = (cl, d, n, m, L)" by (cases e)
  have "esim (obj # cl, d, n + 1, m, L) b (eval hs k stop j) (eval hs' k' stop j')" for obj
    unfolding esim_def using hsim_same [OF step.prems] e by (intro allI step(2)) simp
  then show ?case using step.prems unfolding e eval.simps by (intro sim_eval_loop [OF k k])
qed (simp_all add: sim_rules assms(4))


text \<open>A host without C functions, and the call \<open>(quote 7)\<close> with the primitive itself in the operator position.\<close>

definition silent_host :: host where
  "silent_host = \<lparr>host_cfunc = \<lambda>_ _. ret Nil, host_import = \<lambda>_. ret Nil, host_print = \<lambda>_. ret ()\<rparr>"

definition quote_example :: fe_Context where
  "quote_example = (zeroed_context quiet_env 4096)
     \<lparr>objects := [pair_cell (Ref 1) (Ref 2), \<lparr>ocar = VNone, ocdr = VPrim 12, ty = FE_TPRIM, mark = False\<rparr>,
                  pair_cell (Fixnum 7) Nil], max_eval_depth := 4\<rparr>"

lemma silent_host_kept: "host_kept silent_host"
  by (simp add: host_kept_def silent_host_def field_order.oks_ret)

lemma quote_example_run: "fst (eval silent_host 3 OutOfFuel 2 (Ref 0) Nil None quote_example) = Inr (Fixnum 7, None)"
  by code_simp




section \<open>The nesting of the evaluator is bounded\<close>

lemma eval_nesting:
  assumes "host_kept hs" and "0 < m" and "m - cur < int n" and "0 < n" and "n \<le> n'"
  shows "sim (cl, d, cur, m, L) False (eval hs k stop n obj env ne) (eval hs k stop' n' obj env ne)"
  using assms(3-)
proof (induction n arbitrary: n' cl cur obj env ne)
  case (Suc n)
  then obtain j where j: "n' = Suc j" "n \<le> j" by (cases n') auto
  have "esim (x # cl, d, cur + 1, m, L) False (eval hs k stop n) (eval hs k stop' j)" if "\<not> (m > 0 \<and> cur \<ge> m)" for x
    unfolding esim_def using that assms(2) Suc.prems j by (intro allI Suc.IH) auto
  then show ?case unfolding j(1) eval.simps
    by (intro sim_eval_loop [OF _ _ hsim_refl [OF assms(1)]]) simp_all
qed simp



section \<open>A binding that escapes\<close>

text \<open>
  The call \<open>((fn (a) (let x a)) 5)\<close>: cell 1 is the function, cells 8 and 12 the symbols \<open>a\<close> and \<open>x\<close>, and
  cell 16 the environment of the caller, in which \<open>a\<close> is 1. Cells 18 to 26 are free.
\<close>

definition tail_let_example :: fe_Context where
  "tail_let_example = (zeroed_context quiet_env 65536)
     \<lparr>objects := [pair_cell (Ref 1) (Ref 2), \<lparr>ocar = VNone, ocdr = VObj (Ref 3), ty = FE_TFUNC, mark = False\<rparr>,
        pair_cell (Fixnum 5) Nil, pair_cell Nil (Ref 4), pair_cell Nil (Ref 5), pair_cell (Ref 6) (Ref 7),
        pair_cell (Ref 8) Nil, pair_cell (Ref 9) Nil, symbol_cell (Ref 14), pair_cell (Ref 10) (Ref 11),
        \<lparr>ocar = VNone, ocdr = VPrim 0, ty = FE_TPRIM, mark = False\<rparr>, pair_cell (Ref 12) (Ref 13),
        symbol_cell (Ref 15), pair_cell (Ref 8) Nil, pair_cell Nil Nil, pair_cell Nil Nil,
        pair_cell (Ref 17) Nil, pair_cell (Ref 8) (Fixnum 1)] @
        map (\<lambda>i. \<lparr>ocar = VNone, ocdr = VObj (if i = 26 then Nil else Ref (Suc i)), ty = FE_TFREE, mark = False\<rparr>) [18..<27],
      freelist := Ref 18, gc_threshold := 100, byte_threshold := 1000, frame_sym := Boolean True, return_sym := Boolean False\<rparr>"


end
