(* ===== verification/Fex_Strings.thy ===== *)
theory Fex_Strings
  imports Fe_Read
begin

text \<open>
  The string and byte string functions of the extended library (\<^verbatim>\<open>fex_builtins.c\<close>) with the helpers they
  share: argument checks, growing text buffers, copies of string objects into C buffers, and the
  poll for an abort in every loop. Buffers come from \<^verbatim>\<open>malloc\<close> directly, not from the tracked allocator,
  so the only trace of one is the answer of the environment.
\<close>

section \<open>Arguments\<close>

primrec arg_count :: "nat \<Rightarrow> nat \<Rightarrow> ptr \<Rightarrow> nat fcomp" where
  "arg_count 0 n args = throw OutOfFuel"
| "arg_count (Suc k) n args = (if isnil args then ret n else bnd (fe_cdr args) (arg_count k (Suc n)))"

definition FEX_CHECK_ARGS :: "ptr \<Rightarrow> nat \<Rightarrow> string \<Rightarrow> unit fcomp" where
  "FEX_CHECK_ARGS args min_count func_name =
     bnd (gets walk_fuel) (\<lambda>k. bnd (arg_count k 0 args) (\<lambda>n.
       if n < min_count then fe_error (func_name @ '': insufficient arguments'') else ret ()))"

definition FEX_CHECK_NO_ARGS :: "ptr \<Rightarrow> string \<Rightarrow> unit fcomp" where
  "FEX_CHECK_NO_ARGS args func_name =
     (if isnil args then ret () else fe_error (func_name @ '': no arguments expected''))"

definition FEX_CHECK_TYPE :: "ptr \<Rightarrow> fe_tag \<Rightarrow> string \<Rightarrow> unit fcomp" where
  "FEX_CHECK_TYPE obj expected_type func_name =
     bnd (gets (\<lambda>c. typeof c obj)) (\<lambda>t.
       if t \<noteq> expected_type then fe_error (func_name @ '': type mismatch'') else ret ())"

text \<open>\<^verbatim>\<open>fe_tonumber\<close> reads the number without a check of the type.\<close>

definition fe_tonumber :: "ptr \<Rightarrow> fe_Number fcomp" where
  "fe_tonumber obj = fe_num_value obj"

text \<open>The conversion \<^verbatim>\<open>(int)\<close> of a double is undefined outside the range of \<^verbatim>\<open>int\<close>.\<close>

definition num_to_int :: "fe_Number \<Rightarrow> int fcomp" where
  "num_to_int n = (case num_to_intptr n of
      Some i \<Rightarrow> if - (2 ^ 31) \<le> i \<and> i < 2 ^ 31 then ret i else throw Crash
    | None \<Rightarrow> throw Crash)"

definition int_arg :: "ptr \<Rightarrow> int fcomp" where
  "int_arg obj = bnd (fe_tonumber obj) num_to_int"

section \<open>Polls\<close>

definition FEX_BUILTIN_ABORT_CHECK_INTERVAL :: nat where "FEX_BUILTIN_ABORT_CHECK_INTERVAL = 64"
definition FEX_FILE_IO_CHUNK_SIZE :: nat where "FEX_FILE_IO_CHUNK_SIZE = 16384"

definition builtin_poll_abort :: "nat \<Rightarrow> (string option \<times> nat) fcomp" where
  "builtin_poll_abort countdown =
     (if countdown > 1 then ret (None, countdown - 1)
      else bnd (lift_st fe_poll_abort) (\<lambda>msg. ret (msg, FEX_BUILTIN_ABORT_CHECK_INTERVAL)))"

text \<open>The poll followed by \<^verbatim>\<open>if (abort_error != NULL) fe_error(ctx, abort_error);\<close>.\<close>

definition poll_or_fail :: "nat \<Rightarrow> nat fcomp" where
  "poll_or_fail countdown = bnd (builtin_poll_abort countdown) (\<lambda>(msg, countdown).
     case msg of None \<Rightarrow> ret countdown | Some m \<Rightarrow> fe_error m)"

section \<open>Text buffers\<close>

text \<open>A buffer is its text and its capacity; \<open>None\<close>: out of memory.\<close>

type_synonym TextBuffer = "string \<times> nat"

definition empty_buffer :: TextBuffer where "empty_buffer = ([], 0)"

definition builtin_alloc :: "nat \<Rightarrow> bool fcomp" where
  "builtin_alloc n = lift_st (sys_malloc (of_nat (if n > 0 then n else 1)))"

definition buf_reserve :: "nat \<Rightarrow> TextBuffer \<Rightarrow> TextBuffer option fcomp" where
  "buf_reserve extra b =
     (let needed = length (fst b) + extra + 1 in
      if needed \<le> snd b then ret (Some b)
      else let new_cap = double_until (if snd b > 0 then snd b else 64) needed
           in bnd (lift_st (sys_malloc (of_nat new_cap))) (\<lambda>ok. ret (if ok then Some (fst b, new_cap) else None)))"

definition buf_append_mem :: "string \<Rightarrow> TextBuffer \<Rightarrow> TextBuffer option fcomp" where
  "buf_append_mem d b = bnd (buf_reserve (length d) b) (\<lambda>r. ret (map_option (\<lambda>b. (fst b @ d, snd b)) r))"

definition buf_append_str :: "string \<Rightarrow> TextBuffer \<Rightarrow> TextBuffer option fcomp" where
  "buf_append_str s b = buf_append_mem s b"

definition buf_append_char :: "char \<Rightarrow> TextBuffer \<Rightarrow> TextBuffer option fcomp" where
  "buf_append_char c b = bnd (buf_reserve 1 b) (\<lambda>r. ret (map_option (\<lambda>b. (fst b @ [c], snd b)) r))"

definition utf8_bytes :: "nat \<Rightarrow> string option" where
  "utf8_bytes cp =
     (if cp \<le> 0x7F then Some [char_of cp]
      else if cp \<le> 0x7FF then Some [char_of (0xC0 + cp div 64 mod 32), char_of (0x80 + cp mod 64)]
      else if cp \<le> 0xFFFF then
        Some [char_of (0xE0 + cp div 4096 mod 16), char_of (0x80 + cp div 64 mod 64), char_of (0x80 + cp mod 64)]
      else None)"

definition buf_append_utf8 :: "nat \<Rightarrow> TextBuffer \<Rightarrow> TextBuffer option fcomp" where
  "buf_append_utf8 cp b = (case utf8_bytes cp of None \<Rightarrow> ret None | Some d \<Rightarrow> buf_append_mem d b)"

text \<open>
  The outcome of \<^verbatim>\<open>buf_append_mem_polling\<close>: the buffer, or nothing with the reason of an abort when there
  is one.
\<close>

function buf_append_mem_polling ::
  "string \<Rightarrow> TextBuffer \<Rightarrow> nat \<Rightarrow> (TextBuffer option \<times> string option \<times> nat) fcomp" where
  "buf_append_mem_polling d b countdown =
     (if d = [] then ret (Some b, None, countdown)
      else bnd (builtin_poll_abort countdown) (\<lambda>(msg, countdown). case msg of
          Some m \<Rightarrow> ret (None, Some m, countdown)
        | None \<Rightarrow> bnd (buf_append_mem (take FEX_FILE_IO_CHUNK_SIZE d) b) (\<lambda>r. case r of
              None \<Rightarrow> ret (None, None, countdown)
            | Some b \<Rightarrow> buf_append_mem_polling (drop FEX_FILE_IO_CHUNK_SIZE d) b countdown)))"
  by pat_completeness auto
termination by (relation "measure (\<lambda>(d, b, k). length d)") (auto simp: FEX_FILE_IO_CHUNK_SIZE_def)

declare buf_append_mem_polling.simps [simp del]

section \<open>Copies of string objects\<close>

definition INT_MAX :: int where "INT_MAX = 2147483647"

text \<open>A string object is written without recursion.\<close>

definition string_to_buffer :: "ptr \<Rightarrow> string \<Rightarrow> string fcomp" where
  "string_to_buffer str_obj func_name =
     sq (FEX_CHECK_TYPE str_obj FE_TSTRING func_name) (bnd (fe_strlen str_obj) (\<lambda>len.
       if int (len + 1) > INT_MAX then fe_error (func_name @ '': string too large'')
       else bnd (builtin_alloc (len + 1)) (\<lambda>ok.
         if \<not> ok then fe_error (func_name @ '': out of memory'')
         else bnd (fe_tostring 1 str_obj (int (len + 1))) (\<lambda>(s, _). ret s))))"

definition string_to_cstr :: "ptr \<Rightarrow> string \<Rightarrow> string fcomp" where
  "string_to_cstr str_obj func_name = bnd (string_to_buffer str_obj func_name) (\<lambda>s.
     if CHR 0x00 \<in> set s then fe_error (func_name @ '': strings containing NUL bytes are not allowed'')
     else ret s)"

definition bytes_to_buffer :: "ptr \<Rightarrow> string \<Rightarrow> string fcomp" where
  "bytes_to_buffer bytes_obj func_name =
     sq (FEX_CHECK_TYPE bytes_obj FE_TBYTES func_name) (bnd (fe_byteslen bytes_obj) (\<lambda>len.
       bnd (builtin_alloc (if len > 0 then len else 1)) (\<lambda>ok.
         if \<not> ok then fe_error (func_name @ '': out of memory'')
         else if len > 0 then fe_bytescopy bytes_obj 0 len else ret [])))"

definition string_to_bytes :: "ptr \<Rightarrow> string \<Rightarrow> ptr fcomp" where
  "string_to_bytes str_obj func_name =
     sq (FEX_CHECK_TYPE str_obj FE_TSTRING func_name) (bnd (fe_strlen str_obj) (\<lambda>len.
       if len > 0 \<and> int (len + 1) > INT_MAX then fe_error ''tobytes: string too large''
       else bnd (builtin_alloc (if len > 0 then len + 1 else 1)) (\<lambda>ok.
         if \<not> ok then fe_error ''tobytes: out of memory''
         else bnd (if len > 0 then bnd (fe_tostring 1 str_obj (int (len + 1))) (\<lambda>(s, _). ret s) else ret [])
           fe_bytes)))"

definition copy_string_to_fixed_buffer :: "ptr \<Rightarrow> string \<Rightarrow> nat \<Rightarrow> string fcomp" where
  "copy_string_to_fixed_buffer str_obj func_name capacity =
     sq (FEX_CHECK_TYPE str_obj FE_TSTRING func_name) (bnd (fe_strlen str_obj) (\<lambda>len.
       if len + 1 > capacity then fe_error (func_name @ '': string too long'')
       else bnd (fe_tostring 1 str_obj (int capacity)) (\<lambda>(s, _). ret s)))"

definition bytes_contains_byte :: "string \<Rightarrow> char \<Rightarrow> bool" where
  "bytes_contains_byte s v \<longleftrightarrow> (\<exists>c \<in> set s. c = v)"

primrec contains_from :: "nat \<Rightarrow> string \<Rightarrow> string \<Rightarrow> bool" where
  "contains_from 0 haystack needle = False"
| "contains_from (Suc k) haystack needle =
     (if length needle \<le> length haystack then
        (if take (length needle) haystack = needle then True else contains_from k (drop 1 haystack) needle)
      else False)"

definition bytes_contains_sequence :: "string \<Rightarrow> string \<Rightarrow> bool" where
  "bytes_contains_sequence haystack needle =
     (if needle = [] then True
      else if length needle > length haystack then False
      else contains_from (Suc (length haystack)) haystack needle)"

section \<open>String functions\<close>

definition toupper :: "char \<Rightarrow> char" where
  "toupper c = (let n = (of_char c :: nat) in if 97 \<le> n \<and> n \<le> 122 then char_of (n - 32) else c)"

definition tolower :: "char \<Rightarrow> char" where
  "tolower c = (let n = (of_char c :: nat) in if 65 \<le> n \<and> n \<le> 90 then char_of (n + 32) else c)"

definition builtin_string_length :: "ptr \<Rightarrow> ptr fcomp" where
  "builtin_string_length args =
     sq (FEX_CHECK_ARGS args 1 ''strlen'') (bnd (fe_nextarg args) (\<lambda>(str, _).
     sq (FEX_CHECK_TYPE str FE_TSTRING ''strlen'')
     (bnd (fe_strlen str) (\<lambda>n. fe_make_number (num_of_int (int n))))))"

text \<open>The loop over a buffer that replaces its characters one by one.\<close>

primrec map_chars :: "(char \<Rightarrow> char) \<Rightarrow> nat \<Rightarrow> string \<Rightarrow> string fcomp" where
  "map_chars f countdown [] = ret []"
| "map_chars f countdown (c # s) =
     bnd (poll_or_fail countdown) (\<lambda>countdown. bnd (map_chars f countdown s) (\<lambda>t. ret (f c # t)))"

definition change_case :: "(char \<Rightarrow> char) \<Rightarrow> string \<Rightarrow> ptr \<Rightarrow> ptr fcomp" where
  "change_case f func_name args =
     sq (FEX_CHECK_ARGS args 1 func_name) (bnd (fe_nextarg args) (\<lambda>(str, _).
     sq (FEX_CHECK_TYPE str FE_TSTRING func_name) (bnd (fe_strlen str) (\<lambda>len.
       if len = 0 then fe_string []
       else bnd (copy_string_to_fixed_buffer str func_name 1024) (\<lambda>buffer.
         bnd (map_chars f FEX_BUILTIN_ABORT_CHECK_INTERVAL buffer) fe_string)))))"

definition builtin_string_upper :: "ptr \<Rightarrow> ptr fcomp" where
  "builtin_string_upper args = change_case toupper ''upper'' args"

definition builtin_string_lower :: "ptr \<Rightarrow> ptr fcomp" where
  "builtin_string_lower args = change_case tolower ''lower'' args"

text \<open>The text of one argument of \<^verbatim>\<open>concat\<close>; \<open>n\<close> bounds the recursion of \<^verbatim>\<open>fe_write\<close>.\<close>

definition concat_text :: "nat \<Rightarrow> ptr \<Rightarrow> string fcomp" where
  "concat_text n arg =
     bnd (gets (\<lambda>c. typeof c arg)) (\<lambda>t.
       if t = FE_TSTRING then
         bnd (fe_strlen arg) (\<lambda>len.
         bnd (if len + 1 > 1024 then builtin_alloc (len + 1) else ret True) (\<lambda>ok.
           if \<not> ok then fe_error ''concat: out of memory''
           else bnd (fe_tostring 1 arg (c_int (int (len + 1)))) (\<lambda>(s, _). ret s)))
       else bnd (fe_tostring n arg 1024) (\<lambda>(s, _). ret s))"

primrec concat_loop :: "nat \<Rightarrow> nat \<Rightarrow> ptr \<Rightarrow> TextBuffer \<Rightarrow> nat \<Rightarrow> TextBuffer fcomp" where
  "concat_loop 0 n args result countdown = throw OutOfFuel"
| "concat_loop (Suc k) n args result countdown =
     (if isnil args then ret result
      else bnd (fe_nextarg args) (\<lambda>(arg, args). bnd (concat_text n arg) (\<lambda>buffer.
        bnd (poll_or_fail countdown) (\<lambda>countdown.
        bnd (buf_append_mem_polling buffer result countdown) (\<lambda>(r, msg, countdown). case r of
          Some result \<Rightarrow> concat_loop k n args result countdown
        | None \<Rightarrow> fe_error (case msg of Some m \<Rightarrow> m | None \<Rightarrow> ''concat: out of memory''))))))"

definition builtin_string_concat :: "nat \<Rightarrow> ptr \<Rightarrow> ptr fcomp" where
  "builtin_string_concat n args =
     bnd (gets walk_fuel) (\<lambda>k. bnd (concat_loop k n args empty_buffer FEX_BUILTIN_ABORT_CHECK_INTERVAL) (\<lambda>b.
       fe_string (fst b)))"

definition builtin_string_substring :: "ptr \<Rightarrow> ptr fcomp" where
  "builtin_string_substring args =
     sq (FEX_CHECK_ARGS args 2 ''substring'')
     (bnd (fe_nextarg args) (\<lambda>(str, args). bnd (fe_nextarg args) (\<lambda>(start_obj, args).
     bnd (fe_nextarg args) (\<lambda>(end_obj, _).
     sq (FEX_CHECK_TYPE str FE_TSTRING ''substring'') (bnd (fe_strlen str) (\<lambda>str_len.
     bnd (int_arg start_obj) (\<lambda>start.
     bnd (if isnil end_obj then ret (c_int (int str_len)) else int_arg end_obj) (\<lambda>end0.
       let start = (if start < 0 then 0 else start);
           end1 = (if end0 > c_int (int str_len) then c_int (int str_len) else end0)
       in if start \<ge> end1 then fe_string []
          else bnd (copy_string_to_fixed_buffer str ''substring'' 1024) (\<lambda>buffer.
            fe_string (take (nat (end1 - start)) (drop (nat start) buffer)))))))))))"

text \<open>\<^verbatim>\<open>while (i < n && bytes_contains_byte(delimiter, ..., buffer[i])) i++;\<close>\<close>

function skip_delims :: "string \<Rightarrow> string \<Rightarrow> nat \<Rightarrow> nat" where
  "skip_delims buffer delims i =
     (if i < length buffer \<and> bytes_contains_byte delims (buffer ! i)
      then skip_delims buffer delims (Suc i) else i)"
  by pat_completeness auto
termination by (relation "measure (\<lambda>(b, d, i). length b - i)") auto

declare skip_delims.simps [simp del]

text \<open>The list under construction: its head and its last cell.\<close>

definition push_part :: "string \<Rightarrow> ptr \<times> ptr option \<Rightarrow> (ptr \<times> ptr option) fcomp" where
  "push_part s acc = bnd (fe_string s) (\<lambda>x. bnd (fe_cons x Nil) (\<lambda>cell.
     bnd (set_tail (snd acc) (fst acc) cell) (\<lambda>head. ret (head, Some cell))))"

function string_split_loop ::
  "string \<Rightarrow> string \<Rightarrow> nat \<Rightarrow> nat \<Rightarrow> ptr \<times> ptr option \<Rightarrow> nat \<Rightarrow> (nat \<times> ptr \<times> ptr option) fcomp" where
  "string_split_loop buffer delims i start acc countdown =
     (if i > length buffer then ret (start, acc)
      else if i \<noteq> length buffer \<and> \<not> bytes_contains_byte delims (buffer ! i)
      then string_split_loop buffer delims (Suc i) start acc countdown
      else bnd (poll_or_fail countdown) (\<lambda>countdown.
        bnd (if i > start then push_part (take (i - start) (drop start buffer)) acc else ret acc) (\<lambda>acc.
        let i' = max (Suc i) (skip_delims buffer delims (Suc i))
        in string_split_loop buffer delims i' i' acc countdown)))"
  by pat_completeness auto
termination by (relation "measure (\<lambda>(b, d, i, s, a, k). Suc (length b) - i)") (auto simp: max_def)

declare string_split_loop.simps [simp del]

definition builtin_string_split :: "ptr \<Rightarrow> ptr fcomp" where
  "builtin_string_split args =
     sq (FEX_CHECK_ARGS args 2 ''split'')
     (bnd (fe_nextarg args) (\<lambda>(str, args). bnd (fe_nextarg args) (\<lambda>(delim, _).
     sq (FEX_CHECK_TYPE str FE_TSTRING ''split'') (sq (FEX_CHECK_TYPE delim FE_TSTRING ''split'')
     (bnd (copy_string_to_fixed_buffer str ''split'' 1024) (\<lambda>buffer.
     bnd (copy_string_to_fixed_buffer delim ''split'' 64) (\<lambda>delims.
       if delims = [] then bnd (fe_string buffer) (\<lambda>x. fe_cons x Nil)
       else let start = skip_delims buffer delims 0
            in bnd (string_split_loop buffer delims start start (Nil, None) FEX_BUILTIN_ABORT_CHECK_INTERVAL)
              (\<lambda>(start, acc).
                if buffer \<noteq> [] \<and> start < length buffer \<and> \<not> bytes_contains_byte delims (List.last buffer)
                then bnd (push_part (drop start buffer) acc) (\<lambda>acc. ret (fst acc))
                else ret (fst acc)))))))))"

text \<open>The two loops of \<^verbatim>\<open>trim\<close>: the number of blanks at the front of a text, with a poll for each.\<close>

primrec count_blanks :: "string \<Rightarrow> nat \<Rightarrow> (nat \<times> nat) fcomp" where
  "count_blanks [] countdown = ret (0, countdown)"
| "count_blanks (c # s) countdown =
     (if isspace c then bnd (poll_or_fail countdown) (\<lambda>countdown.
        bnd (count_blanks s countdown) (\<lambda>(n, countdown). ret (Suc n, countdown)))
      else ret (0, countdown))"

definition builtin_string_trim :: "ptr \<Rightarrow> ptr fcomp" where
  "builtin_string_trim args =
     sq (FEX_CHECK_ARGS args 1 ''trim'') (bnd (fe_nextarg args) (\<lambda>(str, _).
     sq (FEX_CHECK_TYPE str FE_TSTRING ''trim'')
     (bnd (copy_string_to_fixed_buffer str ''trim'' 1024) (\<lambda>buffer.
       if buffer = [] then fe_string []
       else bnd (count_blanks buffer FEX_BUILTIN_ABORT_CHECK_INTERVAL) (\<lambda>(start, countdown).
         if start = length buffer then fe_string []
         else bnd (count_blanks (rev (drop start buffer)) countdown) (\<lambda>(behind, _).
           fe_string (take (length buffer - behind - start) (drop start buffer))))))))"

definition builtin_string_contains :: "ptr \<Rightarrow> ptr fcomp" where
  "builtin_string_contains args =
     sq (FEX_CHECK_ARGS args 2 ''contains'')
     (bnd (fe_nextarg args) (\<lambda>(str, args). bnd (fe_nextarg args) (\<lambda>(substr, _).
     sq (FEX_CHECK_TYPE str FE_TSTRING ''contains'') (sq (FEX_CHECK_TYPE substr FE_TSTRING ''contains'')
     (bnd (copy_string_to_fixed_buffer str ''contains'' 1024) (\<lambda>buffer.
     bnd (copy_string_to_fixed_buffer substr ''contains'' 256) (\<lambda>search.
       ret (fe_bool (bytes_contains_sequence buffer search)))))))))"

text \<open>A negative length becomes a huge \<^verbatim>\<open>size_t\<close>.\<close>

definition builtin_make_string :: "ptr \<Rightarrow> ptr fcomp" where
  "builtin_make_string args =
     sq (FEX_CHECK_ARGS args 2 ''makestring'')
     (bnd (fe_nextarg args) (\<lambda>(length_obj, args). bnd (fe_nextarg args) (\<lambda>(fill_obj, _).
     sq (FEX_CHECK_TYPE length_obj FE_TNUMBER ''makestring'') (sq (FEX_CHECK_TYPE fill_obj FE_TSTRING ''makestring'')
     (bnd (int_arg length_obj) (\<lambda>len.
       if len = 0 then fe_string []
       else bnd (copy_string_to_fixed_buffer fill_obj ''makestring'' 64) (\<lambda>fill.
         if fill = [] then fe_error ''makestring: fill character cannot be empty''
         else fe_string_raw (nat (len mod 2 ^ 64)) (hd fill))))))))"

section \<open>Byte strings\<close>

text \<open>The next argument, or nil when there is none.\<close>

definition optional_arg :: "ptr \<Rightarrow> ptr fcomp" where
  "optional_arg args = (if isnil args then ret Nil else bnd (fe_nextarg args) (\<lambda>(x, _). ret x))"

definition builtin_make_bytes :: "ptr \<Rightarrow> ptr fcomp" where
  "builtin_make_bytes args =
     sq (FEX_CHECK_ARGS args 1 ''makebytes'')
     (bnd (fe_nextarg args) (\<lambda>(length_obj, args). bnd (optional_arg args) (\<lambda>fill_obj.
     sq (FEX_CHECK_TYPE length_obj FE_TNUMBER ''makebytes'')
     (bnd (if isnil fill_obj then ret 0
           else sq (FEX_CHECK_TYPE fill_obj FE_TNUMBER ''makebytes'') (bnd (int_arg fill_obj) (\<lambda>fill.
             if fill < 0 \<or> fill > 255 then fe_error ''makebytes: fill must be between 0 and 255'' else ret fill))) (\<lambda>fill.
     bnd (int_arg length_obj) (\<lambda>len.
       if len < 0 then fe_error ''makebytes: length must be non-negative''
       else fe_bytes_raw (nat len) (char_of (nat fill))))))))"

definition builtin_to_bytes :: "ptr \<Rightarrow> ptr fcomp" where
  "builtin_to_bytes args =
     sq (FEX_CHECK_ARGS args 1 ''tobytes'') (bnd (fe_nextarg args) (\<lambda>(obj, _).
     bnd (gets (\<lambda>c. typeof c obj)) (\<lambda>t.
       if t = FE_TBYTES then ret obj
       else if t = FE_TSTRING then string_to_bytes obj ''tobytes''
       else fe_error ''tobytes: type mismatch'')))"

definition builtin_bytes_length :: "ptr \<Rightarrow> ptr fcomp" where
  "builtin_bytes_length args =
     sq (FEX_CHECK_ARGS args 1 ''byteslen'') (bnd (fe_nextarg args) (\<lambda>(bytes_obj, _).
     sq (FEX_CHECK_TYPE bytes_obj FE_TBYTES ''byteslen'')
     (bnd (fe_byteslen bytes_obj) (\<lambda>n. fe_make_number (num_of_int (int n))))))"

definition builtin_byte_at :: "ptr \<Rightarrow> ptr fcomp" where
  "builtin_byte_at args =
     sq (FEX_CHECK_ARGS args 2 ''byteat'')
     (bnd (fe_nextarg args) (\<lambda>(bytes_obj, args). bnd (fe_nextarg args) (\<lambda>(index_obj, _).
     sq (FEX_CHECK_TYPE bytes_obj FE_TBYTES ''byteat'') (sq (FEX_CHECK_TYPE index_obj FE_TNUMBER ''byteat'')
     (bnd (int_arg index_obj) (\<lambda>index.
       bnd (if index < 0 then ret True else bnd (fe_byteslen bytes_obj) (\<lambda>n. ret (nat index \<ge> n))) (\<lambda>out.
       if out then fe_error ''byteat: index out of range''
       else bnd (fe_bytescopy bytes_obj (nat index) 1) (\<lambda>b.
         fe_make_number (num_of_int (case b of [] \<Rightarrow> 0 | x # _ \<Rightarrow> of_char x))))))))))"

definition builtin_bytes_slice :: "ptr \<Rightarrow> ptr fcomp" where
  "builtin_bytes_slice args =
     sq (FEX_CHECK_ARGS args 2 ''byteslice'')
     (bnd (fe_nextarg args) (\<lambda>(bytes_obj, args). bnd (fe_nextarg args) (\<lambda>(start_obj, args).
     bnd (optional_arg args) (\<lambda>end_obj.
     sq (FEX_CHECK_TYPE bytes_obj FE_TBYTES ''byteslice'') (sq (FEX_CHECK_TYPE start_obj FE_TNUMBER ''byteslice'')
     (bnd (fe_byteslen bytes_obj) (\<lambda>len. bnd (int_arg start_obj) (\<lambda>start.
     bnd (if isnil end_obj then ret (c_int (int len)) else int_arg end_obj) (\<lambda>end0.
       let start = (if start < 0 then 0 else start);
           end1 = (if end0 < 0 then 0 else end0);
           end2 = (if end1 > c_int (int len) then c_int (int len) else end1)
       in if start \<ge> end2 then fe_bytes []
          else bnd (builtin_alloc (nat (end2 - start))) (\<lambda>ok.
            if \<not> ok then fe_error ''byteslice: out of memory''
            else bnd (fe_bytescopy bytes_obj (nat start) (nat (end2 - start))) fe_bytes))))))))))"

section \<open>What the helpers give\<close>

text \<open>
  \<open>gives c m Q\<close>: in any state that differs from \<open>c\<close> only below the heap (poll counters, the allocator),
  \<open>m\<close> returns something that satisfies \<open>Q\<close> or raises an error, and leaves the heap as it is.
\<close>

definition gives :: "fe_Context \<Rightarrow> 'a fcomp \<Rightarrow> ('a \<Rightarrow> bool) \<Rightarrow> bool" where
  "gives c m Q \<longleftrightarrow> (\<forall>c1. limit_ctx.more c1 = limit_ctx.more c \<longrightarrow>
     wp m (\<lambda>x c'. Q x \<and> limit_ctx.more c' = limit_ctx.more c) (poll_err c) c1)"

named_theorems gives_rules \<open>what the helpers of the library functions give\<close>

lemma gives_ret [gives_rules]: "Q x \<Longrightarrow> gives c (ret x) Q"
  by (simp add: gives_def wp_ret)

lemma gives_bnd:
  assumes "gives c m P" and "\<And>x. P x \<Longrightarrow> gives c (f x) Q" shows "gives c (bnd m f) Q"
  unfolding gives_def wp_bnd
proof (intro allI impI)
  fix c1 assume m: "limit_ctx.more c1 = limit_ctx.more c"
  show "wp m (\<lambda>x. wp (f x) (\<lambda>y c'. Q y \<and> limit_ctx.more c' = limit_ctx.more c) (poll_err c)) (poll_err c) c1"
    using assms(1) [unfolded gives_def, rule_format, OF m]
    by (rule wp_mono) (use assms(2) in \<open>auto simp: gives_def\<close>)
qed

lemma gives_mono:
  assumes "gives c m P" and "\<And>x. P x \<Longrightarrow> Q x" shows "gives c m Q"
  unfolding gives_def
proof (intro allI impI)
  fix c1 assume m: "limit_ctx.more c1 = limit_ctx.more c"
  show "wp m (\<lambda>x c'. Q x \<and> limit_ctx.more c' = limit_ctx.more c) (poll_err c) c1"
    using assms(1) [unfolded gives_def, rule_format, OF m] by (rule wp_mono) (use assms(2) in auto)
qed

lemma gives_sq: "gives c m (\<lambda>_. True) \<Longrightarrow> gives c n Q \<Longrightarrow> gives c (sq m n) Q"
  unfolding sq_def by (rule gives_bnd)

text \<open>Reading the heap.\<close>

lemma gives_pure: "(\<And>c1. limit_ctx.more c1 = limit_ctx.more c \<Longrightarrow> m c1 = (Inr x, c1)) \<Longrightarrow> Q x \<Longrightarrow> gives c m Q"
  by (simp add: gives_def wp_def)

lemma gives_error [gives_rules]: "gives c (fe_error msg) Q"
  unfolding gives_def
proof (intro allI impI)
  fix c1 assume m: "limit_ctx.more c1 = limit_ctx.more c"
  obtain cl c2 where e: "fe_error msg c1 = (Inl (FeError msg cl) :: fe_err + 'a, c2)" by (simp add: fe_error_def)
  from stepsD [OF fe_error_more e] have "limit_ctx.more c2 = limit_ctx.more c1" by (simp add: fixes_field_def)
  then have "limit_ctx.more c2 = limit_ctx.more c" using m by (rule trans)
  with e show "wp (fe_error msg) (\<lambda>x c'. Q x \<and> limit_ctx.more c' = limit_ctx.more c) (poll_err c) c1"
    by (auto simp: wp_def poll_err_def)
qed

lemma gives_poll [gives_rules]: "gives c (poll_or_fail k) (\<lambda>_. True)"
proof -
  have "poll_or_fail k = check_io_abort k"
    by (rule ext) (simp add: poll_or_fail_def builtin_poll_abort_def check_io_abort_def poll_io_abort_def bnd_def
        lift_st_def ret_def FEX_BUILTIN_ABORT_CHECK_INTERVAL_def FE_IO_ABORT_CHECK_INTERVAL_def split: prod.split)
  moreover have "wp (check_io_abort k) (\<lambda>x c'. True \<and> limit_ctx.more c' = limit_ctx.more c) (poll_err c) c1"
    if m: "limit_ctx.more c1 = limit_ctx.more c" for c1
    by (rule wp_mono [OF wp_check_io_abort [of c1 "\<lambda>_ c'. limit_ctx.more c' = limit_ctx.more c1"]])
      (use m poll_err_trans [OF m] in auto)
  ultimately show ?thesis by (simp add: gives_def)
qed

lemma gives_malloc [gives_rules]: "gives c (lift_st (sys_malloc n)) (\<lambda>_. True)"
  by (simp add: gives_def wp_def lift_st_def sys_malloc_def)

lemma gives_alloc [gives_rules]: "gives c (builtin_alloc n) (\<lambda>_. True)"
  unfolding builtin_alloc_def by (rule gives_malloc)

lemma gives_reserve: "gives c (buf_reserve n b) (\<lambda>r. \<forall>b'. r = Some b' \<longrightarrow> fst b' = fst b)"
  unfolding buf_reserve_def Let_def 
  by (auto intro!: gives_bnd [OF gives_malloc] gives_ret split: if_splits)

lemma gives_append [gives_rules]: "gives c (buf_append_mem d b) (\<lambda>r. \<forall>b'. r = Some b' \<longrightarrow> fst b' = fst b @ d)"
  unfolding buf_append_mem_def by (rule gives_bnd [OF gives_reserve]) (auto intro!: gives_ret)

lemma gives_append_char [gives_rules]:
  "gives c (buf_append_char x b) (\<lambda>r. \<forall>b'. r = Some b' \<longrightarrow> fst b' = fst b @ [x])"
  unfolding buf_append_char_def by (rule gives_bnd [OF gives_reserve]) (auto intro!: gives_ret)

text \<open>The text of a string object, read through \<^verbatim>\<open>fe_tostring\<close>.\<close>

lemma string_len_more:
  assumes "is_string c p s" "wf_slabs (slabs c)" "limit_ctx.more c1 = limit_ctx.more c"
  shows "fe_strlen p c1 = (Inr (length s), c1)"
proof -
  from assms(1) obtain i n off where p: "p = Ref i" "i < length (objects c)"
    "ocar (objects c ! i) = VObj (Fixnum n)" "slab_bytes (slabs c) off (nat n) = Some s"
    by (auto simp: is_string_def obj_bytes_def split: ptr.splits if_splits val.splits)
  have "length s = nat n" by (rule slab_bytes_length [OF assms(2) p(4)])
  then show ?thesis
    using car_more [OF assms(3) p(2,3)] by (simp add: fe_strlen_def FE_STR_LEN_def p(1) bnd_def ret_def)
qed

lemma typeof_more: "limit_ctx.more c1 = limit_ctx.more c \<Longrightarrow> typeof c1 p = typeof c p"
  using more_fields(1) [of c1 c] by (simp add: typeof_def split: ptr.split)

lemma gives_check_type:
  assumes "typeof c p = t" shows "gives c (FEX_CHECK_TYPE p t f) (\<lambda>_. True)"
proof (rule gives_pure)
  fix c1 assume "limit_ctx.more c1 = limit_ctx.more c"
  from typeof_more [OF this] assms show "FEX_CHECK_TYPE p t f c1 = (Inr (), c1)"
    by (simp add: FEX_CHECK_TYPE_def bnd_gets ret_def)
qed simp

lemma gives_strlen: "is_string c p s \<Longrightarrow> wf_slabs (slabs c) \<Longrightarrow> gives c (fe_strlen p) (\<lambda>n. n = length s)"
  by (rule gives_pure [OF string_len_more]) simp_all

lemma gives_tostring:
  assumes "is_string c p s" "wf_slabs (slabs c)" "int (length s) < sz"
  shows "gives c (fe_tostring 1 p sz) (\<lambda>r. fst r = s)"
proof -
  have "prints c (fe_write 1 p False []) [] s"
    using fe_write_sexp [OF assms(2), of p "SStr s" 1 False "[]"] assms(1) by simp
  then have "gives c (fe_write 1 p False []) (\<lambda>r. r = s)" by (simp add: prints_def gives_def)
  moreover have "\<not> sz < 1" "take (nat (sz - 1)) s = s" using assms(3) by simp_all
  ultimately show ?thesis
    unfolding fe_tostring_def by (auto intro!: gives_bnd [where P = "\<lambda>r. r = s"] gives_ret simp: Let_def)
qed

lemma gives_buffer:
  assumes "is_string c p s" "wf_slabs (slabs c)"
  shows "gives c (string_to_buffer p f) (\<lambda>r. r = s)"
  unfolding string_to_buffer_def sq_def
proof (rule gives_bnd [OF gives_check_type])
  show "typeof c p = FE_TSTRING" using assms(1) by (simp add: is_string_def)
  have t: "gives c (bnd (fe_tostring 1 p (int (length s + 1))) (\<lambda>(s, _). ret s)) (\<lambda>r. r = s)"
    by (rule gives_bnd [OF gives_tostring [OF assms]]) (auto intro!: gives_ret)
  show "gives c (bnd (fe_strlen p) (\<lambda>len.
       if int (len + 1) > INT_MAX then fe_error (f @ '': string too large'')
       else bnd (builtin_alloc (len + 1)) (\<lambda>ok.
         if \<not> ok then fe_error (f @ '': out of memory'')
         else bnd (fe_tostring 1 p (int (len + 1))) (\<lambda>(s, _). ret s)))) (\<lambda>r. r = s)"
    by (rule gives_bnd [OF gives_strlen [OF assms]]) (use t in \<open>auto intro!: gives_error gives_bnd [OF gives_alloc]\<close>)
qed

end
