(* ===== verification/Fex_Try.thy ===== *)
theory Fex_Try
  imports Fex_Parser Fex_Strings
begin

text \<open>
  Errors of the FeX front end (\<^verbatim>\<open>fex.c\<close>): the text of an object in a trace, the error record with its
  trace, the message printed for it, the try scopes that turn an error into a status, and the entry
  points that compile and run a source.
\<close>

section \<open>The bounded writer\<close>

text \<open>A writer is the text so far; \<open>cap\<close> is the size of its buffer.\<close>

definition escaped_writer_append :: "nat \<Rightarrow> string \<Rightarrow> string \<Rightarrow> string" where
  "escaped_writer_append cap t w =
     (if cap = 0 \<or> length w \<ge> cap - 1 then w else w @ take (cap - 1 - length w) t)"

definition upper_hex :: "nat \<Rightarrow> char" where
  "upper_hex d = ''0123456789ABCDEF'' ! d"

text \<open>The text of a byte; \<open>backslash\<close> says whether a backslash is doubled.\<close>

definition error_byte :: "bool \<Rightarrow> char \<Rightarrow> string" where
  "error_byte backslash b =
     (if b = CHR 0x00 then [CHR 0x5C, CHR ''0'']
      else if b = CHR 0x0A then [CHR 0x5C, CHR ''n'']
      else if b = CHR 0x0D then [CHR 0x5C, CHR ''r'']
      else if b = CHR 0x09 then [CHR 0x5C, CHR ''t'']
      else if backslash \<and> b = CHR 0x5C then [CHR 0x5C, CHR 0x5C]
      else let n = (of_char b :: nat) in
        if n < 0x20 \<or> n = 0x7F then [CHR 0x5C, CHR ''x'', upper_hex (n div 16), upper_hex (n mod 16)] else [b])"

definition escaped_writer_put_byte :: "nat \<Rightarrow> char \<Rightarrow> string \<Rightarrow> string" where
  "escaped_writer_put_byte cap b w = escaped_writer_append cap (error_byte True b) w"

definition source_excerpt_put_byte :: "nat \<Rightarrow> char \<Rightarrow> string \<Rightarrow> string" where
  "source_excerpt_put_byte cap b w = escaped_writer_append cap (error_byte False b) w"

section \<open>The text of an object in an error\<close>

definition put_string_byte :: "nat \<Rightarrow> char \<Rightarrow> string \<Rightarrow> string" where
  "put_string_byte cap b w =
     (if b = CHR 0x5C then escaped_writer_append cap [CHR 0x5C, CHR 0x5C] w
      else if b = CHR 0x22 then escaped_writer_append cap [CHR 0x5C, CHR 0x22] w
      else escaped_writer_put_byte cap b w)"

definition append_string_for_error :: "nat \<Rightarrow> ptr \<Rightarrow> string \<Rightarrow> string fcomp" where
  "append_string_for_error cap obj w =
     bnd (gets (fex_lookup_span obj)) (\<lambda>sp. case Option.bind sp span_source of
       Some excerpt \<Rightarrow> ret (escaped_writer_append cap excerpt w)
     | None \<Rightarrow> bnd (fe_strlen obj) (\<lambda>len.
         bnd (if len + 1 > 256 then lift_st (sys_malloc (of_nat (len + 1))) else ret True) (\<lambda>ok.
         if \<not> ok then ret (escaped_writer_append cap ([CHR 0x22] @ ''<oom>'' @ [CHR 0x22]) w)
         else bnd (fe_tostring 1 obj (c_int (int (len + 1)))) (\<lambda>(s, _).
           ret (escaped_writer_append cap [CHR 0x22]
             (fold (put_string_byte cap) s (escaped_writer_append cap [CHR 0x22] w)))))))"

text \<open>The scan over a printed object: inside and outside of string literals.\<close>

fun put_scalar :: "nat \<Rightarrow> bool \<Rightarrow> string \<Rightarrow> string \<Rightarrow> string" where
  "put_scalar cap in_string [] w = w"
| "put_scalar cap True (b # s) w =
     (if b = CHR 0x5C then
        (case s of
           d # s' \<Rightarrow> if d = CHR 0x22 then put_scalar cap True s' (escaped_writer_append cap [CHR 0x5C, CHR 0x22] w)
                    else put_scalar cap True s (escaped_writer_append cap [CHR 0x5C, CHR 0x5C] w)
         | [] \<Rightarrow> escaped_writer_append cap [CHR 0x5C, CHR 0x5C] w)
      else if b = CHR 0x22 then put_scalar cap False s (escaped_writer_append cap [CHR 0x22] w)
      else put_scalar cap True s (escaped_writer_put_byte cap b w))"
| "put_scalar cap False (b # s) w =
     (if b = CHR 0x22 then put_scalar cap True s (escaped_writer_append cap [CHR 0x22] w)
      else put_scalar cap False s (source_excerpt_put_byte cap b w))"

definition append_scalar_for_error :: "nat \<Rightarrow> nat \<Rightarrow> ptr \<Rightarrow> string \<Rightarrow> string fcomp" where
  "append_scalar_for_error n cap obj w = bnd (fe_tostring n obj 256) (\<lambda>(s, _). ret (put_scalar cap False s w))"

type_synonym error_writer = "ptr \<Rightarrow> string \<Rightarrow> string fcomp"

definition is_pair :: "ptr \<Rightarrow> bool fcomp" where
  "is_pair obj = gets (\<lambda>c. \<not> isnil obj \<and> typeof c obj = FE_TPAIR)"

primrec error_pairs :: "nat \<Rightarrow> nat \<Rightarrow> error_writer \<Rightarrow> ptr \<Rightarrow> string \<Rightarrow> (ptr \<times> string) fcomp" where
  "error_pairs 0 cap rec obj w = throw OutOfFuel"
| "error_pairs (Suc k) cap rec obj w =
     bnd (is_pair obj) (\<lambda>b. if \<not> b then ret (obj, w)
     else bnd (fe_car obj) (\<lambda>x. bnd (rec x w) (\<lambda>w. bnd (fe_cdr obj) (\<lambda>obj. bnd (is_pair obj) (\<lambda>more.
       error_pairs k cap rec obj (if more then escaped_writer_append cap '' '' w else w))))))"

text \<open>The fuel bounds the nesting and the length of lists; cyclic code is printed without end.\<close>

primrec append_object_for_error :: "nat \<Rightarrow> nat \<Rightarrow> error_writer" where
  "append_object_for_error 0 cap obj w = throw OutOfFuel"
| "append_object_for_error (Suc n) cap obj w =
     (if is_fixnum obj then append_scalar_for_error n cap obj w
      else bnd (gets (\<lambda>c. typeof c obj)) (\<lambda>t.
        if t = FE_TPAIR then
          bnd (error_pairs n cap (append_object_for_error n cap) obj (escaped_writer_append cap ''('' w)) (\<lambda>(obj, w).
          bnd (if isnil obj then ret w
               else append_object_for_error n cap obj (escaped_writer_append cap '' . '' w)) (\<lambda>w.
            ret (escaped_writer_append cap '')'' w)))
        else if t = FE_TSTRING then append_string_for_error cap obj w
        else append_scalar_for_error n cap obj w))"

definition format_object_for_error :: "nat \<Rightarrow> ptr \<Rightarrow> nat \<Rightarrow> string fcomp" where
  "format_object_for_error n obj dst_size = append_object_for_error n dst_size obj []"

section \<open>Filling the error record\<close>

definition empty_frame :: FexErrorFrame where
  "empty_frame = \<lparr>frame_source_name = [], frame_line = 0, frame_column = 0, frame_expression = []\<rparr>"

definition span_frame :: "FexSpan option \<Rightarrow> FexErrorFrame" where
  "span_frame sp = (case sp of
      None \<Rightarrow> empty_frame
    | Some s \<Rightarrow> empty_frame\<lparr>frame_source_name := copy_string FEX_ERROR_SOURCE_NAME_MAX (span_source_name s),
        frame_line := start_line s, frame_column := start_col s\<rparr>)"

text \<open>The place of the error is that of the innermost call with a span on a line other than 0.\<close>

definition locate_error :: "FexSpan option \<Rightarrow> FexErrorFrame \<Rightarrow> FexError \<Rightarrow> FexError" where
  "locate_error sp frame err =
     (if sp \<noteq> None \<and> err_line err = 0
      then err\<lparr>err_line := frame_line frame, err_column := Some (frame_column frame),
        err_source_name := copy_string FEX_ERROR_SOURCE_NAME_MAX (frame_source_name frame)\<rparr>
      else err)"

primrec fill_runtime_trace :: "nat \<Rightarrow> nat \<Rightarrow> ptr list \<Rightarrow> FexError \<Rightarrow> FexError fcomp" where
  "fill_runtime_trace n depth [] err = ret err"
| "fill_runtime_trace n depth (x # cl) err =
     (if depth \<ge> FEX_ERROR_TRACE_MAX then ret err
      else bnd (gets (fex_lookup_span x)) (\<lambda>sp.
        bnd (format_object_for_error n x FEX_ERROR_EXPRESSION_MAX) (\<lambda>expr.
        let frame = span_frame sp; err = locate_error sp frame err
        in fill_runtime_trace n (Suc depth) cl
             (err\<lparr>err_frames := err_frames err @ [frame\<lparr>frame_expression := expr\<rparr>]\<rparr>))))"

text \<open>
  The handler of a try scope. When writing the trace raises an error itself (a poll finds the run
  aborted), the handler is entered again with an empty call list.
\<close>

definition fex_try_on_error :: "nat \<Rightarrow> string \<Rightarrow> string \<Rightarrow> ptr list \<Rightarrow> FexError fcomp" where
  "fex_try_on_error n scope_name msg cl =
     (let source_name = (if scope_name \<noteq> [] then scope_name else ''<string>'');
          basic = (\<lambda>m. fill_basic_error FEX_STATUS_RUNTIME_ERROR source_name 0 (Some 0) m)
      in (\<lambda>c. case fill_runtime_trace n 0 cl (basic msg) c of
            (Inl (FeError msg' _), c') \<Rightarrow> (Inr (basic msg'), c')
          | r \<Rightarrow> r))"

definition status_label :: "FexStatus \<Rightarrow> string" where
  "status_label st = (case st of
      FEX_STATUS_COMPILE_ERROR \<Rightarrow> ''compile error''
    | FEX_STATUS_RUNTIME_ERROR \<Rightarrow> ''runtime error''
    | FEX_STATUS_IO_ERROR \<Rightarrow> ''I/O error''
    | FEX_STATUS_OK \<Rightarrow> ''error'')"

definition place_text :: "int \<Rightarrow> int \<Rightarrow> string" where
  "place_text line col = '':'' @ int_string line @ '':'' @ int_string (if col > 0 then col else 1)"

definition print_frame :: "nat \<Rightarrow> FexErrorFrame \<Rightarrow> string" where
  "print_frame i f =
     ''['' @ nat_string i @ '']'' @
     (if frame_source_name f \<noteq> [] then CHR '' '' # frame_source_name f @
        (if frame_line f > 0 then place_text (frame_line f) (frame_column f) else []) else []) @
     (if frame_expression f \<noteq> [] then '' => '' @ frame_expression f else []) @ [CHR 0x0A]"

text \<open>The text \<^verbatim>\<open>fex_print_error\<close> writes; a column that is unset prints as any number, here as 1.\<close>

definition fex_print_error :: "FexError \<Rightarrow> string" where
  "fex_print_error err =
     (if err_status err = FEX_STATUS_OK then []
      else status_label (err_status err) @ '': '' @
        (if err_message err \<noteq> [] then err_message err else ''unknown error'') @ [CHR 0x0A] @
        (if err_line err > 0 then
           ''at '' @ (if err_source_name err \<noteq> [] then err_source_name err else ''<string>'') @
           place_text (err_line err) (case err_column err of Some i \<Rightarrow> i | None \<Rightarrow> 1) @ [CHR 0x0A]
         else if err_source_name err \<noteq> [] then ''at '' @ err_source_name err @ [CHR 0x0A] else []) @
        concat (map (\<lambda>(i, f). print_frame i f) (enumerate 0 (err_frames err))))"

section \<open>Try scopes\<close>

type_synonym 'a runner = "(fe_Context, perr, 'a) comp"

definition on_rt :: "'a fcomp \<Rightarrow> 'a runner" where
  "on_rt m c = (case m c of (Inl e, c) \<Rightarrow> (Inl (RtError e), c) | (Inr x, c) \<Rightarrow> (Inr x, c))"

text \<open>
  Compile scopes opened since the saved one are left. If an error has already freed the saved one,
  the loop \<^verbatim>\<open>while (g_compile_state != saved_compile_state)\<close> does not end.
\<close>

definition leave_scopes_to :: "nat \<Rightarrow> unit fcomp" where
  "leave_scopes_to saved = bnd (gets compile_scopes) (\<lambda>n.
     if n < saved then throw OutOfFuel
     else modify (\<lambda>c. (((tracked_free (Some sizeof_FexCompileState)) ^^ (n - saved)) c)\<lparr>compile_scopes := saved\<rparr>))"

text \<open>
  The temporary buffers of a scope are the newest ones: a scope that ends frees its own, and the list
  has the newest first.
\<close>

definition fex_try_scope_free_temps :: "nat \<Rightarrow> unit fcomp" where
  "fex_try_scope_free_temps saved =
     modify (\<lambda>c. let own = length (temp_allocs c) - saved in
       (fold (\<lambda>sz. tracked_free (Some sz)) (take own (temp_allocs c)) c)\<lparr>temp_allocs := drop own (temp_allocs c)\<rparr>)"

definition leave_try_scope :: "nat \<Rightarrow> nat \<Rightarrow> nat \<Rightarrow> unit fcomp" where
  "leave_try_scope scopes temps gc_restore =
     sq (leave_scopes_to scopes) (sq (fex_try_scope_free_temps temps) (fe_restoregc gc_restore))"

text \<open>What \<^verbatim>\<open>fex_try_raise_error\<close> stores in the error record of the scope that receives the error.\<close>

definition received_error :: "string \<Rightarrow> FexError \<Rightarrow> FexError" where
  "received_error scope_name err =
     (let err = (if err_status err = FEX_STATUS_OK then err\<lparr>err_status := FEX_STATUS_RUNTIME_ERROR\<rparr> else err)
      in if err_source_name err = [] then err\<lparr>err_source_name := copy_string FEX_ERROR_SOURCE_NAME_MAX scope_name\<rparr>
         else err)"

text \<open>
  \<open>n\<close> is the fuel for printing a trace. What is not an error of the program passes through.
\<close>

definition fex_try_run_internal ::
  "nat \<Rightarrow> ptr option runner \<Rightarrow> string \<Rightarrow> bool \<Rightarrow> (FexStatus \<times> ptr option \<times> FexError) fcomp" where
  "fex_try_run_internal n fn source_name preserve_result_root c =
     (let scopes = compile_scopes c; temps = length (temp_allocs c); gc_save = length (gcstack c);
          failed = (\<lambda>err. sq (leave_try_scope scopes temps gc_save) (sq fex_reset_import_state
            (ret (err_status err, None, err))))
      in case fn c of
           (Inr result, c) \<Rightarrow>
             (let gc_restore = (if preserve_result_root \<and> result \<noteq> None \<and> length (gcstack c) > gc_save
                                then gc_save + 1 else gc_save)
              in sq (leave_try_scope scopes temps gc_restore) (ret (FEX_STATUS_OK, result, fex_error_clear)) c)
         | (Inl (CompileError name line col msg), c) \<Rightarrow>
             failed (fill_basic_error FEX_STATUS_COMPILE_ERROR name line col msg) c
         | (Inl (IoError name msg), c) \<Rightarrow> failed (fill_basic_error FEX_STATUS_IO_ERROR name 0 (Some 0) msg) c
         | (Inl (RtError (Raised err)), c) \<Rightarrow> failed (received_error source_name err) c
         | (Inl (RtError (FeError msg cl)), c) \<Rightarrow> bnd (fex_try_on_error n source_name msg cl) failed c
         | (Inl (RtError e), c) \<Rightarrow> (Inl e, c))"

section \<open>Running sources\<close>

definition compile_runner :: "nat \<Rightarrow> bool \<Rightarrow> string \<Rightarrow> string \<Rightarrow> ptr option runner" where
  "compile_runner n try_active source source_name c =
     (case fex_compile_named (RtError OutOfFuel) n try_active source source_name c of (r, s) \<Rightarrow> (r, p_ctx s))"

text \<open>\<open>run\<close> is the evaluator, \<^verbatim>\<open>fe_eval\<close> with its fuel and host.\<close>

definition fex_do_string_named :: "nat \<Rightarrow> (ptr \<Rightarrow> ptr fcomp) \<Rightarrow> bool \<Rightarrow> string \<Rightarrow> string \<Rightarrow> ptr option runner" where
  "fex_do_string_named n run try_active source source_name =
     bnd (on_rt fe_savegc) (\<lambda>gc_save. bnd (compile_runner n try_active source source_name) (\<lambda>code. case code of
       None \<Rightarrow> sq (on_rt (fe_restoregc gc_save)) (ret None)
     | Some code \<Rightarrow> sq (on_rt (fe_pushgc code)) (bnd (on_rt (run code)) (\<lambda>res.
         sq (on_rt (fe_restoregc gc_save)) (ret (Some res))))))"

definition fex_do_string :: "nat \<Rightarrow> (ptr \<Rightarrow> ptr fcomp) \<Rightarrow> bool \<Rightarrow> string \<Rightarrow> ptr option runner" where
  "fex_do_string n run try_active source = fex_do_string_named n run try_active source ''<string>''"

definition name_or_string :: "string option \<Rightarrow> string" where
  "name_or_string name = (case name of Some s \<Rightarrow> s | None \<Rightarrow> ''<string>'')"

definition fex_try_compile :: "nat \<Rightarrow> string \<Rightarrow> string option \<Rightarrow> (FexStatus \<times> ptr option \<times> FexError) fcomp" where
  "fex_try_compile n source source_name =
     fex_try_run_internal n (compile_runner n True source (name_or_string source_name)) (name_or_string source_name) True"

definition fex_try_eval :: "nat \<Rightarrow> (ptr \<Rightarrow> ptr fcomp) \<Rightarrow> ptr \<Rightarrow> (FexStatus \<times> ptr option \<times> FexError) fcomp" where
  "fex_try_eval n run obj =
     fex_try_run_internal n (bnd (on_rt (run obj)) (\<lambda>v. ret (Some v))) ''<string>'' False"

definition fex_try_do_string :: "nat \<Rightarrow> (ptr \<Rightarrow> ptr fcomp) \<Rightarrow> string \<Rightarrow> (FexStatus \<times> ptr option \<times> FexError) fcomp" where
  "fex_try_do_string n run source =
     fex_try_run_internal n (fex_do_string_named n run True source ''<string>'') ''<string>'' False"

definition fex_try_do_string_named ::
  "nat \<Rightarrow> (ptr \<Rightarrow> ptr fcomp) \<Rightarrow> string \<Rightarrow> string option \<Rightarrow> (FexStatus \<times> ptr option \<times> FexError) fcomp" where
  "fex_try_do_string_named n run source source_name =
     fex_try_run_internal n (fex_do_string_named n run True source (name_or_string source_name))
       (name_or_string source_name) False"

section \<open>The error record stays within its buffers\<close>

text \<open>\<open>yields m P\<close>: what \<open>m\<close> returns, if it does, satisfies \<open>P\<close>.\<close>

definition yields :: "'a fcomp \<Rightarrow> ('a \<Rightarrow> bool) \<Rightarrow> bool" where
  "yields m P \<longleftrightarrow> (\<forall>c x c'. m c = (Inr x, c') \<longrightarrow> P x)"

named_theorems yields_rules \<open>what the parts of a trace yield\<close>

lemma yields_ret [yields_rules]: "P x \<Longrightarrow> yields (ret x) P"
  by (simp add: yields_def ret_def)

lemma yields_throw [yields_rules]: "yields (throw e) P"
  by (simp add: yields_def throw_def)

lemma yields_bnd: "yields m Q \<Longrightarrow> (\<And>x. Q x \<Longrightarrow> yields (f x) P) \<Longrightarrow> yields (bnd m f) P"
  unfolding yields_def bnd_def by (auto split: prod.splits sum.splits) blast

lemma yields_any [yields_rules]: "(\<And>x. yields (f x) P) \<Longrightarrow> yields (bnd m f) P"
  by (rule yields_bnd [where Q = "\<lambda>_. True"]) (simp_all add: yields_def)

lemma yields_if [yields_rules]: "(b \<Longrightarrow> yields m P) \<Longrightarrow> (\<not> b \<Longrightarrow> yields n P) \<Longrightarrow> yields (if b then m else n) P"
  by simp

lemma yields_case_prod [yields_rules]: "(\<And>x y. yields (f x y) P) \<Longrightarrow> yields (case z of (x, y) \<Rightarrow> f x y) P"
  by (cases z) simp

lemma yields_case_option [yields_rules]:
  "yields m P \<Longrightarrow> (\<And>x. yields (f x) P) \<Longrightarrow> yields (case z of None \<Rightarrow> m | Some x \<Rightarrow> f x) P"
  by (cases z) simp_all

lemma append_fits: "length w < cap \<Longrightarrow> length (escaped_writer_append cap t w) < cap"
  by (auto simp: escaped_writer_append_def min_def)

lemma put_byte_fits:
  "length w < cap \<Longrightarrow> length (escaped_writer_put_byte cap b w) < cap"
  "length w < cap \<Longrightarrow> length (source_excerpt_put_byte cap b w) < cap"
  "length w < cap \<Longrightarrow> length (put_string_byte cap b w) < cap"
  by (simp_all add: escaped_writer_put_byte_def source_excerpt_put_byte_def put_string_byte_def append_fits)

lemma fold_fits: "length w < cap \<Longrightarrow> length (fold (put_string_byte cap) s w) < cap"
  by (induction s arbitrary: w) (simp_all add: put_byte_fits)

lemma put_scalar_fits: "length w < cap \<Longrightarrow> length (put_scalar cap b s w) < cap"
  by (induction cap b s w rule: put_scalar.induct) (auto simp: append_fits put_byte_fits split: list.splits)

lemma string_fits: "length w < cap \<Longrightarrow> yields (append_string_for_error cap obj w) (\<lambda>r. length r < cap)"
  unfolding append_string_for_error_def by (intro yields_rules append_fits fold_fits)

lemma scalar_fits: "length w < cap \<Longrightarrow> yields (append_scalar_for_error n cap obj w) (\<lambda>r. length r < cap)"
  unfolding append_scalar_for_error_def by (intro yields_rules put_scalar_fits)

lemma pairs_fit:
  assumes "\<And>x w. length w < cap \<Longrightarrow> yields (rec x w) (\<lambda>r. length r < cap)" "length w < cap"
  shows "yields (error_pairs k cap rec obj w) (\<lambda>r. length (snd r) < cap)"
  using assms(2)
proof (induction k arbitrary: obj w)
  case (Suc k)
  show ?case unfolding error_pairs.simps
    by (rule yields_any, rule yields_if, rule yields_ret, simp add: Suc.prems, rule yields_any,
        rule yields_bnd [OF assms(1) [OF Suc.prems]], rule yields_any, rule yields_any, rule Suc.IH)
      (simp add: append_fits)
qed (simp add: yields_throw)

lemma object_fits: "length w < cap \<Longrightarrow> yields (append_object_for_error n cap obj w) (\<lambda>r. length r < cap)"
proof (induction n arbitrary: obj w)
  case (Suc n)
  note pairs = pairs_fit [where rec = "append_object_for_error n cap", OF Suc.IH append_fits [OF Suc.prems]]
  have close: "yields (bnd (if isnil x then ret v else append_object_for_error n cap x (escaped_writer_append cap '' . '' v))
      (\<lambda>w. ret (escaped_writer_append cap '')'' w))) (\<lambda>r. length r < cap)" if "length v < cap" for x v
    by (rule yields_bnd [where Q = "\<lambda>r. length r < cap"]) (use that in \<open>auto intro!: yields_ret Suc.IH append_fits\<close>)
  show ?case unfolding append_object_for_error.simps
    by (rule yields_if, rule scalar_fits [OF Suc.prems], rule yields_any, rule yields_if,
        rule yields_bnd [OF pairs]) (auto intro!: scalar_fits string_fits close Suc.prems)
qed (simp add: yields_throw)

text \<open>The sizes of the arrays of \<^verbatim>\<open>FexError\<close>, with room for the terminating NUL.\<close>

definition frame_fits :: "FexErrorFrame \<Rightarrow> bool" where
  "frame_fits f \<longleftrightarrow> length (frame_source_name f) < 260 \<and> length (frame_expression f) < 128"

definition error_fits :: "FexError \<Rightarrow> bool" where
  "error_fits e \<longleftrightarrow> length (err_message e) < 256 \<and> length (err_source_name e) < 260 \<and>
     length (err_frames e) \<le> 8 \<and> (\<forall>f \<in> set (err_frames e). frame_fits f)"

lemmas error_sizes = FEX_ERROR_MESSAGE_MAX_def FEX_ERROR_SOURCE_NAME_MAX_def FEX_ERROR_EXPRESSION_MAX_def
  FEX_ERROR_TRACE_MAX_def

lemma copy_fits: "0 < n \<Longrightarrow> length (copy_string n s) < n"
  unfolding copy_string_def by (simp add: min_less_iff_disj)

lemma basic_fits: "error_fits (fill_basic_error st name line col msg)"
  using copy_fits [of 256 msg] copy_fits [of 260 name]
  by (simp add: error_fits_def fill_basic_error_def fex_error_clear_def error_sizes)

lemma received_fits: "error_fits e \<Longrightarrow> error_fits (received_error name e)"
  using copy_fits [of 260 name] by (simp add: error_fits_def received_error_def Let_def error_sizes)

lemma basic_fields [simp]:
  "err_status (fill_basic_error st name line col msg) = st" "err_frames (fill_basic_error st name line col msg) = []"
  by (simp_all add: fill_basic_error_def fex_error_clear_def)

lemma span_frame_fits: "length (frame_source_name (span_frame sp)) < 260"
  using copy_fits [of 260] by (simp add: span_frame_def empty_frame_def error_sizes split: option.split)

lemma locate_fits: "error_fits e \<Longrightarrow> error_fits (locate_error sp f e)"
  using copy_fits [of 260 "frame_source_name f"] by (simp add: error_fits_def locate_error_def error_sizes)

lemma locate_fields: "err_frames (locate_error sp f e) = err_frames e" "err_status (locate_error sp f e) = err_status e"
  by (simp_all add: locate_error_def)

lemma trace_fits:
  assumes "error_fits e" "length (err_frames e) = depth"
  shows "yields (fill_runtime_trace n depth cl e) (\<lambda>r. error_fits r \<and> err_status r = err_status e)"
  using assms
proof (induction cl arbitrary: depth e)
  case (Cons x cl)
  show ?case
  proof (cases "depth < 8")
    case False
    with Cons.prems show ?thesis by (simp add: error_sizes yields_ret)
  next
    case True
    have step: "error_fits e' \<and> length (err_frames e') = Suc depth \<and> err_status e' = err_status e"
      if "length expr < 128" "e' = (locate_error sp f e)\<lparr>err_frames := err_frames (locate_error sp f e) @
          [(span_frame sp)\<lparr>frame_expression := expr\<rparr>]\<rparr>" for expr e' sp f
      using that Cons.prems True locate_fits [OF Cons.prems(1), of sp f] span_frame_fits [of sp]
      by (auto simp: error_fits_def frame_fits_def locate_fields)
    have fmt: "yields (format_object_for_error n x 128) (\<lambda>r. length r < 128)"
      unfolding format_object_for_error_def by (rule object_fits) simp
    have "yields (bnd (gets (fex_lookup_span x)) (\<lambda>sp. bnd (format_object_for_error n x 128) (\<lambda>expr.
        fill_runtime_trace n (Suc depth) cl ((locate_error sp (span_frame sp) e)\<lparr>err_frames :=
          err_frames (locate_error sp (span_frame sp) e) @ [(span_frame sp)\<lparr>frame_expression := expr\<rparr>]\<rparr>))))
      (\<lambda>r. error_fits r \<and> err_status r = err_status e)"
    proof (rule yields_any, rule yields_bnd [OF fmt])
      fix sp expr
      assume "length (expr :: string) < 128"
      from step [OF this refl, of sp "span_frame sp"] Cons.IH
      show "yields (fill_runtime_trace n (Suc depth) cl ((locate_error sp (span_frame sp) e)\<lparr>err_frames :=
          err_frames (locate_error sp (span_frame sp) e) @ [(span_frame sp)\<lparr>frame_expression := expr\<rparr>]\<rparr>))
        (\<lambda>r. error_fits r \<and> err_status r = err_status e)"
        by metis
    qed
    with True show ?thesis by (simp add: error_sizes Let_def)
  qed
qed (simp add: yields_ret)

lemma on_error_fits:
  "yields (fex_try_on_error n name msg cl) (\<lambda>r. error_fits r \<and> err_status r = FEX_STATUS_RUNTIME_ERROR)"
  unfolding yields_def
proof (intro allI impI)
  fix c e c'
  assume "fex_try_on_error n name msg cl c = (Inr e, c')"
  moreover have "yields (fill_runtime_trace n 0 cl (fill_basic_error FEX_STATUS_RUNTIME_ERROR nm 0 (Some 0) msg))
      (\<lambda>r. error_fits r \<and> err_status r = FEX_STATUS_RUNTIME_ERROR)" for nm
    using trace_fits [OF basic_fits, of FEX_STATUS_RUNTIME_ERROR nm 0 "Some 0" msg 0 n cl] by simp
  ultimately show "error_fits e \<and> err_status e = FEX_STATUS_RUNTIME_ERROR"
    by (auto simp: fex_try_on_error_def Let_def yields_def basic_fits
        split: prod.splits sum.splits fe_err.splits)
qed

section \<open>Writing a trace raises no error record\<close>

definition unraised :: "'a fcomp \<Rightarrow> bool" where
  "unraised m \<longleftrightarrow> (\<forall>c e c'. m c \<noteq> (Inl (Raised e), c'))"

named_theorems unraised_rules \<open>computations that hand no error record to a try scope\<close>

lemma unraised_basic [unraised_rules]:
  "unraised (ret x)" "unraised (gets f)" "unraised (modify g)" "unraised (lift_st h)" "unraised (fe_error msg)"
  "unraised (throw Crash)" "unraised (throw OutOfFuel)"
  by (simp_all add: unraised_def ret_def gets_def modify_def lift_st_def fe_error_def throw_def case_prod_beta Let_def)

lemma unraised_bnd [unraised_rules]: "unraised m \<Longrightarrow> (\<And>x. unraised (f x)) \<Longrightarrow> unraised (bnd m f)"
  unfolding unraised_def bnd_def by (auto split: prod.splits sum.splits)

lemma unraised_sq [unraised_rules]: "unraised m \<Longrightarrow> unraised n \<Longrightarrow> unraised (sq m n)"
  unfolding sq_def by (rule unraised_bnd)

lemma unraised_if [unraised_rules]: "(b \<Longrightarrow> unraised m) \<Longrightarrow> (\<not> b \<Longrightarrow> unraised n) \<Longrightarrow> unraised (if b then m else n)"
  by simp

lemma unraised_prod [unraised_rules]: "(\<And>x y. unraised (f x y)) \<Longrightarrow> unraised (case z of (x, y) \<Rightarrow> f x y)"
  by (cases z) simp

lemma unraised_option [unraised_rules]:
  "unraised m \<Longrightarrow> (\<And>x. unraised (f x)) \<Longrightarrow> unraised (case z of None \<Rightarrow> m | Some x \<Rightarrow> f x)"
  by (cases z) simp_all

lemma unraised_cells [unraised_rules]:
  "unraised (cell p)" "unraised (as_obj v)" "unraised (car p)" "unraised (cdr p)" "unraised (checktype p t)"
  "unraised (FE_STR_LEN p)" "unraised (str_head p)" "unraised (fe_num_value p)" "unraised (fe_car p)"
  "unraised (fe_cdr p)" "unraised (check_io_abort n)"
proof -
  show c: "unraised (cell p)" for p by (auto simp: unraised_def cell_def split: ptr.splits)
  show a: "unraised (as_obj v)" for v unfolding as_obj_def by (auto intro!: unraised_rules split: val.split)
  show k: "unraised (checktype p t)" for p t unfolding checktype_def by (intro unraised_rules)
  show d: "unraised (car p)" "unraised (cdr p)" for p unfolding car_def cdr_def by (intro unraised_rules a c)+
  show "unraised (FE_STR_LEN p)" "unraised (str_head p)" "unraised (fe_num_value p)"
    unfolding FE_STR_LEN_def str_head_def fe_num_value_def
    by (auto intro!: unraised_rules c d split: ptr.split val.split)
  show "unraised (fe_car p)" "unraised (fe_cdr p)" unfolding fe_car_def fe_cdr_def by (intro unraised_rules d k)+
  show "unraised (check_io_abort n)" unfolding check_io_abort_def by (intro unraised_rules)
qed

lemma unraised_write [unraised_rules]:
  "unraised (write_checked x w)" "unraised (writestr t w)" "unraised (write_hex_byte x w)"
proof -
  show c: "unraised (write_checked x w)" for x w unfolding write_checked_def by (intro unraised_rules)
  show "unraised (writestr t w)" by (induction t arbitrary: w) (auto intro!: unraised_rules c)
  show "unraised (write_hex_byte x w)" unfolding write_hex_byte_def by (intro unraised_rules c)
qed

lemma unraised_chunk [unraised_rules]: "unraised (write_chunk q t w)" "unraised (write_hex_chunk q t w)"
  by (induction t arbitrary: w q) (auto intro!: unraised_rules)

lemma unraised_slabs [unraised_rules]:
  "unraised (write_slabs ss q off r w)" "unraised (write_hex_slabs ss q off r w)"
proof -
  show "unraised (write_slabs ss q off r w)"
    by (induction ss q off r w rule: write_slabs.induct)
      (subst write_slabs.simps, auto intro!: unraised_rules split: option.split)
  show "unraised (write_hex_slabs ss q off r w)"
    by (induction ss q off r w rule: write_hex_slabs.induct)
      (subst write_hex_slabs.simps, auto intro!: unraised_rules split: option.split)
qed

lemma unraised_parts:
  assumes "\<And>x q out. unraised (wr x q out)"
  shows "unraised (write_pairs n wr obj w)" "unraised (write_entries m wr is' first w)"
proof -
  show "unraised (write_pairs n wr obj w)"
    by (induction n arbitrary: obj w) (auto intro!: unraised_rules assms)
  show "unraised (write_entries m wr is' first w)"
    by (induction is' arbitrary: first w) (auto intro!: unraised_rules assms simp: Let_def split: option.split)
qed

lemma unraised_fe_write [unraised_rules]: "unraised (fe_write n obj q out)"
proof (induction n arbitrary: obj q out)
  case (Suc n)
  show ?case
    unfolding fe_write.simps fe_write_body_def Let_def write_number_def write_pair_def write_map_def write_data_def
    by (auto intro!: unraised_rules unraised_parts Suc.IH split: fe_tag.split ptr.split val.split option.split)
qed (simp add: unraised_rules)

lemma unraised_texts [unraised_rules]:
  "unraised (fe_tostring n obj sz)" "unraised (fe_strlen obj)" "unraised (append_string_for_error cap obj w)"
  "unraised (append_scalar_for_error n cap obj w)" "unraised (is_pair obj)"
  unfolding fe_tostring_def fe_strlen_def append_string_for_error_def append_scalar_for_error_def is_pair_def Let_def
  by (intro unraised_rules)+

lemma unraised_pairs:
  "(\<And>x w. unraised (rec x w)) \<Longrightarrow> unraised (error_pairs k cap rec obj w)"
  by (induction k arbitrary: obj w) (auto intro!: unraised_rules)

lemma unraised_object [unraised_rules]: "unraised (append_object_for_error n cap obj w)"
  by (induction n arbitrary: obj w) (auto intro!: unraised_rules unraised_pairs)

lemma unraised_trace: "unraised (fill_runtime_trace n depth cl err)"
  by (induction cl arbitrary: depth err) (auto intro!: unraised_rules simp: format_object_for_error_def Let_def)

lemma on_error_stops:
  "fex_try_on_error n name msg cl c = (Inl x, c') \<Longrightarrow> x = Crash \<or> x = OutOfFuel"
  using unraised_trace [of n 0 cl] unfolding unraised_def
  by (auto simp: fex_try_on_error_def Let_def split: prod.splits sum.splits fe_err.splits)

text \<open>What a try scope leaves behind.\<close>

lemma tracked_free_scopes [simp]:
  fixes c :: fe_Context
  shows "temp_allocs (tracked_free b c) = temp_allocs c" "compile_scopes (tracked_free b c) = compile_scopes c"
    "gcstack (tracked_free b c) = gcstack c" "source_dirs (tracked_free b c) = source_dirs c"
  by (simp_all add: tracked_free_def memory_note_free_def Let_def split: option.split)

lemma free_scopes [simp]:
  fixes c :: fe_Context
  shows "temp_allocs ((tracked_free b ^^ n) c) = temp_allocs c" "gcstack ((tracked_free b ^^ n) c) = gcstack c"
  by (induction n) simp_all

lemma free_temps [simp]:
  fixes c :: fe_Context
  shows "compile_scopes (fold (\<lambda>sz. tracked_free (Some sz)) l c) = compile_scopes c"
    "gcstack (fold (\<lambda>sz. tracked_free (Some sz)) l c) = gcstack c"
  by (induction l arbitrary: c) simp_all

lemma leave_try_scope_run:
  "leave_try_scope scopes temps k c = (r, c') \<Longrightarrow>
   r = Inl OutOfFuel \<or> r = Inr () \<and> compile_scopes c' = scopes \<and> length (gcstack c') \<le> k \<and>
     length (temp_allocs c') \<le> temps"
  by (auto simp: leave_try_scope_def leave_scopes_to_def fex_try_scope_free_temps_def fe_restoregc_def sq_def bnd_def
      gets_def modify_def throw_def Let_def split: if_splits)

lemma pop_all_keeps [simp]:
  fixes c :: fe_Context
  shows "temp_allocs (pop_all a c) = temp_allocs c" "compile_scopes (pop_all a c) = compile_scopes c"
    "gcstack (pop_all a c) = gcstack c"
proof -
  have "temp_allocs (fold (\<lambda>s. tracked_free (Some (snd s))) l c) = temp_allocs c \<and>
      compile_scopes (fold (\<lambda>s. tracked_free (Some (snd s))) l c) = compile_scopes c \<and>
      gcstack (fold (\<lambda>s. tracked_free (Some (snd s))) l c) = gcstack c" for l :: "cstr list"
    by (induction l arbitrary: c) simp_all
  then show "temp_allocs (pop_all a c) = temp_allocs c" "compile_scopes (pop_all a c) = compile_scopes c"
    "gcstack (pop_all a c) = gcstack c"
    by (simp_all add: pop_all_def free_items_def)
qed

text \<open>The import state is reset: no file is being loaded and no module is open.\<close>

definition import_idle :: "fe_Context \<Rightarrow> bool" where
  "import_idle c \<longleftrightarrow> arr_items (source_buffers c) = [] \<and> arr_items (source_dirs c) = [] \<and>
     arr_items (loading_modules c) = [] \<and> modulestack c = Nil"

definition scope_left :: "bool \<Rightarrow> fe_Context \<Rightarrow> FexStatus \<times> ptr option \<times> FexError \<Rightarrow> fe_Context \<Rightarrow> bool" where
  "scope_left keep c r c' \<longleftrightarrow> (case r of (status, result, err) \<Rightarrow>
     compile_scopes c' = compile_scopes c \<and> length (temp_allocs c') \<le> length (temp_allocs c) \<and>
     err_status err = status \<and> error_fits err \<and>
     (status = FEX_STATUS_OK \<and> length (gcstack c') \<le> length (gcstack c) + (if keep then 1 else 0) \<or>
      result = None \<and> length (gcstack c') \<le> length (gcstack c) \<and> import_idle c'))"

lemma scope_failed:
  assumes "sq (leave_try_scope (compile_scopes c) (length (temp_allocs c)) (length (gcstack c)))
      (sq fex_reset_import_state (ret (err_status e, None, e))) c1 = (r, c')" "error_fits e"
  shows "r = Inl OutOfFuel \<or> (\<exists>x. r = Inr x \<and> scope_left keep c x c')"
proof -
  obtain q c2 where q: "leave_try_scope (compile_scopes c) (length (temp_allocs c)) (length (gcstack c)) c1 = (q, c2)"
    by fastforce
  from leave_try_scope_run [OF q] show ?thesis
  proof
    assume "q = Inl OutOfFuel"
    with assms(1) q show ?thesis by (simp add: sq_def bnd_def)
  next
    assume c2: "q = Inr () \<and> compile_scopes c2 = compile_scopes c \<and> length (gcstack c2) \<le> length (gcstack c) \<and>
      length (temp_allocs c2) \<le> length (temp_allocs c)"
    define d where "d = snd (fex_reset_import_state c2)"
    have "scope_left keep c (err_status e, None, e) d"
      using c2 assms(2) by (simp add: scope_left_def import_idle_def d_def fex_reset_import_state_def modify_def)
    moreover have "(r, c') = (Inr (err_status e, None, e), d)"
      using assms(1) q c2 by (simp add: sq_def bnd_def ret_def d_def fex_reset_import_state_def modify_def)
    ultimately show ?thesis by simp
  qed
qed

lemma scope_returned:
  assumes run: "fn c = (Inr result, c1)"
  shows "case fex_try_run_internal n fn name keep c of
     (Inr r, c') \<Rightarrow> scope_left keep c r c'
   | (Inl e, c') \<Rightarrow> e = Crash \<or> e = OutOfFuel"
proof -
  define k where "k = (if keep \<and> result \<noteq> None \<and> length (gcstack c1) > length (gcstack c)
    then length (gcstack c) + 1 else length (gcstack c))"
  obtain q c2 where q: "leave_try_scope (compile_scopes c) (length (temp_allocs c)) k c1 = (q, c2)" by fastforce
  have "k \<le> length (gcstack c) + (if keep then 1 else 0)" by (simp add: k_def)
  moreover have "error_fits fex_error_clear" "err_status fex_error_clear = FEX_STATUS_OK"
    by (simp_all add: error_fits_def fex_error_clear_def)
  moreover have "fex_try_run_internal n fn name keep c = (case q of Inl e \<Rightarrow> (Inl e, c2)
      | Inr _ \<Rightarrow> (Inr (FEX_STATUS_OK, result, fex_error_clear), c2))"
    unfolding fex_try_run_internal_def Let_def run sq_def bnd_def prod.case sum.case k_def [symmetric] q
    by (simp add: ret_def split: sum.split)
  ultimately show ?thesis using leave_try_scope_run [OF q] by (elim disjE) (simp_all add: scope_left_def)
qed


text \<open>A run that raises an error in the midst of an import.\<close>

definition failing_run :: "ptr option runner" where
  "failing_run = on_rt (sq (modify (\<lambda>c. c\<lparr>source_dirs := \<lparr>arr_items = [(''/lib'', 5)], arr_capacity = 4\<rparr>\<rparr>))
     (fe_error ''tried to call non-callable value''))"

lemma failing_run_fails: "fst (failing_run (zeroed_context quiet_env 4096)) = Inl (RtError (FeError ''tried to call non-callable value'' []))"
  by (simp add: failing_run_def on_rt_def sq_def bnd_def modify_def fe_error_def zeroed_context_def split: prod.split)

lemma failing_run_status:
  "map_prod (map_sum id fst) (\<lambda>_. ()) (fex_try_run_internal 1 failing_run ''<string>'' False (zeroed_context quiet_env 4096)) =
     (Inr FEX_STATUS_RUNTIME_ERROR, ())"
  by code_simp


end
