(* ===== verification/Fex_Kept.thy ===== *)
theory Fex_Kept
  imports Fe_Nest Fex_Try
begin

text \<open>
  What compiling a source, resolving a module and binding it leave alone when they return: the
  control state of the runtime, in particular the call list and the list of modules being loaded.
\<close>

section \<open>Compilation\<close>

abbreviation pk :: "'a pcomp \<Rightarrow> bool" where
  "pk m \<equiv> oks (fixes_field (\<lambda>s. ctl (p_ctx s))) m"

named_theorems pk_rules \<open>parts of the parser that keep the control state\<close>

lemmas [pk_rules] = field_order.oks_ret field_order.oks_gets field_order.oks_bnd field_order.oks_sq oks_throw

lemma pk_rt [pk_rules]: "ctl_kept m \<Longrightarrow> pk (rt m)"
  by (auto simp: oks_def fixes_field_def rt_def split: prod.splits sum.splits)

lemma pk_modify [pk_rules]: "(\<And>s. p_ctx (f s) = p_ctx s) \<Longrightarrow> pk (modify f)"
  by (rule field_order.oks_modify) (simp add: fixes_field_def)

lemma oks_if [ctl_rules, pk_rules]: "(b \<Longrightarrow> oks R m) \<Longrightarrow> (\<not> b \<Longrightarrow> oks R n) \<Longrightarrow> oks R (if b then m else n)"
  by simp

lemma oks_case_prod [ctl_rules, pk_rules]: "(\<And>x y. oks R (f x y)) \<Longrightarrow> oks R (case z of (x, y) \<Rightarrow> f x y)"
  by (cases z) simp

lemma oks_case_option [ctl_rules, pk_rules]:
  "oks R m \<Longrightarrow> (\<And>x. oks R (f x)) \<Longrightarrow> oks R (case z of None \<Rightarrow> m | Some x \<Rightarrow> f x)"
  by (cases z) simp_all

lemma ctl_temp [ctl_rules]: "ctl_kept (fex_temp_alloc n)" "ctl_kept (fex_temp_free n)" "ctl_kept (lift_st (sys_malloc sz))"
proof -
  show "ctl_kept (fex_temp_alloc n)" "ctl_kept (fex_temp_free n)"
    unfolding fex_temp_alloc_def fex_temp_free_def by (intro ctl_rules; (simp add: ctl_def; fail)?; simp)+
  show "ctl_kept (lift_st (sys_malloc sz))"
    by (rule field_order.oks_lift_st) (simp add: fixes_field_def sys_malloc_def ctl_def)
qed

lemma ctl_code [ctl_rules]:
  "ctl_kept (cons_args xs)" "ctl_kept (decl_parts b p)" "ctl_kept (extract_named_fn_decl p)" "ctl_kept (put_cdr p x)"
  "ctl_kept (count_fn_decls k h p)" "ctl_kept (selector_setter_name p)" "ctl_kept (reverse_params i p r)"
  "ctl_kept (set_tail t q x)"
proof -
  show "ctl_kept (cons_args xs)" by (induction xs) (auto intro!: ctl_rules)
  show d: "ctl_kept (decl_parts b p)" for b p unfolding decl_parts_def by (intro ctl_rules)
  show e: "ctl_kept (extract_named_fn_decl p)" for p unfolding extract_named_fn_decl_def by (intro ctl_rules d)
  show "ctl_kept (put_cdr p x)" unfolding put_cdr_def by (intro ctl_rules)
  show "ctl_kept (count_fn_decls k h p)" by (induction k arbitrary: h p) (auto intro!: ctl_rules e)
  show "ctl_kept (selector_setter_name p)"
    unfolding selector_setter_name_def name_in_def by (intro ctl_rules)
  show "ctl_kept (reverse_params i p r)" by (induction i arbitrary: p r) (auto intro!: ctl_rules)
  show "ctl_kept (set_tail t q x)" unfolding set_tail_def by (intro ctl_rules)
qed

lemma pk_errors [pk_rules]: "pk (error_at t msg)" "pk (error_at_current msg)" "pk (error msg)"
  unfolding error_at_current_def error_def error_at_def by (intro pk_rules; simp)+

lemma pk_tokens [pk_rules]: "pk parser_advance" "pk (check t)" "pk (consume t msg)" "pk (parser_match t)"
proof -
  have "pk (advance_loop k)" for k
    by (induction k) (auto simp: scan_def intro!: pk_rules split: prod.split)
  then show a: "pk parser_advance" unfolding parser_advance_def by (intro pk_rules) simp_all
  show "pk (check t)" "pk (consume t msg)" "pk (parser_match t)"
    unfolding check_def consume_def parser_match_def by (intro pk_rules a)+
qed

lemma pk_builders [pk_rules]:
  "pk (fex_cons_tok a d)" "pk symbol_from_token" "pk (copy_span_from x y)"
  unfolding fex_cons_tok_def symbol_from_token_def copy_span_from_def by (intro pk_rules ctl_rules)+

lemma pk_form [pk_rules]: "(\<And>v. pk (g v)) \<Longrightarrow> pk (make_form op args g)"
  unfolding make_form_def by (intro pk_rules ctl_rules)

lemma pk_forms [pk_rules]:
  "pk (make_unary op a)" "pk (make_binary op a b)" "pk (make_ternary op a b x)" "pk (make_named_fn_decl a b e)"
  "pk (make_do_two_with_span a b x)" "pk (make_do_three_with_span a b x y)"
  unfolding make_unary_def make_binary_def make_ternary_def make_named_fn_decl_def make_do_two_with_span_def
    make_do_three_with_span_def by (intro pk_rules)+

lemma pk_rewrite [pk_rules]: "pk (rewrite_named_fn_declarations stmts count)"
proof -
  have d: "pk (rewrite_decl a b x e)" for a b x e unfolding rewrite_decl_def by (intro pk_rules ctl_rules)
  have "pk (predeclare k g t p)" for k g t p
    by (induction k arbitrary: t p) (auto intro!: pk_rules ctl_rules split: option.split)
  moreover have "pk (rewrite_stmts k g t p)" for k g t p
    by (induction k arbitrary: t p) (auto intro!: pk_rules ctl_rules d split: option.split)
  ultimately show ?thesis unfolding rewrite_named_fn_declarations_def by (intro pk_rules ctl_rules)
qed

lemma pk_literals [pk_rules]:
  "pk parse_number" "pk (parse_string_literal b)" "pk parse_string" "pk parse_literal" "pk parse_variable"
proof -
  show "pk parse_number" unfolding parse_number_def by (intro pk_rules ctl_rules)
  show s: "pk (parse_string_literal b)" for b
    unfolding parse_string_literal_def record_literal_def by (auto intro!: pk_rules ctl_rules split: prod.split simp: Let_def)
  show "pk parse_string" "pk parse_literal" "pk parse_variable"
    unfolding parse_string_def parse_literal_def parse_variable_def by (intro pk_rules s)+
qed

lemma pk_import_specifier [pk_rules]: "pk (parse_import_specifier stop m)"
proof -
  have a: "pk (append_import_segment b seg)" for b seg
    unfolding append_import_segment_def Let_def by (intro pk_rules ctl_rules)
  have o: "pk import_oom" unfolding import_oom_def by (intro pk_rules)
  have "pk (import_segments stop k b)" for k b
    by (induction k arbitrary: b) (auto intro!: pk_rules ctl_rules a o split: option.split)
  then show ?thesis unfolding parse_import_specifier_def by (intro pk_rules ctl_rules a o)
qed

text \<open>The productions, given that the nested ones keep the control state.\<close>

lemma pk_loops:
  assumes "\<And>nt. pk (rec nt)"
  shows "pk (args_loop stop k rec h tl')" "pk (list_loop stop k rec g h tl')" "pk (block_loop stop k rec h tl' n)"
    "pk (params_loop stop k h n)"
proof -
  have x: "pk (expression rec)" unfolding expression_def by (rule assms)
  show "pk (args_loop stop k rec h tl')"
    by (induction k arbitrary: h tl') (auto intro!: pk_rules ctl_rules x)
  show "pk (list_loop stop k rec g h tl')"
    by (induction k arbitrary: h tl') (auto intro!: pk_rules ctl_rules x)
  show "pk (block_loop stop k rec h tl' n)"
    by (induction k arbitrary: h tl' n) (auto intro!: pk_rules ctl_rules assms)
  show "pk (params_loop stop k h n)"
    by (induction k arbitrary: h n) (auto intro!: pk_rules ctl_rules)
qed

lemma pk_block: "(\<And>nt. pk (rec nt)) \<Longrightarrow> pk (block stop k rec)"
  unfolding block_def by (intro pk_rules ctl_rules pk_loops)

lemma pk_fn: "(\<And>nt. pk (rec nt)) \<Longrightarrow> pk (fn_declaration stop k rec)"
  unfolding fn_declaration_def by (intro pk_rules ctl_rules pk_loops pk_block)

lemma pk_prefix: "(\<And>nt. pk (rec nt)) \<Longrightarrow> pk (call_prefix stop k rec f)"
  unfolding call_prefix_def parse_grouping_def parse_unary_def parse_list_def fn_expression_def expression_def
  by (cases f) (auto intro!: pk_rules ctl_rules pk_loops pk_fn)

lemma pk_infix: "(\<And>nt. pk (rec nt)) \<Longrightarrow> pk (infix_step stop k rec t l)"
  unfolding infix_step_def assignment_def binary_operator_def call_args_def bad_target_def
  by (auto intro!: pk_rules ctl_rules pk_loops split: option.split prod.split)

lemma pk_infix_loop: "(\<And>nt. pk (rec nt)) \<Longrightarrow> pk (infix_loop stop k m rec p l)"
  by (induction k arbitrary: l) (auto intro!: pk_rules ctl_rules pk_infix split: option.split)

lemma pk_synchronize [pk_rules]: "pk (synchronize stop k)"
proof -
  have "pk (synchronize_loop stop k)" by (induction k) (auto intro!: pk_rules)
  then show ?thesis unfolding synchronize_def by (intro pk_rules) simp_all
qed

lemma pk_statement: "(\<And>nt. pk (rec nt)) \<Longrightarrow> pk (statement stop k rec)"
  unfolding statement_def return_statement_def if_statement_def while_statement_def expr_statement_def expression_def
  by (intro pk_rules ctl_rules pk_block)

lemma pk_import_declaration [pk_rules]: "pk (import_declaration stop k)"
  unfolding import_declaration_def by (intro pk_rules ctl_rules)

lemma pk_declarations:
  assumes "\<And>nt. pk (rec nt)"
  shows "pk (module_declaration stop k rec)" "pk (var_declaration rec)" "pk (fn_decl_named stop k rec b)"
  unfolding module_declaration_def var_declaration_def fn_decl_named_def expression_def
  by (intro pk_rules ctl_rules pk_block pk_fn assms)+

lemma pk_declaration:
  assumes "\<And>nt. pk (rec nt)"
  shows "pk (fex_declaration stop k rec)"
  unfolding fex_declaration_def by (intro pk_rules pk_declarations assms)

lemma pk_parse: "pk (parse stop n nt)"
proof (induction n arbitrary: nt)
  case (Suc n)
  show ?case unfolding parse.simps parse_nt_def parse_precedence_new_def
    by (cases nt) (auto intro!: pk_rules pk_prefix pk_infix_loop pk_statement pk_declaration Suc.IH)
qed (simp add: oks_throw)

lemma pk_program_loop: "pk (program_loop stop k (parse stop n) g h tl' m)"
  by (induction k arbitrary: h tl' m) (auto intro!: pk_rules ctl_rules pk_parse)

lemma pk_compile_body: "pk (compile_body stop n)"
  unfolding compile_body_def enter_compile_scope_def finish_program_def leave_compile_scope_def
  by (intro pk_rules ctl_rules pk_program_loop; (simp add: ctl_def; fail)?; simp)

abbreviation runner_kept :: "'a runner \<Rightarrow> bool" where
  "runner_kept m \<equiv> oks (fixes_field ctl) m"

lemma compile_runner_kept: "runner_kept (compile_runner n try_active source name)"
proof -
  have "ctl (p_ctx s) = ctl c" if "fex_compile_named stop n try_active source name c = (Inr x, s)" for c stop x s
    using oksD [OF pk_compile_body that [unfolded fex_compile_named_def]]
    by (simp add: fixes_field_def init_pstate_def)
  then show ?thesis by (auto simp: oks_def fixes_field_def compile_runner_def split: prod.splits)
qed

section \<open>Module files\<close>

lemma ctl_free_cstr [ctl_rules]: "ctl_kept (free_cstr s)"
  unfolding free_cstr_def by (intro ctl_rules) simp

lemma ctl_free_items [simp]: "ctl (free_items xs c) = ctl c"
  unfolding free_items_def by (induction xs arbitrary: c) simp_all

lemma ctl_dup [ctl_rules]: "ctl_kept (dup_cstring s)"
  unfolding dup_cstring_def by (intro ctl_rules)

lemma ctl_arrays [ctl_rules]:
  "ctl_kept (ensure_string_array_capacity n a)" "ctl_kept (string_array_push_owned s a)"
  "ctl_kept (string_array_push_copy v a)" "ctl_kept (string_array_clear a)" "ctl_kept (string_array_contains v a)"
  "ctl_kept (string_array_pop a)" "ctl_kept (ensure_object_array_capacity n k)"
proof -
  show e: "ctl_kept (ensure_string_array_capacity n a)" for n a
    unfolding ensure_string_array_capacity_def Let_def by (intro ctl_rules)
  show o: "ctl_kept (string_array_push_owned s a)" for s a
    unfolding string_array_push_owned_def by (intro ctl_rules e)
  show "ctl_kept (string_array_push_copy v a)" unfolding string_array_push_copy_def by (intro ctl_rules o)
  show "ctl_kept (string_array_clear a)" unfolding string_array_clear_def by (intro ctl_rules) simp
  have "ctl_kept (find_cstr v i k ss)" for v i k and ss :: "cstr list"
    by (induction ss arbitrary: i k) (auto intro!: ctl_rules)
  then show "ctl_kept (string_array_contains v a)" unfolding string_array_contains_def by (intro ctl_rules)
  show "ctl_kept (string_array_pop a)" unfolding string_array_pop_def by (intro ctl_rules)
  show "ctl_kept (ensure_object_array_capacity n k)"
    unfolding ensure_object_array_capacity_def Let_def by (intro ctl_rules)
qed

lemma ctl_module_cache [ctl_rules]: "ctl_kept (module_cache_get path)" "ctl_kept (module_cache_push_owned s v)"
proof -
  have "ctl_kept (find_cstr v i k ss)" for v i k and ss :: "cstr list"
    by (induction ss arbitrary: i k) (auto intro!: ctl_rules)
  then show "ctl_kept (module_cache_get path)"
    unfolding module_cache_get_def module_cache_find_index_def by (intro ctl_rules)
  show "ctl_kept (module_cache_push_owned s v)"
    unfolding module_cache_push_owned_def Let_def by (intro ctl_rules; simp add: ctl_def)
qed

lemma ctl_poll_io [ctl_rules]: "ctl_kept (lift_st (poll_io_abort n))"
proof (rule field_order.oks_lift_st)
  fix c :: fe_Context
  have "poll_frame c (snd (poll_io_abort n c))" using poll_io_abort_frame [of c n] by (simp add: case_prod_beta)
  then show "fixes_field ctl c (snd (poll_io_abort n c))"
    by (auto simp: fixes_field_def poll_frame_def ctl_def)
qed

lemma ctl_paths [ctl_rules]:
  "ctl_kept (normalize_path_chars s)" "ctl_kept (dup_normalized_path q)" "ctl_kept (normalize_existing_path fs q)"
  "ctl_kept (path_dirname_copy q)" "ctl_kept (join_path_suffix b n x)" "ctl_kept (module_spec_to_lookup_name q)"
  "ctl_kept (join_module_segments ss z)"
proof -
  have l: "ctl_kept (normalize_path_loop k q)" for k q by (induction q arbitrary: k) (auto intro!: ctl_rules)
  show n: "ctl_kept (normalize_path_chars s)" for s unfolding normalize_path_chars_def by (intro ctl_rules l)
  show "ctl_kept (dup_normalized_path q)" "ctl_kept (normalize_existing_path fs q)"
    unfolding dup_normalized_path_def normalize_existing_path_def by (intro ctl_rules n)+
  have "ctl_kept (last_sep_loop k i s q)" for k i s q
    by (induction q arbitrary: k i s) (auto intro!: ctl_rules)
  then show "ctl_kept (path_dirname_copy q)" unfolding path_dirname_copy_def Let_def by (intro ctl_rules)
  show "ctl_kept (join_path_suffix b n x)" "ctl_kept (join_module_segments ss z)"
    unfolding join_path_suffix_def join_module_segments_def Let_def by (intro ctl_rules)+
  have "ctl_kept (dots_to_slashes b k q)" for b k q
    by (induction q arbitrary: k) (auto intro!: ctl_rules split: option.split)
  then show "ctl_kept (module_spec_to_lookup_name q)"
    unfolding module_spec_to_lookup_name_def by (intro ctl_rules n)
qed

lemma ctl_split [ctl_rules]: "ctl_kept (split_module_spec_segments q)"
proof -
  have p: "ctl_kept (push_segment b s k a)" for b s k a unfolding push_segment_def by (intro ctl_rules)
  have "ctl_kept (split_loop b k s n ps a)" for b k s n ps a
    by (induction ps arbitrary: k s n a) (auto intro!: ctl_rules p split: option.split)
  then show ?thesis unfolding split_module_spec_segments_def by (intro ctl_rules)
qed

lemma ctl_packages [ctl_rules]:
  "ctl_kept (lookup_global_module n)" "ctl_kept (lookup_module_chain ss)" "ctl_kept (ensure_package_chain ss)"
  "ctl_kept (bind_imported_module n ss b m)" "ctl_kept (resolve_imported_module_value n ss r)"
proof -
  show g: "ctl_kept (lookup_global_module n)" for n unfolding lookup_global_module_def by (intro ctl_rules)
  have m: "ctl_kept (module_chain_loop ss x)" for ss x by (induction ss arbitrary: x) (auto intro!: ctl_rules)
  show l: "ctl_kept (lookup_module_chain ss)" for ss
    unfolding lookup_module_chain_def by (cases ss) (auto intro!: ctl_rules g m)
  have "ctl_kept (package_chain_loop ss x)" for ss x by (induction ss arbitrary: x) (auto intro!: ctl_rules)
  then show e: "ctl_kept (ensure_package_chain ss)" for ss
    unfolding ensure_package_chain_def by (cases ss) (auto intro!: ctl_rules g)
  show "ctl_kept (bind_imported_module n ss b m)" unfolding bind_imported_module_def by (intro ctl_rules e)
  show "ctl_kept (resolve_imported_module_value n ss r)"
    unfolding resolve_imported_module_value_def by (intro ctl_rules g l)
qed

lemma ctl_source_files [ctl_rules]:
  "ctl_kept (read_text_file fs q)" "ctl_kept (push_source_dir_from_file fs q)" "ctl_kept pop_source_dir"
  unfolding read_text_file_def push_source_dir_from_file_def pop_source_dir_def
  by (intro ctl_rules; simp add: ctl_def)+

lemma ctl_resolve [ctl_rules]: "ctl_kept (resolve_module_file fs name report)"
proof -
  have r: "ctl_kept (resolve_existing fs q a)" for q a unfolding resolve_existing_def by (intro ctl_rules)
  have c: "ctl_kept (try_resolve_module_candidate fs q a)" for q a
    unfolding try_resolve_module_candidate_def by (intro ctl_rules r)
  have u: "ctl_kept (try_resolve_module_under_base fs b n a)" for b n a
    unfolding try_resolve_module_under_base_def try_candidate_def join_module_file_path_def join_module_index_path_def
    by (intro ctl_rules c)
  have "ctl_kept (import_paths_loop fs n k bs a)" for n k bs a
    by (induction bs arbitrary: k a) (auto intro!: ctl_rules u)
  then have "ctl_kept (resolve_search fs n a)" for n a unfolding resolve_search_def by (intro ctl_rules u)
  then show ?thesis
    unfolding resolve_module_file_def Let_def format_search_paths_def by (intro ctl_rules)
qed

end
