(* ===== verification/Fex_Import.thy ===== *)
theory Fex_Import
  imports Fex_Kept
begin

text \<open>
  Importing modules (\<^verbatim>\<open>fe.c\<close>, \<^verbatim>\<open>do_file_common\<close> and \<^verbatim>\<open>import_spec_to_cstring\<close> to \<^verbatim>\<open>import_module\<close>): a specifier is resolved
  to a file, the file is compiled and run in a try scope of its own unless its module is cached, and
  the module is bound to its name. Here the evaluator, the compiler, the try scopes, the module cache
  and the file system come together, and the recursion through them is shown to end: a module that
  is being loaded is not loaded again, so the nesting of imports is bounded by the number of files.
\<close>

section \<open>Running a file\<close>

definition pop_source_buffer :: "unit fcomp" where
  "pop_source_buffer = bnd (gets source_buffers) (\<lambda>a. bnd (string_array_pop a) (\<lambda>a.
     modify (\<lambda>c. c\<lparr>source_buffers := a\<rparr>)))"

text \<open>The exports of the file become the module under construction; the result tells whether.\<close>

definition push_exports :: "ptr option \<Rightarrow> bool fcomp" where
  "push_exports implicit_exports = (case implicit_exports of
      None \<Rightarrow> ret False
    | Some m \<Rightarrow> bnd (gets (\<lambda>c. typeof c m)) (\<lambda>t.
        if t = FE_TMAP then
          bnd (gets modulestack) (\<lambda>st. bnd (fe_cons m st) (\<lambda>st.
            sq (modify (\<lambda>c. c\<lparr>modulestack := st\<rparr>)) (ret True)))
        else ret False))"

definition pop_exports :: "unit fcomp" where
  "pop_exports = bnd (gets modulestack) (\<lambda>st. bnd (cdr st) (\<lambda>st. modify (\<lambda>c. c\<lparr>modulestack := st\<rparr>)))"

text \<open>\<open>run\<close> is the evaluator; \<open>try_active\<close> tells whether a try scope is active.\<close>

definition do_file_common ::
  "os_files \<Rightarrow> nat \<Rightarrow> (ptr \<Rightarrow> ptr fcomp) \<Rightarrow> bool \<Rightarrow> string \<Rightarrow> ptr option \<Rightarrow> ptr option runner" where
  "do_file_common fs n run try_active path implicit_exports =
     bnd (on_rt (push_source_dir_from_file fs path)) (\<lambda>ok.
     sq (if ok then ret () else on_rt (memory_error ''out of memory (source path)''))
     (bnd (on_rt (read_text_file fs path)) (\<lambda>source. case source of
        None \<Rightarrow> sq (on_rt pop_source_dir) (bnd (gets alloc_failure_active) (\<lambda>failed.
          if failed then on_rt (memory_error ''out of memory (source file)'')
          else if try_active then throw (IoError path ''could not open input file'')
          else ret None))
      | Some src \<Rightarrow> bnd (gets source_buffers) (\<lambda>a. bnd (on_rt (string_array_push_owned src a)) (\<lambda>r. case r of
          None \<Rightarrow> sq (on_rt pop_source_dir) (sq (on_rt (free_cstr source)) (on_rt (memory_error ''out of memory (source path)'')))
        | Some a \<Rightarrow> sq (modify (\<lambda>c. c\<lparr>source_buffers := a\<rparr>))
            (bnd (on_rt (push_exports implicit_exports)) (\<lambda>pushed_module.
             bnd (fex_do_string_named n run try_active (fst src) path) (\<lambda>result.
             sq (if pushed_module then on_rt pop_exports else ret ())
             (sq (on_rt pop_source_buffer) (sq (on_rt pop_source_dir) (ret result)))))))))))"

definition fex_do_file :: "os_files \<Rightarrow> nat \<Rightarrow> (ptr \<Rightarrow> ptr fcomp) \<Rightarrow> bool \<Rightarrow> string \<Rightarrow> ptr option runner" where
  "fex_do_file fs n run try_active path = do_file_common fs n run try_active path None"

definition fex_try_do_file ::
  "os_files \<Rightarrow> nat \<Rightarrow> (ptr \<Rightarrow> ptr fcomp) \<Rightarrow> string \<Rightarrow> (FexStatus \<times> ptr option \<times> FexError) fcomp" where
  "fex_try_do_file fs n run path = fex_try_run_internal n (fex_do_file fs n run True path) path False"

section \<open>Specifiers\<close>

text \<open>
  The text of the specifier in a fresh buffer of \<^verbatim>\<open>fe_strlen\<close> bytes and a terminator. When the text is
  shorter than that, \<^verbatim>\<open>memchr\<close> finds the terminator.
\<close>

definition import_spec_to_cstring :: "ptr \<Rightarrow> cstr fcomp" where
  "import_spec_to_cstring spec_obj =
     bnd (gets (\<lambda>c. typeof c spec_obj)) (\<lambda>t.
     sq (if t \<noteq> FE_TSTRING \<and> t \<noteq> FE_TSYMBOL then bnd (checktype spec_obj FE_TSTRING) (\<lambda>_. ret ()) else ret ())
     (bnd (fe_strlen spec_obj) (\<lambda>len. bnd (lift_st (tracked_alloc (of_nat (len + 1)))) (\<lambda>b. case b of
        None \<Rightarrow> memory_error ''out of memory (module spec)''
      | Some sz \<Rightarrow>
          bnd (if t = FE_TSTRING then fe_string_contains_nul spec_obj else ret False) (\<lambda>nul.
          if nul then sq (modify (tracked_free (Some sz))) (fe_error ''import: strings containing NUL bytes are not allowed'')
          else bnd (fe_tostring 2 spec_obj (c_int (int len) + 1)) (\<lambda>(s, _).
            if len > 0 \<and> (length s < len \<or> CHR 0x00 \<in> set (take len s)) then
              sq (modify (tracked_free (Some sz))) (fe_error ''import: strings containing NUL bytes are not allowed'')
            else if path_contains_dotdot s then
              sq (modify (tracked_free (Some sz)))
                (fe_error (''import: '' @ [CHR 0x27] @ ''..'' @ [CHR 0x27] @ '' path components are not allowed in import specifiers''))
            else ret (s, sz)))))))"

section \<open>Importing\<close>

definition drop_array :: "str_array \<Rightarrow> unit fcomp" where
  "drop_array a = bnd (string_array_clear a) (\<lambda>_. ret ())"

definition pop_loading :: "unit fcomp" where
  "pop_loading = bnd (gets loading_modules) (\<lambda>a. bnd (string_array_pop a) (\<lambda>a.
     modify (\<lambda>c. c\<lparr>loading_modules := a\<rparr>)))"

text \<open>The packages above the module are imported first when they exist; \<open>oom\<close> is the exit without memory.\<close>

primrec import_prefixes :: "(cstr \<Rightarrow> bool \<Rightarrow> ptr option fcomp) \<Rightarrow> unit fcomp \<Rightarrow> string list \<Rightarrow> nat list \<Rightarrow> unit fcomp" where
  "import_prefixes rec oom segments [] = ret ()"
| "import_prefixes rec oom segments (i # is') =
     bnd (join_module_segments (take i segments) (CHR ''/'')) (\<lambda>prefix_spec. case prefix_spec of
       None \<Rightarrow> oom
     | Some p \<Rightarrow> bnd (rec p True) (\<lambda>_. import_prefixes rec oom segments is'))"

text \<open>The state of one import: the specifier, its segments, whether it is relative, the root index.\<close>

record import_frame =
  if_spec :: cstr
  if_segments :: str_array
  if_relative :: bool
  if_gc_save :: nat

definition if_names :: "import_frame \<Rightarrow> string list" where
  "if_names fr = map fst (arr_items (if_segments fr))"

text \<open>The clean-up every exit shares: segments, roots, specifier.\<close>

definition leave_import :: "import_frame \<Rightarrow> unit fcomp" where
  "leave_import fr = sq (drop_array (if_segments fr)) (sq (fe_restoregc (if_gc_save fr)) (free_cstr (Some (if_spec fr))))"

definition bind_module :: "import_frame \<Rightarrow> ptr \<Rightarrow> unit fcomp" where
  "bind_module fr m = bind_imported_module (fst (if_spec fr)) (if_names fr) (if_relative fr) m"

definition module_not_found :: "import_frame \<Rightarrow> bool \<Rightarrow> cstr \<Rightarrow> cstr option \<Rightarrow> ptr option fcomp" where
  "module_not_found fr optional lookup_name searched_paths =
     bnd (resolve_imported_module_value (fst (if_spec fr)) (if_names fr) None) (\<lambda>m. bnd (gets (\<lambda>c. typeof c m)) (\<lambda>t.
       if t = FE_TMAP then
         sq (bind_module fr m) (sq (free_cstr (Some lookup_name)) (sq (free_cstr searched_paths)
         (sq (leave_import fr) (ret (Some m)))))
       else sq (free_cstr (Some lookup_name))
         (if optional then sq (free_cstr searched_paths) (sq (leave_import fr) (ret None))
          else bnd (gets alloc_failure_active) (\<lambda>failed.
            sq (free_cstr searched_paths) (sq (drop_array (if_segments fr)) (sq (free_cstr (Some (if_spec fr)))
              (if failed then memory_error ''out of memory (module path)''
               else fe_error (append_module_search_error 2048 (fst (if_spec fr))
                 (case searched_paths of Some s \<Rightarrow> fst s | None \<Rightarrow> [])))))))))"

definition quoted :: "string \<Rightarrow> string" where
  "quoted s = [CHR 0x27] @ s @ [CHR 0x27]"

text \<open>What follows the run of the file: its status, result and error record are given.\<close>

definition finish_import ::
  "import_frame \<Rightarrow> bool \<Rightarrow> cstr \<Rightarrow> ptr \<Rightarrow> FexStatus \<times> ptr option \<times> FexError \<Rightarrow> ptr option fcomp" where
  "finish_import fr try_active path implicit_exports outcome = (case outcome of (status, result, err) \<Rightarrow>
     if status \<noteq> FEX_STATUS_OK then
       sq pop_loading (sq (free_cstr (Some path)) (sq (leave_import fr)
         (if try_active then throw (Raised err) else fe_error (err_message err))))
     else case result of
       None \<Rightarrow> sq pop_loading (sq (free_cstr (Some path)) (sq (leave_import fr) (fe_error ''failed to import module'')))
     | Some r \<Rightarrow> sq (fe_pushgc r) (sq pop_loading
         (bnd (fe_map_count implicit_exports) (\<lambda>count.
          bnd (if count > 0 then ret implicit_exports
               else bnd (resolve_imported_module_value (fst (if_spec fr)) (if_names fr) None) (\<lambda>m.
                 gets (\<lambda>c. if typeof c m \<noteq> FE_TMAP then implicit_exports else m))) (\<lambda>m.
          sq (fe_pushgc m) (bnd (gets (\<lambda>c. typeof c m)) (\<lambda>t.
            if t \<noteq> FE_TMAP then
              sq (free_cstr (Some path)) (sq (leave_import fr)
                (fe_error (snprintf_buf 2048 (''module '' @ quoted (fst (if_spec fr)) @ '' did not produce a module value''))))
            else sq (bind_module fr m) (bnd (module_cache_push_owned path m) (\<lambda>ok.
              if ok then sq (leave_import fr) (ret (Some m))
              else sq (free_cstr (Some path)) (sq (leave_import fr) (memory_error ''out of memory (module cache)'')))))))))))"

text \<open>The path is noted in \<^verbatim>\<open>loading_modules\<close>, and the file is run in a try scope of its own.\<close>

definition load_file ::
  "os_files \<Rightarrow> nat \<Rightarrow> (ptr \<Rightarrow> ptr fcomp) \<Rightarrow> bool \<Rightarrow> import_frame \<Rightarrow> cstr \<Rightarrow> str_array \<Rightarrow> ptr option fcomp" where
  "load_file fs n run try_active fr path loading =
     bnd (string_array_push_copy (fst path) loading) (\<lambda>r. case r of
       None \<Rightarrow> sq (free_cstr (Some path)) (sq (leave_import fr) (memory_error ''out of memory (import state)''))
     | Some loading \<Rightarrow> sq (modify (\<lambda>c. c\<lparr>loading_modules := loading\<rparr>))
         (bnd fe_map (\<lambda>implicit_exports. sq (fe_pushgc implicit_exports)
         (bnd (fex_try_run_internal n (do_file_common fs n run True (fst path) (Some implicit_exports)) (fst path) False)
           (finish_import fr try_active path implicit_exports)))))"

text \<open>A module that is not cached must not be under way already.\<close>

definition load_module ::
  "os_files \<Rightarrow> nat \<Rightarrow> (ptr \<Rightarrow> ptr fcomp) \<Rightarrow> bool \<Rightarrow> import_frame \<Rightarrow> cstr \<Rightarrow> ptr option fcomp" where
  "load_module fs n run try_active fr path =
     bnd (gets loading_modules) (\<lambda>loading. bnd (string_array_contains (fst path) loading) (\<lambda>cyclic.
       if cyclic then
         sq (free_cstr (Some path)) (sq (leave_import fr)
           (fe_error (snprintf_buf 2048 (''cyclic import detected for module '' @ quoted (fst (if_spec fr))))))
       else load_file fs n run try_active fr path loading))"

definition import_resolved ::
  "os_files \<Rightarrow> nat \<Rightarrow> (ptr \<Rightarrow> ptr fcomp) \<Rightarrow> bool \<Rightarrow> import_frame \<Rightarrow> bool \<Rightarrow> cstr \<Rightarrow> ptr option fcomp" where
  "import_resolved fs n run try_active fr optional lookup_name =
     bnd (resolve_module_file fs (fst lookup_name) (\<not> optional)) (\<lambda>(module_path, searched_paths). case module_path of
       None \<Rightarrow> module_not_found fr optional lookup_name searched_paths
     | Some path \<Rightarrow> sq (free_cstr (Some lookup_name))
         (bnd (module_cache_get (fst path)) (\<lambda>m. bnd (gets (\<lambda>c. typeof c m)) (\<lambda>t.
           if t = FE_TMAP then
             sq (free_cstr (Some path)) (sq (bind_module fr m) (sq (leave_import fr) (ret (Some m))))
           else load_module fs n run try_active fr path))))"

text \<open>\<open>rec\<close> imports a prefix.\<close>

definition import_segments_of ::
  "os_files \<Rightarrow> nat \<Rightarrow> (ptr \<Rightarrow> ptr fcomp) \<Rightarrow> bool \<Rightarrow> (cstr \<Rightarrow> bool \<Rightarrow> ptr option fcomp) \<Rightarrow> import_frame \<Rightarrow> bool \<Rightarrow> cstr \<Rightarrow>
     ptr option fcomp" where
  "import_segments_of fs n run try_active rec fr optional lookup_name =
     sq (if \<not> if_relative fr \<and> length (if_names fr) > 1 then
           import_prefixes rec
             (sq (free_cstr (Some lookup_name)) (sq (drop_array (if_segments fr)) (sq (free_cstr (Some (if_spec fr)))
               (memory_error ''out of memory (module prefix)''))))
             (if_names fr) [1..<length (if_names fr)]
         else ret ())
     (import_resolved fs n run try_active fr optional lookup_name)"

text \<open>\<open>m\<close> bounds the nesting of prefixes; a prefix is shorter than its specifier.\<close>

primrec import_module_spec ::
  "os_files \<Rightarrow> nat \<Rightarrow> (ptr \<Rightarrow> ptr fcomp) \<Rightarrow> bool \<Rightarrow> fe_err \<Rightarrow> nat \<Rightarrow> cstr \<Rightarrow> bool \<Rightarrow> ptr option fcomp" where
  "import_module_spec fs n run try_active stop 0 module_spec optional = throw stop"
| "import_module_spec fs n run try_active stop (Suc m) module_spec optional =
     bnd fe_savegc (\<lambda>gc_save. bnd (module_spec_to_lookup_name (fst module_spec)) (\<lambda>lookup_name. case lookup_name of
       None \<Rightarrow> sq (free_cstr (Some module_spec)) (memory_error ''out of memory (module lookup)'')
     | Some name \<Rightarrow> bnd (split_module_spec_segments (fst module_spec)) (\<lambda>segments. case segments of
         None \<Rightarrow> sq (free_cstr (Some name)) (sq (free_cstr (Some module_spec)) (memory_error ''out of memory (module segments)''))
       | Some segs \<Rightarrow> import_segments_of fs n run try_active (import_module_spec fs n run try_active stop m)
           \<lparr>if_spec = module_spec, if_segments = segs, if_relative = module_spec_is_relative (fst module_spec),
            if_gc_save = gc_save\<rparr> optional name)))"

text \<open>
  The import of a module from a running program. The files are evaluated with the same host, in which
  a nested import has one level less; \<open>stop\<close> is raised when no level is left. The result of an import
  that is not optional is never NULL.
\<close>

primrec import_module ::
  "os_files \<Rightarrow> host \<Rightarrow> nat \<Rightarrow> nat \<Rightarrow> fe_err \<Rightarrow> nat \<Rightarrow> bool \<Rightarrow> ptr \<Rightarrow> ptr fcomp" where
  "import_module fs hs k n stop 0 try_active spec_obj = throw stop"
| "import_module fs hs k n stop (Suc d) try_active spec_obj =
     bnd (import_spec_to_cstring spec_obj) (\<lambda>module_spec.
     bnd (import_module_spec fs n (fe_eval (hs\<lparr>host_import := import_module fs hs k n stop d True\<rparr>) k n) try_active
            stop (Suc (length (fst module_spec))) module_spec False)
       (or_crash))"

text \<open>The runtime as a whole: evaluation with \<open>d\<close> levels of nested imports.\<close>

definition program_host :: "os_files \<Rightarrow> host \<Rightarrow> nat \<Rightarrow> nat \<Rightarrow> fe_err \<Rightarrow> nat \<Rightarrow> bool \<Rightarrow> host" where
  "program_host fs hs k n stop d try_active = hs\<lparr>host_import := import_module fs hs k n stop d try_active\<rparr>"

section \<open>What the parts of an import answer\<close>

text \<open>The names module files can have: the canonical names of files that can be opened.\<close>

definition module_files :: "os_files \<Rightarrow> string set" where
  "module_files fs = canonical fs ` {p. file_readable fs p}"

lemma resolved_file:
  assumes "resolve_module_file fs name report c = (Inr (Some p, txt'), c')"
  shows "fst p \<in> module_files fs"
proof -
  from assms obtain st s c1 where
    run: "resolve_search fs name (if report then Some empty_array else None) c = (Inr (st, Some p, s), c1)"
    unfolding resolve_module_file_def by (auto elim!: bnd_InrE simp: Let_def ret_def split: if_splits)
  have "search_answer fs (search_candidates c name) (if report then Some empty_array else None) (st, Some p, s) c1"
    by (rule wpD [OF resolve_search_answer run])
  then show ?thesis by (auto simp: search_answer_def module_files_def find_Some_iff)
qed

lemma contains_answer:
  "string_array_contains v a c = (Inr b, c') \<Longrightarrow> b \<longleftrightarrow> v \<in> fst ` set (arr_items a)"
proof -
  have "find_cstr v i k xs s = (Inr r, s') \<Longrightarrow> (r \<noteq> None) = (v \<in> fst ` set xs)" for i k r and xs :: "cstr list" and s s'
    by (induction xs arbitrary: i k s) (auto simp: ret_def elim!: bnd_InrE split: if_splits, force+)
  note found = this
  assume "string_array_contains v a c = (Inr b, c')"
  then obtain r where "find_cstr v 0 FE_IO_ABORT_CHECK_INTERVAL (arr_items a) c = (Inr r, c')" "b \<longleftrightarrow> r \<noteq> None"
    by (auto simp: string_array_contains_def ret_def elim!: bnd_InrE)
  with found show "b \<longleftrightarrow> v \<in> fst ` set (arr_items a)" by blast
qed

lemma push_copy_answer:
  "string_array_push_copy v a c = (Inr (Some a'), c') \<Longrightarrow> \<exists>sz. arr_items a' = arr_items a @ [(v, sz)]"
  by (auto simp: string_array_push_copy_def string_array_push_owned_def dup_cstring_def ret_def sq_def
      elim!: bnd_InrE dest!: ensure_string_array_items split: option.splits if_splits)

section \<open>Prefixes are shorter\<close>

text \<open>The segments of a specifier with a separator each, as characters.\<close>

definition seg_chars :: "str_array \<Rightarrow> nat" where
  "seg_chars a = (\<Sum>s \<leftarrow> arr_items a. Suc (length (fst s)))"

lemma push_segment_chars:
  assumes "push_segment b seg len a c = (Inr (Some a'), c')" "len \<le> length seg"
  shows "seg_chars a' \<le> seg_chars a + Suc len"
proof (cases "len > 0 \<and> \<not> (b \<and> take len seg = ''.'') \<and> \<not> (b \<and> take len seg = ''..'')")
  case True
  with assms(1) obtain a1 c1 where p: "string_array_push_copy seg a c = (Inr (Some a1), c1)"
    and a': "a' = a1\<lparr>arr_items := butlast (arr_items a1) @ [(take len seg, snd (last (arr_items a1)))]\<rparr>"
    by (auto simp: push_segment_def ret_def elim!: bnd_InrE split: option.splits)
  from push_copy_answer [OF p] a' assms(2) show ?thesis by (auto simp: seg_chars_def)
next
  case False
  with assms(1) show ?thesis by (auto simp: push_segment_def ret_def)
qed

lemma split_loop_chars:
  assumes "split_loop b k seg len ps a c = (Inr (Some a'), c')" "length seg = len + length ps"
  shows "seg_chars a' \<le> seg_chars a + Suc (len + length ps)"
  using assms
proof (induction ps arbitrary: k seg len a c)
  case Nil
  then show ?case using push_segment_chars [of b seg len a c a' c'] by simp
next
  case (Cons p ps)
  from Cons.prems(1) obtain k' c1 where r:
    "(if (if b then is_path_separator p else p = CHR ''.'') then
        bnd (push_segment b seg len a) (\<lambda>r. case r of None \<Rightarrow> ret None | Some a \<Rightarrow> split_loop b k' ps 0 ps a)
      else split_loop b k' seg (Suc len) ps a) c1 = (Inr (Some a'), c')"
    by (auto simp: fe_error_def elim!: bnd_InrE split: option.splits)
  show ?case
  proof (cases "if b then is_path_separator p else p = CHR ''.''")
    case True
    from r [unfolded if_P [OF True]] obtain a1 c2 where q: "push_segment b seg len a c1 = (Inr (Some a1), c2)"
      and l: "split_loop b k' ps 0 ps a1 c2 = (Inr (Some a'), c')"
      by (auto simp: ret_def elim!: bnd_InrE split: option.splits)
    from push_segment_chars [OF q] Cons.IH [OF l] Cons.prems(2) show ?thesis by simp
  next
    case False
    from Cons.IH [OF r [unfolded if_not_P [OF False]]] Cons.prems(2) show ?thesis by simp
  qed
qed

lemma split_chars:
  assumes "split_module_spec_segments spec c = (Inr (Some a), c')"
  shows "seg_chars a \<le> Suc (length spec)"
proof (cases "spec = []")
  case True
  with assms show ?thesis by (auto simp: split_module_spec_segments_def ret_def empty_array_def seg_chars_def)
next
  case False
  with assms have "split_loop (module_spec_uses_path_mode spec) FE_IO_ABORT_CHECK_INTERVAL spec 0 spec empty_array c = (Inr (Some a), c')"
    by (simp add: split_module_spec_segments_def)
  from split_loop_chars [OF this] show ?thesis by (simp add: seg_chars_def empty_array_def)
qed

lemma intercalate_length: "ss \<noteq> [] \<Longrightarrow> Suc (length (intercalate x ss)) = (\<Sum>s \<leftarrow> ss. Suc (length s))"
  by (induction x ss rule: intercalate.induct) auto

lemma prefix_shorter:
  assumes "seg_chars a \<le> Suc (length spec)" "0 < i" "i < length (arr_items a)"
  shows "length (intercalate x (take i (map fst (arr_items a)))) < length spec"
proof -
  let ?ss = "map fst (arr_items a)"
  have ne: "take i ?ss \<noteq> []" "drop i ?ss \<noteq> []" using assms(2,3) by auto
  have "seg_chars a = (\<Sum>s \<leftarrow> take i ?ss @ drop i ?ss. Suc (length s))"
    unfolding append_take_drop_id by (simp add: seg_chars_def o_def)
  also have "\<dots> = Suc (length (intercalate x (take i ?ss))) + (\<Sum>s \<leftarrow> drop i ?ss. Suc (length s))"
    unfolding map_append sum_list_append intercalate_length [OF ne(1), of x] ..
  finally have "seg_chars a > Suc (length (intercalate x (take i ?ss)))"
    using ne(2) by (cases "drop i ?ss") simp_all
  with assms(1) show ?thesis by simp
qed

section \<open>Two runs of a file\<close>

lemma ctl_import [ctl_rules]:
  "ctl_kept (drop_array a)" "ctl_kept (leave_import fr)" "ctl_kept (bind_module fr m)" "ctl_kept pop_source_buffer"
  "ctl_kept (push_exports x)" "ctl_kept pop_exports" "ctl_kept (module_not_found fr opt name txt')"
proof -
  show d: "ctl_kept (drop_array a)" for a unfolding drop_array_def by (intro ctl_rules)
  show l: "ctl_kept (leave_import fr)" for fr unfolding leave_import_def by (intro ctl_rules d)
  show b: "ctl_kept (bind_module fr m)" for fr m unfolding bind_module_def by (intro ctl_rules)
  show "ctl_kept pop_source_buffer" "ctl_kept (push_exports x)" "ctl_kept pop_exports"
    unfolding pop_source_buffer_def push_exports_def pop_exports_def by (intro ctl_rules; simp add: ctl_def)+
  show "ctl_kept (module_not_found fr opt name txt')"
    unfolding module_not_found_def by (intro ctl_rules d l b)
qed

text \<open>The relation of the evaluator for computations that may also raise compile and input errors.\<close>

definition rsim :: "evc \<Rightarrow> 'a runner \<Rightarrow> 'a runner \<Rightarrow> bool" where
  "rsim e m m' \<longleftrightarrow> (\<forall>c. evctl c = e \<longrightarrow> m c = m' c \<and> (\<forall>x c'. m c = (Inr x, c') \<longrightarrow> evctl c' = e))"

named_theorems rsim_rules \<open>structural rules for runs\<close>

lemma evctl_ctl: "ctl c' = ctl c \<Longrightarrow> evctl c' = evctl c"
  by (simp add: evctl_def ctl_def)

lemma rsim_kept:
  assumes "runner_kept m" shows "rsim e m m"
proof -
  have "evctl c' = evctl c" if "m c = (Inr x, c')" for c x c'
    using oksD [OF assms that] unfolding fixes_field_def by (rule evctl_ctl)
  then show ?thesis unfolding rsim_def by metis
qed

lemma rsim_on_rt [rsim_rules]:
  assumes "sim e False m m'" shows "rsim e (on_rt m) (on_rt m')"
  unfolding rsim_def
proof (intro allI impI)
  fix c
  assume "evctl c = e"
  with assms have "m' c = m c" "\<And>x c'. m c = (Inr x, c') \<Longrightarrow> evctl c' = e" by (simp_all add: sim_def)
  then show "on_rt m c = on_rt m' c \<and> (\<forall>x c'. on_rt m c = (Inr x, c') \<longrightarrow> evctl c' = e)"
    by (simp add: on_rt_def split: prod.split sum.split)
qed

lemma rsim_bnd [rsim_rules]:
  assumes m: "rsim e m m'" and f: "\<And>x. rsim e (f x) (f' x)"
  shows "rsim e (bnd m f) (bnd m' f')"
  unfolding rsim_def
proof (intro allI impI)
  fix c
  assume c: "evctl c = e"
  have eq: "m' c = m c" and kept: "\<And>x c'. m c = (Inr x, c') \<Longrightarrow> evctl c' = e"
    using m c unfolding rsim_def by metis+
  obtain r d where rd: "m c = (r, d)" by fastforce
  show "bnd m f c = bnd m' f' c \<and> (\<forall>x c'. bnd m f c = (Inr x, c') \<longrightarrow> evctl c' = e)"
  proof (cases r)
    case (Inl err)
    with rd eq show ?thesis by (simp add: bnd_def)
  next
    case (Inr x)
    with kept rd have "evctl d = e" by simp
    with f [of x] rd Inr eq show ?thesis by (simp add: rsim_def bnd_def)
  qed
qed

lemma rsim_sq [rsim_rules]: "rsim e m m' \<Longrightarrow> rsim e n n' \<Longrightarrow> rsim e (sq m n) (sq m' n')"
  unfolding sq_def by (rule rsim_bnd)

lemma rsim_if [rsim_rules]:
  "(p \<Longrightarrow> rsim e m m') \<Longrightarrow> (\<not> p \<Longrightarrow> rsim e n n') \<Longrightarrow> rsim e (if p then m else n) (if p then m' else n')"
  by simp

lemma rsim_option [rsim_rules]:
  "rsim e m m' \<Longrightarrow> (\<And>x. rsim e (f x) (f' x)) \<Longrightarrow>
   rsim e (case z of None \<Rightarrow> m | Some x \<Rightarrow> f x) (case z of None \<Rightarrow> m' | Some x \<Rightarrow> f' x)"
  by (cases z) simp_all

lemma rsim_basic [rsim_rules]: "rsim e (ret x) (ret x)" "rsim e (gets g) (gets g)" "rsim e (throw y) (throw y)"
  "rsim e (compile_runner n ta source name) (compile_runner n ta source name)"
proof -
  show "rsim e (compile_runner n ta source name) (compile_runner n ta source name)"
    by (rule rsim_kept [OF compile_runner_kept])
qed (simp_all add: rsim_def ret_def gets_def throw_def)

lemma rsim_modify [rsim_rules]: "(\<And>c. evctl (g c) = evctl c) \<Longrightarrow> rsim e (modify g) (modify g)"
  by (simp add: rsim_def modify_def)

lemma rsim_do_string:
  assumes "\<And>code. sim e False (run code) (run' code)"
  shows "rsim e (fex_do_string_named n run ta source name) (fex_do_string_named n run' ta source name)"
  unfolding fex_do_string_named_def by (intro rsim_rules assms sim_ctl ctl_rules)

lemma rsim_do_file:
  assumes "\<And>code. sim e False (run code) (run' code)"
  shows "rsim e (do_file_common fs n run ta path x) (do_file_common fs n run' ta path x)"
  unfolding do_file_common_def
  by (intro rsim_rules rsim_do_string assms sim_ctl ctl_rules; simp add: evctl_def)

lemma ctl_leave_try [ctl_rules]: "ctl_kept (leave_try_scope scopes temps gc)"
proof -
  have f: "ctl ((tracked_free b ^^ k) c) = ctl c" for b k c by (induction k) simp_all
  have g: "ctl (fold (\<lambda>sz. tracked_free (Some sz)) l c) = ctl c" for l c by (induction l arbitrary: c) simp_all
  have u: "ctl (c\<lparr>compile_scopes := x\<rparr>) = ctl c" "ctl (c\<lparr>temp_allocs := y\<rparr>) = ctl c" for c x y
    by (simp_all add: ctl_def)
  show ?thesis
    unfolding leave_try_scope_def leave_scopes_to_def fex_try_scope_free_temps_def Let_def
    by (intro ctl_rules; simp add: f g u)
qed

text \<open>A run in a try scope of its own: when it succeeds, the control state is kept.\<close>

lemma try_run_sim:
  assumes "rsim e fn fn'" "evctl c = e"
  shows "fex_try_run_internal n fn name keep c = fex_try_run_internal n fn' name keep c"
    and "fex_try_run_internal n fn name keep c = (Inr (FEX_STATUS_OK, res, err), c') \<Longrightarrow> evctl c' = e"
proof -
  have eq: "fn' c = fn c" and kept: "\<And>x c'. fn c = (Inr x, c') \<Longrightarrow> evctl c' = e"
    using assms by (auto simp: rsim_def)
  show "fex_try_run_internal n fn name keep c = fex_try_run_internal n fn' name keep c"
    by (simp add: fex_try_run_internal_def eq)
  assume run: "fex_try_run_internal n fn name keep c = (Inr (FEX_STATUS_OK, res, err), c')"
  obtain r c1 where r: "fn c = (r, c1)" by fastforce
  have bad: False if "sq (leave_try_scope a b g) (sq fex_reset_import_state (ret (st, None, x))) d =
      (Inr (FEX_STATUS_OK, res, err), c')" "st \<noteq> FEX_STATUS_OK" for a b g st x d
    using that by (auto simp: sq_def ret_def elim!: bnd_InrE)
  show "evctl c' = e"
  proof (cases r)
    case (Inr x)
    with run r obtain g where
      "sq (leave_try_scope (compile_scopes c) (length (temp_allocs c)) g) (ret (FEX_STATUS_OK, x, fex_error_clear)) c1 =
        (Inr (FEX_STATUS_OK, res, err), c')"
      by (auto simp: fex_try_run_internal_def Let_def)
    then have "leave_try_scope (compile_scopes c) (length (temp_allocs c)) g c1 = (Inr (), c')"
      by (auto simp: sq_def ret_def elim!: bnd_InrE)
    from oksD [OF ctl_leave_try this] kept r Inr show ?thesis by (auto simp: fixes_field_def dest: evctl_ctl)
  next
    case (Inl x)
    have "err_status (received_error name y) \<noteq> FEX_STATUS_OK" for y by (simp add: received_error_def Let_def)
    note received = this
    show ?thesis
    proof (cases x)
      case (RtError y)
      show ?thesis
      proof (cases y)
        case (FeError msg cl)
        with run r Inl RtError obtain z d where "fex_try_on_error n name msg cl c1 = (Inr z, d)"
          and f: "sq (leave_try_scope (compile_scopes c) (length (temp_allocs c)) (length (gcstack c)))
            (sq fex_reset_import_state (ret (err_status z, None, z))) d = (Inr (FEX_STATUS_OK, res, err), c')"
          by (auto simp: fex_try_run_internal_def Let_def elim!: bnd_InrE)
        then have "err_status z \<noteq> FEX_STATUS_OK" using on_error_fits unfolding yields_def by fastforce
        with bad [OF f] show ?thesis by blast
      next
        case (Raised z)
        with run r Inl RtError have "sq (leave_try_scope (compile_scopes c) (length (temp_allocs c)) (length (gcstack c)))
            (sq fex_reset_import_state (ret (err_status (received_error name z), None, received_error name z))) c1 =
              (Inr (FEX_STATUS_OK, res, err), c')"
          by (simp add: fex_try_run_internal_def Let_def)
        from bad [OF this received] show ?thesis ..
      qed (use run r Inl RtError in \<open>simp_all add: fex_try_run_internal_def Let_def\<close>)
    qed (use run r Inl in \<open>simp_all add: fex_try_run_internal_def Let_def, auto dest!: bad\<close>)
  qed
qed

section \<open>Nested imports\<close>

lemma sim_to_bnd_if:
  assumes m: "sim_to e1 e2 False m m'"
    and Q: "\<And>c x c'. evctl c = e1 \<Longrightarrow> m c = (Inr x, c') \<Longrightarrow> Q x"
    and f: "\<And>x. Q x \<Longrightarrow> sim_to e2 e3 False (f x) (f' x)"
  shows "sim_to e1 e3 False (bnd m f) (bnd m' f')"
  unfolding sim_to_def
proof (intro allI impI disjI2)
  fix c
  assume c: "evctl c = e1"
  have eq: "m' c = m c" and kept: "\<And>x c'. m c = (Inr x, c') \<Longrightarrow> evctl c' = e2"
    using m c unfolding sim_to_def by metis+
  obtain r d where rd: "m c = (r, d)" by fastforce
  show "bnd m f c = bnd m' f' c \<and> (\<forall>x c'. bnd m f c = (Inr x, c') \<longrightarrow> evctl c' = e3)"
  proof (cases r)
    case (Inl err)
    with rd eq show ?thesis by (simp add: bnd_def)
  next
    case (Inr x)
    with kept rd have "evctl d = e2" by simp
    with f [OF Q [OF c]] rd Inr eq show ?thesis by (simp add: sim_to_def bnd_def)
  qed
qed

lemma leads_pop_loading: "leads (cl, d, n, m, L @ [p]) (cl, d, n, m, L) pop_loading"
  unfolding leads_def
proof (intro allI impI)
  fix c x c'
  assume c: "evctl c = (cl, d, n, m, L @ [p])" and run: "pop_loading c = (Inr x, c')"
  obtain a c1 where pop: "string_array_pop (loading_modules c) c = (Inr a, c1)" and c': "c' = c1\<lparr>loading_modules := a\<rparr>"
    using run by (auto simp: pop_loading_def bnd_gets modify_def elim!: bnd_InrE)
  have "ctl c1 = ctl c" using oksD [OF ctl_arrays(6) pop] by (simp add: fixes_field_def)
  then have "evctl c1 = evctl c" by (rule evctl_ctl)
  moreover have "arr_items a = L"
    using pop c by (auto simp: string_array_pop_def sq_def ret_def evctl_def elim!: bnd_InrE)
  ultimately show "evctl c' = (cl, d, n, m, L)" using c c' by (simp add: evctl_def)
qed

lemma sim_to_error: "sim_to e e' b (fe_error msg) (fe_error msg)" "sim_to e e' b (memory_error msg) (memory_error msg)"
  by (simp_all add: sim_to_def fe_error_def memory_error_def)

text \<open>After a failed run the import does not return; after a successful one the file is no longer being loaded.\<close>

lemma finish_failed:
  assumes "status \<noteq> FEX_STATUS_OK"
  shows "finish_import fr ta path x (status, res, err) c \<noteq> (Inr y, c')"
proof
  assume "finish_import fr ta path x (status, res, err) c = (Inr y, c')"
  with assms show False
    by (auto simp: finish_import_def sq_def throw_def fe_error_def elim!: bnd_InrE split: if_splits)
qed

lemma finish_ok:
  "sim_to (cl, d, n, m, L @ [p]) (cl, d, n, m, L) False (finish_import fr ta path x (FEX_STATUS_OK, res, err))
     (finish_import fr ta path x (FEX_STATUS_OK, res, err))"
proof -
  note pop = sim_to_refl [OF leads_pop_loading]
  have "sim_to (cl, d, n, m, L @ [p]) (cl, d, n, m, L) False (sq pop_loading r) (sq pop_loading r)"
    if "ctl_kept r" for r :: "ptr option fcomp"
    by (rule sim_to_sq [OF pop sim_to_ctl [OF that]])
  note popped = this
  show ?thesis
  proof (cases res)
    case None
    then show ?thesis unfolding finish_import_def by (simp, intro popped ctl_rules)
  next
    case (Some r)
    show ?thesis unfolding finish_import_def Some
      by (simp, rule sim_to_sq [OF sim_to_ctl popped]; intro ctl_rules)
  qed
qed

lemma sim_to_try_finish:
  assumes "rsim (cl, d, n, m, L @ [p]) fn fn'"
  shows "sim_to (cl, d, n, m, L @ [p]) (cl, d, n, m, L) False
    (bnd (fex_try_run_internal k fn name keep) (finish_import fr ta path x))
    (bnd (fex_try_run_internal k fn' name keep) (finish_import fr ta path x))"
  unfolding sim_to_def
proof (intro allI impI disjI2 conjI)
  fix c
  assume c: "evctl c = (cl, d, n, m, L @ [p])"
  note eq = try_run_sim(1) [OF assms c, of k name keep]
  show "bnd (fex_try_run_internal k fn name keep) (finish_import fr ta path x) c =
      bnd (fex_try_run_internal k fn' name keep) (finish_import fr ta path x) c"
    by (simp add: bnd_def eq)
  fix y c'
  assume "bnd (fex_try_run_internal k fn name keep) (finish_import fr ta path x) c = (Inr y, c')"
  then obtain st res err c1 where run: "fex_try_run_internal k fn name keep c = (Inr (st, res, err), c1)"
    and fin: "finish_import fr ta path x (st, res, err) c1 = (Inr y, c')"
    by (auto elim!: bnd_InrE)
  have ok: "st = FEX_STATUS_OK" using finish_failed fin by blast
  with try_run_sim(2) [OF assms c] run have "evctl c1 = (cl, d, n, m, L @ [p])" by simp
  then show "evctl c' = (cl, d, n, m, L)"
    using finish_ok [of cl d n m L p fr ta path x res err] fin ok by (auto simp: sim_to_def)
qed

lemma sim_load_file:
  assumes run: "\<And>sz code. sim (cl, d, n, m, L @ [(fst path, sz)]) False (run code) (run' code)"
    and L: "arr_items loading = L"
  shows "sim_to (cl, d, n, m, L) (cl, d, n, m, L) False (load_file fs k run ta fr path loading)
    (load_file fs k run' ta fr path loading)"
  unfolding load_file_def
proof (rule sim_to_bnd_if [where Q = "\<lambda>r. case r of None \<Rightarrow> True | Some a \<Rightarrow> \<exists>sz. arr_items a = L @ [(fst path, sz)]"])
  let ?e = "(cl, d, n, m, L)"
  show "sim_to ?e ?e False (string_array_push_copy (fst path) loading) (string_array_push_copy (fst path) loading)"
    by (intro sim_to_ctl ctl_rules)
  show "case r of None \<Rightarrow> True | Some a \<Rightarrow> \<exists>sz. arr_items a = L @ [(fst path, sz)]"
    if "string_array_push_copy (fst path) loading c0 = (Inr r, c1)" for c0 and r :: "str_array option" and c1
    using that push_copy_answer [of "fst path" loading c0 _ c1] by (auto simp: L split: option.split)
  fix r :: "str_array option"
  assume r: "case r of None \<Rightarrow> True | Some a \<Rightarrow> \<exists>sz. arr_items a = L @ [(fst path, sz)]"
  show "sim_to ?e ?e False (case r of
       None \<Rightarrow> sq (free_cstr (Some path)) (sq (leave_import fr) (memory_error ''out of memory (import state)''))
     | Some loading \<Rightarrow> sq (modify (\<lambda>c. c\<lparr>loading_modules := loading\<rparr>))
         (bnd fe_map (\<lambda>implicit_exports. sq (fe_pushgc implicit_exports)
         (bnd (fex_try_run_internal k (do_file_common fs k run True (fst path) (Some implicit_exports)) (fst path) False)
           (finish_import fr ta path implicit_exports)))))
     (case r of
       None \<Rightarrow> sq (free_cstr (Some path)) (sq (leave_import fr) (memory_error ''out of memory (import state)''))
     | Some loading \<Rightarrow> sq (modify (\<lambda>c. c\<lparr>loading_modules := loading\<rparr>))
         (bnd fe_map (\<lambda>implicit_exports. sq (fe_pushgc implicit_exports)
         (bnd (fex_try_run_internal k (do_file_common fs k run' True (fst path) (Some implicit_exports)) (fst path) False)
           (finish_import fr ta path implicit_exports)))))"
  proof (cases r)
    case None
    then show ?thesis by (simp, intro sim_to_ctl ctl_rules)
  next
    case (Some a)
    with r obtain sz where a: "arr_items a = L @ [(fst path, sz)]" by auto
    let ?e1 = "(cl, d, n, m, L @ [(fst path, sz)])"
    have "sim_to ?e ?e1 False (modify (\<lambda>c. c\<lparr>loading_modules := a\<rparr>)) (modify (\<lambda>c. c\<lparr>loading_modules := a\<rparr>))"
      by (auto simp: sim_to_def modify_def evctl_def a)
    moreover have "sim_to ?e1 ?e1 False fe_map fe_map" "sim_to ?e1 ?e1 False (fe_pushgc x) (fe_pushgc x)" for x
      by (intro sim_to_ctl ctl_rules)+
    moreover have "rsim ?e1 (do_file_common fs k run True (fst path) (Some x)) (do_file_common fs k run' True (fst path) (Some x))" for x
      by (rule rsim_do_file [OF run])
    ultimately show ?thesis unfolding Some option.case
      by - (rule sim_to_sq, assumption, rule sim_to_bnd, assumption, rule sim_to_sq, assumption, rule sim_to_try_finish)
  qed
qed

lemma sim_load_module:
  assumes run: "\<And>sz code. fst path \<notin> fst ` set L \<Longrightarrow>
      sim (cl, d, n, m, L @ [(fst path, sz)]) False (run code) (run' code)"
  shows "sim (cl, d, n, m, L) False (load_module fs k run ta fr path) (load_module fs k run' ta fr path)"
  unfolding load_module_def sim_to_same
proof (rule sim_to_gets, rule sim_to_bnd_if)
  let ?e = "(cl, d, n, m, L)"
  fix c
  assume "evctl c = ?e"
  then have L: "arr_items (loading_modules c) = L" by (simp add: evctl_def)
  show "sim_to ?e ?e False (string_array_contains (fst path) (loading_modules c))
      (string_array_contains (fst path) (loading_modules c))" by (intro sim_to_ctl ctl_rules)
  show "b \<longleftrightarrow> fst path \<in> fst ` set (arr_items (loading_modules c))"
    if "string_array_contains (fst path) (loading_modules c) c0 = (Inr b, c1)" for c0 b c1
    by (rule contains_answer [OF that])
  fix b
  assume b: "b \<longleftrightarrow> fst path \<in> fst ` set (arr_items (loading_modules c))"
  show "sim_to ?e ?e False
     (if b then sq (free_cstr (Some path)) (sq (leave_import fr)
           (fe_error (snprintf_buf 2048 (''cyclic import detected for module '' @ quoted (fst (if_spec fr))))))
       else load_file fs k run ta fr path (loading_modules c))
     (if b then sq (free_cstr (Some path)) (sq (leave_import fr)
           (fe_error (snprintf_buf 2048 (''cyclic import detected for module '' @ quoted (fst (if_spec fr))))))
       else load_file fs k run' ta fr path (loading_modules c))"
  proof (cases b)
    case True
    then show ?thesis by (simp, intro sim_to_ctl ctl_rules)
  next
    case False
    with b L have "fst path \<notin> fst ` set L" by simp
    with sim_load_file [OF run L] False show ?thesis by simp
  qed
qed

text \<open>The evaluators of two runs agree on every file that may still be loaded.\<close>

definition runs_agree :: "os_files \<Rightarrow> evc \<Rightarrow> (ptr \<Rightarrow> ptr fcomp) \<Rightarrow> (ptr \<Rightarrow> ptr fcomp) \<Rightarrow> bool" where
  "runs_agree fs e run run' \<longleftrightarrow> (case e of (cl, d, n, m, L) \<Rightarrow>
     \<forall>p sz code. p \<in> module_files fs - fst ` set L \<longrightarrow> sim (cl, d, n, m, L @ [(p, sz)]) False (run code) (run' code))"

lemma sim_import_resolved:
  assumes "runs_agree fs e run run'"
  shows "sim e False (import_resolved fs k run ta fr opt name) (import_resolved fs k run' ta fr opt name)"
proof -
  obtain cl d n m L where e: "e = (cl, d, n, m, L)" by (cases e)
  have load: "sim e False (load_module fs k run ta fr path) (load_module fs k run' ta fr path)"
    if "fst path \<in> module_files fs" for path
    unfolding e using assms that by (intro sim_load_module) (simp add: runs_agree_def e)
  have rest: "sim e False
     (sq (free_cstr (Some name)) (bnd (module_cache_get (fst path)) (\<lambda>m. bnd (gets (\<lambda>c. typeof c m)) (\<lambda>t.
       if t = FE_TMAP then sq (free_cstr (Some path)) (sq (bind_module fr m) (sq (leave_import fr) (ret (Some m))))
       else load_module fs k run ta fr path))))
     (sq (free_cstr (Some name)) (bnd (module_cache_get (fst path)) (\<lambda>m. bnd (gets (\<lambda>c. typeof c m)) (\<lambda>t.
       if t = FE_TMAP then sq (free_cstr (Some path)) (sq (bind_module fr m) (sq (leave_import fr) (ret (Some m))))
       else load_module fs k run' ta fr path))))" if "fst path \<in> module_files fs" for path
    by (rule sim_sq sim_bnd sim_if load [OF that] | (rule sim_ctl, intro ctl_rules))+
  show ?thesis unfolding import_resolved_def sim_to_same
  proof (rule sim_to_bnd_if [where Q = "\<lambda>r. case fst r of None \<Rightarrow> True | Some p \<Rightarrow> fst p \<in> module_files fs"])
    show "sim_to e e False (resolve_module_file fs (fst name) (\<not> opt)) (resolve_module_file fs (fst name) (\<not> opt))"
      by (intro sim_to_ctl ctl_rules)
    show "case fst r of None \<Rightarrow> True | Some p \<Rightarrow> fst p \<in> module_files fs"
      if "resolve_module_file fs (fst name) (\<not> opt) c = (Inr r, c')" for c r c'
      using that by (cases r) (auto split: option.split dest: resolved_file)
    fix r :: "cstr option \<times> cstr option"
    assume r: "case fst r of None \<Rightarrow> True | Some p \<Rightarrow> fst p \<in> module_files fs"
    have nf: "sim e False (module_not_found fr opt name q) (module_not_found fr opt name q)" for q
      by (intro sim_ctl ctl_rules)
    obtain p q where [simp]: "r = (p, q)" by (cases r)
    show "sim_to e e False
      (case r of (module_path, searched_paths) \<Rightarrow> case module_path of
         None \<Rightarrow> module_not_found fr opt name searched_paths
       | Some path \<Rightarrow> sq (free_cstr (Some name)) (bnd (module_cache_get (fst path)) (\<lambda>m. bnd (gets (\<lambda>c. typeof c m)) (\<lambda>t.
           if t = FE_TMAP then sq (free_cstr (Some path)) (sq (bind_module fr m) (sq (leave_import fr) (ret (Some m))))
           else load_module fs k run ta fr path))))
      (case r of (module_path, searched_paths) \<Rightarrow> case module_path of
         None \<Rightarrow> module_not_found fr opt name searched_paths
       | Some path \<Rightarrow> sq (free_cstr (Some name)) (bnd (module_cache_get (fst path)) (\<lambda>m. bnd (gets (\<lambda>c. typeof c m)) (\<lambda>t.
           if t = FE_TMAP then sq (free_cstr (Some path)) (sq (bind_module fr m) (sq (leave_import fr) (ret (Some m))))
           else load_module fs k run' ta fr path))))"
      using r unfolding sim_to_same [symmetric] by (cases p) (simp_all only: \<open>r = (p, q)\<close> prod.case option.case fst_conv nf rest)
  qed
qed

lemma sim_import_prefixes:
  assumes "\<And>i p. i \<in> set is' \<Longrightarrow> fst p = intercalate (CHR ''/'') (take i ss) \<Longrightarrow> sim e False (rec p True) (rec' p True)"
    and "ctl_kept oom"
  shows "sim e False (import_prefixes rec oom ss is') (import_prefixes rec' oom ss is')"
  using assms(1)
proof (induction is')
  case (Cons i is')
  have "sim_to e e False (case r of None \<Rightarrow> oom | Some p \<Rightarrow> bnd (rec p True) (\<lambda>_. import_prefixes rec oom ss is'))
      (case r of None \<Rightarrow> oom | Some p \<Rightarrow> bnd (rec' p True) (\<lambda>_. import_prefixes rec' oom ss is'))"
    if "case r of None \<Rightarrow> True | Some p \<Rightarrow> fst p = intercalate (CHR ''/'') (take i ss)" for r :: "cstr option"
    using that Cons sim_ctl [OF assms(2)] unfolding sim_to_same [symmetric]
    by (cases r) (auto intro!: sim_bnd)
  moreover have "case r of None \<Rightarrow> True | Some p \<Rightarrow> fst p = intercalate (CHR ''/'') (take i ss)"
    if "join_module_segments (take i ss) (CHR ''/'') c = (Inr r, c')" for c r c'
    using that by (auto simp: join_module_segments_def Let_def ret_def elim!: bnd_InrE split: option.split)
  moreover have "sim_to e e False (join_module_segments (take i ss) (CHR ''/'')) (join_module_segments (take i ss) (CHR ''/''))"
    by (intro sim_to_ctl ctl_rules)
  ultimately show ?case unfolding import_prefixes.simps sim_to_same
    by - (rule sim_to_bnd_if [where Q = "\<lambda>r. case r of None \<Rightarrow> True | Some p \<Rightarrow> fst p = intercalate (CHR ''/'') (take i ss)"])
qed (auto intro: sim_ctl ctl_rules)

lemma sim_import_segments:
  assumes "runs_agree fs e run run'" and "seg_chars (if_segments fr) \<le> Suc k"
    and "\<And>p. length (fst p) < k \<Longrightarrow> sim e False (rec p True) (rec' p True)"
  shows "sim e False (import_segments_of fs n run ta rec fr opt nm) (import_segments_of fs n run' ta rec' fr opt nm)"
proof -
  have "sim e False (rec p True) (rec' p True)"
    if "i \<in> set [1..<length (arr_items (if_segments fr))]"
      "fst p = intercalate (CHR ''/'') (take i (map fst (arr_items (if_segments fr))))" for i p
    using prefix_shorter [of "if_segments fr" "replicate k (CHR ''x'')" i "CHR ''/''"] that assms(2) by (intro assms(3)) simp
  then show ?thesis unfolding import_segments_of_def if_names_def
    by (intro sim_sq sim_if sim_import_prefixes sim_import_resolved assms(1)) (auto intro!: sim_ctl ctl_rules)
qed

lemma sim_import_spec:
  assumes "runs_agree fs e run run'" and "length (fst spec) < j"
  shows "sim e False (import_module_spec fs k run ta stop j spec opt) (import_module_spec fs k run' ta stop' j spec opt)"
  using assms(2)
proof (induction j arbitrary: spec opt)
  case (Suc j)
  let ?fr = "\<lambda>segs g. \<lparr>if_spec = spec, if_segments = segs, if_relative = module_spec_is_relative (fst spec), if_gc_save = g\<rparr>"
  let ?oom = "\<lambda>nm. sq (free_cstr (Some nm)) (sq (free_cstr (Some spec)) (memory_error ''out of memory (module segments)''))"
  let ?body = "\<lambda>run stop g nm segments. case segments of None \<Rightarrow> ?oom nm
     | Some segs \<Rightarrow> import_segments_of fs k run ta (import_module_spec fs k run ta stop j) (?fr segs g) opt nm"
  have oom: "sim e False (?oom nm) (?oom nm)" for nm by (intro sim_ctl ctl_rules)
  have body: "sim e False (?body run stop g nm s) (?body run' stop' g nm s)"
    if "case s of None \<Rightarrow> True | Some a \<Rightarrow> seg_chars a \<le> Suc (length (fst spec))" for g nm and s :: "str_array option"
  proof (cases s)
    case None
    then show ?thesis by (simp only: option.case oom)
  next
    case (Some a)
    with that Suc.prems show ?thesis
      by (simp only: option.case) (rule sim_import_segments [OF assms(1), of _ "length (fst spec)"], simp, rule Suc.IH, simp)
  qed
  have q: "case s of None \<Rightarrow> True | Some a \<Rightarrow> seg_chars a \<le> Suc (length (fst spec))"
    if "split_module_spec_segments (fst spec) c = (Inr s, c')" for c c' and s :: "str_array option"
    using that by (auto split: option.split dest: split_chars)
  have sp: "sim_to e e False (split_module_spec_segments (fst spec)) (split_module_spec_segments (fst spec))"
    by (intro sim_to_ctl ctl_rules)
  note segs = sim_to_bnd_if [OF sp q body [unfolded sim_to_same], folded sim_to_same]
  show ?case unfolding import_module_spec.simps
    by (rule sim_bnd, rule sim_ctl, intro ctl_rules, rule sim_bnd, rule sim_ctl, intro ctl_rules,
        rule sim_case_option, rule sim_ctl, intro ctl_rules, rule segs)
qed simp

text \<open>One level: the evaluation of a file nests one deeper, with the file among those being loaded.\<close>

lemma leads_run:
  "leads (cl, d, n, m, L) (cl, d + 1, n, m, L) (modify begin_eval_run)"
  "0 \<le> d \<Longrightarrow> leads (cl, d + 1, n, m, L) (cl, d, n, m, L) (modify end_eval_run)"
  by (auto simp: leads_def modify_def evctl_def begin_eval_run_def end_eval_run_def Let_def current_time_ms_def case_prod_beta)

lemma sim_fe_eval:
  assumes "hsim (cl, d + 1, n, m, L) False hs hs'" and "0 \<le> d"
  shows "sim (cl, d, n, m, L) False (fe_eval hs k j obj) (fe_eval hs' k j obj)"
proof -
  let ?e = "(cl, d, n, m, L)" and ?e1 = "(cl, d + 1, n, m, L)"
  have "sim_to ?e ?e1 False (modify begin_eval_run) (modify begin_eval_run)"
    by (rule sim_to_refl [OF leads_run(1)])
  moreover have "sim_to ?e1 ?e1 False (eval hs k OutOfFuel j obj Nil None) (eval hs' k OutOfFuel j obj Nil None)"
    using assms(1) by (intro sim_eval [unfolded sim_to_same]) simp_all
  moreover have "sim_to ?e1 ?e False (modify end_eval_run) (modify end_eval_run)"
    by (rule sim_to_refl [OF leads_run(2) [OF assms(2)]])
  moreover have "sim_to ?e ?e False (ret x) (ret x)" for x :: ptr by (intro sim_to_ctl ctl_rules)
  ultimately show ?thesis unfolding fe_eval_def sim_to_same
    by (intro sim_to_sq sim_to_bnd) (auto intro!: sim_to_sq)
qed

lemma sim_spec_to_cstring: "sim e b (import_spec_to_cstring obj) (import_spec_to_cstring obj)"
  unfolding import_spec_to_cstring_def fe_tostring_def fe_strlen_def Let_def
  by (intro sim_rules ctl_rules; simp)

lemma import_nesting:
  assumes hs: "host_kept hs" and fin: "finite (module_files fs)"
    and "0 \<le> dp" and "card (module_files fs - fst ` set L) < d" and "d \<le> d'"
  shows "sim (cl, dp, n, m, L) False (import_module fs hs k j stop d ta obj) (import_module fs hs k j stop' d' ta obj)"
  using assms(3-)
proof (induction d arbitrary: d' cl dp n m L ta obj)
  case (Suc d)
  then obtain d1 where d1: "d' = Suc d1" "d \<le> d1" by (cases d') auto
  let ?host = "\<lambda>stop d. hs\<lparr>host_import := import_module fs hs k j stop d True\<rparr>"
  have "runs_agree fs (cl, dp, n, m, L) (fe_eval (?host stop d) k j) (fe_eval (?host stop' d1) k j)"
    unfolding runs_agree_def prod.case
  proof (intro allI impI)
    fix p sz code
    assume p: "p \<in> module_files fs - fst ` set L"
    let ?L = "L @ [(p, sz)]"
    have "module_files fs - fst ` set ?L \<subset> module_files fs - fst ` set L" using p by auto
    with fin have "card (module_files fs - fst ` set ?L) < card (module_files fs - fst ` set L)"
      by (intro psubset_card_mono) simp_all
    with Suc.prems have less: "card (module_files fs - fst ` set ?L) < d" by simp
    have "hsim (cl, dp + 1, n, m, ?L) False (?host stop d) (?host stop' d1)"
      unfolding hsim_def
    proof (intro allI impI)
      fix e'
      assume "same_run (cl, dp + 1, n, m, ?L) e'"
      then obtain cl' n' where e': "e' = (cl', dp + 1, n', m, ?L)" by (cases e') simp
      have "sim e' False (import_module fs hs k j stop d True v) (import_module fs hs k j stop' d1 True v)" for v
        unfolding e' using Suc.prems less d1 by (intro Suc.IH) simp_all
      then show "(\<forall>f a. sim e' False (host_cfunc (?host stop d) f a) (host_cfunc (?host stop' d1) f a)) \<and>
          (\<forall>v. sim e' False (host_import (?host stop d) v) (host_import (?host stop' d1) v)) \<and>
          (\<forall>s. sim e' False (host_print (?host stop d) s) (host_print (?host stop' d1) s))"
        using hs by (simp add: host_kept_def sim_kept)
    qed
    then show "sim (cl, dp, n, m, ?L) False (fe_eval (?host stop d) k j code) (fe_eval (?host stop' d1) k j code)"
      using Suc.prems by (intro sim_fe_eval) simp_all
  qed
  then show ?case unfolding d1 import_module.simps
    by (intro sim_bnd [OF sim_spec_to_cstring] sim_bnd sim_import_spec) (auto intro: sim_ctl ctl_rules)
qed simp

text \<open>
  C15. Imports end: a module that is being loaded is refused, so files are nested at most as deep as
  there are module files that are not being loaded yet, and with one level more than that neither a
  larger bound nor what happens beyond it makes a difference to an import, its errors or the state it
  leaves, whatever the modules contain. The specifiers of enclosing packages are shorter than the
  specifier they come from, which bounds the recursion over prefixes. (Loops of the modules
  themselves are the evaluator's; its fuel is the same on both sides.)
\<close>

theorem import_nesting_bounded:
  assumes "host_kept hs" and "finite (module_files fs)" and "0 \<le> eval_depth c"
    and "card (module_files fs - fst ` set (arr_items (loading_modules c))) < d"
    and "card (module_files fs - fst ` set (arr_items (loading_modules c))) < d'"
  shows "import_module fs hs k n stop d try_active spec_obj c = import_module fs hs k n stop' d' try_active spec_obj c"
proof -
  have *: "import_module fs hs k n st i try_active spec_obj c = import_module fs hs k n OutOfFuel (max d d') try_active spec_obj c"
    if "card (module_files fs - fst ` set (arr_items (loading_modules c))) < i" "i \<le> max d d'" for st i
    by (rule sim_eqD [OF import_nesting [OF assms(1-3) that]]) (simp add: evctl_def)
  show ?thesis using * [OF assms(4), of stop] * [OF assms(5), of stop'] by simp
qed

text \<open>Two modules that import each other, and the string that names the first one.\<close>

definition cyclic_files :: os_files where
  "cyclic_files = \<lparr>file_readable = (\<lambda>p. p = ''./a.fex'' \<or> p = ''./b.fex''), real_path = (\<lambda>_. None),
     file_bytes = (\<lambda>p. Some (if p = ''./a.fex'' then ''import b;'' else ''import a;''))\<rparr>"

lemma cyclic_files_card: "module_files cyclic_files = {''./a.fex'', ''./b.fex''}"
proof -
  have "{p. file_readable cyclic_files p} = {''./a.fex'', ''./b.fex''}" by (simp add: cyclic_files_def) blast
  moreover have "canonical cyclic_files ''./a.fex'' = ''./a.fex''" "canonical cyclic_files ''./b.fex'' = ''./b.fex''"
    by code_simp+
  ultimately show ?thesis by (simp add: module_files_def)
qed

definition import_example :: fe_Context where
  "import_example = (zeroed_context quiet_env 4096)
     \<lparr>objects := [\<lparr>ocar = VObj (Fixnum 1), ocdr = VU32 0, ty = FE_TSTRING, mark = False\<rparr>],
      slabs := [\<lparr>slab_next = FE_SLAB_NULL, slab_data = replicate 60 CHR ''a''\<rparr>]\<rparr>"

theorem import_nesting_bounded_witness:
  "import_module cyclic_files silent_host 9 9 OutOfFuel 3 True (Ref 0) import_example =
   import_module cyclic_files silent_host 9 9 Crash 70 True (Ref 0) import_example"
proof (rule import_nesting_bounded [OF silent_host_kept])
  have "arr_items (loading_modules import_example) = []" by (simp add: import_example_def zeroed_context_def empty_array_def)
  then show "card (module_files cyclic_files - fst ` set (arr_items (loading_modules import_example))) < 3"
    "card (module_files cyclic_files - fst ` set (arr_items (loading_modules import_example))) < 70"
    by (simp_all add: cyclic_files_card)
qed (simp_all add: cyclic_files_card import_example_def zeroed_context_def)

end
