(* ===== verification/Sfc32.thy ===== *)
theory Sfc32
  imports "HOL-Library.Word"
begin

text \<open>
  The SFC32 pseudo random number generator of \<^verbatim>\<open>src/src/sfc32.c\<close>.
  The state is four 32-bit words; every operation wraps at 32 bits as \<^verbatim>\<open>uint32_t\<close> does.
\<close>

unbundle bit_operations_syntax

type_synonym u32 = "32 word"

record sfc32_state =
  sfc_a :: u32
  sfc_b :: u32
  sfc_c :: u32
  sfc_d :: u32

definition seed_mix32 :: "u32 \<Rightarrow> u32 \<times> u32" where
  "seed_mix32 x =
     (let x = x + 0x9e3779b9;
          z = x;
          z = (z XOR drop_bit 16 z) * 0x85ebca6b;
          z = (z XOR drop_bit 13 z) * 0xc2b2ae35
      in (z XOR drop_bit 16 z, x))"

definition sfc32_next :: "sfc32_state \<Rightarrow> u32 \<times> sfc32_state" where
  "sfc32_next s =
     (let t = sfc_a s + sfc_b s + sfc_d s;
          d = sfc_d s + 1;
          a = sfc_b s XOR drop_bit 9 (sfc_b s);
          b = sfc_c s + push_bit 3 (sfc_c s);
          c = push_bit 21 (sfc_c s) OR drop_bit 11 (sfc_c s);
          c = c + t
      in (c, \<lparr>sfc_a = a, sfc_b = b, sfc_c = c, sfc_d = d\<rparr>))"

definition sfc32_seed4 :: "u32 \<Rightarrow> u32 \<Rightarrow> u32 \<Rightarrow> u32 \<Rightarrow> sfc32_state" where
  "sfc32_seed4 a b c d =
     (let d = (if d = 0 then 1 else d)
      in ((\<lambda>s. snd (sfc32_next s)) ^^ 12) \<lparr>sfc_a = a, sfc_b = b, sfc_c = c, sfc_d = d\<rparr>)"

definition sfc32_seed :: "u32 \<Rightarrow> sfc32_state" where
  "sfc32_seed seed =
     (let x = seed;
          (a, x) = seed_mix32 x;
          (b, x) = seed_mix32 x;
          (c, x) = seed_mix32 x
      in sfc32_seed4 a b c 1)"

subsection \<open>The step is a permutation of the state space\<close>

lemma xorshift_inverse:
  fixes x y :: "'a::len word"
  assumes "LENGTH('a) \<le> n + n + n + n" and y: "y = x XOR drop_bit n x"
  shows "y XOR drop_bit n y XOR drop_bit (n + n) y XOR drop_bit (n + n + n) y = x"
proof -
  have "drop_bit (n + n + n + n) x = 0"
    using assms(1) by (simp add: drop_bit_word_beyond)
  then show ?thesis
    unfolding y by (simp add: ac_simps)
qed

lemma xorshift_inj:
  fixes x y :: "'a::len word"
  assumes "LENGTH('a) \<le> n + n + n + n" and "x XOR drop_bit n x = y XOR drop_bit n y"
  shows "x = y"
  using xorshift_inverse [OF assms(1) refl, of x] xorshift_inverse [OF assms(1) refl, of y] assms(2)
  by simp

lemma odd_mult_inj:
  fixes x y k i :: u32
  assumes "i * k = 1" and "x * k = y * k"
  shows "x = y"
proof -
  have "x = x * (i * k)" using assms(1) by simp
  also have "\<dots> = (x * k) * i" by (simp add: ac_simps)
  also have "\<dots> = (y * k) * i" using assms(2) by simp
  also have "\<dots> = y * (i * k)" by (simp add: ac_simps)
  also have "\<dots> = y" using assms(1) by simp
  finally show ?thesis .
qed

lemma times9_inj: "(x::u32) + push_bit 3 x = y + push_bit 3 y \<Longrightarrow> x = y"
  by (rule odd_mult_inj [where i = "0x38E38E39" and k = 9], simp)
    (simp add: push_bit_eq_mult algebra_simps)

text \<open>The seeding mixer is injective, so different seeds stay different.\<close>

lemma seed_mix32_inj: "fst (seed_mix32 x) = fst (seed_mix32 y) \<Longrightarrow> x = y"
  unfolding seed_mix32_def Let_def fst_conv
  apply (drule xorshift_inj [rotated], simp)
  apply (drule odd_mult_inj [where i = 2127672349, rotated], simp)
  apply (drule xorshift_inj [rotated], simp)
  apply (drule odd_mult_inj [where i = 2781581891, rotated], simp)
  apply (drule xorshift_inj [rotated], simp)
  apply simp
  done

abbreviation sfc32_step :: "sfc32_state \<Rightarrow> sfc32_state" where
  "sfc32_step s \<equiv> snd (sfc32_next s)"

lemma sfc32_step_inj: "inj sfc32_step"
proof (rule injI)
  fix s t assume eq: "sfc32_step s = sfc32_step t"
  have d: "sfc_d s = sfc_d t" and c: "sfc_c s = sfc_c t" and b: "sfc_b s = sfc_b t"
    using eq times9_inj [of "sfc_c s" "sfc_c t"] xorshift_inj [of 9 "sfc_b s" "sfc_b t"]
    by (simp_all add: sfc32_next_def Let_def)
  with eq have "sfc_a s = sfc_a t"
    by (simp add: sfc32_next_def Let_def)
  with d c b show "s = t" by simp
qed

lemma sfc32_counter: "sfc_d ((sfc32_step ^^ n) s) = sfc_d s + of_nat n"
  by (induction n) (simp_all add: sfc32_next_def Let_def ac_simps)

lemma sfc32_steps_inj: "inj (sfc32_step ^^ n)"
  by (rule inj_fn [OF sfc32_step_inj])

text \<open>
  C30. The generator has no short cycle: along the orbit of any state, two states less than
  \<open>2 ^ 32\<close> steps apart are different (the counter word separates them), and the step never
  merges two different states.
\<close>

theorem sfc32_no_short_cycle:
  "inj sfc32_step \<and>
   (i < j \<and> j - i < 2 ^ 32 \<longrightarrow> (sfc32_step ^^ i) s \<noteq> (sfc32_step ^^ j) s)"
proof (intro conjI impI)
  show "inj sfc32_step" by (rule sfc32_step_inj)
next
  assume h: "i < j \<and> j - i < 2 ^ 32"
  show "(sfc32_step ^^ i) s \<noteq> (sfc32_step ^^ j) s"
  proof
    assume "(sfc32_step ^^ i) s = (sfc32_step ^^ j) s"
    then have "sfc_d ((sfc32_step ^^ i) s) = sfc_d ((sfc32_step ^^ j) s)" by simp
    then have "of_nat j - of_nat i = (0::u32)" by (simp add: sfc32_counter)
    then have "(of_nat (j - i) :: u32) = 0" using h by (simp add: of_nat_diff)
    then have "(2 ^ 32) dvd (j - i)" by (simp add: word_of_nat_eq_0_iff)
    with h show False by (auto dest: dvd_imp_le)
  qed
qed

theorem sfc32_no_short_cycle_witness:
  "sfc32_step \<lparr>sfc_a = 1, sfc_b = 2, sfc_c = 3, sfc_d = 4\<rparr>
     \<noteq> (sfc32_step ^^ 5) \<lparr>sfc_a = 1, sfc_b = 2, sfc_c = 3, sfc_d = 4\<rparr>"
  using sfc32_no_short_cycle [of 1 5 "\<lparr>sfc_a = 1, sfc_b = 2, sfc_c = 3, sfc_d = 4\<rparr>"] by simp

text \<open>
  Seeding is injective: two 32-bit seeds lead to the same generator state only if they
  are equal, so every seed yields its own sequence of states.
\<close>

lemma sfc32_seed_inj: "sfc32_seed x = sfc32_seed y \<longleftrightarrow> x = y"
proof
  assume "sfc32_seed x = sfc32_seed y"
  then have "fst (seed_mix32 x) = fst (seed_mix32 y)"
    unfolding sfc32_seed_def sfc32_seed4_def
    by (auto simp: Let_def dest!: injD [OF sfc32_steps_inj] split: prod.splits)
  then show "x = y" by (rule seed_mix32_inj)
qed simp

end
