(* ===== verification/Fex_Lists.thy ===== *)
theory Fex_Lists
  imports Fex_Strings Sfc32
begin

text \<open>
  The other functions of the extended library (\<^verbatim>\<open>fex_builtins.c\<close>) that do not touch the outside world:
  lists, maps, types and conversions, mathematics and random numbers. The evaluator the higher-order
  list functions call is a parameter \<open>ev\<close>; so are the functions of the C mathematics library whose
  results the C standard does not fix, and the time the generator is first seeded with.
\<close>

section \<open>Lists\<close>

primrec length_loop :: "nat \<Rightarrow> ptr \<Rightarrow> nat \<Rightarrow> nat \<Rightarrow> nat fcomp" where
  "length_loop 0 l count countdown = throw OutOfFuel"
| "length_loop (Suc k) l count countdown =
     (if isnil l then ret count
      else bnd (poll_or_fail countdown) (\<lambda>countdown. bnd (fe_cdr l) (\<lambda>l. length_loop k l (Suc count) countdown)))"

definition builtin_list_length :: "ptr \<Rightarrow> ptr fcomp" where
  "builtin_list_length args =
     sq (FEX_CHECK_ARGS args 1 ''length'') (bnd (fe_nextarg args) (\<lambda>(l, _).
     sq (FEX_CHECK_TYPE l FE_TPAIR ''contains'') (bnd (gets walk_fuel) (\<lambda>k.
     bnd (length_loop k l 0 FEX_BUILTIN_ABORT_CHECK_INTERVAL) (\<lambda>n. fe_make_number (num_of_int (int n)))))))"

text \<open>The loop of \<^verbatim>\<open>nth\<close> takes at most \<open>index\<close> turns.\<close>

primrec nth_loop :: "nat \<Rightarrow> ptr \<Rightarrow> nat \<Rightarrow> ptr fcomp" where
  "nth_loop 0 l countdown = ret l"
| "nth_loop (Suc i) l countdown =
     (if isnil l then ret l
      else bnd (poll_or_fail countdown) (\<lambda>countdown. bnd (fe_cdr l) (\<lambda>l. nth_loop i l countdown)))"

definition builtin_list_nth :: "ptr \<Rightarrow> ptr fcomp" where
  "builtin_list_nth args =
     sq (FEX_CHECK_ARGS args 2 ''nth'')
     (bnd (fe_nextarg args) (\<lambda>(l, args). bnd (fe_nextarg args) (\<lambda>(index_obj, _).
     bnd (int_arg index_obj) (\<lambda>index. sq (FEX_CHECK_TYPE l FE_TPAIR ''nth'')
     (bnd (nth_loop (nat index) l FEX_BUILTIN_ABORT_CHECK_INTERVAL) (\<lambda>l.
       if isnil l then ret Nil else fe_car l))))))"

text \<open>A list under construction, as in \<^verbatim>\<open>*tail = fe_cons(...); tail = fe_cdr_ptr(ctx, *tail);\<close>.\<close>

definition push_item :: "ptr \<Rightarrow> ptr \<times> ptr option \<Rightarrow> (ptr \<times> ptr option) fcomp" where
  "push_item x acc = bnd (fe_cons x Nil) (\<lambda>cell.
     bnd (set_tail (snd acc) (fst acc) cell) (\<lambda>head. ret (head, Some cell)))"

primrec copy_loop :: "nat \<Rightarrow> ptr \<Rightarrow> ptr \<times> ptr option \<Rightarrow> nat \<Rightarrow> ((ptr \<times> ptr option) \<times> nat) fcomp" where
  "copy_loop 0 current acc countdown = throw OutOfFuel"
| "copy_loop (Suc k) current acc countdown =
     (if isnil current then ret (acc, countdown)
      else bnd (poll_or_fail countdown) (\<lambda>countdown. bnd (fe_car current) (\<lambda>x. bnd (push_item x acc) (\<lambda>acc.
        bnd (fe_cdr current) (\<lambda>current. copy_loop k current acc countdown)))))"

text \<open>Each list copied may be as long as the heap at that moment.\<close>

primrec append_loop :: "nat \<Rightarrow> ptr \<Rightarrow> ptr \<times> ptr option \<Rightarrow> nat \<Rightarrow> ptr fcomp" where
  "append_loop 0 args acc countdown = throw OutOfFuel"
| "append_loop (Suc k) args acc countdown =
     (if isnil args then ret (fst acc)
      else bnd (fe_nextarg args) (\<lambda>(l, args). sq (FEX_CHECK_TYPE l FE_TPAIR ''nth'')
        (bnd (gets walk_fuel) (\<lambda>j. bnd (copy_loop j l acc countdown) (\<lambda>(acc, countdown).
          append_loop k args acc countdown)))))"

definition builtin_list_append :: "ptr \<Rightarrow> ptr fcomp" where
  "builtin_list_append args =
     (if isnil args then ret Nil
      else bnd (fe_nextarg args) (\<lambda>(first, args). sq (FEX_CHECK_TYPE first FE_TPAIR ''nth'')
        (if isnil args then ret first
         else bnd (gets walk_fuel) (\<lambda>k.
           bnd (copy_loop k first (Nil, None) FEX_BUILTIN_ABORT_CHECK_INTERVAL) (\<lambda>(acc, countdown).
           append_loop k args acc countdown)))))"

primrec reverse_loop :: "nat \<Rightarrow> ptr \<Rightarrow> ptr \<Rightarrow> nat \<Rightarrow> ptr fcomp" where
  "reverse_loop 0 l result countdown = throw OutOfFuel"
| "reverse_loop (Suc k) l result countdown =
     (if isnil l then ret result
      else bnd (poll_or_fail countdown) (\<lambda>countdown. bnd (fe_car l) (\<lambda>x. bnd (fe_cons x result) (\<lambda>result.
        bnd (fe_cdr l) (\<lambda>l. reverse_loop k l result countdown)))))"

definition builtin_list_reverse :: "ptr \<Rightarrow> ptr fcomp" where
  "builtin_list_reverse args =
     sq (FEX_CHECK_ARGS args 1 ''reverse'') (bnd (fe_nextarg args) (\<lambda>(l, _).
     sq (FEX_CHECK_TYPE l FE_TPAIR ''reverse'') (bnd (gets walk_fuel) (\<lambda>k.
     reverse_loop k l Nil FEX_BUILTIN_ABORT_CHECK_INTERVAL))))"

text \<open>The function called by \<^verbatim>\<open>map\<close> and the others may lengthen the list, so their fuel \<open>k\<close> is a parameter.\<close>

primrec builtin_map_loop :: "nat \<Rightarrow> (ptr \<Rightarrow> ptr fcomp) \<Rightarrow> ptr \<Rightarrow> ptr \<Rightarrow> ptr \<times> ptr option \<Rightarrow> ptr fcomp" where
  "builtin_map_loop 0 ev func l acc = throw OutOfFuel"
| "builtin_map_loop (Suc k) ev func l acc =
     (if isnil l then ret (fst acc)
      else bnd (fe_car l) (\<lambda>item. bnd (fe_cons item Nil) (\<lambda>call_args. bnd (fe_cons func call_args) (\<lambda>call_expr.
        bnd (ev call_expr) (\<lambda>mapped. bnd (push_item mapped acc) (\<lambda>acc.
        bnd (fe_cdr l) (\<lambda>l. builtin_map_loop k ev func l acc)))))))"

definition builtin_map :: "nat \<Rightarrow> (ptr \<Rightarrow> ptr fcomp) \<Rightarrow> ptr \<Rightarrow> ptr fcomp" where
  "builtin_map k ev args =
     sq (FEX_CHECK_ARGS args 2 ''map'') (bnd (fe_nextarg args) (\<lambda>(func, args). bnd (fe_nextarg args) (\<lambda>(l, _).
       builtin_map_loop k ev func l (Nil, None))))"

primrec filter_loop :: "nat \<Rightarrow> (ptr \<Rightarrow> ptr fcomp) \<Rightarrow> ptr \<Rightarrow> ptr \<Rightarrow> ptr \<times> ptr option \<Rightarrow> ptr fcomp" where
  "filter_loop 0 ev predicate l acc = throw OutOfFuel"
| "filter_loop (Suc k) ev predicate l acc =
     (if isnil l then ret (fst acc)
      else bnd (fe_car l) (\<lambda>item. bnd (fe_cons item Nil) (\<lambda>call_args. bnd (fe_cons predicate call_args) (\<lambda>call_expr.
        bnd (ev call_expr) (\<lambda>test_result.
        bnd (if \<not> isnil test_result \<and> test_result \<noteq> fe_bool False then push_item item acc else ret acc) (\<lambda>acc.
        bnd (fe_cdr l) (\<lambda>l. filter_loop k ev predicate l acc)))))))"

definition builtin_filter :: "nat \<Rightarrow> (ptr \<Rightarrow> ptr fcomp) \<Rightarrow> ptr \<Rightarrow> ptr fcomp" where
  "builtin_filter k ev args =
     sq (FEX_CHECK_ARGS args 2 ''filter'') (bnd (fe_nextarg args) (\<lambda>(predicate, args). bnd (fe_nextarg args) (\<lambda>(l, _).
       filter_loop k ev predicate l (Nil, None))))"

primrec fold_loop :: "nat \<Rightarrow> (ptr \<Rightarrow> ptr fcomp) \<Rightarrow> ptr \<Rightarrow> ptr \<Rightarrow> ptr \<Rightarrow> ptr fcomp" where
  "fold_loop 0 ev func acc l = throw OutOfFuel"
| "fold_loop (Suc k) ev func acc l =
     (if isnil l then ret acc
      else bnd (fe_car l) (\<lambda>item. bnd (fe_cons acc Nil) (\<lambda>t. bnd (fe_cons item t) (\<lambda>call_args.
        bnd (fe_cons func call_args) (\<lambda>call_expr. bnd (ev call_expr) (\<lambda>acc.
        bnd (fe_cdr l) (\<lambda>l. fold_loop k ev func acc l)))))))"

definition builtin_fold :: "nat \<Rightarrow> (ptr \<Rightarrow> ptr fcomp) \<Rightarrow> ptr \<Rightarrow> ptr fcomp" where
  "builtin_fold k ev args =
     sq (FEX_CHECK_ARGS args 3 ''fold'')
     (bnd (fe_nextarg args) (\<lambda>(func, args). bnd (fe_nextarg args) (\<lambda>(init, args). bnd (fe_nextarg args) (\<lambda>(l, _).
       fold_loop k ev func init l))))"

section \<open>Maps\<close>

primrec make_map_loop :: "nat \<Rightarrow> ptr \<Rightarrow> ptr \<Rightarrow> nat \<Rightarrow> unit fcomp" where
  "make_map_loop 0 m args countdown = throw OutOfFuel"
| "make_map_loop (Suc k) m args countdown =
     (if isnil args then ret ()
      else bnd (poll_or_fail countdown) (\<lambda>countdown. bnd (fe_nextarg args) (\<lambda>(key, args).
        if isnil args then fe_error ''makemap: expected an even number of arguments''
        else bnd (fe_nextarg args) (\<lambda>(value, args). bnd (fe_map_set m key value) (\<lambda>_.
          make_map_loop k m args countdown)))))"

definition builtin_make_map :: "ptr \<Rightarrow> ptr fcomp" where
  "builtin_make_map args = bnd fe_map (\<lambda>m. bnd (gets walk_fuel) (\<lambda>k.
     sq (make_map_loop k m args FEX_BUILTIN_ABORT_CHECK_INTERVAL) (ret m)))"

definition builtin_map_set :: "ptr \<Rightarrow> ptr fcomp" where
  "builtin_map_set args =
     sq (FEX_CHECK_ARGS args 3 ''mapset'')
     (bnd (fe_nextarg args) (\<lambda>(m, args). bnd (fe_nextarg args) (\<lambda>(key, args). bnd (fe_nextarg args) (\<lambda>(value, _).
       bnd (fe_map_set m key value) (\<lambda>_. ret value)))))"

definition builtin_map_get :: "ptr \<Rightarrow> ptr fcomp" where
  "builtin_map_get args =
     sq (FEX_CHECK_ARGS args 2 ''mapget'')
     (bnd (fe_nextarg args) (\<lambda>(m, args). bnd (fe_nextarg args) (\<lambda>(key, args).
       bnd (optional_arg args) (\<lambda>default_value. bnd (fe_map_has m key) (\<lambda>has.
         if \<not> has then ret default_value else fe_map_get m key)))))"

definition builtin_map_has :: "ptr \<Rightarrow> ptr fcomp" where
  "builtin_map_has args =
     sq (FEX_CHECK_ARGS args 2 ''maphas'')
     (bnd (fe_nextarg args) (\<lambda>(m, args). bnd (fe_nextarg args) (\<lambda>(key, _).
       bnd (fe_map_has m key) (\<lambda>b. ret (fe_bool b)))))"

definition builtin_map_delete :: "ptr \<Rightarrow> ptr fcomp" where
  "builtin_map_delete args =
     sq (FEX_CHECK_ARGS args 2 ''mapdelete'')
     (bnd (fe_nextarg args) (\<lambda>(m, args). bnd (fe_nextarg args) (\<lambda>(key, _).
       bnd (fe_map_delete m key) (\<lambda>b. ret (fe_bool b)))))"

definition builtin_map_keys :: "ptr \<Rightarrow> ptr fcomp" where
  "builtin_map_keys args =
     sq (FEX_CHECK_ARGS args 1 ''mapkeys'') (bnd (fe_nextarg args) (\<lambda>(m, _). fe_map_keys m))"

definition builtin_map_count :: "ptr \<Rightarrow> ptr fcomp" where
  "builtin_map_count args =
     sq (FEX_CHECK_ARGS args 1 ''mapcount'') (bnd (fe_nextarg args) (\<lambda>(m, _).
       bnd (fe_map_count m) (\<lambda>n. fe_make_number (num_of_int n))))"

section \<open>Types and conversions\<close>

fun type_name :: "fe_tag \<Rightarrow> string" where
  "type_name FE_TNIL = ''nil''"
| "type_name FE_TNUMBER = ''number''"
| "type_name FE_TSTRING = ''string''"
| "type_name FE_TBYTES = ''bytes''"
| "type_name FE_TSYMBOL = ''symbol''"
| "type_name FE_TPAIR = ''pair''"
| "type_name FE_TFUNC = ''function''"
| "type_name FE_TMACRO = ''macro''"
| "type_name FE_TCFUNC = ''cfunction''"
| "type_name FE_TPTR = ''pointer''"
| "type_name FE_TMAP = ''map''"
| "type_name FE_TBOOLEAN = ''boolean''"
| "type_name _ = ''unknown''"

definition builtin_type_of :: "ptr \<Rightarrow> ptr fcomp" where
  "builtin_type_of args =
     sq (FEX_CHECK_ARGS args 1 ''typeof'') (bnd (fe_nextarg args) (\<lambda>(obj, _).
       bnd (gets (\<lambda>c. typeof c obj)) (\<lambda>t. fe_string (type_name t))))"

definition builtin_to_string :: "nat \<Rightarrow> ptr \<Rightarrow> ptr fcomp" where
  "builtin_to_string n args =
     sq (FEX_CHECK_ARGS args 1 ''tostring'') (bnd (fe_nextarg args) (\<lambda>(obj, _).
       bnd (fe_tostring n obj 1024) (\<lambda>(s, _). fe_string s)))"

definition builtin_to_number :: "ptr \<Rightarrow> ptr fcomp" where
  "builtin_to_number args =
     sq (FEX_CHECK_ARGS args 1 ''tonumber'') (bnd (fe_nextarg args) (\<lambda>(obj, _).
     bnd (gets (\<lambda>c. typeof c obj)) (\<lambda>t.
       if t = FE_TNUMBER then ret obj
       else if t = FE_TSTRING then
         bnd (string_to_buffer obj ''tonumber'') (\<lambda>s.
           if CHR 0x00 \<in> set s then fe_error ''tonumber: invalid number format''
           else if snd (strtod s) \<noteq> length s then fe_error ''tonumber: invalid number format''
           else fe_make_number (fst (strtod s)))
       else fe_error ''tonumber: cannot convert to number'')))"

text \<open>The predicates: each looks at the type of its first argument.\<close>

definition type_test :: "string \<Rightarrow> (fe_tag \<Rightarrow> ptr \<Rightarrow> bool) \<Rightarrow> ptr \<Rightarrow> ptr fcomp" where
  "type_test func_name p args =
     sq (FEX_CHECK_ARGS args 1 func_name) (bnd (fe_nextarg args) (\<lambda>(obj, _).
       bnd (gets (\<lambda>c. typeof c obj)) (\<lambda>t. ret (fe_bool (p t obj)))))"

definition builtin_is_nil :: "ptr \<Rightarrow> ptr fcomp" where
  "builtin_is_nil = type_test ''isnil'' (\<lambda>t obj. isnil obj)"

definition builtin_is_number :: "ptr \<Rightarrow> ptr fcomp" where
  "builtin_is_number = type_test ''isnumber'' (\<lambda>t obj. t = FE_TNUMBER \<or> is_fixnum obj)"

definition builtin_is_string :: "ptr \<Rightarrow> ptr fcomp" where
  "builtin_is_string = type_test ''isstring'' (\<lambda>t obj. t = FE_TSTRING)"

definition builtin_is_bytes :: "ptr \<Rightarrow> ptr fcomp" where
  "builtin_is_bytes = type_test ''isbytes'' (\<lambda>t obj. t = FE_TBYTES)"

definition builtin_is_list :: "ptr \<Rightarrow> ptr fcomp" where
  "builtin_is_list = type_test ''islist'' (\<lambda>t obj. t = FE_TPAIR \<or> isnil obj)"

definition builtin_is_map :: "ptr \<Rightarrow> ptr fcomp" where
  "builtin_is_map = type_test ''ismap'' (\<lambda>t obj. t = FE_TMAP)"

section \<open>Mathematics\<close>

text \<open>An integer as the result of a rounding function: a zero keeps the sign of the argument.\<close>

definition integral :: "fe_Number \<Rightarrow> int \<Rightarrow> fe_Number" where
  "integral x i = (if i = 0 \<and> num_negative x then NegZero else num_of_int i)"

fun num_integral :: "(rat \<Rightarrow> int) \<Rightarrow> fe_Number \<Rightarrow> fe_Number" where
  "num_integral f (Fin r) = integral (Fin r) (f r)"
| "num_integral f x = x"

definition num_floor :: "fe_Number \<Rightarrow> fe_Number" where
  "num_floor = num_integral (\<lambda>r. \<lfloor>r\<rfloor>)"

definition num_ceil :: "fe_Number \<Rightarrow> fe_Number" where
  "num_ceil = num_integral (\<lambda>r. - \<lfloor>- r\<rfloor>)"

text \<open>\<^verbatim>\<open>round\<close>: halves away from zero.\<close>

definition num_round :: "fe_Number \<Rightarrow> fe_Number" where
  "num_round = num_integral (\<lambda>r. if r < 0 then - \<lfloor>- r + 1 / 2\<rfloor> else \<lfloor>r + 1 / 2\<rfloor>)"

definition num_abs :: "fe_Number \<Rightarrow> fe_Number" where
  "num_abs x = (if num_negative x then num_neg x else x)"

text \<open>\<open>guard\<close> gives the message for arguments outside the domain.\<close>

definition math1 :: "string \<Rightarrow> (fe_Number \<Rightarrow> string option) \<Rightarrow> (fe_Number \<Rightarrow> fe_Number) \<Rightarrow> ptr \<Rightarrow> ptr fcomp" where
  "math1 func_name guard f args =
     sq (FEX_CHECK_ARGS args 1 func_name) (bnd (fe_nextarg args) (\<lambda>(arg, _). bnd (fe_tonumber arg) (\<lambda>n.
       case guard n of Some msg \<Rightarrow> fe_error msg | None \<Rightarrow> fe_make_number (f n))))"

definition builtin_sqrt :: "(fe_Number \<Rightarrow> fe_Number) \<Rightarrow> ptr \<Rightarrow> ptr fcomp" where
  "builtin_sqrt sqrt_fn = math1 ''sqrt'' (\<lambda>n. if num_lt n (Fin 0) then Some ''sqrt: negative argument'' else None) sqrt_fn"

definition builtin_sin :: "(fe_Number \<Rightarrow> fe_Number) \<Rightarrow> ptr \<Rightarrow> ptr fcomp" where
  "builtin_sin sin_fn = math1 ''sin'' (\<lambda>_. None) sin_fn"

definition builtin_cos :: "(fe_Number \<Rightarrow> fe_Number) \<Rightarrow> ptr \<Rightarrow> ptr fcomp" where
  "builtin_cos cos_fn = math1 ''cos'' (\<lambda>_. None) cos_fn"

definition builtin_tan :: "(fe_Number \<Rightarrow> fe_Number) \<Rightarrow> ptr \<Rightarrow> ptr fcomp" where
  "builtin_tan tan_fn = math1 ''tan'' (\<lambda>_. None) tan_fn"

definition builtin_abs :: "ptr \<Rightarrow> ptr fcomp" where
  "builtin_abs = math1 ''abs'' (\<lambda>_. None) num_abs"

definition builtin_floor :: "ptr \<Rightarrow> ptr fcomp" where
  "builtin_floor = math1 ''floor'' (\<lambda>_. None) num_floor"

definition builtin_ceil :: "ptr \<Rightarrow> ptr fcomp" where
  "builtin_ceil = math1 ''ceil'' (\<lambda>_. None) num_ceil"

definition builtin_round :: "ptr \<Rightarrow> ptr fcomp" where
  "builtin_round = math1 ''round'' (\<lambda>_. None) num_round"

definition builtin_log :: "(fe_Number \<Rightarrow> fe_Number) \<Rightarrow> ptr \<Rightarrow> ptr fcomp" where
  "builtin_log log_fn =
     math1 ''log'' (\<lambda>n. if num_le n (Fin 0) then Some ''log: argument must be positive'' else None) log_fn"

primrec extremum_loop :: "nat \<Rightarrow> (fe_Number \<Rightarrow> fe_Number \<Rightarrow> bool) \<Rightarrow> ptr \<Rightarrow> fe_Number \<Rightarrow> fe_Number fcomp" where
  "extremum_loop 0 better args result = throw OutOfFuel"
| "extremum_loop (Suc k) better args result =
     (if isnil args then ret result
      else bnd (fe_nextarg args) (\<lambda>(arg, args). bnd (fe_tonumber arg) (\<lambda>n.
        extremum_loop k better args (if better n result then n else result))))"

definition extremum :: "string \<Rightarrow> (fe_Number \<Rightarrow> fe_Number \<Rightarrow> bool) \<Rightarrow> ptr \<Rightarrow> ptr fcomp" where
  "extremum func_name better args =
     sq (FEX_CHECK_ARGS args 1 func_name) (bnd (fe_nextarg args) (\<lambda>(first, args). bnd (fe_tonumber first) (\<lambda>n.
       bnd (gets walk_fuel) (\<lambda>k. bnd (extremum_loop k better args n) fe_make_number))))"

definition builtin_min :: "ptr \<Rightarrow> ptr fcomp" where
  "builtin_min = extremum ''min'' num_lt"

definition builtin_max :: "ptr \<Rightarrow> ptr fcomp" where
  "builtin_max = extremum ''max'' (\<lambda>n r. num_lt r n)"

definition builtin_pow :: "(fe_Number \<Rightarrow> fe_Number \<Rightarrow> fe_Number) \<Rightarrow> ptr \<Rightarrow> ptr fcomp" where
  "builtin_pow pow_fn args =
     sq (FEX_CHECK_ARGS args 2 ''pow'') (bnd (fe_nextarg args) (\<lambda>(base, args). bnd (fe_nextarg args) (\<lambda>(ex, _).
       bnd (fe_tonumber base) (\<lambda>b. bnd (fe_tonumber ex) (\<lambda>e. fe_make_number (pow_fn b e))))))"

section \<open>Random numbers\<close>

text \<open>
  The static variables \<^verbatim>\<open>seeded\<close> and \<^verbatim>\<open>rng_state\<close> beside the context. \<open>now\<close> is \<^verbatim>\<open>(uint32_t)time(NULL)\<close>.
\<close>

record rng =
  seeded :: bool
  rng_state :: sfc32_state

type_synonym 'a rcomp = "(fe_Context \<times> rng, fe_err, 'a) comp"

definition on_ctx :: "'a fcomp \<Rightarrow> 'a rcomp" where
  "on_ctx m s = (case m (fst s) of (r, c) \<Rightarrow> (r, (c, snd s)))"

definition ensure_seeded :: "u32 \<Rightarrow> unit rcomp" where
  "ensure_seeded now = modify (\<lambda>(c, g). (c, if seeded g then g else \<lparr>seeded = True, rng_state = sfc32_seed now\<rparr>))"

definition next_random :: "u32 rcomp" where
  "next_random = (\<lambda>(c, g). case sfc32_next (rng_state g) of (v, st) \<Rightarrow> (Inr v, (c, g\<lparr>rng_state := st\<rparr>)))"

text \<open>The conversion \<^verbatim>\<open>(uint32_t)\<close> of a double is undefined outside the range of \<^verbatim>\<open>uint32_t\<close>.\<close>

definition num_to_u32 :: "fe_Number \<Rightarrow> u32 fcomp" where
  "num_to_u32 n = (case num_to_intptr n of
      Some i \<Rightarrow> if 0 \<le> i \<and> i < 2 ^ 32 then ret (of_int i) else throw Crash
    | None \<Rightarrow> throw Crash)"

definition num_of_u32 :: "u32 \<Rightarrow> fe_Number" where
  "num_of_u32 w = num_of_int (uint w)"

definition builtin_random :: "u32 \<Rightarrow> ptr \<Rightarrow> ptr rcomp" where
  "builtin_random now args =
     sq (on_ctx (FEX_CHECK_NO_ARGS args ''rand'')) (sq (ensure_seeded now) (bnd next_random (\<lambda>v.
       on_ctx (fe_make_number (num_div (num_of_u32 v) (num_of_int (2 ^ 32 - 1)))))))"

definition builtin_seed_random :: "ptr \<Rightarrow> ptr rcomp" where
  "builtin_seed_random args =
     sq (on_ctx (FEX_CHECK_ARGS args 1 ''seedrand'')) (bnd (on_ctx (fe_nextarg args)) (\<lambda>(seed_obj, _).
     sq (on_ctx (FEX_CHECK_TYPE seed_obj FE_TNUMBER ''seedrand''))
     (bnd (on_ctx (bnd (fe_tonumber seed_obj) num_to_u32)) (\<lambda>seed.
     sq (modify (\<lambda>(c, g). (c, \<lparr>seeded = True, rng_state = sfc32_seed seed\<rparr>))) (ret Nil)))))"

text \<open>A maximum below 1 becomes 0, and the remainder by 0 is undefined.\<close>

definition builtin_random_int :: "u32 \<Rightarrow> ptr \<Rightarrow> ptr rcomp" where
  "builtin_random_int now args =
     sq (ensure_seeded now)
       (if isnil args then bnd next_random (\<lambda>v. on_ctx (fe_make_number (num_of_u32 v)))
        else sq (on_ctx (FEX_CHECK_ARGS args 1 ''randint'')) (bnd (on_ctx (fe_nextarg args)) (\<lambda>(max_obj, _).
          bnd (on_ctx (fe_tonumber max_obj)) (\<lambda>max_num.
          if num_le max_num (Fin 0) then on_ctx (fe_error ''randint: maximum must be positive'')
          else bnd (on_ctx (num_to_u32 max_num)) (\<lambda>max_val. bnd next_random (\<lambda>v.
            if max_val = 0 then throw Crash else on_ctx (fe_make_number (num_of_u32 (v mod max_val)))))))))"

primrec random_bytes_loop :: "nat \<Rightarrow> ptr \<times> ptr option \<Rightarrow> nat \<Rightarrow> ptr rcomp" where
  "random_bytes_loop 0 acc countdown = ret (fst acc)"
| "random_bytes_loop (Suc i) acc countdown =
     bnd (on_ctx (poll_or_fail countdown)) (\<lambda>countdown. bnd next_random (\<lambda>v.
       bnd (on_ctx (bnd (fe_make_number (num_of_u32 (v AND 0xFF))) (\<lambda>x. push_item x acc))) (\<lambda>acc.
       random_bytes_loop i acc countdown)))"

definition builtin_random_bytes :: "u32 \<Rightarrow> ptr \<Rightarrow> ptr rcomp" where
  "builtin_random_bytes now args =
     sq (on_ctx (FEX_CHECK_ARGS args 1 ''randbytes'')) (bnd (on_ctx (fe_nextarg args)) (\<lambda>(count_obj, _).
     bnd (on_ctx (fe_tonumber count_obj)) (\<lambda>count_num.
       if num_le count_num (Fin 0) \<or> num_lt (Fin 1024) count_num
       then on_ctx (fe_error ''randbytes: count must be between 1 and 1024'')
       else sq (ensure_seeded now) (bnd (on_ctx (num_to_int count_num)) (\<lambda>count.
         random_bytes_loop (nat count) (Nil, None) FEX_BUILTIN_ABORT_CHECK_INTERVAL)))))"

end
