(* ===== verification/Fex_Json.thy ===== *)
theory Fex_Json
  imports Fex_Lists
begin

text \<open>
  The JSON reader and writer of the extended library (\<^verbatim>\<open>fex_builtins.c\<close>). The parser works on the rest of
  the text (a C string, so it holds no NUL) and the countdown of its polls; the nesting of values,
  which the code does not bound, and the loops over elements carry a fuel.
\<close>

section \<open>Parsing\<close>

type_synonym jstate = "string \<times> nat"

definition at_char :: "char \<Rightarrow> string \<Rightarrow> bool" where
  "at_char c text \<longleftrightarrow> (case text of [] \<Rightarrow> False | x # _ \<Rightarrow> x = c)"

definition json_blank :: "char \<Rightarrow> bool" where
  "json_blank c \<longleftrightarrow> c = CHR '' '' \<or> c = CHR 0x09 \<or> c = CHR 0x0A \<or> c = CHR 0x0D"

primrec json_skip_chars :: "string \<Rightarrow> nat \<Rightarrow> jstate fcomp" where
  "json_skip_chars [] countdown = ret ([], countdown)"
| "json_skip_chars (c # text) countdown =
     (if json_blank c then bnd (poll_or_fail countdown) (json_skip_chars text) else ret (c # text, countdown))"

definition json_skip_ws :: "jstate \<Rightarrow> jstate fcomp" where
  "json_skip_ws p = json_skip_chars (fst p) (snd p)"

definition json_hex_value :: "char \<Rightarrow> nat option" where
  "json_hex_value c = (let n = (of_char c :: nat) in
     if 48 \<le> n \<and> n \<le> 57 then Some (n - 48)
     else if 97 \<le> n \<and> n \<le> 102 then Some (10 + (n - 97))
     else if 65 \<le> n \<and> n \<le> 70 then Some (10 + (n - 65)) else None)"

text \<open>The escapes of one character.\<close>

definition json_escapes :: "(char \<times> char) list" where
  "json_escapes = [(CHR 0x22, CHR 0x22), (CHR 0x5C, CHR 0x5C), (CHR ''/'', CHR ''/''), (CHR ''b'', CHR 0x08),
     (CHR ''f'', CHR 0x0C), (CHR ''n'', CHR 0x0A), (CHR ''r'', CHR 0x0D), (CHR ''t'', CHR 0x09)]"

text \<open>The four digits of an escaped code point; past the end of the text is the NUL, which is no digit.\<close>

definition json_codepoint :: "string \<Rightarrow> nat option" where
  "json_codepoint text = (case text of
      a # b # c # d # _ \<Rightarrow>
        (case (json_hex_value a, json_hex_value b, json_hex_value c, json_hex_value d) of
           (Some hi, Some lo, Some hi2, Some lo2) \<Rightarrow> Some (hi * 4096 + lo * 256 + hi2 * 16 + lo2)
         | _ \<Rightarrow> None)
    | _ \<Rightarrow> None)"

definition json_oom :: "'a fcomp" where
  "json_oom = fe_error ''parsejson: out of memory''"

text \<open>What follows a backslash: the buffer with the character and the text behind the escape.\<close>

definition json_escape :: "string \<Rightarrow> TextBuffer \<Rightarrow> (TextBuffer \<times> string) fcomp" where
  "json_escape text b = (case text of
      [] \<Rightarrow> fe_error ''parsejson: invalid escape sequence''
    | e # text \<Rightarrow>
        (case map_of json_escapes e of
           Some c \<Rightarrow> bnd (buf_append_char c b) (\<lambda>r. case r of None \<Rightarrow> json_oom | Some b \<Rightarrow> ret (b, text))
         | None \<Rightarrow>
             if e = CHR ''u'' then
               (case json_codepoint text of
                  None \<Rightarrow> fe_error ''parsejson: invalid unicode escape''
                | Some cp \<Rightarrow>
                    if 0xD800 \<le> cp \<and> cp \<le> 0xDFFF then fe_error ''parsejson: surrogate pairs are not supported''
                    else bnd (buf_append_utf8 cp b) (\<lambda>r. case r of None \<Rightarrow> json_oom | Some b \<Rightarrow> ret (b, drop 4 text)))
             else fe_error ''parsejson: invalid escape sequence''))"

primrec json_string_loop :: "nat \<Rightarrow> string \<Rightarrow> TextBuffer \<Rightarrow> nat \<Rightarrow> (TextBuffer \<times> jstate) fcomp" where
  "json_string_loop 0 text b countdown = throw OutOfFuel"
| "json_string_loop (Suc k) text b countdown = (case text of
      [] \<Rightarrow> ret (b, text, countdown)
    | c # text' \<Rightarrow>
        if c = CHR 0x22 then ret (b, text, countdown)
        else bnd (poll_or_fail countdown) (\<lambda>countdown.
          if c = CHR 0x5C then bnd (json_escape text' b) (\<lambda>(b, text). json_string_loop k text b countdown)
          else if (of_char c :: nat) < 0x20 then fe_error ''parsejson: unescaped control character''
          else bnd (buf_append_char c b) (\<lambda>r. case r of
            None \<Rightarrow> json_oom | Some b \<Rightarrow> json_string_loop k text' b countdown)))"

text \<open>Every turn takes at least one character.\<close>

definition json_parse_string :: "jstate \<Rightarrow> (ptr \<times> jstate) fcomp" where
  "json_parse_string p =
     (if \<not> at_char (CHR 0x22) (fst p) then fe_error ''parsejson: expected string''
      else bnd (json_string_loop (Suc (length (fst p))) (tl (fst p)) empty_buffer (snd p)) (\<lambda>(b, text, countdown).
        if \<not> at_char (CHR 0x22) text then fe_error ''parsejson: unterminated string''
        else bnd (fe_string (fst b)) (\<lambda>v. ret (v, tl text, countdown))))"

definition json_parse_number :: "jstate \<Rightarrow> (ptr \<times> jstate) fcomp" where
  "json_parse_number p = (case strtod (fst p) of (value, n) \<Rightarrow>
     if n = 0 then fe_error ''parsejson: invalid number''
     else bnd (fe_make_number value) (\<lambda>v. ret (v, drop n (fst p), snd p)))"

type_synonym json_parser = "jstate \<Rightarrow> (ptr \<times> jstate) fcomp"

primrec json_array_loop :: "nat \<Rightarrow> json_parser \<Rightarrow> ptr \<times> ptr option \<Rightarrow> json_parser" where
  "json_array_loop 0 rec acc p = throw OutOfFuel"
| "json_array_loop (Suc k) rec acc p =
     bnd (rec p) (\<lambda>(item, text, countdown). bnd (poll_or_fail countdown) (\<lambda>countdown.
     bnd (push_item item acc) (\<lambda>acc. bnd (json_skip_ws (text, countdown)) (\<lambda>(text, countdown).
       if at_char (CHR '']'') text then ret (fst acc, tl text, countdown)
       else if \<not> at_char (CHR '','') text then fe_error (''parsejson: expected '' @ [CHR 0x27, CHR '','', CHR 0x27] @ '' or '' @ [CHR 0x27, CHR '']'', CHR 0x27])
       else bnd (json_skip_ws (tl text, countdown)) (json_array_loop k rec acc)))))"

definition json_parse_array :: "nat \<Rightarrow> json_parser \<Rightarrow> json_parser" where
  "json_parse_array k rec p =
     bnd (json_skip_ws (tl (fst p), snd p)) (\<lambda>(text, countdown).
       if at_char (CHR '']'') text then ret (Nil, tl text, countdown)
       else json_array_loop k rec (Nil, None) (text, countdown))"

primrec json_object_loop :: "nat \<Rightarrow> json_parser \<Rightarrow> ptr \<Rightarrow> json_parser" where
  "json_object_loop 0 rec m p = throw OutOfFuel"
| "json_object_loop (Suc k) rec m p = (case p of (text, countdown) \<Rightarrow>
     bnd (poll_or_fail countdown) (\<lambda>countdown.
       if \<not> at_char (CHR 0x22) text then fe_error ''parsejson: expected object key string''
       else bnd (json_parse_string (text, countdown)) (\<lambda>(key, p). bnd (json_skip_ws p) (\<lambda>(text, countdown).
         if \<not> at_char (CHR '':'') text then fe_error (''parsejson: expected '' @ [CHR 0x27, CHR '':'', CHR 0x27] @ '' after object key'')
         else bnd (json_skip_ws (tl text, countdown)) (\<lambda>p. bnd (rec p) (\<lambda>(value, p).
           bnd (fe_map_set m key value) (\<lambda>_. bnd (json_skip_ws p) (\<lambda>(text, countdown).
             if at_char (CHR ''}'') text then ret (m, tl text, countdown)
             else if \<not> at_char (CHR '','') text then fe_error (''parsejson: expected '' @ [CHR 0x27, CHR '','', CHR 0x27] @ '' or '' @ [CHR 0x27, CHR ''}'', CHR 0x27])
             else bnd (json_skip_ws (tl text, countdown)) (json_object_loop k rec m)))))))))"

definition json_parse_object :: "nat \<Rightarrow> json_parser \<Rightarrow> json_parser" where
  "json_parse_object k rec p =
     bnd fe_map (\<lambda>m. bnd (json_skip_ws (tl (fst p), snd p)) (\<lambda>(text, countdown).
       if at_char (CHR ''}'') text then ret (m, tl text, countdown)
       else json_object_loop k rec m (text, countdown)))"

definition json_literals :: "(string \<times> ptr) list" where
  "json_literals = [(''true'', fe_bool True), (''false'', fe_bool False), (''null'', Nil)]"

definition json_parse_body :: "nat \<Rightarrow> json_parser \<Rightarrow> json_parser" where
  "json_parse_body k rec p =
     bnd (json_skip_ws p) (\<lambda>(text, countdown).
       if at_char (CHR 0x22) text then json_parse_string (text, countdown)
       else if at_char (CHR ''{'') text then json_parse_object k rec (text, countdown)
       else if at_char (CHR ''['') text then json_parse_array k rec (text, countdown)
       else case find (\<lambda>l. take (length (fst l)) text = fst l) json_literals of
         Some (s, v) \<Rightarrow> ret (v, drop (length s) text, countdown)
       | None \<Rightarrow>
           if at_char (CHR ''-'') text \<or> (text \<noteq> [] \<and> isdigit (hd text)) then json_parse_number (text, countdown)
           else fe_error ''parsejson: invalid value'')"

primrec json_parse_value :: "fe_err \<Rightarrow> nat \<Rightarrow> nat \<Rightarrow> json_parser" where
  "json_parse_value stop k 0 p = throw stop"
| "json_parse_value stop k (Suc n) p = json_parse_body k (json_parse_value stop k n) p"

definition builtin_parse_json :: "nat \<Rightarrow> nat \<Rightarrow> ptr \<Rightarrow> ptr fcomp" where
  "builtin_parse_json k n args =
     sq (FEX_CHECK_ARGS args 1 ''parsejson'') (bnd (fe_nextarg args) (\<lambda>(input, _).
     bnd (string_to_cstr input ''parsejson'') (\<lambda>text.
     bnd (json_parse_value OutOfFuel k n (text, FEX_BUILTIN_ABORT_CHECK_INTERVAL)) (\<lambda>(result, p).
     bnd (json_skip_ws p) (\<lambda>(text, _).
       if text \<noteq> [] then fe_error ''parsejson: trailing characters'' else ret result)))))"

section \<open>Writing\<close>

text \<open>
  A writer returns the buffer with the countdown, or \<open>None\<close> for the result 0, which without an error
  means that the buffer could not grow.
\<close>

type_synonym jout = "(TextBuffer \<times> nat) option"

definition json_put :: "string \<Rightarrow> TextBuffer \<times> nat \<Rightarrow> jout fcomp" where
  "json_put s w = bnd (buf_append_str s (fst w)) (\<lambda>r. ret (map_option (\<lambda>b. (b, snd w)) r))"

definition json_put_char :: "char \<Rightarrow> TextBuffer \<times> nat \<Rightarrow> jout fcomp" where
  "json_put_char c w = bnd (buf_append_char c (fst w)) (\<lambda>r. ret (map_option (\<lambda>b. (b, snd w)) r))"

text \<open>\<^verbatim>\<open>if (!f(...)) return 0;\<close> before the rest.\<close>

definition and_then :: "jout fcomp \<Rightarrow> (TextBuffer \<times> nat \<Rightarrow> jout fcomp) \<Rightarrow> jout fcomp" where
  "and_then m f = bnd m (\<lambda>r. case r of None \<Rightarrow> ret None | Some w \<Rightarrow> f w)"

definition json_hex_digits :: "char \<Rightarrow> string" where
  "json_hex_digits c = (let n = (of_char c :: nat) in ''00'' @ [hex_digit (n div 16), hex_digit (n mod 16)])"

definition json_char_text :: "char \<Rightarrow> string" where
  "json_char_text c =
     (if c = CHR 0x22 then [CHR 0x5C, CHR 0x22]
      else if c = CHR 0x5C then [CHR 0x5C, CHR 0x5C]
      else if c = CHR 0x08 then [CHR 0x5C, CHR ''b'']
      else if c = CHR 0x0C then [CHR 0x5C, CHR ''f'']
      else if c = CHR 0x0A then [CHR 0x5C, CHR ''n'']
      else if c = CHR 0x0D then [CHR 0x5C, CHR ''r'']
      else if c = CHR 0x09 then [CHR 0x5C, CHR ''t'']
      else if (of_char c :: nat) < 0x20 then [CHR 0x5C, CHR ''u''] @ json_hex_digits c
      else [c])"

primrec json_write_chars :: "string \<Rightarrow> TextBuffer \<times> nat \<Rightarrow> jout fcomp" where
  "json_write_chars [] w = ret (Some w)"
| "json_write_chars (c # s) w =
     bnd (poll_or_fail (snd w)) (\<lambda>countdown.
       and_then (json_put (json_char_text c) (fst w, countdown)) (json_write_chars s))"

definition json_write_string :: "ptr \<Rightarrow> TextBuffer \<times> nat \<Rightarrow> jout fcomp" where
  "json_write_string obj w =
     bnd (string_to_buffer obj ''tojson'') (\<lambda>text.
       and_then (json_put_char (CHR 0x22) w) (\<lambda>w. and_then (json_write_chars text w) (json_put_char (CHR 0x22))))"

primrec json_is_proper_loop :: "nat \<Rightarrow> ptr \<Rightarrow> nat \<Rightarrow> bool fcomp" where
  "json_is_proper_loop 0 obj countdown = throw OutOfFuel"
| "json_is_proper_loop (Suc k) obj countdown =
     (if isnil obj then ret True
      else bnd (poll_or_fail countdown) (\<lambda>countdown. bnd (gets (\<lambda>c. typeof c obj)) (\<lambda>t.
        if t \<noteq> FE_TPAIR then ret False
        else bnd (fe_cdr obj) (\<lambda>obj. json_is_proper_loop k obj countdown))))"

text \<open>A cyclic list is followed until an abort: the fuel \<open>k\<close> stands for the patience of the caller.\<close>

definition json_is_proper_list :: "nat \<Rightarrow> ptr \<Rightarrow> bool fcomp" where
  "json_is_proper_list k obj = json_is_proper_loop k obj 1"

type_synonym json_writer = "ptr \<Rightarrow> TextBuffer \<times> nat \<Rightarrow> jout fcomp"

definition json_comma :: "bool \<Rightarrow> TextBuffer \<times> nat \<Rightarrow> jout fcomp" where
  "json_comma first w = (if \<not> first then json_put_char (CHR '','') w else ret (Some w))"

primrec json_keys_loop :: "nat \<Rightarrow> json_writer \<Rightarrow> ptr \<Rightarrow> ptr \<Rightarrow> bool \<Rightarrow> TextBuffer \<times> nat \<Rightarrow> jout fcomp" where
  "json_keys_loop 0 rec obj keys first w = throw OutOfFuel"
| "json_keys_loop (Suc k) rec obj keys first w =
     (if isnil keys then ret (Some w)
      else bnd (fe_car keys) (\<lambda>key. bnd (poll_or_fail (snd w)) (\<lambda>countdown.
        and_then (json_comma first (fst w, countdown)) (\<lambda>w. and_then (json_write_string key w) (\<lambda>w.
        and_then (json_put_char (CHR '':'') w) (\<lambda>w. bnd (fe_map_get obj key) (\<lambda>value. and_then (rec value w) (\<lambda>w.
        bnd (fe_cdr keys) (\<lambda>keys. json_keys_loop k rec obj keys False w)))))))))"

primrec json_items_loop :: "nat \<Rightarrow> json_writer \<Rightarrow> ptr \<Rightarrow> bool \<Rightarrow> TextBuffer \<times> nat \<Rightarrow> jout fcomp" where
  "json_items_loop 0 rec l first w = throw OutOfFuel"
| "json_items_loop (Suc k) rec l first w =
     (if isnil l then ret (Some w)
      else bnd (poll_or_fail (snd w)) (\<lambda>countdown. and_then (json_comma first (fst w, countdown)) (\<lambda>w.
        bnd (fe_car l) (\<lambda>x. and_then (rec x w) (\<lambda>w. bnd (fe_cdr l) (\<lambda>l. json_items_loop k rec l False w))))))"

definition json_write_body :: "nat \<Rightarrow> json_writer \<Rightarrow> json_writer" where
  "json_write_body k rec obj w = bnd (gets (\<lambda>c. typeof c obj)) (\<lambda>t. case t of
      FE_TNIL \<Rightarrow> json_put ''null'' w
    | FE_TBOOLEAN \<Rightarrow> json_put (if obj = fe_bool True then ''true'' else ''false'') w
    | FE_TNUMBER \<Rightarrow> bnd (fe_tonumber obj) (\<lambda>n. json_put (take 63 (printf_g 15 n)) w)
    | FE_TSTRING \<Rightarrow> json_write_string obj w
    | FE_TMAP \<Rightarrow> bnd (fe_map_keys obj) (\<lambda>keys. and_then (json_put_char (CHR ''{'') w) (\<lambda>w.
        and_then (json_keys_loop k rec obj keys True w) (json_put_char (CHR ''}''))))
    | FE_TPAIR \<Rightarrow> bnd (json_is_proper_list k obj) (\<lambda>b.
        if \<not> b then fe_error ''tojson: cannot serialize dotted pair''
        else and_then (json_put_char (CHR ''['') w) (\<lambda>w.
          and_then (json_items_loop k rec obj True w) (json_put_char (CHR '']''))))
    | _ \<Rightarrow> fe_error ''tojson: unsupported value type'')"

primrec json_write_value :: "nat \<Rightarrow> nat \<Rightarrow> json_writer" where
  "json_write_value k 0 obj w = throw OutOfFuel"
| "json_write_value k (Suc n) obj w = json_write_body k (json_write_value k n) obj w"

definition builtin_to_json :: "nat \<Rightarrow> nat \<Rightarrow> ptr \<Rightarrow> ptr fcomp" where
  "builtin_to_json k n args =
     sq (FEX_CHECK_ARGS args 1 ''tojson'') (bnd (fe_nextarg args) (\<lambda>(value, _).
     bnd (json_write_value k n value (empty_buffer, FEX_BUILTIN_ABORT_CHECK_INTERVAL)) (\<lambda>r. case r of
       None \<Rightarrow> ret Nil
     | Some w \<Rightarrow> fe_string (fst (fst w)))))"

section \<open>A string survives the way through JSON\<close>

definition json_quote :: "string \<Rightarrow> string" where
  "json_quote s = CHR 0x22 # concat (map json_char_text s) @ [CHR 0x22]"

lemma gives_put: "gives c (json_put t w) (\<lambda>r. \<forall>w'. r = Some w' \<longrightarrow> fst (fst w') = fst (fst w) @ t)"
  unfolding json_put_def buf_append_str_def by (rule gives_bnd [OF gives_append]) (auto intro!: gives_ret)

lemma gives_put_char: "gives c (json_put_char x w) (\<lambda>r. \<forall>w'. r = Some w' \<longrightarrow> fst (fst w') = fst (fst w) @ [x])"
  unfolding json_put_char_def by (rule gives_bnd [OF gives_append_char]) (auto intro!: gives_ret)

lemma gives_and_then:
  assumes "gives c m (\<lambda>r. \<forall>w'. r = Some w' \<longrightarrow> P w')" and "\<And>w'. P w' \<Longrightarrow> gives c (f w') (\<lambda>r. \<forall>w'. r = Some w' \<longrightarrow> Q w')"
  shows "gives c (and_then m f) (\<lambda>r. \<forall>w'. r = Some w' \<longrightarrow> Q w')"
  unfolding and_then_def
proof (rule gives_bnd [OF assms(1)])
  fix x assume x: "\<forall>w'. x = Some w' \<longrightarrow> P w'"
  show "gives c (case x of None \<Rightarrow> ret None | Some w \<Rightarrow> f w) (\<lambda>r. \<forall>w'. r = Some w' \<longrightarrow> Q w')"
    using x assms(2) by (cases x) (simp_all add: gives_ret del: split_paired_All)
qed

lemma gives_write_chars:
  "gives c (json_write_chars s w) (\<lambda>r. \<forall>w'. r = Some w' \<longrightarrow> fst (fst w') = fst (fst w) @ concat (map json_char_text s))"
proof (induction s arbitrary: w)
  case (Cons x s)
  show ?case unfolding json_write_chars.simps
    by (rule gives_bnd [OF gives_poll], rule gives_and_then [OF gives_put], rule gives_mono [OF Cons.IH]) auto
qed (auto intro!: gives_ret)

lemma gives_write_string:
  assumes "is_string c p s" "wf_slabs (slabs c)"
  shows "gives c (json_write_string p w) (\<lambda>r. \<forall>w'. r = Some w' \<longrightarrow> fst (fst w') = fst (fst w) @ json_quote s)"
  unfolding json_write_string_def
  by (rule gives_bnd [OF gives_buffer [OF assms]], rule gives_and_then [OF gives_put_char],
      rule gives_and_then [OF gives_write_chars], rule gives_mono [OF gives_put_char]) (auto simp: json_quote_def)

text \<open>The escape of a character is undone by the parser.\<close>

lemma hex_value_digit: "d < 16 \<Longrightarrow> json_hex_value (hex_digit d) = Some d"
proof -
  have "list_all (\<lambda>d. json_hex_value (hex_digit d) = Some d) [0..<16]" by code_simp
  then show "d < 16 \<Longrightarrow> ?thesis" by (simp add: list_all_iff)
qed

lemma codepoint_digits:
  assumes "(of_char x :: nat) < 0x20"
  shows "json_codepoint (json_hex_digits x @ r) = Some (of_char x)" "drop 4 (json_hex_digits x @ r) = r"
proof -
  let ?n = "of_char x :: nat"
  have z: "json_hex_value (CHR ''0'') = Some 0" by code_simp
  have "json_hex_value (hex_digit (?n div 16)) = Some (?n div 16)" "json_hex_value (hex_digit (?n mod 16)) = Some (?n mod 16)"
    using assms by (simp_all add: hex_value_digit)
  moreover have "?n div 16 * 16 + ?n mod 16 = ?n" by (rule div_mult_mod_eq)
  ultimately show "json_codepoint (json_hex_digits x @ r) = Some ?n"
    by (simp add: json_codepoint_def json_hex_digits_def Let_def z)
  show "drop 4 (json_hex_digits x @ r) = r" by (simp add: json_hex_digits_def Let_def)
qed

definition fails :: "fe_err \<Rightarrow> fe_Context \<Rightarrow> bool" where
  "fails e c \<longleftrightarrow> (\<exists>msg cl. e = FeError msg cl)"

lemma wp_new_string:
  assumes "heap_inv {} [] c" shows "wp (fe_string s) (\<lambda>v c'. is_string c' v s \<and> heap_inv {} [] c') fails c"
proof -
  have "wp (fe_string s) (made_string FE_TSTRING s c) string_err c"
    unfolding fe_string_def by (rule wp_make_data_obj [OF assms]) (simp_all add: src_data_def)
  then show ?thesis
    by (rule wp_mono) (auto simp: made_string_def built_def is_string_def typeof_def kept_def string_err_def fails_def)
qed

text \<open>
  A text for each character of a string literal. The library of the language and the command line program
  have different ones; both write a character as itself, as an escape of one letter, or by its code.
\<close>

locale json_escaping =
  fixes esc :: "char \<Rightarrow> string"
  assumes esc_shape: "(\<exists>e. esc x = [CHR 0x5C, e] \<and> map_of json_escapes e = Some x) \<or>
    esc x = CHR 0x5C # CHR ''u'' # json_hex_digits x \<and> (of_char x :: nat) < 0x20 \<or>
    esc x = [x] \<and> x \<noteq> CHR 0x22 \<and> x \<noteq> CHR 0x5C \<and> \<not> (of_char x :: nat) < 0x20"
begin

lemma esc_cases:
  obtains e where "esc x = [CHR 0x5C, e]" "map_of json_escapes e = Some x"
  | "esc x = CHR 0x5C # CHR ''u'' # json_hex_digits x" "(of_char x :: nat) < 0x20"
  | "esc x = [x]" "x \<noteq> CHR 0x22" "x \<noteq> CHR 0x5C" "\<not> (of_char x :: nat) < 0x20"
  using esc_shape [of x] by blast

lemma gives_unescape:
  assumes "esc x = CHR 0x5C # t"
  shows "gives c (json_escape (t @ r) b) (\<lambda>(b', text). fst b' = fst b @ [x] \<and> text = r)"
proof (cases x rule: esc_cases)
  case (1 e)
  with assms have "t = [e]" by simp
  with 1 show ?thesis
    by (auto simp: json_escape_def json_oom_def split: option.split
        intro!: gives_bnd [OF gives_append_char] gives_ret gives_error)
next
  case 2
  with assms have t: "t = CHR ''u'' # json_hex_digits x" by simp
  have u: "map_of json_escapes (CHR ''u'') = None" by (simp add: json_escapes_def)
  have b: "buf_append_utf8 (of_char x) b = buf_append_mem [x] b"
    using 2(2) by (simp add: buf_append_utf8_def utf8_bytes_def)
  have "gives c (bnd (buf_append_mem [x] b) (\<lambda>v. case v of None \<Rightarrow> json_oom | Some b \<Rightarrow> ret (b, r)))
      (\<lambda>(b', text). fst b' = fst b @ [x] \<and> text = r)"
    by (rule gives_bnd [OF gives_append]) (auto simp: json_oom_def split: option.split intro!: gives_ret gives_error)
  with 2(2) show ?thesis by (simp add: json_escape_def t u codepoint_digits b del: drop_append)
next
  case 3
  with assms show ?thesis by simp
qed

lemma gives_string_loop:
  assumes "length s < k"
  shows "gives c (json_string_loop k (concat (map esc s) @ CHR 0x22 # r) b n)
    (\<lambda>(b', text, _). fst b' = fst b @ s \<and> text = CHR 0x22 # r)"
  using assms
proof (induction k arbitrary: s b n)
  case (Suc k)
  show ?case
  proof (cases s)
    case Nil
    then show ?thesis by (auto intro!: gives_ret)
  next
    case (Cons x s')
    let ?rest = "concat (map esc s') @ CHR 0x22 # r"
    have IH: "gives c (json_string_loop k ?rest b' n') (\<lambda>(b'', text, _). fst b'' = fst b @ s \<and> text = CHR 0x22 # r)"
      if "fst b' = fst b @ [x]" for b' n'
      by (rule gives_mono [OF Suc.IH [of s']]) (use Suc.prems Cons that in auto)
    show ?thesis
    proof (cases "\<exists>t. esc x = CHR 0x5C # t")
      case True
      then obtain t where t: "esc x = CHR 0x5C # t" by blast
      have "gives c (bnd (poll_or_fail n) (\<lambda>n. bnd (json_escape (t @ ?rest) b) (\<lambda>(b, text). json_string_loop k text b n)))
          (\<lambda>(b', text, _). fst b' = fst b @ s \<and> text = CHR 0x22 # r)"
        by (rule gives_bnd [OF gives_poll], rule gives_bnd [OF gives_unescape [OF t]]) (use IH in auto)
      then show ?thesis by (simp add: Cons t)
    next
      case False
      then have x: "esc x = [x]" "x \<noteq> CHR 0x22" "x \<noteq> CHR 0x5C" "\<not> (of_char x :: nat) < 0x20"
        by (cases x rule: esc_cases; simp)+
      have "gives c (bnd (poll_or_fail n) (\<lambda>n. bnd (buf_append_char x b) (\<lambda>v. case v of
            None \<Rightarrow> json_oom | Some b \<Rightarrow> json_string_loop k ?rest b n)))
          (\<lambda>(b', text, _). fst b' = fst b @ s \<and> text = CHR 0x22 # r)"
        by (rule gives_bnd [OF gives_poll], rule gives_bnd [OF gives_append_char])
          (use IH in \<open>auto simp: json_oom_def split: option.split intro!: gives_error\<close>)
      with x show ?thesis by (simp add: Cons)
    qed
  qed
qed simp

lemma wp_parse_quote:
  assumes "heap_inv {} [] c"
  shows "wp (json_parse_string (CHR 0x22 # concat (map esc s) @ CHR 0x22 # r, i)) (\<lambda>(v, text, _) c'. text = r \<and> is_string c' v s \<and> heap_inv {} [] c')
    fails c"
proof -
  let ?body = "concat (map esc s) @ CHR 0x22 # r"
  let ?k = "Suc (length (CHR 0x22 # ?body))"
  have "length s \<le> length (concat (map esc s))"
  proof (induction s)
    case (Cons x s)
    then show ?case by (cases x rule: esc_cases) auto
  qed simp
  then have "length s < ?k" by simp
  then have loop: "wp (json_string_loop ?k ?body empty_buffer i)
      (\<lambda>q c'. (case q of (b', text, _) \<Rightarrow> fst b' = s \<and> text = CHR 0x22 # r) \<and> limit_ctx.more c' = limit_ctx.more c)
      (poll_err c) c"
    using gives_string_loop [of s ?k c r empty_buffer i] by (simp add: gives_def empty_buffer_def)
  have eq: "json_parse_string (CHR 0x22 # concat (map esc s) @ CHR 0x22 # r, i) = bnd (json_string_loop ?k ?body empty_buffer i) (\<lambda>(b, text, n).
      if \<not> at_char (CHR 0x22) text then fe_error ''parsejson: unterminated string''
      else bnd (fe_string (fst b)) (\<lambda>v. ret (v, List.tl text, n)))"
    by (simp add: json_parse_string_def at_char_def)
  show ?thesis unfolding eq wp_bnd
  proof (rule wp_mono [OF loop])
    fix q and c' :: fe_Context
    assume q: "(case q of (b', text, _) \<Rightarrow> fst b' = s \<and> text = CHR 0x22 # r) \<and> limit_ctx.more c' = limit_ctx.more c"
    then have inv: "heap_inv {} [] c'" by (intro heap_inv_more [OF assms]) simp
    from q obtain b n where "q = (b, CHR 0x22 # r, n)" "fst b = s" by (cases q) auto
    then show "wp (case q of (b, text, n) \<Rightarrow> if \<not> at_char (CHR 0x22) text then fe_error ''parsejson: unterminated string''
          else bnd (fe_string (fst b)) (\<lambda>v. ret (v, List.tl text, n)))
        (\<lambda>(v, text, _) c'. text = r \<and> is_string c' v s \<and> heap_inv {} [] c') fails c'"
      by (simp add: at_char_def wp_bnd) (rule wp_mono [OF wp_new_string [OF inv]]; simp add: wp_ret)
  qed (auto simp: poll_err_def fails_def)
qed

end

interpretation tojson: json_escaping json_char_text
proof
  fix x
  define plain where "plain = (x \<notin> {CHR 0x22, CHR 0x5C, CHR 0x08, CHR 0x0C, CHR 0x0A, CHR 0x0D, CHR 0x09})"
  show "(\<exists>e. json_char_text x = [CHR 0x5C, e] \<and> map_of json_escapes e = Some x) \<or>
    json_char_text x = CHR 0x5C # CHR ''u'' # json_hex_digits x \<and> (of_char x :: nat) < 0x20 \<or>
    json_char_text x = [x] \<and> x \<noteq> CHR 0x22 \<and> x \<noteq> CHR 0x5C \<and> \<not> (of_char x :: nat) < 0x20"
  proof (cases plain)
    case True
    then have "json_char_text x = (if (of_char x :: nat) < 0x20 then CHR 0x5C # CHR ''u'' # json_hex_digits x else [x])"
      by (simp add: plain_def json_char_text_def)
    with True show ?thesis by (auto simp: plain_def)
  next
    case False
    then have "x = CHR 0x22 \<or> x = CHR 0x5C \<or> x = CHR 0x08 \<or> x = CHR 0x0C \<or> x = CHR 0x0A \<or> x = CHR 0x0D \<or> x = CHR 0x09"
      by (auto simp: plain_def)
    then show ?thesis by (elim disjE) (simp_all add: json_char_text_def json_escapes_def)
  qed
qed



end
