(* ===== verification/Fex_Init.thy ===== *)
theory Fex_Init
  imports Fex_Try Fex_Json
begin

text \<open>
  Initialisation of the language (\<^verbatim>\<open>fex_init_with_builtins\<close> in \<^verbatim>\<open>fex.c\<close>, the registration functions of
  \<^verbatim>\<open>fex_builtins.c\<close>). A C function is
  known to the runtime by its address, here its place in the list of all registered functions.
  Initialisation is shown to bind the functions of the chosen categories and to change no other
  symbol, so that the preset without input and output gives a program no way to reach them.
\<close>

unbundle bit_operations_syntax

section \<open>Configuration\<close>

type_synonym FexConfig = u32
type_synonym FexBuiltinsConfig = u32

definition FEX_CONFIG_NONE :: FexConfig where "FEX_CONFIG_NONE = 0"
definition FEX_CONFIG_ENABLE_SPANS :: FexConfig where "FEX_CONFIG_ENABLE_SPANS = push_bit 0 1"
definition FEX_CONFIG_ENABLE_EXTENDED_BUILTINS :: FexConfig where "FEX_CONFIG_ENABLE_EXTENDED_BUILTINS = push_bit 1 1"

definition FEX_BUILTINS_NONE :: FexBuiltinsConfig where "FEX_BUILTINS_NONE = 0"
definition FEX_BUILTINS_MATH :: FexBuiltinsConfig where "FEX_BUILTINS_MATH = push_bit 0 1"
definition FEX_BUILTINS_STRING :: FexBuiltinsConfig where "FEX_BUILTINS_STRING = push_bit 1 1"
definition FEX_BUILTINS_LIST :: FexBuiltinsConfig where "FEX_BUILTINS_LIST = push_bit 2 1"
definition FEX_BUILTINS_IO :: FexBuiltinsConfig where "FEX_BUILTINS_IO = push_bit 3 1"
definition FEX_BUILTINS_SYSTEM :: FexBuiltinsConfig where "FEX_BUILTINS_SYSTEM = push_bit 4 1"
definition FEX_BUILTINS_TYPE :: FexBuiltinsConfig where "FEX_BUILTINS_TYPE = push_bit 5 1"
definition FEX_BUILTINS_DATA :: FexBuiltinsConfig where "FEX_BUILTINS_DATA = push_bit 6 1"

definition FEX_BUILTINS_SAFE :: FexBuiltinsConfig where
  "FEX_BUILTINS_SAFE = FEX_BUILTINS_MATH OR FEX_BUILTINS_STRING OR FEX_BUILTINS_LIST OR FEX_BUILTINS_TYPE OR FEX_BUILTINS_DATA"

definition FEX_BUILTINS_ALL :: FexBuiltinsConfig where
  "FEX_BUILTINS_ALL = FEX_BUILTINS_SAFE OR FEX_BUILTINS_IO OR FEX_BUILTINS_SYSTEM"

section \<open>The tables\<close>

text \<open>A registered function: the name it gets in the language and its name in C.\<close>

type_synonym cfunction = "string \<times> string"

definition core_functions :: "cfunction list" where
  "core_functions =
     [(''print'', ''builtin_print''),
      (''println'', ''builtin_println''),
      (''readline'', ''builtin_read_line''),
      (''readnumber'', ''builtin_read_number'')]"

definition math_functions :: "cfunction list" where
  "math_functions =
     [(''sqrt'', ''builtin_sqrt''),
      (''sin'', ''builtin_sin''),
      (''cos'', ''builtin_cos''),
      (''tan'', ''builtin_tan''),
      (''abs'', ''builtin_abs''),
      (''floor'', ''builtin_floor''),
      (''ceil'', ''builtin_ceil''),
      (''round'', ''builtin_round''),
      (''min'', ''builtin_min''),
      (''max'', ''builtin_max''),
      (''pow'', ''builtin_pow''),
      (''log'', ''builtin_log''),
      (''rand'', ''builtin_random''),
      (''seedrand'', ''builtin_seed_random''),
      (''randint'', ''builtin_random_int''),
      (''randbytes'', ''builtin_random_bytes'')]"

definition string_functions :: "cfunction list" where
  "string_functions =
     [(''strlen'', ''builtin_string_length''),
      (''upper'', ''builtin_string_upper''),
      (''lower'', ''builtin_string_lower''),
      (''concat'', ''builtin_string_concat''),
      (''substring'', ''builtin_string_substring''),
      (''split'', ''builtin_string_split''),
      (''trim'', ''builtin_string_trim''),
      (''contains'', ''builtin_string_contains''),
      (''makestring'', ''builtin_make_string'')]"

definition list_functions :: "cfunction list" where
  "list_functions =
     [(''length'', ''builtin_list_length''),
      (''nth'', ''builtin_list_nth''),
      (''append'', ''builtin_list_append''),
      (''reverse'', ''builtin_list_reverse''),
      (''map'', ''builtin_map''),
      (''filter'', ''builtin_filter''),
      (''fold'', ''builtin_fold'')]"

definition io_functions :: "cfunction list" where
  "io_functions =
     [(''pathjoin'', ''builtin_path_join''),
      (''dirname'', ''builtin_dirname''),
      (''basename'', ''builtin_basename''),
      (''exists'', ''builtin_exists''),
      (''listdir'', ''builtin_list_dir''),
      (''mkdir'', ''builtin_make_dir''),
      (''mkdirp'', ''builtin_make_dir_parents''),
      (''readfile'', ''builtin_read_file''),
      (''readbytes'', ''builtin_read_bytes''),
      (''writefile'', ''builtin_write_file''),
      (''writebytes'', ''builtin_write_bytes''),
      (''readjson'', ''builtin_read_json''),
      (''writejson'', ''builtin_write_json'')]"

definition data_functions :: "cfunction list" where
  "data_functions =
     [(''makemap'', ''builtin_make_map''),
      (''mapset'', ''builtin_map_set''),
      (''mapget'', ''builtin_map_get''),
      (''maphas'', ''builtin_map_has''),
      (''mapdelete'', ''builtin_map_delete''),
      (''mapkeys'', ''builtin_map_keys''),
      (''mapcount'', ''builtin_map_count''),
      (''makebytes'', ''builtin_make_bytes''),
      (''tobytes'', ''builtin_to_bytes''),
      (''byteslen'', ''builtin_bytes_length''),
      (''byteat'', ''builtin_byte_at''),
      (''byteslice'', ''builtin_bytes_slice''),
      (''parsejson'', ''builtin_parse_json''),
      (''tojson'', ''builtin_to_json'')]"

definition system_functions :: "cfunction list" where
  "system_functions =
     [(''cwd'', ''builtin_cwd''),
      (''chdir'', ''builtin_chdir''),
      (''getenv'', ''builtin_get_env''),
      (''time'', ''builtin_time''),
      (''exit'', ''builtin_exit''),
      (''system'', ''builtin_system''),
      (''runcommand'', ''builtin_run_command''),
      (''runprocess'', ''builtin_run_process'')]"

definition type_functions :: "cfunction list" where
  "type_functions =
     [(''typeof'', ''builtin_type_of''),
      (''tostring'', ''builtin_to_string''),
      (''tonumber'', ''builtin_to_number''),
      (''isnil'', ''builtin_is_nil''),
      (''isnumber'', ''builtin_is_number''),
      (''isstring'', ''builtin_is_string''),
      (''isbytes'', ''builtin_is_bytes''),
      (''islist'', ''builtin_is_list''),
      (''ismap'', ''builtin_is_map'')]"

definition c_functions :: "string list" where
  "c_functions = map snd (core_functions @ math_functions @ string_functions @ list_functions @ io_functions @
     data_functions @ system_functions @ type_functions)"

definition fn_address :: "string \<Rightarrow> nat" where
  "fn_address f = length (takeWhile (\<lambda>g. g \<noteq> f) c_functions)"

section \<open>Registration\<close>

text \<open>
  \<^verbatim>\<open>fe_set(ctx, fe_symbol(ctx, "name"), fe_cfunc(ctx, fn))\<close>. C leaves the order of the two arguments open;
  the model makes the symbol first. Both results stay on the stack of roots until the registration
  of the group restores it.
\<close>

definition register_function :: "cfunction \<Rightarrow> unit fcomp" where
  "register_function = (\<lambda>(name, fn). bnd (fe_symbol name) (\<lambda>sy. bnd (fe_cfunc (fn_address fn)) (fe_set sy)))"

primrec register_functions :: "cfunction list \<Rightarrow> unit fcomp" where
  "register_functions [] = ret ()"
| "register_functions (f # fs) = sq (register_function f) (register_functions fs)"

definition register_group :: "cfunction list \<Rightarrow> unit fcomp" where
  "register_group fs = bnd fe_savegc (\<lambda>gc_save. sq (register_functions fs) (fe_restoregc gc_save))"

definition register_math_functions :: "unit fcomp" where "register_math_functions = register_group math_functions"
definition register_string_functions :: "unit fcomp" where "register_string_functions = register_group string_functions"
definition register_list_functions :: "unit fcomp" where "register_list_functions = register_group list_functions"
definition register_io_functions :: "unit fcomp" where "register_io_functions = register_group io_functions"
definition register_data_functions :: "unit fcomp" where "register_data_functions = register_group data_functions"
definition register_system_functions :: "unit fcomp" where "register_system_functions = register_group system_functions"
definition register_type_functions :: "unit fcomp" where "register_type_functions = register_group type_functions"

definition fex_init_extended_builtins :: "FexBuiltinsConfig \<Rightarrow> unit fcomp" where
  "fex_init_extended_builtins config =
     sq (if config AND FEX_BUILTINS_MATH \<noteq> 0 then register_math_functions else ret ())
     (sq (if config AND FEX_BUILTINS_STRING \<noteq> 0 then register_string_functions else ret ())
     (sq (if config AND FEX_BUILTINS_LIST \<noteq> 0 then register_list_functions else ret ())
     (sq (if config AND FEX_BUILTINS_IO \<noteq> 0 then register_io_functions else ret ())
     (sq (if config AND FEX_BUILTINS_DATA \<noteq> 0 then register_data_functions else ret ())
     (sq (if config AND FEX_BUILTINS_SYSTEM \<noteq> 0 then register_system_functions else ret ())
     (if config AND FEX_BUILTINS_TYPE \<noteq> 0 then register_type_functions else ret ()))))))"

definition fex_init_all_builtins :: "unit fcomp" where
  "fex_init_all_builtins = fex_init_extended_builtins FEX_BUILTINS_ALL"

text \<open>
  The error handler it installs is not part of the context: outside a try scope it prints the message
  and ends the process.
\<close>

definition effective_builtins :: "FexConfig \<Rightarrow> FexBuiltinsConfig \<Rightarrow> FexBuiltinsConfig" where
  "effective_builtins config builtins =
     (if builtins = FEX_BUILTINS_NONE \<and> config AND FEX_CONFIG_ENABLE_EXTENDED_BUILTINS \<noteq> 0
      then FEX_BUILTINS_ALL else builtins)"

definition fex_init_with_builtins :: "FexConfig \<Rightarrow> FexBuiltinsConfig \<Rightarrow> unit fcomp" where
  "fex_init_with_builtins config builtins =
     (let builtins = effective_builtins config builtins in
      sq (fex_span_set_enabled (config AND FEX_CONFIG_ENABLE_SPANS \<noteq> 0))
      (bnd fe_savegc (\<lambda>gc_save. sq (register_functions core_functions)
      (sq (if builtins \<noteq> FEX_BUILTINS_NONE then fex_init_extended_builtins builtins else ret ())
      (fe_restoregc gc_save)))))"

definition fex_init :: "unit fcomp" where
  "fex_init = fex_init_with_builtins FEX_CONFIG_NONE FEX_BUILTINS_NONE"

definition fex_init_with_config :: "FexConfig \<Rightarrow> unit fcomp" where
  "fex_init_with_config config = fex_init_with_builtins config FEX_BUILTINS_NONE"

section \<open>What registration binds\<close>

definition is_cfunc :: "fe_Context \<Rightarrow> ptr \<Rightarrow> string \<Rightarrow> bool" where
  "is_cfunc c v f \<longleftrightarrow> (\<exists>i. v = Ref i \<and> i < length (objects c) \<and> ty (objects c ! i) = FE_TCFUNC \<and>
     ocdr (objects c ! i) = VFn (fn_address f))"

text \<open>A value a new context gives its symbols: neither a C function nor a pair, nor a cell that is free.\<close>

definition plain_value :: "fe_Context \<Rightarrow> ptr \<Rightarrow> bool" where
  "plain_value c v \<longleftrightarrow> (\<forall>i. v = Ref i \<longrightarrow> i < length (objects c) \<and> ty (objects c ! i) \<notin> {FE_TFREE, FE_TCFUNC, FE_TPAIR})"

text \<open>
  \<open>registered tab fs c tab'\<close>: starting from a context with the symbols \<open>tab\<close>, the functions \<open>fs\<close> have
  been registered (the latest first), which leads to \<open>c\<close> with the symbols \<open>tab'\<close>.
\<close>

definition registered :: "sym_entry list \<Rightarrow> cfunction list \<Rightarrow> fe_Context \<Rightarrow> sym_entry list \<Rightarrow> bool" where
  "registered tab fs c tab' \<longleftrightarrow> heap_inv {} [] c \<and> interned c tab' \<and>
     (\<forall>(sy, s, v) \<in> set tab'. case map_of fs s of Some f \<Rightarrow> is_cfunc c v f
        | None \<Rightarrow> (sy, s, v) \<in> set tab \<and> plain_value c v) \<and>
     fst ` set fs \<subseteq> (fst \<circ> snd) ` set tab' \<and>
     (\<forall>(sy, s, v) \<in> set tab. \<exists>v'. (sy, s, v') \<in> set tab')"

lemma registered_refl:
  "heap_inv {} [] c \<Longrightarrow> interned c tab \<Longrightarrow> \<forall>(sy, s, v) \<in> set tab. plain_value c v \<Longrightarrow> registered tab [] c tab"
  by (auto simp: registered_def)

lemma entry_value_kept:
  assumes t: "interned c tab" "(sy, s, Ref m) \<in> set tab"
    and "m < length (objects c)" and "ty (objects c ! m) \<noteq> FE_TFREE"
  shows "kept c m"
proof -
  from interned_entry [OF t] interned_live(2) [OF t] obtain d where d: "kept c d" "ty (objects c ! d) = FE_TPAIR"
    "ocdr (objects c ! d) = VObj (Ref m)" "\<exists>n. ocar (objects c ! d) = VObj (Ref n)" by (blast elim: sym_obj_kept)
  show ?thesis by (rule kept_kid [OF d(1)]) (use d assms in \<open>auto simp: kids_def\<close>)
qed

lemma is_cfunc_evo:
  assumes "interned c tab" "(sy, s, v) \<in> set tab" "is_cfunc c v f" "evo {} [] c c'"
  shows "is_cfunc c' v f"
proof -
  from assms(3) obtain m where m: "v = Ref m" "m < length (objects c)" "ty (objects c ! m) = FE_TCFUNC"
    "ocdr (objects c ! m) = VFn (fn_address f)" by (auto simp: is_cfunc_def)
  then have "kept c m" using assms(1,2) by (intro entry_value_kept) auto
  with assms(4) m show ?thesis by (auto simp: evo_def is_cfunc_def)
qed

lemma plain_value_evo:
  assumes "interned c tab" "(sy, s, v) \<in> set tab" "plain_value c v" "evo {} [] c c'"
  shows "plain_value c' v"
proof -
  have "kept c m" if "v = Ref m" for m using that assms(1-3) by (intro entry_value_kept) (auto simp: plain_value_def)
  with assms(3,4) show ?thesis by (auto simp: evo_def plain_value_def)
qed

lemma wp_fe_cfunc:
  assumes "heap_inv X P c" "X \<subseteq> {i. kept c i}"
  shows "wp (fe_cfunc f) (\<lambda>p c'. \<exists>i. p = Ref i \<and> built X P c i (\<lambda>o'. ty o' = FE_TCFUNC \<and> ocdr o' = VFn f) c')
    (alloc_err X P) c"
  unfolding fe_cfunc_def by (rule wp_new_cell [OF assms]) (simp add: gc_ok_def is_data_def)

lemma registered_evo:
  assumes "registered tab fs c tab'" and "heap_inv {} [] c'" and "evo {} [] c c'" and "interned c' tab'"
  shows "registered tab fs c' tab'"
  using assms is_cfunc_evo [of c tab' _ _ _ _ c'] plain_value_evo [of c tab' _ _ _ c']
  by (auto simp: registered_def split: option.splits)

text \<open>A table \<open>tab1\<close> that may have the name in addition, and the value set to the function.\<close>

lemma wp_register_set:
  assumes r: "registered tab fs c tab'" and e2: "evo {} [] c c2" and inv: "heap_inv {} [] c2" and t2: "interned c2 tab1"
    and sy: "(sy, name, w) \<in> set tab1" and v: "is_cfunc c2 v f"
    and tab1: "set tab' \<subseteq> set tab1" "\<forall>e \<in> set tab1. fst (snd e) \<noteq> name \<longrightarrow> e \<in> set tab'"
  shows "wp (fe_set sy v) (\<lambda>_ c'. \<exists>tab''. registered tab ((name, f) # fs) c' tab'') E c2"
proof (rule wp_mono [OF wp_fe_set [OF inv t2 sy]])
  fix x c3
  assume h: "interned c3 (set_value sy v tab1) \<and> heap_inv {} [] c3 \<and> gcstack c3 = gcstack c2 \<and>
    (\<forall>j. ty (objects c2 ! j) \<noteq> FE_TPAIR \<longrightarrow> objects c3 ! j = objects c2 ! j) \<and>
    length (objects c3) = length (objects c2)"
  from r have t: "interned c tab'" by (simp add: registered_def)
  from h have cf: "is_cfunc c2 u k \<Longrightarrow> is_cfunc c3 u k" for u k by (auto simp: is_cfunc_def)
  from h have pv: "plain_value c2 u \<Longrightarrow> plain_value c3 u" for u by (auto simp: plain_value_def)
  have "case map_of ((name, f) # fs) s of Some f \<Rightarrow> is_cfunc c3 u f | None \<Rightarrow> (sy', s, u) \<in> set tab \<and> plain_value c3 u"
    if "(sy', s, u) \<in> set (set_value sy v tab1)" for sy' s u
  proof -
    from that obtain u0 where u0: "(sy', s, u0) \<in> set tab1" "u = (if sy' = sy then v else u0)"
      by (auto simp: set_value_def)
    show ?thesis
    proof (cases "s = name")
      case True
      with u0 t2 sy have "sy' = sy" by (auto dest: interned_inj)
      with True u0(2) cf [OF v] show ?thesis by simp
    next
      case False
      with u0(1) t2 sy have "sy' \<noteq> sy" by (blast dest: interned_entry sym_obj_name)
      with u0 False tab1(2) have m: "(sy', s, u) \<in> set tab'" by fastforce
      with r have "case map_of fs s of Some f \<Rightarrow> is_cfunc c u f | None \<Rightarrow> (sy', s, u) \<in> set tab \<and> plain_value c u"
        by (auto simp: registered_def)
      with False is_cfunc_evo [OF t m _ e2] plain_value_evo [OF t m _ e2] cf pv show ?thesis by (auto split: option.splits)
    qed
  qed
  moreover have "(fst \<circ> snd) ` set (set_value sy v tab1) = (fst \<circ> snd) ` set tab1"
    by (force simp: set_value_def)
  moreover have "fst ` set fs \<subseteq> (fst \<circ> snd) ` set tab1" using r tab1(1) unfolding registered_def by blast
  moreover have "name \<in> (fst \<circ> snd) ` set tab1" using sy by force
  moreover have "\<exists>v'. (sy', s, v') \<in> set (set_value sy v tab1)" if "(sy', s, u) \<in> set tab" for sy' s u
  proof -
    from r that obtain v' where "(sy', s, v') \<in> set tab'" by (auto simp: registered_def)
    then have "(sy', s, v') \<in> set tab1" using tab1(1) by blast
    then show ?thesis by (force simp: set_value_def)
  qed
  ultimately have "registered tab ((name, f) # fs) c3 (set_value sy v tab1)" using h by (auto simp: registered_def)
  then show "\<exists>tab''. registered tab ((name, f) # fs) c3 tab''" by blast
qed simp

lemma found_or_pushed:
  assumes "case find (\<lambda>e. fst (snd e) = name) tab of
      Some e \<Rightarrow> sy = fst e \<and> interned c tab | None \<Rightarrow> interned c ((sy, name, Nil) # tab)"
  obtains tab1 w where "interned c tab1" "(sy, name, w) \<in> set tab1" "set tab \<subseteq> set tab1"
    "\<forall>e \<in> set tab1. fst (snd e) \<noteq> name \<longrightarrow> e \<in> set tab"
proof (cases "find (\<lambda>e. fst (snd e) = name) tab")
  case None
  with assms show ?thesis by (intro that [of "(sy, name, Nil) # tab" Nil]) auto
next
  case (Some e)
  then have "e \<in> set tab" "fst (snd e) = name" by (auto simp: find_Some_iff)
  with Some assms show ?thesis by (cases e) (auto intro!: that [of tab])
qed

lemma wp_register_function:
  assumes r: "registered tab fs c tab'"
  shows "wp (register_function (name, f)) (\<lambda>_ c'. \<exists>tab''. registered tab ((name, f) # fs) c' tab'')
    (\<lambda>e c'. map_err e) c" (is "wp _ ?Q ?E c")
proof -
  from r have inv: "heap_inv {} [] c" and t: "interned c tab'" by (simp_all add: registered_def)
  show ?thesis
    unfolding register_function_def prod.case wp_bnd
  proof (rule wp_mono [OF wp_fe_symbol [OF inv t]])
    fix sy c1
    assume g: "grown c c1 \<and> live_ptr c1 sy \<and> (case find (\<lambda>e. fst (snd e) = name) tab' of
        Some e \<Rightarrow> sy = fst e \<and> interned c1 tab' | None \<Rightarrow> interned c1 ((sy, name, Nil) # tab'))"
    from conjunct2 [OF conjunct2 [OF this]]
    obtain tab1 w where t1: "interned c1 tab1" "(sy, name, w) \<in> set tab1" "set tab' \<subseteq> set tab1"
      "\<forall>e \<in> set tab1. fst (snd e) \<noteq> name \<longrightarrow> e \<in> set tab'" by (rule found_or_pushed)
    show "wp (fe_cfunc (fn_address f)) (\<lambda>v c. wp (fe_set sy v) ?Q ?E c) ?E c1"
    proof (rule wp_mono [OF wp_fe_cfunc])
      show "heap_inv {} [] c1" using g by (simp add: grown_def)
      fix v c2
      assume "\<exists>i. v = Ref i \<and> built {} [] c1 i (\<lambda>o'. ty o' = FE_TCFUNC \<and> ocdr o' = VFn (fn_address f)) c2"
      then obtain i where i: "v = Ref i" "built {} [] c1 i (\<lambda>o'. ty o' = FE_TCFUNC \<and> ocdr o' = VFn (fn_address f)) c2" by blast
      then have b: "heap_inv {} [] c2" "evo {} [] c1 c2" "is_cfunc c2 v f" by (auto simp: built_def is_cfunc_def kept_def)
      have t2: "interned c2 tab1" by (rule interned_evo [OF t1(1) b(2) pushed_symlist [OF pushed_built [OF i(2)]]])
      have e2: "evo {} [] c c2" using g b(2) by (auto simp: grown_def intro: evo_trans)
      show "wp (fe_set sy v) ?Q ?E c2" by (rule wp_register_set [OF r e2 b(1) t2 t1(2) b(3) t1(3,4)])
    qed (auto simp: alloc_err_def map_err_def)
  qed simp
qed

lemma registered_cong:
  assumes r: "registered tab fs c tab'" and f: "objects c' = objects c" "freelist c' = freelist c" "slabs c' = slabs c"
    "str_freelist c' = str_freelist c" "symlist c' = symlist c" and "wf_spans c'"
  shows "registered tab fs c' tab'"
proof -
  have inv: "heap_inv {} [] c'" by (rule heap_inv_cong) (use assms in \<open>simp_all add: registered_def\<close>)
  have "obj_bytes c' p = obj_bytes c p" for p by (rule obj_bytes_fields [OF f(1,3)])
  then have so: "sym_obj c' sy s v = sym_obj c sy s v" for sy s v
    by (simp add: sym_obj_def is_string_def typeof_def f)
  have cf: "is_cfunc c' v g = is_cfunc c v g" "plain_value c' v = plain_value c v" for v g
    by (simp_all add: is_cfunc_def plain_value_def f)
  show ?thesis using r inv unfolding registered_def interned_def so cf f
    by - (elim conjE, intro conjI; assumption)
qed

lemma registered_gcstack:
  assumes "registered tab fs c tab'"
  shows "registered tab fs (c\<lparr>gcstack := xs\<rparr>) tab'"
  by (rule registered_cong [OF assms]) (use assms in \<open>simp_all add: registered_def heap_inv_def wf_spans_def\<close>)

lemma wp_register_functions:
  "registered tab fs c tab' \<Longrightarrow>
   wp (register_functions gs) (\<lambda>_ c'. \<exists>tab''. registered tab (rev gs @ fs) c' tab'') (\<lambda>e c'. map_err e) c"
proof (induction gs arbitrary: fs c tab')
  case (Cons g gs)
  obtain name f where g: "g = (name, f)" by (cases g)
  show ?case unfolding register_functions.simps wp_sq g
    by (rule wp_mono [OF wp_register_function [OF Cons.prems]]) (use Cons.IH in auto)
qed (auto simp: wp_simps)

lemma wp_register_group:
  assumes "registered tab fs c tab'"
  shows "wp (register_group gs) (\<lambda>_ c'. \<exists>tab''. registered tab (rev gs @ fs) c' tab'') (\<lambda>e c'. map_err e) c"
  unfolding register_group_def fe_savegc_def fe_restoregc_def wp_bnd wp_gets wp_sq
  by (rule wp_mono [OF wp_register_functions [OF assms]]) (auto simp: wp_modify intro: registered_gcstack)

text \<open>The functions a mask stands for, the latest registered first.\<close>

definition group_of :: "FexBuiltinsConfig \<Rightarrow> FexBuiltinsConfig \<Rightarrow> cfunction list \<Rightarrow> cfunction list" where
  "group_of config category fs = (if config AND category \<noteq> 0 then rev fs else [])"

definition enabled_functions :: "FexBuiltinsConfig \<Rightarrow> cfunction list" where
  "enabled_functions config =
     group_of config FEX_BUILTINS_TYPE type_functions @ group_of config FEX_BUILTINS_SYSTEM system_functions @
     group_of config FEX_BUILTINS_DATA data_functions @ group_of config FEX_BUILTINS_IO io_functions @
     group_of config FEX_BUILTINS_LIST list_functions @ group_of config FEX_BUILTINS_STRING string_functions @
     group_of config FEX_BUILTINS_MATH math_functions @ rev core_functions"

lemma wp_group_sq:
  assumes "registered tab fs c tab'"
    and "\<And>c' tab'. registered tab (group_of config k gs @ fs) c' tab' \<Longrightarrow> wp m Q (\<lambda>e c'. map_err e) c'"
  shows "wp (sq (if config AND k \<noteq> 0 then register_group gs else ret ()) m) Q (\<lambda>e c'. map_err e) c"
proof (cases "config AND k = 0")
  case False
  with assms(2) show ?thesis unfolding wp_sq
    by (simp add: group_of_def) (rule wp_mono [OF wp_register_group [OF assms(1)]], auto)
qed (use assms in \<open>simp add: wp_sq wp_ret group_of_def\<close>)

lemma wp_extended:
  assumes "registered tab (rev core_functions) c tab'"
  shows "wp (fex_init_extended_builtins config) (\<lambda>_ c'. \<exists>tab''. registered tab (enabled_functions config) c' tab'')
    (\<lambda>e c'. map_err e) c"
  unfolding fex_init_extended_builtins_def register_math_functions_def register_string_functions_def
    register_list_functions_def register_io_functions_def register_data_functions_def register_system_functions_def
    register_type_functions_def
  apply (rule wp_group_sq [OF assms], rule wp_group_sq, assumption, rule wp_group_sq, assumption, rule wp_group_sq, assumption,
      rule wp_group_sq, assumption, rule wp_group_sq, assumption)
  apply (subst sq_ret [symmetric], rule wp_group_sq, assumption)
  apply (auto simp: wp_ret enabled_functions_def)
  done


lemma registered_span:
  assumes "registered tab fs c tab'" and "length (buckets st) = BUCKETS"
  shows "registered tab fs (c\<lparr>span_state := Some st\<rparr>) tab'"
  by (rule registered_cong [OF assms(1)]) (simp_all add: wf_spans_def assms(2))

lemma registered_more:
  assumes r: "registered tab fs c tab'" and m: "limit_ctx.more c' = limit_ctx.more c"
  shows "registered tab fs c' tab'"
  by (rule registered_cong [OF r]) (use r more_fields [OF m] in \<open>simp_all add: registered_def heap_inv_def wf_spans_def\<close>)

lemma wp_span_init:
  assumes r: "registered tab fs c tab'"
  shows "wp fex_span_init (\<lambda>_ c'. registered tab fs c' tab') E c"
proof -
  obtain x c1 where x: "tracked_alloc sizeof_FexSpanState c = (x, c1)" by fastforce
  then have "registered tab fs c1 tab'"
    using more_tracked_alloc [of sizeof_FexSpanState c] by (intro registered_more [OF r]) simp
  then show ?thesis
    by (simp add: fex_span_init_def span_alloc_def set_state_def wp_simps x registered_span)
qed

lemma wp_span_enabled:
  assumes r: "registered tab fs c tab'"
  shows "wp (fex_span_set_enabled b) (\<lambda>_ c'. registered tab fs c' tab') (\<lambda>e c'. map_err e) c"
proof -
  let ?flag = "bnd (gets span_state) (\<lambda>st. case st of None \<Rightarrow> ret () | Some state \<Rightarrow> set_state (state\<lparr>span_enabled := b\<rparr>))"
  have flag: "wp ?flag (\<lambda>_ c'. registered tab fs c' tab') (\<lambda>e c'. map_err e) c1" if "registered tab fs c1 tab'" for c1
  proof -
    have "wf_spans c1" using that by (simp add: registered_def heap_inv_def)
    with that registered_span [OF that] show ?thesis
      unfolding wp_bnd wp_gets by (cases "span_state c1") (simp_all add: wp_ret wp_modify set_state_def wf_spans_def)
  qed
  have err: "wp (memory_error msg) Q (\<lambda>e c'. map_err e) c1" for msg c1 and Q :: "unit \<Rightarrow> fe_Context \<Rightarrow> bool"
    by (simp add: wp_def memory_error_def fe_error_def map_err_def)
  let ?ensure = "bnd (gets span_state) (\<lambda>st. if b \<and> st = None then
      sq fex_span_init (bnd (gets span_state) (\<lambda>st.
        if st = None then memory_error ''out of memory (span state)'' else ret ())) else ret ())"
  have "wp ?ensure (\<lambda>_ c'. registered tab fs c' tab') (\<lambda>e c'. map_err e) c"
  proof (cases "b \<and> span_state c = None")
    case True
    have "wp fex_span_init (\<lambda>_. wp (bnd (gets span_state) (\<lambda>st.
        if st = None then memory_error ''out of memory (span state)'' else ret ()))
        (\<lambda>_ c'. registered tab fs c' tab') (\<lambda>e c'. map_err e)) (\<lambda>e c'. map_err e) c"
      by (rule wp_mono [OF wp_span_init [OF r]]) (simp_all add: wp_bnd wp_gets wp_ret err)
    with True show ?thesis by (simp add: wp_bnd wp_gets wp_sq)
  qed (auto simp: wp_bnd wp_gets wp_ret r)
  then show ?thesis unfolding fex_span_set_enabled_def wp_sq by (rule wp_mono) (simp_all add: flag)
qed

lemma wp_init:
  assumes "registered tab [] c tab"
  shows "wp (fex_init_with_builtins config builtins)
    (\<lambda>_ c'. \<exists>tab'. registered tab (enabled_functions (effective_builtins config builtins)) c' tab') (\<lambda>e c'. map_err e) c"
proof -
  define m where "m = effective_builtins config builtins"
  have none: "enabled_functions FEX_BUILTINS_NONE = rev core_functions"
    by (simp add: enabled_functions_def group_of_def FEX_BUILTINS_NONE_def)
  have ext: "wp (if m \<noteq> FEX_BUILTINS_NONE then fex_init_extended_builtins m else ret ())
      (\<lambda>_ c'. \<exists>tab'. registered tab (enabled_functions m) c' tab') (\<lambda>e c'. map_err e) c1"
    if "registered tab (rev core_functions @ []) c1 tab1" for c1 tab1
    using that none wp_extended [of tab c1 tab1 m] by (auto simp: wp_ret)
  show ?thesis
    unfolding fex_init_with_builtins_def m_def [symmetric] Let_def fe_savegc_def fe_restoregc_def wp_sq wp_bnd wp_gets
  proof (rule wp_mono [OF wp_span_enabled [OF assms]])
    fix x c1 assume "registered tab [] c1 tab"
    from wp_register_functions [OF this, of core_functions]
    show "wp (register_functions core_functions) (\<lambda>_ c'. wp (if m \<noteq> FEX_BUILTINS_NONE then fex_init_extended_builtins m else ret ())
        (\<lambda>_ c'. wp (modify (\<lambda>c'. c'\<lparr>gcstack := take (length (gcstack c1)) (gcstack c')\<rparr>))
          (\<lambda>_ c'. \<exists>tab'. registered tab (enabled_functions m) c' tab') (\<lambda>e c'. map_err e) c') (\<lambda>e c'. map_err e) c') (\<lambda>e c'. map_err e) c1"
    proof (rule wp_mono)
      fix y c2 assume "\<exists>tab''. registered tab (rev core_functions @ []) c2 tab''"
      then obtain tab2 where "registered tab (rev core_functions @ []) c2 tab2" by blast
      from ext [OF this]
      show "wp (if m \<noteq> FEX_BUILTINS_NONE then fex_init_extended_builtins m else ret ())
        (\<lambda>_ c'. wp (modify (\<lambda>c'. c'\<lparr>gcstack := take (length (gcstack c1)) (gcstack c')\<rparr>))
          (\<lambda>_ c'. \<exists>tab'. registered tab (enabled_functions m) c' tab') (\<lambda>e c'. map_err e) c') (\<lambda>e c'. map_err e) c2"
        by (rule wp_mono) (auto simp: wp_modify intro: registered_gcstack)
    qed
  qed simp
qed


section \<open>The tables have no double entries\<close>

lemma names_distinct:
  "distinct (map fst (type_functions @ system_functions @ data_functions @ io_functions @ list_functions @
     string_functions @ math_functions @ core_functions))"
  by code_simp

lemma group_ofD:
  assumes "distinct (map fst (xs @ ys))" and "distinct (map fst ys') \<and> set ys' \<subseteq> set ys"
  shows "distinct (map fst (group_of m k xs @ ys')) \<and> set (group_of m k xs @ ys') \<subseteq> set (xs @ ys)"
  using assms by (auto simp: group_of_def rev_map [symmetric])

lemma enabled_functionsD:
  "distinct (map fst (enabled_functions m)) \<and> set (enabled_functions m) \<subseteq> set (type_functions @ system_functions @
     data_functions @ io_functions @ list_functions @ string_functions @ math_functions @ core_functions)"
  unfolding enabled_functions_def
  by (intro group_ofD) (use names_distinct in \<open>simp_all add: rev_map [symmetric]\<close>)

lemma fn_address_inj:
  assumes "f \<in> set c_functions" and "g \<in> set c_functions" and "fn_address f = fn_address g"
  shows "f = g"
proof -
  have "c_functions ! fn_address h = h" if "h \<in> set c_functions" for h
  proof -
    have "dropWhile (\<lambda>g. g \<noteq> h) c_functions \<noteq> []" using that by (auto simp: dropWhile_eq_Nil_conv)
    moreover have "length (takeWhile (\<lambda>g. g \<noteq> h) c_functions) + length (dropWhile (\<lambda>g. g \<noteq> h) c_functions) = length c_functions"
      unfolding length_append [symmetric] takeWhile_dropWhile_id ..
    ultimately have "length (takeWhile (\<lambda>g. g \<noteq> h) c_functions) < length c_functions" by (cases "dropWhile (\<lambda>g. g \<noteq> h) c_functions") auto
    from nth_length_takeWhile [OF this] show ?thesis by (simp add: fn_address_def)
  qed
  with assms show ?thesis by metis
qed

lemma outside_functions:
  "set (io_functions @ system_functions) \<inter>
   (set core_functions \<union> set math_functions \<union> set string_functions \<union> set list_functions \<union> set data_functions \<union> set type_functions) = {}"
  "snd ` set (io_functions @ system_functions) \<inter>
   snd ` (set core_functions \<union> set math_functions \<union> set string_functions \<union> set list_functions \<union> set data_functions \<union> set type_functions) = {}"
  by code_simp+

lemma enabled_c_function: "(name, f) \<in> set (enabled_functions m) \<Longrightarrow> f \<in> set c_functions"
proof -
  assume "(name, f) \<in> set (enabled_functions m)"
  with enabled_functionsD [of m] have "f \<in> snd ` set (type_functions @ system_functions @
     data_functions @ io_functions @ list_functions @ string_functions @ math_functions @ core_functions)"
    by (metis (no_types, lifting) image_eqI snd_conv subsetD)
  then show ?thesis by (auto simp: c_functions_def)
qed

text \<open>Without the two categories, none of their functions is enabled.\<close>

lemma enabled_inside:
  assumes "m AND FEX_BUILTINS_IO = 0" and "m AND FEX_BUILTINS_SYSTEM = 0" and "(name, f) \<in> set (enabled_functions m)"
  shows "f \<notin> snd ` set (io_functions @ system_functions)"
proof -
  have "(name, f) \<in> set core_functions \<union> set math_functions \<union> set string_functions \<union> set list_functions \<union>
      set data_functions \<union> set type_functions"
    using assms by (auto simp: enabled_functions_def group_of_def split: if_splits)
  then have "f \<in> snd ` (set core_functions \<union> set math_functions \<union> set string_functions \<union> set list_functions \<union>
      set data_functions \<union> set type_functions)" by (rule image_eqI [rotated]) simp
  with outside_functions(2) show ?thesis by blast
qed

lemma registered_value:
  assumes "registered tab (enabled_functions m) c tab'" and "(sy, name, v) \<in> set tab'"
  shows "name \<in> fst ` set (enabled_functions m) \<or> (sy, name, v) \<in> set tab"
    and "f \<in> set c_functions \<Longrightarrow> is_cfunc c v f \<Longrightarrow> (name, f) \<in> set (enabled_functions m)"
proof -
  from assms have e: "case map_of (enabled_functions m) name of Some f \<Rightarrow> is_cfunc c v f
      | None \<Rightarrow> (sy, name, v) \<in> set tab \<and> plain_value c v" by (auto simp: registered_def)
  then show "name \<in> fst ` set (enabled_functions m) \<or> (sy, name, v) \<in> set tab"
    by (auto split: option.splits simp: map_of_eq_None_iff dest: map_of_SomeD intro: rev_image_eqI)
  show "(name, f) \<in> set (enabled_functions m)" if f: "f \<in> set c_functions" "is_cfunc c v f"
  proof (cases "map_of (enabled_functions m) name")
    case None
    with e f(2) show ?thesis by (auto simp: plain_value_def is_cfunc_def)
  next
    case (Some g)
    then have g: "(name, g) \<in> set (enabled_functions m)" by (rule map_of_SomeD)
    with e Some f have "f = g" by (intro fn_address_inj [OF f(1) enabled_c_function [OF g]]) (auto simp: is_cfunc_def)
    with g show ?thesis by simp
  qed
qed

lemma registered_bound:
  assumes r: "registered tab (enabled_functions m) c tab'" and f: "(name, f) \<in> set (enabled_functions m)"
  shows "\<exists>sy v. (sy, name, v) \<in> set tab' \<and> is_cfunc c v f"
proof -
  have "map_of (enabled_functions m) name = Some f"
    using f enabled_functionsD [of m] by (intro map_of_is_SomeI) simp_all
  moreover from r f have "name \<in> (fst \<circ> snd) ` set tab'"
    unfolding registered_def by (metis (no_types, lifting) fst_conv image_eqI subsetD)
  then obtain sy v where "(sy, name, v) \<in> set tab'" by auto
  moreover from r this have "case map_of (enabled_functions m) name of Some f \<Rightarrow> is_cfunc c v f
      | None \<Rightarrow> (sy, name, v) \<in> set tab \<and> plain_value c v" by (auto simp: registered_def)
  ultimately show ?thesis by auto
qed



end
