(* ===== verification/Fex_Main.thy ===== *)
theory Fex_Main
  imports Fex_Import Fex_Init
begin

text \<open>
  The command line program (\<^verbatim>\<open>main.c\<close>, the POSIX branch): options, the choice of the input, the
  diagnostics in text and JSON, the exit codes and the interactive loop. This is where the parts
  meet: a context is opened, initialised with the chosen functions and limits, and a source is run
  in a try scope. An early \<^verbatim>\<open>return\<close> or \<^verbatim>\<open>exit\<close> is a computation that stops with the exit code; what is
  written to the two output streams is part of the state. Memory the program takes for itself comes
  from an oracle like that of the runtime. What the interpreted program reads and prints on its own
  goes through its host functions.
\<close>

section \<open>Numbers on the command line\<close>

text \<open>\<^verbatim>\<open>strtoull(s, &end, 10)\<close> and \<^verbatim>\<open>strtol(s, &end, 10)\<close>: the value and \<^verbatim>\<open>end - s\<close>.\<close>

definition strtoull10 :: "string \<Rightarrow> int \<times> nat" where
  "strtoull10 s =
     (let w = length (takeWhile isspace s); (neg, k) = sign_part (drop w s);
          ds = takeWhile isdigit (drop (w + k) s); v = int (digits_val 10 ds)
      in if ds = [] then (0, 0)
         else (if v \<ge> 2 ^ 64 then 2 ^ 64 - 1 else if neg then (- v) mod 2 ^ 64 else v, w + k + length ds))"

definition strtol10 :: "string \<Rightarrow> int \<times> nat" where
  "strtol10 s =
     (let w = length (takeWhile isspace s); (neg, k) = sign_part (drop w s);
          ds = takeWhile isdigit (drop (w + k) s); v = int (digits_val 10 ds)
      in if ds = [] then (0, 0)
         else (if neg then max (- (2 ^ 63)) (- v) else min (2 ^ 63 - 1) v, w + k + length ds))"

section \<open>State of the program\<close>

text \<open>
  The local variables of \<^verbatim>\<open>fex_main_utf8\<close>, with the text written to the two streams and the number of
  allocations asked for so far. The inline source is NULL until a fragment is appended.
\<close>

record cli =
  o_enable_spans :: bool
  o_read_stdin :: bool
  o_end_of_options :: bool
  o_show_stats :: bool
  o_json_output :: bool
  o_memory_pool_size :: size_t
  o_max_steps :: size_t
  o_max_memory :: size_t
  o_timeout_ms :: u64
  o_max_eval_depth :: int
  o_max_read_depth :: int
  o_filename :: "string option"
  o_eval_source :: "string option"
  o_eval_source_cap :: nat
  o_module_paths :: "string list"
  o_builtins :: FexBuiltinsConfig
  cli_out :: string
  cli_err :: string
  cli_mallocs :: nat

text \<open>What the program finds around it, and what the interpreted program reaches through host functions.\<close>

record cli_env =
  env_cli_malloc :: "nat \<Rightarrow> size_t \<Rightarrow> bool"
  env_runtime :: fe_env
  env_files :: os_files
  env_host :: host
  env_stdin :: string
  env_stdin_error :: bool
  env_stdin_tty :: bool

text \<open>\<open>Return n\<close>: the process ends with exit code \<open>n\<close>. \<open>Stuck e\<close>: a crash, or the fuel of the model is used up.\<close>

datatype main_exit = Return int | Stuck fe_err

type_synonym 'a mcomp = "(cli, main_exit, 'a) comp"

definition MEMORY_POOL_SIZE :: size_t where "MEMORY_POOL_SIZE = 5 * 1024 * 1024"
definition REPL_BUFFER_SIZE :: nat where "REPL_BUFFER_SIZE = 1024"

definition initial_cli :: cli where
  "initial_cli = \<lparr>o_enable_spans = False, o_read_stdin = False, o_end_of_options = False, o_show_stats = False,
     o_json_output = False, o_memory_pool_size = MEMORY_POOL_SIZE, o_max_steps = 0, o_max_memory = 0, o_timeout_ms = 0,
     o_max_eval_depth = - 1, o_max_read_depth = - 1, o_filename = None, o_eval_source = None, o_eval_source_cap = 0,
     o_module_paths = [], o_builtins = FEX_BUILTINS_NONE, cli_out = [], cli_err = [], cli_mallocs = 0\<rparr>"

definition cli_alloc :: "cli_env \<Rightarrow> nat \<Rightarrow> bool mcomp" where
  "cli_alloc M n = lift_st (\<lambda>o'. (env_cli_malloc M (cli_mallocs o') (of_nat n), o'\<lparr>cli_mallocs := Suc (cli_mallocs o')\<rparr>))"

definition eprint :: "string \<Rightarrow> unit mcomp" where
  "eprint s = modify (\<lambda>o'. o'\<lparr>cli_err := cli_err o' @ s\<rparr>)"

definition oprint :: "string \<Rightarrow> unit mcomp" where
  "oprint s = modify (\<lambda>o'. o'\<lparr>cli_out := cli_out o' @ s\<rparr>)"

section \<open>Exit codes and builtin categories\<close>

definition exit_code_for_status :: "FexStatus \<Rightarrow> int" where
  "exit_code_for_status status = (case status of
      FEX_STATUS_COMPILE_ERROR \<Rightarrow> 65
    | FEX_STATUS_RUNTIME_ERROR \<Rightarrow> 70
    | FEX_STATUS_IO_ERROR \<Rightarrow> 74
    | FEX_STATUS_OK \<Rightarrow> 1)"

definition builtin_mask_from_name :: "string \<Rightarrow> FexBuiltinsConfig option" where
  "builtin_mask_from_name name =
     (if name = ''math'' then Some FEX_BUILTINS_MATH
      else if name = ''string'' then Some FEX_BUILTINS_STRING
      else if name = ''list'' then Some FEX_BUILTINS_LIST
      else if name = ''io'' then Some FEX_BUILTINS_IO
      else if name = ''system'' then Some FEX_BUILTINS_SYSTEM
      else if name = ''type'' then Some FEX_BUILTINS_TYPE
      else if name = ''data'' then Some FEX_BUILTINS_DATA
      else if name = ''safe'' then Some FEX_BUILTINS_SAFE
      else if name = ''all'' then Some FEX_BUILTINS_ALL
      else None)"

definition trim_spaces :: "string \<Rightarrow> string" where
  "trim_spaces s = rev (dropWhile isspace (rev (dropWhile isspace s)))"

text \<open>The loop over the tokens between commas; \<open>None\<close> is the result 0.\<close>

function add_builtin_tokens :: "FexBuiltinsConfig \<Rightarrow> string \<Rightarrow> FexBuiltinsConfig option" where
  "add_builtin_tokens bits token =
     (let start = trim_spaces (takeWhile (\<lambda>c. c \<noteq> CHR '','') token); behind = dropWhile (\<lambda>c. c \<noteq> CHR '','') token
      in if start = [] then None
         else case builtin_mask_from_name start of
             None \<Rightarrow> None
           | Some token_mask \<Rightarrow>
               if behind \<noteq> [] then add_builtin_tokens (bits OR token_mask) (tl behind) else Some (bits OR token_mask))"
  by auto
termination
proof (relation "measure (length \<circ> snd)")
  fix bits token start behind token_mask
  assume "behind = dropWhile (\<lambda>c. c \<noteq> CHR '','') token" "behind \<noteq> []"
  then have "length behind \<le> length token" "0 < length behind" using length_dropWhile_le by auto
  then show "((bits OR token_mask, List.tl behind), bits, token) \<in> measure (length \<circ> snd)" by (cases behind) auto
qed simp

declare add_builtin_tokens.simps [simp del]

definition add_builtin_spec :: "cli_env \<Rightarrow> string \<Rightarrow> bool mcomp" where
  "add_builtin_spec M spec = bnd (cli_alloc M (length spec + 1)) (\<lambda>copy.
     if \<not> copy then ret False
     else bnd (gets o_builtins) (\<lambda>bits. case add_builtin_tokens bits spec of
         None \<Rightarrow> ret False
       | Some bits \<Rightarrow> sq (modify (\<lambda>o'. o'\<lparr>o_builtins := bits\<rparr>)) (ret True)))"

section \<open>Source text\<close>

text \<open>A buffer with its capacity; \<open>None\<close> is the null pointer. The result \<open>None\<close> is a failed allocation.\<close>

type_synonym source_buffer = "string option \<times> nat"

definition append_source_fragment :: "cli_env \<Rightarrow> string \<Rightarrow> source_buffer \<Rightarrow> source_buffer option mcomp" where
  "append_source_fragment M fragment = (\<lambda>(buffer, cap).
     if fragment = [] then ret (Some (buffer, cap))
     else let old = (case buffer of None \<Rightarrow> [] | Some s \<Rightarrow> s);
              needed = length old + length fragment + 1;
              new_cap = double_until (if cap > 0 then cap else 128) needed
          in bnd (if needed > cap then cli_alloc M new_cap else ret True) (\<lambda>ok.
            if \<not> ok then ret None
            else ret (Some (Some (old @ fragment), if needed > cap then new_cap else cap))))"

text \<open>\<^verbatim>\<open>fread\<close> hands out the stream in pieces of 4096 bytes.\<close>

function read_chunks :: "cli_env \<Rightarrow> string \<Rightarrow> source_buffer \<Rightarrow> source_buffer option mcomp" where
  "read_chunks M stream b =
     (if stream = [] then ret (Some b)
      else bnd (append_source_fragment M (take 4096 stream) b) (\<lambda>r. case r of
          None \<Rightarrow> ret None
        | Some b \<Rightarrow> read_chunks M (drop 4096 stream) b))"
  by auto
termination by (relation "measure (\<lambda>(M, stream, b). length stream)") auto

declare read_chunks.simps [simp del]

definition read_stream_source :: "cli_env \<Rightarrow> string option mcomp" where
  "read_stream_source M = bnd (read_chunks M (env_stdin M) (None, 0)) (\<lambda>r. case r of
      None \<Rightarrow> ret None
    | Some (buffer, _) \<Rightarrow>
        if env_stdin_error M then ret None
        else case buffer of
            Some s \<Rightarrow> ret (Some s)
          | None \<Rightarrow> bnd (cli_alloc M 1) (\<lambda>ok. ret (if ok then Some [] else None)))"

section \<open>Usage\<close>

definition print_version :: "unit mcomp" where
  "print_version = oprint (''FeX 1.0'' @ [CHR 0x0A])"

definition usage_lines :: "string \<Rightarrow> string list" where
  "usage_lines program_name =
     [''Usage: '' @ program_name @ '' [options] [file|-]'',
      ''Options:'',
      ''  -e CODE       Evaluate inline source (may repeat)'',
      ''  --spans       Enable detailed error reporting with source spans'',
      ''  --builtins    Enable all extended built-in functions'',
      ''  --builtin NAME  Enable a builtin category or preset (may repeat, comma-separated)'',
      ''                Categories: math, string, list, io, system, type, data'',
      ''                Presets: safe, all'',
      ''  --module-path PATH  Add a module search directory (may be repeated)'',
      ''  -I PATH       Alias for --module-path'',
      ''  --max-steps N  Abort evaluation after approximately N eval steps (0 disables)'',
      ''  --timeout-ms N  Abort evaluation after roughly N milliseconds (0 disables)'',
      ''  --max-memory N  Abort when tracked context memory exceeds N bytes (0 disables)'',
      ''  --max-eval-depth N  Limit eval recursion depth (0 disables, default: 512)'',
      ''  --max-read-depth N  Limit read nesting depth (0 disables, default: 512)'',
      ''  --json-output Emit structured JSON diagnostics to stderr instead of text'',
      ''  --stats       Print runtime stats to stderr after non-REPL execution'',
      ''  --memory-pool-size SIZE  Set memory pool size in MB (default: 5MB)'',
      ''  --version, -V  Show version information'',
      ''  --help        Show this help message'',
      [],
      ''Use '' @ [CHR 0x27] @ ''-'' @ [CHR 0x27] @ '' to read source from stdin. If no file or -e input is provided,'',
      ''the CLI reads stdin when piped input is present; otherwise it starts the REPL.'']"

definition print_usage :: "string \<Rightarrow> unit mcomp" where
  "print_usage program_name = eprint (concat (map (\<lambda>l. l @ [CHR 0x0A]) (usage_lines program_name)))"

definition usage_error :: "string \<Rightarrow> string \<Rightarrow> 'a mcomp" where
  "usage_error program_name msg = sq (eprint (msg @ [CHR 0x0A])) (sq (print_usage program_name) (throw (Return 64)))"

definition cli_failure :: "string \<Rightarrow> 'a mcomp" where
  "cli_failure msg = sq (eprint (msg @ [CHR 0x0A])) (throw (Return 1))"

section \<open>Options\<close>

definition set_flag :: "string \<Rightarrow> (cli \<Rightarrow> cli) option" where
  "set_flag arg =
     (if arg = ''--spans'' then Some (\<lambda>o'. o'\<lparr>o_enable_spans := True\<rparr>)
      else if arg = ''--builtins'' then Some (\<lambda>o'. o'\<lparr>o_builtins := o_builtins o' OR FEX_BUILTINS_ALL\<rparr>)
      else if arg = ''--json-output'' then Some (\<lambda>o'. o'\<lparr>o_json_output := True\<rparr>)
      else if arg = ''--stats'' then Some (\<lambda>o'. o'\<lparr>o_show_stats := True\<rparr>)
      else None)"

definition quoted :: "string \<Rightarrow> string" where
  "quoted s = [CHR 0x27] @ s @ [CHR 0x27]"

definition set_builtin :: "cli_env \<Rightarrow> string \<Rightarrow> string \<Rightarrow> unit mcomp" where
  "set_builtin M prog v = bnd (add_builtin_spec M v) (\<lambda>ok. if ok then ret ()
     else usage_error prog (''Error: Unknown builtin category or preset '' @ quoted v))"

definition set_max_steps :: "string \<Rightarrow> string \<Rightarrow> unit mcomp" where
  "set_max_steps prog v = (case strtoull10 v of (n, e) \<Rightarrow>
     if e \<noteq> length v then usage_error prog (''Error: Invalid max step count '' @ quoted v @ ''. Must be a non-negative integer.'')
     else modify (\<lambda>o'. o'\<lparr>o_max_steps := of_int n\<rparr>))"

definition set_timeout :: "string \<Rightarrow> string \<Rightarrow> unit mcomp" where
  "set_timeout prog v = (case strtoull10 v of (n, e) \<Rightarrow>
     if e \<noteq> length v then usage_error prog (''Error: Invalid timeout '' @ quoted v @ ''. Must be a non-negative integer in milliseconds.'')
     else modify (\<lambda>o'. o'\<lparr>o_timeout_ms := of_int n\<rparr>))"

definition set_max_memory :: "string \<Rightarrow> string \<Rightarrow> unit mcomp" where
  "set_max_memory prog v = (case strtoull10 v of (n, e) \<Rightarrow>
     if e \<noteq> length v then usage_error prog (''Error: Invalid memory limit '' @ quoted v @ ''. Must be a non-negative integer in bytes.'')
     else modify (\<lambda>o'. o'\<lparr>o_max_memory := of_int n\<rparr>))"

definition set_eval_depth :: "string \<Rightarrow> string \<Rightarrow> unit mcomp" where
  "set_eval_depth prog v = (case strtol10 v of (n, e) \<Rightarrow>
     if e \<noteq> length v \<or> n < 0 \<or> n > INT_MAX
     then usage_error prog (''Error: Invalid eval depth limit '' @ quoted v @ ''. Must be a non-negative integer.'')
     else modify (\<lambda>o'. o'\<lparr>o_max_eval_depth := n\<rparr>))"

definition set_read_depth :: "string \<Rightarrow> string \<Rightarrow> unit mcomp" where
  "set_read_depth prog v = (case strtol10 v of (n, e) \<Rightarrow>
     if e \<noteq> length v \<or> n < 0 \<or> n > INT_MAX
     then usage_error prog (''Error: Invalid read depth limit '' @ quoted v @ ''. Must be a non-negative integer.'')
     else modify (\<lambda>o'. o'\<lparr>o_max_read_depth := n\<rparr>))"

definition set_pool_size :: "string \<Rightarrow> string \<Rightarrow> unit mcomp" where
  "set_pool_size prog v = (case strtol10 v of (n, e) \<Rightarrow>
     if e \<noteq> length v \<or> n \<le> 0
     then usage_error prog (''Error: Invalid memory pool size '' @ quoted v @ ''. Must be a positive integer in MB.'')
     else modify (\<lambda>o'. o'\<lparr>o_memory_pool_size := of_int n * 1024 * 1024\<rparr>))"

definition add_module_path :: "string \<Rightarrow> unit mcomp" where
  "add_module_path v = modify (\<lambda>o'. o'\<lparr>o_module_paths := o_module_paths o' @ [v]\<rparr>)"

text \<open>The options with a value: the complaint when the value is missing and what is done with it.\<close>

definition value_option :: "cli_env \<Rightarrow> string \<Rightarrow> string \<Rightarrow> (string \<times> (string \<Rightarrow> unit mcomp)) option" where
  "value_option M prog arg =
     (if arg = ''--builtin'' then Some (''Error: --builtin requires a category or preset name'', set_builtin M prog)
      else if arg = ''--module-path'' \<or> arg = ''-I'' then Some (''Error: '' @ arg @ '' requires a path argument'', add_module_path)
      else if arg = ''--max-steps'' then Some (''Error: --max-steps requires an integer value'', set_max_steps prog)
      else if arg = ''--timeout-ms'' then Some (''Error: --timeout-ms requires an integer value'', set_timeout prog)
      else if arg = ''--max-memory'' then Some (''Error: --max-memory requires an integer value'', set_max_memory prog)
      else if arg = ''--max-eval-depth'' then Some (''Error: --max-eval-depth requires an integer value'', set_eval_depth prog)
      else if arg = ''--max-read-depth'' then Some (''Error: --max-read-depth requires an integer value'', set_read_depth prog)
      else if arg = ''--memory-pool-size'' then Some (''Error: --memory-pool-size requires a value in MB'', set_pool_size prog)
      else None)"

definition append_eval :: "cli_env \<Rightarrow> string \<Rightarrow> unit mcomp" where
  "append_eval M fragment =
     bnd (gets (\<lambda>o'. (o_eval_source o', o_eval_source_cap o'))) (\<lambda>b.
     bnd (append_source_fragment M fragment b) (\<lambda>r. case r of
         None \<Rightarrow> cli_failure ''Failed to allocate inline source buffer.''
       | Some (s, cap) \<Rightarrow> modify (\<lambda>o'. o'\<lparr>o_eval_source := s, o_eval_source_cap := cap\<rparr>)))"

definition eval_option :: "cli_env \<Rightarrow> string \<Rightarrow> unit mcomp" where
  "eval_option M v =
     sq (bnd (gets o_eval_source) (\<lambda>s. if s \<noteq> None then append_eval M [CHR 0x0A] else ret ())) (append_eval M v)"

definition input_chosen :: "cli \<Rightarrow> bool" where
  "input_chosen o' \<longleftrightarrow> o_filename o' \<noteq> None \<or> o_eval_source o' \<noteq> None \<or> o_read_stdin o'"

text \<open>An argument that is no option: a file name, or the standard input.\<close>

definition choose_source :: "string \<Rightarrow> string \<Rightarrow> unit mcomp" where
  "choose_source prog arg = bnd (gets input_chosen) (\<lambda>b.
     if b then usage_error prog ''Multiple input sources specified.''
     else if arg = ''-'' then modify (\<lambda>o'. o'\<lparr>o_read_stdin := True\<rparr>)
     else modify (\<lambda>o'. o'\<lparr>o_filename := Some arg\<rparr>))"

definition eval_guard :: "string \<Rightarrow> unit mcomp" where
  "eval_guard prog = bnd (gets (\<lambda>o'. o_filename o' \<noteq> None \<or> o_read_stdin o')) (\<lambda>b.
     if b then usage_error prog ''Multiple input sources specified.'' else ret ())"

text \<open>An argument that stands alone: a request for information, an unknown option, or an input.\<close>

definition plain_argument :: "string \<Rightarrow> bool \<Rightarrow> string \<Rightarrow> unit mcomp" where
  "plain_argument prog end_of_options arg =
     (if \<not> end_of_options \<and> (arg = ''--version'' \<or> arg = ''-V'') then sq print_version (throw (Return 0))
      else if \<not> end_of_options \<and> (arg = ''--help'' \<or> arg = ''-h'') then sq (print_usage prog) (throw (Return 0))
      else if \<not> end_of_options \<and> at_char (CHR ''-'') arg \<and> arg \<noteq> ''-''
      then usage_error prog (''Unknown option: '' @ arg)
      else choose_source prog arg)"

fun parse_args :: "cli_env \<Rightarrow> string \<Rightarrow> string list \<Rightarrow> unit mcomp" where
  "parse_args M prog [] = ret ()"
| "parse_args M prog (arg # args) = bnd (gets o_end_of_options) (\<lambda>eo.
     if \<not> eo \<and> arg = ''--'' then sq (modify (\<lambda>o'. o'\<lparr>o_end_of_options := True\<rparr>)) (parse_args M prog args)
     else if \<not> eo \<and> arg = ''-e'' then
       sq (eval_guard prog) (case args of
           [] \<Rightarrow> usage_error prog ''Error: -e requires a source string''
         | v # args' \<Rightarrow> sq (eval_option M v) (parse_args M prog args'))
     else case (if eo then None else set_flag arg) of
         Some f \<Rightarrow> sq (modify f) (parse_args M prog args)
       | None \<Rightarrow>
           (case (if eo then None else value_option M prog arg) of
              Some (missing, act) \<Rightarrow>
                (case args of
                   [] \<Rightarrow> usage_error prog missing
                 | v # args' \<Rightarrow> sq (act v) (parse_args M prog args'))
            | None \<Rightarrow> sq (plain_argument prog eo arg) (parse_args M prog args)))"


section \<open>Statistics\<close>

record fe_Stats =
  st_step_limit :: size_t
  st_steps_executed :: size_t
  st_timeout_ms :: u64
  st_memory_limit :: size_t
  st_memory_used :: size_t
  st_peak_memory_used :: size_t
  st_base_memory_bytes :: size_t
  st_object_capacity :: size_t
  st_live_objects :: size_t
  st_object_allocations_total :: size_t
  st_allocs_since_gc :: size_t
  st_gc_runs :: size_t

definition fe_get_stats :: "fe_Context \<Rightarrow> fe_Stats" where
  "fe_get_stats c =
     \<lparr>st_step_limit = step_limit c, st_steps_executed = steps_executed c, st_timeout_ms = timeout_ms c,
      st_memory_limit = memory_limit c, st_memory_used = memory_used c, st_peak_memory_used = peak_memory_used c,
      st_base_memory_bytes = base_memory_bytes c, st_object_capacity = of_nat (length (objects c)),
      st_live_objects = of_int (if live_count c > 0 then live_count c else 0),
      st_object_allocations_total = object_allocations_total c,
      st_allocs_since_gc = of_int (if allocs_since_gc c > 0 then allocs_since_gc c else 0), st_gc_runs = gc_runs c\<rparr>"

text \<open>The fields in the order they are printed.\<close>

definition stats_fields :: "fe_Stats \<Rightarrow> (string \<times> u64) list" where
  "stats_fields st =
     [(''steps_executed'', st_steps_executed st), (''step_limit'', st_step_limit st), (''timeout_ms'', st_timeout_ms st),
      (''memory_used'', st_memory_used st), (''peak_memory_used'', st_peak_memory_used st),
      (''memory_limit'', st_memory_limit st), (''base_memory_bytes'', st_base_memory_bytes st),
      (''object_capacity'', st_object_capacity st), (''live_objects'', st_live_objects st),
      (''object_allocations_total'', st_object_allocations_total st), (''allocs_since_gc'', st_allocs_since_gc st),
      (''gc_runs'', st_gc_runs st)]"

definition print_runtime_stats :: "fe_Context \<Rightarrow> string" where
  "print_runtime_stats c = ''runtime stats:'' @ [CHR 0x0A] @
     concat (map (\<lambda>(name, v). ''  '' @ name @ '': '' @ nat_string (unat v) @ [CHR 0x0A]) (stats_fields (fe_get_stats c)))"

section \<open>Diagnostics in JSON\<close>

definition diag_char_text :: "char \<Rightarrow> string" where
  "diag_char_text s =
     (if s = CHR 0x22 then [CHR 0x5C, CHR 0x22]
      else if s = CHR 0x5C then [CHR 0x5C, CHR 0x5C]
      else if s = CHR 0x0A then [CHR 0x5C, CHR ''n'']
      else if s = CHR 0x0D then [CHR 0x5C, CHR ''r'']
      else if s = CHR 0x09 then [CHR 0x5C, CHR ''t'']
      else if (of_char s :: nat) < 0x20 then [CHR 0x5C, CHR ''u''] @ json_hex_digits s
      else [s])"

definition json_write_escaped_string :: "string \<Rightarrow> string" where
  "json_write_escaped_string s = CHR 0x22 # concat (map diag_char_text s) @ [CHR 0x22]"

definition status_string :: "FexStatus \<Rightarrow> string" where
  "status_string status = (case status of
      FEX_STATUS_OK \<Rightarrow> ''ok''
    | FEX_STATUS_COMPILE_ERROR \<Rightarrow> ''compile_error''
    | FEX_STATUS_RUNTIME_ERROR \<Rightarrow> ''runtime_error''
    | FEX_STATUS_IO_ERROR \<Rightarrow> ''io_error'')"

text \<open>A key with its colon.\<close>

definition json_key :: "string \<Rightarrow> string" where
  "json_key k = [CHR 0x22] @ k @ [CHR 0x22] @ '':''"

definition print_json_stats :: "fe_Context \<Rightarrow> string" where
  "print_json_stats c = ''{'' @
     intercalate (CHR '','') (map (\<lambda>(name, v). json_key name @ nat_string (unat v)) (stats_fields (fe_get_stats c))) @ ''}''"

definition json_place :: "int \<Rightarrow> int \<Rightarrow> string" where
  "json_place line col = '','' @ json_key ''line'' @ int_string line @ '','' @ json_key ''column'' @
     int_string (if col > 0 then col else 1)"

definition json_frame :: "FexErrorFrame \<Rightarrow> string" where
  "json_frame f = ''{'' @
     (if frame_source_name f \<noteq> [] then json_key ''source'' @ json_write_escaped_string (frame_source_name f) @
        (if frame_line f > 0 then json_place (frame_line f) (frame_column f) else []) else []) @
     (if frame_expression f \<noteq> [] then (if frame_source_name f \<noteq> [] then '','' else []) @
        json_key ''expression'' @ json_write_escaped_string (frame_expression f) else []) @ ''}''"

definition json_error :: "FexError \<Rightarrow> string" where
  "json_error err = '','' @ json_key ''error'' @ ''{'' @ json_key ''message'' @
     json_write_escaped_string (if err_message err \<noteq> [] then err_message err else ''unknown error'') @
     (if err_source_name err \<noteq> [] then '','' @ json_key ''source'' @ json_write_escaped_string (err_source_name err) else []) @
     (if err_line err > 0 then json_place (err_line err) (case err_column err of Some i \<Rightarrow> i | None \<Rightarrow> 1) else []) @
     (if err_frames err \<noteq> [] then '','' @ json_key ''trace'' @ ''['' @
        intercalate (CHR '','') (map json_frame (err_frames err)) @ '']'' else []) @ ''}''"

definition print_json_result :: "int \<Rightarrow> FexError option \<Rightarrow> fe_Context \<Rightarrow> bool \<Rightarrow> string" where
  "print_json_result exit_code err c include_stats =
     (let failed = (case err of None \<Rightarrow> None | Some e \<Rightarrow> if err_status e \<noteq> FEX_STATUS_OK then Some e else None)
      in ''{'' @ json_key ''status'' @
         (case failed of Some e \<Rightarrow> json_write_escaped_string (status_string (err_status e)) | None \<Rightarrow> [CHR 0x22] @ ''ok'' @ [CHR 0x22]) @
         '','' @ json_key ''exit_code'' @ int_string exit_code @
         (case failed of Some e \<Rightarrow> json_error e | None \<Rightarrow> []) @
         (if include_stats then '','' @ json_key ''stats'' @ print_json_stats c else []) @ ''}'' @ [CHR 0x0A])"

section \<open>Errors outside of a try scope\<close>

primrec on_error_trace :: "nat \<Rightarrow> nat \<Rightarrow> ptr list \<Rightarrow> string \<Rightarrow> string fcomp" where
  "on_error_trace n depth [] out = ret out"
| "on_error_trace n depth (x # cl) out =
     bnd (gets (fex_lookup_span x)) (\<lambda>sp. bnd (format_object_for_error n x 128) (\<lambda>buf.
       on_error_trace n (Suc depth) cl (out @ ''['' @ nat_string depth @ ''] '' @
         (case sp of Some s \<Rightarrow> span_source_name s @ '':'' @ int_string (start_line s) @ '':'' @ int_string (start_col s) @ ''  =>  ''
          | None \<Rightarrow> []) @ buf @ [CHR 0x0A])))"

text \<open>The handler prints the trace and ends the process; an error on the way enters it again.\<close>

definition fex_on_error :: "nat \<Rightarrow> string \<Rightarrow> ptr list \<Rightarrow> string fcomp" where
  "fex_on_error n msg cl =
     (let head = (\<lambda>m. ''error: '' @ m @ [CHR 0x0A])
      in (\<lambda>c. case on_error_trace n 0 cl (head msg) c of
            (Inl (FeError msg' _), c') \<Rightarrow> (Inr (head msg @ head msg'), c')
          | r \<Rightarrow> r))"

text \<open>A call into the runtime from \<^verbatim>\<open>main\<close>.\<close>

definition call_runtime :: "nat \<Rightarrow> fe_Context \<Rightarrow> 'a fcomp \<Rightarrow> ('a \<times> fe_Context) mcomp" where
  "call_runtime n c m = (case m c of
      (Inr x, c') \<Rightarrow> ret (x, c')
    | (Inl (FeError msg cl), c') \<Rightarrow> (case fex_on_error n msg cl c' of
        (Inr t, _) \<Rightarrow> sq (eprint t) (throw (Return 1))
      | (Inl e, _) \<Rightarrow> throw (Stuck e))
    | (Inl e, c') \<Rightarrow> throw (Stuck e))"

section \<open>Running\<close>

text \<open>A source as the C string it is handed on as.\<close>

definition as_cstring :: "string \<Rightarrow> string" where
  "as_cstring s = takeWhile (\<lambda>c. c \<noteq> CHR 0x00) s"

text \<open>The exit code, the error record and what is printed on the error stream.\<close>

definition report_status :: "bool \<Rightarrow> FexStatus \<times> ptr option \<times> FexError \<Rightarrow> int \<times> FexError \<times> string" where
  "report_status json_output = (\<lambda>(status, result, err).
     if status \<noteq> FEX_STATUS_OK
     then (exit_code_for_status status, err, if json_output then [] else fex_print_error err)
     else (0, fex_error_clear, []))"

definition run_file :: "os_files \<Rightarrow> nat \<Rightarrow> (ptr \<Rightarrow> ptr fcomp) \<Rightarrow> string \<Rightarrow> bool \<Rightarrow> (int \<times> FexError \<times> string) fcomp" where
  "run_file fs n run path json_output =
     bnd (fex_try_do_file fs n run path) (\<lambda>r. ret (report_status json_output r))"

definition run_source :: "nat \<Rightarrow> (ptr \<Rightarrow> ptr fcomp) \<Rightarrow> string \<Rightarrow> string \<Rightarrow> bool \<Rightarrow> (int \<times> FexError \<times> string) fcomp" where
  "run_source n run source source_name json_output =
     (if as_cstring source = [] then ret (0, fex_error_clear, [])
      else bnd (fex_try_do_string_named n run (as_cstring source) (Some source_name))
        (\<lambda>r. ret (report_status json_output r)))"

text \<open>\<^verbatim>\<open>fgets(buffer, size, stdin)\<close>: a line with its line break, or the first \<^verbatim>\<open>size - 1\<close> bytes of it.\<close>

definition fgets_line :: "nat \<Rightarrow> string \<Rightarrow> string" where
  "fgets_line sz s = (let t = take (sz - 1) s; l = takeWhile (\<lambda>c. c \<noteq> CHR 0x0A) t in take (Suc (length l)) t)"

function repl_lines :: "string \<Rightarrow> string list" where
  "repl_lines s = (if s = [] then [] else
     let l = fgets_line REPL_BUFFER_SIZE s in as_cstring l # repl_lines (drop (length l) s))"
  by auto
termination
proof (relation "measure length")
  fix s :: string and l assume "s \<noteq> []" "l = fgets_line REPL_BUFFER_SIZE s"
  then show "(drop (length l) s, s) \<in> measure length"
    by (auto simp: fgets_line_def REPL_BUFFER_SIZE_def Let_def)
qed simp

declare repl_lines.simps [simp del]

text \<open>The loop of \<^verbatim>\<open>run_repl\<close> over the lines; the two texts are what it prints on the output and error streams.\<close>

primrec repl_loop :: "nat \<Rightarrow> (ptr \<Rightarrow> ptr fcomp) \<Rightarrow> string list \<Rightarrow> string \<times> string \<Rightarrow> (string \<times> string) fcomp" where
  "repl_loop n run [] out = ret (fst out @ ''> '' @ [CHR 0x0A], snd out)"
| "repl_loop n run (l # ls) out =
     bnd (fex_try_do_string n run l) (\<lambda>(status, result, err).
       if status \<noteq> FEX_STATUS_OK then repl_loop n run ls (fst out @ ''> '', snd out @ fex_print_error err)
       else case result of
           None \<Rightarrow> repl_loop n run ls (fst out @ ''> '', snd out)
         | Some r \<Rightarrow> bnd (fe_write n r False []) (\<lambda>t. repl_loop n run ls (fst out @ ''> '' @ t @ [CHR 0x0A], snd out)))"

definition run_repl :: "nat \<Rightarrow> (ptr \<Rightarrow> ptr fcomp) \<Rightarrow> string \<Rightarrow> (string \<times> string) fcomp" where
  "run_repl n run input =
     repl_loop n run (repl_lines input) (''FeX v1.0 (Modern Syntax Layer for enhanced Fe code)'' @ [CHR 0x0A], [])"

section \<open>The main program\<close>

definition fe_close :: "unit fcomp" where
  "fe_close = sq (modify fex_temp_cleanup_all) (sq fex_span_cleanup
     (bnd (gets import_paths) (\<lambda>a. bnd (string_array_clear a) (\<lambda>a. sq (modify (\<lambda>c. c\<lparr>import_paths := a\<rparr>))
     (bnd (gets source_dirs) (\<lambda>a. bnd (string_array_clear a) (\<lambda>a. sq (modify (\<lambda>c. c\<lparr>source_dirs := a\<rparr>))
     (bnd (gets source_buffers) (\<lambda>a. bnd (string_array_clear a) (\<lambda>a. sq (modify (\<lambda>c. c\<lparr>source_buffers := a\<rparr>))
     (bnd (gets loading_modules) (\<lambda>a. bnd (string_array_clear a) (\<lambda>a. sq (modify (\<lambda>c. c\<lparr>loading_modules := a\<rparr>))
     (sq module_cache_clear
     (sq (modify (\<lambda>c. c\<lparr>gcstack := [], symlist := Nil\<rparr>)) collectgarbage)))))))))))))))"

definition open_context :: "cli_env \<Rightarrow> fe_Context mcomp" where
  "open_context M = bnd (gets o_memory_pool_size) (\<lambda>pool. bnd (cli_alloc M (unat pool)) (\<lambda>mem.
     if \<not> mem then cli_failure (''Failed to allocate '' @ nat_string (unat pool) @ '' bytes for interpreter.'')
     else case fe_open (env_runtime M) (unat pool) of
         None \<Rightarrow> cli_failure ''Failed to initialize interpreter context.''
       | Some (Inr _, c) \<Rightarrow> ret c
       | Some (Inl (FeError msg cl), c) \<Rightarrow> cli_failure (''error: '' @ msg)
       | Some (Inl e, c) \<Rightarrow> throw (Stuck e)))"

definition configure :: "cli \<Rightarrow> unit fcomp" where
  "configure o' =
     sq (fex_init_with_builtins (if o_enable_spans o' then FEX_CONFIG_NONE OR FEX_CONFIG_ENABLE_SPANS else FEX_CONFIG_NONE)
           (o_builtins o'))
     (sq (modify (fe_set_step_limit (o_max_steps o'))) (sq (modify (fe_set_memory_limit (o_max_memory o')))
     (sq (modify (fe_set_timeout_ms (o_timeout_ms o')))
     (sq (if o_max_eval_depth o' \<ge> 0 then modify (fe_set_eval_depth_limit (o_max_eval_depth o')) else ret ())
     (if o_max_read_depth o' \<ge> 0 then modify (fe_set_read_depth_limit (o_max_read_depth o')) else ret ())))))"

primrec add_import_paths :: "nat \<Rightarrow> os_files \<Rightarrow> string list \<Rightarrow> fe_Context \<Rightarrow> fe_Context mcomp" where
  "add_import_paths n fs [] c = ret c"
| "add_import_paths n fs (p # ps) c = bnd (call_runtime n c (fex_add_import_path fs p)) (\<lambda>(ok, c).
     if \<not> ok then cli_failure (''Failed to add module path '' @ [CHR 0x22] @ p @ [CHR 0x22] @ ''.'')
     else add_import_paths n fs ps c)"

datatype input_source = Inline string | File string | Stdin | Repl

definition choose_input :: "cli_env \<Rightarrow> cli \<Rightarrow> input_source" where
  "choose_input M o' = (case o_eval_source o' of
      Some s \<Rightarrow> Inline s
    | None \<Rightarrow> (case o_filename o' of
        Some f \<Rightarrow> File f
      | None \<Rightarrow> if o_read_stdin o' \<or> \<not> env_stdin_tty M then Stdin else Repl))"

definition stdin_error :: FexError where
  "stdin_error = fex_error_clear\<lparr>err_status := FEX_STATUS_IO_ERROR, err_message := ''could not read stdin''\<rparr>"

text \<open>\<open>run\<close> is the evaluator with the imports of the program.\<close>

definition run_input ::
  "cli_env \<Rightarrow> nat \<Rightarrow> (ptr \<Rightarrow> ptr fcomp) \<Rightarrow> bool \<Rightarrow> input_source \<Rightarrow> fe_Context \<Rightarrow> ((int \<times> FexError) \<times> fe_Context) mcomp" where
  "run_input M n run json_output input c =
     (let finish = (\<lambda>((code, err, t), c). sq (eprint t) (ret ((code, err), c)))
      in case input of
           Inline s \<Rightarrow> bnd (call_runtime n c (run_source n run s ''<expr>'' json_output)) finish
         | File f \<Rightarrow> bnd (call_runtime n c (run_file (env_files M) n run f json_output)) finish
         | Stdin \<Rightarrow> bnd (read_stream_source M) (\<lambda>src. case src of
             None \<Rightarrow> sq (if json_output then ret () else eprint (''I/O error: could not read stdin'' @ [CHR 0x0A]))
               (ret ((74, stdin_error), c))
           | Some s \<Rightarrow> bnd (call_runtime n c (run_source n run s ''<stdin>'' json_output)) finish)
         | Repl \<Rightarrow> bnd (call_runtime n c (run_repl n run (env_stdin M))) (\<lambda>((out, err), c).
             sq (oprint out) (sq (eprint err) (ret ((0, fex_error_clear), c)))))"

definition print_report :: "cli \<Rightarrow> bool \<Rightarrow> int \<Rightarrow> FexError \<Rightarrow> fe_Context \<Rightarrow> string" where
  "print_report o' is_batch exit_code err c =
     (if o_json_output o' \<and> is_batch
      then print_json_result exit_code (if exit_code \<noteq> 0 then Some err else None) c (o_show_stats o')
      else if o_show_stats o' \<and> is_batch then print_runtime_stats c else [])"

text \<open>\<open>k\<close>, \<open>n\<close> and \<open>d\<close> bound the loops, the nesting of evaluation and printing, and the nesting of imports.\<close>

definition fex_main_utf8 :: "cli_env \<Rightarrow> nat \<Rightarrow> nat \<Rightarrow> nat \<Rightarrow> string list \<Rightarrow> int mcomp" where
  "fex_main_utf8 M k n d argv =
     (let prog = (case argv of [] \<Rightarrow> [] | p # _ \<Rightarrow> p);
          run = fe_eval (program_host (env_files M) (env_host M) k n OutOfFuel d True) k n
      in bnd (cli_alloc M (8 * (if argv = [] then 1 else length argv))) (\<lambda>ok.
         if \<not> ok then cli_failure ''Failed to allocate module path storage.''
         else sq (parse_args M prog (drop 1 argv)) (bnd (open_context M) (\<lambda>c. bnd (gets id) (\<lambda>o'.
           bnd (call_runtime n c (configure o')) (\<lambda>(_, c). bnd (add_import_paths n (env_files M) (o_module_paths o') c) (\<lambda>c.
           bnd (run_input M n run (o_json_output o') (choose_input M o') c) (\<lambda>((code, err), c).
           sq (eprint (print_report o' (choose_input M o' \<noteq> Repl) code err c))
           (bnd (call_runtime n c fe_close) (\<lambda>_. ret code))))))))))"

definition exit_status :: "cli_env \<Rightarrow> nat \<Rightarrow> nat \<Rightarrow> nat \<Rightarrow> string list \<Rightarrow> main_exit" where
  "exit_status M k n d argv = (case fst (fex_main_utf8 M k n d argv initial_cli) of Inl e \<Rightarrow> e | Inr code \<Rightarrow> Return code)"


section \<open>What the options add up to\<close>

definition cli_ok :: "cli \<Rightarrow> bool" where
  "cli_ok o' \<longleftrightarrow>
     (o_filename o' \<noteq> None \<longrightarrow> o_eval_source o' = None \<and> \<not> o_read_stdin o') \<and>
     (o_eval_source o' \<noteq> None \<longrightarrow> \<not> o_read_stdin o') \<and>
     o_builtins o' AND NOT FEX_BUILTINS_ALL = 0 \<and>
     o_max_eval_depth o' \<in> {-1..INT_MAX} \<and> o_max_read_depth o' \<in> {-1..INT_MAX} \<and>
     (\<forall>s. o_eval_source o' = Some s \<longrightarrow> s \<noteq> [] \<and> length s < o_eval_source_cap o')"

definition cli_stop :: "main_exit \<Rightarrow> bool" where
  "cli_stop e \<longleftrightarrow> e \<in> {Return 0, Return 1, Return 64}"

lemma mask_builtins:
  "FEX_BUILTINS_MATH AND NOT FEX_BUILTINS_ALL = 0" "FEX_BUILTINS_STRING AND NOT FEX_BUILTINS_ALL = 0"
  "FEX_BUILTINS_LIST AND NOT FEX_BUILTINS_ALL = 0" "FEX_BUILTINS_IO AND NOT FEX_BUILTINS_ALL = 0"
  "FEX_BUILTINS_SYSTEM AND NOT FEX_BUILTINS_ALL = 0" "FEX_BUILTINS_TYPE AND NOT FEX_BUILTINS_ALL = 0"
  "FEX_BUILTINS_DATA AND NOT FEX_BUILTINS_ALL = 0" "FEX_BUILTINS_SAFE AND NOT FEX_BUILTINS_ALL = 0"
  "FEX_BUILTINS_ALL AND NOT FEX_BUILTINS_ALL = 0"
  by code_simp+

lemma mask_known: "builtin_mask_from_name s = Some m \<Longrightarrow> m AND NOT FEX_BUILTINS_ALL = 0"
  by (auto simp: builtin_mask_from_name_def mask_builtins split: if_splits)

lemma or_within: "(a :: 32 word) AND NOT c = 0 \<Longrightarrow> b AND NOT c = 0 \<Longrightarrow> (a OR b) AND NOT c = 0"
  by (simp add: bit.conj_disj_distrib2)

lemma tokens_within:
  "add_builtin_tokens bits s = Some m \<Longrightarrow> bits AND NOT FEX_BUILTINS_ALL = 0 \<Longrightarrow> m AND NOT FEX_BUILTINS_ALL = 0"
proof (induction bits s rule: add_builtin_tokens.induct)
  case (1 bits s)
  let ?t = "trim_spaces (takeWhile (\<lambda>c. c \<noteq> CHR '','') s)" and ?b = "dropWhile (\<lambda>c. c \<noteq> CHR '','') s"
  from 1(2) obtain tm where tm: "?t \<noteq> []" "builtin_mask_from_name ?t = Some tm"
    "(if ?b \<noteq> [] then add_builtin_tokens (bits OR tm) (List.tl ?b) else Some (bits OR tm)) = Some m"
    unfolding add_builtin_tokens.simps [of bits s] Let_def by (auto split: if_splits option.splits)
  note w = or_within [OF 1(3) mask_known [OF tm(2)]]
  show ?case
  proof (cases "?b = []")
    case False
    with 1(1) [OF refl refl tm(1,2) False _ w] tm(3) show ?thesis by (simp del: dropWhile_eq_Nil_conv)
  qed (use tm(3) w in simp)
qed

lemma stops:
  "wp (usage_error prog msg) Q (\<lambda>e _. cli_stop e) o'" "wp (cli_failure msg) Q (\<lambda>e _. cli_stop e) o'"
  by (simp_all add: usage_error_def cli_failure_def print_usage_def eprint_def wp_simps cli_stop_def)

lemma keeps_flag: "set_flag arg = Some f \<Longrightarrow> cli_ok o' \<Longrightarrow> cli_ok (f o')"
  by (auto simp: set_flag_def cli_ok_def mask_builtins intro!: or_within split: if_splits)

lemma keeps_value: "value_option M prog arg = Some (missing, act) \<Longrightarrow> cli_ok o' \<Longrightarrow> wp (act v) (\<lambda>_. cli_ok) (\<lambda>e _. cli_stop e) o'"
proof -
  assume a: "value_option M prog arg = Some (missing, act)" and ok: "cli_ok o'"
  have "wp (set_builtin M prog v) (\<lambda>_. cli_ok) (\<lambda>e _. cli_stop e) o'"
    using ok tokens_within [of "o_builtins o'" v]
    by (auto simp: set_builtin_def add_builtin_spec_def cli_alloc_def wp_simps stops cli_ok_def split: option.split)
  moreover have "wp (add_module_path v) (\<lambda>_. cli_ok) (\<lambda>e _. cli_stop e) o'"
    "wp (set_max_steps prog v) (\<lambda>_. cli_ok) (\<lambda>e _. cli_stop e) o'"
    "wp (set_timeout prog v) (\<lambda>_. cli_ok) (\<lambda>e _. cli_stop e) o'"
    "wp (set_max_memory prog v) (\<lambda>_. cli_ok) (\<lambda>e _. cli_stop e) o'"
    "wp (set_eval_depth prog v) (\<lambda>_. cli_ok) (\<lambda>e _. cli_stop e) o'"
    "wp (set_read_depth prog v) (\<lambda>_. cli_ok) (\<lambda>e _. cli_stop e) o'"
    "wp (set_pool_size prog v) (\<lambda>_. cli_ok) (\<lambda>e _. cli_stop e) o'"
    using ok by (auto simp: add_module_path_def set_max_steps_def set_timeout_def set_max_memory_def set_eval_depth_def
        set_read_depth_def set_pool_size_def wp_simps stops cli_ok_def split: prod.split)
  ultimately show ?thesis using a by (auto simp: value_option_def split: if_splits)
qed

text \<open>Appending leaves a terminated text in the buffer; an empty fragment changes nothing.\<close>

definition buffer_ok :: "source_buffer \<Rightarrow> bool" where
  "buffer_ok b \<longleftrightarrow> (\<forall>s. fst b = Some s \<longrightarrow> s \<noteq> [] \<and> length s < snd b)"

lemma double_until_ge: "0 < a \<Longrightarrow> n \<le> double_until a n"
  by (induction a n rule: double_until.induct) (subst double_until.simps, auto)

lemma wp_append_fragment:
  assumes "buffer_ok b"
  shows "wp (append_source_fragment M fragment b) (\<lambda>r o''. (\<exists>k. o'' = o'\<lparr>cli_mallocs := k\<rparr>) \<and>
    (\<forall>b'. r = Some b' \<longrightarrow> buffer_ok b' \<and>
      fst b' = (if fragment = [] then fst b else Some ((case fst b of None \<Rightarrow> [] | Some s \<Rightarrow> s) @ fragment)))) E o'"
proof -
  obtain buffer cap where b: "b = (buffer, cap)" by (cases b)
  define old where "old = (case buffer of None \<Rightarrow> [] | Some s \<Rightarrow> s)"
  define needed where "needed = length old + length fragment + 1"
  define new_cap where "new_cap = double_until (if cap > 0 then cap else 128) needed"
  have d: "needed \<le> new_cap" unfolding new_cap_def by (rule double_until_ge) simp
  have k: "\<exists>k. o' = o'\<lparr>cli_mallocs := k\<rparr>" by (rule exI [of _ "cli_mallocs o'"]) simp
  have run: "append_source_fragment M fragment b = (if fragment = [] then ret (Some (buffer, cap))
      else bnd (if needed > cap then cli_alloc M new_cap else ret True) (\<lambda>ok. if \<not> ok then ret None
        else ret (Some (Some (old @ fragment), if needed > cap then new_cap else cap))))"
    unfolding append_source_fragment_def b old_def needed_def new_cap_def Let_def prod.case ..
  have ok: "buffer_ok (Some (old @ fragment), if needed > cap then new_cap else cap)" if "fragment \<noteq> []"
    using that d by (auto simp: buffer_ok_def needed_def)
  show ?thesis
  proof (cases "fragment = []")
    case True
    with assms k show ?thesis unfolding run by (simp add: wp_ret b)
  next
    case False
    with ok [OF False] k show ?thesis unfolding run
      by (cases "needed > cap") (auto simp: wp_bnd wp_ret cli_alloc_def wp_lift_st b old_def [symmetric])
  qed
qed

lemma wp_append_eval:
  assumes "cli_ok o'" and "\<not> o_read_stdin o'" and "o_filename o' = None"
  shows "wp (append_eval M fragment) (\<lambda>_ o''. cli_ok o'' \<and> \<not> o_read_stdin o'' \<and> o_filename o'' = None) (\<lambda>e _. cli_stop e) o'"
  unfolding append_eval_def wp_bnd wp_gets
proof (rule wp_mono [OF wp_append_fragment])
  show "buffer_ok (o_eval_source o', o_eval_source_cap o')" using assms(1) by (simp add: cli_ok_def buffer_ok_def)
  fix r o''
  assume "(\<exists>k. o'' = o'\<lparr>cli_mallocs := k\<rparr>) \<and> (\<forall>b'. r = Some b' \<longrightarrow> buffer_ok b' \<and> fst b' =
      (if fragment = [] then fst (o_eval_source o', o_eval_source_cap o')
       else Some ((case fst (o_eval_source o', o_eval_source_cap o') of None \<Rightarrow> [] | Some s \<Rightarrow> s) @ fragment)))"
  then obtain k where k: "o'' = o'\<lparr>cli_mallocs := k\<rparr>" "\<And>b'. r = Some b' \<Longrightarrow> buffer_ok b'" by blast
  show "wp (case r of None \<Rightarrow> cli_failure ''Failed to allocate inline source buffer.''
        | Some (s, cap) \<Rightarrow> modify (\<lambda>o'. o'\<lparr>o_eval_source := s, o_eval_source_cap := cap\<rparr>))
      (\<lambda>_ o''. cli_ok o'' \<and> \<not> o_read_stdin o'' \<and> o_filename o'' = None) (\<lambda>e _. cli_stop e) o''"
  proof (cases r)
    case (Some b)
    with k(2) [OF Some] k(1) assms show ?thesis by (cases b) (simp add: wp_modify cli_ok_def buffer_ok_def)
  qed (simp add: stops)
qed simp

lemma wp_eval_option:
  assumes "cli_ok o'" and "\<not> o_read_stdin o'" and "o_filename o' = None"
  shows "wp (eval_option M v) (\<lambda>_. cli_ok) (\<lambda>e _. cli_stop e) o'"
proof -
  have "wp (bnd (gets o_eval_source) (\<lambda>s. if s \<noteq> None then append_eval M [CHR 0x0A] else ret ()))
      (\<lambda>_ o''. cli_ok o'' \<and> \<not> o_read_stdin o'' \<and> o_filename o'' = None) (\<lambda>e _. cli_stop e) o'"
    using assms wp_append_eval [OF assms] by (auto simp: wp_bnd wp_gets wp_ret)
  then show ?thesis unfolding eval_option_def wp_sq
    by (rule wp_mono) (auto intro: wp_mono [OF wp_append_eval])
qed

lemma keeps_source: "cli_ok o' \<Longrightarrow> wp (choose_source prog arg) (\<lambda>_. cli_ok) (\<lambda>e _. cli_stop e) o'"
  by (auto simp: choose_source_def wp_bnd wp_gets wp_modify stops input_chosen_def cli_ok_def)

lemma keeps_plain: "cli_ok o' \<Longrightarrow> wp (plain_argument prog eo arg) (\<lambda>_. cli_ok) (\<lambda>e _. cli_stop e) o'"
proof -
  assume "cli_ok o'"
  moreover have "cli_stop (Return 0)" by (simp add: cli_stop_def)
  ultimately show ?thesis
    by (simp add: plain_argument_def keeps_source stops print_version_def print_usage_def oprint_def eprint_def
        wp_sq wp_modify wp_throw)
qed

lemma keeps_parse: "cli_ok o' \<Longrightarrow> wp (parse_args M prog args) (\<lambda>_. cli_ok) (\<lambda>e _. cli_stop e) o'"
proof (induction args arbitrary: o' rule: length_induct)
  case (1 args)
  note IH = 1(1) [rule_format] and ok = 1(2)
  show ?case
  proof (cases args)
    case (Cons arg args1)
    let ?eo = "o_end_of_options o'"
    have eo: "cli_ok (o'\<lparr>o_end_of_options := True\<rparr>)" using ok by (simp add: cli_ok_def)
    have next1: "wp (parse_args M prog args1) (\<lambda>_. cli_ok) (\<lambda>e _. cli_stop e) o''" if "cli_ok o''" for o''
      using IH [of args1] that Cons by simp
    have next2: "wp (case args1 of [] \<Rightarrow> usage_error prog missing | v # args' \<Rightarrow> sq (act v) (parse_args M prog args'))
        (\<lambda>_. cli_ok) (\<lambda>e _. cli_stop e) o'"
      if "\<And>v. wp (act v) (\<lambda>_. cli_ok) (\<lambda>e _. cli_stop e) o'" for missing act
    proof (cases args1)
      case (Cons v args')
      then show ?thesis using IH [of args'] \<open>args = arg # args1\<close>
        by (auto simp: wp_sq intro: wp_mono [OF that])
    qed (simp add: stops)
    have guard: "wp (eval_guard prog) (\<lambda>_ o''. o'' = o' \<and> \<not> o_read_stdin o' \<and> o_filename o' = None) (\<lambda>e _. cli_stop e) o'"
      by (auto simp: eval_guard_def wp_bnd wp_gets wp_ret stops)
    consider (dashes) "\<not> ?eo \<and> arg = ''--''" | (ev) "\<not> ?eo \<and> arg = ''-e''" | (other) "\<not> (\<not> ?eo \<and> arg = ''--'')" "\<not> (\<not> ?eo \<and> arg = ''-e'')" by blast
    then show ?thesis
    proof cases
      case dashes
      with next1 [OF eo] show ?thesis by (simp add: Cons wp_bnd wp_gets wp_sq wp_modify)
    next
      case ev
      have "wp (sq (eval_guard prog) (case args1 of [] \<Rightarrow> usage_error prog ''Error: -e requires a source string''
          | v # args' \<Rightarrow> sq (eval_option M v) (parse_args M prog args'))) (\<lambda>_. cli_ok) (\<lambda>e _. cli_stop e) o'"
        unfolding wp_sq [of "eval_guard prog"]
        by (rule wp_mono [OF guard]) (auto intro!: next2 wp_eval_option ok)
      with ev show ?thesis by (simp add: Cons wp_bnd wp_gets)
    next
      case other
      have "wp (sq (plain_argument prog ?eo arg) (parse_args M prog args1)) (\<lambda>_. cli_ok) (\<lambda>e _. cli_stop e) o'"
        unfolding wp_sq by (rule wp_mono [OF keeps_plain [OF ok]]) (auto intro: next1)
      with other show ?thesis
        unfolding Cons parse_args.simps wp_bnd wp_gets if_not_P [OF other(1)] if_not_P [OF other(2)]
        by (auto simp: wp_sq wp_modify split: option.split split: if_splits
            intro!: next1 keeps_flag [OF _ ok] next2 [OF keeps_value [OF _ ok]])
    qed
  qed (use ok in \<open>simp add: wp_ret\<close>)
qed

text \<open>
  C32. Whatever the arguments, the options are consistent when they are accepted: at most one input is
  chosen, the mask has only bits of the known categories, the depth limits are unset or fit an \<^verbatim>\<open>int\<close>, and
  the inline source is not empty and fits its buffer with the terminator. Otherwise the
  program ends with exit code 0 (after the version or the usage), 1 (out of memory) or 64 (usage).
\<close>

theorem options_consistent:
  "case parse_args M prog args initial_cli of
     (Inr _, o') \<Rightarrow>
       length (filter id [o_filename o' \<noteq> None, o_eval_source o' \<noteq> None, o_read_stdin o']) \<le> 1 \<and>
       o_builtins o' AND NOT FEX_BUILTINS_ALL = 0 \<and>
       o_max_eval_depth o' \<in> {-1..INT_MAX} \<and> o_max_read_depth o' \<in> {-1..INT_MAX} \<and>
       (case o_eval_source o' of None \<Rightarrow> True | Some s \<Rightarrow> s \<noteq> [] \<and> length s < o_eval_source_cap o')
   | (Inl e, _) \<Rightarrow> e \<in> {Return 0, Return 1, Return 64}"
proof -
  have "cli_ok initial_cli" by (simp add: cli_ok_def initial_cli_def FEX_BUILTINS_NONE_def INT_MAX_def)
  from keeps_parse [OF this, of M prog args] show ?thesis
    by (auto simp: wp_def cli_ok_def cli_stop_def split: prod.splits sum.splits option.splits)
qed

section \<open>A list of categories\<close>

text \<open>The pieces of a text between commas.\<close>

fun comma_pieces :: "string \<Rightarrow> string list" where
  "comma_pieces [] = [[]]"
| "comma_pieces (x # s) =
     (if x = CHR '','' then [] # comma_pieces s else case comma_pieces s of t # ts \<Rightarrow> (x # t) # ts | [] \<Rightarrow> [])"

lemma comma_pieces_step:
  "comma_pieces s = takeWhile (\<lambda>c. c \<noteq> CHR '','') s #
     (let b = dropWhile (\<lambda>c. c \<noteq> CHR '','') s in if b = [] then [] else comma_pieces (List.tl b))"
  by (induction s) (auto simp: Let_def)


section \<open>The texts of diagnostics\<close>

interpretation diagnostics: json_escaping diag_char_text
proof
  fix x
  define plain where "plain = (x \<notin> {CHR 0x22, CHR 0x5C, CHR 0x0A, CHR 0x0D, CHR 0x09})"
  show "(\<exists>e. diag_char_text x = [CHR 0x5C, e] \<and> map_of json_escapes e = Some x) \<or>
    diag_char_text x = CHR 0x5C # CHR ''u'' # json_hex_digits x \<and> (of_char x :: nat) < 0x20 \<or>
    diag_char_text x = [x] \<and> x \<noteq> CHR 0x22 \<and> x \<noteq> CHR 0x5C \<and> \<not> (of_char x :: nat) < 0x20"
  proof (cases plain)
    case True
    then have "diag_char_text x = (if (of_char x :: nat) < 0x20 then CHR 0x5C # CHR ''u'' # json_hex_digits x else [x])"
      by (simp add: plain_def diag_char_text_def)
    with True show ?thesis by (auto simp: plain_def)
  next
    case False
    then have "x = CHR 0x22 \<or> x = CHR 0x5C \<or> x = CHR 0x0A \<or> x = CHR 0x0D \<or> x = CHR 0x09" by (auto simp: plain_def)
    then show ?thesis by (elim disjE) (simp_all add: diag_char_text_def json_escapes_def)
  qed
qed



end
