(* ===== verification/Fex_Files.thy ===== *)
theory Fex_Files
  imports Fex_Json "HOL-Library.Char_ord" "HOL-Library.List_Lexorder"
begin

text \<open>
  The functions on paths, files and directories and those of the process environment
  (\<^verbatim>\<open>fex_builtins.c\<close>, \<^verbatim>\<open>is_path_separator_char\<close>, the I/O functions, \<^verbatim>\<open>cwd\<close>, \<^verbatim>\<open>chdir\<close>, \<^verbatim>\<open>getenv\<close>, \<^verbatim>\<open>time\<close>; the POSIX
  branches). The operating system is a parameter: a record of its calls on a state \<open>'d\<close>, which is
  passed along with the context. Buffers from \<^verbatim>\<open>malloc\<close> leave no trace but the answer of the environment;
  the contents of a file are read into a tracked buffer.
\<close>

section \<open>The operating system\<close>

datatype mkdir_answer = Created | AlreadyExists | MkdirFailed

text \<open>
  \<open>os_stat\<close>: \<open>None\<close> when \<^verbatim>\<open>stat\<close> fails, otherwise whether the path is a directory. \<open>os_open\<close>: whether the file
  can be opened for reading; \<open>os_size\<close>: what \<^verbatim>\<open>fseek\<close> and \<^verbatim>\<open>ftell\<close> say of its end, \<open>None\<close> when the first fails.
  \<open>os_read\<close>: the bytes \<^verbatim>\<open>fread\<close> delivers at an offset and whether \<^verbatim>\<open>ferror\<close> holds then. \<open>os_create\<close>: \<^verbatim>\<open>fopen\<close> with mode
  \<^verbatim>\<open>wb\<close>; \<open>os_write\<close>: the number of bytes \<^verbatim>\<open>fwrite\<close> appends and whether \<^verbatim>\<open>ferror\<close> holds then.
\<close>

record 'd os_calls =
  os_stat :: "'d \<Rightarrow> string \<Rightarrow> bool option"
  os_open :: "'d \<Rightarrow> string \<Rightarrow> bool"
  os_size :: "'d \<Rightarrow> string \<Rightarrow> int option"
  os_read :: "'d \<Rightarrow> string \<Rightarrow> nat \<Rightarrow> nat \<Rightarrow> string \<times> bool"
  os_create :: "string \<Rightarrow> 'd \<Rightarrow> bool \<times> 'd"
  os_write :: "string \<Rightarrow> string \<Rightarrow> 'd \<Rightarrow> (nat \<times> bool) \<times> 'd"
  os_mkdir :: "string \<Rightarrow> 'd \<Rightarrow> mkdir_answer \<times> 'd"
  os_entries :: "'d \<Rightarrow> string \<Rightarrow> string list option"
  os_getcwd :: "'d \<Rightarrow> string option"
  os_chdir :: "string \<Rightarrow> 'd \<Rightarrow> bool \<times> 'd"
  os_getenv :: "'d \<Rightarrow> string \<Rightarrow> string option"
  os_time :: "'d \<Rightarrow> int"

type_synonym ('d, 'a) dcomp = "(fe_Context \<times> 'd, fe_err, 'a) comp"

definition in_ctx :: "'a fcomp \<Rightarrow> ('d, 'a) dcomp" where
  "in_ctx m s = (case m (fst s) of (r, c) \<Rightarrow> (r, (c, snd s)))"

definition on_disk :: "('d \<Rightarrow> 'a \<times> 'd) \<Rightarrow> ('d, 'a) dcomp" where
  "on_disk f s = (case f (snd s) of (x, d) \<Rightarrow> (Inr x, (fst s, d)))"

definition of_disk :: "('d \<Rightarrow> 'a) \<Rightarrow> ('d, 'a) dcomp" where
  "of_disk f = gets (\<lambda>s. f (snd s))"

section \<open>Paths\<close>

definition is_path_separator_char :: "char \<Rightarrow> bool" where
  "is_path_separator_char chr \<longleftrightarrow> chr = CHR ''/'' \<or> chr = CHR 0x5C"

text \<open>The number of characters at the front of a text that satisfy a condition, with a poll for each.\<close>

primrec count_while :: "(char \<Rightarrow> bool) \<Rightarrow> string \<Rightarrow> nat \<Rightarrow> (nat \<times> nat) fcomp" where
  "count_while P [] countdown = ret (0, countdown)"
| "count_while P (c # s) countdown =
     (if P c then bnd (poll_or_fail countdown) (\<lambda>countdown.
        bnd (count_while P s countdown) (\<lambda>(n, countdown). ret (Suc n, countdown)))
      else ret (0, countdown))"

primrec join_chars :: "string \<Rightarrow> TextBuffer \<Rightarrow> nat \<Rightarrow> (TextBuffer \<times> nat) fcomp" where
  "join_chars [] b countdown = ret (b, countdown)"
| "join_chars (x # s) b countdown =
     bnd (poll_or_fail countdown) (\<lambda>countdown.
     bnd (buf_append_char (if is_path_separator_char x then CHR ''/'' else x) b) (\<lambda>r. case r of
         None \<Rightarrow> fe_error ''pathjoin: out of memory''
       | Some b \<Rightarrow> join_chars s b countdown))"

text \<open>One argument of \<^verbatim>\<open>pathjoin\<close>; \<^verbatim>\<open>need_sep\<close> is \<^verbatim>\<open>buf.len > 0\<close> at the end of the turn before.\<close>

definition join_part :: "string \<Rightarrow> TextBuffer \<Rightarrow> nat \<Rightarrow> (TextBuffer \<times> nat) fcomp" where
  "join_part part b countdown =
     bnd (if fst b \<noteq> [] then count_while is_path_separator_char part countdown else ret (0, countdown)) (\<lambda>(start, countdown).
     bnd (count_while is_path_separator_char (rev (drop start part)) countdown) (\<lambda>(behind, countdown).
       let body = take (length part - start - behind) (drop start part)
       in bnd (if body \<noteq> [] \<and> fst b \<noteq> [] \<and> List.last (fst b) \<noteq> CHR ''/'' then buf_append_char (CHR ''/'') b else ret (Some b)) (\<lambda>r.
         case r of None \<Rightarrow> fe_error ''pathjoin: out of memory'' | Some b \<Rightarrow> join_chars body b countdown)))"

primrec join_loop :: "nat \<Rightarrow> ptr \<Rightarrow> TextBuffer \<Rightarrow> nat \<Rightarrow> TextBuffer fcomp" where
  "join_loop 0 args b countdown = throw OutOfFuel"
| "join_loop (Suc k) args b countdown =
     (if isnil args then ret b
      else bnd (fe_nextarg args) (\<lambda>(part_obj, args). bnd (string_to_cstr part_obj ''pathjoin'') (\<lambda>part.
        bnd (join_part part b countdown) (\<lambda>(b, countdown). join_loop k args b countdown))))"

definition builtin_path_join :: "ptr \<Rightarrow> ptr fcomp" where
  "builtin_path_join args =
     sq (FEX_CHECK_ARGS args 1 ''pathjoin'') (bnd (gets walk_fuel) (\<lambda>k.
     bnd (join_loop k args empty_buffer FEX_BUILTIN_ABORT_CHECK_INTERVAL) (\<lambda>b.
     bnd (if fst b = [] then buf_append_char (CHR ''.'') b else ret (Some b)) (\<lambda>r. case r of
         None \<Rightarrow> fe_error ''pathjoin: out of memory''
       | Some b \<Rightarrow> fe_string (fst b)))))"

text \<open>A path without the separators at its end, but with its first character.\<close>

definition strip_end :: "string \<Rightarrow> nat \<Rightarrow> (string \<times> nat) fcomp" where
  "strip_end path countdown =
     bnd (count_while is_path_separator_char (rev (drop 1 path)) countdown) (\<lambda>(n, countdown).
       ret (take (length path - n) path, countdown))"

text \<open>The loop of \<^verbatim>\<open>dirname\<close>, from the end: what is in front of the last separator, reversed.\<close>

primrec last_separator :: "string \<Rightarrow> nat \<Rightarrow> (string option \<times> nat) fcomp" where
  "last_separator [] countdown = ret (None, countdown)"
| "last_separator (x # r) countdown = bnd (poll_or_fail countdown) (\<lambda>countdown.
     if is_path_separator_char x then ret (Some r, countdown) else last_separator r countdown)"

definition builtin_dirname :: "ptr \<Rightarrow> ptr fcomp" where
  "builtin_dirname args =
     sq (FEX_CHECK_ARGS args 1 ''dirname'') (bnd (fe_nextarg args) (\<lambda>(path_obj, _).
     bnd (string_to_cstr path_obj ''dirname'') (\<lambda>path.
     bnd (strip_end path FEX_BUILTIN_ABORT_CHECK_INTERVAL) (\<lambda>(p, countdown).
     bnd (last_separator (rev p) countdown) (\<lambda>(front, countdown). case front of
         None \<Rightarrow> fe_string ''.''
       | Some r \<Rightarrow> bnd (count_while is_path_separator_char r countdown) (\<lambda>(n, _).
           let r = drop n r in if r = [] then fe_string ''/'' else fe_string (rev r)))))))"

definition builtin_basename :: "ptr \<Rightarrow> ptr fcomp" where
  "builtin_basename args =
     sq (FEX_CHECK_ARGS args 1 ''basename'') (bnd (fe_nextarg args) (\<lambda>(path_obj, _).
     bnd (string_to_cstr path_obj ''basename'') (\<lambda>path.
     bnd (strip_end path FEX_BUILTIN_ABORT_CHECK_INTERVAL) (\<lambda>(p, countdown).
     bnd (count_while (\<lambda>c. \<not> is_path_separator_char c) (rev p) countdown) (\<lambda>(n, _).
       fe_string (drop (length p - n) p))))))"

section \<open>Directories\<close>

definition path_exists_cstr :: "'d os_calls \<Rightarrow> 'd \<Rightarrow> string \<Rightarrow> bool" where
  "path_exists_cstr D d path \<longleftrightarrow> os_stat D d path \<noteq> None"

definition path_is_directory_cstr :: "'d os_calls \<Rightarrow> 'd \<Rightarrow> string \<Rightarrow> bool" where
  "path_is_directory_cstr D d path \<longleftrightarrow> os_stat D d path = Some True"

definition create_directory_cstr :: "'d os_calls \<Rightarrow> string \<Rightarrow> 'd \<Rightarrow> bool \<times> 'd" where
  "create_directory_cstr D path d = (case os_mkdir D path d of
      (Created, d) \<Rightarrow> (True, d)
    | (AlreadyExists, d) \<Rightarrow> (path_is_directory_cstr D d path, d)
    | (MkdirFailed, d) \<Rightarrow> (False, d))"

definition path_root_length :: "string \<Rightarrow> nat" where
  "path_root_length path = (if path \<noteq> [] \<and> is_path_separator_char (hd path) then 1 else 0)"

text \<open>The loop over the positions of a path.\<close>

primrec create_prefixes :: "'d os_calls \<Rightarrow> string \<Rightarrow> nat list \<Rightarrow> 'd \<Rightarrow> bool \<times> 'd" where
  "create_prefixes D path [] d = create_directory_cstr D path d"
| "create_prefixes D path (i # is) d =
     (if \<not> is_path_separator_char (path ! i) \<or> i = path_root_length path then create_prefixes D path is d
      else if take i path \<noteq> [] \<and> \<not> (i = 2 \<and> path ! 1 = CHR '':'')
      then (case create_directory_cstr D (take i path) d of
              (True, d) \<Rightarrow> create_prefixes D path is d | (False, d) \<Rightarrow> (False, d))
      else create_prefixes D path is d)"

definition strip_tree_end :: "string \<Rightarrow> string" where
  "strip_tree_end path = (let r = path_root_length path in take r path @ rev (dropWhile is_path_separator_char (rev (drop r path))))"

definition ensure_directory_tree_cstr :: "'d os_calls \<Rightarrow> string \<Rightarrow> 'd \<Rightarrow> bool \<times> 'd" where
  "ensure_directory_tree_cstr D path d =
     (let path = strip_tree_end path
      in if path = [] then (False, d) else create_prefixes D path [path_root_length path..<length path] d)"

definition builtin_exists :: "'d os_calls \<Rightarrow> ptr \<Rightarrow> ('d, ptr) dcomp" where
  "builtin_exists D args =
     sq (in_ctx (FEX_CHECK_ARGS args 1 ''exists'')) (bnd (in_ctx (fe_nextarg args)) (\<lambda>(path_obj, _).
     bnd (in_ctx (string_to_cstr path_obj ''exists'')) (\<lambda>path.
     bnd (of_disk (\<lambda>d. path_exists_cstr D d path)) (\<lambda>b. ret (fe_bool b)))))"

definition builtin_make_dir :: "'d os_calls \<Rightarrow> ptr \<Rightarrow> ('d, ptr) dcomp" where
  "builtin_make_dir D args =
     sq (in_ctx (FEX_CHECK_ARGS args 1 ''mkdir'')) (bnd (in_ctx (fe_nextarg args)) (\<lambda>(path_obj, _).
     bnd (in_ctx (string_to_cstr path_obj ''mkdir'')) (\<lambda>path.
     bnd (on_disk (create_directory_cstr D path)) (\<lambda>ok.
       if \<not> ok then in_ctx (fe_error ''mkdir: could not create directory'') else ret (fe_bool True)))))"

definition builtin_make_dir_parents :: "'d os_calls \<Rightarrow> ptr \<Rightarrow> ('d, ptr) dcomp" where
  "builtin_make_dir_parents D args =
     sq (in_ctx (FEX_CHECK_ARGS args 1 ''mkdirp'')) (bnd (in_ctx (fe_nextarg args)) (\<lambda>(path_obj, _).
     bnd (in_ctx (string_to_cstr path_obj ''mkdirp'')) (\<lambda>path.
     bnd (on_disk (ensure_directory_tree_cstr D path)) (\<lambda>ok.
       if \<not> ok then in_ctx (fe_error ''mkdirp: could not create directory tree'') else ret (fe_bool True)))))"

definition cstring_array_push_copy :: "string \<Rightarrow> string list \<Rightarrow> string list option fcomp" where
  "cstring_array_push_copy value items =
     bnd (builtin_alloc (length value + 1)) (\<lambda>copy. if \<not> copy then ret None
     else bnd (lift_st (sys_malloc (of_nat (8 * (length items + 2))))) (\<lambda>ok.
       ret (if ok then Some (items @ [value]) else None)))"

text \<open>\<^verbatim>\<open>qsort\<close> with \<^verbatim>\<open>strcmp\<close>: the order of strings by their bytes.\<close>

definition cstring_array_sort :: "string list \<Rightarrow> string list" where
  "cstring_array_sort items = sort items"

primrec push_strings :: "string list \<Rightarrow> ptr list \<Rightarrow> nat \<Rightarrow> ptr list fcomp" where
  "push_strings [] items countdown = ret items"
| "push_strings (s # ss) items countdown = bnd (poll_or_fail countdown) (\<lambda>countdown.
     bnd (fe_string s) (\<lambda>x. sq (fe_pushgc x) (push_strings ss (items @ [x]) countdown)))"

definition cstring_array_to_list :: "string list \<Rightarrow> ptr fcomp" where
  "cstring_array_to_list a =
     (if a = [] then ret Nil
      else bnd (builtin_alloc (8 * length a)) (\<lambda>ok. if \<not> ok then fe_error ''listdir: out of memory''
        else bnd fe_savegc (\<lambda>gc_save. bnd (push_strings a [] 1) (\<lambda>items.
          bnd (fe_list items) (\<lambda>result. sq (fe_restoregc gc_save) (ret result))))))"

primrec collect_entries :: "string list \<Rightarrow> string list \<Rightarrow> nat \<Rightarrow> string list fcomp" where
  "collect_entries [] items countdown = ret items"
| "collect_entries (e # es) items countdown = bnd (poll_or_fail countdown) (\<lambda>countdown.
     if e = ''.'' \<or> e = ''..'' then collect_entries es items countdown
     else bnd (cstring_array_push_copy e items) (\<lambda>r. case r of
         None \<Rightarrow> fe_error ''listdir: out of memory''
       | Some items \<Rightarrow> collect_entries es items countdown))"

definition builtin_list_dir :: "'d os_calls \<Rightarrow> ptr \<Rightarrow> ('d, ptr) dcomp" where
  "builtin_list_dir D args =
     sq (in_ctx (FEX_CHECK_ARGS args 1 ''listdir'')) (bnd (in_ctx (fe_nextarg args)) (\<lambda>(path_obj, _).
     bnd (in_ctx (string_to_cstr path_obj ''listdir'')) (\<lambda>path.
     bnd (of_disk (\<lambda>d. (path_is_directory_cstr D d path, os_entries D d path))) (\<lambda>(is_dir, dir).
       if \<not> is_dir then in_ctx (fe_error ''listdir: not a directory'')
       else case dir of
           None \<Rightarrow> in_ctx (fe_error ''listdir: could not read directory'')
         | Some es \<Rightarrow> in_ctx (bnd (collect_entries es [] 1) (\<lambda>entries.
             cstring_array_to_list (cstring_array_sort entries)))))))"

section \<open>Reading files\<close>

text \<open>The loop over the pieces; a short read ends it.\<close>

function read_pieces :: "'d os_calls \<Rightarrow> string \<Rightarrow> string \<Rightarrow> nat \<Rightarrow> nat \<Rightarrow> string \<Rightarrow> nat \<Rightarrow> ('d, string) dcomp" where
  "read_pieces D func_name filename file_size todo acc countdown =
     (if todo = 0 then ret acc
      else let chunk_size = (if todo > FEX_FILE_IO_CHUNK_SIZE then FEX_FILE_IO_CHUNK_SIZE else todo)
        in bnd (in_ctx (builtin_poll_abort countdown)) (\<lambda>(abort_error, countdown). case abort_error of
            Some m \<Rightarrow> in_ctx (sq (modify (tracked_free (Some (of_nat (file_size + 1))))) (fe_error m))
          | None \<Rightarrow> bnd (of_disk (\<lambda>d. os_read D d filename (length acc) chunk_size)) (\<lambda>(bs, failed).
              if length bs < chunk_size
              then if failed
                then in_ctx (sq (modify (tracked_free (Some (of_nat (file_size + 1))))) (fe_error (func_name @ '': error reading file'')))
                else ret (acc @ bs)
              else read_pieces D func_name filename file_size (todo - chunk_size) (acc @ bs) countdown)))"
  by pat_completeness auto
termination by (relation "measure (\<lambda>(D, fn, f, s, todo, a, n). todo)") (auto simp: FEX_FILE_IO_CHUNK_SIZE_def)

declare read_pieces.simps [simp del]

text \<open>The bytes read and the tracked buffer they are in.\<close>

definition read_file_dynamic :: "'d os_calls \<Rightarrow> string \<Rightarrow> nat \<Rightarrow> string \<Rightarrow> ('d, string \<times> block) dcomp" where
  "read_file_dynamic D filename max_size func_name =
     bnd (of_disk (\<lambda>d. (os_open D d filename, os_size D d filename))) (\<lambda>(opened, sz).
       if \<not> opened then in_ctx (fe_error (func_name @ '': could not open file''))
       else case sz of
           None \<Rightarrow> in_ctx (fe_error (func_name @ '': could not determine file size''))
         | Some file_size \<Rightarrow>
             if file_size < 0 then in_ctx (fe_error (func_name @ '': could not determine file size''))
             else if nat file_size > max_size then in_ctx (fe_error (func_name @ '': file too large''))
             else bnd (in_ctx (lift_st (tracked_alloc (of_nat (nat file_size + 1))))) (\<lambda>buffer. case buffer of
                 None \<Rightarrow> in_ctx (memory_error (func_name @ '': out of memory''))
               | Some b \<Rightarrow> bnd (read_pieces D func_name filename (nat file_size) (nat file_size) [] 1) (\<lambda>bs. ret (bs, Some b))))"

definition builtin_read_file :: "'d os_calls \<Rightarrow> ptr \<Rightarrow> ('d, ptr) dcomp" where
  "builtin_read_file D args =
     sq (in_ctx (FEX_CHECK_ARGS args 1 ''readfile'')) (bnd (in_ctx (fe_nextarg args)) (\<lambda>(filename_obj, _).
     bnd (in_ctx (string_to_cstr filename_obj ''readfile'')) (\<lambda>filename.
     bnd (read_file_dynamic D filename (256 * 1024) ''readfile'') (\<lambda>(bs, b).
     in_ctx (bnd (fe_string bs) (\<lambda>result. sq (modify (tracked_free b)) (ret result)))))))"

definition builtin_read_bytes :: "'d os_calls \<Rightarrow> ptr \<Rightarrow> ('d, ptr) dcomp" where
  "builtin_read_bytes D args =
     sq (in_ctx (FEX_CHECK_ARGS args 1 ''readbytes'')) (bnd (in_ctx (fe_nextarg args)) (\<lambda>(filename_obj, _).
     bnd (in_ctx (string_to_cstr filename_obj ''readbytes'')) (\<lambda>filename.
     bnd (read_file_dynamic D filename (256 * 1024) ''readbytes'') (\<lambda>(bs, b).
     in_ctx (bnd (fe_bytes bs) (\<lambda>result. sq (modify (tracked_free b)) (ret result)))))))"

text \<open>The JSON parser works on the text as a C string.\<close>

definition builtin_read_json :: "'d os_calls \<Rightarrow> nat \<Rightarrow> nat \<Rightarrow> ptr \<Rightarrow> ('d, ptr) dcomp" where
  "builtin_read_json D k n args =
     sq (in_ctx (FEX_CHECK_ARGS args 1 ''readjson'')) (bnd (in_ctx (fe_nextarg args)) (\<lambda>(filename_obj, _).
     bnd (in_ctx (string_to_cstr filename_obj ''readjson'')) (\<lambda>filename.
     bnd (read_file_dynamic D filename (256 * 1024) ''readjson'') (\<lambda>(bs, b).
     in_ctx (bnd (json_parse_value OutOfFuel k n (takeWhile (\<lambda>x. x \<noteq> CHR 0x00) bs, FEX_BUILTIN_ABORT_CHECK_INTERVAL)) (\<lambda>(result, p).
       bnd (json_skip_ws p) (\<lambda>(text, _). sq (modify (tracked_free b))
         (if text \<noteq> [] then fe_error ''readjson: trailing characters'' else ret result))))))))"

section \<open>Writing files\<close>

function write_pieces :: "'d os_calls \<Rightarrow> string \<Rightarrow> string \<Rightarrow> string \<Rightarrow> nat \<Rightarrow> ('d, unit) dcomp" where
  "write_pieces D func_name filename content countdown =
     (if content = [] then ret ()
      else let chunk = take FEX_FILE_IO_CHUNK_SIZE content
        in bnd (in_ctx (poll_or_fail countdown)) (\<lambda>countdown.
           bnd (on_disk (os_write D filename chunk)) (\<lambda>(written, failed).
             if written < length chunk \<or> failed then in_ctx (fe_error (func_name @ '': error writing file''))
             else write_pieces D func_name filename (drop FEX_FILE_IO_CHUNK_SIZE content) countdown)))"
  by pat_completeness auto
termination by (relation "measure (\<lambda>(D, fn, f, s, n). length s)") (auto simp: FEX_FILE_IO_CHUNK_SIZE_def)

declare write_pieces.simps [simp del]

definition write_content :: "'d os_calls \<Rightarrow> string \<Rightarrow> string \<Rightarrow> string \<Rightarrow> ('d, ptr) dcomp" where
  "write_content D func_name filename content =
     bnd (on_disk (os_create D filename)) (\<lambda>opened.
       if \<not> opened then in_ctx (fe_error (func_name @ '': could not open file for writing''))
       else sq (write_pieces D func_name filename content 1)
         (in_ctx (fe_make_number (num_of_int (int (length content))))))"

definition builtin_write_file :: "'d os_calls \<Rightarrow> ptr \<Rightarrow> ('d, ptr) dcomp" where
  "builtin_write_file D args =
     sq (in_ctx (FEX_CHECK_ARGS args 2 ''writefile'')) (bnd (in_ctx (fe_nextarg args)) (\<lambda>(filename_obj, args).
     bnd (in_ctx (fe_nextarg args)) (\<lambda>(content_obj, _). bnd (in_ctx (string_to_cstr filename_obj ''writefile'')) (\<lambda>filename.
     bnd (in_ctx (string_to_cstr content_obj ''writefile'')) (\<lambda>content.
     write_content D ''writefile'' filename content)))))"

definition builtin_write_bytes :: "'d os_calls \<Rightarrow> ptr \<Rightarrow> ('d, ptr) dcomp" where
  "builtin_write_bytes D args =
     sq (in_ctx (FEX_CHECK_ARGS args 2 ''writebytes'')) (bnd (in_ctx (fe_nextarg args)) (\<lambda>(filename_obj, args).
     bnd (in_ctx (fe_nextarg args)) (\<lambda>(content_obj, _). bnd (in_ctx (string_to_cstr filename_obj ''writebytes'')) (\<lambda>filename.
     bnd (in_ctx (bytes_to_buffer content_obj ''writebytes'')) (\<lambda>content.
     write_content D ''writebytes'' filename content)))))"

definition builtin_write_json :: "'d os_calls \<Rightarrow> nat \<Rightarrow> nat \<Rightarrow> ptr \<Rightarrow> ('d, ptr) dcomp" where
  "builtin_write_json D k n args =
     sq (in_ctx (FEX_CHECK_ARGS args 2 ''writejson'')) (bnd (in_ctx (fe_nextarg args)) (\<lambda>(filename_obj, args).
     bnd (in_ctx (fe_nextarg args)) (\<lambda>(value, _). bnd (in_ctx (string_to_cstr filename_obj ''writejson'')) (\<lambda>filename.
     bnd (in_ctx (json_write_value k n value (empty_buffer, FEX_BUILTIN_ABORT_CHECK_INTERVAL))) (\<lambda>r. case r of
         None \<Rightarrow> ret Nil
       | Some w \<Rightarrow> write_content D ''writejson'' filename (fst (fst w)))))))"

section \<open>The process\<close>

text \<open>The buffer for \<^verbatim>\<open>getcwd\<close> doubles until the path fits; \<open>None\<close> is the null pointer. The size starts
  at 256 and is never 0: the test for it only ends the recursion.\<close>

function cwd_loop :: "string option \<Rightarrow> nat \<Rightarrow> string option fcomp" where
  "cwd_loop cwd file_size =
     bnd (lift_st (sys_malloc (of_nat file_size))) (\<lambda>ok. if \<not> ok then ret None
     else case cwd of
         None \<Rightarrow> ret None
       | Some s \<Rightarrow> if length s < file_size \<or> file_size = 0 then ret (Some s) else cwd_loop cwd (file_size * 2))"
  by pat_completeness auto
termination
  by (relation "measure (\<lambda>(cwd, file_size). case cwd of Some s \<Rightarrow> Suc (length s) - file_size | None \<Rightarrow> 0)") auto

declare cwd_loop.simps [simp del]

definition current_working_directory_cstr :: "string option \<Rightarrow> string option fcomp" where
  "current_working_directory_cstr cwd = cwd_loop cwd 256"

definition builtin_cwd :: "'d os_calls \<Rightarrow> ptr \<Rightarrow> ('d, ptr) dcomp" where
  "builtin_cwd D args =
     sq (in_ctx (FEX_CHECK_NO_ARGS args ''cwd'')) (bnd (of_disk (os_getcwd D)) (\<lambda>cwd.
     in_ctx (bnd (current_working_directory_cstr cwd) (\<lambda>path. case path of
         None \<Rightarrow> fe_error ''cwd: could not determine current directory''
       | Some s \<Rightarrow> fe_string s))))"

definition builtin_chdir :: "'d os_calls \<Rightarrow> ptr \<Rightarrow> ('d, ptr) dcomp" where
  "builtin_chdir D args =
     sq (in_ctx (FEX_CHECK_ARGS args 1 ''chdir'')) (bnd (in_ctx (fe_nextarg args)) (\<lambda>(path_obj, _).
     bnd (in_ctx (string_to_cstr path_obj ''chdir'')) (\<lambda>path. bnd (on_disk (os_chdir D path)) (\<lambda>ok.
       if \<not> ok then in_ctx (fe_error ''chdir: could not change directory'') else ret (fe_bool True)))))"

definition builtin_get_env :: "'d os_calls \<Rightarrow> ptr \<Rightarrow> ('d, ptr) dcomp" where
  "builtin_get_env D args =
     sq (in_ctx (FEX_CHECK_ARGS args 1 ''getenv'')) (bnd (in_ctx (fe_nextarg args)) (\<lambda>(name_obj, _).
     bnd (in_ctx (string_to_cstr name_obj ''getenv'')) (\<lambda>name. bnd (of_disk (\<lambda>d. os_getenv D d name)) (\<lambda>value.
       case value of None \<Rightarrow> ret Nil | Some s \<Rightarrow> in_ctx (fe_string s)))))"

definition builtin_time :: "'d os_calls \<Rightarrow> ptr \<Rightarrow> ('d, ptr) dcomp" where
  "builtin_time D args = bnd (of_disk (os_time D)) (\<lambda>t. in_ctx (fe_make_number (num_of_int t)))"

section \<open>Arguments in the heap\<close>

lemma gives_nextarg:
  assumes "pair_list (objects c) args (x # xs)"
  shows "gives c (fe_nextarg args) (\<lambda>(y, r). y = x \<and> pair_list (objects c) r xs)"
proof -
  from assms obtain i d where i: "args = Ref i" "i < length (objects c)" "ty (objects c ! i) = FE_TPAIR"
    "ocar (objects c ! i) = VObj x" "ocdr (objects c ! i) = VObj d" "pair_list (objects c) d xs" by (rule pair_listE)
  have t: "typeof c args = FE_TPAIR" using i by (simp add: typeof_def)
  show ?thesis
  proof (rule gives_pure)
    fix c1 assume m: "limit_ctx.more c1 = limit_ctx.more c"
    have "fe_nextarg args c1 = bnd (cdr args) (\<lambda>rest. bnd (car args) (\<lambda>x. ret (x, rest))) c1"
      using Fex_Strings.typeof_more [OF m, of args] t by (simp add: fe_nextarg_def bnd_gets)
    also have "\<dots> = (Inr (x, d), c1)"
      using cdr_more [OF m i(2,5)] car_more [OF m i(2,4)] i(1) by (simp add: bnd_def ret_def)
    finally show "fe_nextarg args c1 = (Inr (x, d), c1)" .
  qed (use i in simp)
qed

lemma arg_count_run:
  "pair_list (objects c) args xs \<Longrightarrow> length xs < k \<Longrightarrow> limit_ctx.more c1 = limit_ctx.more c \<Longrightarrow>
   arg_count k n args c1 = (Inr (n + length xs), c1)"
proof (induction xs arbitrary: k n args)
  case Nil
  then show ?case by (cases k) (simp_all add: isnil_def ret_def)
next
  case (Cons x xs)
  from Cons.prems(1) obtain i d where i: "args = Ref i" "i < length (objects c)" "ty (objects c ! i) = FE_TPAIR"
    "ocdr (objects c ! i) = VObj d" "pair_list (objects c) d xs" by (rule pair_listE)
  from Cons.prems(2) obtain k' where k: "k = Suc k'" "length xs < k'" by (cases k) auto
  have "typeof c1 args = FE_TPAIR"
    using Fex_Strings.typeof_more [OF Cons.prems(3), of args] i by (simp add: typeof_def)
  then have "fe_cdr args c1 = (Inr d, c1)"
    using cdr_more [OF Cons.prems(3) i(2,4)] i(1)
    by (simp add: fe_cdr_def checktype_def bnd_def gets_def ret_def isnil_def)
  with Cons.IH [OF i(5) k(2) Cons.prems(3)] k(1) i(1) show ?case by (simp add: isnil_def bnd_def)
qed

lemma gives_check_args:
  assumes "pair_list (objects c) args xs" and "n \<le> length xs"
  shows "gives c (FEX_CHECK_ARGS args n f) (\<lambda>_. True)"
proof (rule gives_pure)
  fix c1 assume m: "limit_ctx.more c1 = limit_ctx.more c"
  have "length xs < walk_fuel c1"
    using heap_list_length [OF pair_list_heap_list [OF assms(1)]] more_fields(1) [OF m] by (simp add: walk_fuel_def)
  from arg_count_run [OF assms(1) this m, of 0] assms(2) show "FEX_CHECK_ARGS args n f c1 = (Inr (), c1)"
    by (simp add: FEX_CHECK_ARGS_def bnd_def gets_def ret_def)
qed simp

lemma gives_cstr:
  assumes "is_string c p s" "wf_slabs (slabs c)"
  shows "gives c (string_to_cstr p f) (\<lambda>r. r = s \<and> CHR 0x00 \<notin> set s)"
  unfolding string_to_cstr_def by (rule gives_bnd [OF gives_buffer [OF assms]]) (auto intro!: gives_error gives_ret)

definition is_bytes :: "fe_Context \<Rightarrow> ptr \<Rightarrow> string \<Rightarrow> bool" where
  "is_bytes c p bs \<longleftrightarrow> typeof c p = FE_TBYTES \<and> obj_bytes c p = Some bs"

lemma gives_bytes:
  assumes "is_bytes c p bs" "wf_slabs (slabs c)"
  shows "gives c (bytes_to_buffer p f) (\<lambda>r. r = bs)"
proof -
  have t: "typeof c p = FE_TBYTES" and b: "obj_bytes c p = Some bs" using assms(1) by (simp_all add: is_bytes_def)
  have run: "fe_byteslen p c1 = (Inr (length bs), c1)" "fe_bytescopy p 0 (length bs) c1 = (Inr bs, c1)"
    if m: "limit_ctx.more c1 = limit_ctx.more c" for c1
  proof -
    have "wf_slabs (slabs c1)" "obj_bytes c1 p = Some bs" "typeof c1 p = FE_TBYTES"
      using assms(2) b t more_fields [OF m] obj_bytes_fields [of c1 c] Fex_Strings.typeof_more [OF m] by simp_all
    from bytescopy_window [OF this] show "fe_byteslen p c1 = (Inr (length bs), c1)" "fe_bytescopy p 0 (length bs) c1 = (Inr bs, c1)"
      by simp_all
  qed
  have l: "gives c (fe_byteslen p) (\<lambda>n. n = length bs)" by (rule gives_pure [OF run(1)]) simp_all
  have cp: "gives c (fe_bytescopy p 0 (length bs)) (\<lambda>r. r = bs)" by (rule gives_pure [OF run(2)]) simp_all
  show ?thesis unfolding bytes_to_buffer_def sq_def
    by (rule gives_bnd [OF gives_check_type [OF t]], rule gives_bnd [OF l])
      (auto intro!: gives_bnd [OF gives_alloc] gives_error gives_ret cp)
qed

section \<open>Computations with a disk\<close>

text \<open>
  \<open>dgives c d m Q\<close>: in any state that differs from \<open>c\<close> only below the heap, with disk \<open>d\<close>, \<open>m\<close> leaves the heap as it
  is and returns a value and a disk that satisfy \<open>Q\<close>, or raises an error.
\<close>

definition dgives :: "fe_Context \<Rightarrow> 'd \<Rightarrow> ('d, 'a) dcomp \<Rightarrow> ('a \<Rightarrow> 'd \<Rightarrow> bool) \<Rightarrow> bool" where
  "dgives c d m Q \<longleftrightarrow> (\<forall>c1. limit_ctx.more c1 = limit_ctx.more c \<longrightarrow>
     wp m (\<lambda>x (c', d'). Q x d' \<and> limit_ctx.more c' = limit_ctx.more c) (\<lambda>e (c', d'). poll_err c e c') (c1, d))"

lemma wp_in_ctx: "wp (in_ctx m) P E (c, d) = wp m (\<lambda>x c'. P x (c', d)) (\<lambda>e c'. E e (c', d)) c"
  by (simp add: wp_def in_ctx_def split: prod.split sum.split)

lemma dgives_ctx: "gives c m Q \<Longrightarrow> (\<And>x. Q x \<Longrightarrow> R x d) \<Longrightarrow> dgives c d (in_ctx m) R"
  unfolding dgives_def gives_def wp_in_ctx by (auto elim!: wp_mono)

lemma dgives_bnd:
  assumes "dgives c d m P" and "\<And>x d'. P x d' \<Longrightarrow> dgives c d' (f x) Q" shows "dgives c d (bnd m f) Q"
  unfolding dgives_def wp_bnd
proof (intro allI impI)
  fix c1 assume m: "limit_ctx.more c1 = limit_ctx.more c"
  show "wp m (\<lambda>x. wp (f x) (\<lambda>y (c', d'). Q y d' \<and> limit_ctx.more c' = limit_ctx.more c) (\<lambda>e (c', d'). poll_err c e c'))
      (\<lambda>e (c', d'). poll_err c e c') (c1, d)"
    using assms(1) [unfolded dgives_def, rule_format, OF m]
    by (rule wp_mono) (use assms(2) in \<open>auto simp: dgives_def split: prod.splits\<close>)
qed

lemma dgives_ret: "Q x d \<Longrightarrow> dgives c d (ret x) Q"
  by (simp add: dgives_def wp_ret)

lemma dgives_error: "dgives c d (in_ctx (fe_error msg)) Q"
  by (rule dgives_ctx [OF gives_error, where Q = "\<lambda>_. False"]) simp

lemma dgives_of_disk: "Q (f d) d \<Longrightarrow> dgives c d (of_disk f) Q"
  by (simp add: dgives_def of_disk_def wp_gets)

lemma dgives_on_disk: "(\<And>x d'. f d = (x, d') \<Longrightarrow> Q x d') \<Longrightarrow> dgives c d (on_disk f) Q"
  by (auto simp: dgives_def on_disk_def wp_def split: prod.split)

section \<open>Writing a file and reading it back\<close>

text \<open>
  What the calls on files are documented to do, in terms of the contents of regular files: a file
  opened for writing is empty, what \<^verbatim>\<open>fwrite\<close> reports as written is appended, and a regular file is read
  as its contents.
\<close>

definition lawful_files :: "'d os_calls \<Rightarrow> ('d \<Rightarrow> string \<Rightarrow> string option) \<Rightarrow> bool" where
  "lawful_files D contents \<longleftrightarrow>
     (\<forall>p d d'. os_create D p d = (True, d') \<longrightarrow> contents d' p = Some []) \<and>
     (\<forall>p s bs d n f d'. contents d p = Some bs \<longrightarrow> os_write D p s d = ((n, f), d') \<longrightarrow> contents d' p = Some (bs @ take n s)) \<and>
     (\<forall>p bs d. contents d p = Some bs \<longrightarrow> os_open D d p \<and> os_size D d p = Some (int (length bs)) \<and>
        (\<forall>off n. os_read D d p off n = (take n (drop off bs), False)))"

lemma lawfulD:
  assumes "lawful_files D contents"
  shows "os_create D p d = (True, d') \<Longrightarrow> contents d' p = Some []"
    and "contents d p = Some bs \<Longrightarrow> os_write D p s d = (r, d') \<Longrightarrow> contents d' p = Some (bs @ take (fst r) s)"
    and "contents d p = Some bs \<Longrightarrow> os_open D d p" "contents d p = Some bs \<Longrightarrow> os_size D d p = Some (int (length bs))"
    and "contents d p = Some bs \<Longrightarrow> os_read D d p off n = (take n (drop off bs), False)"
  using assms unfolding lawful_files_def by (metis surjective_pairing | blast)+

lemma dgives_write_pieces:
  assumes law: "lawful_files D contents" and "contents d p = Some bs"
  shows "dgives c d (write_pieces D f p s n) (\<lambda>_ d'. contents d' p = Some (bs @ s))"
  using assms(2)
proof (induction s arbitrary: d bs n rule: length_induct)
  case (1 s)
  let ?k = FEX_FILE_IO_CHUNK_SIZE
  let ?Q = "\<lambda>_ d'. contents d' p = Some (bs @ s)"
  show ?case
  proof (cases "s = []")
    case True
    then show ?thesis using 1(2) unfolding write_pieces.simps [of D f p s n] by (simp add: dgives_ret)
  next
    case False
    have shorter: "length (drop ?k s) < length s" using False by (simp add: FEX_FILE_IO_CHUNK_SIZE_def)
    have w: "dgives c d (on_disk (os_write D p (take ?k s))) (\<lambda>x d'. contents d' p = Some (bs @ take (fst x) (take ?k s)))"
      by (rule dgives_on_disk) (rule lawfulD(2) [OF law 1(2)])
    have next_piece: "dgives c d' (write_pieces D f p (drop ?k s) n') ?Q"
      if "contents d' p = Some (bs @ take j (take ?k s))" "\<not> j < length (take ?k s)" for d' j n'
    proof -
      have "take j (take ?k s) = take ?k s" using that(2) by (intro take_all) linarith
      with that(1) 1(1) [rule_format, OF shorter, of d' "bs @ take ?k s" n'] show ?thesis by simp
    qed
    have "dgives c d (bnd (in_ctx (poll_or_fail n)) (\<lambda>n. bnd (on_disk (os_write D p (take ?k s))) (\<lambda>(written, failed).
        if written < length (take ?k s) \<or> failed then in_ctx (fe_error (f @ '': error writing file''))
        else write_pieces D f p (drop ?k s) n))) ?Q"
    proof (rule dgives_bnd [OF dgives_ctx [OF gives_poll, where R = "\<lambda>_ d'. d' = d"]], simp)
      fix n' and d' assume d': "d' = d"
      show "dgives c d' (bnd (on_disk (os_write D p (take ?k s))) (\<lambda>(written, failed).
          if written < length (take ?k s) \<or> failed then in_ctx (fe_error (f @ '': error writing file''))
          else write_pieces D f p (drop ?k s) n')) ?Q"
        unfolding d' by (rule dgives_bnd [OF w]) (auto intro!: dgives_error next_piece split: if_splits)
    qed
    with False show ?thesis unfolding write_pieces.simps [of D f p s n] Let_def by simp
  qed
qed

lemma gives_free: "gives c (modify (tracked_free b)) (\<lambda>_. True)"
  by (simp add: gives_def wp_modify)

lemma gives_free_error: "gives c (sq (modify (tracked_free b)) (fe_error m)) Q"
  unfolding sq_def by (rule gives_bnd [OF gives_free gives_error])

lemma gives_poll_abort: "gives c (builtin_poll_abort n) (\<lambda>_. True)"
proof -
  have "limit_ctx.more (snd (fe_poll_abort c1)) = limit_ctx.more c1" for c1 :: fe_Context
    unfolding fe_poll_abort_def by (rule poll_frame_fields(1) [OF poll_eval_abort_frame])
  then show ?thesis
    by (auto simp: gives_def builtin_poll_abort_def wp_simps)
qed

lemma dgives_read_pieces:
  assumes law: "lawful_files D contents" and "contents d p = Some bs" and "length acc + todo = length bs" "acc = take (length acc) bs"
  shows "dgives c d (read_pieces D f p sz todo acc n) (\<lambda>r d'. r = bs \<and> d' = d)"
  using assms(3,4)
proof (induction todo arbitrary: acc n rule: less_induct)
  case (less todo)
  show ?case
  proof (cases "todo = 0")
    case True
    with less(2,3) show ?thesis unfolding read_pieces.simps [of D f p sz todo acc n] by (auto intro!: dgives_ret)
  next
    case False
    define k where "k = (if todo > FEX_FILE_IO_CHUNK_SIZE then FEX_FILE_IO_CHUNK_SIZE else todo)"
    have k: "0 < k" "k \<le> todo" using False by (auto simp: k_def FEX_FILE_IO_CHUNK_SIZE_def)
    have rd: "os_read D d p (length acc) k = (take k (drop (length acc) bs), False)" by (rule lawfulD(5) [OF law assms(2)])
    have len: "length (take k (drop (length acc) bs)) = k" using k less(2) by simp
    have acc: "acc @ take k (drop (length acc) bs) = take (length acc + k) bs" using less(3) by (metis take_add)
    have IH: "dgives c d (read_pieces D f p sz (todo - k) (take (length acc + k) bs) n') (\<lambda>r d'. r = bs \<and> d' = d)" for n'
      using k less(2) by (intro less(1)) auto
    have step: "read_pieces D f p sz todo acc n =
       bnd (in_ctx (builtin_poll_abort n)) (\<lambda>(abort_error, countdown). case abort_error of
            Some m \<Rightarrow> in_ctx (sq (modify (tracked_free (Some (of_nat (sz + 1))))) (fe_error m))
          | None \<Rightarrow> bnd (of_disk (\<lambda>d. os_read D d p (length acc) k)) (\<lambda>(bs, failed).
              if length bs < k
              then if failed
                then in_ctx (sq (modify (tracked_free (Some (of_nat (sz + 1))))) (fe_error (f @ '': error reading file'')))
                else ret (acc @ bs)
              else read_pieces D f p sz (todo - k) (acc @ bs) countdown))"
      using False unfolding read_pieces.simps [of D f p sz todo acc n] Let_def k_def by simp
    have rest: "dgives c d (bnd (of_disk (\<lambda>d. os_read D d p (length acc) k)) (\<lambda>(bs, failed).
              if length bs < k
              then if failed
                then in_ctx (sq (modify (tracked_free (Some (of_nat (sz + 1))))) (fe_error (f @ '': error reading file'')))
                else ret (acc @ bs)
              else read_pieces D f p sz (todo - k) (acc @ bs) n')) (\<lambda>r d'. r = bs \<and> d' = d)" for n'
      by (rule dgives_bnd [OF dgives_of_disk [where Q = "\<lambda>x d'. x = (take k (drop (length acc) bs), False) \<and> d' = d"]])
        (use rd len acc IH in simp_all)
    show ?thesis unfolding step
      by (rule dgives_bnd [OF dgives_ctx [OF gives_poll_abort, where R = "\<lambda>_ d'. d' = d"]])
        (use rest in \<open>auto split: option.split intro!: dgives_ctx [OF gives_free_error, where Q = "\<lambda>_. False"]\<close>)
  qed
qed

lemma gives_tracked: "gives c (lift_st (tracked_alloc n)) (\<lambda>_. True)"
  by (simp add: gives_def wp_lift_st more_tracked_alloc)

lemma gives_memory_error: "gives c (memory_error msg) Q"
proof -
  have "wp (memory_error msg) (\<lambda>x c'. Q x \<and> limit_ctx.more c' = limit_ctx.more c) (poll_err c) c1"
    if "limit_ctx.more c1 = limit_ctx.more c" for c1
    using gives_error [of c _ Q, unfolded gives_def, rule_format, OF that] by (simp add: memory_error_def wp_def)
  then show ?thesis by (simp add: gives_def)
qed

lemma dgives_read_file:
  assumes law: "lawful_files D contents" and "contents d p = Some bs" and "length bs \<le> max_size"
  shows "dgives c d (read_file_dynamic D p max_size f) (\<lambda>r d'. fst r = bs \<and> d' = d)"
proof -
  have pieces: "dgives c d (bnd (read_pieces D f p (length bs) (length bs) [] 1) (\<lambda>bs. ret (bs, Some b))) (\<lambda>r d'. fst r = bs \<and> d' = d)" for b
    by (rule dgives_bnd [OF dgives_read_pieces [OF law assms(2)]]) (auto intro!: dgives_ret)
  have buffer: "dgives c d (bnd (in_ctx (lift_st (tracked_alloc (of_nat (length bs + 1))))) (\<lambda>buffer. case buffer of
       None \<Rightarrow> in_ctx (memory_error (f @ '': out of memory''))
     | Some b \<Rightarrow> bnd (read_pieces D f p (length bs) (length bs) [] 1) (\<lambda>bs. ret (bs, Some b)))) (\<lambda>r d'. fst r = bs \<and> d' = d)"
    by (rule dgives_bnd [OF dgives_ctx [OF gives_tracked, where R = "\<lambda>_ d'. d' = d"]])
      (use pieces in \<open>auto split: option.split intro!: dgives_ctx [OF gives_memory_error, where Q = "\<lambda>_. False"]\<close>)
  show ?thesis unfolding read_file_dynamic_def
    by (rule dgives_bnd [OF dgives_of_disk [where Q = "\<lambda>x d'. x = (True, Some (int (length bs))) \<and> d' = d"]])
      (use lawfulD(3,4) [OF law assms(2)] assms(3) buffer in simp_all)
qed

lemma gives_make_number_more:
  "wp (fe_make_number x) (\<lambda>_ _. True) (\<lambda>e _. \<exists>msg cl. e = FeError msg cl) c" if "heap_inv {} [] c"
  unfolding fe_make_number_def
  using wp_fe_number [OF that, of x] by (auto simp: wp_ret alloc_err_def elim!: wp_mono split: option.split)

text \<open>A step that leaves the heap alone, before one that does not.\<close>

lemma wp_dgives:
  assumes "dgives c d m Q" and "limit_ctx.more c1 = limit_ctx.more c"
    and "\<And>x c' d'. Q x d' \<Longrightarrow> limit_ctx.more c' = limit_ctx.more c \<Longrightarrow> wp (f x) P E (c', d')"
    and "\<And>msg cl c' d'. E (FeError msg cl) (c', d')"
  shows "wp (bnd m f) P E (c1, d)"
  unfolding wp_bnd
  using assms(1) [unfolded dgives_def, rule_format, OF assms(2)]
  by (rule wp_mono) (use assms(3,4) in \<open>auto simp: poll_err_def\<close>)

lemma wp_gives:
  assumes "gives c m Q" and "limit_ctx.more c1 = limit_ctx.more c"
    and "\<And>x c'. Q x \<Longrightarrow> limit_ctx.more c' = limit_ctx.more c \<Longrightarrow> wp (f x) P E (c', d)"
    and "\<And>msg cl c' d'. E (FeError msg cl) (c', d')"
  shows "wp (bnd (in_ctx m) f) P E (c1, d)"
  by (rule wp_dgives [OF dgives_ctx [OF assms(1), where R = "\<lambda>x d'. Q x \<and> d' = d"]]) (use assms in auto)

definition raises :: "fe_err \<Rightarrow> 's \<Rightarrow> bool" where
  "raises e s \<longleftrightarrow> (\<exists>msg cl. e = FeError msg cl)"

lemma raises_FeError [simp]: "raises (FeError msg cl) s" by (simp add: raises_def)

lemma wp_write_content:
  assumes law: "lawful_files D contents" and inv: "heap_inv {} [] c" and m: "limit_ctx.more c1 = limit_ctx.more c"
  shows "wp (write_content D f name bs) (\<lambda>_ (c', d'). contents d' name = Some bs) raises (c1, d)"
  unfolding write_content_def
proof (rule wp_dgives [OF dgives_on_disk [where Q = "\<lambda>ok d'. ok \<longrightarrow> contents d' name = Some []"] m])
  fix ok d' assume "os_create D name d = (ok, d')"
  then show "ok \<longrightarrow> contents d' name = Some []" using lawfulD(1) [OF law] by auto
next
  fix ok c2 d' assume c: "ok \<longrightarrow> contents d' name = Some []" and m2: "limit_ctx.more c2 = limit_ctx.more c"
  show "wp (if \<not> ok then in_ctx (fe_error (f @ '': could not open file for writing''))
      else sq (write_pieces D f name bs 1) (in_ctx (fe_make_number (num_of_int (int (length bs))))))
      (\<lambda>_ (c', d'). contents d' name = Some bs) raises (c2, d')"
  proof (cases ok)
    case True
    with c have c': "contents d' name = Some []" by simp
    have "wp (bnd (write_pieces D f name bs 1) (\<lambda>_. in_ctx (fe_make_number (num_of_int (int (length bs))))))
      (\<lambda>_ (c', d'). contents d' name = Some bs) raises (c2, d')"
    proof (rule wp_dgives [OF dgives_write_pieces [OF law c'] m2])
      fix x c3 d3 assume d3: "contents d3 name = Some ([] @ bs)" and "limit_ctx.more c3 = limit_ctx.more c"
      then have "heap_inv {} [] c3" by (intro heap_inv_more [OF inv])
      from gives_make_number_more [OF this, of "num_of_int (int (length bs))"]
      show "wp (in_ctx (fe_make_number (num_of_int (int (length bs))))) (\<lambda>_ (c', d'). contents d' name = Some bs) raises (c3, d3)"
        unfolding wp_in_ctx by (rule wp_mono) (use d3 in \<open>auto simp: raises_def\<close>)
    qed simp
    with True show ?thesis by (simp add: sq_def)
  qed (simp add: in_ctx_def wp_def fe_error_def)
qed simp

lemma wp_write_bytes:
  assumes law: "lawful_files D contents" and inv: "heap_inv {} [] c"
    and args: "pair_list (objects c) args [f, b]" "is_string c f name" "is_bytes c b bs"
  shows "wp (builtin_write_bytes D args) (\<lambda>_ (c', d'). contents d' name = Some bs) raises (c, d)"
proof -
  have wf: "wf_slabs (slabs c)" using inv by (simp add: heap_inv_def)
  have "wp (bnd (in_ctx (string_to_cstr f ''writebytes'')) (\<lambda>filename. bnd (in_ctx (bytes_to_buffer b ''writebytes'')) (\<lambda>content.
       write_content D ''writebytes'' filename content))) (\<lambda>_ (c', d'). contents d' name = Some bs) raises (c1, d)"
    if "limit_ctx.more c1 = limit_ctx.more c" for c1
    by (rule wp_gives [OF gives_cstr [OF args(2) wf] that], rule wp_gives [OF gives_bytes [OF args(3) wf]], assumption)
      (auto intro: wp_write_content [OF law inv])
  then show ?thesis unfolding builtin_write_bytes_def sq_def
    apply -
    apply (rule wp_gives [OF gives_check_args [OF args(1)] refl], simp)
     apply (rule wp_gives [OF gives_nextarg [OF args(1)]], assumption)
      apply clarify
      apply (rule wp_gives [OF gives_nextarg], assumption, assumption)
       apply auto
    done
qed

lemma wp_read_bytes:
  assumes law: "lawful_files D contents" and inv: "heap_inv {} [] c"
    and args: "pair_list (objects c) args [f]" "is_string c f name"
    and cont: "contents d name = Some bs" "length bs \<le> 256 * 1024"
  shows "wp (builtin_read_bytes D args) (\<lambda>y (c', d'). is_bytes c' y bs \<and> heap_inv {} [] c' \<and> d' = d) raises (c, d)"
proof -
  have wf: "wf_slabs (slabs c)" using inv by (simp add: heap_inv_def)
  have new: "wp (in_ctx (bnd (fe_bytes bs) (\<lambda>result. sq (modify (tracked_free bl)) (ret result))))
      (\<lambda>y (c', d'). is_bytes c' y bs \<and> heap_inv {} [] c' \<and> d' = d) raises (c1, d)"
    if m: "limit_ctx.more c1 = limit_ctx.more c" for c1 bl
  proof -
    have "wp (fe_bytes bs) (made_string FE_TBYTES bs c1) string_err c1"
      unfolding fe_bytes_def by (rule wp_make_data_obj [OF heap_inv_more [OF inv m]]) (simp_all add: src_data_def)
    then show ?thesis unfolding wp_in_ctx wp_bnd wp_sq wp_modify wp_ret
    proof (rule wp_mono)
      fix y c2 assume "made_string FE_TBYTES bs c1 y c2"
      then have h: "heap_inv {} [] c2" "is_bytes c2 y bs"
        by (auto simp: made_string_def built_def is_bytes_def typeof_def kept_def)
      have m2: "limit_ctx.more (tracked_free bl c2) = limit_ctx.more c2" by simp
      have "is_bytes (tracked_free bl c2) y bs"
        using h(2) more_fields [OF m2] obj_bytes_fields [of "tracked_free bl c2" c2] Fex_Strings.typeof_more [OF m2] by (simp add: is_bytes_def)
      with heap_inv_more [OF h(1) m2] show "case (tracked_free bl c2, d) of (c', d') \<Rightarrow> is_bytes c' y bs \<and> heap_inv {} [] c' \<and> d' = d" by simp
    qed (auto simp: raises_def string_err_def)
  qed
  have "wp (bnd (in_ctx (string_to_cstr f ''readbytes'')) (\<lambda>filename. bnd (read_file_dynamic D filename (256 * 1024) ''readbytes'') (\<lambda>(bs, b).
     in_ctx (bnd (fe_bytes bs) (\<lambda>result. sq (modify (tracked_free b)) (ret result))))))
      (\<lambda>y (c', d'). is_bytes c' y bs \<and> heap_inv {} [] c' \<and> d' = d) raises (c1, d)"
    if "limit_ctx.more c1 = limit_ctx.more c" for c1
    by (rule wp_gives [OF gives_cstr [OF args(2) wf] that], clarify, rule wp_dgives [OF dgives_read_file [OF law cont]], assumption)
      (auto intro!: new)
  then show ?thesis unfolding builtin_read_bytes_def sq_def
    apply -
    apply (rule wp_gives [OF gives_check_args [OF args(1)] refl], simp)
     apply (rule wp_gives [OF gives_nextarg [OF args(1)]], assumption)
      apply auto
    done
qed


section \<open>Creating directory trees\<close>

definition lawful_dirs :: "'d os_calls \<Rightarrow> bool" where
  "lawful_dirs D \<longleftrightarrow>
     (\<forall>p d d'. os_mkdir D p d = (Created, d') \<longrightarrow> os_stat D d' p = Some True) \<and>
     (\<forall>p q d r d'. os_mkdir D q d = (r, d') \<longrightarrow> os_stat D d p = Some True \<longrightarrow> os_stat D d' p = Some True)"

lemma create_directory:
  assumes "lawful_dirs D" and "create_directory_cstr D p d = (b, d')"
  shows "b \<Longrightarrow> os_stat D d' p = Some True" and "os_stat D d q = Some True \<Longrightarrow> os_stat D d' q = Some True"
proof -
  obtain r d1 where r: "os_mkdir D p d = (r, d1)" by fastforce
  with assms(2) have "d' = d1" by (cases r) (simp_all add: create_directory_cstr_def)
  with assms r show "b \<Longrightarrow> os_stat D d' p = Some True" and "os_stat D d q = Some True \<Longrightarrow> os_stat D d' q = Some True"
    by (cases r; auto simp: create_directory_cstr_def path_is_directory_cstr_def lawful_dirs_def)+
qed

lemma create_prefixes_dirs:
  assumes "lawful_dirs D"
  shows "create_prefixes D path js d = (True, d') \<Longrightarrow>
    os_stat D d' path = Some True \<and>
    (\<forall>i \<in> set js. is_path_separator_char (path ! i) \<and> i \<noteq> path_root_length path \<and> take i path \<noteq> [] \<and> \<not> (i = 2 \<and> path ! 1 = CHR '':'') \<longrightarrow>
       os_stat D d' (take i path) = Some True) \<and>
    (\<forall>q. os_stat D d q = Some True \<longrightarrow> os_stat D d' q = Some True)"
proof (induction js arbitrary: d)
  case Nil
  with create_directory [OF assms] show ?case by auto
next
  case (Cons i js)
  let ?g = "is_path_separator_char (path ! i) \<and> i \<noteq> path_root_length path \<and> take i path \<noteq> [] \<and> \<not> (i = 2 \<and> path ! 1 = CHR '':'')"
  show ?case
  proof (cases ?g)
    case False
    with Cons.prems have "create_prefixes D path js d = (True, d')" by (auto split: if_splits)
    from Cons.IH [OF this] False show ?thesis by auto
  next
    case True
    with Cons.prems obtain d1 where d1: "create_directory_cstr D (take i path) d = (True, d1)" "create_prefixes D path js d1 = (True, d')"
      by (auto split: prod.splits bool.splits)
    from Cons.IH [OF d1(2)] create_directory [OF assms d1(1)] show ?thesis by auto
  qed
qed


section \<open>Splitting paths\<close>

lemma wp_gives_ctx:
  assumes "gives c m Q" and "limit_ctx.more c1 = limit_ctx.more c"
    and "\<And>x c'. Q x \<Longrightarrow> limit_ctx.more c' = limit_ctx.more c \<Longrightarrow> wp (f x) P raises c'"
  shows "wp (bnd m f) P raises c1"
  unfolding wp_bnd
  using assms(1) [unfolded gives_def, rule_format, OF assms(2)]
  by (rule wp_mono) (use assms(3) in \<open>auto simp: poll_err_def\<close>)

lemma gives_count_while: "gives c (count_while P s n) (\<lambda>(k, _). k = length (takeWhile P s))"
proof (induction s arbitrary: n)
  case (Cons x s)
  show ?case
  proof (cases "P x")
    case True
    have "gives c (bnd (count_while P s n') (\<lambda>(k, n). ret (Suc k, n))) (\<lambda>(k, _). k = length (takeWhile P (x # s)))" for n'
      using True by (intro gives_bnd [OF Cons]) (auto intro!: gives_ret)
    then show ?thesis unfolding count_while.simps using True by (auto intro!: gives_bnd [OF gives_poll])
  qed (auto intro!: gives_ret)
qed (auto intro!: gives_ret)

lemma gives_last_separator:
  "gives c (last_separator r n) (\<lambda>(front, _). front = (case dropWhile (\<lambda>x. \<not> is_path_separator_char x) r of [] \<Rightarrow> None | _ # r \<Rightarrow> Some r))"
proof (induction r arbitrary: n)
  case (Cons x r)
  have "gives c (if is_path_separator_char x then ret (Some r, n') else last_separator r n')
    (\<lambda>(front, _). front = (case dropWhile (\<lambda>x. \<not> is_path_separator_char x) (x # r) of [] \<Rightarrow> None | _ # r \<Rightarrow> Some r))" for n'
    using Cons by (auto intro!: gives_ret)
  then show ?case unfolding last_separator.simps by (intro gives_bnd [OF gives_poll])
qed (auto intro!: gives_ret)

text \<open>A path without the separators at its end, but with its first character.\<close>

definition strip_separators :: "string \<Rightarrow> string" where
  "strip_separators path = take 1 path @ rev (dropWhile is_path_separator_char (rev (drop 1 path)))"

lemma gives_strip_end: "gives c (strip_end path n) (\<lambda>(p, _). p = strip_separators path)"
proof -
  have "take (length path - length (takeWhile is_path_separator_char (rev (drop 1 path)))) path = strip_separators path"
  proof (cases path)
    case (Cons x s)
    have "length (takeWhile is_path_separator_char (rev s)) \<le> length s" by (metis length_rev length_takeWhile_le)
    moreover have "take (length s - length (takeWhile is_path_separator_char (rev s))) s = rev (dropWhile is_path_separator_char (rev s))"
      by (simp add: dropWhile_eq_drop rev_drop)
    ultimately show ?thesis using Cons by (simp add: strip_separators_def Suc_diff_le)
  qed (simp add: strip_separators_def)
  then show ?thesis unfolding strip_end_def
    by (intro gives_bnd [OF gives_count_while]) (auto intro!: gives_ret)
qed

lemma wp_fresh_string:
  assumes "heap_inv {} [] c" and "limit_ctx.more c1 = limit_ctx.more c" "s = t"
  shows "wp (fe_string s) (\<lambda>y c'. is_string c' y t \<and> heap_inv {} [] c') raises c1"
proof -
  have "wp (fe_string s) (made_string FE_TSTRING s c1) string_err c1"
    unfolding fe_string_def by (rule wp_make_data_obj [OF heap_inv_more [OF assms(1,2)]]) (simp_all add: src_data_def)
  then show ?thesis
    by (rule wp_mono) (auto simp: made_string_def built_def is_string_def typeof_def kept_def raises_def string_err_def assms)
qed

definition front_text :: "string \<Rightarrow> string \<Rightarrow> string" where
  "front_text q seps = (if seps = [] then ''.'' else if q = [] then ''/'' else q)"

lemma wp_one_string:
  assumes inv: "heap_inv {} [] c" and args: "pair_list (objects c) args [x]" "is_string c x path"
    and m: "\<And>c1. limit_ctx.more c1 = limit_ctx.more c \<Longrightarrow> wp (m path) P raises c1"
  shows "wp (sq (FEX_CHECK_ARGS args 1 f) (bnd (fe_nextarg args) (\<lambda>(path_obj, _). bnd (string_to_cstr path_obj f) m))) P raises c"
proof -
  have wf: "wf_slabs (slabs c)" using inv by (simp add: heap_inv_def)
  have "wp (bnd (string_to_cstr x f) m) P raises c1" if "limit_ctx.more c1 = limit_ctx.more c" for c1
    by (rule wp_gives_ctx [OF gives_cstr [OF args(2) wf] that]) (use m in auto)
  then have "wp (bnd (fe_nextarg args) (\<lambda>(path_obj, _). bnd (string_to_cstr path_obj f) m)) P raises c1"
    if "limit_ctx.more c1 = limit_ctx.more c" for c1
    by (intro wp_gives_ctx [OF gives_nextarg [OF args(1)] that]) auto
  then show ?thesis unfolding sq_def
    by (intro wp_gives_ctx [OF gives_check_args [OF args(1)] refl]) auto
qed

text \<open>The text of a path cut at the separators before its last part.\<close>

definition cut_path :: "string \<Rightarrow> string \<times> string \<times> string" where
  "cut_path p = (let r = dropWhile (\<lambda>x. \<not> is_path_separator_char x) (rev p)
     in (rev (dropWhile is_path_separator_char r), rev (takeWhile is_path_separator_char r),
         rev (takeWhile (\<lambda>x. \<not> is_path_separator_char x) (rev p))))"

lemma cut_path:
  assumes "cut_path p = (q, seps, base)"
  shows "p = q @ seps @ base \<and> (\<forall>x \<in> set seps. is_path_separator_char x) \<and> (\<forall>x \<in> set base. \<not> is_path_separator_char x) \<and>
    (q \<noteq> [] \<longrightarrow> \<not> is_path_separator_char (List.last q) \<and> seps \<noteq> [])"
proof -
  define r where "r = dropWhile (\<lambda>x. \<not> is_path_separator_char x) (rev p)"
  have q: "rev q = dropWhile is_path_separator_char r" and s: "rev seps = takeWhile is_path_separator_char r"
    and b: "rev base = takeWhile (\<lambda>x. \<not> is_path_separator_char x) (rev p)"
    using assms by (auto simp: cut_path_def Let_def r_def)
  have "rev p = rev base @ rev seps @ rev q" unfolding q s b by (simp add: r_def)
  then have "p = q @ seps @ base" by (metis append_assoc rev_append rev_rev_ident)
  moreover have "\<forall>x \<in> set seps. is_path_separator_char x" "\<forall>x \<in> set base. \<not> is_path_separator_char x"
    using set_takeWhileD [of _ is_path_separator_char r] set_takeWhileD [of _ "\<lambda>x. \<not> is_path_separator_char x" "rev p"] s b
    by (metis set_rev)+
  moreover have "\<not> is_path_separator_char (List.last q) \<and> seps \<noteq> []" if "q \<noteq> []"
  proof -
    have n: "r \<noteq> []" using q that by auto
    then have "is_path_separator_char (hd r)"
      using hd_dropWhile [of "\<lambda>x. \<not> is_path_separator_char x" "rev p"] by (simp add: r_def)
    moreover have "\<not> is_path_separator_char (hd (rev q))" using that unfolding q [symmetric] by (metis hd_dropWhile q rev_is_Nil_conv)
    ultimately show ?thesis using n s that by (cases r) (auto simp: hd_rev)
  qed
  ultimately show ?thesis by blast
qed

lemma wp_dirname:
  assumes "heap_inv {} [] c" and "pair_list (objects c) args [x]" "is_string c x path"
    and "cut_path (strip_separators path) = (q, seps, base)"
  shows "wp (builtin_dirname args) (\<lambda>y c'. is_string c' y (front_text q seps) \<and> heap_inv {} [] c') raises c"
  unfolding builtin_dirname_def
proof (rule wp_one_string [OF assms(1-3)], rule wp_gives_ctx [OF gives_strip_end], assumption, clarify,
    rule wp_gives_ctx [OF gives_last_separator], assumption, clarify)
  fix c1 c2 n front m c3 assume m: "limit_ctx.more c3 = limit_ctx.more c"
  define r where "r = dropWhile (\<lambda>x. \<not> is_path_separator_char x) (rev (strip_separators path))"
  have q: "q = rev (dropWhile is_path_separator_char r)" and s: "seps = rev (takeWhile is_path_separator_char r)"
    using assms(4) by (auto simp: cut_path_def Let_def r_def)
  show "wp (case case r of [] \<Rightarrow> None | _ # r \<Rightarrow> Some r of None \<Rightarrow> fe_string ''.''
       | Some r \<Rightarrow> bnd (count_while is_path_separator_char r m) (\<lambda>(n, _).
           let r = drop n r in if r = [] then fe_string ''/'' else fe_string (rev r)))
     (\<lambda>y c'. is_string c' y (front_text q seps) \<and> heap_inv {} [] c') raises c3"
  proof (cases r)
    case Nil
    with s have "front_text q seps = ''.''" by (simp add: front_text_def)
    with wp_fresh_string [OF assms(1) m] Nil show ?thesis by simp
  next
    case (Cons y r')
    then have "is_path_separator_char y" using hd_dropWhile [of "\<lambda>x. \<not> is_path_separator_char x" "rev (strip_separators path)"]
      by (auto simp: r_def)
    with Cons q s have t: "q = rev (drop (length (takeWhile is_path_separator_char r')) r')" "seps \<noteq> []"
      by (simp_all add: dropWhile_eq_drop)
    have "wp (bnd (count_while is_path_separator_char r' m) (\<lambda>(n, _).
           let r = drop n r' in if r = [] then fe_string ''/'' else fe_string (rev r)))
       (\<lambda>y c'. is_string c' y (front_text q seps) \<and> heap_inv {} [] c') raises c3"
      by (rule wp_gives_ctx [OF gives_count_while m])
        (use t in \<open>auto simp: Let_def front_text_def intro!: wp_fresh_string [OF assms(1)]\<close>)
    with Cons show ?thesis by simp
  qed
qed

lemma wp_basename:
  assumes "heap_inv {} [] c" and "pair_list (objects c) args [x]" "is_string c x path"
    and "cut_path (strip_separators path) = (q, seps, base)"
  shows "wp (builtin_basename args) (\<lambda>y c'. is_string c' y base \<and> heap_inv {} [] c') raises c"
proof -
  have "drop (length p - length (takeWhile P (rev p))) p = rev (takeWhile P (rev p))" for P and p :: string
    by (metis length_rev rev_rev_ident rev_take takeWhile_eq_take)
  then show ?thesis
    unfolding builtin_basename_def using assms(4)
    by - (rule wp_one_string [OF assms(1-3)], rule wp_gives_ctx [OF gives_strip_end], assumption, clarify,
      rule wp_gives_ctx [OF gives_count_while], assumption, clarify,
      rule wp_fresh_string [OF assms(1)], auto simp: cut_path_def Let_def)
qed

text \<open>
  C37. \<^verbatim>\<open>dirname\<close> and \<^verbatim>\<open>basename\<close> cut a path at the same place: without the separators at its end it is the name that
  \<^verbatim>\<open>basename\<close> returns, which has no separator, behind a run of separators, behind what \<^verbatim>\<open>dirname\<close> returns, which
  does not end in a separator; \<^verbatim>\<open>dirname\<close> returns \<^verbatim>\<open>.\<close> when there is no separator and \<^verbatim>\<open>/\<close> when nothing is in front of
  them. Both leave the heap well formed, and their only other outcomes are errors of the program.
\<close>

theorem path_split:
  assumes "heap_inv {} [] c" and "pair_list (objects c) args [x]" and "is_string c x path"
  shows "\<exists>q seps base. strip_separators path = q @ seps @ base \<and>
    (\<forall>ch \<in> set seps. is_path_separator_char ch) \<and> (\<forall>ch \<in> set base. \<not> is_path_separator_char ch) \<and>
    (q \<noteq> [] \<longrightarrow> \<not> is_path_separator_char (List.last q) \<and> seps \<noteq> []) \<and>
    wp (builtin_dirname args) (\<lambda>y c'. is_string c' y (if seps = [] then ''.'' else if q = [] then ''/'' else q) \<and> heap_inv {} [] c') raises c \<and>
    wp (builtin_basename args) (\<lambda>y c'. is_string c' y base \<and> heap_inv {} [] c') raises c"
proof -
  obtain q seps base where cut: "cut_path (strip_separators path) = (q, seps, base)" by (metis surj_pair)
  from cut_path [OF cut] wp_dirname [OF assms cut, unfolded front_text_def] wp_basename [OF assms cut]
  show ?thesis by blast
qed

text \<open>\<^verbatim>\<open>pathjoin\<close> drops a first argument of separators only, so the root of the path is lost.\<close>

lemma join_part_root: "\<forall>x \<in> set s. is_path_separator_char x \<Longrightarrow> gives c (join_part s empty_buffer n) (\<lambda>(b, _). b = empty_buffer)"
proof -
  assume "\<forall>x \<in> set s. is_path_separator_char x"
  then have s: "takeWhile is_path_separator_char (rev s) = rev s" by (simp add: takeWhile_eq_all_conv)
  show ?thesis unfolding join_part_def
  proof (rule gives_bnd [where P = "\<lambda>x. fst x = 0"], goal_cases)
    case 1
    show ?case by (simp add: empty_buffer_def gives_ret)
  next
    case (2 x)
    show ?case unfolding prod.case_eq_if
      by (rule gives_bnd [OF gives_count_while])
        (use 2 in \<open>auto simp: s empty_buffer_def bnd_def ret_def gives_def wp_def\<close>)
  qed
qed

section \<open>Examples\<close>

text \<open>
  A disk of files and directories for examples: a map from paths to \<open>Some\<close> contents of a file or \<open>None\<close> for a directory.
\<close>

definition map_calls :: "(string \<Rightarrow> string option option) os_calls" where
  "map_calls = \<lparr>
     os_stat = (\<lambda>d p. map_option (\<lambda>f. f = None) (d p)),
     os_open = (\<lambda>d p. d p \<noteq> None),
     os_size = (\<lambda>d p. case d p of Some (Some bs) \<Rightarrow> Some (int (length bs)) | _ \<Rightarrow> None),
     os_read = (\<lambda>d p off n. case d p of Some (Some bs) \<Rightarrow> (take n (drop off bs), False) | _ \<Rightarrow> ([], True)),
     os_create = (\<lambda>p d. if d p = Some None then (False, d) else (True, d(p := Some (Some [])))),
     os_write = (\<lambda>p s d. case d p of Some (Some bs) \<Rightarrow> ((length s, False), d(p := Some (Some (bs @ s)))) | _ \<Rightarrow> ((0, True), d)),
     os_mkdir = (\<lambda>p d. if d p = None then (Created, d(p := Some None)) else (AlreadyExists, d)),
     os_entries = (\<lambda>d p. None),
     os_getcwd = (\<lambda>d. Some ''/''),
     os_chdir = (\<lambda>p d. (d p = Some None, d)),
     os_getenv = (\<lambda>d p. None),
     os_time = (\<lambda>d. 0)\<rparr>"

definition map_contents :: "(string \<Rightarrow> string option option) \<Rightarrow> string \<Rightarrow> string option" where
  "map_contents d p = (case d p of Some f \<Rightarrow> f | None \<Rightarrow> None)"

lemma map_calls_files: "lawful_files map_calls map_contents"
  by (auto simp: lawful_files_def map_calls_def map_contents_def split: option.splits if_splits)

lemma map_calls_dirs: "lawful_dirs map_calls"
  by (auto simp: lawful_dirs_def map_calls_def split: if_splits)

text \<open>A heap with the arguments \<open>(x bytes)\<close> in cell 0 and \<open>(x)\<close> in cell 4.\<close>

definition file_example :: fe_Context where
  "file_example = (zeroed_context quiet_env 4096)
     \<lparr>objects := [pair_cell (Ref 2) (Ref 1), pair_cell (Ref 3) Nil,
                  \<lparr>ocar = VObj (Fixnum 1), ocdr = VU32 0, ty = FE_TSTRING, mark = False\<rparr>,
                  \<lparr>ocar = VObj (Fixnum 2), ocdr = VU32 64, ty = FE_TBYTES, mark = False\<rparr>,
                  pair_cell (Ref 2) Nil,
                  \<lparr>ocar = VNone, ocdr = VObj Nil, ty = FE_TFREE, mark = False\<rparr>],
      freelist := Ref 5, gc_threshold := 1024, byte_threshold := 1024,
      slabs := [\<lparr>slab_next = FE_SLAB_NULL, slab_data = ''x'' @ replicate 59 (CHR 0x00)\<rparr>,
                \<lparr>slab_next = FE_SLAB_NULL, slab_data = ''hi'' @ replicate 58 (CHR 0x00)\<rparr>,
                \<lparr>slab_next = FE_SLAB_NULL, slab_data = replicate 60 (CHR 0x00)\<rparr>],
      str_freelist := 128\<rparr>"

lemma file_example_inv: "heap_inv {} [] file_example"
proof -
  have os: "objects file_example = [pair_cell (Ref 2) (Ref 1), pair_cell (Ref 3) Nil,
      \<lparr>ocar = VObj (Fixnum 1), ocdr = VU32 0, ty = FE_TSTRING, mark = False\<rparr>,
      \<lparr>ocar = VObj (Fixnum 2), ocdr = VU32 64, ty = FE_TBYTES, mark = False\<rparr>, pair_cell (Ref 2) Nil,
      \<lparr>ocar = VNone, ocdr = VObj Nil, ty = FE_TFREE, mark = False\<rparr>]"
    and ss: "slabs file_example = [\<lparr>slab_next = FE_SLAB_NULL, slab_data = ''x'' @ replicate 59 (CHR 0x00)\<rparr>,
       \<lparr>slab_next = FE_SLAB_NULL, slab_data = ''hi'' @ replicate 58 (CHR 0x00)\<rparr>, \<lparr>slab_next = FE_SLAB_NULL, slab_data = replicate 60 (CHR 0x00)\<rparr>]"
    and fl: "freelist file_example = Ref 5" "str_freelist file_example = 128" "span_state file_example = None"
    by (simp_all add: file_example_def zeroed_context_def)
  have "slab_inv {} [] file_example [2] [[], [], [0], [1], [], []]"
    by (simp add: slab_inv_def os ss fl is_data_def data_ok_def pair_cell_def FE_SLAB_SIZE_def
        FE_SLAB_DATA_SIZE_def All_less_Suc2)
  then show ?thesis
    by (rule heap_invI [rotated 2, where fs = "[5]"])
      (simp_all add: os ss fl gc_ok_def pair_cell_def wf_slabs_def FE_SLAB_DATA_SIZE_def wf_spans_def)
qed

lemma file_example_args:
  "pair_list (objects file_example) (Ref 0) [Ref 2, Ref 3]" "pair_list (objects file_example) (Ref 4) [Ref 2]"
  "is_string file_example (Ref 2) ''x''" "is_bytes file_example (Ref 3) ''hi''"
  by code_simp+



theorem path_split_witness:
  "\<exists>q seps base. strip_separators ''x'' = q @ seps @ base \<and> (\<forall>ch \<in> set seps. is_path_separator_char ch) \<and>
    wp (builtin_dirname (Ref 4)) (\<lambda>y c'. is_string c' y (if seps = [] then ''.'' else if q = [] then ''/'' else q) \<and> heap_inv {} [] c')
      raises file_example"
  using path_split [OF file_example_inv file_example_args(2,3)] by blast

end
