(* ===== verification/Fex_Process.thy ===== *)
theory Fex_Process
  imports Fex_Files
begin

text \<open>
  Running other programs (\<^verbatim>\<open>fex_builtins.c\<close>, \<^verbatim>\<open>system\<close>, \<^verbatim>\<open>runcommand\<close>, \<^verbatim>\<open>runprocess\<close>, \<^verbatim>\<open>exit\<close>; the POSIX
  branches): the options, the pipes and the child, the loop that feeds its input and captures its output, the
  clean-up and the result. The calls of the operating system on processes and descriptors are a
  parameter with a state \<open>'w\<close> of their own. The loops wait for the child, so they are bounded by a fuel \<open>k\<close>;
  the error of an exhausted fuel is not one of the program. It is shown that a run that
  returns leaves no descriptor open and no child behind, and captures no more than its limits allow.
\<close>

section \<open>The operating system\<close>

text \<open>The answers of \<^verbatim>\<open>waitpid\<close> with and without \<^verbatim>\<open>WNOHANG\<close>, \<^verbatim>\<open>write\<close>, \<^verbatim>\<open>read\<close> and \<^verbatim>\<open>select\<close> by return value and \<^verbatim>\<open>errno\<close>.\<close>

datatype wait_answer = Exited int | Running | WaitFailed
datatype reap_answer = Reaped | ReapInterrupted | ReapFailed
datatype write_answer = Wrote nat | WriteInterrupted | WouldBlock | BrokenPipe | WriteFailed
datatype read_answer = Got string | ReadInterrupted | NothingYet | ReadFailed
datatype select_answer = Ready "int list" "int list" | SelectInterrupted | SelectFailed

text \<open>What the child does between \<^verbatim>\<open>fork\<close> and \<^verbatim>\<open>execvp\<close>; it ends with code 127 at the first step that fails.\<close>

datatype child_step = ChildChdir string | ChildDup2 int int | ChildClose int | ChildEnviron "string list" | ChildExec "string list"

record 'w process_calls =
  os_pipe :: "'w \<Rightarrow> (int \<times> int) option \<times> 'w"
  os_cloexec :: "int \<Rightarrow> 'w \<Rightarrow> 'w"
  os_nonblock :: "int \<Rightarrow> 'w \<Rightarrow> bool \<times> 'w"
  os_open_null :: "bool \<Rightarrow> 'w \<Rightarrow> int \<times> 'w"
  os_close :: "int \<Rightarrow> 'w \<Rightarrow> 'w"
  os_fork :: "child_step list \<Rightarrow> 'w \<Rightarrow> int \<times> 'w"
  os_waitpid :: "int \<Rightarrow> 'w \<Rightarrow> wait_answer \<times> 'w"
  os_kill :: "int \<Rightarrow> 'w \<Rightarrow> 'w"
  os_reap :: "int \<Rightarrow> 'w \<Rightarrow> reap_answer \<times> 'w"
  os_fdwrite :: "int \<Rightarrow> string \<Rightarrow> 'w \<Rightarrow> write_answer \<times> 'w"
  os_fdread :: "int \<Rightarrow> nat \<Rightarrow> 'w \<Rightarrow> read_answer \<times> 'w"
  os_select :: "int list \<Rightarrow> int list \<Rightarrow> nat \<Rightarrow> 'w \<Rightarrow> select_answer \<times> 'w"
  os_sleep :: "nat \<Rightarrow> 'w \<Rightarrow> 'w"

definition call :: "('w \<Rightarrow> 'w) \<Rightarrow> ('w, unit) dcomp" where
  "call f = on_disk (\<lambda>w. ((), f w))"

section \<open>Options\<close>

definition FEX_COMMAND_OUTPUT_MAX_BYTES :: nat where "FEX_COMMAND_OUTPUT_MAX_BYTES = 4 * 1024 * 1024"
definition PROCESS_STREAM_CAPTURE :: nat where "PROCESS_STREAM_CAPTURE = 0"
definition PROCESS_STREAM_INHERIT :: nat where "PROCESS_STREAM_INHERIT = 1"
definition PROCESS_STREAM_DISCARD :: nat where "PROCESS_STREAM_DISCARD = 2"

record ProcessOptions =
  stdin_data :: string
  opt_cwd :: "string option"
  opt_env :: "string list"
  use_env :: bool
  stdout_mode :: nat
  stderr_mode :: nat
  max_stdout :: nat
  max_stderr :: nat

record ProcessOutput =
  out_exit_code :: int
  stdout_data :: string
  stderr_data :: string
  stdout_captured :: bool
  stderr_captured :: bool

text \<open>The options after \<^verbatim>\<open>memset\<close>.\<close>

definition zero_options :: ProcessOptions where
  "zero_options = \<lparr>stdin_data = [], opt_cwd = None, opt_env = [], use_env = False,
     stdout_mode = 0, stderr_mode = 0, max_stdout = 0, max_stderr = 0\<rparr>"

primrec count_list :: "nat \<Rightarrow> string \<Rightarrow> string \<Rightarrow> ptr \<Rightarrow> nat \<Rightarrow> nat \<Rightarrow> nat fcomp" where
  "count_list 0 func_name lbl node count countdown = throw OutOfFuel"
| "count_list (Suc k) func_name lbl node count countdown =
     (if isnil node then ret count
      else bnd (poll_or_fail countdown) (\<lambda>countdown. bnd (gets (\<lambda>c. typeof c node)) (\<lambda>t.
        if t \<noteq> FE_TPAIR then fe_error (func_name @ '': '' @ lbl @ '' must be a list'')
        else bnd (fe_cdr node) (\<lambda>node. count_list k func_name lbl node (count + 1) countdown))))"

definition count_list_length :: "ptr \<Rightarrow> string \<Rightarrow> string \<Rightarrow> nat fcomp" where
  "count_list_length list func_name lbl =
     bnd (gets walk_fuel) (\<lambda>k. count_list k func_name lbl list 0 FEX_BUILTIN_ABORT_CHECK_INTERVAL)"

definition map_get_named_value :: "ptr \<Rightarrow> string \<Rightarrow> ptr option fcomp" where
  "map_get_named_value map_obj name =
     bnd (fe_symbol name) (\<lambda>key. bnd (fe_map_has map_obj key) (\<lambda>b.
       if b then bnd (fe_map_get map_obj key) (\<lambda>v. ret (Some v)) else ret None))"

definition object_to_input_buffer :: "ptr \<Rightarrow> string \<Rightarrow> string fcomp" where
  "object_to_input_buffer obj func_name =
     (if isnil obj then ret []
      else bnd (gets (\<lambda>c. typeof c obj)) (\<lambda>t.
        if t = FE_TBYTES then bytes_to_buffer obj func_name
        else if t = FE_TSTRING then bnd (fe_strlen obj) (\<lambda>_. string_to_cstr obj func_name)
        else fe_error ''runprocess: stdin must be a string, bytes, or nil''))"

primrec collect_args :: "nat \<Rightarrow> string \<Rightarrow> ptr \<Rightarrow> string list \<Rightarrow> nat \<Rightarrow> string list fcomp" where
  "collect_args 0 func_name node items countdown = throw OutOfFuel"
| "collect_args (Suc k) func_name node items countdown =
     (if isnil node then ret items
      else bnd (poll_or_fail countdown) (\<lambda>countdown. bnd (fe_car node) (\<lambda>value. bnd (gets (\<lambda>c. typeof c value)) (\<lambda>t.
        if t \<noteq> FE_TSTRING then fe_error ''runprocess: args must contain only strings''
        else bnd (string_to_cstr value func_name) (\<lambda>s. bnd (fe_cdr node) (\<lambda>node.
          collect_args k func_name node (items @ [s]) countdown))))))"

definition collect_process_argv :: "ptr \<Rightarrow> ptr \<Rightarrow> string \<Rightarrow> string list fcomp" where
  "collect_process_argv exe_obj args_obj func_name =
     bnd (count_list_length args_obj func_name ''args'') (\<lambda>extra_count.
     bnd (builtin_alloc (8 * (extra_count + 2))) (\<lambda>ok. if \<not> ok then fe_error (func_name @ '': out of memory'')
     else bnd (string_to_cstr exe_obj func_name) (\<lambda>exe. bnd (gets walk_fuel) (\<lambda>k.
       collect_args k func_name args_obj [exe] FEX_BUILTIN_ABORT_CHECK_INTERVAL))))"

primrec collect_env :: "nat \<Rightarrow> string \<Rightarrow> ptr \<Rightarrow> ptr \<Rightarrow> string list \<Rightarrow> nat \<Rightarrow> string list fcomp" where
  "collect_env 0 func_name env_obj node items countdown = throw OutOfFuel"
| "collect_env (Suc k) func_name env_obj node items countdown =
     (if isnil node then ret items
      else bnd (poll_or_fail countdown) (\<lambda>countdown. bnd (fe_car node) (\<lambda>key_obj.
        bnd (fe_map_get env_obj key_obj) (\<lambda>value_obj. bnd (gets (\<lambda>c. typeof c value_obj)) (\<lambda>t.
        if t \<noteq> FE_TSTRING then fe_error ''runprocess: env values must be strings''
        else bnd (string_to_cstr key_obj func_name) (\<lambda>key. bnd (string_to_cstr value_obj func_name) (\<lambda>value.
          bnd (builtin_alloc (length key + length value + 2)) (\<lambda>ok. if \<not> ok then fe_error (func_name @ '': out of memory'')
          else bnd (fe_cdr node) (\<lambda>node. collect_env k func_name env_obj node (items @ [key @ ''='' @ value]) countdown)))))))))"

definition collect_process_env :: "ptr \<Rightarrow> string \<Rightarrow> string list fcomp" where
  "collect_process_env env_obj func_name =
     bnd (fe_map_keys env_obj) (\<lambda>keys. bnd (count_list_length keys func_name ''env keys'') (\<lambda>count.
     bnd (builtin_alloc (8 * (count + 1))) (\<lambda>ok. if \<not> ok then fe_error (func_name @ '': out of memory'')
     else bnd (gets walk_fuel) (\<lambda>k. collect_env k func_name env_obj keys [] FEX_BUILTIN_ABORT_CHECK_INTERVAL))))"

definition parse_process_stream_mode :: "ptr \<Rightarrow> string \<Rightarrow> string \<Rightarrow> nat fcomp" where
  "parse_process_stream_mode value func_name option_name =
     (if isnil value then ret PROCESS_STREAM_CAPTURE
      else bnd (gets (\<lambda>c. typeof c value)) (\<lambda>t.
        if t \<noteq> FE_TSTRING then fe_error (func_name @ '': '' @ option_name @ '' must be a string or nil'')
        else bnd (string_to_cstr value func_name) (\<lambda>mode.
          if mode = ''capture'' then ret PROCESS_STREAM_CAPTURE
          else if mode = ''inherit'' then ret PROCESS_STREAM_INHERIT
          else if mode = ''discard'' then ret PROCESS_STREAM_DISCARD
          else fe_error (func_name @ '': '' @ option_name @ '' must be 'capture', 'inherit', 'discard', or nil''))))"

text \<open>The conversion \<^verbatim>\<open>(size_t)\<close> of a double is undefined outside the range of \<^verbatim>\<open>size_t\<close>.\<close>

definition num_to_size :: "fe_Number \<Rightarrow> nat fcomp" where
  "num_to_size n = (case n of
      Fin r \<Rightarrow> if 0 \<le> trunc_rat r \<and> trunc_rat r < 2 ^ 64 then ret (nat (trunc_rat r)) else throw Crash
    | NegZero \<Rightarrow> ret 0
    | _ \<Rightarrow> throw Crash)"

definition parse_process_size_limit :: "ptr \<Rightarrow> string \<Rightarrow> string \<Rightarrow> nat fcomp" where
  "parse_process_size_limit value func_name option_name =
     (let wrong = func_name @ '': '' @ option_name @ '' must be a non-negative integer or nil''
      in if isnil value then ret FEX_COMMAND_OUTPUT_MAX_BYTES
      else bnd (gets (\<lambda>c. typeof c value)) (\<lambda>t.
        if t \<noteq> FE_TNUMBER then fe_error wrong
        else bnd (fe_tonumber value) (\<lambda>n.
          if num_lt n (num_of_int 0) \<or> \<not> num_eq n (num_floor n) then fe_error wrong
          else if num_lt (num_of_int (2 ^ 64 - 1)) n then fe_error (func_name @ '': '' @ option_name @ '' is too large'')
          else num_to_size n)))"

text \<open>One option of the map: its old value stays when it is missing.\<close>

definition process_option :: "ptr \<Rightarrow> string \<Rightarrow> (ptr \<Rightarrow> ProcessOptions fcomp) \<Rightarrow> ProcessOptions \<Rightarrow> ProcessOptions fcomp" where
  "process_option opts_obj name f opts =
     bnd (map_get_named_value opts_obj name) (\<lambda>v. case v of None \<Rightarrow> ret opts | Some value \<Rightarrow> f value)"

definition parse_process_options :: "ptr \<Rightarrow> string \<Rightarrow> ProcessOptions fcomp" where
  "parse_process_options opts_obj func_name =
     (let opts = zero_options\<lparr>stdout_mode := PROCESS_STREAM_CAPTURE, stderr_mode := PROCESS_STREAM_CAPTURE,
            max_stdout := FEX_COMMAND_OUTPUT_MAX_BYTES, max_stderr := FEX_COMMAND_OUTPUT_MAX_BYTES\<rparr>
      in if isnil opts_obj then ret opts
      else bnd (gets (\<lambda>c. typeof c opts_obj)) (\<lambda>t. if t \<noteq> FE_TMAP then fe_error ''runprocess: options must be a map''
      else bnd (process_option opts_obj ''stdin'' (\<lambda>value.
             bnd (object_to_input_buffer value func_name) (\<lambda>d. ret (opts\<lparr>stdin_data := d\<rparr>))) opts) (\<lambda>opts.
           bnd (process_option opts_obj ''cwd'' (\<lambda>value. if isnil value then ret opts
             else bnd (gets (\<lambda>c. typeof c value)) (\<lambda>t. if t \<noteq> FE_TSTRING then fe_error ''runprocess: cwd must be a string''
             else bnd (string_to_cstr value func_name) (\<lambda>s. ret (opts\<lparr>opt_cwd := Some s\<rparr>)))) opts) (\<lambda>opts.
           bnd (process_option opts_obj ''env'' (\<lambda>value. if isnil value then ret opts
             else bnd (gets (\<lambda>c. typeof c value)) (\<lambda>t. if t \<noteq> FE_TMAP then fe_error ''runprocess: env must be a map''
             else bnd (collect_process_env value func_name) (\<lambda>es. ret (opts\<lparr>opt_env := es, use_env := True\<rparr>)))) opts) (\<lambda>opts.
           bnd (process_option opts_obj ''stdout'' (\<lambda>value.
             bnd (parse_process_stream_mode value func_name ''stdout'') (\<lambda>m. ret (opts\<lparr>stdout_mode := m\<rparr>))) opts) (\<lambda>opts.
           bnd (process_option opts_obj ''stderr'' (\<lambda>value.
             bnd (parse_process_stream_mode value func_name ''stderr'') (\<lambda>m. ret (opts\<lparr>stderr_mode := m\<rparr>))) opts) (\<lambda>opts.
           bnd (process_option opts_obj ''max_stdout'' (\<lambda>value.
             bnd (parse_process_size_limit value func_name ''max_stdout'') (\<lambda>n. ret (opts\<lparr>max_stdout := n\<rparr>))) opts) (\<lambda>opts.
           process_option opts_obj ''max_stderr'' (\<lambda>value.
             bnd (parse_process_size_limit value func_name ''max_stderr'') (\<lambda>n. ret (opts\<lparr>max_stderr := n\<rparr>))) opts))))))))"

section \<open>Descriptors\<close>

text \<open>A descriptor that is not open is -1. Of \<^verbatim>\<open>TempRedirectFile\<close> only the descriptor is used.\<close>

record ProcessCapturePipe =
  read_fd :: int
  write_fd :: int

definition init_process_capture_pipe :: ProcessCapturePipe where
  "init_process_capture_pipe = \<lparr>read_fd = -1, write_fd = -1\<rparr>"

definition close_temp_redirect_file :: "'w process_calls \<Rightarrow> int \<Rightarrow> ('w, int) dcomp" where
  "close_temp_redirect_file D fd = (if fd \<ge> 0 then sq (call (os_close D fd)) (ret (-1)) else ret fd)"

definition close_process_capture_pipe_read :: "'w process_calls \<Rightarrow> ProcessCapturePipe \<Rightarrow> ('w, ProcessCapturePipe) dcomp" where
  "close_process_capture_pipe_read D p =
     (if read_fd p \<ge> 0 then sq (call (os_close D (read_fd p))) (ret (p\<lparr>read_fd := -1\<rparr>)) else ret p)"

definition close_process_capture_pipe_write :: "'w process_calls \<Rightarrow> ProcessCapturePipe \<Rightarrow> ('w, ProcessCapturePipe) dcomp" where
  "close_process_capture_pipe_write D p =
     (if write_fd p \<ge> 0 then sq (call (os_close D (write_fd p))) (ret (p\<lparr>write_fd := -1\<rparr>)) else ret p)"

definition destroy_process_capture_pipe :: "'w process_calls \<Rightarrow> ProcessCapturePipe \<Rightarrow> ('w, ProcessCapturePipe) dcomp" where
  "destroy_process_capture_pipe D p = bnd (close_process_capture_pipe_read D p) (close_process_capture_pipe_write D)"

definition open_null_redirect_file :: "'w process_calls \<Rightarrow> bool \<Rightarrow> string \<Rightarrow> ('w, int) dcomp" where
  "open_null_redirect_file D writable func_name =
     bnd (on_disk (os_open_null D writable)) (\<lambda>fd.
       if fd < 0 then in_ctx (fe_error (func_name @ '': could not open null device'')) else ret fd)"

text \<open>A pipe whose ends are closed on \<^verbatim>\<open>execvp\<close> and one of whose ends does not block.\<close>

definition create_pipe :: "'w process_calls \<Rightarrow> (int \<times> int \<Rightarrow> int) \<Rightarrow> string \<Rightarrow> string \<Rightarrow> ('w, ProcessCapturePipe) dcomp" where
  "create_pipe D parent_end func_name which =
     bnd (on_disk (os_pipe D)) (\<lambda>fds. case fds of
         None \<Rightarrow> in_ctx (fe_error (func_name @ '': could not create '' @ which @ '' pipe''))
       | Some (r, w) \<Rightarrow> sq (call (os_cloexec D r)) (sq (call (os_cloexec D w))
           (bnd (on_disk (os_nonblock D (parent_end (r, w)))) (\<lambda>ok.
             if \<not> ok then in_ctx (fe_error (func_name @ '': could not configure '' @ which @ '' pipe''))
             else ret \<lparr>read_fd = r, write_fd = w\<rparr>))))"

definition create_process_capture_pipe :: "'w process_calls \<Rightarrow> string \<Rightarrow> ('w, ProcessCapturePipe) dcomp" where
  "create_process_capture_pipe D func_name = create_pipe D fst func_name ''capture''"

definition create_process_input_pipe :: "'w process_calls \<Rightarrow> string \<Rightarrow> ('w, ProcessCapturePipe) dcomp" where
  "create_process_input_pipe D func_name = create_pipe D snd func_name ''stdin''"

section \<open>Input and output of the child\<close>

text \<open>
  \<^verbatim>\<open>WIFEXITED\<close>, \<^verbatim>\<open>WEXITSTATUS\<close>, \<^verbatim>\<open>WIFSIGNALED\<close> and \<^verbatim>\<open>WTERMSIG\<close> read the code of \<^verbatim>\<open>exit\<close> in bits 8 to 15 of a status and the signal
  in its lowest seven bits, 0 for \<^verbatim>\<open>exit\<close> and 127 for a stopped child.
\<close>

definition decode_process_exit_code :: "int \<Rightarrow> int" where
  "decode_process_exit_code status =
     (if status < 0 then status
      else if status mod 128 = 0 then status div 256 mod 256
      else if status mod 128 \<noteq> 127 then 128 + status mod 128
      else status)"

definition append_process_capture :: "TextBuffer \<Rightarrow> string \<Rightarrow> nat \<Rightarrow> bool \<Rightarrow> string \<Rightarrow> (TextBuffer \<times> bool) fcomp" where
  "append_process_capture buf d limit overflow func_name =
     (if overflow then ret (buf, overflow)
      else if limit > 0 \<and> length (fst buf) \<ge> limit then ret (buf, True)
      else
        let overflow = (limit > 0 \<and> length d > limit - length (fst buf));
            to_copy = (if overflow then limit - length (fst buf) else length d)
        in if to_copy > 0
           then bnd (buf_append_mem (take to_copy d) buf) (\<lambda>r. case r of
               None \<Rightarrow> fe_error (func_name @ '': out of memory'')
             | Some buf \<Rightarrow> ret (buf, overflow))
           else ret (buf, overflow))"

text \<open>The loops of \<^verbatim>\<open>write_posix_input_pipe\<close> and \<^verbatim>\<open>drain_posix_capture_pipe\<close>; \<^verbatim>\<open>made_progress\<close>, which is only set, is left out.\<close>

primrec write_posix_input_pipe ::
  "'w process_calls \<Rightarrow> nat \<Rightarrow> string \<Rightarrow> string \<Rightarrow> ProcessCapturePipe \<times> nat \<times> bool \<Rightarrow> ('w, ProcessCapturePipe \<times> nat \<times> bool) dcomp" where
  "write_posix_input_pipe D 0 func_name d s = in_ctx (throw OutOfFuel)"
| "write_posix_input_pipe D (Suc k) func_name d s =
     (case s of (p, offset, pipe_open) \<Rightarrow>
       if pipe_open \<and> offset < length d
       then bnd (on_disk (os_fdwrite D (write_fd p) (drop offset d))) (\<lambda>r. case r of
           Wrote n \<Rightarrow> if n > 0 then write_posix_input_pipe D k func_name d (p, offset + n, pipe_open)
             else in_ctx (fe_error (func_name @ '': could not write stdin''))
         | WriteInterrupted \<Rightarrow> write_posix_input_pipe D k func_name d (p, offset, pipe_open)
         | WouldBlock \<Rightarrow> ret (p, offset, pipe_open)
         | BrokenPipe \<Rightarrow> bnd (close_process_capture_pipe_write D p) (\<lambda>p. ret (p, offset, False))
         | WriteFailed \<Rightarrow> in_ctx (fe_error (func_name @ '': could not write stdin'')))
       else if pipe_open then bnd (close_process_capture_pipe_write D p) (\<lambda>p. ret (p, offset, False))
       else ret (p, offset, pipe_open))"

text \<open>The pipe, the buffer, whether it has overflowed and whether the pipe is open.\<close>

type_synonym capture = "ProcessCapturePipe \<times> TextBuffer \<times> bool \<times> bool"

primrec drain_posix_capture_pipe :: "'w process_calls \<Rightarrow> nat \<Rightarrow> string \<Rightarrow> nat \<Rightarrow> capture \<Rightarrow> ('w, capture) dcomp" where
  "drain_posix_capture_pipe D 0 func_name limit s = in_ctx (throw OutOfFuel)"
| "drain_posix_capture_pipe D (Suc k) func_name limit s =
     (case s of (p, buf, overflow, pipe_open) \<Rightarrow>
       if \<not> pipe_open then ret s
       else bnd (on_disk (os_fdread D (read_fd p) 4096)) (\<lambda>r. case r of
           Got bs \<Rightarrow> if bs \<noteq> [] then bnd (in_ctx (append_process_capture buf bs limit overflow func_name)) (\<lambda>(buf, overflow).
                 drain_posix_capture_pipe D k func_name limit (p, buf, overflow, pipe_open))
             else bnd (close_process_capture_pipe_read D p) (\<lambda>p. ret (p, buf, overflow, False))
         | ReadInterrupted \<Rightarrow> drain_posix_capture_pipe D k func_name limit s
         | NothingYet \<Rightarrow> ret s
         | ReadFailed \<Rightarrow> in_ctx (fe_error (func_name @ '': could not read capture pipe''))))"

primrec reap_loop :: "'w process_calls \<Rightarrow> nat \<Rightarrow> int \<Rightarrow> ('w, unit) dcomp" where
  "reap_loop D 0 pid = in_ctx (throw OutOfFuel)"
| "reap_loop D (Suc k) pid = bnd (on_disk (os_reap D pid)) (\<lambda>r. case r of
       ReapInterrupted \<Rightarrow> reap_loop D k pid | _ \<Rightarrow> ret ())"

definition terminate_posix_process :: "'w process_calls \<Rightarrow> nat \<Rightarrow> int \<Rightarrow> ('w, int) dcomp" where
  "terminate_posix_process D k pid =
     (if pid \<le> 0 then ret pid else sq (call (os_kill D pid)) (sq (reap_loop D k pid) (ret (-1))))"

section \<open>The run of a process\<close>

text \<open>The local variables of \<^verbatim>\<open>run_process_native\<close>.\<close>

record process_run =
  stdin_pipe :: ProcessCapturePipe
  stdout_redirect :: int
  stderr_redirect :: int
  stdout_pipe :: ProcessCapturePipe
  stderr_pipe :: ProcessCapturePipe
  stdout_buf :: TextBuffer
  stderr_buf :: TextBuffer
  stdout_overflow :: bool
  stderr_overflow :: bool
  child_pid :: int
  stdin_offset :: nat
  run_exit_code :: int
  process_finished :: bool
  stdin_open :: bool
  stdout_open :: bool
  stderr_open :: bool

definition initial_run :: process_run where
  "initial_run = \<lparr>stdin_pipe = init_process_capture_pipe, stdout_redirect = -1, stderr_redirect = -1,
     stdout_pipe = init_process_capture_pipe, stderr_pipe = init_process_capture_pipe,
     stdout_buf = empty_buffer, stderr_buf = empty_buffer, stdout_overflow = False, stderr_overflow = False,
     child_pid = -1, stdin_offset = 0, run_exit_code = 0, process_finished = False,
     stdin_open = False, stdout_open = False, stderr_open = False\<rparr>"

definition open_streams :: "'w process_calls \<Rightarrow> ProcessOptions \<Rightarrow> string \<Rightarrow> ('w, process_run) dcomp" where
  "open_streams D options func_name =
     bnd (create_process_input_pipe D func_name) (\<lambda>p. let st = initial_run\<lparr>stdin_pipe := p\<rparr> in
     bnd (if stdout_mode options = PROCESS_STREAM_CAPTURE
          then bnd (create_process_capture_pipe D func_name) (\<lambda>p. ret (st\<lparr>stdout_pipe := p\<rparr>))
          else if stdout_mode options = PROCESS_STREAM_DISCARD
          then bnd (open_null_redirect_file D True func_name) (\<lambda>fd. ret (st\<lparr>stdout_redirect := fd\<rparr>))
          else ret st) (\<lambda>st.
       if stderr_mode options = PROCESS_STREAM_CAPTURE
       then bnd (create_process_capture_pipe D func_name) (\<lambda>p. ret (st\<lparr>stderr_pipe := p\<rparr>))
       else if stderr_mode options = PROCESS_STREAM_DISCARD
       then bnd (open_null_redirect_file D True func_name) (\<lambda>fd. ret (st\<lparr>stderr_redirect := fd\<rparr>))
       else ret st))"

definition child_stream :: "nat \<Rightarrow> ProcessCapturePipe \<Rightarrow> int \<Rightarrow> int \<Rightarrow> child_step list" where
  "child_stream mode p redirect fd =
     (if mode = PROCESS_STREAM_CAPTURE then [ChildClose (read_fd p), ChildDup2 (write_fd p) fd, ChildClose (write_fd p)]
      else if mode = PROCESS_STREAM_DISCARD then [ChildDup2 redirect fd, ChildClose redirect]
      else [])"

definition child_program :: "string list \<Rightarrow> ProcessOptions \<Rightarrow> process_run \<Rightarrow> child_step list" where
  "child_program argv options st =
     (case opt_cwd options of None \<Rightarrow> [] | Some d \<Rightarrow> [ChildChdir d]) @
     [ChildDup2 (read_fd (stdin_pipe st)) 0, ChildClose (read_fd (stdin_pipe st)), ChildClose (write_fd (stdin_pipe st))] @
     child_stream (stdout_mode options) (stdout_pipe st) (stdout_redirect st) 1 @
     child_stream (stderr_mode options) (stderr_pipe st) (stderr_redirect st) 2 @
     (if use_env options then [ChildEnviron (opt_env options)] else []) @ [ChildExec argv]"

definition start_child :: "'w process_calls \<Rightarrow> string list \<Rightarrow> ProcessOptions \<Rightarrow> process_run \<Rightarrow> ('w, process_run) dcomp" where
  "start_child D argv options st =
     bnd (on_disk (os_fork D (child_program argv options st))) (\<lambda>pid.
       if pid < 0 then in_ctx (fe_error ''runprocess: could not start process'')
       else let st = st\<lparr>child_pid := pid\<rparr> in
       bnd (close_process_capture_pipe_read D (stdin_pipe st)) (\<lambda>p. let st = st\<lparr>stdin_pipe := p\<rparr> in
       bnd (close_temp_redirect_file D (stdout_redirect st)) (\<lambda>fd. let st = st\<lparr>stdout_redirect := fd\<rparr> in
       bnd (close_temp_redirect_file D (stderr_redirect st)) (\<lambda>fd. let st = st\<lparr>stderr_redirect := fd\<rparr> in
       bnd (close_process_capture_pipe_write D (stdout_pipe st)) (\<lambda>p. let st = st\<lparr>stdout_pipe := p\<rparr> in
       bnd (close_process_capture_pipe_write D (stderr_pipe st)) (\<lambda>p. ret (st\<lparr>stderr_pipe := p\<rparr>)))))))"

text \<open>\<^verbatim>\<open>waitpid\<close> with \<^verbatim>\<open>WNOHANG\<close>.\<close>

definition check_child :: "'w process_calls \<Rightarrow> process_run \<Rightarrow> ('w, process_run) dcomp" where
  "check_child D st =
     (if process_finished st then ret st
      else bnd (on_disk (os_waitpid D (child_pid st))) (\<lambda>r. case r of
         Exited status \<Rightarrow> ret (st\<lparr>run_exit_code := decode_process_exit_code status, child_pid := -1, process_finished := True\<rparr>)
       | Running \<Rightarrow> ret st
       | WaitFailed \<Rightarrow> in_ctx (fe_error ''runprocess: could not wait for process'')))"

text \<open>The loops answer the message of an abort, for which the code jumps to the clean-up, and the state.\<close>

primrec wait_loop :: "'w process_calls \<Rightarrow> nat \<Rightarrow> process_run \<Rightarrow> ('w, string option \<times> process_run) dcomp" where
  "wait_loop D 0 st = in_ctx (throw OutOfFuel)"
| "wait_loop D (Suc k) st =
     bnd (in_ctx (lift_st fe_poll_abort)) (\<lambda>abort_error. if abort_error \<noteq> None then ret (abort_error, st)
     else bnd (check_child D st) (\<lambda>st. if process_finished st then ret (None, st)
     else sq (call (os_sleep D 10000)) (wait_loop D k st)))"

definition write_turn :: "'w process_calls \<Rightarrow> nat \<Rightarrow> ProcessOptions \<Rightarrow> string \<Rightarrow> int list \<Rightarrow> process_run \<Rightarrow> ('w, process_run) dcomp" where
  "write_turn D k options func_name writefds st =
     (if stdin_open st \<and> write_fd (stdin_pipe st) \<in> set writefds
      then bnd (write_posix_input_pipe D k func_name (stdin_data options) (stdin_pipe st, stdin_offset st, stdin_open st))
        (\<lambda>(p, offset, pipe_open). ret (st\<lparr>stdin_pipe := p, stdin_offset := offset, stdin_open := pipe_open\<rparr>))
      else ret st)"

definition stdout_turn :: "'w process_calls \<Rightarrow> nat \<Rightarrow> ProcessOptions \<Rightarrow> string \<Rightarrow> int list \<Rightarrow> process_run \<Rightarrow> ('w, process_run) dcomp" where
  "stdout_turn D k options func_name readfds st =
     (if stdout_open st \<and> (process_finished st \<or> read_fd (stdout_pipe st) \<in> set readfds)
      then bnd (drain_posix_capture_pipe D k func_name (max_stdout options)
          (stdout_pipe st, stdout_buf st, stdout_overflow st, stdout_open st))
        (\<lambda>(p, buf, overflow, pipe_open). ret (st\<lparr>stdout_pipe := p, stdout_buf := buf, stdout_overflow := overflow, stdout_open := pipe_open\<rparr>))
      else ret st)"

definition stderr_turn :: "'w process_calls \<Rightarrow> nat \<Rightarrow> ProcessOptions \<Rightarrow> string \<Rightarrow> int list \<Rightarrow> process_run \<Rightarrow> ('w, process_run) dcomp" where
  "stderr_turn D k options func_name readfds st =
     (if stderr_open st \<and> (process_finished st \<or> read_fd (stderr_pipe st) \<in> set readfds)
      then bnd (drain_posix_capture_pipe D k func_name (max_stderr options)
          (stderr_pipe st, stderr_buf st, stderr_overflow st, stderr_open st))
        (\<lambda>(p, buf, overflow, pipe_open). ret (st\<lparr>stderr_pipe := p, stderr_buf := buf, stderr_overflow := overflow, stderr_open := pipe_open\<rparr>))
      else ret st)"

definition poll_pipes :: "'w process_calls \<Rightarrow> nat \<Rightarrow> ProcessOptions \<Rightarrow> string \<Rightarrow> process_run \<Rightarrow> ('w, process_run) dcomp" where
  "poll_pipes D k options func_name st =
     bnd (on_disk (os_select D
         ((if stdout_open st then [read_fd (stdout_pipe st)] else []) @ (if stderr_open st then [read_fd (stderr_pipe st)] else []))
         (if stdin_open st then [write_fd (stdin_pipe st)] else []) (if process_finished st then 0 else 10000))) (\<lambda>r. case r of
         SelectInterrupted \<Rightarrow> ret st
       | SelectFailed \<Rightarrow> in_ctx (fe_error ''runprocess: could not poll process pipes'')
       | Ready readfds writefds \<Rightarrow>
           bnd (write_turn D k options func_name writefds st) (\<lambda>st.
           bnd (stdout_turn D k options func_name readfds st) (stderr_turn D k options func_name readfds)))"

primrec process_loop ::
  "'w process_calls \<Rightarrow> nat \<Rightarrow> ProcessOptions \<Rightarrow> string \<Rightarrow> process_run \<Rightarrow> ('w, string option \<times> process_run) dcomp" where
  "process_loop D 0 options func_name st = in_ctx (throw OutOfFuel)"
| "process_loop D (Suc k) options func_name st =
     (if process_finished st \<and> \<not> stdin_open st \<and> \<not> stdout_open st \<and> \<not> stderr_open st then ret (None, st)
      else bnd (in_ctx (lift_st fe_poll_abort)) (\<lambda>abort_error. if abort_error \<noteq> None then ret (abort_error, st)
        else bnd (check_child D st) (\<lambda>st.
          bnd (if stdin_open st \<or> stdout_open st \<or> stderr_open st then poll_pipes D k options func_name st
               else if \<not> process_finished st then sq (call (os_sleep D 10000)) (ret st)
               else ret st) (process_loop D k options func_name))))"

definition attend_child :: "'w process_calls \<Rightarrow> nat \<Rightarrow> ProcessOptions \<Rightarrow> string \<Rightarrow> process_run \<Rightarrow> ('w, string option \<times> process_run) dcomp" where
  "attend_child D k options func_name st =
     (if stdout_mode options \<noteq> PROCESS_STREAM_CAPTURE \<and> stderr_mode options \<noteq> PROCESS_STREAM_CAPTURE \<and> stdin_data options = []
      then bnd (close_process_capture_pipe_write D (stdin_pipe st)) (\<lambda>p. wait_loop D k (st\<lparr>stdin_pipe := p\<rparr>))
      else let st = st\<lparr>stdin_open := True, stdout_open := (stdout_mode options = PROCESS_STREAM_CAPTURE),
              stderr_open := (stderr_mode options = PROCESS_STREAM_CAPTURE)\<rparr> in
        bnd (if stdin_data options = []
             then bnd (close_process_capture_pipe_write D (stdin_pipe st)) (\<lambda>p. ret (st\<lparr>stdin_pipe := p, stdin_open := False\<rparr>))
             else ret st) (process_loop D k options func_name))"

definition cleanup_run :: "'w process_calls \<Rightarrow> nat \<Rightarrow> process_run \<Rightarrow> ('w, process_run) dcomp" where
  "cleanup_run D k st =
     bnd (if child_pid st > 0 then terminate_posix_process D k (child_pid st) else ret (child_pid st)) (\<lambda>pid. let st = st\<lparr>child_pid := pid\<rparr> in
     bnd (destroy_process_capture_pipe D (stdin_pipe st)) (\<lambda>p. let st = st\<lparr>stdin_pipe := p\<rparr> in
     bnd (close_temp_redirect_file D (stdout_redirect st)) (\<lambda>fd. let st = st\<lparr>stdout_redirect := fd\<rparr> in
     bnd (close_temp_redirect_file D (stderr_redirect st)) (\<lambda>fd. let st = st\<lparr>stderr_redirect := fd\<rparr> in
     bnd (destroy_process_capture_pipe D (stdout_pipe st)) (\<lambda>p. let st = st\<lparr>stdout_pipe := p\<rparr> in
     bnd (destroy_process_capture_pipe D (stderr_pipe st)) (\<lambda>p. ret (st\<lparr>stderr_pipe := p\<rparr>)))))))"

text \<open>The error that a run ends with, and its output otherwise.\<close>

definition run_result :: "ProcessOptions \<Rightarrow> string option \<Rightarrow> process_run \<Rightarrow> string + ProcessOutput" where
  "run_result options abort_error st =
     (case abort_error of
        Some m \<Rightarrow> Inl m
      | None \<Rightarrow>
          if stdout_overflow st then Inl ''runprocess stdout: file too large''
          else if stderr_overflow st then Inl ''runprocess stderr: file too large''
          else Inr \<lparr>out_exit_code = run_exit_code st, stdout_data = fst (stdout_buf st), stderr_data = fst (stderr_buf st),
            stdout_captured = (stdout_mode options = PROCESS_STREAM_CAPTURE),
            stderr_captured = (stderr_mode options = PROCESS_STREAM_CAPTURE)\<rparr>)"

definition run_process_native ::
  "'w process_calls \<Rightarrow> nat \<Rightarrow> string list \<Rightarrow> ProcessOptions \<Rightarrow> string \<Rightarrow> ('w, string + ProcessOutput) dcomp" where
  "run_process_native D k argv options func_name =
     bnd (open_streams D options func_name) (\<lambda>st.
     bnd (start_child D argv options st) (\<lambda>st.
     bnd (attend_child D k options func_name st) (\<lambda>(abort_error, st).
     bnd (cleanup_run D k st) (\<lambda>st. ret (run_result options abort_error st)))))"

section \<open>The functions of the language\<close>

text \<open>C leaves the order of the arguments of \<^verbatim>\<open>fe_map_set\<close> open; the key is made first here.\<close>

definition set_field :: "ptr \<Rightarrow> string \<Rightarrow> ptr fcomp \<Rightarrow> unit fcomp" where
  "set_field result name value =
     bnd (fe_symbol name) (\<lambda>key. bnd value (\<lambda>v. bnd (fe_map_set result key v) (\<lambda>_. ret ())))"

definition build_process_result :: "ProcessOutput \<Rightarrow> ptr fcomp" where
  "build_process_result output =
     bnd fe_map (\<lambda>result.
     sq (set_field result ''code'' (fe_make_number (num_of_int (out_exit_code output))))
     (sq (set_field result ''ok'' (ret (fe_bool (out_exit_code output = 0))))
     (sq (set_field result ''stdout'' (if stdout_captured output then fe_bytes (stdout_data output) else ret Nil))
     (sq (set_field result ''stderr'' (if stderr_captured output then fe_bytes (stderr_data output) else ret Nil))
     (ret result)))))"

definition build_merged_command :: "string \<Rightarrow> string \<Rightarrow> string fcomp" where
  "build_merged_command command func_name =
     bnd (builtin_alloc (length ''('' + length command + length '') 2>&1'' + 1)) (\<lambda>ok.
       if \<not> ok then fe_error (func_name @ '': out of memory'') else ret (''('' @ command @ '') 2>&1''))"

primrec push_arguments :: "string \<Rightarrow> string list \<Rightarrow> string list \<Rightarrow> string list fcomp" where
  "push_arguments func_name [] argv = ret argv"
| "push_arguments func_name (s # ss) argv = bnd (cstring_array_push_copy s argv) (\<lambda>r. case r of
       None \<Rightarrow> fe_error (func_name @ '': out of memory'') | Some argv \<Rightarrow> push_arguments func_name ss argv)"

definition build_shell_process_argv :: "string \<Rightarrow> string \<Rightarrow> string list fcomp" where
  "build_shell_process_argv command func_name = push_arguments func_name [''/bin/sh'', ''-c'', command] []"

definition builtin_system :: "'w process_calls \<Rightarrow> nat \<Rightarrow> ptr \<Rightarrow> ('w, ptr) dcomp" where
  "builtin_system D k args =
     sq (in_ctx (FEX_CHECK_ARGS args 1 ''system'')) (bnd (in_ctx (fe_nextarg args)) (\<lambda>(command_obj, _).
     bnd (in_ctx (string_to_cstr command_obj ''system'')) (\<lambda>command.
     bnd (in_ctx (build_shell_process_argv command ''system'')) (\<lambda>argv.
     bnd (run_process_native D k argv
         (zero_options\<lparr>stdout_mode := PROCESS_STREAM_INHERIT, stderr_mode := PROCESS_STREAM_INHERIT\<rparr>) ''system'') (\<lambda>r. case r of
         Inl process_error \<Rightarrow> in_ctx (fe_error process_error)
       | Inr output \<Rightarrow> in_ctx (fe_make_number (num_of_int (out_exit_code output))))))))"

definition builtin_run_command :: "'w process_calls \<Rightarrow> nat \<Rightarrow> ptr \<Rightarrow> ('w, ptr) dcomp" where
  "builtin_run_command D k args =
     sq (in_ctx (FEX_CHECK_ARGS args 1 ''runcommand'')) (bnd (in_ctx (fe_nextarg args)) (\<lambda>(command_obj, _).
     bnd (in_ctx (string_to_cstr command_obj ''runcommand'')) (\<lambda>command.
     bnd (in_ctx (build_merged_command command ''runcommand'')) (\<lambda>merged_command.
     bnd (in_ctx (build_shell_process_argv merged_command ''runcommand'')) (\<lambda>argv.
     bnd (run_process_native D k argv
         (zero_options\<lparr>stdout_mode := PROCESS_STREAM_CAPTURE, stderr_mode := PROCESS_STREAM_DISCARD,
            max_stdout := FEX_COMMAND_OUTPUT_MAX_BYTES\<rparr>) ''runcommand'') (\<lambda>r. case r of
         Inl process_error \<Rightarrow> in_ctx (fe_error process_error)
       | Inr output \<Rightarrow> in_ctx (bnd fe_map (\<lambda>result.
           sq (set_field result ''code'' (fe_make_number (num_of_int (out_exit_code output))))
           (sq (set_field result ''ok'' (ret (fe_bool (out_exit_code output = 0))))
           (sq (set_field result ''output'' (fe_bytes (stdout_data output))) (ret result)))))))))))"

definition optional_arg :: "ptr \<Rightarrow> (ptr \<times> ptr) fcomp" where
  "optional_arg args = (if isnil args then ret (Nil, args) else fe_nextarg args)"

definition builtin_run_process :: "'w process_calls \<Rightarrow> nat \<Rightarrow> ptr \<Rightarrow> ('w, ptr) dcomp" where
  "builtin_run_process D k args =
     sq (in_ctx (FEX_CHECK_ARGS args 1 ''runprocess'')) (bnd (in_ctx (fe_nextarg args)) (\<lambda>(exe_obj, args).
     bnd (in_ctx (optional_arg args)) (\<lambda>(argv_obj, args). bnd (in_ctx (optional_arg args)) (\<lambda>(opts_obj, args).
     if \<not> isnil args then in_ctx (fe_error ''runprocess: too many arguments'')
     else bnd (in_ctx (collect_process_argv exe_obj argv_obj ''runprocess'')) (\<lambda>argv.
     bnd (in_ctx (parse_process_options opts_obj ''runprocess'')) (\<lambda>options.
     bnd (run_process_native D k argv options ''runprocess'') (\<lambda>r. case r of
         Inl process_error \<Rightarrow> in_ctx (fe_error process_error)
       | Inr output \<Rightarrow> in_ctx (build_process_result output))))))))"

text \<open>\<^verbatim>\<open>exit\<close> does not return: the value is the code the process ends with.\<close>

definition builtin_exit :: "ptr \<Rightarrow> int fcomp" where
  "builtin_exit args =
     (if isnil args then ret 0 else bnd (fe_nextarg args) (\<lambda>(code_obj, _). bnd (fe_tonumber code_obj) num_to_int))"

section \<open>What a run holds\<close>

text \<open>
  What is documented of the calls, in terms of the descriptors the process has open and the children it
  has not waited for: a pipe and the null device have new descriptors, \<^verbatim>\<open>close\<close> removes one, \<^verbatim>\<open>fork\<close> adds a child,
  a wait that reports it removes it, a wait without \<^verbatim>\<open>WNOHANG\<close> fails only when there is no such child, and the
  other calls change neither.
\<close>

definition same_table :: "('w \<Rightarrow> int set) \<Rightarrow> ('w \<Rightarrow> int set) \<Rightarrow> 'w \<Rightarrow> 'w \<Rightarrow> bool" where
  "same_table opens children w w' \<longleftrightarrow> opens w' = opens w \<and> children w' = children w"

definition lawful_descriptors :: "'w process_calls \<Rightarrow> ('w \<Rightarrow> int set) \<Rightarrow> ('w \<Rightarrow> int set) \<Rightarrow> bool" where
  "lawful_descriptors D opens children \<longleftrightarrow>
     (\<forall>w w'. os_pipe D w = (None, w') \<longrightarrow> same_table opens children w w') \<and>
     (\<forall>w a b w'. os_pipe D w = (Some (a, b), w') \<longrightarrow> children w' = children w \<and> opens w' = opens w \<union> {a, b} \<and>
        a \<notin> opens w \<and> b \<notin> opens w \<and> 0 \<le> a \<and> 0 \<le> b \<and> a \<noteq> b) \<and>
     (\<forall>b w fd w'. os_open_null D b w = (fd, w') \<longrightarrow> children w' = children w \<and>
        (if fd < 0 then opens w' = opens w else fd \<notin> opens w \<and> opens w' = insert fd (opens w))) \<and>
     (\<forall>fd w. children (os_close D fd w) = children w \<and> opens (os_close D fd w) = opens w - {fd})"

definition lawful_children :: "'w process_calls \<Rightarrow> ('w \<Rightarrow> int set) \<Rightarrow> ('w \<Rightarrow> int set) \<Rightarrow> bool" where
  "lawful_children D opens children \<longleftrightarrow>
     (\<forall>p w pid w'. os_fork D p w = (pid, w') \<longrightarrow> opens w' = opens w \<and> pid \<noteq> 0 \<and>
        (if pid < 0 then children w' = children w else pid \<notin> children w \<and> children w' = insert pid (children w))) \<and>
     (\<forall>pid w r w'. os_waitpid D pid w = (r, w') \<longrightarrow> opens w' = opens w \<and>
        children w' = (case r of Exited _ \<Rightarrow> children w - {pid} | _ \<Rightarrow> children w)) \<and>
     (\<forall>pid w r w'. os_reap D pid w = (r, w') \<longrightarrow> opens w' = opens w \<and>
        children w' = (case r of Reaped \<Rightarrow> children w - {pid} | _ \<Rightarrow> children w) \<and> (r = ReapFailed \<longrightarrow> pid \<notin> children w))"

definition lawful_transfers :: "'w process_calls \<Rightarrow> ('w \<Rightarrow> int set) \<Rightarrow> ('w \<Rightarrow> int set) \<Rightarrow> bool" where
  "lawful_transfers D opens children \<longleftrightarrow>
     (\<forall>fd w. same_table opens children w (os_cloexec D fd w)) \<and>
     (\<forall>fd w. same_table opens children w (snd (os_nonblock D fd w))) \<and>
     (\<forall>pid w. same_table opens children w (os_kill D pid w)) \<and>
     (\<forall>fd s w. same_table opens children w (snd (os_fdwrite D fd s w))) \<and>
     (\<forall>fd n w. same_table opens children w (snd (os_fdread D fd n w))) \<and>
     (\<forall>rs ws t w. same_table opens children w (snd (os_select D rs ws t w))) \<and>
     (\<forall>t w. same_table opens children w (os_sleep D t w))"

definition lawful_processes :: "'w process_calls \<Rightarrow> ('w \<Rightarrow> int set) \<Rightarrow> ('w \<Rightarrow> int set) \<Rightarrow> bool" where
  "lawful_processes D opens children \<longleftrightarrow>
     lawful_descriptors D opens children \<and> lawful_children D opens children \<and> lawful_transfers D opens children"

text \<open>
  Since the state \<open>w0\<close> the descriptors \<open>fds\<close> have been opened, where those below 0 stand for none, and the child \<open>pid\<close>
  started, if it is above 0; nothing else has changed.
\<close>

definition owned :: "('w \<Rightarrow> int set) \<Rightarrow> ('w \<Rightarrow> int set) \<Rightarrow> 'w \<Rightarrow> int list \<Rightarrow> int \<Rightarrow> 'w \<Rightarrow> bool" where
  "owned opens children w0 fds pid w \<longleftrightarrow>
     opens w = opens w0 \<union> set (filter (\<lambda>f. 0 \<le> f) fds) \<and> set (filter (\<lambda>f. 0 \<le> f) fds) \<inter> opens w0 = {} \<and>
     distinct (filter (\<lambda>f. 0 \<le> f) fds) \<and>
     children w = children w0 \<union> (if 0 < pid then {pid} else {}) \<and> (0 < pid \<longrightarrow> pid \<notin> children w0)"

lemma owned_keeps: "same_table opens children w w' \<Longrightarrow> owned opens children w0 fds pid w' = owned opens children w0 fds pid w"
  by (simp add: same_table_def owned_def)

lemma owned_close:
  assumes law: "lawful_descriptors D opens children" and own: "owned opens children w0 fds pid w"
    and i: "i < length fds" "fds ! i = fd" "0 \<le> fd" "x < 0"
  shows "owned opens children w0 (fds[i := x]) pid (os_close D fd w)"
proof -
  have fds: "fds = take i fds @ fd # drop (Suc i) fds" using i id_take_nth_drop by metis
  then have upd: "fds[i := x] = take i fds @ x # drop (Suc i) fds" using i(1) by (simp add: upd_conv_take_nth_drop)
  from law have "opens (os_close D fd w) = opens w - {fd}" "children (os_close D fd w) = children w"
    by (simp_all add: lawful_descriptors_def)
  moreover have "filter (\<lambda>f. 0 \<le> f) fds = filter (\<lambda>f. 0 \<le> f) (take i fds) @ fd # filter (\<lambda>f. 0 \<le> f) (drop (Suc i) fds)"
    by (subst fds) (use i(3) in simp)
  ultimately show ?thesis using own i(4) unfolding upd owned_def by auto
qed

lemma owned_open:
  assumes own: "owned opens children w0 fds pid w"
    and i: "i < length fds" "fds ! i < 0" and fd: "0 \<le> fd" "fd \<notin> opens w" "opens w' = insert fd (opens w)" "children w' = children w"
  shows "owned opens children w0 (fds[i := fd]) pid w'"
proof -
  have fds: "fds = take i fds @ fds ! i # drop (Suc i) fds" using i(1) by (rule id_take_nth_drop)
  have upd: "fds[i := fd] = take i fds @ fd # drop (Suc i) fds" using i(1) by (rule upd_conv_take_nth_drop)
  have "filter (\<lambda>f. 0 \<le> f) fds = filter (\<lambda>f. 0 \<le> f) (take i fds) @ filter (\<lambda>f. 0 \<le> f) (drop (Suc i) fds)"
    by (subst fds) (use i(2) in simp)
  with own fd show ?thesis unfolding upd owned_def by auto
qed

section \<open>Computations that keep track of it\<close>

text \<open>\<open>ends m Q s\<close>: when \<open>m\<close> returns from \<open>s\<close>, \<open>Q\<close> holds.\<close>

definition ends :: "('d, 'a) dcomp \<Rightarrow> ('a \<Rightarrow> fe_Context \<times> 'd \<Rightarrow> bool) \<Rightarrow> fe_Context \<times> 'd \<Rightarrow> bool" where
  "ends m Q s \<longleftrightarrow> wp m Q (\<lambda>_ _. True) s"

lemma ends_ret: "ends (ret x) Q = Q x"
  by (simp add: fun_eq_iff ends_def wp_ret)

lemma ends_bnd: "ends (bnd m f) Q = ends m (\<lambda>x. ends (f x) Q)"
  by (simp add: fun_eq_iff ends_def [abs_def] wp_bnd)

lemma ends_sq: "ends (sq m n) Q = ends m (\<lambda>_. ends n Q)"
  by (simp add: fun_eq_iff ends_def [abs_def] wp_sq)

lemma ends_raise: "ends (in_ctx (fe_error msg)) Q s" "ends (in_ctx (throw e)) Q s"
  by (simp_all add: ends_def in_ctx_def fe_error_def throw_def wp_def)

lemma ends_on_disk: "ends (on_disk f) Q (c, w) = Q (fst (f w)) (c, snd (f w))"
  by (simp add: ends_def wp_def on_disk_def split: prod.split)

lemma ends_call: "ends (call f) Q (c, w) = Q () (c, f w)"
  by (simp add: call_def ends_on_disk)

lemmas ends_simps = ends_ret ends_bnd ends_sq ends_raise ends_on_disk ends_call

lemma ends_mono: "ends m P s \<Longrightarrow> (\<And>x c w. P x (c, w) \<Longrightarrow> Q x (c, w)) \<Longrightarrow> ends m Q s"
  unfolding ends_def by (erule wp_mono) auto

lemma ends_in_ctx: "(\<And>x c'. Q x (c', w)) \<Longrightarrow> ends (in_ctx m) Q (c, w)"
  by (auto simp: ends_def in_ctx_def wp_def split: prod.split sum.split)

lemma ends_capture:
  assumes "\<And>b' ov' c'. (limit = 0 \<or> length (fst b) \<le> limit \<Longrightarrow> limit = 0 \<or> length (fst b') \<le> limit) \<Longrightarrow> Q (b', ov') (c', w)"
  shows "ends (in_ctx (append_process_capture b d limit ov f)) Q (c, w)"
proof -
  have app: "length (fst b') = length (fst b) + length e" if "buf_append_mem e b c = (Inr (Some b'), c')" for e b' c'
    using that unfolding buf_append_mem_def buf_reserve_def
    by (auto simp: bnd_def ret_def lift_st_def Let_def split: prod.splits sum.splits if_splits option.splits)
  have "wp (append_process_capture b d limit ov f)
      (\<lambda>(b', ov') c'. (limit = 0 \<or> length (fst b) \<le> limit) \<longrightarrow> limit = 0 \<or> length (fst b') \<le> limit) (\<lambda>_ _. True) c"
    unfolding append_process_capture_def Let_def wp_def
    by (auto simp: bnd_def ret_def fe_error_def dest!: app split: prod.splits sum.splits option.splits if_splits)
  then show ?thesis unfolding ends_def wp_in_ctx
    by (rule wp_mono) (use assms in auto)
qed

lemma ends_close_redirect:
  assumes "lawful_descriptors D opens children" and "owned opens children w0 fds pid w" and "i < length fds" "fds ! i = fd"
    and "\<And>x w'. owned opens children w0 (fds[i := x]) pid w' \<Longrightarrow> x < 0 \<Longrightarrow> Q x (c, w')"
  shows "ends (close_temp_redirect_file D fd) Q (c, w)"
proof (cases "0 \<le> fd")
  case True
  from assms(5) [OF owned_close [OF assms(1-4) True]] True show ?thesis by (simp add: close_temp_redirect_file_def ends_simps)
next
  case False
  from assms(5) [of fd w] False assms(2-4) show ?thesis by (auto simp: close_temp_redirect_file_def ends_simps)
qed

lemma ends_close_read:
  assumes "lawful_descriptors D opens children" and "owned opens children w0 fds pid w" and "i < length fds" "fds ! i = read_fd p"
    and "\<And>x w'. owned opens children w0 (fds[i := x]) pid w' \<Longrightarrow> x < 0 \<Longrightarrow> Q (p\<lparr>read_fd := x\<rparr>) (c, w')"
  shows "ends (close_process_capture_pipe_read D p) Q (c, w)"
proof (cases "0 \<le> read_fd p")
  case True
  from assms(5) [OF owned_close [OF assms(1-4) True]] True show ?thesis by (simp add: close_process_capture_pipe_read_def ends_simps)
next
  case False
  have "fds[i := read_fd p] = fds" using assms(4) by (metis list_update_id)
  with assms(5) [of "read_fd p" w] False assms(2) show ?thesis by (simp add: close_process_capture_pipe_read_def ends_simps)
qed

lemma ends_close_write:
  assumes "lawful_descriptors D opens children" and "owned opens children w0 fds pid w" and "i < length fds" "fds ! i = write_fd p"
    and "\<And>x w'. owned opens children w0 (fds[i := x]) pid w' \<Longrightarrow> x < 0 \<Longrightarrow> Q (p\<lparr>write_fd := x\<rparr>) (c, w')"
  shows "ends (close_process_capture_pipe_write D p) Q (c, w)"
proof (cases "0 \<le> write_fd p")
  case True
  from assms(5) [OF owned_close [OF assms(1-4) True]] True show ?thesis by (simp add: close_process_capture_pipe_write_def ends_simps)
next
  case False
  have "fds[i := write_fd p] = fds" using assms(4) by (metis list_update_id)
  with assms(5) [of "write_fd p" w] False assms(2) show ?thesis by (simp add: close_process_capture_pipe_write_def ends_simps)
qed

lemma lawful_parts:
  assumes "lawful_processes D opens children"
  shows "lawful_descriptors D opens children" "same_table opens children w (snd (os_fdwrite D fd s w))"
    "same_table opens children w (snd (os_fdread D fd n w))" "same_table opens children w (os_kill D pid w)"
    "same_table opens children w (snd (os_select D rs ws t w))" "same_table opens children w (os_sleep D t w)"
    "same_table opens children w (os_cloexec D fd w)" "same_table opens children w (snd (os_nonblock D fd w))"
  using assms by (simp_all add: lawful_processes_def lawful_transfers_def)

lemma ends_write_input:
  assumes law: "lawful_processes D opens children" and "owned opens children w0 fds pid w" and i: "i < length fds" "fds ! i = write_fd p"
    and Q: "\<And>x offset opn c' w'. owned opens children w0 (fds[i := x]) pid w' \<Longrightarrow> Q (p\<lparr>write_fd := x\<rparr>, offset, opn) (c', w')"
  shows "ends (write_posix_input_pipe D k func_name d (p, offset, opn)) Q (c, w)"
  using assms(2)
proof (induction k arbitrary: offset w)
  case (Suc k)
  have same: "Q (p, off, o') (c', w')" if "owned opens children w0 fds pid w'" for off o' c' w'
  proof -
    have "fds[i := write_fd p] = fds" using i(2) by (metis list_update_id)
    with Q [of "write_fd p" w' off o' c'] that show ?thesis by simp
  qed
  have close: "ends (close_process_capture_pipe_write D p) (\<lambda>p. Q (p, off, False)) (c, w')" if "owned opens children w0 fds pid w'" for off w'
    by (rule ends_close_write [OF lawful_parts(1) [OF law] that i]) (rule Q)
  show ?case
  proof (cases "opn \<and> offset < length d")
    case True
    obtain r w1 where r: "os_fdwrite D (write_fd p) (drop offset d) w = (r, w1)" by fastforce
    with lawful_parts(2) [OF law, of w "write_fd p" "drop offset d"] have w1: "owned opens children w0 fds pid w1"
      using Suc.prems owned_keeps by fastforce
    from True r same [OF w1] close [OF w1] Suc.IH [OF w1] show ?thesis
      by (cases r) (auto simp: ends_simps)
  qed (use close same Suc.prems in \<open>auto simp: ends_simps\<close>)
qed (simp add: ends_raise)

lemma ends_drain:
  assumes law: "lawful_processes D opens children" and "owned opens children w0 fds pid w" and i: "i < length fds" "fds ! i = read_fd p"
    and "limit = 0 \<or> length (fst b) \<le> limit"
    and Q: "\<And>x b' ov opn c' w'. owned opens children w0 (fds[i := x]) pid w' \<Longrightarrow> limit = 0 \<or> length (fst b') \<le> limit \<Longrightarrow>
      Q (p\<lparr>read_fd := x\<rparr>, b', ov, opn) (c', w')"
  shows "ends (drain_posix_capture_pipe D k func_name limit (p, b, ov, opn)) Q (c, w)"
  using assms(2,5)
proof (induction k arbitrary: b ov c w)
  case (Suc k)
  have same: "Q (p, b', ov', o') (c', w')" if "owned opens children w0 fds pid w'" "limit = 0 \<or> length (fst b') \<le> limit" for b' ov' o' c' w'
  proof -
    have "fds[i := read_fd p] = fds" using i(2) by (metis list_update_id)
    with Q [of "read_fd p" w' b' ov' o' c'] that show ?thesis by simp
  qed
  show ?case
  proof (cases opn)
    case True
    obtain r w1 where r: "os_fdread D (read_fd p) 4096 w = (r, w1)" by fastforce
    with lawful_parts(3) [OF law, of w "read_fd p" 4096] have w1: "owned opens children w0 fds pid w1"
      using Suc.prems owned_keeps by fastforce
    have close: "ends (close_process_capture_pipe_read D p) (\<lambda>p. Q (p, b, ov, False)) (c, w1)"
      by (rule ends_close_read [OF lawful_parts(1) [OF law] w1 i]) (rule Q, use Suc.prems in auto)
    have more: "ends (in_ctx (append_process_capture b bs limit ov func_name)) (\<lambda>(b, ov).
        ends (drain_posix_capture_pipe D k func_name limit (p, b, ov, opn)) Q) (c, w1)" for bs
      by (rule ends_capture) (use Suc.IH [OF w1] Suc.prems(2) in auto)
    have more': "ends (in_ctx (append_process_capture b bs limit ov func_name)) (\<lambda>x.
        ends (case x of (b, ov) \<Rightarrow> drain_posix_capture_pipe D k func_name limit (p, b, ov, opn)) Q) (c, w1)" for bs
      using more [of bs] by (rule ends_mono) auto
    from True r same [OF w1 Suc.prems(2)] close more' Suc.IH [OF w1 Suc.prems(2)] show ?thesis
      by (cases r) (auto simp: ends_simps)
  qed (use same Suc.prems in \<open>auto simp: ends_simps\<close>)
qed (simp add: ends_raise)

section \<open>The run as a whole\<close>

definition run_fds :: "process_run \<Rightarrow> int list" where
  "run_fds st = [read_fd (stdin_pipe st), write_fd (stdin_pipe st), stdout_redirect st, stderr_redirect st,
     read_fd (stdout_pipe st), write_fd (stdout_pipe st), read_fd (stderr_pipe st), write_fd (stderr_pipe st)]"

definition held ::
  "('w \<Rightarrow> int set) \<Rightarrow> ('w \<Rightarrow> int set) \<Rightarrow> 'w \<Rightarrow> ProcessOptions \<Rightarrow> process_run \<Rightarrow> fe_Context \<times> 'w \<Rightarrow> bool" where
  "held opens children w0 options st s \<longleftrightarrow> owned opens children w0 (run_fds st) (child_pid st) (snd s) \<and>
     (process_finished st \<or> 0 < child_pid st) \<and>
     (max_stdout options = 0 \<or> length (fst (stdout_buf st)) \<le> max_stdout options) \<and>
     (max_stderr options = 0 \<or> length (fst (stderr_buf st)) \<le> max_stderr options)"

lemma run_fds_update:
  "(run_fds st)[0 := x] = run_fds (st\<lparr>stdin_pipe := (stdin_pipe st)\<lparr>read_fd := x\<rparr>\<rparr>)"
  "(run_fds st)[1 := x] = run_fds (st\<lparr>stdin_pipe := (stdin_pipe st)\<lparr>write_fd := x\<rparr>\<rparr>)"
  "(run_fds st)[2 := x] = run_fds (st\<lparr>stdout_redirect := x\<rparr>)"
  "(run_fds st)[3 := x] = run_fds (st\<lparr>stderr_redirect := x\<rparr>)"
  "(run_fds st)[4 := x] = run_fds (st\<lparr>stdout_pipe := (stdout_pipe st)\<lparr>read_fd := x\<rparr>\<rparr>)"
  "(run_fds st)[5 := x] = run_fds (st\<lparr>stdout_pipe := (stdout_pipe st)\<lparr>write_fd := x\<rparr>\<rparr>)"
  "(run_fds st)[6 := x] = run_fds (st\<lparr>stderr_pipe := (stderr_pipe st)\<lparr>read_fd := x\<rparr>\<rparr>)"
  "(run_fds st)[7 := x] = run_fds (st\<lparr>stderr_pipe := (stderr_pipe st)\<lparr>write_fd := x\<rparr>\<rparr>)"
  by (simp_all add: run_fds_def numeral_eq_Suc)

lemma run_fds_nth:
  "length (run_fds st) = 8"
  "run_fds st ! 0 = read_fd (stdin_pipe st)" "run_fds st ! 1 = write_fd (stdin_pipe st)"
  "run_fds st ! 2 = stdout_redirect st" "run_fds st ! 3 = stderr_redirect st"
  "run_fds st ! 4 = read_fd (stdout_pipe st)" "run_fds st ! 5 = write_fd (stdout_pipe st)"
  "run_fds st ! 6 = read_fd (stderr_pipe st)" "run_fds st ! 7 = write_fd (stderr_pipe st)"
  by (simp_all add: run_fds_def numeral_eq_Suc)

text \<open>The steps on the variables of a run, by the place of their descriptor.\<close>

lemma held_keeps: "same_table opens children w w' \<Longrightarrow> held opens children w0 options st (c, w) \<Longrightarrow> held opens children w0 options st (c', w')"
  by (simp add: held_def owned_keeps)

lemma run_fds_other [simp]:
  "run_fds (st\<lparr>stdout_buf := b\<rparr>) = run_fds st" "run_fds (st\<lparr>stderr_buf := b\<rparr>) = run_fds st"
  "run_fds (st\<lparr>stdout_overflow := v\<rparr>) = run_fds st" "run_fds (st\<lparr>stderr_overflow := v\<rparr>) = run_fds st"
  "run_fds (st\<lparr>child_pid := pid\<rparr>) = run_fds st" "run_fds (st\<lparr>stdin_offset := n\<rparr>) = run_fds st"
  "run_fds (st\<lparr>run_exit_code := e\<rparr>) = run_fds st" "run_fds (st\<lparr>process_finished := v\<rparr>) = run_fds st"
  "run_fds (st\<lparr>stdin_open := v\<rparr>) = run_fds st" "run_fds (st\<lparr>stdout_open := v\<rparr>) = run_fds st"
  "run_fds (st\<lparr>stderr_open := v\<rparr>) = run_fds st"
  by (simp_all add: run_fds_def)

lemma ends_check_child:
  assumes law: "lawful_processes D opens children" and h: "held opens children w0 options st (c, w)"
    and Q: "\<And>st' w'. held opens children w0 options st' (c, w') \<Longrightarrow> Q st' (c, w')"
  shows "ends (check_child D st) Q (c, w)"
proof (cases "process_finished st")
  case False
  obtain r w1 where r: "os_waitpid D (child_pid st) w = (r, w1)" by fastforce
  with law have l: "opens w1 = opens w" "children w1 = (case r of Exited _ \<Rightarrow> children w - {child_pid st} | _ \<Rightarrow> children w)"
    by (auto simp: lawful_processes_def lawful_children_def)
  have "held opens children w0 options (st\<lparr>run_exit_code := n, child_pid := -1, process_finished := True\<rparr>) (c, w1)"
    if "r = Exited s" for s n
    using l h that False by (auto simp: held_def owned_def)
  moreover have "held opens children w0 options st (c, w1)" if "r = Running"
    using l h that by (auto simp: held_def owned_def)
  ultimately show ?thesis using False r Q by (cases r) (auto simp: check_child_def ends_simps)
qed (use Q h in \<open>simp add: check_child_def ends_simps\<close>)

lemma ends_turns:
  assumes law: "lawful_processes D opens children" and h: "held opens children w0 options st (c, w)"
    and Q: "\<And>st' c' w'. held opens children w0 options st' (c', w') \<Longrightarrow> Q st' (c', w')"
  shows "ends (write_turn D k options func_name fds st) Q (c, w)" "ends (stdout_turn D k options func_name fds st) Q (c, w)"
    "ends (stderr_turn D k options func_name fds st) Q (c, w)"
proof -
  have own: "owned opens children w0 (run_fds st) (child_pid st) w"
    and b: "max_stdout options = 0 \<or> length (fst (stdout_buf st)) \<le> max_stdout options"
      "max_stderr options = 0 \<or> length (fst (stderr_buf st)) \<le> max_stderr options"
      "process_finished st \<or> 0 < child_pid st" using h by (simp_all add: held_def)
  have "ends (write_posix_input_pipe D k func_name (stdin_data options) (stdin_pipe st, stdin_offset st, stdin_open st))
      (\<lambda>(p, offset, v). Q (st\<lparr>stdin_pipe := p, stdin_offset := offset, stdin_open := v\<rparr>)) (c, w)"
    by (rule ends_write_input [OF law own, of 1 "stdin_pipe st"])
      (use b in \<open>auto simp: run_fds_nth run_fds_update held_def intro!: Q simp del: One_nat_def\<close>)
  then show "ends (write_turn D k options func_name fds st) Q (c, w)"
    unfolding write_turn_def using Q h by (auto simp: ends_simps elim!: ends_mono)
  have "ends (drain_posix_capture_pipe D k func_name (max_stdout options) (stdout_pipe st, stdout_buf st, stdout_overflow st, stdout_open st))
      (\<lambda>(p, b, ov, v). Q (st\<lparr>stdout_pipe := p, stdout_buf := b, stdout_overflow := ov, stdout_open := v\<rparr>)) (c, w)"
    by (rule ends_drain [OF law own, of 4 "stdout_pipe st"])
      (use b in \<open>auto simp: run_fds_nth run_fds_update held_def intro!: Q\<close>)
  then show "ends (stdout_turn D k options func_name fds st) Q (c, w)"
    unfolding stdout_turn_def using Q h by (auto simp: ends_simps elim!: ends_mono)
  have "ends (drain_posix_capture_pipe D k func_name (max_stderr options) (stderr_pipe st, stderr_buf st, stderr_overflow st, stderr_open st))
      (\<lambda>(p, b, ov, v). Q (st\<lparr>stderr_pipe := p, stderr_buf := b, stderr_overflow := ov, stderr_open := v\<rparr>)) (c, w)"
    by (rule ends_drain [OF law own, of 6 "stderr_pipe st"])
      (use b in \<open>auto simp: run_fds_nth run_fds_update held_def intro!: Q\<close>)
  then show "ends (stderr_turn D k options func_name fds st) Q (c, w)"
    unfolding stderr_turn_def using Q h by (auto simp: ends_simps elim!: ends_mono)
qed

lemma ends_poll_pipes:
  assumes law: "lawful_processes D opens children" and h: "held opens children w0 options st (c, w)"
    and Q: "\<And>st' c' w'. held opens children w0 options st' (c', w') \<Longrightarrow> Q st' (c', w')"
  shows "ends (poll_pipes D k options func_name st) Q (c, w)"
proof -
  let ?call = "os_select D ((if stdout_open st then [read_fd (stdout_pipe st)] else []) @ (if stderr_open st then [read_fd (stderr_pipe st)] else []))
         (if stdin_open st then [write_fd (stdin_pipe st)] else []) (if process_finished st then 0 else 10000)"
  obtain r w1 where r: "?call w = (r, w1)" by fastforce
  then have h1: "held opens children w0 options st (c, w1)" using lawful_parts(5) [OF law] held_keeps [OF _ h] by (metis snd_conv)
  have "ends (write_turn D k options func_name ws st) (\<lambda>st. ends (stdout_turn D k options func_name rs st)
      (\<lambda>st. ends (stderr_turn D k options func_name rs st) Q)) (c, w1)" for rs ws
    by (rule ends_turns(1) [OF law h1], rule ends_turns(2) [OF law], assumption, rule ends_turns(3) [OF law], assumption, rule Q)
  with r h1 Q show ?thesis unfolding poll_pipes_def by (cases r) (auto simp: ends_simps)
qed

lemma ends_process_loop:
  assumes law: "lawful_processes D opens children" and "held opens children w0 options st (c, w)"
    and Q: "\<And>e st' c' w'. held opens children w0 options st' (c', w') \<Longrightarrow> Q (e, st') (c', w')"
  shows "ends (process_loop D k options func_name st) Q (c, w)"
  using assms(2)
proof (induction k arbitrary: st c w)
  case (Suc k)
  have h: "held opens children w0 options st (c', w)" for c' using Suc.prems by (simp add: held_def)
  have sleep: "held opens children w0 options st' (c', os_sleep D 10000 w')" if "held opens children w0 options st' (c', w')" for st' c' w'
    by (rule held_keeps [OF lawful_parts(6) [OF law] that])
  have turn: "ends (check_child D st) (\<lambda>st. ends (if stdin_open st \<or> stdout_open st \<or> stderr_open st then poll_pipes D k options func_name st
               else if \<not> process_finished st then sq (call (os_sleep D 10000)) (ret st) else ret st)
       (\<lambda>st. ends (process_loop D k options func_name st) Q)) (c', w)" for c'
    by (rule ends_check_child [OF law h])
      (auto simp: ends_simps intro!: ends_poll_pipes [OF law] Suc.IH sleep)
  have "ends (in_ctx (lift_st fe_poll_abort)) (\<lambda>e. ends (if e \<noteq> None then ret (e, st) else bnd (check_child D st) (\<lambda>st.
          bnd (if stdin_open st \<or> stdout_open st \<or> stderr_open st then poll_pipes D k options func_name st
               else if \<not> process_finished st then sq (call (os_sleep D 10000)) (ret st)
               else ret st) (process_loop D k options func_name))) Q) (c, w)"
    by (rule ends_in_ctx) (use turn Q [OF h] in \<open>simp add: ends_ret ends_bnd\<close>)
  then show ?case unfolding process_loop.simps using Q [OF Suc.prems] by (simp add: ends_ret ends_bnd)
qed (simp add: ends_raise)

lemma ends_wait_loop:
  assumes law: "lawful_processes D opens children" and "held opens children w0 options st (c, w)"
    and Q: "\<And>e st' c' w'. held opens children w0 options st' (c', w') \<Longrightarrow> Q (e, st') (c', w')"
  shows "ends (wait_loop D k st) Q (c, w)"
  using assms(2)
proof (induction k arbitrary: st c w)
  case (Suc k)
  have h: "held opens children w0 options st (c', w)" for c' using Suc.prems by (simp add: held_def)
  have sleep: "held opens children w0 options st' (c', os_sleep D 10000 w')" if "held opens children w0 options st' (c', w')" for st' c' w'
    by (rule held_keeps [OF lawful_parts(6) [OF law] that])
  have turn: "ends (check_child D st) (\<lambda>st. ends (if process_finished st then ret (None, st)
       else sq (call (os_sleep D 10000)) (wait_loop D k st)) Q) (c', w)" for c'
    by (rule ends_check_child [OF law h]) (auto simp: ends_simps intro!: Q Suc.IH sleep)
  have "ends (in_ctx (lift_st fe_poll_abort)) (\<lambda>e. ends (if e \<noteq> None then ret (e, st) else bnd (check_child D st) (\<lambda>st.
       if process_finished st then ret (None, st) else sq (call (os_sleep D 10000)) (wait_loop D k st))) Q) (c, w)"
    by (rule ends_in_ctx) (use turn Q [OF h] in \<open>simp add: ends_ret ends_bnd\<close>)
  then show ?case unfolding wait_loop.simps by (simp add: ends_bnd)
qed (simp add: ends_raise)

lemma ends_attend_child:
  assumes law: "lawful_processes D opens children" and h: "held opens children w0 options st (c, w)"
    and Q: "\<And>e st' c' w'. held opens children w0 options st' (c', w') \<Longrightarrow> Q (e, st') (c', w')"
  shows "ends (attend_child D k options func_name st) Q (c, w)"
proof -
  have close: "ends (close_process_capture_pipe_write D (stdin_pipe st')) (\<lambda>p. R (st'\<lparr>stdin_pipe := p\<rparr>)) (c, w)"
    if h': "held opens children w0 options st' (c, w)"
      and R: "\<And>st' w'. held opens children w0 options st' (c, w') \<Longrightarrow> R st' (c, w')" for st' R
  proof (rule ends_close_write [OF lawful_parts(1) [OF law], where fds = "run_fds st'" and pid = "child_pid st'" and i = 1])
    show "owned opens children w0 (run_fds st') (child_pid st') w" using h' by (simp add: held_def)
  next
    fix x w' assume "owned opens children w0 ((run_fds st')[1 := x]) (child_pid st') w'" "x < 0"
    with h' show "R (st'\<lparr>stdin_pipe := (stdin_pipe st')\<lparr>write_fd := x\<rparr>\<rparr>) (c, w')"
      unfolding run_fds_update by (intro R) (simp add: held_def)
  qed (simp_all add: run_fds_nth del: One_nat_def)
  let ?st = "st\<lparr>stdin_open := True, stdout_open := (stdout_mode options = PROCESS_STREAM_CAPTURE),
              stderr_open := (stderr_mode options = PROCESS_STREAM_CAPTURE)\<rparr>"
  have h2: "held opens children w0 options ?st (c, w)" using h by (simp add: held_def)
  have loop: "ends (process_loop D k options func_name st') Q (c, w')" if "held opens children w0 options st' (c, w')" for st' w'
    by (rule ends_process_loop [OF law that]) (rule Q)
  have "ends (close_process_capture_pipe_write D (stdin_pipe ?st))
     (\<lambda>p. ends (process_loop D k options func_name (?st\<lparr>stdin_pipe := p\<rparr>\<lparr>stdin_open := False\<rparr>)) Q) (c, w)"
    by (rule close [OF h2]) (rule loop, simp add: held_def)
  moreover have "ends (close_process_capture_pipe_write D (stdin_pipe st)) (\<lambda>p. ends (wait_loop D k (st\<lparr>stdin_pipe := p\<rparr>)) Q) (c, w)"
    by (rule close [OF h]) (rule ends_wait_loop [OF law], assumption, rule Q)
  ultimately show ?thesis unfolding attend_child_def Let_def using loop [OF h2] by (auto simp: ends_ret ends_bnd)
qed

lemma ends_destroy:
  assumes law: "lawful_descriptors D opens children" and own: "owned opens children w0 fds pid w"
    and i: "Suc i < length fds" "fds ! i = read_fd p" "fds ! Suc i = write_fd p"
    and Q: "\<And>x y w'. owned opens children w0 (fds[i := x, Suc i := y]) pid w' \<Longrightarrow> x < 0 \<Longrightarrow> y < 0 \<Longrightarrow> Q \<lparr>read_fd = x, write_fd = y\<rparr> (c, w')"
  shows "ends (destroy_process_capture_pipe D p) Q (c, w)"
  unfolding destroy_process_capture_pipe_def ends_bnd
proof (rule ends_close_read [OF law own _ i(2)])
  fix x w1 assume o1: "owned opens children w0 (fds[i := x]) pid w1" and x: "x < 0"
  show "ends (close_process_capture_pipe_write D (p\<lparr>read_fd := x\<rparr>)) Q (c, w1)"
  proof (rule ends_close_write [OF law o1, where i = "Suc i"])
    fix y w2 assume "owned opens children w0 (fds[i := x, Suc i := y]) pid w2" "y < 0"
    from Q [OF this(1) x this(2)] show "Q (p\<lparr>read_fd := x, write_fd := y\<rparr>) (c, w2)" by (cases p) simp
  qed (use i in auto)
qed (use i in auto)

lemma ends_terminate:
  assumes law: "lawful_processes D opens children" and own: "owned opens children w0 fds pid w" and pid: "0 < pid"
    and Q: "\<And>w'. owned opens children w0 fds (-1) w' \<Longrightarrow> Q (-1) (c, w')"
  shows "ends (terminate_posix_process D k pid) Q (c, w)"
proof -
  have reap: "ends (reap_loop D k pid) (\<lambda>_. Q (-1)) (c, w)" if "owned opens children w0 fds pid w" for w
    using that
  proof (induction k arbitrary: w)
    case (Suc k)
    obtain r w1 where r: "os_reap D pid w = (r, w1)" by fastforce
    with law have "opens w1 = opens w" "children w1 = (case r of Reaped \<Rightarrow> children w - {pid} | _ \<Rightarrow> children w)"
      "r = ReapFailed \<Longrightarrow> pid \<notin> children w" by (auto simp: lawful_processes_def lawful_children_def)
    then have "owned opens children w0 fds (if r = ReapInterrupted then pid else -1) w1"
      using Suc.prems pid by (cases r) (auto simp: owned_def)
    with r Suc.IH [of w1] Q [of w1] show ?case by (cases r) (auto simp: ends_simps)
  qed (simp add: ends_raise)
  have "owned opens children w0 fds pid (os_kill D pid w)" using own owned_keeps [OF lawful_parts(4) [OF law]] by blast
  with reap pid show ?thesis unfolding terminate_posix_process_def by (simp add: ends_simps)
qed

lemma ends_cleanup:
  assumes law: "lawful_processes D opens children" and own: "owned opens children w0 (run_fds st) (child_pid st) w"
    and Q: "\<And>st' w'. same_table opens children w0 w' \<Longrightarrow> stdout_buf st' = stdout_buf st \<Longrightarrow> stderr_buf st' = stderr_buf st \<Longrightarrow> Q st' (c, w')"
  shows "ends (cleanup_run D k st) Q (c, w)"
proof -
  note law1 = lawful_parts(1) [OF law]
  have "ends (if child_pid st > 0 then terminate_posix_process D k (child_pid st) else ret (child_pid st))
     (\<lambda>pid s. \<exists>w'. s = (c, w') \<and> owned opens children w0 (run_fds st) pid w' \<and> pid \<le> 0) (c, w)"
    using own by (auto simp: ends_ret intro!: ends_terminate [OF law own])
  then show ?thesis unfolding cleanup_run_def ends_bnd Let_def ends_ret
  proof (rule ends_mono, clarsimp)
    fix pid w1 assume o1: "owned opens children w0 (run_fds st) pid w1" and pid: "pid \<le> 0"
    show "ends (destroy_process_capture_pipe D (stdin_pipe st)) (\<lambda>p0. ends (close_temp_redirect_file D (stdout_redirect st))
       (\<lambda>f0. ends (close_temp_redirect_file D (stderr_redirect st)) (\<lambda>f1.
          ends (destroy_process_capture_pipe D (stdout_pipe st)) (\<lambda>p1. ends (destroy_process_capture_pipe D (stderr_pipe st)) (\<lambda>p2.
            Q (st\<lparr>child_pid := pid, stdin_pipe := p0, stdout_redirect := f0, stderr_redirect := f1, stdout_pipe := p1, stderr_pipe := p2\<rparr>)))))) (c, w1)"
      apply (rule ends_destroy [OF law1 o1, where i = 0], simp_all add: run_fds_def)
      apply (rule ends_close_redirect [OF law1, where i = 2], assumption, simp_all)
      apply (rule ends_close_redirect [OF law1, where i = 3], assumption, simp_all)
      apply (rule ends_destroy [OF law1, where i = 4], assumption, simp_all)
      apply (rule ends_destroy [OF law1, where i = 6], assumption, simp_all)
      apply (rule Q)
        apply (use pid in \<open>simp_all add: owned_def same_table_def\<close>)
      done
  qed
qed

lemma ends_create_pipe:
  assumes law: "lawful_processes D opens children" and own: "owned opens children w0 fds pid w"
    and i: "Suc i < length fds" "fds ! i < 0" "fds ! Suc i < 0"
    and Q: "\<And>p w'. owned opens children w0 (fds[i := read_fd p, Suc i := write_fd p]) pid w' \<Longrightarrow> Q p (c, w')"
  shows "ends (create_pipe D e func_name which) Q (c, w)"
proof -
  obtain r w1 where r: "os_pipe D w = (r, w1)" by fastforce
  show ?thesis
  proof (cases r)
    case None
    with r show ?thesis by (simp add: create_pipe_def ends_simps)
  next
    case (Some ab)
    then obtain a b where ab: "r = Some (a, b)" by (cases ab) auto
    have "\<forall>w a b w'. os_pipe D w = (Some (a, b), w') \<longrightarrow> children w' = children w \<and> opens w' = opens w \<union> {a, b} \<and>
        a \<notin> opens w \<and> b \<notin> opens w \<and> 0 \<le> a \<and> 0 \<le> b \<and> a \<noteq> b"
      using law by (simp add: lawful_processes_def lawful_descriptors_def)
    with r ab have l: "children w1 = children w" "opens w1 = opens w \<union> {a, b}" "a \<notin> opens w" "b \<notin> opens w" "0 \<le> a" "0 \<le> b" "a \<noteq> b"
      by blast+
    have own1: "owned opens children w0 (fds[i := a, Suc i := b]) pid w1"
    proof -
      have fds: "fds = take i fds @ fds ! i # fds ! Suc i # drop (Suc (Suc i)) fds"
        using i(1) by (metis Cons_nth_drop_Suc Suc_lessD append_take_drop_id)
      have upd: "fds[i := a, Suc i := b] = take i fds @ a # b # drop (Suc (Suc i)) fds"
        by (subst fds) (use i(1) in \<open>simp add: list_update_append\<close>)
      have "filter (\<lambda>f. 0 \<le> f) fds = filter (\<lambda>f. 0 \<le> f) (take i fds) @ filter (\<lambda>f. 0 \<le> f) (drop (Suc (Suc i)) fds)"
        by (subst fds) (use i(2,3) in simp)
      with own l show ?thesis unfolding upd owned_def by auto
    qed
    let ?w = "snd (os_nonblock D (e (a, b)) (os_cloexec D b (os_cloexec D a w1)))"
    have "owned opens children w0 (fds[i := a, Suc i := b]) pid ?w"
      using own1 owned_keeps [OF lawful_parts(7) [OF law]] owned_keeps [OF lawful_parts(8) [OF law]] by metis
    with Q [of "\<lparr>read_fd = a, write_fd = b\<rparr>" ?w] r ab show ?thesis by (simp add: create_pipe_def ends_simps)
  qed
qed

lemma ends_open_null:
  assumes law: "lawful_processes D opens children" and own: "owned opens children w0 fds pid w"
    and i: "i < length fds" "fds ! i < 0"
    and Q: "\<And>fd w'. owned opens children w0 (fds[i := fd]) pid w' \<Longrightarrow> Q fd (c, w')"
  shows "ends (open_null_redirect_file D b func_name) Q (c, w)"
proof -
  obtain fd w1 where r: "os_open_null D b w = (fd, w1)" by fastforce
  with law have l: "children w1 = children w" "0 \<le> fd \<Longrightarrow> fd \<notin> opens w \<and> opens w1 = insert fd (opens w)"
    unfolding lawful_processes_def lawful_descriptors_def by (metis not_le)+
  have "owned opens children w0 (fds[i := fd]) pid w1" if "0 \<le> fd"
    using l that by (intro owned_open [OF own i]) auto
  with Q r show ?thesis by (auto simp: open_null_redirect_file_def ends_simps)
qed

text \<open>A run before its child is started.\<close>

definition fresh_run :: "process_run \<Rightarrow> bool" where
  "fresh_run st \<longleftrightarrow> child_pid st \<le> 0 \<and> stdout_buf st = empty_buffer \<and> stderr_buf st = empty_buffer \<and> \<not> process_finished st"

lemma ends_open_stdout:
  assumes law: "lawful_processes D opens children" and own: "owned opens children w0 (run_fds st) (child_pid st) w"
    and st: "fresh_run st" "stdout_pipe st = init_process_capture_pipe" "stdout_redirect st = -1"
    and Q: "\<And>st' w'. owned opens children w0 (run_fds st') (child_pid st') w' \<Longrightarrow> fresh_run st' \<Longrightarrow>
        stderr_pipe st' = stderr_pipe st \<Longrightarrow> stderr_redirect st' = stderr_redirect st \<Longrightarrow> Q st' (c, w')"
  shows "ends (if stdout_mode options = PROCESS_STREAM_CAPTURE
          then bnd (create_process_capture_pipe D func_name) (\<lambda>p. ret (st\<lparr>stdout_pipe := p\<rparr>))
          else if stdout_mode options = PROCESS_STREAM_DISCARD
          then bnd (open_null_redirect_file D True func_name) (\<lambda>fd. ret (st\<lparr>stdout_redirect := fd\<rparr>))
          else ret st) Q (c, w)"
proof -
  have "ends (create_process_capture_pipe D func_name) (\<lambda>p. Q (st\<lparr>stdout_pipe := p\<rparr>)) (c, w)"
    unfolding create_process_capture_pipe_def
    by (rule ends_create_pipe [OF law own, where i = 4])
      (use st in \<open>auto simp: fresh_run_def run_fds_def init_process_capture_pipe_def numeral_eq_Suc intro!: Q\<close>)
  moreover have "ends (open_null_redirect_file D True func_name) (\<lambda>fd. Q (st\<lparr>stdout_redirect := fd\<rparr>)) (c, w)"
    by (rule ends_open_null [OF law own, where i = 2])
      (use st in \<open>auto simp: fresh_run_def run_fds_def init_process_capture_pipe_def numeral_eq_Suc intro!: Q\<close>)
  ultimately show ?thesis using Q [OF own st(1) refl refl] by (simp add: ends_ret ends_bnd)
qed

lemma ends_open_stderr:
  assumes law: "lawful_processes D opens children" and own: "owned opens children w0 (run_fds st) (child_pid st) w"
    and st: "fresh_run st" "stderr_pipe st = init_process_capture_pipe" "stderr_redirect st = -1"
    and Q: "\<And>st' w'. owned opens children w0 (run_fds st') (child_pid st') w' \<Longrightarrow> fresh_run st' \<Longrightarrow> Q st' (c, w')"
  shows "ends (if stderr_mode options = PROCESS_STREAM_CAPTURE
          then bnd (create_process_capture_pipe D func_name) (\<lambda>p. ret (st\<lparr>stderr_pipe := p\<rparr>))
          else if stderr_mode options = PROCESS_STREAM_DISCARD
          then bnd (open_null_redirect_file D True func_name) (\<lambda>fd. ret (st\<lparr>stderr_redirect := fd\<rparr>))
          else ret st) Q (c, w)"
proof -
  have "ends (create_process_capture_pipe D func_name) (\<lambda>p. Q (st\<lparr>stderr_pipe := p\<rparr>)) (c, w)"
    unfolding create_process_capture_pipe_def
    by (rule ends_create_pipe [OF law own, where i = 6])
      (use st in \<open>auto simp: fresh_run_def run_fds_def init_process_capture_pipe_def numeral_eq_Suc intro!: Q\<close>)
  moreover have "ends (open_null_redirect_file D True func_name) (\<lambda>fd. Q (st\<lparr>stderr_redirect := fd\<rparr>)) (c, w)"
    by (rule ends_open_null [OF law own, where i = 3])
      (use st in \<open>auto simp: fresh_run_def run_fds_def init_process_capture_pipe_def numeral_eq_Suc intro!: Q\<close>)
  ultimately show ?thesis using Q [OF own st(1)] by (simp add: ends_ret ends_bnd)
qed

lemma ends_open_streams:
  assumes law: "lawful_processes D opens children"
    and Q: "\<And>st w'. owned opens children w (run_fds st) (child_pid st) w' \<Longrightarrow> fresh_run st \<Longrightarrow> Q st (c, w')"
  shows "ends (open_streams D options func_name) Q (c, w)"
proof -
  have own: "owned opens children w (run_fds initial_run) (-1) w"
    by (simp add: owned_def run_fds_def initial_run_def init_process_capture_pipe_def)
  show ?thesis unfolding open_streams_def ends_bnd Let_def create_process_input_pipe_def
  proof (rule ends_create_pipe [OF law own, where i = 0], goal_cases)
    case (4 p w')
    let ?st = "initial_run\<lparr>stdin_pipe := p\<rparr>"
    have st: "fresh_run ?st" "stdout_pipe ?st = init_process_capture_pipe" "stdout_redirect ?st = -1"
      "stderr_pipe ?st = init_process_capture_pipe" "stderr_redirect ?st = -1" by (simp_all add: initial_run_def fresh_run_def)
    from 4 have "owned opens children w (run_fds ?st) (child_pid ?st) w'" by (simp add: run_fds_def initial_run_def)
    then show ?case
      by (rule ends_open_stdout [OF law _ st(1-3)], intro ends_open_stderr [OF law]) (use st(4,5) Q in auto)
  qed (simp_all add: run_fds_def initial_run_def init_process_capture_pipe_def)
qed

lemma ends_start_child:
  assumes law: "lawful_processes D opens children" and own: "owned opens children w0 (run_fds st) (child_pid st) w"
    and fresh: "fresh_run st"
    and Q: "\<And>st' w'. held opens children w0 options st' (c, w') \<Longrightarrow> Q st' (c, w')"
  shows "ends (start_child D argv options st) Q (c, w)"
proof -
  note law1 = lawful_parts(1) [OF law]
  note new = fresh [unfolded fresh_run_def]
  obtain pid w1 where r: "os_fork D (child_program argv options st) w = (pid, w1)" by fastforce
  with law have l: "opens w1 = opens w" "pid \<noteq> 0" "0 \<le> pid \<Longrightarrow> pid \<notin> children w \<and> children w1 = insert pid (children w)"
    unfolding lawful_processes_def lawful_children_def by (metis not_le)+
  show ?thesis
  proof (cases "pid < 0")
    case False
    then have o1: "owned opens children w0 (run_fds st) pid w1" and pid: "0 < pid" using own new l by (auto simp: owned_def)
    have "ends (close_process_capture_pipe_read D (stdin_pipe st)) (\<lambda>p0. ends (close_temp_redirect_file D (stdout_redirect st))
       (\<lambda>f0. ends (close_temp_redirect_file D (stderr_redirect st)) (\<lambda>f1.
          ends (close_process_capture_pipe_write D (stdout_pipe st)) (\<lambda>p1. ends (close_process_capture_pipe_write D (stderr_pipe st)) (\<lambda>p2.
            Q (st\<lparr>child_pid := pid, stdin_pipe := p0, stdout_redirect := f0, stderr_redirect := f1, stdout_pipe := p1, stderr_pipe := p2\<rparr>)))))) (c, w1)"
      apply (rule ends_close_read [OF law1 o1, where i = 0], simp_all add: run_fds_def)
      apply (rule ends_close_redirect [OF law1, where i = 2], assumption, simp_all)
      apply (rule ends_close_redirect [OF law1, where i = 3], assumption, simp_all)
      apply (rule ends_close_write [OF law1, where i = 5], assumption, simp_all)
      apply (rule ends_close_write [OF law1, where i = 7], assumption, simp_all)
      apply (rule Q)
      apply (use pid new in \<open>simp add: held_def run_fds_def empty_buffer_def\<close>)
      done
    with False r show ?thesis by (simp add: start_child_def ends_simps Let_def)
  qed (use r in \<open>simp add: start_child_def ends_simps\<close>)
qed

definition in_limits :: "ProcessOptions \<Rightarrow> string + ProcessOutput \<Rightarrow> bool" where
  "in_limits options r \<longleftrightarrow> (case r of Inl _ \<Rightarrow> True | Inr output \<Rightarrow>
      (max_stdout options = 0 \<or> length (stdout_data output) \<le> max_stdout options) \<and>
      (max_stderr options = 0 \<or> length (stderr_data output) \<le> max_stderr options))"

lemma ends_finish:
  assumes "lawful_processes D opens children" and "held opens children w options st (c1, w1)"
  shows "ends (cleanup_run D k st) (\<lambda>st s. same_table opens children w (snd s) \<and> in_limits options (run_result options e st)) (c1, w1)"
proof (rule ends_cleanup [OF assms(1)])
  show "owned opens children w (run_fds st) (child_pid st) w1" using assms(2) by (simp add: held_def)
qed (use assms(2) in \<open>auto simp: held_def run_result_def in_limits_def split: option.splits\<close>)

lemma ends_run_process:
  assumes law: "lawful_processes D opens children"
  shows "ends (run_process_native D k argv options func_name) (\<lambda>r s. same_table opens children w (snd s) \<and> in_limits options r) (c, w)"
  unfolding run_process_native_def ends_bnd ends_ret prod.case_eq_if
  apply (rule ends_open_streams [OF law])
  apply (rule ends_start_child [OF law], assumption+)
  apply (rule ends_attend_child [OF law], assumption)
  apply (simp, rule ends_finish [OF law], assumption)
  done

text \<open>
  C38. Running a process gives back what it takes: whenever \<^verbatim>\<open>run_process_native\<close> returns, with the output or with the
  message of a timeout, an interrupt or an output that is too large, the descriptors that are open and the children that are
  not waited for are those from before, whatever the child and the operating system do meanwhile; and the output it
  returns is no longer than the limits of the options, where 0 stands for none.
\<close>

theorem process_resources_released:
  assumes "lawful_processes D opens children"
    and "run_process_native D k argv options func_name (c, w) = (Inr r, (c', w'))"
  shows "opens w' = opens w \<and> children w' = children w \<and>
    (\<forall>output. r = Inr output \<longrightarrow>
      (max_stdout options = 0 \<or> length (stdout_data output) \<le> max_stdout options) \<and>
      (max_stderr options = 0 \<or> length (stderr_data output) \<le> max_stderr options))"
  using ends_run_process [OF assms(1), of k argv options func_name w c] assms(2)
  by (auto simp: ends_def wp_def same_table_def in_limits_def)

text \<open>
  A process table for examples: the open descriptors and the children; a child ends at once with status 256, that
  is with code 1, and writes nothing.
\<close>

definition new_number :: "int list \<Rightarrow> int" where
  "new_number xs = foldr max xs 2 + 1"

definition table_calls :: "(int list \<times> int list) process_calls" where
  "table_calls = \<lparr>
     os_pipe = (\<lambda>(fs, ps). let n = new_number fs in (Some (n, n + 1), (n # (n + 1) # fs, ps))),
     os_cloexec = (\<lambda>_ w. w),
     os_nonblock = (\<lambda>_ w. (True, w)),
     os_open_null = (\<lambda>_ (fs, ps). (new_number fs, (new_number fs # fs, ps))),
     os_close = (\<lambda>fd (fs, ps). (removeAll fd fs, ps)),
     os_fork = (\<lambda>_ (fs, ps). (new_number ps, (fs, new_number ps # ps))),
     os_waitpid = (\<lambda>pid (fs, ps). (Exited 256, (fs, removeAll pid ps))),
     os_kill = (\<lambda>_ w. w),
     os_reap = (\<lambda>pid (fs, ps). (Reaped, (fs, removeAll pid ps))),
     os_fdwrite = (\<lambda>_ s w. (Wrote (length s), w)),
     os_fdread = (\<lambda>_ _ w. (Got [], w)),
     os_select = (\<lambda>rs ws _ w. (Ready rs ws, w)),
     os_sleep = (\<lambda>_ w. w)\<rparr>"

lemma new_number: "x \<in> set xs \<Longrightarrow> x < new_number xs" "0 < new_number xs"
  by (induction xs) (auto simp: new_number_def)

lemma new_number_fresh: "new_number xs \<notin> set xs" "new_number xs + 1 \<notin> set xs"
  using new_number(1) by force+

lemma table_calls_lawful: "lawful_processes table_calls (\<lambda>w. set (fst w)) (\<lambda>w. set (snd w))"
  using new_number(2) new_number_fresh
  unfolding lawful_processes_def lawful_descriptors_def lawful_children_def lawful_transfers_def
  by (auto simp: table_calls_def same_table_def Let_def less_le_not_le split: prod.splits if_splits) (metis less_imp_le not_le new_number(2) less_irrefl add_increasing2 zero_le_one)+

theorem process_resources_released_witness:
  "\<exists>output c' w'. run_process_native table_calls 3 [''true''] zero_options ''runprocess'' (file_example, ([0, 1, 2], [])) =
     (Inr (Inr output), (c', w')) \<and> set (fst w') = {0, 1, 2} \<and> set (snd w') = {}"
proof -
  let ?run = "run_process_native table_calls 3 [''true''] zero_options ''runprocess'' (file_example, ([0, 1, 2], []))"
  have "case fst ?run of Inr (Inr output) \<Rightarrow> out_exit_code output = 1 | _ \<Rightarrow> False" by code_simp
  then obtain out c' w' where r: "?run = (Inr (Inr out), (c', w'))"
    by (cases ?run) (auto split: sum.splits)
  from process_resources_released [OF table_calls_lawful r] r show ?thesis by simp
qed

end
