(* ===== verification/Fex_Console.thy ===== *)
theory Fex_Console
  imports Fex_Parser Fex_Files
begin

text \<open>
  The functions every program has (\<^verbatim>\<open>fex.c\<close>, \<^verbatim>\<open>print\<close>, \<^verbatim>\<open>println\<close>, \<^verbatim>\<open>readline\<close>, \<^verbatim>\<open>readnumber\<close>), over the text that
  is left on the standard input and the text written to the standard output. The text of an object reaches the output
  when it is complete: what an abort in the middle of a long text leaves behind is not modelled.
\<close>

record streams =
  stdin_text :: string
  stdout_text :: string

definition put_text :: "string \<Rightarrow> (streams, unit) dcomp" where
  "put_text s = on_disk (\<lambda>d. ((), d\<lparr>stdout_text := stdout_text d @ s\<rparr>))"

definition get_char :: "(streams, char option) dcomp" where
  "get_char = on_disk (\<lambda>d. case stdin_text d of [] \<Rightarrow> (None, d) | x # s \<Rightarrow> (Some x, d\<lparr>stdin_text := s\<rparr>))"

section \<open>Printing\<close>

text \<open>\<open>n\<close> is the fuel of \<^verbatim>\<open>fe_write\<close>.\<close>

definition fe_writefp :: "nat \<Rightarrow> ptr \<Rightarrow> (streams, unit) dcomp" where
  "fe_writefp n obj = bnd (in_ctx (fe_write n obj False [])) put_text"

primrec print_args :: "nat \<Rightarrow> nat \<Rightarrow> ptr \<Rightarrow> (streams, unit) dcomp" where
  "print_args 0 n args = in_ctx (throw OutOfFuel)"
| "print_args (Suc k) n args =
     (if isnil args then ret ()
      else bnd (in_ctx (fe_car args)) (\<lambda>arg. sq (fe_writefp n arg) (bnd (in_ctx (fe_cdr args)) (print_args k n))))"

definition builtin_print :: "nat \<Rightarrow> ptr \<Rightarrow> (streams, ptr) dcomp" where
  "builtin_print n args = bnd (in_ctx (gets walk_fuel)) (\<lambda>k. sq (print_args k n args) (ret Nil))"

definition builtin_println :: "nat \<Rightarrow> ptr \<Rightarrow> (streams, ptr) dcomp" where
  "builtin_println n args = bnd (builtin_print n args) (\<lambda>result. sq (put_text [CHR 0x0A]) (ret result))"

section \<open>Reading\<close>

fun replace1 :: "'a \<Rightarrow> 'a \<Rightarrow> 'a list \<Rightarrow> 'a list" where
  "replace1 x y [] = []"
| "replace1 x y (z # zs) = (if x = z then y # zs else z # replace1 x y zs)"

definition fex_temp_realloc :: "nat \<Rightarrow> nat \<Rightarrow> unit fcomp" where
  "fex_temp_realloc old n = bnd (lift_st (tracked_realloc (Some (temp_size old)) (temp_size n))) (\<lambda>b. case b of
      None \<Rightarrow> memory_error ''out of memory''
    | Some sz \<Rightarrow> modify (\<lambda>c. c\<lparr>temp_allocs := replace1 (temp_size old) sz (temp_allocs c)\<rparr>))"

definition STACK_BUF :: nat where "STACK_BUF = 1024"

text \<open>The buffer on the stack has the capacity \<open>STACK_BUF\<close>, the temporary allocations that replace it have larger ones.\<close>

definition grow_line :: "nat \<Rightarrow> unit fcomp" where
  "grow_line cap = (if cap = STACK_BUF then fex_temp_alloc (cap * 2) else fex_temp_realloc cap (cap * 2))"

definition drop_line :: "nat \<Rightarrow> unit fcomp" where
  "drop_line cap = (if cap \<noteq> STACK_BUF then fex_temp_free cap else ret ())"

text \<open>The line, the capacity of its buffer and whether the input has ended. The loop takes a character in every turn.\<close>

primrec line_loop :: "nat \<Rightarrow> string \<Rightarrow> nat \<Rightarrow> (streams, string \<times> nat \<times> bool) dcomp" where
  "line_loop 0 acc cap = in_ctx (throw OutOfFuel)"
| "line_loop (Suc k) acc cap =
     bnd get_char (\<lambda>ch. case ch of
         None \<Rightarrow> ret (acc, cap, True)
       | Some x \<Rightarrow> bnd (if length acc + 1 \<ge> cap then sq (in_ctx (grow_line cap)) (ret (cap * 2)) else ret cap) (\<lambda>cap.
           if x = CHR 0x0A then ret (acc, cap, False) else line_loop k (acc @ [x]) cap))"

definition builtin_read_line :: "ptr \<Rightarrow> (streams, ptr) dcomp" where
  "builtin_read_line args =
     bnd (of_disk (\<lambda>d. length (stdin_text d) + 1)) (\<lambda>k. bnd (line_loop k [] STACK_BUF) (\<lambda>(line, cap, eof).
       if line = [] \<and> eof then sq (in_ctx (drop_line cap)) (ret Nil)
       else bnd (in_ctx (fe_string line)) (\<lambda>result. sq (in_ctx (drop_line cap)) (ret result))))"

text \<open>\<^verbatim>\<open>fgets\<close> with a buffer of 1024 bytes: at most 1023 characters, up to and with the first newline.\<close>

definition fgets_text :: "string \<Rightarrow> string option \<times> string" where
  "fgets_text s =
     (let line = take 1023 (takeWhile (\<lambda>x. x \<noteq> CHR 0x0A) s @ (if CHR 0x0A \<in> set s then [CHR 0x0A] else []))
      in if s = [] then (None, s) else (Some line, drop (length line) s))"

definition builtin_read_number :: "ptr \<Rightarrow> (streams, ptr) dcomp" where
  "builtin_read_number args =
     bnd (on_disk (\<lambda>d. case fgets_text (stdin_text d) of (r, s) \<Rightarrow> (r, d\<lparr>stdin_text := s\<rparr>))) (\<lambda>r. case r of
         None \<Rightarrow> ret Nil
       | Some line \<Rightarrow> in_ctx (fe_make_number (fst (strtod (takeWhile (\<lambda>x. x \<noteq> CHR 0x00) line)))))"

section \<open>Lines\<close>

lemma gives_modify: "(\<And>c. limit_ctx.more (f c) = limit_ctx.more c) \<Longrightarrow> gives c (modify f) (\<lambda>_. True)"
  by (simp add: gives_def wp_modify)

lemma gives_temp: "gives c (fex_temp_alloc n) (\<lambda>_. True)" "gives c (fex_temp_free n) (\<lambda>_. True)" "gives c (fex_temp_realloc m n) (\<lambda>_. True)"
proof -
  have r: "gives c (lift_st (tracked_realloc b k)) (\<lambda>_. True)" for b k
  proof -
    have "limit_ctx.more (snd (tracked_realloc b k c1)) = limit_ctx.more c1" for c1 :: fe_Context
      unfolding tracked_realloc_def
      by (auto simp: more_tracked_alloc Let_def alloc_failure_def memory_note_alloc_def memory_note_free_def sys_malloc_def split: option.split prod.split)
    then show ?thesis by (simp add: gives_def wp_lift_st)
  qed
  show "gives c (fex_temp_alloc n) (\<lambda>_. True)" unfolding fex_temp_alloc_def
    by (rule gives_bnd [OF gives_tracked]) (auto intro: gives_memory_error gives_modify split: option.split)
  show "gives c (fex_temp_realloc m n) (\<lambda>_. True)" unfolding fex_temp_realloc_def
    by (rule gives_bnd [OF r]) (auto intro: gives_memory_error gives_modify split: option.split)
  show "gives c (fex_temp_free n) (\<lambda>_. True)" unfolding fex_temp_free_def sq_def
    by (rule gives_bnd [OF gives_modify]) (simp, rule gives_modify, simp)
qed

lemma gives_buffers: "gives c (grow_line cap) (\<lambda>_. True)" "gives c (drop_line cap) (\<lambda>_. True)"
  by (auto simp: grow_line_def drop_line_def intro: gives_temp gives_ret)

lemma dgives_line_loop:
  "length (stdin_text d) < k \<Longrightarrow>
   dgives c d (line_loop k acc cap) (\<lambda>(line, _, eof) d'. let s = stdin_text d; l = takeWhile (\<lambda>x. x \<noteq> CHR 0x0A) s in
     line = acc @ l \<and> (eof \<longleftrightarrow> CHR 0x0A \<notin> set s) \<and> d' = d\<lparr>stdin_text := drop (Suc (length l)) s\<rparr>)"
proof (induction k arbitrary: d acc cap)
  case (Suc k)
  let ?Q = "\<lambda>(line, (_ :: nat), eof) d'. let s = stdin_text d; l = takeWhile (\<lambda>x. x \<noteq> CHR 0x0A) s in
     line = acc @ l \<and> (eof \<longleftrightarrow> CHR 0x0A \<notin> set s) \<and> d' = d\<lparr>stdin_text := drop (Suc (length l)) s\<rparr>"
  show ?case
  proof (cases "stdin_text d")
    case Nil
    show ?thesis unfolding line_loop.simps get_char_def
      by (rule dgives_bnd [OF dgives_on_disk [where Q = "\<lambda>x d'. x = None \<and> d' = d"]])
        (use Nil in \<open>auto intro!: dgives_ret\<close>)
  next
    case (Cons x s)
    let ?d = "d\<lparr>stdin_text := s\<rparr>"
    have cap: "dgives c ?d (if length acc + 1 \<ge> cap then sq (in_ctx (grow_line cap)) (ret (cap * 2)) else ret cap) (\<lambda>_ d'. d' = ?d)"
      unfolding sq_def
      by (auto intro!: dgives_ret dgives_bnd [OF dgives_ctx [OF gives_buffers(1), where R = "\<lambda>_ d'. d' = ?d"]])
    have "dgives c ?d (if x = CHR 0x0A then ret (acc, cap', False) else line_loop k (acc @ [x]) cap') ?Q" for cap'
    proof (cases "x = CHR 0x0A")
      case False
      have len: "length (stdin_text ?d) < k" using Suc.prems Cons by simp
      have "dgives c ?d (line_loop k (acc @ [x]) cap') ?Q"
        using Suc.IH [OF len, of "acc @ [x]" cap'] Cons False by (simp add: Let_def)
      with False show ?thesis by simp
    qed (use Cons in \<open>auto intro!: dgives_ret\<close>)
    then have "dgives c ?d (bnd (if length acc + 1 \<ge> cap then sq (in_ctx (grow_line cap)) (ret (cap * 2)) else ret cap) (\<lambda>cap.
           if x = CHR 0x0A then ret (acc, cap, False) else line_loop k (acc @ [x]) cap)) ?Q"
      by (intro dgives_bnd [OF cap]) simp
    then show ?thesis unfolding line_loop.simps get_char_def
      by (intro dgives_bnd [OF dgives_on_disk [where Q = "\<lambda>ch d'. ch = Some x \<and> d' = ?d"]])
        (use Cons in auto)
  qed
qed simp

lemma wp_read_line:
  assumes inv: "heap_inv {} [] c" and s: "stdin_text d = l @ CHR 0x0A # r" and l: "CHR 0x0A \<notin> set l"
  shows "wp (builtin_read_line args) (\<lambda>y (c', d'). is_string c' y l \<and> d' = d\<lparr>stdin_text := r\<rparr>) raises (c, d)"
proof -
  have t: "takeWhile (\<lambda>x. x \<noteq> CHR 0x0A) (stdin_text d) = l" "CHR 0x0A \<in> set (stdin_text d)"
    using s l by (auto simp: takeWhile_append)
  let ?d = "d\<lparr>stdin_text := r\<rparr>"
  have loop: "dgives c d (line_loop (length (stdin_text d) + 1) [] STACK_BUF) (\<lambda>(line, _, eof) d'. line = l \<and> \<not> eof \<and> d' = ?d)"
    using dgives_line_loop [of d "length (stdin_text d) + 1" c "[]" STACK_BUF] t s by (simp add: Let_def)
  have new: "wp (bnd (in_ctx (fe_string l)) (\<lambda>result. sq (in_ctx (drop_line cap)) (ret result)))
      (\<lambda>y (c', d'). is_string c' y l \<and> d' = ?d) raises (c1, ?d)" if m: "limit_ctx.more c1 = limit_ctx.more c" for c1 cap
    unfolding wp_bnd wp_in_ctx
  proof (rule wp_mono [OF wp_fresh_string [OF inv m refl]])
    fix y c2 assume y: "is_string c2 y l \<and> heap_inv {} [] c2"
    show "wp (sq (in_ctx (drop_line cap)) (ret y)) (\<lambda>y (c', d'). is_string c' y l \<and> d' = ?d) raises (c2, ?d)"
      unfolding sq_def
    proof (rule wp_gives [OF gives_buffers(2) refl])
      fix c3 assume "limit_ctx.more c3 = limit_ctx.more c2"
      from is_string_more [OF this] y show "wp (ret y) (\<lambda>y (c', d'). is_string c' y l \<and> d' = ?d) raises (c3, ?d)" unfolding wp_ret by simp
    qed simp
  qed (simp add: raises_def)
  show ?thesis unfolding builtin_read_line_def
    by (rule wp_dgives [OF dgives_of_disk [where Q = "\<lambda>k d'. k = length (stdin_text d) + 1 \<and> d' = d"] refl], simp, clarify,
        rule wp_dgives [OF loop], assumption) (auto intro: new)
qed

lemma gives_cell_fields:
  assumes "i < length (objects c)" "ty (objects c ! i) = FE_TPAIR" "ocar (objects c ! i) = VObj p" "ocdr (objects c ! i) = VObj q"
  shows "gives c (fe_car (Ref i)) (\<lambda>x. x = p)" "gives c (fe_cdr (Ref i)) (\<lambda>x. x = q)"
proof -
  have run: "fe_car (Ref i) c1 = (Inr p, c1) \<and> fe_cdr (Ref i) c1 = (Inr q, c1)" if m: "limit_ctx.more c1 = limit_ctx.more c" for c1
  proof -
    have "typeof c1 (Ref i) = FE_TPAIR" using Fex_Strings.typeof_more [OF m, of "Ref i"] assms by (simp add: typeof_def)
    then show ?thesis using cdr_more [OF m assms(1,4)] car_more [OF m assms(1,3)]
      by (simp add: fe_car_def fe_cdr_def checktype_def bnd_def gets_def ret_def isnil_def)
  qed
  show "gives c (fe_car (Ref i)) (\<lambda>x. x = p)" by (rule gives_pure [where x = p]) (use run in auto)
  show "gives c (fe_cdr (Ref i)) (\<lambda>x. x = q)" by (rule gives_pure [where x = q]) (use run in auto)
qed

lemma wp_println:
  assumes inv: "heap_inv {} [] c" and args: "pair_list (objects c) args [p]" "is_string c p s" and n: "0 < n"
  shows "wp (builtin_println n args) (\<lambda>_ (c', d'). d' = d\<lparr>stdout_text := stdout_text d @ s @ [CHR 0x0A]\<rparr>) raises (c, d)"
proof -
  have wf: "wf_slabs (slabs c)" using inv by (simp add: heap_inv_def)
  from args(1) obtain i where i: "args = Ref i" "i < length (objects c)" "ty (objects c ! i) = FE_TPAIR"
    "ocar (objects c ! i) = VObj p" "ocdr (objects c ! i) = VObj Nil" by (rule pair_listE) simp
  note car = gives_cell_fields(1) [OF i(2-5), folded i(1)] and cdr = gives_cell_fields(2) [OF i(2-5), folded i(1)]
  have wr: "gives c (fe_write n p False []) (\<lambda>out. out = s)"
    using fe_write_sexp [OF wf, of p "SStr s" n False "[]"] args(2) n by (auto simp: prints_def gives_def)
  let ?d = "d\<lparr>stdout_text := stdout_text d @ s\<rparr>"
  have fuel: "\<exists>k. walk_fuel c = Suc (Suc k)" using i(2) by (cases "objects c") (auto simp: walk_fuel_def)
  then obtain k where k: "walk_fuel c = Suc (Suc k)" by blast
  have one: "dgives c d (print_args (Suc (Suc k)) n args) (\<lambda>_ d'. d' = ?d)"
  proof -
    have "dgives c ?d (bnd (in_ctx (fe_cdr args)) (print_args (Suc k) n)) (\<lambda>_ d'. d' = ?d)"
      by (rule dgives_bnd [OF dgives_ctx [OF cdr, where R = "\<lambda>x d'. x = Nil \<and> d' = ?d"]]) (auto simp: isnil_def intro!: dgives_ret)
    then have "dgives c d (sq (fe_writefp n p) (bnd (in_ctx (fe_cdr args)) (print_args (Suc k) n))) (\<lambda>_ d'. d' = ?d)"
      unfolding sq_def fe_writefp_def put_text_def
      by (intro dgives_bnd [OF dgives_bnd [OF dgives_ctx [OF wr, where R = "\<lambda>x d'. x = s \<and> d' = d"]
            dgives_on_disk [where Q = "\<lambda>_ d'. d' = ?d"]]]) auto
    then have "dgives c d (bnd (in_ctx (fe_car args)) (\<lambda>arg. sq (fe_writefp n arg) (bnd (in_ctx (fe_cdr args)) (print_args (Suc k) n)))) (\<lambda>_ d'. d' = ?d)"
      by (intro dgives_bnd [OF dgives_ctx [OF car, where R = "\<lambda>x d'. x = p \<and> d' = d"]]) auto
    then show ?thesis using i(1) by (simp add: isnil_def)
  qed
  have "gives c (gets walk_fuel) (\<lambda>x. x = Suc (Suc k))"
  proof (rule gives_pure)
    fix c1 assume "limit_ctx.more c1 = limit_ctx.more c"
    from more_fields(1) [OF this] k show "gets walk_fuel c1 = (Inr (Suc (Suc k)), c1)" by (simp add: gets_def walk_fuel_def)
  qed simp
  then have "dgives c d (builtin_print n args) (\<lambda>_ d'. d' = ?d)"
    unfolding builtin_print_def sq_def
    by (intro dgives_bnd [OF dgives_ctx [where R = "\<lambda>x d'. x = Suc (Suc k) \<and> d' = d"]])
      (auto intro!: dgives_bnd [OF one] dgives_ret simp del: print_args.simps)
  then show ?thesis unfolding builtin_println_def sq_def put_text_def
    by (rule wp_dgives [OF _ refl]) (auto simp: wp_def bnd_def on_disk_def ret_def)
qed



end
