(* ===== verification/Fex_Temp.thy ===== *)
theory Fex_Temp
  imports Fe_Prelude
begin

text \<open>
  The list of temporary allocations (\<^verbatim>\<open>fex.c\<close>, \<^verbatim>\<open>FexTempAlloc\<close> and the functions \<^verbatim>\<open>fex_temp_*\<close>), at the level of its
  pointers: a doubly linked list threaded through the blocks themselves, in a store of nodes by address. The
  functions are shown to work on any sequence of calls as the same calls on a list do, without following a
  pointer to a freed block and without leaving a block behind. The rest of the development uses the list of the sizes.
\<close>

section \<open>Nodes and their links\<close>

type_synonym addr = nat
type_synonym scope = nat

text \<open>A node at the front of a block; the scope that owns it is known by its address, \<open>None\<close> is the null pointer.\<close>

record FexTempAlloc =
  previous :: "addr option"
  next_node :: "addr option"
  owner :: "scope option"

record temps =
  temp_head :: "addr option"
  temp_nodes :: "addr \<rightharpoonup> FexTempAlloc"

text \<open>Writing to a node; \<open>None\<close> is an access through a pointer to no block.\<close>

definition set_node :: "addr \<Rightarrow> (FexTempAlloc \<Rightarrow> FexTempAlloc) \<Rightarrow> temps \<Rightarrow> temps option" where
  "set_node a f t = (case temp_nodes t a of None \<Rightarrow> None | Some n \<Rightarrow> Some (t\<lparr>temp_nodes := (temp_nodes t)(a \<mapsto> f n)\<rparr>))"

definition set_previous :: "addr option \<Rightarrow> addr option \<Rightarrow> temps \<Rightarrow> temps option" where
  "set_previous p x t = (case p of None \<Rightarrow> Some t | Some a \<Rightarrow> set_node a (\<lambda>n. n\<lparr>previous := x\<rparr>) t)"

text \<open>The pointer to a node from its predecessor or from the head of the list.\<close>

definition set_next_or_head :: "addr option \<Rightarrow> addr option \<Rightarrow> temps \<Rightarrow> temps option" where
  "set_next_or_head p x t = (case p of None \<Rightarrow> Some (t\<lparr>temp_head := x\<rparr>) | Some a \<Rightarrow> set_node a (\<lambda>n. n\<lparr>next_node := x\<rparr>) t)"

definition fex_temp_link :: "addr \<Rightarrow> temps \<Rightarrow> temps option" where
  "fex_temp_link a t =
     Option.bind (set_node a (\<lambda>n. n\<lparr>previous := None, next_node := temp_head t\<rparr>) t) (\<lambda>t.
     Option.bind (set_previous (temp_head t) (Some a) t) (\<lambda>t.
     Some (t\<lparr>temp_head := Some a\<rparr>)))"

text \<open>The test for a null pointer of \<^verbatim>\<open>fex_temp_unlink\<close> is left out: its callers have made it.\<close>

definition fex_temp_unlink :: "addr \<Rightarrow> temps \<Rightarrow> temps option" where
  "fex_temp_unlink a t =
     Option.bind (temp_nodes t a) (\<lambda>n.
     Option.bind (set_next_or_head (previous n) (next_node n) t) (\<lambda>t.
     Option.bind (set_previous (next_node n) (previous n) t) (\<lambda>t.
     set_node a (\<lambda>n. n\<lparr>previous := None, next_node := None, owner := None\<rparr>) t)))"

definition tracked_free_node :: "addr \<Rightarrow> temps \<Rightarrow> temps option" where
  "tracked_free_node a t = (case temp_nodes t a of None \<Rightarrow> None | Some _ \<Rightarrow> Some (t\<lparr>temp_nodes := (temp_nodes t)(a := None)\<rparr>))"

text \<open>The block that the allocator returns is a parameter; its fields are not set yet.\<close>

definition fex_temp_alloc_node :: "scope option \<Rightarrow> addr \<Rightarrow> FexTempAlloc \<Rightarrow> temps \<Rightarrow> temps option" where
  "fex_temp_alloc_node try_scope a garbage t =
     fex_temp_link a (t\<lparr>temp_nodes := (temp_nodes t)(a \<mapsto> garbage\<lparr>owner := try_scope\<rparr>)\<rparr>)"

definition unlink_and_free :: "addr \<Rightarrow> temps \<Rightarrow> temps option" where
  "unlink_and_free a t = Option.bind (fex_temp_unlink a t) (tracked_free_node a)"

definition fex_temp_free_node :: "addr option \<Rightarrow> temps \<Rightarrow> temps option" where
  "fex_temp_free_node p t = (case p of None \<Rightarrow> Some t | Some a \<Rightarrow> unlink_and_free a t)"

text \<open>\<^verbatim>\<open>realloc\<close> moves the contents to the block it returns, which may be the old one.\<close>

definition move_block :: "addr \<Rightarrow> addr \<Rightarrow> temps \<Rightarrow> temps option" where
  "move_block a grown t =
     Option.bind (temp_nodes t a) (\<lambda>n. let t = t\<lparr>temp_nodes := (temp_nodes t)(a := None, grown \<mapsto> n)\<rparr> in
     Option.bind (set_next_or_head (previous n) (Some grown) t) (\<lambda>t.
     Option.bind (set_previous (next_node n) (Some grown) t)
     (set_node grown (\<lambda>m. m\<lparr>owner := owner n\<rparr>))))"

definition fex_temp_realloc_node :: "scope option \<Rightarrow> addr option \<Rightarrow> addr \<Rightarrow> FexTempAlloc \<Rightarrow> temps \<Rightarrow> temps option" where
  "fex_temp_realloc_node try_scope p grown garbage t =
     (case p of None \<Rightarrow> fex_temp_alloc_node try_scope grown garbage t | Some a \<Rightarrow> move_block a grown t)"

text \<open>The loops over the list end after as many turns as there are nodes; a fuel bounds them.\<close>

fun free_scope_loop :: "nat \<Rightarrow> scope \<Rightarrow> addr option \<Rightarrow> temps \<Rightarrow> temps option" where
  "free_scope_loop k scope None t = Some t"
| "free_scope_loop 0 scope (Some a) t = None"
| "free_scope_loop (Suc k) scope (Some a) t =
     Option.bind (temp_nodes t a) (\<lambda>n.
     Option.bind (if owner n = Some scope then unlink_and_free a t else Some t) (free_scope_loop k scope (next_node n)))"

definition fex_try_scope_free_temps :: "nat \<Rightarrow> scope option \<Rightarrow> temps \<Rightarrow> temps option" where
  "fex_try_scope_free_temps k scope t =
     (case scope of None \<Rightarrow> Some t | Some s \<Rightarrow> free_scope_loop k s (temp_head t) t)"

fun cleanup_loop :: "nat \<Rightarrow> addr option \<Rightarrow> temps \<Rightarrow> temps option" where
  "cleanup_loop k None t = Some t"
| "cleanup_loop 0 (Some a) t = None"
| "cleanup_loop (Suc k) (Some a) t =
     Option.bind (temp_nodes t a) (\<lambda>n. Option.bind (tracked_free_node a t) (cleanup_loop k (next_node n)))"

definition fex_temp_cleanup_nodes :: "nat \<Rightarrow> temps \<Rightarrow> temps option" where
  "fex_temp_cleanup_nodes k t = Option.bind (cleanup_loop k (temp_head t) t) (\<lambda>t. Some (t\<lparr>temp_head := None\<rparr>))"

section \<open>Segments of the list\<close>

text \<open>
  \<open>seg s p h xs l n\<close>: from the pointer \<open>h\<close> on the store has the nodes of \<open>xs\<close> linked in both directions, with \<open>p\<close> in front
  of the first, \<open>l\<close> the last one (or \<open>p\<close>) and \<open>n\<close> behind it.
\<close>

fun seg :: "(addr \<rightharpoonup> FexTempAlloc) \<Rightarrow> addr option \<Rightarrow> addr option \<Rightarrow> (addr \<times> scope option) list \<Rightarrow> addr option \<Rightarrow> addr option \<Rightarrow> bool" where
  "seg s p h [] l n \<longleftrightarrow> p = l \<and> h = n"
| "seg s p h ((a, w) # xs) l n \<longleftrightarrow> h = Some a \<and> (\<exists>d. s a = Some d \<and> previous d = p \<and> owner d = w \<and> seg s (Some a) (next_node d) xs l n)"

definition temp_list :: "temps \<Rightarrow> (addr \<times> scope option) list \<Rightarrow> bool" where
  "temp_list t xs \<longleftrightarrow> (\<exists>l. seg (temp_nodes t) None (temp_head t) xs l None) \<and> distinct (map fst xs) \<and> dom (temp_nodes t) = fst ` set xs"

lemma seg_append: "seg s p h (xs @ ys) l n \<longleftrightarrow> (\<exists>q m. seg s p h xs q m \<and> seg s q m ys l n)"
  by (induction s p h xs l n rule: seg.induct) auto

lemma seg_cong: "(\<And>a. a \<in> fst ` set xs \<Longrightarrow> s' a = s a) \<Longrightarrow> seg s' p h xs l n = seg s p h xs l n"
  by (induction s p h xs l n rule: seg.induct) auto

lemma seg_other [simp]: "a \<notin> fst ` set xs \<Longrightarrow> seg (s(a := x)) p h xs l n = seg s p h xs l n"
  by (rule seg_cong) auto

lemma seg_last: "seg s p h xs l n \<Longrightarrow> xs \<noteq> [] \<Longrightarrow> l = Some (fst (List.last xs)) \<and> s (fst (List.last xs)) \<noteq> None"
  by (induction s p h xs l n rule: seg.induct) (auto split: if_splits)

text \<open>What the two kinds of assignment do to a segment that ends, or begins, at the node they write.\<close>

lemma seg_set_next:
  assumes "seg s p h xs l n" "xs \<noteq> []" "distinct (map fst xs)"
  shows "seg (s(fst (List.last xs) \<mapsto> (the (s (fst (List.last xs))))\<lparr>next_node := n'\<rparr>)) p h xs l n'"
  using assms
proof (induction s p h xs l n rule: seg.induct)
  case (2 s p h a w xs l n)
  show ?case
  proof (cases "xs = []")
    case False
    then have "fst (List.last xs) \<in> fst ` set xs" by simp
    with 2(4) have "fst (List.last xs) \<noteq> a" by auto
    with 2 False show ?thesis by auto
  qed (use 2 in auto)
qed simp

lemma seg_set_prev:
  assumes "seg s p (Some a) ((a, w) # xs) l n" "a \<notin> fst ` set xs"
  shows "seg (s(a \<mapsto> (the (s a))\<lparr>previous := p'\<rparr>)) p' (Some a) ((a, w) # xs) l n"
  using assms by auto

lemma set_next_ok:
  assumes "seg (temp_nodes t) None (temp_head t) ys q m" "distinct (map fst ys)"
  obtains t1 where "set_next_or_head q x t = Some t1" "seg (temp_nodes t1) None (temp_head t1) ys q x"
    "dom (temp_nodes t1) = dom (temp_nodes t)" "\<And>b. b \<notin> fst ` set ys \<Longrightarrow> temp_nodes t1 b = temp_nodes t b"
proof (cases "ys = []")
  case True
  with assms(1) have "q = None" by simp
  with True that [of "t\<lparr>temp_head := x\<rparr>"] show ?thesis by (simp add: set_next_or_head_def)
next
  case False
  let ?b = "fst (List.last ys)"
  from seg_last [OF assms(1) False] obtain n where n: "q = Some ?b" "temp_nodes t ?b = Some n" by auto
  have b: "?b \<in> fst ` set ys" using False by simp
  let ?t1 = "t\<lparr>temp_nodes := (temp_nodes t)(?b \<mapsto> n\<lparr>next_node := x\<rparr>)\<rparr>"
  show ?thesis
  proof (rule that [of ?t1])
    show "seg (temp_nodes ?t1) None (temp_head ?t1) ys q x" using seg_set_next [OF assms(1) False assms(2), of x] n by simp
  qed (use n b in \<open>auto simp: set_next_or_head_def set_node_def\<close>)
qed

lemma set_previous_ok:
  assumes "seg (temp_nodes t) r n zs l None" "distinct (map fst zs)"
  obtains t1 l' where "set_previous n x t = Some t1" "seg (temp_nodes t1) x n zs l' None" "temp_head t1 = temp_head t"
    "dom (temp_nodes t1) = dom (temp_nodes t)" "\<And>b. b \<notin> fst ` set zs \<Longrightarrow> temp_nodes t1 b = temp_nodes t b"
proof (cases zs)
  case Nil
  with assms(1) that [of t x] show ?thesis by (simp add: set_previous_def)
next
  case (Cons z zs')
  obtain a w where z: "z = (a, w)" by fastforce
  with assms(1) Cons have n: "n = Some a" "seg (temp_nodes t) r (Some a) ((a, w) # zs') l None" by auto
  then obtain d where d: "temp_nodes t a = Some d" by auto
  have "a \<notin> fst ` set zs'" using assms(2) Cons z by (simp add: image_image)
  from seg_set_prev [OF n(2) this, of x] d n(1) Cons z
    that [of "t\<lparr>temp_nodes := (temp_nodes t)(a \<mapsto> d\<lparr>previous := x\<rparr>)\<rparr>" l] show ?thesis
    by (auto simp: set_previous_def set_node_def)
qed

text \<open>The two assignments that replace whatever is between two segments.\<close>

lemma relink:
  assumes "seg (temp_nodes t) None (temp_head t) ys q m" "seg (temp_nodes t) r n zs l None" "distinct (map fst (ys @ zs))"
  obtains t2 l' where "Option.bind (set_next_or_head q x t) (set_previous n y) = Some t2"
    "seg (temp_nodes t2) None (temp_head t2) ys q x" "seg (temp_nodes t2) y n zs l' None"
    "dom (temp_nodes t2) = dom (temp_nodes t)" "\<And>b. b \<notin> fst ` set (ys @ zs) \<Longrightarrow> temp_nodes t2 b = temp_nodes t b"
proof -
  have d: "distinct (map fst ys)" "distinct (map fst zs)" "fst ` set ys \<inter> fst ` set zs = {}" using assms(3) by auto
  obtain t1 where t1: "set_next_or_head q x t = Some t1" "seg (temp_nodes t1) None (temp_head t1) ys q x"
    "dom (temp_nodes t1) = dom (temp_nodes t)" "\<And>b. b \<notin> fst ` set ys \<Longrightarrow> temp_nodes t1 b = temp_nodes t b"
    using set_next_ok [OF assms(1) d(1)] by metis
  have "seg (temp_nodes t1) r n zs l None"
    using assms(2) seg_cong [of zs "temp_nodes t1" "temp_nodes t"] t1(4) d(3) by blast
  from set_previous_ok [OF this d(2)] obtain t2 l' where t2: "set_previous n y t1 = Some t2" "seg (temp_nodes t2) y n zs l' None"
    "temp_head t2 = temp_head t1" "dom (temp_nodes t2) = dom (temp_nodes t1)" "\<And>b. b \<notin> fst ` set zs \<Longrightarrow> temp_nodes t2 b = temp_nodes t1 b"
    by metis
  have "seg (temp_nodes t2) None (temp_head t2) ys q x"
    using t1(2) t2(3) seg_cong [of ys "temp_nodes t2" "temp_nodes t1"] t2(5) d(3) by fastforce
  moreover have "temp_nodes t2 b = temp_nodes t b" if "b \<notin> fst ` set (ys @ zs)" for b
    using t1(4) t2(5) that by (simp add: image_Un)
  ultimately show ?thesis using that [of t2 l'] t1 t2 by simp
qed

section \<open>The operations on the list\<close>

lemma temp_list_split:
  assumes "temp_list t xs" "(a, w) \<in> set xs"
  obtains ys zs q n l where "xs = ys @ (a, w) # zs" "seg (temp_nodes t) None (temp_head t) ys q (Some a)"
    "temp_nodes t a = Some n" "previous n = q" "owner n = w" "seg (temp_nodes t) (Some a) (next_node n) zs l None"
    "distinct (map fst (ys @ (a, w) # zs))" "dom (temp_nodes t) = fst ` set xs"
proof -
  from split_list [OF assms(2)] obtain ys zs where xs: "xs = ys @ (a, w) # zs" by blast
  with assms(1) obtain l where "seg (temp_nodes t) None (temp_head t) (ys @ (a, w) # zs) l None" by (auto simp: temp_list_def)
  then obtain q m where "seg (temp_nodes t) None (temp_head t) ys q m" "seg (temp_nodes t) q m ((a, w) # zs) l None"
    unfolding seg_append by blast
  with that [of ys zs q _ l] xs assms(1) show ?thesis by (auto simp: temp_list_def)
qed

lemma alloc_node:
  assumes "temp_list t xs" "a \<notin> fst ` set xs"
  shows "\<exists>t'. fex_temp_alloc_node w a g t = Some t' \<and> temp_list t' ((a, w) # xs)"
proof -
  let ?t = "t\<lparr>temp_nodes := (temp_nodes t)(a \<mapsto> g\<lparr>owner := w, previous := None, next_node := temp_head t\<rparr>)\<rparr>"
  from assms obtain l where l: "seg (temp_nodes ?t) None (temp_head t) xs l None" "distinct (map fst xs)" by (auto simp: temp_list_def)
  from set_previous_ok [OF this, where x = "Some a"] obtain t1 l' where t1: "set_previous (temp_head t) (Some a) ?t = Some t1"
    "seg (temp_nodes t1) (Some a) (temp_head t) xs l' None" "dom (temp_nodes t1) = dom (temp_nodes ?t)"
    "\<And>b. b \<notin> fst ` set xs \<Longrightarrow> temp_nodes t1 b = temp_nodes ?t b" by metis
  then have "fex_temp_alloc_node w a g t = Some (t1\<lparr>temp_head := Some a\<rparr>)"
    by (simp add: fex_temp_alloc_node_def fex_temp_link_def set_node_def)
  moreover have "temp_list (t1\<lparr>temp_head := Some a\<rparr>) ((a, w) # xs)"
    using t1 assms by (auto simp: temp_list_def)
  ultimately show ?thesis by blast
qed

lemma filter_other: "distinct (map fst (ys @ (a, w) # zs)) \<Longrightarrow> filter (\<lambda>x. fst x \<noteq> a) (ys @ (a, w) # zs) = ys @ zs"
proof -
  assume "distinct (map fst (ys @ (a, w) # zs))"
  then have "filter (\<lambda>x. fst x \<noteq> a) ys = ys" "filter (\<lambda>x. fst x \<noteq> a) zs = zs" by (auto simp: filter_id_conv)
  then show ?thesis by simp
qed

lemma free_node:
  assumes "temp_list t xs" "(a, w) \<in> set xs"
  shows "\<exists>t'. unlink_and_free a t = Some t' \<and> temp_list t' (filter (\<lambda>x. fst x \<noteq> a) xs)"
proof -
  from assms obtain ys zs q n l where xs: "xs = ys @ (a, w) # zs" and ys: "seg (temp_nodes t) None (temp_head t) ys q (Some a)"
    and n: "temp_nodes t a = Some n" "previous n = q" and zs: "seg (temp_nodes t) (Some a) (next_node n) zs l None"
    and d: "distinct (map fst (ys @ (a, w) # zs))" "dom (temp_nodes t) = fst ` set xs" by (rule temp_list_split)
  have "distinct (map fst (ys @ zs))" using d(1) by auto
  from relink [OF ys zs this, where x = "next_node n" and y = q] obtain t2 l' where
    t2: "Option.bind (set_next_or_head q (next_node n) t) (set_previous (next_node n) q) = Some t2"
      "seg (temp_nodes t2) None (temp_head t2) ys q (next_node n)" "seg (temp_nodes t2) q (next_node n) zs l' None"
      "dom (temp_nodes t2) = dom (temp_nodes t)" by metis
  have a: "a \<notin> fst ` set ys" "a \<notin> fst ` set zs" using d(1) by auto
  from n(1) t2(4) obtain m where m: "temp_nodes t2 a = Some m" by (metis domD domI)
  let ?t = "t2\<lparr>temp_nodes := (temp_nodes t2)(a := None)\<rparr>"
  have "unlink_and_free a t = Some ?t"
    using t2(1) n m by (auto simp: unlink_and_free_def fex_temp_unlink_def set_node_def tracked_free_node_def bind_eq_Some_conv)
  moreover have "temp_list ?t (ys @ zs)"
    using t2 a d by (auto simp: temp_list_def seg_append xs)
  ultimately show ?thesis using filter_other [OF d(1)] xs by auto
qed

definition move_node :: "addr \<Rightarrow> addr \<Rightarrow> addr \<times> scope option \<Rightarrow> addr \<times> scope option" where
  "move_node a g x = (if fst x = a then (g, snd x) else x)"

lemma realloc_node:
  assumes "temp_list t xs" "(a, w) \<in> set xs" "g = a \<or> g \<notin> fst ` set xs"
  shows "\<exists>t'. move_block a g t = Some t' \<and> temp_list t' (map (move_node a g) xs)"
proof -
  from assms(1,2) obtain ys zs q n l where xs: "xs = ys @ (a, w) # zs" and ys: "seg (temp_nodes t) None (temp_head t) ys q (Some a)"
    and n: "temp_nodes t a = Some n" "previous n = q" "owner n = w" and zs: "seg (temp_nodes t) (Some a) (next_node n) zs l None"
    and d: "distinct (map fst (ys @ (a, w) # zs))" "dom (temp_nodes t) = fst ` set xs" by (rule temp_list_split)
  let ?t = "t\<lparr>temp_nodes := (temp_nodes t)(a := None, g \<mapsto> n)\<rparr>"
  have a: "a \<notin> fst ` set ys" "a \<notin> fst ` set zs" "g \<notin> fst ` set ys" "g \<notin> fst ` set zs" using d(1) assms(3) xs by auto
  have "distinct (map fst (ys @ zs))" "seg (temp_nodes ?t) None (temp_head ?t) ys q (Some a)" "seg (temp_nodes ?t) (Some a) (next_node n) zs l None"
    using d(1) ys zs a by auto
  from relink [OF this(2,3,1), where x = "Some g" and y = "Some g"] obtain t2 l' where
    t2: "Option.bind (set_next_or_head q (Some g) ?t) (set_previous (next_node n) (Some g)) = Some t2"
      "seg (temp_nodes t2) None (temp_head t2) ys q (Some g)" "seg (temp_nodes t2) (Some g) (next_node n) zs l' None"
      "dom (temp_nodes t2) = dom (temp_nodes ?t)" "\<And>b. b \<notin> fst ` set (ys @ zs) \<Longrightarrow> temp_nodes t2 b = temp_nodes ?t b" by metis
  have g: "temp_nodes t2 g = Some n" using t2(5) [of g] a by (simp add: image_Un)
  let ?t' = "t2\<lparr>temp_nodes := (temp_nodes t2)(g \<mapsto> n\<lparr>owner := owner n\<rparr>)\<rparr>"
  have "move_block a g t = Some ?t'"
    using t2(1) n g by (auto simp: move_block_def set_node_def Let_def bind_eq_Some_conv)
  moreover have "map (move_node a g) xs = ys @ (g, w) # zs"
    using a(1,2) xs by (auto simp: move_node_def map_idI image_iff intro!: map_idI)
  moreover have "temp_list ?t' (ys @ (g, w) # zs)"
    using t2 a d n by (auto simp: temp_list_def seg_append xs)
  ultimately show ?thesis by auto
qed

definition first :: "(addr \<times> scope option) list \<Rightarrow> addr option" where
  "first xs = (case xs of [] \<Rightarrow> None | x # _ \<Rightarrow> Some (fst x))"

lemma seg_first: "seg s p h xs l None \<Longrightarrow> h = first xs"
  by (cases xs) (auto simp: first_def)

lemma free_scope_nodes:
  assumes "temp_list t (ys @ zs)" "length zs \<le> k"
  shows "\<exists>t'. free_scope_loop k sc (first zs) t = Some t' \<and> temp_list t' (ys @ filter (\<lambda>x. snd x \<noteq> Some sc) zs)"
  using assms
proof (induction zs arbitrary: k t ys)
  case (Cons z zs)
  obtain a w where z: "z = (a, w)" by fastforce
  from Cons.prems(2) obtain k' where k: "k = Suc k'" "length zs \<le> k'" by (cases k) auto
  from Cons.prems(1) z obtain n where n: "temp_nodes t a = Some n" "owner n = w" "next_node n = first zs"
    by (auto simp: temp_list_def seg_append dest!: seg_first)
  show ?case
  proof (cases "w = Some sc")
    case True
    have "distinct (map fst (ys @ (a, w) # zs))" using Cons.prems(1) z by (simp add: temp_list_def)
    with free_node [OF Cons.prems(1), of a w] z obtain t1 where t1: "unlink_and_free a t = Some t1" "temp_list t1 (ys @ zs)"
      by (metis filter_other in_set_conv_decomp)
    from Cons.IH [OF t1(2) k(2)] t1(1) n True z k(1) show ?thesis by (auto simp: first_def [of "_ # _"])
  next
    case False
    have "temp_list t ((ys @ [z]) @ zs)" using Cons.prems(1) by simp
    from Cons.IH [OF this k(2)] n False z k(1) show ?thesis by (auto simp: first_def [of "_ # _"])
  qed
qed (simp add: first_def)

lemma cleanup_nodes:
  assumes "seg (temp_nodes t) p h zs l None" "distinct (map fst zs)" "dom (temp_nodes t) = fst ` set zs" "length zs \<le> k"
  shows "\<exists>t'. cleanup_loop k h t = Some t' \<and> temp_nodes t' = Map.empty"
  using assms
proof (induction zs arbitrary: k t p h)
  case (Cons z zs)
  obtain a w where z: "z = (a, w)" by fastforce
  from Cons.prems(4) obtain k' where k: "k = Suc k'" "length zs \<le> k'" by (cases k) auto
  from Cons.prems(1) z obtain n where n: "h = Some a" "temp_nodes t a = Some n" "seg (temp_nodes t) (Some a) (next_node n) zs l None" by auto
  let ?t = "t\<lparr>temp_nodes := (temp_nodes t)(a := None)\<rparr>"
  have "seg (temp_nodes ?t) (Some a) (next_node n) zs l None" "distinct (map fst zs)" "dom (temp_nodes ?t) = fst ` set zs"
    using Cons.prems(2,3) n(3) z by auto
  from Cons.IH [OF this k(2)] n k(1) show ?case by (auto simp: tracked_free_node_def)
qed simp

section \<open>Refinement\<close>

text \<open>
  The calls of the program, with the addresses the allocator answers; \<^verbatim>\<open>fex_try_scope_free_temps\<close> and \<^verbatim>\<open>fex_temp_cleanup_all\<close>
  get a fuel.
\<close>

datatype temp_call =
    TempAlloc "scope option" addr FexTempAlloc
  | TempRealloc "scope option" "addr option" addr FexTempAlloc
  | TempFree "addr option"
  | TempFreeScope nat "scope option"
  | TempCleanup nat

fun run_call :: "temp_call \<Rightarrow> temps \<Rightarrow> temps option" where
  "run_call (TempAlloc w a g) t = fex_temp_alloc_node w a g t"
| "run_call (TempRealloc w p a g) t = fex_temp_realloc_node w p a g t"
| "run_call (TempFree p) t = fex_temp_free_node p t"
| "run_call (TempFreeScope k w) t = fex_try_scope_free_temps k w t"
| "run_call (TempCleanup k) t = fex_temp_cleanup_nodes k t"

text \<open>The same calls on a list of blocks with their owners.\<close>

fun list_call :: "temp_call \<Rightarrow> (addr \<times> scope option) list \<Rightarrow> (addr \<times> scope option) list" where
  "list_call (TempAlloc w a g) xs = (a, w) # xs"
| "list_call (TempRealloc w p a g) xs = (case p of None \<Rightarrow> (a, w) # xs | Some b \<Rightarrow> map (move_node b a) xs)"
| "list_call (TempFree p) xs = (case p of None \<Rightarrow> xs | Some a \<Rightarrow> filter (\<lambda>x. fst x \<noteq> a) xs)"
| "list_call (TempFreeScope k w) xs = (case w of None \<Rightarrow> xs | Some s \<Rightarrow> filter (\<lambda>x. snd x \<noteq> Some s) xs)"
| "list_call (TempCleanup k) xs = []"

text \<open>
  What the callers and the allocator guarantee: a new block is at an address that is not in use, and only blocks in
  use are freed and grown; the fuel is at least the number of blocks.
\<close>

fun call_ok :: "temp_call \<Rightarrow> (addr \<times> scope option) list \<Rightarrow> bool" where
  "call_ok (TempAlloc w a g) xs = (a \<notin> fst ` set xs)"
| "call_ok (TempRealloc w p a g) xs =
     (case p of None \<Rightarrow> a \<notin> fst ` set xs | Some b \<Rightarrow> b \<in> fst ` set xs \<and> (a = b \<or> a \<notin> fst ` set xs))"
| "call_ok (TempFree p) xs = (case p of None \<Rightarrow> True | Some a \<Rightarrow> a \<in> fst ` set xs)"
| "call_ok (TempFreeScope k w) xs = (length xs \<le> k)"
| "call_ok (TempCleanup k) xs = (length xs \<le> k)"

lemma temp_call_refines:
  assumes "temp_list t xs" "call_ok f xs"
  shows "\<exists>t'. run_call f t = Some t' \<and> temp_list t' (list_call f xs)"
proof (cases f)
  case (TempAlloc w a g)
  with alloc_node [OF assms(1), of a w g] assms(2) show ?thesis by simp
next
  case (TempRealloc w p a g)
  show ?thesis
  proof (cases p)
    case None
    with TempRealloc alloc_node [OF assms(1), of a w g] assms(2) show ?thesis by (simp add: fex_temp_realloc_node_def)
  next
    case (Some b)
    with TempRealloc assms(2) obtain w' where "(b, w') \<in> set xs" "a = b \<or> a \<notin> fst ` set xs" by auto
    from realloc_node [OF assms(1) this] TempRealloc Some show ?thesis by (simp add: fex_temp_realloc_node_def)
  qed
next
  case (TempFree p)
  show ?thesis
  proof (cases p)
    case (Some a)
    with TempFree assms(2) obtain w where "(a, w) \<in> set xs" by auto
    from free_node [OF assms(1) this] TempFree Some show ?thesis by (simp add: fex_temp_free_node_def)
  qed (use TempFree assms(1) in \<open>simp add: fex_temp_free_node_def\<close>)
next
  case (TempFreeScope k w)
  have "temp_head t = first xs" using assms(1) seg_first by (auto simp: temp_list_def)
  with free_scope_nodes [of t "[]" xs k] assms TempFreeScope show ?thesis by (cases w) (auto simp: fex_try_scope_free_temps_def)
next
  case (TempCleanup k)
  with assms obtain l where "seg (temp_nodes t) None (temp_head t) xs l None" "distinct (map fst xs)" "dom (temp_nodes t) = fst ` set xs" "length xs \<le> k"
    by (auto simp: temp_list_def)
  from cleanup_nodes [OF this] TempCleanup show ?thesis by (auto simp: fex_temp_cleanup_nodes_def temp_list_def)
qed

text \<open>Sequences of calls that may fail, and of the same calls on what the states stand for.\<close>

primrec run_steps :: "('f \<Rightarrow> 's \<Rightarrow> 's option) \<Rightarrow> 'f list \<Rightarrow> 's \<Rightarrow> 's option" where
  "run_steps step [] t = Some t"
| "run_steps step (f # fs) t = Option.bind (step f t) (run_steps step fs)"

primrec spec_steps :: "('f \<Rightarrow> 'a \<Rightarrow> 'a) \<Rightarrow> 'f list \<Rightarrow> 'a \<Rightarrow> 'a" where
  "spec_steps spec [] x = x"
| "spec_steps spec (f # fs) x = spec_steps spec fs (spec f x)"

primrec steps_ok :: "('f \<Rightarrow> 'a \<Rightarrow> 'a) \<Rightarrow> ('f \<Rightarrow> 'a \<Rightarrow> bool) \<Rightarrow> 'f list \<Rightarrow> 'a \<Rightarrow> bool" where
  "steps_ok spec ok [] x = True"
| "steps_ok spec ok (f # fs) x = (ok f x \<and> steps_ok spec ok fs (spec f x))"

text \<open>What an implementation promises for one call carries over to sequences.\<close>

locale step_refinement =
  fixes abs :: "'s \<Rightarrow> 'a \<Rightarrow> bool" and step :: "'f \<Rightarrow> 's \<Rightarrow> 's option" and spec :: "'f \<Rightarrow> 'a \<Rightarrow> 'a" and ok :: "'f \<Rightarrow> 'a \<Rightarrow> bool"
  assumes refines: "abs t x \<Longrightarrow> ok f x \<Longrightarrow> \<exists>t'. step f t = Some t' \<and> abs t' (spec f x)"
begin

lemma steps_refine: "abs t x \<Longrightarrow> steps_ok spec ok fs x \<Longrightarrow> \<exists>t'. run_steps step fs t = Some t' \<and> abs t' (spec_steps spec fs x)"
proof (induction fs arbitrary: t x)
  case (Cons f fs)
  from Cons.prems refines [of t x f] obtain t1 where "step f t = Some t1" "abs t1 (spec f x)" by auto
  with Cons.IH [of t1 "spec f x"] Cons.prems show ?case by auto
qed simp

end

interpretation temp_steps: step_refinement temp_list run_call list_call call_ok
  by unfold_locales (rule temp_call_refines)

text \<open>
  C39. The doubly linked list of temporary allocations implements a list: any sequence of allocations, reallocations that may move
  a block, frees, releases of the blocks of a try scope and complete clean-ups runs without following a
  dangling pointer, ends with the links of the list that the same calls on a list of blocks give, in their order and with
  their owners, and the blocks that exist are exactly those of that list, so none is lost.
\<close>

theorem temp_list_refines:
  assumes "temp_list t xs" and "steps_ok list_call call_ok fs xs"
  shows "\<exists>t'. run_steps run_call fs t = Some t' \<and> temp_list t' (spec_steps list_call fs xs)"
  using assms by (rule temp_steps.steps_refine)

theorem temp_list_refines_witness:
  "\<exists>t'. run_steps run_call [TempAlloc None 1 \<lparr>previous = None, next_node = None, owner = None\<rparr>,
       TempAlloc (Some 7) 2 \<lparr>previous = None, next_node = None, owner = None\<rparr>,
       TempAlloc None 3 \<lparr>previous = None, next_node = None, owner = None\<rparr>,
       TempRealloc None (Some 1) 9 \<lparr>previous = None, next_node = None, owner = None\<rparr>, TempFreeScope 3 (Some 7), TempFree (Some 3)]
       \<lparr>temp_head = None, temp_nodes = Map.empty\<rparr> = Some t' \<and>
     temp_list t' [(9, None)]"
proof -
  let ?g = "\<lparr>previous = None, next_node = None, owner = None\<rparr>"
  let ?fs = "[TempAlloc None 1 ?g, TempAlloc (Some 7) 2 ?g, TempAlloc None 3 ?g, TempRealloc None (Some 1) 9 ?g, TempFreeScope 3 (Some 7), TempFree (Some 3)]"
  have "temp_list \<lparr>temp_head = None, temp_nodes = Map.empty\<rparr> []" by (simp add: temp_list_def)
  moreover have "steps_ok list_call call_ok ?fs []" "spec_steps list_call ?fs [] = [(9, None)]" by (simp_all add: move_node_def)
  ultimately show ?thesis using temp_list_refines [of "\<lparr>temp_head = None, temp_nodes = Map.empty\<rparr>" "[]" ?fs] by simp
qed

end
