(* ===== verification/Spec2Isabelle.thy ===== *)
theory Spec2Isabelle
  imports Fex_Termination Fex_Main Fex_Process Fex_Console Fex_Temp
begin

text \<open>
  A verification development for FeX, an embeddable scripting language. The repository has a runtime, Fe
  (\<^verbatim>\<open>src/src/fe.c\<close>), which owns a heap of tagged cells, a mark and sweep collector, a reader, a writer and an evaluator for
  code that is made of lists; a front end, FeX (\<^verbatim>\<open>src/src/fex.c\<close>, \<^verbatim>\<open>fex_span.c\<close>), which compiles a C-like syntax to such
  lists and contains errors in try scopes; a library of functions (\<^verbatim>\<open>src/src/fex_builtins.c\<close>, with the random generator
  \<^verbatim>\<open>sfc32.c\<close>); and a command line program (\<^verbatim>\<open>src/src/main.c\<close>). This theory imports the theories that model them.

  \<^bold>\<open>How the parts interact.\<close>
  The program opens a context in a block of memory (\<^verbatim>\<open>fe_open\<close>), registers the functions of the chosen categories
  (\<^verbatim>\<open>fex_init_with_builtins\<close>), sets limits and runs a source in a try scope. The compiler builds code in the heap of the
  runtime and records source positions in the span table; the evaluator runs it, calls registered C functions and imports
  modules, which compiles and runs further files. Everything that allocates may trigger a collection, whose roots are
  the root stack, the symbols and the fields of the context; everything that loops polls for an interrupt, a timeout and
  the step budget. An error jumps to the innermost try scope, after the runtime has reset its control state.

  \<^bold>\<open>The language of the model.\<close>
  \<open>Fe_Prelude\<close> has the computations with state and errors (\<open>ret\<close>, \<open>bnd\<close>, \<open>throw\<close>), a weakest precondition \<open>wp\<close> with its rules in
  \<open>wp_simps\<close>, and the locale \<open>state_order\<close> of relations between states that every step of a computation respects, with
  what is proved once of all of them. The error type \<open>fe_err\<close> (\<open>Fe_Limits\<close>) has the errors of the program (\<open>FeError\<close> with the
  message and the call list, \<open>Raised\<close> in a try scope) and two that are not: \<open>Crash\<close> for undefined behaviour of C, such as the use of a
  field of a union that was not written last, and \<open>OutOfFuel\<close>. A theorem that allows only errors of the program thereby says that
  there is no undefined behaviour and that the fuel suffices. Machine integers are words; \<open>Fe_Number\<close> has the doubles as
  rationals with infinities, NaN and the negative zero, rounded to nearest even; \<open>C_Lib\<close> has what is used of ctype, printf and strtod.

  \<^bold>\<open>The runtime (\<^verbatim>\<open>fe.c\<close>, \<^verbatim>\<open>fe.h\<close>, \<^verbatim>\<open>fe_fixnum.h\<close>), in the build with string slabs.\<close>
  \<^item> \<open>Fe_Tag\<close>: object pointers as words, fixnums and booleans in their tag bits. The words of distinct objects differ.
  \<^item> \<open>Fe_Mem\<close>: the tracked allocator; \<^verbatim>\<open>malloc\<close> is an oracle of the environment. The counter is exact and the limit holds.
  \<^item> \<open>Fe_Limits\<close>, \<open>Fex_Error\<close>: step budget, timeout, interrupts, depths, the error exit and the error record.
  \<^item> \<open>Fe_Heap\<close>: cells with their two union fields, slabs, maps, the context \<open>fe_Context\<close> as a record that extends those of
    the allocator and the limits, accessors, type checks, variable lookup (\<^verbatim>\<open>getbound\<close>).
  \<^item> \<open>Fe_Slab\<close>, \<open>Fe_Span\<close>: strings as chains of slabs; the table of source positions.
  \<^item> \<open>Fe_Mark\<close>, \<open>Fe_GC\<close>: \<^verbatim>\<open>fe_mark\<close> as a partial function that is shown to be total and to mark the reachable cells, the sweep,
    the roots, \<^verbatim>\<open>collectgarbage\<close>; \<open>heap_inv\<close> is the invariant of the heap, \<open>kept c i\<close> that cell \<open>i\<close> is reachable.
  \<^item> \<open>Fe_Alloc\<close>: taking a cell or slabs, with the collection this may start, and the constructors, which keep \<open>heap_inv\<close>
    and everything reachable. The interpretation \<open>evo_order\<close> of \<open>state_order\<close> carries this through computations.
  \<^item> \<open>Fe_Map\<close>: hash maps with open addressing and tombstones. The locale \<open>op_refinement\<close> says what a single operation must do for a
    sequence of operations to refine a specification; it is interpreted on the map operations and finite maps.
  \<^item> \<open>Fe_Symbol\<close>: symbols, global values, primitives, \<^verbatim>\<open>fe_open\<close>. \<open>Fe_Path\<close>: module cache, paths, the search for modules.
  \<^item> \<open>Fe_Write\<close>, \<open>Fe_Read\<close>: the writer against a printing function on symbolic expressions; the reader, which ends.
  \<^item> \<open>Fe_Eval\<close>, \<open>Fe_Frame\<close>, \<open>Fe_Nest\<close>: the evaluator with every primitive; what it leaves alone; a relation between runs with
    different fuels that gives the bound on its nesting, the restored control state and that fuel does not change results.

  \<^bold>\<open>The front end (\<^verbatim>\<open>fex.c\<close>, \<^verbatim>\<open>fex.h\<close>).\<close>
  \<^item> \<open>Fex_Lexer\<close>: the scanner; the tokens partition the source. \<open>Fex_Parser\<close>: the Pratt parser and the compiler, production by
    production. \<open>Fex_Termination\<close>: it ends, with as much fuel as the source has characters.
  \<^item> \<open>Fex_Temp\<close>: the doubly linked list of temporary allocations in a store of nodes by address; with the locale \<open>step_refinement\<close>
    it is shown to implement a list. The other theories have the list of sizes that it stands for.
  \<^item> \<open>Fex_Try\<close>, \<open>Fex_Kept\<close>: try scopes, error records and their printing; what compiling and importing leave alone.
  \<^item> \<open>Fex_Import\<close>: running files and importing modules: evaluator, compiler, try scopes, cache and files together.
  \<^item> \<open>Fex_Console\<close>: print, println, readline, readnumber over the text of the standard streams.
  \<^item> \<open>Fex_Init\<close>: the tables of functions and their registration, by category.

  \<^bold>\<open>The library (\<^verbatim>\<open>fex_builtins.c\<close>, \<^verbatim>\<open>sfc32.c\<close>) and the program (\<^verbatim>\<open>main.c\<close>).\<close>
  \<^item> \<open>Fex_Strings\<close>, \<open>Fex_Lists\<close>: functions on strings, bytes, lists, maps, types and numbers. The predicate \<open>gives\<close> is for computations that do not
    touch the heap and end with a value or an error of the program.
  \<^item> \<open>Fex_Json\<close>: reader and writer. The locale \<open>json_escaping\<close> says what a table of escapes must do for the reader to restore a text;
    it is interpreted on the tables of the library and, in \<open>Fex_Main\<close>, of the diagnostics.
  \<^item> \<open>Fex_Files\<close>: paths, files, directories, environment. The calls of the operating system are a record of functions on a state of
    their own, which is passed along with the context; \<open>lawful_files\<close> and \<open>lawful_dirs\<close> are what the theorems assume of them.
  \<^item> \<open>Fex_Process\<close>: running programs, with the calls on processes and descriptors as another such record. \<open>owned\<close> says which descriptors and
    children a run holds; every step is shown to keep track of it, and the clean-up to give them back.
  \<^item> \<open>Sfc32\<close>: the generator. \<open>Fex_Main\<close>: options, inputs, diagnostics, exit codes, the interactive loop.

  \<^bold>\<open>Fuel and bounds.\<close>
  Walks along lists of the heap have the fuel \<open>walk_fuel\<close>, one more than the number of cells: an acyclic list is shorter. The reader and
  the parser take a fuel that the theorems show to be enough when it is the length of the input. The evaluator has one fuel for its nesting, which
  is enough above \<open>max_eval_depth\<close>, and one for its loops, where programs that run forever exist: with more of it a
  result does not change. Imports are bounded by the number of files. The collector needs none. The JSON reader and writer follow the nesting
  of their data, which the code does not bound. The loops that wait for a child process end when the system says so; what is shown of them
  holds for every fuel, and that the loops over its pipes return what they hold.

  \<^bold>\<open>Not modelled.\<close>
  The branches for Windows; the build in which strings are single blocks from \<^verbatim>\<open>malloc\<close>; the stand-alone main
  function of \<^verbatim>\<open>fe.c\<close>; accessors and wrappers of the public interface that only pass a field or a call on. What
  registered C functions do is a parameter of the evaluator (\<open>host\<close>), and the functions of the library are modelled on their own.
  Blocks that the library takes from \<^verbatim>\<open>malloc\<close> for itself leave no trace but whether the request succeeded. The
  printed address of an opaque object and the digits of \<^verbatim>\<open>printf\<close> are those of a platform with 64-bit pointers and IEEE doubles.
\<close>

end
